(* ===== verification/Prelude.thy ===== *)
theory Prelude
  imports Main
begin

text \<open>
  Shared vocabulary of the development: the machine integers of the Rust code with their
  wrap-around, vectors with removal and insertion by index, and the outcome type of a
  fallible operation together with the sequencing of such operations over a state.

  Unsigned integers are natural numbers and every operation that can leave the 64-bit range
  has its reduction written out. The code is modelled as its release profile builds it:
  overflow checks are off there, so \<open>a + b\<close> on \<open>usize\<close> is reduced modulo \<open>2 ^ 64\<close>. A debug
  build panics exactly where one of these reductions is not the identity.
\<close>

section \<open>Collections of facts\<close>

named_theorems usize_simps \<open>exactness of the wrapping operations inside their range\<close>
named_theorems vec_simps \<open>vectors: removal, insertion, element access\<close>
named_theorems run_simps \<open>evaluation of sequenced fallible operations\<close>
named_theorems keeps_intros \<open>operations that keep a predicate of the state\<close>

section \<open>64-bit unsigned integers\<close>

type_synonym usize = nat
type_synonym u64 = nat

text \<open>\<open>W64\<close> stays folded in proofs, so that linear arithmetic treats it as one constant.\<close>

definition W64 :: nat where
  "W64 = 2 ^ 64"

definition uadd :: "usize \<Rightarrow> usize \<Rightarrow> usize" where
  "uadd a b = (a + b) mod W64"

definition usub :: "usize \<Rightarrow> usize \<Rightarrow> usize" where
  "usub a b = (a + W64 - b mod W64) mod W64"

definition umul :: "usize \<Rightarrow> usize \<Rightarrow> usize" where
  "umul a b = (a * b) mod W64"

text \<open>\<open>saturating_sub\<close> is the truncating subtraction of natural numbers.\<close>

definition saturating_sub :: "nat \<Rightarrow> nat \<Rightarrow> nat" where
  "saturating_sub a b = a - b"

text \<open>\<open>iter().sum::<usize>()\<close> and \<open>iter().product::<usize>()\<close>.\<close>

definition usum :: "usize list \<Rightarrow> usize" where
  "usum xs = foldl uadd 0 xs"

definition uproduct :: "usize list \<Rightarrow> usize" where
  "uproduct xs = foldl umul 1 xs"

lemma W64_pos [simp]: "0 < W64"
  by (simp add: W64_def)

lemma uadd_lt [simp]: "uadd a b < W64"
  by (simp add: uadd_def)

lemma usub_lt [simp]: "usub a b < W64"
  by (simp add: usub_def)

lemma umul_lt [simp]: "umul a b < W64"
  by (simp add: umul_def)

lemma uadd_exact [usize_simps]: "a + b < W64 \<Longrightarrow> uadd a b = a + b"
  by (simp add: uadd_def)

lemma usub_exact [usize_simps]: "b \<le> a \<Longrightarrow> a < W64 \<Longrightarrow> usub a b = a - b"
proof -
  assume "b \<le> a" and "a < W64"
  then have "usub a b = ((a - b) + W64) mod W64"
    by (simp add: usub_def)
  with \<open>a < W64\<close> show ?thesis by (simp del: Nat.add_diff_assoc2)
qed

lemma umul_exact [usize_simps]: "a * b < W64 \<Longrightarrow> umul a b = a * b"
  by (simp add: umul_def)

lemma foldl_uadd: "a < W64 \<Longrightarrow> foldl uadd a xs = (a + sum_list xs) mod W64"
  by (induction xs arbitrary: a) (simp_all add: uadd_def mod_simps ac_simps)

lemma usum_mod: "usum xs = sum_list xs mod W64"
  by (simp add: usum_def foldl_uadd)

lemma usum_exact [usize_simps]: "sum_list xs < W64 \<Longrightarrow> usum xs = sum_list xs"
  by (simp add: usum_mod)

lemma foldl_umul: "a < W64 \<Longrightarrow> foldl umul a xs = (a * prod_list xs) mod W64"
  by (induction xs arbitrary: a) (simp_all add: umul_def mod_simps ac_simps)

lemma uproduct_mod: "uproduct xs = prod_list xs mod W64"
  by (simp add: uproduct_def foldl_umul W64_def)

lemma uproduct_exact [usize_simps]: "prod_list xs < W64 \<Longrightarrow> uproduct xs = prod_list xs"
  by (simp add: uproduct_mod)

section \<open>Vectors\<close>

text \<open>
  \<open>Vec::remove(i)\<close>, \<open>Vec::insert(i, x)\<close> and \<open>slice::partition_point\<close>. The first two are
  only used at indices inside the vector (the callers' lemmas show it). On a slice that is
  not partitioned by the predicate \<open>partition_point\<close> returns an unspecified index; the
  callers keep theirs sorted, and there it is the length of the prefix that satisfies it.
\<close>

definition vec_remove :: "nat \<Rightarrow> 'a list \<Rightarrow> 'a list" where
  "vec_remove i xs = take i xs @ drop (Suc i) xs"

definition vec_insert :: "nat \<Rightarrow> 'a \<Rightarrow> 'a list \<Rightarrow> 'a list" where
  "vec_insert i x xs = take i xs @ x # drop i xs"

definition partition_point :: "('a \<Rightarrow> bool) \<Rightarrow> 'a list \<Rightarrow> nat" where
  "partition_point p xs = length (takeWhile p xs)"

text \<open>\<open>Vec::swap_remove(i)\<close>: the last element takes the place of the removed one.\<close>

definition vec_swap_remove :: "nat \<Rightarrow> 'a list \<Rightarrow> 'a list" where
  "vec_swap_remove i xs = butlast (xs[i := last xs])"

text \<open>\<open>slice::get(i)\<close> and \<open>Iterator::position(p)\<close>.\<close>

definition vec_get :: "'a list \<Rightarrow> nat \<Rightarrow> 'a option" where
  "vec_get xs i = (if i < length xs then Some (xs ! i) else None)"

fun position :: "('a \<Rightarrow> bool) \<Rightarrow> 'a list \<Rightarrow> nat option" where
  "position p [] = None"
| "position p (x # xs) = (if p x then Some 0 else map_option Suc (position p xs))"

lemma vec_remove_append [vec_simps]: "vec_remove (length xs) (xs @ y # ys) = xs @ ys"
  by (simp add: vec_remove_def)

lemma vec_remove_append_Suc [vec_simps]:
  "vec_remove (Suc (length xs)) (xs @ y # z # ys) = xs @ y # ys"
  by (simp add: vec_remove_def)

lemma vec_insert_append [vec_simps]: "vec_insert (length xs) x (xs @ ys) = xs @ x # ys"
  by (simp add: vec_insert_def)

lemma partition_point_append [vec_simps]:
  "(\<forall>x \<in> set xs. p x) \<Longrightarrow> (ys = [] \<or> \<not> p (hd ys)) \<Longrightarrow> partition_point p (xs @ ys) = length xs"
  by (cases ys) (auto simp add: partition_point_def takeWhile_append2 takeWhile_eq_all_conv [THEN iffD2])

lemma nth_length_append [vec_simps]: "(xs @ y # ys) ! length xs = y"
  by simp

lemma vec_get_Some: "vec_get xs i = Some x \<longleftrightarrow> i < length xs \<and> xs ! i = x"
  by (simp add: vec_get_def)

lemma vec_get_None: "vec_get xs i = None \<longleftrightarrow> length xs \<le> i"
  by (simp add: vec_get_def not_less)

lemma position_Some:
  "position p xs = Some i \<Longrightarrow> i < length xs \<and> p (xs ! i) \<and> (\<forall>j < i. \<not> p (xs ! j))"
proof (induction xs arbitrary: i)
  case Nil
  then show ?case by simp
next
  case (Cons x xs)
  show ?case
  proof (cases "p x")
    case True
    with Cons.prems show ?thesis by simp
  next
    case False
    with Cons.prems obtain k where k: "position p xs = Some k" "i = Suc k" by auto
    with Cons.IH [OF k(1)] False show ?thesis
      by (auto simp: less_Suc_eq_0_disj)
  qed
qed

lemma position_None: "position p xs = None \<longleftrightarrow> (\<forall>x \<in> set xs. \<not> p x)"
  by (induction xs) auto

lemma mset_swap_remove_split:
  assumes "i < length xs"
  shows "\<exists>ys zs. xs = ys @ xs ! i # zs \<and> length ys = i
    \<and> set (vec_swap_remove i xs) = set ys \<union> set zs"
proof -
  define ys zs where "ys = take i xs" and "zs = drop (Suc i) xs"
  have xs: "xs = ys @ xs ! i # zs" and len: "length ys = i"
    using assms by (simp_all add: ys_def zs_def id_take_nth_drop)
  have "set (vec_swap_remove i xs) = set ys \<union> set zs"
  proof (cases "zs = []")
    case True
    then have "xs[i := last xs] = ys @ [last xs]"
      using xs len by (metis list_update_length)
    then show ?thesis using True by (simp add: vec_swap_remove_def)
  next
    case False
    then have "last xs = last zs" using xs by (metis last.simps last_append list.distinct(1))
    then have "xs[i := last xs] = ys @ last zs # zs"
      using xs len by (metis list_update_length)
    then have "vec_swap_remove i xs = ys @ last zs # butlast zs"
      using False by (simp add: vec_swap_remove_def butlast_append)
    moreover have "insert (last zs) (set (butlast zs)) = set zs"
      using False by (metis append_butlast_last_id list.simps(15) rotate1.simps(2) set_rotate1)
    ultimately show ?thesis by simp
  qed
  with xs len show ?thesis by blast
qed

text \<open>A prefix of a range that avoids a set avoids it.\<close>

lemma shorter_range:
  fixes a :: nat
  assumes "{a ..< a + n} \<inter> A = {}" and "k \<le> n" shows "{a ..< a + k} \<inter> A = {}"
proof -
  have "{a ..< a + k} \<subseteq> {a ..< a + n}" using assms(2) by auto
  with assms(1) show ?thesis by blast
qed

end
