(* ===== verification/Errors.thy ===== *)
theory Errors
  imports Prelude
begin

text \<open>
  \<open>src/lib.rs\<close> and the two enumerations of \<open>src/vmt.rs\<close> its error type mentions: the error
  values of the crate, the conversion of driver return codes, and the outcome of a fallible
  operation. A panic of the source (an \<open>unwrap\<close> of \<open>None\<close>, an index out of range, a division
  by zero) is an outcome of its own, so no definition is silently total where the code is not.
\<close>

section \<open>Tiers and page states\<close>

datatype tier = Vram | Dram | Ssd

datatype page_state = Unmapped | Allocated | Resident | Warm | Cold

section \<open>Errors\<close>

text \<open>The \<open>std::io::Error\<close> values the crate creates or passes on.\<close>

datatype io_error = InvalidInput | InvalidData | UnexpectedEof | OsError int

datatype vugva_error =
    CudaError string int
  | NvrtcError string int
  | LibLoad string int
  | InvalidGpu nat
  | UnknownAllocation string
  | Io io_error
  | InvalidTransition page_state page_state string
  | DmaRingFull
  | DramOom usize usize usize

datatype 'a outcome = Ok 'a | Err vugva_error | Panic

definition check_cu :: "string \<Rightarrow> int \<Rightarrow> unit outcome" where
  "check_cu call code = (if code = 0 then Ok () else Err (CudaError call code))"

definition check_nvrtc :: "string \<Rightarrow> int \<Rightarrow> unit outcome" where
  "check_nvrtc call code = (if code = 0 then Ok () else Err (NvrtcError call code))"

lemma check_cu_cases:
  "check_cu call code = Ok u \<longleftrightarrow> code = 0"
  "check_cu call code = Err e \<longleftrightarrow> code \<noteq> 0 \<and> e = CudaError call code"
  "check_cu call code \<noteq> Panic"
  by (auto simp: check_cu_def)

section \<open>Sequencing\<close>

text \<open>
  An operation on a state of type \<open>'s\<close> returns its outcome and the state it leaves. \<open>bindM\<close>
  is the \<open>?\<close> operator: an error or a panic ends the operation in the state it was reached in.
\<close>

type_synonym ('s, 'a) op = "'s \<Rightarrow> 'a outcome \<times> 's"

definition retM :: "'a \<Rightarrow> ('s, 'a) op" where
  "retM x = (\<lambda>s. (Ok x, s))"

definition errM :: "vugva_error \<Rightarrow> ('s, 'a) op" where
  "errM e = (\<lambda>s. (Err e, s))"

definition panicM :: "('s, 'a) op" where
  "panicM = (\<lambda>s. (Panic, s))"

definition liftM :: "'a outcome \<Rightarrow> ('s, 'a) op" where
  "liftM r = (\<lambda>s. (r, s))"

definition bindM :: "('s, 'a) op \<Rightarrow> ('a \<Rightarrow> ('s, 'b) op) \<Rightarrow> ('s, 'b) op" where
  "bindM m f = (\<lambda>s. case m s of
      (Ok x, t) \<Rightarrow> f x t
    | (Err e, t) \<Rightarrow> (Err e, t)
    | (Panic, t) \<Rightarrow> (Panic, t))"

definition getM :: "('s \<Rightarrow> 'a) \<Rightarrow> ('s, 'a) op" where
  "getM f = (\<lambda>s. (Ok (f s), s))"

definition modM :: "('s \<Rightarrow> 's) \<Rightarrow> ('s, unit) op" where
  "modM f = (\<lambda>s. (Ok (), f s))"

text \<open>\<open>option.ok_or(e)?\<close> and \<open>option.unwrap()\<close>.\<close>

definition ok_or :: "'a option \<Rightarrow> vugva_error \<Rightarrow> ('s, 'a) op" where
  "ok_or x e = (case x of None \<Rightarrow> errM e | Some v \<Rightarrow> retM v)"

definition unwrapM :: "'a option \<Rightarrow> ('s, 'a) op" where
  "unwrapM x = (case x of None \<Rightarrow> panicM | Some v \<Rightarrow> retM v)"

text \<open>
  \<open>catchM m\<close> hands the \<open>Result\<close> of \<open>m\<close> to its caller as a value, for the places where the
  code matches on it (\<open>let _ = ..\<close>, \<open>if let Ok(..)\<close>); a panic still ends the operation.
\<close>

definition catchM :: "('s, 'a) op \<Rightarrow> ('s, vugva_error + 'a) op" where
  "catchM m = (\<lambda>s. case m s of
      (Ok x, t) \<Rightarrow> (Ok (Inr x), t)
    | (Err e, t) \<Rightarrow> (Ok (Inl e), t)
    | (Panic, t) \<Rightarrow> (Panic, t))"

definition ignoreM :: "('s, 'a) op \<Rightarrow> ('s, unit) op" where
  "ignoreM m = bindM (catchM m) (\<lambda>_. retM ())"

text \<open>A \<open>for\<close> loop whose body may return early with an error.\<close>

fun forM :: "'a list \<Rightarrow> ('a \<Rightarrow> ('s, unit) op) \<Rightarrow> ('s, unit) op" where
  "forM [] f = retM ()"
| "forM (x # xs) f = bindM (f x) (\<lambda>_. forM xs f)"

lemma retM_run [run_simps]: "retM x s = (Ok x, s)"
  by (simp add: retM_def)

lemma errM_run [run_simps]: "errM e s = (Err e, s)"
  by (simp add: errM_def)

lemma panicM_run [run_simps]: "panicM s = (Panic, s)"
  by (simp add: panicM_def)

lemma liftM_run [run_simps]: "liftM r s = (r, s)"
  by (simp add: liftM_def)

lemma getM_run [run_simps]: "getM f s = (Ok (f s), s)"
  by (simp add: getM_def)

lemma modM_run [run_simps]: "modM f s = (Ok (), f s)"
  by (simp add: modM_def)

lemma bindM_run [run_simps]:
  "m s = (Ok x, t) \<Longrightarrow> bindM m f s = f x t"
  "m s = (Err e, t) \<Longrightarrow> bindM m f s = (Err e, t)"
  "m s = (Panic, t) \<Longrightarrow> bindM m f s = (Panic, t)"
  by (simp_all add: bindM_def)

lemma bindM_Ok_iff:
  "bindM m f s = (Ok y, t) \<longleftrightarrow> (\<exists>x u. m s = (Ok x, u) \<and> f x u = (Ok y, t))"
  by (auto simp: bindM_def split: prod.splits outcome.splits)

lemma bindM_Err_iff:
  "bindM m f s = (Err e, t) \<longleftrightarrow>
     m s = (Err e, t) \<or> (\<exists>x u. m s = (Ok x, u) \<and> f x u = (Err e, t))"
  by (auto simp: bindM_def split: prod.splits outcome.splits)

lemma ok_or_run [run_simps]:
  "ok_or (Some v) e s = (Ok v, s)"
  "ok_or None e s = (Err e, s)"
  by (simp_all add: ok_or_def run_simps)

lemma unwrapM_run [run_simps]:
  "unwrapM (Some v) s = (Ok v, s)"
  "unwrapM None s = (Panic, s)"
  by (simp_all add: unwrapM_def run_simps)

lemma catchM_run [run_simps]:
  "m s = (Ok x, t) \<Longrightarrow> catchM m s = (Ok (Inr x), t)"
  "m s = (Err e, t) \<Longrightarrow> catchM m s = (Ok (Inl e), t)"
  "m s = (Panic, t) \<Longrightarrow> catchM m s = (Panic, t)"
  by (simp_all add: catchM_def)

lemma bind_now:
  "bindM (getM f) k s = k (f s) s" "bindM (retM x) k s = k x s" "bindM (unwrapM (Some x)) k s = k x s"
  by (simp_all add: bindM_def getM_def retM_def unwrapM_def)

lemma forM_append: "forM (xs @ ys) f = bindM (forM xs f) (\<lambda>_. forM ys f)"
  by (induction xs) (auto simp: fun_eq_iff bindM_def run_simps split: prod.split outcome.split)

text \<open>A loop keeps what its body keeps, and does not panic where its body does not.\<close>

lemma bindM_inv:
  assumes "I (snd (m s))" and "\<And>x t. m s = (Ok x, t) \<Longrightarrow> I (snd (f x t))"
  shows "I (snd (bindM m f s))"
  using assms by (auto simp: bindM_def split: prod.split outcome.split)

lemma bindM_no_panic:
  assumes "fst (m s) \<noteq> Panic" and "\<And>x t. m s = (Ok x, t) \<Longrightarrow> fst (f x t) \<noteq> Panic"
  shows "fst (bindM m f s) \<noteq> Panic"
  using assms by (auto simp: bindM_def split: prod.splits outcome.splits)

lemma forM_inv:
  assumes "\<And>x s. x \<in> set xs \<Longrightarrow> I s \<Longrightarrow> I (snd (f x s))" and "I s"
  shows "I (snd (forM xs f s))"
  using assms
proof (induction xs arbitrary: s)
  case (Cons x xs)
  have "I (snd (f x s))" using Cons.prems by simp
  then show ?case
    unfolding forM.simps
  proof (rule bindM_inv)
    fix u t assume "f x s = (Ok u, t)"
    with \<open>I (snd (f x s))\<close> Cons show "I (snd (forM xs f t))" by simp
  qed
qed (simp add: run_simps)

lemma forM_no_panic:
  assumes "\<And>x s. x \<in> set xs \<Longrightarrow> I s \<Longrightarrow> I (snd (f x s)) \<and> fst (f x s) \<noteq> Panic" and "I s"
  shows "fst (forM xs f s) \<noteq> Panic"
  using assms
proof (induction xs arbitrary: s)
  case (Cons x xs)
  have first: "I (snd (f x s)) \<and> fst (f x s) \<noteq> Panic" using Cons.prems by simp
  show ?case
    unfolding forM.simps
  proof (rule bindM_no_panic)
    fix u t assume "f x s = (Ok u, t)"
    with first Cons show "fst (forM xs f t) \<noteq> Panic" by simp
  qed (use first in simp)
qed (simp add: run_simps)

section \<open>Operations that keep a predicate\<close>

text \<open>\<open>keeps I m\<close>: whatever the outcome of \<open>m\<close>, the state it leaves satisfies \<open>I\<close> if its state did.\<close>

definition keeps :: "('s \<Rightarrow> bool) \<Rightarrow> ('s, 'a) op \<Rightarrow> bool" where
  "keeps I m \<longleftrightarrow> (\<forall>s. I s \<longrightarrow> I (snd (m s)))"

lemma keepsI: "(\<And>s. I s \<Longrightarrow> I (snd (m s))) \<Longrightarrow> keeps I m"
  by (simp add: keeps_def)

lemma keepsD: "keeps I m \<Longrightarrow> I s \<Longrightarrow> m s = (r, t) \<Longrightarrow> I t"
  unfolding keeps_def by (metis snd_conv)

lemma keeps_pure [keeps_intros]:
  "keeps I (retM x)" "keeps I (errM e)" "keeps I panicM" "keeps I (liftM r)" "keeps I (getM f)"
  "keeps I (ok_or y e)" "keeps I (unwrapM y)"
  by (simp_all add: keeps_def run_simps ok_or_def unwrapM_def split: option.split)

lemma keeps_bindM [keeps_intros]:
  assumes "keeps I m" and "\<And>x. keeps I (f x)"
  shows "keeps I (bindM m f)"
proof (rule keepsI)
  fix s assume "I s"
  with assms(1) have "I (snd (m s))" by (simp add: keeps_def)
  then show "I (snd (bindM m f s))"
  proof (rule bindM_inv)
    fix x t assume "m s = (Ok x, t)"
    with \<open>I (snd (m s))\<close> assms(2) [of x] show "I (snd (f x t))" by (simp add: keeps_def)
  qed
qed

lemma keeps_catchM [keeps_intros]:
  assumes "keeps I m" shows "keeps I (catchM m)"
proof (rule keepsI)
  fix s assume "I s"
  with assms have "I (snd (m s))" by (simp add: keeps_def)
  then show "I (snd (catchM m s))" by (auto simp: catchM_def split: prod.splits outcome.splits)
qed

lemma keeps_ignoreM [keeps_intros]: "keeps I m \<Longrightarrow> keeps I (ignoreM m)"
  unfolding ignoreM_def by (intro keeps_intros)

lemma keeps_forM [keeps_intros]: "(\<And>x. x \<in> set xs \<Longrightarrow> keeps I (f x)) \<Longrightarrow> keeps I (forM xs f)"
proof (induction xs)
  case (Cons x xs)
  then show ?case unfolding forM.simps by (intro keeps_bindM) simp_all
qed (simp add: keeps_pure)

lemma keeps_if [keeps_intros]: "(b \<Longrightarrow> keeps I m) \<Longrightarrow> (\<not> b \<Longrightarrow> keeps I n) \<Longrightarrow> keeps I (if b then m else n)"
  by simp

end
