(* ===== verification/Region.thy ===== *)
theory Region
  imports Errors "HOL-Library.Multiset"
begin

text \<open>
  The contract of an allocator over a flat range of addresses, as its two clients in the crate use
  it: the NVMe tier (\<open>SpillFile\<close>, over \<open>RangeAllocator\<close>) and the DRAM tier (\<open>DramPool\<close>). The
  abstract state is the set of live bytes. The contract's main law is \<open>canonical\<close>: the live bytes
  determine the allocator's whole state, so nothing of its history is left in it.
\<close>

section \<open>A client that allocates and releases\<close>

datatype client_op = Get usize | Put nat

text \<open>The client keeps the list of ranges it holds, as (pointer, requested size).\<close>

fun client_step ::
  "('s \<Rightarrow> usize \<Rightarrow> usize outcome \<times> 's) \<Rightarrow> ('s \<Rightarrow> usize \<Rightarrow> usize \<Rightarrow> 's) \<Rightarrow>
   's \<times> (usize \<times> usize) list \<Rightarrow> client_op \<Rightarrow> 's \<times> (usize \<times> usize) list" where
  "client_step alloc release (s, held) (Get n) =
     (case alloc s n of
        (Ok p, t) \<Rightarrow> (t, held @ [(p, n)])
      | (_, t) \<Rightarrow> (t, held))"
| "client_step alloc release (s, held) (Put i) =
     (if i < length held
      then (release s (fst (held ! i)) (snd (held ! i)), vec_remove i held)
      else (s, held))"

definition client_run ::
  "('s \<Rightarrow> usize \<Rightarrow> usize outcome \<times> 's) \<Rightarrow> ('s \<Rightarrow> usize \<Rightarrow> usize \<Rightarrow> 's) \<Rightarrow>
   's \<Rightarrow> client_op list \<Rightarrow> 's \<times> (usize \<times> usize) list" where
  "client_run alloc release s ops = foldl (client_step alloc release) (s, []) ops"

fun op_size :: "client_op \<Rightarrow> usize" where
  "op_size (Get n) = n"
| "op_size (Put i) = 0"

section \<open>Ranges that tile a set\<close>

definition held_range :: "(usize \<Rightarrow> usize) \<Rightarrow> usize \<times> usize \<Rightarrow> nat set" where
  "held_range span h = {fst h ..< fst h + span (snd h)}"

definition disjoint_held :: "(usize \<Rightarrow> usize) \<Rightarrow> (usize \<times> usize) list \<Rightarrow> bool" where
  "disjoint_held span = sorted_wrt (\<lambda>h k. held_range span h \<inter> held_range span k = {})"

definition tiles :: "(usize \<Rightarrow> usize) \<Rightarrow> (usize \<times> usize) list \<Rightarrow> nat set \<Rightarrow> bool" where
  "tiles span held A \<longleftrightarrow> disjoint_held span held \<and> A = (\<Union>h \<in> set held. held_range span h)"

lemma tiles_Nil [simp]: "tiles span [] A \<longleftrightarrow> A = {}"
  by (simp add: tiles_def disjoint_held_def)

lemma tiles_snoc:
  assumes "tiles span held A" and "held_range span h \<inter> A = {}"
  shows "tiles span (held @ [h]) (A \<union> held_range span h)"
  using assms by (fastforce simp: tiles_def disjoint_held_def sorted_wrt_append)

lemma tiles_remove:
  assumes "tiles span held A" and i: "i < length held"
  shows "tiles span (vec_remove i held) (A - held_range span (held ! i))"
    and "held_range span (held ! i) \<subseteq> A"
proof -
  define xs ys h where "xs = take i held" and "ys = drop (Suc i) held" and "h = held ! i"
  have held: "held = xs @ h # ys" and len: "length xs = i"
    using i by (simp_all add: xs_def ys_def h_def id_take_nth_drop [symmetric])
  have rem: "vec_remove i held = xs @ ys"
    using vec_remove_append [of xs h ys] by (simp add: held len)
  have disj: "disjoint_held span (xs @ ys)"
    and apart: "\<forall>k \<in> set (xs @ ys). held_range span k \<inter> held_range span h = {}"
    using assms(1) unfolding held tiles_def disjoint_held_def by (auto simp: sorted_wrt_append)
  have "A = held_range span h \<union> (\<Union>k \<in> set (xs @ ys). held_range span k)"
    using assms(1) unfolding held tiles_def by auto
  with apart have "A - held_range span h = (\<Union>k \<in> set (xs @ ys). held_range span k)"
    by auto
  with disj show "tiles span (vec_remove i held) (A - held_range span (held ! i))"
    unfolding h_def [symmetric] rem tiles_def by simp
  show "held_range span (held ! i) \<subseteq> A"
    using assms i by (auto simp: tiles_def)
qed

lemma tiles_card: "tiles span held A \<Longrightarrow> card A = sum_list (map (span \<circ> snd) held)"
proof (induction held arbitrary: A rule: rev_induct)
  case Nil
  then show ?case by simp
next
  case (snoc h held)
  define B where "B = (\<Union>k \<in> set held. held_range span k)"
  have "tiles span held B" and "A = B \<union> held_range span h" and "B \<inter> held_range span h = {}"
    using snoc.prems by (auto simp: tiles_def disjoint_held_def sorted_wrt_append B_def)
  moreover have "finite B" by (simp add: B_def held_range_def)
  ultimately show ?case
    using snoc.IH by (simp add: card_Un_disjoint held_range_def)
qed

text \<open>A collection of ranges no two of which have an address in common.\<close>

definition apart_ranges :: "('e \<Rightarrow> nat set) \<Rightarrow> 'e multiset \<Rightarrow> bool" where
  "apart_ranges area M \<longleftrightarrow> (\<forall>x. size (filter_mset (\<lambda>e. x \<in> area e) M) \<le> 1)"

lemma apart_ranges_empty [simp]: "apart_ranges area {#}"
  by (simp add: apart_ranges_def)

lemma apart_ranges_less:
  assumes "apart_ranges area M" and sub: "L \<subseteq># M" shows "apart_ranges area L"
proof -
  have "size (filter_mset (\<lambda>e. x \<in> area e) L) \<le> size (filter_mset (\<lambda>e. x \<in> area e) M)" for x
    by (intro size_mset_mono multiset_filter_mono sub)
  with assms(1) show ?thesis unfolding apart_ranges_def by (meson order_trans)
qed

lemma apart_ranges_two:
  assumes "apart_ranges area M" and "{#a, b#} \<subseteq># M" shows "area a \<inter> area b = {}"
proof (rule ccontr)
  assume "area a \<inter> area b \<noteq> {}"
  then obtain x where "x \<in> area a" "x \<in> area b" by blast
  then have "size (filter_mset (\<lambda>e. x \<in> area e) {#a, b#}) = 2" by simp
  moreover have "size (filter_mset (\<lambda>e. x \<in> area e) {#a, b#}) \<le> 1"
    using apart_ranges_less [OF assms] unfolding apart_ranges_def by blast
  ultimately show False by simp
qed

lemma apart_ranges_add:
  assumes M: "apart_ranges area M" and new: "\<And>e. e \<in># M \<Longrightarrow> area a \<inter> area e = {}"
  shows "apart_ranges area (add_mset a M)"
  unfolding apart_ranges_def
proof
  fix x show "size (filter_mset (\<lambda>e. x \<in> area e) (add_mset a M)) \<le> 1"
  proof (cases "x \<in> area a")
    case True
    with new have "filter_mset (\<lambda>e. x \<in> area e) M = filter_mset (\<lambda>_. False) M"
      by (intro filter_mset_cong) auto
    then show ?thesis using True by simp
  qed (use M in \<open>simp add: apart_ranges_def\<close>)
qed

section \<open>The contract\<close>

text \<open>
  \<open>span n\<close> is the number of bytes an allocation of \<open>n\<close> bytes occupies, \<open>fits\<close> excludes the
  sizes whose alignment leaves the 64-bit range, \<open>frame\<close> is the part of the state no operation
  changes (the capacity, the base address).
\<close>

locale region =
  fixes alloc :: "'s \<Rightarrow> usize \<Rightarrow> usize outcome \<times> 's"
    and release :: "'s \<Rightarrow> usize \<Rightarrow> usize \<Rightarrow> 's"
    and live :: "'s \<Rightarrow> nat set"
    and inv :: "'s \<Rightarrow> bool"
    and fits :: "'s \<Rightarrow> usize \<Rightarrow> bool"
    and span :: "usize \<Rightarrow> usize"
    and frame :: "'s \<Rightarrow> 'f"
  assumes alloc_Ok: "inv s \<Longrightarrow> fits s n \<Longrightarrow> alloc s n = (Ok p, t) \<Longrightarrow>
      inv t \<and> frame t = frame s \<and> held_range span (p, n) \<inter> live s = {}
      \<and> live t = live s \<union> held_range span (p, n) \<and> p + span n < W64"
    and alloc_Err: "inv s \<Longrightarrow> fits s n \<Longrightarrow> alloc s n = (Err e, t) \<Longrightarrow> t = s"
    and alloc_total: "fst (alloc s n) \<noteq> Panic"
    and release_live: "inv s \<Longrightarrow> fits s n \<Longrightarrow> 0 < span n \<Longrightarrow> held_range span (p, n) \<subseteq> live s \<Longrightarrow>
      inv (release s p n) \<and> frame (release s p n) = frame s
      \<and> live (release s p n) = live s - held_range span (p, n)"
    and release_other: "inv s \<Longrightarrow> fits s n \<Longrightarrow> p + span n < W64 \<Longrightarrow>
      span n = 0 \<or> \<not> held_range span (p, n) \<subseteq> live s \<Longrightarrow> release s p n = s"
    and canonical: "inv s \<Longrightarrow> inv t \<Longrightarrow> frame s = frame t \<Longrightarrow> live s = live t \<Longrightarrow> s = t"
    and fits_frame: "frame s = frame t \<Longrightarrow> fits s n \<longleftrightarrow> fits t n"
begin

lemma release_alloc:
  assumes "inv s" and "fits s n" and "0 < span n" and "alloc s n = (Ok p, t)"
  shows "release t p n = s"
proof -
  note a = alloc_Ok [OF assms(1,2,4)]
  then have "fits t n" using fits_frame assms(2) by blast
  with a have "inv (release t p n) \<and> frame (release t p n) = frame t
      \<and> live (release t p n) = live t - held_range span (p, n)"
    using assms(3) by (intro release_live) auto
  with a assms(1) show ?thesis by (intro canonical) auto
qed

lemma release_alloc_any:
  assumes "inv s" and "fits s n" and "alloc s n = (Ok p, t)"
  shows "release t p n = s"
proof (cases "span n = 0")
  case True
  note a = alloc_Ok [OF assms]
  with True have "t = s" using assms(1) by (intro canonical) (simp_all add: held_range_def)
  with True a assms show ?thesis by (auto intro: release_other)
next
  case False
  with assms show ?thesis by (intro release_alloc) simp_all
qed

lemma release_twice:
  assumes "inv s" and "fits s n" and "0 < span n" and "p + span n < W64"
    and "held_range span (p, n) \<subseteq> live s"
  shows "release (release s p n) p n = release s p n"
proof -
  note r = release_live [OF assms(1,2,3,5)]
  then have "fits (release s p n) n" using fits_frame assms(2) by blast
  moreover have "p \<in> held_range span (p, n)"
    using assms(3) by (simp add: held_range_def)
  then have "\<not> held_range span (p, n) \<subseteq> live (release s p n)"
    using r by blast
  ultimately show ?thesis using r assms(4) by (intro release_other) auto
qed

lemma release_commute:
  assumes "inv s" and "fits s m" "fits s n" and "0 < span m" "0 < span n"
    and "held_range span (p, m) \<subseteq> live s" "held_range span (q, n) \<subseteq> live s"
    and "held_range span (p, m) \<inter> held_range span (q, n) = {}"
  shows "release (release s p m) q n = release (release s q n) p m"
proof -
  note rp = release_live [OF assms(1,2,4,6)] and rq = release_live [OF assms(1,3,5,7)]
  have "fits (release s p m) n" and "fits (release s q n) m"
    using rp rq fits_frame assms(2,3) by blast+
  moreover have "held_range span (q, n) \<subseteq> live (release s p m)"
    and "held_range span (p, m) \<subseteq> live (release s q n)"
    using rp rq assms(6-8) by blast+
  ultimately have "inv (release (release s p m) q n) \<and> frame (release (release s p m) q n) = frame s
      \<and> live (release (release s p m) q n) = live s - held_range span (p, m) - held_range span (q, n)"
    and "inv (release (release s q n) p m) \<and> frame (release (release s q n) p m) = frame s
      \<and> live (release (release s q n) p m) = live s - held_range span (q, n) - held_range span (p, m)"
    using release_live [of "release s p m" n q] release_live [of "release s q n" m p] rp rq assms(4,5)
    by simp_all
  then show ?thesis by (intro canonical) auto
qed

text \<open>One step of a client keeps the held ranges a tiling of the live bytes.\<close>

definition client_ok :: "'s \<Rightarrow> 's \<times> (usize \<times> usize) list \<Rightarrow> bool" where
  "client_ok s0 c \<longleftrightarrow> inv (fst c) \<and> frame (fst c) = frame s0 \<and> tiles span (snd c) (live (fst c))
     \<and> (\<forall>(p, n) \<in> set (snd c). fits s0 n \<and> p + span n < W64)"

lemma client_step_ok:
  assumes ok: "client_ok s0 (s, held)" and fits: "fits s0 (op_size x)"
  shows "client_ok s0 (client_step alloc release (s, held) x)"
proof (cases x)
  case (Get n)
  obtain r t where run: "alloc s n = (r, t)" by force
  have inv: "inv s" and frame: "frame s = frame s0"
    using ok by (simp_all add: client_ok_def)
  have s: "inv s" "fits s n"
    using inv fits fits_frame [OF frame, of n] by (simp_all add: Get)
  show ?thesis
  proof (cases r)
    case (Ok p)
    with alloc_Ok [OF s] run have a: "inv t \<and> frame t = frame s \<and> held_range span (p, n) \<inter> live s = {}
      \<and> live t = live s \<union> held_range span (p, n) \<and> p + span n < W64" by blast
    have "tiles span held (live s)" using ok by (simp add: client_ok_def)
    from tiles_snoc [OF this, of "(p, n)"] a have "tiles span (held @ [(p, n)]) (live t)"
      by simp
    with a ok fits frame Ok run show ?thesis by (simp add: client_ok_def Get)
  next
    case (Err e)
    with alloc_Err [OF s] run ok show ?thesis by (auto simp: Get)
  next
    case Panic
    with alloc_total [of s n] run show ?thesis by simp
  qed
next
  case (Put i)
  show ?thesis
  proof (cases "i < length held")
    case True
    obtain p n where h: "held ! i = (p, n)" by force
    have s: "inv s" "frame s = frame s0" and tiles: "tiles span held (live s)"
      using ok by (auto simp: client_ok_def)
    have pn: "fits s0 n" "p + span n < W64"
      using ok True h nth_mem [OF True] by (auto simp: client_ok_def)
    then have fit: "fits s n" using fits_frame s(2) by blast
    note rem = tiles_remove [OF tiles True, unfolded h]
    have "inv (release s p n) \<and> frame (release s p n) = frame s
        \<and> live (release s p n) = live s - held_range span (p, n)"
    proof (cases "span n = 0")
      case True
      then show ?thesis using release_other [OF s(1) fit pn(2)] s by (simp add: held_range_def)
    next
      case False
      then show ?thesis using release_live [OF s(1) fit _ rem(2)] by simp
    qed
    moreover have "set (vec_remove i held) \<subseteq> set held"
      by (auto simp: vec_remove_def dest: in_set_takeD in_set_dropD)
    ultimately show ?thesis using ok True h rem s by (auto simp: client_ok_def Put)
  qed (use ok in \<open>simp add: Put\<close>)
qed

lemma client_run_ok:
  assumes "inv s0" and "live s0 = {}" and "\<forall>x \<in> set ops. fits s0 (op_size x)"
  shows "client_ok s0 (client_run alloc release s0 ops)"
proof -
  have "client_ok s0 (foldl (client_step alloc release) c ops)" if "client_ok s0 c" for c
    using that assms(3)
  proof (induction ops arbitrary: c)
    case Nil
    then show ?case by simp
  next
    case (Cons x ops)
    obtain s held where "c = (s, held)" by force
    with Cons client_step_ok show ?case by simp
  qed
  from this [of "(s0, [])"] assms show ?thesis
    unfolding client_run_def by (simp add: client_ok_def)
qed

text \<open>A client that has returned everything leaves the state it started from.\<close>

lemma client_run_returns:
  assumes "inv s0" and "live s0 = {}" and "\<forall>x \<in> set ops. fits s0 (op_size x)"
    and "client_run alloc release s0 ops = (s, [])"
  shows "s = s0"
  using client_run_ok [OF assms(1-3)] assms by (intro canonical) (auto simp: client_ok_def)

end

end
