(* ===== verification/RangeAlloc.thy ===== *)
theory RangeAlloc
  imports Region "HOL-Library.Word"
begin

unbundle bit_operations_syntax

text \<open>
  \<open>src/range_alloc.rs\<close>: the coalescing best-fit allocator over \<open>[0, capacity)\<close>, shared by the
  NVMe tier (\<open>SpillFile\<close>) and, in a copy of its own, by the DRAM tier (\<open>DramPool\<close>).
\<close>

section \<open>The model\<close>

type_synonym block = "usize \<times> usize"

record range_allocator =
  ra_capacity :: usize
  ra_offset :: usize
  ra_free_blocks :: "block list"

definition ALIGN :: usize where
  "ALIGN = 64"

definition ra_new :: "usize \<Rightarrow> range_allocator" where
  "ra_new capacity = \<lparr>ra_capacity = capacity, ra_offset = 0, ra_free_blocks = []\<rparr>"

text \<open>\<open>(bytes + ALIGN - 1) & !(ALIGN - 1)\<close>, on 64-bit words.\<close>

definition ra_align :: "usize \<Rightarrow> usize" where
  "ra_align bytes =
     unat ((word_of_nat bytes + word_of_nat ALIGN - 1) AND NOT (word_of_nat ALIGN - 1) :: 64 word)"

definition ra_used :: "range_allocator \<Rightarrow> usize" where
  "ra_used r = usub (ra_offset r) (usum (map snd (ra_free_blocks r)))"

definition ra_free_block_count :: "range_allocator \<Rightarrow> usize" where
  "ra_free_block_count r = length (ra_free_blocks r)"

text \<open>The selection loop of \<open>allocate\<close>: \<open>best\<close> is the index of the tightest block so far.\<close>

fun best_fit :: "block list \<Rightarrow> usize \<Rightarrow> (nat \<times> block) list \<Rightarrow> nat option \<Rightarrow> nat option" where
  "best_fit blocks aligned [] best = best"
| "best_fit blocks aligned ((i, (_, len)) # rest) best =
     best_fit blocks aligned rest
       (if aligned \<le> len \<and>
           (best = None \<or> (case best of None \<Rightarrow> False | Some b \<Rightarrow> len < snd (blocks ! b)))
        then Some i else best)"

definition ra_allocate :: "range_allocator \<Rightarrow> usize \<Rightarrow> usize outcome \<times> range_allocator" where
  "ra_allocate r bytes =
     (let aligned = ra_align bytes; blocks = ra_free_blocks r in
      case best_fit blocks aligned (enumerate 0 blocks) None of
        Some i \<Rightarrow>
          (let (off, len) = blocks ! i in
           if len = aligned
           then (Ok off, r\<lparr>ra_free_blocks := vec_remove i blocks\<rparr>)
           else (Ok off, r\<lparr>ra_free_blocks := blocks[i := (uadd off aligned, usub len aligned)]\<rparr>))
      | None \<Rightarrow>
          if uadd (ra_offset r) aligned > ra_capacity r
          then (Err (DramOom aligned (usub (ra_capacity r) (ra_used r)) (ra_capacity r)), r)
          else (Ok (ra_offset r), r\<lparr>ra_offset := uadd (ra_offset r) aligned\<rparr>))"

text \<open>
  \<open>free\<close>, in the order of the code: the two range checks, the two overlap checks, the insertion,
  the merge with the right neighbour, the merge with the left one, the retraction.
\<close>

definition coalesce_right :: "block list \<Rightarrow> nat \<Rightarrow> usize \<Rightarrow> usize \<Rightarrow> block list" where
  "coalesce_right blocks pos off len =
     (if pos + 1 < length blocks then
        (let (no, nl) = blocks ! (pos + 1) in
         if uadd off len = no
         then vec_remove (pos + 1)
                (blocks[pos := (fst (blocks ! pos), uadd (snd (blocks ! pos)) nl)])
         else blocks)
      else blocks)"

definition coalesce_left :: "block list \<Rightarrow> nat \<Rightarrow> usize \<Rightarrow> block list \<times> nat" where
  "coalesce_left blocks pos off =
     (if pos > 0 then
        (let (po, pl) = blocks ! (pos - 1) in
         if uadd po pl = off
         then (vec_remove pos
                 (blocks[pos - 1 := (po, uadd pl (snd (blocks ! pos)))]), pos - 1)
         else (blocks, pos))
      else (blocks, pos))"

definition retract :: "range_allocator \<Rightarrow> block list \<Rightarrow> nat \<Rightarrow> range_allocator" where
  "retract r blocks idx =
     (let (b, l) = blocks ! idx in
      if uadd b l = ra_offset r
      then r\<lparr>ra_offset := b, ra_free_blocks := vec_remove idx blocks\<rparr>
      else r\<lparr>ra_free_blocks := blocks\<rparr>)"

definition ra_free :: "range_allocator \<Rightarrow> usize \<Rightarrow> usize \<Rightarrow> range_allocator" where
  "ra_free r off bytes =
     (let len = ra_align bytes; blocks = ra_free_blocks r in
      if len = 0 \<or> uadd off len > ra_offset r then r
      else
       (let pos = partition_point (\<lambda>(b, _). b < off) blocks in
        if pos < length blocks \<and> uadd off len > fst (blocks ! pos) then r
        else if pos > 0 \<and> (let (po, pl) = blocks ! (pos - 1) in uadd po pl > off) then r
        else
         (let inserted = vec_insert pos (off, len) blocks;
              right = coalesce_right inserted pos off len;
              (left, idx) = coalesce_left right pos off
          in retract r left idx)))"

section \<open>Alignment\<close>

lemma ra_align_mod: "ra_align b = ((b + 63) mod W64) div 64 * 64"
proof -
  define w :: "64 word" where "w = word_of_nat (b + 63)"
  have eq: "(word_of_nat b + word_of_nat ALIGN - 1 :: 64 word) = w"
    by (simp add: w_def ALIGN_def)
  have m: "(word_of_nat ALIGN - 1 :: 64 word) = mask 6"
    by (simp add: ALIGN_def mask_eq_exp_minus_1)
  have "w AND NOT (mask 6) = push_bit 6 (drop_bit 6 w)"
    by (rule bit_eqI) (auto simp: bit_simps)
  also have "\<dots> = w - take_bit 6 w"
    by (metis add_diff_cancel_right' bits_ident)
  finally have "unat (w AND NOT (mask 6)) = unat w - unat (take_bit 6 w)"
    by (simp add: unat_sub word_le_nat_alt unsigned_take_bit_eq take_bit_nat_less_eq_self)
  also have "unat (take_bit 6 w) = take_bit 6 (unat w)"
    by (rule unsigned_take_bit_eq)
  also have "\<dots> = unat w mod 64"
    by (simp add: take_bit_eq_mod)
  also have "unat w - unat w mod 64 = unat w div 64 * 64"
    by (simp add: minus_mod_eq_div_mult)
  also have "unat w = (b + 63) mod W64"
    by (simp only: w_def unat_of_nat W64_def) simp
  finally show ?thesis
    by (simp add: ra_align_def eq m)
qed

lemma ra_align_exact: "b + 63 < W64 \<Longrightarrow> ra_align b = (b + 63) div 64 * 64"
  by (simp add: ra_align_mod)

lemma ra_align_bounds:
  assumes "b + 63 < W64"
  shows "b \<le> ra_align b" and "ra_align b \<le> b + 63"
  using assms by (simp_all add: ra_align_exact)

lemma ra_align_dvd: "64 dvd ra_align b"
  by (simp add: ra_align_mod)

lemma ra_align_eq_0: "b + 63 < W64 \<Longrightarrow> ra_align b = 0 \<longleftrightarrow> b = 0"
  by (auto simp: ra_align_exact)

lemma ra_align_idem: "b + 63 < W64 \<Longrightarrow> 64 dvd b \<Longrightarrow> ra_align b = b"
  by (auto simp: ra_align_exact elim!: dvdE)

section \<open>Sorted, separated lists of blocks\<close>

text \<open>
  \<open>chain lo bs hi\<close>: the blocks are non-empty, lie in \<open>[lo, hi)\<close>, are sorted, and between two of
  them, and between the last one and \<open>hi\<close>, at least one byte is not free. This is what the
  code's coalescing and the retraction of the high-water mark maintain.
\<close>

fun chain :: "nat \<Rightarrow> block list \<Rightarrow> nat \<Rightarrow> bool" where
  "chain lo [] hi = True"
| "chain lo ((b, l) # bs) hi = (lo \<le> b \<and> 0 < l \<and> b + l < hi \<and> chain (b + l + 1) bs hi)"

definition block_set :: "block \<Rightarrow> nat set" where
  "block_set bl = {fst bl ..< fst bl + snd bl}"

definition blocks_set :: "block list \<Rightarrow> nat set" where
  "blocks_set bs = (\<Union>bl \<in> set bs. block_set bl)"

lemma blocks_set_simps [simp]:
  "blocks_set [] = {}"
  "blocks_set (bl # bs) = {fst bl ..< fst bl + snd bl} \<union> blocks_set bs"
  "blocks_set (xs @ ys) = blocks_set xs \<union> blocks_set ys"
  by (simp_all add: blocks_set_def block_set_def)

lemma chain_append:
  "chain lo (xs @ (b, l) # ys) hi \<longleftrightarrow>
     chain lo xs b \<and> lo \<le> b \<and> 0 < l \<and> b + l < hi \<and> chain (b + l + 1) ys hi"
proof (induction xs arbitrary: lo)
  case Nil
  show ?case by simp
next
  case (Cons x xs)
  obtain c k where x: "x = (c, k)" by force
  show ?case
    unfolding x append_Cons chain.simps Cons.IH [of "c + k + 1"] by linarith
qed

lemma chain_mono: "chain lo xs hi \<Longrightarrow> lo' \<le> lo \<Longrightarrow> hi \<le> hi' \<Longrightarrow> chain lo' xs hi'"
  by (induction lo xs hi arbitrary: lo' rule: chain.induct) auto

lemma chain_join:
  "chain lo xs m \<Longrightarrow> chain lo' ys hi \<Longrightarrow> lo \<le> lo' \<Longrightarrow> m \<le> lo' \<Longrightarrow> m \<le> hi \<Longrightarrow> chain lo (xs @ ys) hi"
proof (induction lo xs m rule: chain.induct)
  case (1 lo m)
  then show ?case by (auto intro: chain_mono)
next
  case (2 lo b l bs m)
  then show ?case by auto
qed

lemma chain_member: "chain lo xs hi \<Longrightarrow> (b, l) \<in> set xs \<Longrightarrow> lo \<le> b \<and> 0 < l \<and> b + l < hi"
  by (induction lo xs hi rule: chain.induct) auto

lemma chain_blocks_set: "chain lo xs hi \<Longrightarrow> blocks_set xs \<subseteq> {lo ..< hi - 1}"
proof
  fix x assume chain: "chain lo xs hi" and "x \<in> blocks_set xs"
  then obtain b l where "(b, l) \<in> set xs" and "b \<le> x" and "x < b + l"
    by (auto simp: blocks_set_def block_set_def)
  with chain_member [OF chain this(1)] show "x \<in> {lo ..< hi - 1}" by auto
qed

lemma finite_blocks_set [simp]: "finite (blocks_set xs)"
  by (simp add: blocks_set_def block_set_def)

lemma chain_card: "chain lo xs hi \<Longrightarrow> card (blocks_set xs) = sum_list (map snd xs)"
proof (induction lo xs hi rule: chain.induct)
  case (1 lo hi)
  show ?case by simp
next
  case (2 lo b l bs hi)
  then have "{b ..< b + l} \<inter> blocks_set bs = {}"
    using chain_blocks_set [of "b + l + 1" bs hi] by fastforce
  with 2 show ?case by (simp add: card_Un_disjoint)
qed

text \<open>A chain is determined by the bytes it covers: its blocks are the maximal intervals.\<close>

lemma chain_Cons_set:
  assumes "chain lo ((b, l) # bs) hi"
  shows "b \<in> blocks_set ((b, l) # bs)" and "\<forall>x \<in> blocks_set ((b, l) # bs). b \<le> x"
    and "b + l \<notin> blocks_set ((b, l) # bs)" and "\<forall>x. b \<le> x \<and> x < b + l \<longrightarrow> x \<in> blocks_set ((b, l) # bs)"
    and "blocks_set bs = blocks_set ((b, l) # bs) - {b ..< b + l}"
  using assms chain_blocks_set [of "b + l + 1" bs hi] by fastforce+

lemma chain_unique:
  "chain lo xs hi \<Longrightarrow> chain lo' ys hi' \<Longrightarrow> blocks_set xs = blocks_set ys \<Longrightarrow> xs = ys"
proof (induction lo xs hi arbitrary: lo' ys rule: chain.induct)
  case (1 lo hi)
  then show ?case
    by (cases ys) (auto dest: chain_Cons_set(1))
next
  case (2 lo b l bs hi)
  note xs = chain_Cons_set [OF "2.prems"(1)]
  show ?case
  proof (cases ys)
    case Nil
    with "2.prems"(3) xs(1) show ?thesis by simp
  next
    case (Cons y cs)
    obtain c k where y: "y = (c, k)" by force
    note ys = chain_Cons_set [OF "2.prems"(2) [unfolded Cons y]]
    have eq: "blocks_set ((b, l) # bs) = blocks_set ((c, k) # cs)"
      using "2.prems"(3) by (simp only: Cons y)
    have "b \<le> c" using xs(2) ys(1) unfolding eq by blast
    moreover have "c \<le> b" using ys(2) xs(1) unfolding eq by blast
    ultimately have bc: "b = c" by simp
    have "\<not> l < k"
    proof
      assume "l < k"
      then have "b + l \<in> blocks_set ((c, k) # cs)"
        by (intro ys(4) [rule_format]) (simp add: bc)
      with xs(3) eq show False by blast
    qed
    moreover have "\<not> k < l"
    proof
      assume "k < l"
      then have "c + k \<in> blocks_set ((b, l) # bs)"
        by (intro xs(4) [rule_format]) (simp add: bc)
      with ys(3) eq show False by blast
    qed
    ultimately have lk: "l = k" by simp
    have "blocks_set bs = blocks_set cs"
      using xs(5) ys(5) eq bc lk by blast
    moreover have "chain (b + l + 1) bs hi" "chain (c + k + 1) cs hi'"
      using "2.prems"(1,2) by (simp_all add: Cons y)
    ultimately have "bs = cs" by (metis "2.IH")
    with Cons y bc lk show ?thesis by simp
  qed
qed

section \<open>The best-fit selection\<close>

definition is_best :: "block list \<Rightarrow> usize \<Rightarrow> nat \<Rightarrow> nat option \<Rightarrow> bool" where
  "is_best blocks aligned n best =
     (case best of
        None \<Rightarrow> \<forall>j < n. snd (blocks ! j) < aligned
      | Some i \<Rightarrow> i < n \<and> aligned \<le> snd (blocks ! i) \<and>
          (\<forall>j < n. aligned \<le> snd (blocks ! j) \<longrightarrow>
             snd (blocks ! i) \<le> snd (blocks ! j) \<and> (j < i \<longrightarrow> snd (blocks ! i) < snd (blocks ! j))))"

lemma is_best_step:
  assumes "is_best blocks aligned n best"
  shows "is_best blocks aligned (Suc n)
     (if aligned \<le> snd (blocks ! n) \<and>
         (best = None \<or> (case best of None \<Rightarrow> False | Some b \<Rightarrow> snd (blocks ! n) < snd (blocks ! b)))
      then Some n else best)"
proof (cases best)
  case None
  with assms show ?thesis
    by (auto simp: is_best_def less_Suc_eq)
next
  case (Some b)
  with assms show ?thesis
    by (fastforce simp: is_best_def less_Suc_eq)
qed

lemma best_fit_Cons:
  "best_fit blocks aligned ((i, bl) # rest) best =
     best_fit blocks aligned rest
       (if aligned \<le> snd bl \<and>
           (best = None \<or> (case best of None \<Rightarrow> False | Some b \<Rightarrow> snd bl < snd (blocks ! b)))
        then Some i else best)"
  by (cases bl; cases best) simp_all

lemma best_fit_is_best:
  "n \<le> length blocks \<Longrightarrow> is_best blocks aligned n best \<Longrightarrow>
   is_best blocks aligned (length blocks)
     (best_fit blocks aligned (enumerate n (drop n blocks)) best)"
proof (induction "length blocks - n" arbitrary: n best)
  case 0
  then show ?case by simp
next
  case (Suc d)
  then have n: "n < length blocks" and d: "d = length blocks - Suc n" by simp_all
  have "drop n blocks = blocks ! n # drop (Suc n) blocks"
    using n by (simp add: Cons_nth_drop_Suc)
  then show ?case
    using Suc.hyps(1) [OF d, OF _ is_best_step [OF Suc.prems(2)]] n
    by (simp only: enumerate_simps best_fit_Cons)
qed

lemma best_fit_spec:
  "is_best blocks aligned (length blocks) (best_fit blocks aligned (enumerate 0 blocks) None)"
  using best_fit_is_best [of 0 blocks aligned None] by (simp add: is_best_def)

lemma best_fit_None:
  assumes "best_fit blocks aligned (enumerate 0 blocks) None = None"
  shows "\<forall>(b, l) \<in> set blocks. l < aligned"
  using best_fit_spec [of blocks aligned] assms
  by (auto simp: is_best_def in_set_conv_nth) (metis snd_conv)

lemma best_fit_Some:
  assumes "best_fit blocks aligned (enumerate 0 blocks) None = Some i"
  shows "i < length blocks" and "aligned \<le> snd (blocks ! i)"
    and "\<forall>(b, l) \<in> set blocks. aligned \<le> l \<longrightarrow> snd (blocks ! i) \<le> l"
  using best_fit_spec [of blocks aligned] assms
  by (auto simp: is_best_def in_set_conv_nth) (metis snd_conv)+

section \<open>The invariant and the set of live bytes\<close>

definition ra_inv :: "range_allocator \<Rightarrow> bool" where
  "ra_inv r \<longleftrightarrow> ra_capacity r < W64 \<and> ra_offset r \<le> ra_capacity r
     \<and> chain 0 (ra_free_blocks r) (ra_offset r)"

text \<open>
  The bytes handed out and not returned: everything below the high-water mark that is in no free
  block. It is the abstract state of the allocator.
\<close>

definition ra_live :: "range_allocator \<Rightarrow> nat set" where
  "ra_live r = {..< ra_offset r} - blocks_set (ra_free_blocks r)"

text \<open>
  The sizes for which no intermediate sum leaves the 64-bit range. Slices and mappings are at
  most \<open>2 ^ 63 - 1\<close> bytes long, so two of them always satisfy it.
\<close>

definition ra_fits :: "range_allocator \<Rightarrow> usize \<Rightarrow> bool" where
  "ra_fits r bytes \<longleftrightarrow> ra_capacity r + bytes + 63 < W64"

lemma ra_fits_align:
  assumes "ra_fits r bytes"
  shows "ra_capacity r + ra_align bytes < W64" and "bytes + 63 < W64"
  using assms ra_align_bounds(2) [of bytes] by (simp_all add: ra_fits_def)

lemma ra_inv_new: "capacity < W64 \<Longrightarrow> ra_inv (ra_new capacity)"
  by (simp add: ra_inv_def ra_new_def)

lemma ra_live_new [simp]: "ra_live (ra_new capacity) = {}"
  by (simp add: ra_live_def ra_new_def)

lemma ra_live_below: "x \<in> ra_live r \<Longrightarrow> x < ra_offset r"
  by (simp add: ra_live_def)

lemma finite_ra_live [simp]: "finite (ra_live r)"
  by (simp add: ra_live_def)

lemma ra_used_card:
  assumes "ra_inv r"
  shows "ra_used r = card (ra_live r)"
proof -
  have chain: "chain 0 (ra_free_blocks r) (ra_offset r)"
    using assms by (simp add: ra_inv_def)
  have sub: "blocks_set (ra_free_blocks r) \<subseteq> {..< ra_offset r}"
    using chain_blocks_set [OF chain] by fastforce
  have le: "card (blocks_set (ra_free_blocks r)) \<le> ra_offset r"
    using card_mono [OF finite_lessThan sub] by simp
  have "card (ra_live r) = ra_offset r - card (blocks_set (ra_free_blocks r))"
    using sub by (simp add: ra_live_def card_Diff_subset)
  with le show ?thesis
    using assms by (simp add: ra_used_def usum_exact usub_exact chain_card [OF chain, symmetric] ra_inv_def)
qed

lemma ra_used_le: "ra_inv r \<Longrightarrow> ra_used r \<le> ra_offset r"
  by (metis ra_used_card card_mono card_lessThan finite_lessThan ra_live_below lessThan_iff subsetI)

text \<open>The top byte below the high-water mark is always live, so the live set determines it.\<close>

lemma ra_live_top:
  assumes "ra_inv r" and "0 < ra_offset r"
  shows "ra_offset r - 1 \<in> ra_live r"
  using assms chain_blocks_set [of 0 "ra_free_blocks r" "ra_offset r"]
  by (auto simp: ra_live_def ra_inv_def)

lemma ra_offset_unique:
  assumes "ra_inv r" and "ra_inv s" and eq: "ra_live r = ra_live s"
  shows "ra_offset r = ra_offset s"
proof -
  have "ra_offset r \<le> ra_offset s" if "ra_inv r" "ra_live r = ra_live s" for r s
  proof (cases "ra_offset r = 0")
    case False
    with ra_live_top [OF that(1)] that(2) have "ra_offset r - 1 \<in> ra_live s" by simp
    then show ?thesis using False by (auto dest: ra_live_below)
  qed simp
  from this [of r s] this [of s r] assms show ?thesis by simp
qed

text \<open>Canonical form: the live bytes and the capacity determine the whole allocator.\<close>

lemma ra_canonical:
  assumes r: "ra_inv r" and s: "ra_inv s"
    and cap: "ra_capacity r = ra_capacity s" and live: "ra_live r = ra_live s"
  shows "r = s"
proof -
  have off: "ra_offset r = ra_offset s"
    using ra_offset_unique [OF r s live] .
  have "blocks_set (ra_free_blocks t) = {..< ra_offset t} - ra_live t" if "ra_inv t" for t
    using chain_blocks_set [of 0 "ra_free_blocks t" "ra_offset t"] that
    by (fastforce simp: ra_live_def ra_inv_def)
  with r s live off have "blocks_set (ra_free_blocks r) = blocks_set (ra_free_blocks s)"
    by simp
  then have "ra_free_blocks r = ra_free_blocks s"
    using chain_unique r s by (auto simp: ra_inv_def)
  with cap off show ?thesis by simp
qed

section \<open>allocate\<close>

lemma ra_allocate_reuse:
  assumes inv: "ra_inv r" and blocks: "ra_free_blocks r = xs @ (off, len) # ys"
    and le: "aligned \<le> len"
    and rest: "rest = (if len = aligned then [] else [(off + aligned, len - aligned)])"
  shows "ra_inv (r\<lparr>ra_free_blocks := xs @ rest @ ys\<rparr>)"
    and "ra_live (r\<lparr>ra_free_blocks := xs @ rest @ ys\<rparr>) = ra_live r \<union> {off ..< off + aligned}"
    and "{off ..< off + aligned} \<inter> ra_live r = {}"
    and "off + len < ra_offset r"
proof -
  have chain: "chain 0 xs off" "0 < len" "off + len < ra_offset r" "chain (off + len + 1) ys (ra_offset r)"
    using inv by (simp_all add: ra_inv_def blocks chain_append)
  show "off + len < ra_offset r" by fact
  have "chain 0 (xs @ rest @ ys) (ra_offset r)"
  proof (cases "len = aligned")
    case True
    then show ?thesis using chain by (auto simp: rest intro: chain_join)
  next
    case False
    then show ?thesis using chain le by (auto simp: rest chain_append intro: chain_mono)
  qed
  then show "ra_inv (r\<lparr>ra_free_blocks := xs @ rest @ ys\<rparr>)"
    using inv by (simp add: ra_inv_def)
  have "blocks_set xs \<subseteq> {..< off}" "blocks_set ys \<subseteq> {off + len + 1 ..}"
    using chain_blocks_set [OF chain(1)] chain_blocks_set [OF chain(4)] by fastforce+
  then have "blocks_set (xs @ rest @ ys) = blocks_set (ra_free_blocks r) - {off ..< off + aligned}"
    using le by (auto simp: rest blocks)
  moreover have sub: "{off ..< off + aligned} \<subseteq> blocks_set (ra_free_blocks r)"
    using le by (auto simp: blocks)
  ultimately show "ra_live (r\<lparr>ra_free_blocks := xs @ rest @ ys\<rparr>) = ra_live r \<union> {off ..< off + aligned}"
    using chain(3) le by (auto simp: ra_live_def)
  show "{off ..< off + aligned} \<inter> ra_live r = {}"
    using sub by (auto simp: ra_live_def)
qed

lemma ra_allocate_bump:
  assumes inv: "ra_inv r" and le: "ra_offset r + aligned \<le> ra_capacity r"
  shows "ra_inv (r\<lparr>ra_offset := ra_offset r + aligned\<rparr>)"
    and "ra_live (r\<lparr>ra_offset := ra_offset r + aligned\<rparr>)
      = ra_live r \<union> {ra_offset r ..< ra_offset r + aligned}"
    and "{ra_offset r ..< ra_offset r + aligned} \<inter> ra_live r = {}"
proof -
  have chain: "chain 0 (ra_free_blocks r) (ra_offset r)"
    using inv by (simp add: ra_inv_def)
  show "ra_inv (r\<lparr>ra_offset := ra_offset r + aligned\<rparr>)"
    using inv le chain_mono [OF chain, of 0 "ra_offset r + aligned"] by (simp add: ra_inv_def)
  have "blocks_set (ra_free_blocks r) \<subseteq> {..< ra_offset r}"
    using chain_blocks_set [OF chain] by fastforce
  then show "ra_live (r\<lparr>ra_offset := ra_offset r + aligned\<rparr>)
      = ra_live r \<union> {ra_offset r ..< ra_offset r + aligned}"
    by (auto simp: ra_live_def)
  show "{ra_offset r ..< ra_offset r + aligned} \<inter> ra_live r = {}"
    by (auto simp: ra_live_def)
qed

lemma ra_allocate_never_panics: "fst (ra_allocate r bytes) \<noteq> Panic"
  by (auto simp: ra_allocate_def Let_def split: option.splits prod.splits)

text \<open>
  The three cases of an allocation: an exact block, the front of a larger block, fresh space, or
  no space at all.
\<close>

lemma ra_allocate_cases [consumes 2, case_names reuse bump oom]:
  assumes inv: "ra_inv r" and fits: "ra_fits r bytes"
  obtains
    (reuse) xs off len ys rest where
      "ra_free_blocks r = xs @ (off, len) # ys" "ra_align bytes \<le> len"
      "\<forall>(b, l) \<in> set (ra_free_blocks r). ra_align bytes \<le> l \<longrightarrow> len \<le> l"
      "rest = (if len = ra_align bytes then [] else [(off + ra_align bytes, len - ra_align bytes)])"
      "ra_allocate r bytes = (Ok off, r\<lparr>ra_free_blocks := xs @ rest @ ys\<rparr>)"
  | (bump) "\<forall>(b, l) \<in> set (ra_free_blocks r). l < ra_align bytes"
      "ra_offset r + ra_align bytes \<le> ra_capacity r"
      "ra_allocate r bytes = (Ok (ra_offset r), r\<lparr>ra_offset := ra_offset r + ra_align bytes\<rparr>)"
  | (oom) "\<forall>(b, l) \<in> set (ra_free_blocks r). l < ra_align bytes"
      "ra_offset r + ra_align bytes > ra_capacity r"
      "ra_allocate r bytes =
         (Err (DramOom (ra_align bytes) (ra_capacity r - card (ra_live r)) (ra_capacity r)), r)"
proof -
  let ?al = "ra_align bytes" and ?bs = "ra_free_blocks r"
  have sum: "ra_offset r + ?al < W64"
    using ra_fits_align(1) [OF fits] inv by (simp add: ra_inv_def)
  show thesis
  proof (cases "best_fit ?bs ?al (enumerate 0 ?bs) None")
    case (Some i)
    note best = best_fit_Some [OF Some]
    obtain off len where bl: "?bs ! i = (off, len)" by force
    define xs ys where "xs = take i ?bs" and "ys = drop (Suc i) ?bs"
    have split: "?bs = xs @ (off, len) # ys"
      using best(1) bl by (metis xs_def ys_def id_take_nth_drop)
    have i: "i = length xs"
      using best(1) by (simp add: xs_def)
    have "off + len < ra_offset r" and "0 < len"
      using inv by (simp_all add: ra_inv_def split chain_append)
    then have arith: "len \<noteq> ?al \<Longrightarrow> uadd off ?al = off + ?al" "len \<noteq> ?al \<Longrightarrow> usub len ?al = len - ?al"
      using best(2) bl sum by (simp_all add: uadd_exact usub_exact)
    have "ra_allocate r bytes = (Ok off, r\<lparr>ra_free_blocks :=
        xs @ (if len = ?al then [] else [(off + ?al, len - ?al)]) @ ys\<rparr>)"
      using Some arith bl split i
      by (simp add: ra_allocate_def Let_def vec_remove_append list_update_append)
    with split best bl show thesis by (intro reuse) auto
  next
    case None
    note no = best_fit_None [OF None]
    have avail: "usub (ra_capacity r) (ra_used r) = ra_capacity r - card (ra_live r)"
      using inv ra_used_le [OF inv] by (simp add: ra_used_card usub_exact ra_inv_def)
    show thesis
    proof (cases "ra_offset r + ?al > ra_capacity r")
      case True
      with None no show thesis
        by (intro oom) (simp_all add: ra_allocate_def Let_def uadd_exact [OF sum] avail)
    next
      case False
      with None no show thesis
        by (intro bump) (simp_all add: ra_allocate_def Let_def uadd_exact [OF sum])
    qed
  qed
qed

lemma ra_allocate_Ok:
  assumes inv: "ra_inv r" and fits: "ra_fits r bytes"
    and run: "ra_allocate r bytes = (Ok off, r')"
  shows "ra_inv r'" and "ra_capacity r' = ra_capacity r"
    and "off + ra_align bytes \<le> ra_capacity r"
    and "{off ..< off + ra_align bytes} \<inter> ra_live r = {}"
    and "ra_live r' = ra_live r \<union> {off ..< off + ra_align bytes}"
proof -
  have top: "ra_offset r \<le> ra_capacity r" using inv by (simp add: ra_inv_def)
  have "ra_inv r' \<and> ra_capacity r' = ra_capacity r \<and> off + ra_align bytes \<le> ra_capacity r
    \<and> {off ..< off + ra_align bytes} \<inter> ra_live r = {}
    \<and> ra_live r' = ra_live r \<union> {off ..< off + ra_align bytes}"
    using inv fits
  proof (cases rule: ra_allocate_cases)
    case (reuse xs b len ys rest)
    note spec = ra_allocate_reuse [OF inv reuse(1,2,4)]
    from reuse(5) run have "off = b" "r' = r\<lparr>ra_free_blocks := xs @ rest @ ys\<rparr>" by simp_all
    with spec reuse(2) top show ?thesis by simp
  next
    case bump
    from bump(3) run have "off = ra_offset r" "r' = r\<lparr>ra_offset := ra_offset r + ra_align bytes\<rparr>"
      by auto
    with ra_allocate_bump [OF inv bump(2)] bump(2) show ?thesis by simp
  next
    case oom
    with run show ?thesis by simp
  qed
  then show "ra_inv r'" and "ra_capacity r' = ra_capacity r"
    and "off + ra_align bytes \<le> ra_capacity r"
    and "{off ..< off + ra_align bytes} \<inter> ra_live r = {}"
    and "ra_live r' = ra_live r \<union> {off ..< off + ra_align bytes}"
    by simp_all
qed

lemma ra_allocate_Err:
  assumes inv: "ra_inv r" and fits: "ra_fits r bytes"
    and run: "ra_allocate r bytes = (Err e, r')"
  shows "r' = r"
    and "e = DramOom (ra_align bytes) (ra_capacity r - card (ra_live r)) (ra_capacity r)"
    and "\<forall>(b, l) \<in> set (ra_free_blocks r). l < ra_align bytes"
    and "ra_offset r + ra_align bytes > ra_capacity r"
  by (cases rule: ra_allocate_cases [OF inv fits]; use run in simp)+

section \<open>free\<close>

lemma coalesce_right_split:
  assumes chain: "chain (off + len) ys hi" and ne: "ys \<noteq> []" and "hi < W64" and len: "0 < len"
  obtains l2 ys2 where
    "coalesce_right (xs @ (off, len) # ys) (length xs) off len = xs @ (off, l2) # ys2"
    "len \<le> l2" "off + l2 < hi" "chain (off + l2 + 1) ys2 hi"
    "blocks_set ((off, l2) # ys2) = blocks_set ((off, len) # ys)"
proof -
  from ne obtain y t where Cons: "ys = y # t" by (cases ys) auto
  obtain no nl where y: "y = (no, nl)" by force
  have no: "off + len \<le> no" "0 < nl" "no + nl < hi" "chain (no + nl + 1) t hi"
    using chain by (simp_all add: Cons y)
  have sum: "uadd off len = off + len"
    using assms no by (simp add: uadd_exact)
  show thesis
  proof (cases "off + len = no")
    case True
    have "uadd len nl = len + nl"
      using True no(3) assms(3) by (simp add: uadd_exact)
    then have "coalesce_right (xs @ (off, len) # ys) (length xs) off len = xs @ (off, len + nl) # t"
      using True sum by (simp add: coalesce_right_def Cons y nth_append vec_simps)
    with True no len show thesis by (intro that [of "len + nl" t]) (auto simp: Cons y add.assoc)
  next
    case False
    then have "coalesce_right (xs @ (off, len) # ys) (length xs) off len = xs @ (off, len) # ys"
      using sum by (simp add: coalesce_right_def Cons y nth_append)
    with False no show thesis by (intro that [of len ys]) (simp_all add: Cons y)
  qed
qed

lemma coalesce_left_split:
  assumes chain: "chain 0 xs (off + 1)" and len: "0 < len" and "off + len < W64"
  obtains xs2 b2 l2 where
    "coalesce_left (xs @ (off, len) # ys) (length xs) off = (xs2 @ (b2, l2) # ys, length xs2)"
    "chain 0 xs2 b2" "b2 \<le> off" "b2 + l2 = off + len" "0 < l2"
    "blocks_set (xs2 @ [(b2, l2)]) = blocks_set (xs @ [(off, len)])"
proof (cases xs rule: rev_cases)
  case Nil
  with len show thesis by (intro that [of "[]" off len]) (simp_all add: coalesce_left_def)
next
  case (snoc zs z)
  obtain po pl where z: "z = (po, pl)" by force
  have po: "chain 0 zs po" "0 < pl" "po + pl \<le> off"
    using chain by (simp_all add: snoc z chain_append)
  have sum: "uadd po pl = po + pl" "po + pl = off \<Longrightarrow> uadd pl len = pl + len"
    using po(3) assms(3) by (simp_all add: uadd_exact)
  show thesis
  proof (cases "po + pl = off")
    case True
    then have "coalesce_left (xs @ (off, len) # ys) (length xs) off
        = (zs @ (po, pl + len) # ys, length zs)"
      using sum by (simp add: coalesce_left_def snoc z nth_append vec_simps list_update_append)
    with True po len show thesis by (intro that [of zs po "pl + len"]) (auto simp: snoc z)
  next
    case False
    then have "coalesce_left (xs @ (off, len) # ys) (length xs) off
        = (xs @ (off, len) # ys, length xs)"
      using sum by (simp add: coalesce_left_def snoc z nth_append)
    moreover have "chain 0 xs off"
      using False po by (simp add: snoc z chain_append)
    ultimately show thesis using len by (intro that [of xs off len]) simp_all
  qed
qed

lemma retract_split:
  assumes inv: "ra_capacity r < W64" "ra_offset r \<le> ra_capacity r"
    and chain: "chain 0 xs b" "0 < l" "b + l \<le> ra_offset r"
    and ys: "b + l < ra_offset r \<and> chain (b + l + 1) ys (ra_offset r) \<or> ys = []"
  shows "ra_inv (retract r (xs @ (b, l) # ys) (length xs))"
    and "ra_live (retract r (xs @ (b, l) # ys) (length xs))
      = {..< ra_offset r} - blocks_set (xs @ (b, l) # ys)"
    and "ra_capacity (retract r (xs @ (b, l) # ys) (length xs)) = ra_capacity r"
proof -
  have sum: "uadd b l = b + l"
    using chain inv by (simp add: uadd_exact)
  have *: "ra_inv (retract r (xs @ (b, l) # ys) (length xs)) \<and>
    ra_live (retract r (xs @ (b, l) # ys) (length xs))
      = {..< ra_offset r} - blocks_set (xs @ (b, l) # ys)"
  proof (cases "b + l = ra_offset r")
    case True
    with ys have "ys = []" by auto
    moreover have "blocks_set xs \<subseteq> {..< b}"
      using chain_blocks_set [OF chain(1)] by fastforce
    ultimately show ?thesis
      using True chain inv sum
      by (auto simp: retract_def vec_simps ra_inv_def ra_live_def)
  next
    case False
    then show ?thesis
      using chain inv sum ys by (auto simp: retract_def ra_inv_def ra_live_def chain_append)
  qed
  then show "ra_inv (retract r (xs @ (b, l) # ys) (length xs))"
    and "ra_live (retract r (xs @ (b, l) # ys) (length xs))
      = {..< ra_offset r} - blocks_set (xs @ (b, l) # ys)"
    by simp_all
  show "ra_capacity (retract r (xs @ (b, l) # ys) (length xs)) = ra_capacity r"
    using sum by (simp add: retract_def)
qed

text \<open>Inserting a live range between the blocks before it and the blocks after it.\<close>

lemma ra_insert_block:
  assumes inv: "ra_inv r" and blocks: "ra_free_blocks r = xs @ ys"
    and xs: "chain 0 xs (off + 1)" and ys: "chain (off + len) ys (ra_offset r)"
    and len: "0 < len" and top: "off + len \<le> ra_offset r"
  defines "right \<equiv> coalesce_right (xs @ (off, len) # ys) (length xs) off len"
  defines "left \<equiv> coalesce_left right (length xs) off"
  shows "ra_inv (retract r (fst left) (snd left))"
    and "ra_live (retract r (fst left) (snd left)) = ra_live r - {off ..< off + len}"
    and "ra_capacity (retract r (fst left) (snd left)) = ra_capacity r"
proof -
  have bounds: "ra_capacity r < W64" "ra_offset r \<le> ra_capacity r"
    using inv by (simp_all add: ra_inv_def)
  obtain l1 ys1 where right: "right = xs @ (off, l1) # ys1" and l1: "0 < l1" "off + l1 \<le> ra_offset r"
    and ys1: "off + l1 < ra_offset r \<and> chain (off + l1 + 1) ys1 (ra_offset r) \<or> ys1 = []"
    and set1: "blocks_set ((off, l1) # ys1) = blocks_set ((off, len) # ys)"
  proof (cases "ys = []")
    case True
    with len top show thesis
      by (intro that [of len "[]"]) (simp_all add: right_def coalesce_right_def)
  next
    case False
    have "ra_offset r < W64" using bounds by simp
    from coalesce_right_split [OF ys False this len, of xs] obtain l1 ys1 where
      "right = xs @ (off, l1) # ys1" "len \<le> l1" "off + l1 < ra_offset r"
      "chain (off + l1 + 1) ys1 (ra_offset r)"
      "blocks_set ((off, l1) # ys1) = blocks_set ((off, len) # ys)"
      unfolding right_def by metis
    with len show thesis by (intro that [of l1 ys1]) simp_all
  qed
  have "off + l1 < W64" using l1 bounds by simp
  from coalesce_left_split [OF xs l1(1) this, of ys1] obtain xs2 b2 l2 where
    left: "left = (xs2 @ (b2, l2) # ys1, length xs2)" and xs2: "chain 0 xs2 b2"
    and eq: "b2 + l2 = off + l1" and l2: "0 < l2"
    and set2: "blocks_set (xs2 @ [(b2, l2)]) = blocks_set (xs @ [(off, l1)])"
    unfolding left_def right by metis
  note retract = retract_split [OF bounds xs2 l2, of ys1, unfolded eq, OF l1(2) ys1]
  have "blocks_set (xs2 @ (b2, l2) # ys1) = blocks_set xs \<union> blocks_set ((off, len) # ys)"
    using set1 set2 by auto
  with retract show "ra_inv (retract r (fst left) (snd left))"
    and "ra_live (retract r (fst left) (snd left)) = ra_live r - {off ..< off + len}"
    and "ra_capacity (retract r (fst left) (snd left)) = ra_capacity r"
    by (auto simp: left ra_live_def blocks)
qed

text \<open>
  The split of the free list at the returned offset, and the code's two overlap checks as a
  statement about sets: they pass exactly when every byte of the range is live.
\<close>

lemma ra_free_split:
  assumes inv: "ra_inv r" and "0 < len"
  obtains xs ys where "ra_free_blocks r = xs @ ys"
    "partition_point (\<lambda>(b, _). b < off) (ra_free_blocks r) = length xs"
    "chain 0 xs off \<or> (\<exists>zs po pl. xs = zs @ [(po, pl)] \<and> chain 0 zs po \<and> 0 < pl \<and> po < off)"
    "chain off ys (ra_offset r)"
proof -
  let ?p = "\<lambda>(b, _). b < off" and ?bs = "ra_free_blocks r"
  define xs ys where "xs = takeWhile ?p ?bs" and "ys = dropWhile ?p ?bs"
  have split: "?bs = xs @ ys" by (simp add: xs_def ys_def)
  have chain: "chain 0 (xs @ ys) (ra_offset r)"
    using inv by (simp add: ra_inv_def split [symmetric])
  have xs: "chain 0 xs off \<or> (\<exists>zs po pl. xs = zs @ [(po, pl)] \<and> chain 0 zs po \<and> 0 < pl \<and> po < off)"
  proof (cases xs rule: rev_cases)
    case Nil
    then show ?thesis by simp
  next
    case (snoc zs z)
    obtain po pl where z: "z = (po, pl)" by force
    have "z \<in> set (takeWhile ?p ?bs)" using snoc by (simp add: xs_def)
    then have "po < off" by (auto simp: z dest: set_takeWhileD)
    with chain show ?thesis by (auto simp: snoc z chain_append)
  qed
  have ys: "chain off ys (ra_offset r)"
  proof (cases ys)
    case Nil
    then show ?thesis by simp
  next
    case (Cons y t)
    obtain no nl where y: "y = (no, nl)" by force
    have "\<not> ?p y" using Cons by (metis ys_def hd_dropWhile list.discI list.sel(1))
    with chain show ?thesis by (simp add: Cons y chain_append)
  qed
  show thesis
    by (rule that [OF split _ xs ys]) (simp add: partition_point_def xs_def)
qed

lemma ra_free_live:
  assumes inv: "ra_inv r" and nowrap: "off + ra_align bytes < W64" and pos: "0 < ra_align bytes"
    and live: "{off ..< off + ra_align bytes} \<subseteq> ra_live r"
  shows "ra_inv (ra_free r off bytes)"
    and "ra_live (ra_free r off bytes) = ra_live r - {off ..< off + ra_align bytes}"
    and "ra_capacity (ra_free r off bytes) = ra_capacity r"
proof -
  let ?len = "ra_align bytes"
  have top: "off + ?len \<le> ra_offset r"
    using live pos ra_live_below [of "off + ?len - 1" r] by (auto simp: subset_iff)
  obtain xs ys where split: "ra_free_blocks r = xs @ ys"
    and pp: "partition_point (\<lambda>(b, _). b < off) (ra_free_blocks r) = length xs"
    and xs: "chain 0 xs off \<or> (\<exists>zs po pl. xs = zs @ [(po, pl)] \<and> chain 0 zs po \<and> 0 < pl \<and> po < off)"
    and ys: "chain off ys (ra_offset r)"
    using ra_free_split [OF inv pos] by blast
  have disj: "blocks_set (xs @ ys) \<inter> {off ..< off + ?len} = {}"
    using live by (auto simp: ra_live_def split)
  have ys': "chain (off + ?len) ys (ra_offset r)"
  proof (cases ys)
    case (Cons y t)
    obtain no nl where y: "y = (no, nl)" by force
    have "no \<in> blocks_set (xs @ ys)" using ys by (simp add: Cons y)
    then have "no \<notin> {off ..< off + ?len}" using disj by blast
    with ys show ?thesis by (simp add: Cons y)
  qed simp
  have xs': "chain 0 xs (off + 1)"
    using xs
  proof
    assume "\<exists>zs po pl. xs = zs @ [(po, pl)] \<and> chain 0 zs po \<and> 0 < pl \<and> po < off"
    then obtain zs po pl where zs: "xs = zs @ [(po, pl)]" "chain 0 zs po" "0 < pl" "po < off"
      by blast
    have "off \<notin> blocks_set (xs @ ys)" using disj pos by auto
    with zs show ?thesis by (simp add: chain_append)
  qed (auto intro: chain_mono)
  have check2: "xs \<noteq> [] \<Longrightarrow> uadd (fst (last xs)) (snd (last xs)) \<le> off"
  proof -
    assume "xs \<noteq> []"
    then obtain zs po pl where "xs = zs @ [(po, pl)]" by (metis rev_exhaust surj_pair)
    with xs' nowrap show ?thesis by (simp add: chain_append uadd_exact)
  qed
  have "\<not> (length xs < length (xs @ ys) \<and> uadd off ?len > fst ((xs @ ys) ! length xs))"
    using ys' nowrap by (cases ys) (auto simp: uadd_exact)
  moreover have "\<not> (length xs > 0 \<and>
      (let (po, pl) = (xs @ ys) ! (length xs - 1) in uadd po pl > off))"
    using check2 by (cases xs rule: rev_cases) (auto simp: nth_append not_less)
  ultimately have "ra_free r off bytes =
     (let right = coalesce_right (xs @ (off, ?len) # ys) (length xs) off ?len;
          left = coalesce_left right (length xs) off
      in retract r (fst left) (snd left))"
    using pos top nowrap
    by (auto simp add: ra_free_def Let_def pp [unfolded split] split uadd_exact vec_simps case_prod_beta)
  then show "ra_inv (ra_free r off bytes)"
    and "ra_live (ra_free r off bytes) = ra_live r - {off ..< off + ?len}"
    and "ra_capacity (ra_free r off bytes) = ra_capacity r"
    using ra_insert_block [OF inv split xs' ys' pos top] by (simp_all add: Let_def)
qed

lemma ra_free_ignored:
  assumes inv: "ra_inv r" and nowrap: "off + ra_align bytes < W64"
    and bad: "ra_align bytes = 0 \<or> \<not> {off ..< off + ra_align bytes} \<subseteq> ra_live r"
  shows "ra_free r off bytes = r"
proof (cases "ra_align bytes = 0 \<or> off + ra_align bytes > ra_offset r")
  case True
  with nowrap show ?thesis by (auto simp: ra_free_def Let_def uadd_exact)
next
  case False
  let ?len = "ra_align bytes"
  from False have pos: "0 < ?len" and top: "off + ?len \<le> ra_offset r" by simp_all
  obtain xs ys where split: "ra_free_blocks r = xs @ ys"
    and pp: "partition_point (\<lambda>(b, _). b < off) (ra_free_blocks r) = length xs"
    and xs: "chain 0 xs off \<or> (\<exists>zs po pl. xs = zs @ [(po, pl)] \<and> chain 0 zs po \<and> 0 < pl \<and> po < off)"
    and ys: "chain off ys (ra_offset r)"
    using ra_free_split [OF inv pos] by blast
  from bad pos have "\<not> {off ..< off + ?len} \<subseteq> ra_live r" by simp
  then obtain x where "x \<in> {off ..< off + ?len}" "x \<notin> ra_live r" by (meson subsetI)
  with top have x: "off \<le> x" "x < off + ?len" "x \<in> blocks_set (xs @ ys)"
    by (simp_all add: ra_live_def split)
  then consider (left) "x \<in> blocks_set xs" | (right) "x \<in> blocks_set ys" by auto
  then show ?thesis
  proof cases
    case left
    from left xs obtain zs po pl where zs: "xs = zs @ [(po, pl)]" "chain 0 zs po" "po < off"
      using x(1) chain_blocks_set [of 0 xs off] by fastforce
    have "x < po + pl"
      using left x(1) zs chain_blocks_set [OF zs(2)] by fastforce
    moreover have "po + pl < W64"
      using inv by (simp add: ra_inv_def split zs(1) chain_append)
    moreover have "partition_point (\<lambda>(b, _). b < off) (zs @ (po, pl) # ys) = Suc (length zs)"
      using pp by (simp add: split zs(1))
    ultimately show ?thesis
      using x(1) by (simp add: ra_free_def Let_def split zs(1) nth_append uadd_exact)
  next
    case right
    then obtain no nl t where t: "ys = (no, nl) # t" by (cases ys) auto
    have "no \<le> x"
      using right chain_blocks_set [of "no + nl + 1" t "ra_offset r"] ys by (fastforce simp: t)
    then show ?thesis
      using x(2) nowrap by (simp add: ra_free_def Let_def pp [unfolded split t] split t nth_append uadd_exact)
  qed
qed

section \<open>The contract, and the properties\<close>

lemma ra_alloc_law:
  assumes "ra_inv r" and "ra_fits r n" and "ra_allocate r n = (Ok p, t)"
  shows "ra_inv t \<and> ra_capacity t = ra_capacity r \<and> held_range ra_align (p, n) \<inter> ra_live r = {}
    \<and> ra_live t = ra_live r \<union> held_range ra_align (p, n) \<and> p + ra_align n < W64"
  using ra_allocate_Ok [OF assms] assms(1) by (simp add: held_range_def ra_inv_def)

lemma ra_release_law:
  assumes "ra_inv r" and "ra_fits r n" and "0 < ra_align n" and "held_range ra_align (p, n) \<subseteq> ra_live r"
  shows "ra_inv (ra_free r p n) \<and> ra_capacity (ra_free r p n) = ra_capacity r
    \<and> ra_live (ra_free r p n) = ra_live r - held_range ra_align (p, n)"
proof -
  have "p + ra_align n - 1 \<in> ra_live r"
    using assms(3,4) by (auto simp: held_range_def)
  then have "p + ra_align n < W64"
    using assms(1) by (auto dest!: ra_live_below simp: ra_inv_def)
  with ra_free_live [OF assms(1)] assms(3,4) show ?thesis by (simp add: held_range_def)
qed

interpretation ra: region ra_allocate ra_free ra_live ra_inv ra_fits ra_align ra_capacity
proof (unfold_locales, goal_cases)
  case (1 r n p t)
  then show ?case by (rule ra_alloc_law)
next
  case (2 r n e t)
  then show ?case by (rule ra_allocate_Err(1))
next
  case (3 r n)
  show ?case by (rule ra_allocate_never_panics)
next
  case (4 r n p)
  then show ?case by (rule ra_release_law)
next
  case (5 r n p)
  then show ?case by (intro ra_free_ignored) (simp_all add: held_range_def)
next
  case (6 r t)
  then show ?case by (rule ra_canonical)
next
  case (7 r t n)
  then show ?case by (simp add: ra_fits_def)
qed

lemma ra_held_in_capacity:
  assumes "ra_inv r" and "held_range ra_align (off, n) \<subseteq> ra_live r" and "ra_capacity r + n + 63 < W64"
  shows "n = 0 \<or> off + ra_align n \<le> ra_capacity r"
proof (cases "n = 0")
  case False
  then have "0 < ra_align n" using ra_align_bounds(1) [of n] assms(3) by linarith
  then have "off + ra_align n - 1 \<in> ra_live r"
    using assms(2) by (auto simp: held_range_def)
  then show ?thesis using assms(1) by (auto dest!: ra_live_below simp: ra_inv_def)
qed simp

lemmas ra_eval =
  ra_new_def ra_align_mod ra_allocate_def ra_free_def ra_used_def Let_def
  coalesce_right_def coalesce_left_def retract_def partition_point_def
  vec_remove_def vec_insert_def uadd_def usub_def usum_def W64_def

text \<open>
  Property C1. No aliasing and no leak, over every history of allocations and releases of a fresh
  allocator, with sizes that together with the capacity stay in the 64 bits: the ranges the client holds are pairwise disjoint and inside the capacity, \<open>used\<close> is
  exactly the sum of their aligned sizes, and a client that has returned everything is back at the
  initial allocator, so the capacity is a working-set budget and not a lifetime budget.
\<close>

theorem ra_history_no_aliasing:
  assumes "capacity < W64" and "\<forall>x \<in> set ops. capacity + op_size x + 63 < W64"
    and run: "client_run ra_allocate ra_free (ra_new capacity) ops = (r, held)"
  shows "disjoint_held ra_align held
    \<and> (\<forall>(off, n) \<in> set held. n = 0 \<or> off + ra_align n \<le> capacity)
    \<and> ra_used r = sum_list (map (ra_align \<circ> snd) held)
    \<and> (held = [] \<longrightarrow> r = ra_new capacity)"
proof -
  have fits: "\<forall>x \<in> set ops. ra_fits (ra_new capacity) (op_size x)"
    using assms(2) by (simp add: ra_fits_def ra_new_def)
  note start = ra_inv_new [OF assms(1)] ra_live_new fits
  have ok: "ra_inv r" "ra_capacity r = capacity" "tiles ra_align held (ra_live r)"
    and fit: "\<forall>(off, n) \<in> set held. capacity + n + 63 < W64"
    using ra.client_run_ok [OF start] run
    by (auto simp: ra.client_ok_def ra_fits_def ra_new_def)
  have "n = 0 \<or> off + ra_align n \<le> capacity" if "(off, n) \<in> set held" for off n
  proof -
    have "held_range ra_align (off, n) \<subseteq> ra_live r"
      using that ok(3) unfolding tiles_def by blast
    moreover have "capacity + n + 63 < W64" using fit that by auto
    ultimately show ?thesis using ra_held_in_capacity [OF ok(1)] ok(2) by simp
  qed
  moreover have "ra_used r = sum_list (map (ra_align \<circ> snd) held)"
    using ok tiles_card by (metis ra_used_card)
  moreover have "held = [] \<longrightarrow> r = ra_new capacity"
    using ra.client_run_returns [OF start] run by simp
  ultimately show ?thesis
    using ok(3) by (auto simp: tiles_def)
qed

theorem ra_history_no_aliasing_witness:
  "disjoint_held ra_align [(256, 100), (0, 64)]
    \<and> ra_used \<lparr>ra_capacity = 4096, ra_offset = 384, ra_free_blocks = [(64, 192)]\<rparr> = 192"
proof -
  have "client_run ra_allocate ra_free (ra_new 4096) [Get 256, Get 100, Put 0, Get 64]
    = (\<lparr>ra_capacity = 4096, ra_offset = 384, ra_free_blocks = [(64, 192)]\<rparr>, [(256, 100), (0, 64)])"
    by (simp add: client_run_def ra_eval)
  from ra_history_no_aliasing [OF _ _ this] show ?thesis
    by (simp add: W64_def ra_align_mod)
qed

text \<open>
  Property C18. What \<open>allocate\<close> promises on a success, for a size that with the capacity stays in the 64 bits: the range lies in the region, overlaps no
  live byte, becomes live, and nothing else changes; the invariant is kept. A reused hole is the
  tightest one that fits, and fresh space is taken only when no hole fits.
\<close>

theorem ra_allocate_correct:
  assumes inv: "ra_inv r" and fits: "ra_fits r bytes" and run: "ra_allocate r bytes = (Ok off, r')"
  shows "ra_inv r' \<and> ra_capacity r' = ra_capacity r
    \<and> off + ra_align bytes \<le> ra_capacity r
    \<and> {off ..< off + ra_align bytes} \<inter> ra_live r = {}
    \<and> ra_live r' = ra_live r \<union> {off ..< off + ra_align bytes}
    \<and> (off = ra_offset r \<and> (\<forall>(b, l) \<in> set (ra_free_blocks r). l < ra_align bytes)
       \<or> (\<exists>len. (off, len) \<in> set (ra_free_blocks r) \<and> ra_align bytes \<le> len
            \<and> (\<forall>(b, l) \<in> set (ra_free_blocks r). ra_align bytes \<le> l \<longrightarrow> len \<le> l)))"
proof -
  have "off = ra_offset r \<and> (\<forall>(b, l) \<in> set (ra_free_blocks r). l < ra_align bytes)
       \<or> (\<exists>len. (off, len) \<in> set (ra_free_blocks r) \<and> ra_align bytes \<le> len
            \<and> (\<forall>(b, l) \<in> set (ra_free_blocks r). ra_align bytes \<le> l \<longrightarrow> len \<le> l))"
    using inv fits
  proof (cases rule: ra_allocate_cases)
    case (reuse xs b len ys rest)
    then have "(off, len) \<in> set (ra_free_blocks r)" using run by simp
    with reuse(2,3) show ?thesis by blast
  qed (use run in simp_all)
  with ra_allocate_Ok [OF assms] show ?thesis by simp
qed

theorem ra_allocate_correct_witness:
  "ra_inv \<lparr>ra_capacity = 4096, ra_offset = 512, ra_free_blocks = [(0, 256), (384, 64)]\<rparr>
    \<and> ra_allocate \<lparr>ra_capacity = 4096, ra_offset = 512, ra_free_blocks = [(0, 256), (384, 64)]\<rparr> 64
      = (Ok 384, \<lparr>ra_capacity = 4096, ra_offset = 512, ra_free_blocks = [(0, 256)]\<rparr>)
    \<and> 384 + ra_align 64 \<le> 4096"
proof -
  let ?r = "\<lparr>ra_capacity = 4096, ra_offset = 512, ra_free_blocks = [(0, 256), (384, 64)]\<rparr>"
  have inv: "ra_inv ?r" by (simp add: ra_inv_def W64_def)
  have fits: "ra_fits ?r 64" by (simp add: ra_fits_def W64_def)
  have run: "ra_allocate ?r 64
      = (Ok 384, \<lparr>ra_capacity = 4096, ra_offset = 512, ra_free_blocks = [(0, 256)]\<rparr>)"
    by (simp add: ra_eval)
  from ra_allocate_correct [OF inv fits run] inv run show ?thesis by simp
qed

text \<open>
  When \<open>allocate\<close> fails: exactly when no hole is large enough and the fresh space is
  too small, and then nothing changes and the error reports the free bytes, so that \<open>available\<close> at
  least \<open>requested\<close> identifies fragmentation. It never panics.
\<close>

theorem ra_allocate_oom:
  assumes inv: "ra_inv r" and fits: "ra_fits r bytes"
  shows "(\<exists>e r'. ra_allocate r bytes = (Err e, r')) =
      ((\<forall>(b, l) \<in> set (ra_free_blocks r). l < ra_align bytes)
       \<and> ra_capacity r < ra_offset r + ra_align bytes)
    \<and> (\<forall>e r'. ra_allocate r bytes = (Err e, r') \<longrightarrow>
         r' = r \<and> e = DramOom (ra_align bytes) (ra_capacity r - ra_used r) (ra_capacity r))
    \<and> fst (ra_allocate r bytes) \<noteq> Panic"
  using inv fits
proof (cases rule: ra_allocate_cases)
  case (reuse xs off len ys rest)
  then have "\<not> (\<forall>(b, l) \<in> set (ra_free_blocks r). l < ra_align bytes)" by auto
  with reuse(5) show ?thesis by simp
qed (simp_all add: ra_used_card [OF inv])

theorem ra_allocate_oom_witness:
  "ra_allocate \<lparr>ra_capacity = 1024, ra_offset = 1024, ra_free_blocks = [(0, 256), (512, 256)]\<rparr> 512
    = (Err (DramOom 512 512 1024),
       \<lparr>ra_capacity = 1024, ra_offset = 1024, ra_free_blocks = [(0, 256), (512, 256)]\<rparr>)"
proof -
  let ?r = "\<lparr>ra_capacity = 1024, ra_offset = 1024, ra_free_blocks = [(0, 256), (512, 256)]\<rparr>"
  have inv: "ra_inv ?r" by (simp add: ra_inv_def W64_def)
  have fits: "ra_fits ?r 512" by (simp add: ra_fits_def W64_def)
  have "ra_align 512 = 512" by (simp add: ra_align_mod W64_def)
  with ra_allocate_oom [OF inv fits] show ?thesis
    by (auto simp: ra_used_def usum_def uadd_def usub_def W64_def)
qed

text \<open>
  Property C17. \<open>free\<close> on every range whose end, with the size rounded up, stays in the 64 bits: a non-empty
  range of live bytes is removed from the live bytes, and only it; every other such argument (an empty
  size, a range past the high-water mark, a range that overlaps free space, so every double free)
  leaves the allocator as it is. The result is again sorted, coalesced and retracted. A range whose
  end wraps is not ignored (\<open>ra_free_wrapping\<close> below).
\<close>

theorem ra_free_correct:
  assumes inv: "ra_inv r" and nowrap: "off + ra_align bytes < W64"
  shows "(if 0 < ra_align bytes \<and> {off ..< off + ra_align bytes} \<subseteq> ra_live r
      then ra_inv (ra_free r off bytes) \<and> ra_capacity (ra_free r off bytes) = ra_capacity r
        \<and> ra_live (ra_free r off bytes) = ra_live r - {off ..< off + ra_align bytes}
      else ra_free r off bytes = r)"
  using ra_free_live [OF inv nowrap] ra_free_ignored [OF inv nowrap] by auto

theorem ra_free_correct_witness:
  "ra_live (ra_free \<lparr>ra_capacity = 4096, ra_offset = 512, ra_free_blocks = [(0, 64), (128, 64)]\<rparr> 64 64)
    = ra_live \<lparr>ra_capacity = 4096, ra_offset = 512, ra_free_blocks = [(0, 64), (128, 64)]\<rparr> - {64 ..< 128}"
proof -
  let ?r = "\<lparr>ra_capacity = 4096, ra_offset = 512, ra_free_blocks = [(0, 64), (128, 64)]\<rparr>"
  have inv: "ra_inv ?r" by (simp add: ra_inv_def W64_def)
  have al: "ra_align 64 = 64" by (simp add: ra_align_mod W64_def)
  have "{64 ..< 128} \<subseteq> ra_live ?r" by (auto simp: ra_live_def)
  with ra_free_correct [OF inv, of 64 64] al show ?thesis by (simp add: W64_def)
qed

text \<open>
  The bound check of \<open>free\<close> adds without a check in the release build. A range that ends just past
  the top of the 64 bits passes it, is filed as free, and is what the next allocation of its size gets:
  an offset outside of the region.
\<close>

lemma ra_free_wrapping:
  assumes r: "ra_free_blocks r = []" "ra_offset r < W64" and off: "off < W64" "W64 \<le> off + ra_align bytes"
    and below: "off + ra_align bytes - W64 < ra_offset r"
  shows "ra_free r off bytes = r\<lparr>ra_free_blocks := [(off, ra_align bytes)]\<rparr>"
    and "fst (ra_allocate (ra_free r off bytes) bytes) = Ok off"
proof -
  have "x div 64 * 64 \<le> x" for x :: nat by simp
  then have "ra_align bytes \<le> (bytes + 63) mod W64" unfolding ra_align_mod .
  also have "\<dots> < W64" by simp
  finally have "uadd off (ra_align bytes) = off + ra_align bytes - W64" and "0 < ra_align bytes"
    using off by (simp_all add: uadd_def le_mod_geq)
  with r below show free: "ra_free r off bytes = r\<lparr>ra_free_blocks := [(off, ra_align bytes)]\<rparr>"
    by (simp add: ra_free_def Let_def partition_point_def vec_insert_def coalesce_right_def coalesce_left_def retract_def)
  show "fst (ra_allocate (ra_free r off bytes) bytes) = Ok off"
    by (simp add: free ra_allocate_def Let_def)
qed

text \<open>
  Round trip: releasing what was just allocated gives back the very allocator the
  allocation started from, block list and high-water mark included, whichever hole it came from.
\<close>

theorem ra_free_allocate:
  assumes "ra_inv r" and "ra_fits r bytes" and "0 < bytes" and "ra_allocate r bytes = (Ok off, r')"
  shows "ra_free r' off bytes = r"
proof -
  have "0 < ra_align bytes"
    using ra_align_bounds(1) [OF ra_fits_align(2) [OF assms(2)]] assms(3) by simp
  with assms show ?thesis by (intro ra.release_alloc)
qed

theorem ra_free_allocate_witness:
  "ra_free \<lparr>ra_capacity = 4096, ra_offset = 512, ra_free_blocks = [(64, 192)]\<rparr> 0 64
    = \<lparr>ra_capacity = 4096, ra_offset = 512, ra_free_blocks = [(0, 256)]\<rparr>"
proof -
  let ?r = "\<lparr>ra_capacity = 4096, ra_offset = 512, ra_free_blocks = [(0, 256)]\<rparr>"
  have "ra_inv ?r" "ra_fits ?r 64" by (simp_all add: ra_inv_def ra_fits_def W64_def)
  moreover have "ra_allocate ?r 64
      = (Ok 0, \<lparr>ra_capacity = 4096, ra_offset = 512, ra_free_blocks = [(64, 192)]\<rparr>)"
    by (simp add: ra_eval)
  ultimately show ?thesis using ra_free_allocate by simp
qed

text \<open>
  The rounding of the requested size wraps for the last 63 values of \<open>usize\<close>: such a
  request is granted as if it were empty, and reserves nothing.
\<close>

theorem ra_allocate_size_wraps:
  assumes "W64 - 63 \<le> bytes" and "bytes < W64" and "ra_free_blocks r = []"
    and "ra_offset r \<le> ra_capacity r" and "ra_capacity r < W64"
  shows "ra_align bytes = 0 \<and> ra_allocate r bytes = (Ok (ra_offset r), r)"
proof -
  have "63 < W64" by (simp add: W64_def)
  then have "bytes + 63 = (bytes - (W64 - 63)) + W64" and "bytes - (W64 - 63) < 63"
    using assms(1,2) by linarith+
  then have "(bytes + 63) mod W64 = bytes - (W64 - 63)"
    using \<open>63 < W64\<close> by (metis less_trans mod_add_self2 mod_less)
  with \<open>bytes - (W64 - 63) < 63\<close> have "ra_align bytes = 0"
    by (simp add: ra_align_mod)
  with assms(3-5) show ?thesis
    by (simp add: ra_allocate_def Let_def uadd_exact)
qed

theorem ra_allocate_size_wraps_witness:
  "ra_allocate (ra_new 4096) (2 ^ 64 - 1) = (Ok 0, ra_new 4096)"
  using ra_allocate_size_wraps [of "2 ^ 64 - 1" "ra_new 4096"]
  by (simp add: W64_def ra_new_def)

end
