(* ===== verification/DramPool.thy ===== *)
theory DramPool
  imports RangeAlloc
begin

text \<open>
  \<open>src/tiered.rs\<close>, \<open>struct DramPool\<close>: the NUMA-local DRAM region of one GPU. It hands out absolute
  host pointers and carries its own copy of the allocator of \<open>src/range_alloc.rs\<close>. The selection
  loop and the two merges are the same text in both files and share their definitions here;
  everything else is translated again, and \<open>dp_core\<close> is the abstraction onto the allocator over
  offsets.
\<close>

section \<open>The model\<close>

record dram_pool =
  dp_numa_node :: usize
  dp_gpu_ordinal :: int
  dp_base_ptr :: usize
  dp_capacity :: usize
  dp_offset :: usize
  dp_free_blocks :: "block list"
  dp_numa_bound :: bool
  dp_pinned :: bool

text \<open>\<open>(bytes + 63) & !63\<close>.\<close>

definition dp_align :: "usize \<Rightarrow> usize" where
  "dp_align bytes = unat ((word_of_nat bytes + 63) AND NOT 63 :: 64 word)"

definition dp_used :: "dram_pool \<Rightarrow> usize" where
  "dp_used p = usub (dp_offset p) (usum (map snd (dp_free_blocks p)))"

definition dp_allocate :: "dram_pool \<Rightarrow> usize \<Rightarrow> usize outcome \<times> dram_pool" where
  "dp_allocate p bytes =
     (let aligned = dp_align bytes; blocks = dp_free_blocks p in
      case best_fit blocks aligned (enumerate 0 blocks) None of
        Some i \<Rightarrow>
          (let (off, len) = blocks ! i in
           if len = aligned
           then (Ok (uadd (dp_base_ptr p) off), p\<lparr>dp_free_blocks := vec_remove i blocks\<rparr>)
           else (Ok (uadd (dp_base_ptr p) off),
                 p\<lparr>dp_free_blocks := blocks[i := (uadd off aligned, usub len aligned)]\<rparr>))
      | None \<Rightarrow>
          if uadd (dp_offset p) aligned > dp_capacity p
          then (Err (DramOom aligned (usub (dp_capacity p) (dp_used p)) (dp_capacity p)), p)
          else (Ok (uadd (dp_base_ptr p) (dp_offset p)),
                p\<lparr>dp_offset := uadd (dp_offset p) aligned\<rparr>))"

definition dp_retract :: "dram_pool \<Rightarrow> block list \<Rightarrow> nat \<Rightarrow> dram_pool" where
  "dp_retract p blocks idx =
     (let (b, l) = blocks ! idx in
      if uadd b l = dp_offset p
      then p\<lparr>dp_offset := b, dp_free_blocks := vec_remove idx blocks\<rparr>
      else p\<lparr>dp_free_blocks := blocks\<rparr>)"

text \<open>\<open>free\<close>: the pointer must lie inside the pool; then the offset is treated as in \<open>ra_free\<close>.\<close>

definition dp_free :: "dram_pool \<Rightarrow> usize \<Rightarrow> usize \<Rightarrow> dram_pool" where
  "dp_free p ptr bytes =
     (if ptr < dp_base_ptr p \<or> uadd (dp_base_ptr p) (dp_capacity p) \<le> ptr then p
      else
       (let off = usub ptr (dp_base_ptr p); len = dp_align bytes; blocks = dp_free_blocks p in
        if len = 0 \<or> uadd off len > dp_offset p then p
        else
         (let pos = partition_point (\<lambda>(b, _). b < off) blocks in
          if pos < length blocks \<and> uadd off len > fst (blocks ! pos) then p
          else if pos > 0 \<and> (let (po, pl) = blocks ! (pos - 1) in uadd po pl > off) then p
          else
           (let inserted = vec_insert pos (off, len) blocks;
                right = coalesce_right inserted pos off len;
                (left, idx) = coalesce_left right pos off
            in dp_retract p left idx))))"

section \<open>The pool is the offset allocator, moved by its base address\<close>

definition dp_core :: "dram_pool \<Rightarrow> range_allocator" where
  "dp_core p = \<lparr>ra_capacity = dp_capacity p, ra_offset = dp_offset p, ra_free_blocks = dp_free_blocks p\<rparr>"

text \<open>\<open>dp_put\<close> writes the state of the offset allocator back into the pool.\<close>

definition dp_put :: "dram_pool \<Rightarrow> range_allocator \<Rightarrow> dram_pool" where
  "dp_put p r = p\<lparr>dp_offset := ra_offset r, dp_free_blocks := ra_free_blocks r\<rparr>"

lemma dp_core_simps [simp]:
  "ra_capacity (dp_core p) = dp_capacity p"
  "ra_offset (dp_core p) = dp_offset p"
  "ra_free_blocks (dp_core p) = dp_free_blocks p"
  by (simp_all add: dp_core_def)

lemma dp_put_core [simp]: "dp_put p (dp_core p) = p"
  by (simp add: dp_put_def dp_core_def)

lemma dp_core_put: "ra_capacity r = dp_capacity p \<Longrightarrow> dp_core (dp_put p r) = r"
  by (simp add: dp_put_def dp_core_def)

lemma dp_align_eq: "dp_align = ra_align"
  by (rule ext) (simp add: dp_align_def ra_align_def ALIGN_def add.commute)

lemma dp_used_core: "dp_used p = ra_used (dp_core p)"
  by (simp add: dp_used_def ra_used_def)

lemma dp_allocate_core:
  "dp_allocate p bytes =
     (case ra_allocate (dp_core p) bytes of
        (Ok off, r) \<Rightarrow> (Ok (uadd (dp_base_ptr p) off), dp_put p r)
      | (Err e, r) \<Rightarrow> (Err e, dp_put p r)
      | (Panic, r) \<Rightarrow> (Panic, dp_put p r))"
  by (simp add: dp_allocate_def ra_allocate_def Let_def dp_align_eq dp_used_core dp_put_def
      split: option.split prod.split)

lemma dp_retract_core: "dp_retract p blocks idx = dp_put p (retract (dp_core p) blocks idx)"
  by (simp add: dp_retract_def retract_def dp_put_def split: prod.split)

lemma dp_free_core:
  "dp_free p ptr bytes =
     (if ptr < dp_base_ptr p \<or> uadd (dp_base_ptr p) (dp_capacity p) \<le> ptr then p
      else dp_put p (ra_free (dp_core p) (usub ptr (dp_base_ptr p)) bytes))"
  by (simp add: dp_free_def ra_free_def Let_def dp_align_eq dp_retract_core case_prod_beta)

section \<open>Invariant and abstract state\<close>

text \<open>A pool is a mapping that exists, so its last byte has an address.\<close>

definition dp_inv :: "dram_pool \<Rightarrow> bool" where
  "dp_inv p \<longleftrightarrow> ra_inv (dp_core p) \<and> dp_base_ptr p + dp_capacity p < W64"

definition dp_live :: "dram_pool \<Rightarrow> nat set" where
  "dp_live p = (\<lambda>x. dp_base_ptr p + x) ` ra_live (dp_core p)"

definition dp_fits :: "dram_pool \<Rightarrow> usize \<Rightarrow> bool" where
  "dp_fits p bytes \<longleftrightarrow> ra_fits (dp_core p) bytes"

definition dp_frame :: "dram_pool \<Rightarrow> usize \<times> int \<times> usize \<times> usize \<times> bool \<times> bool" where
  "dp_frame p = (dp_numa_node p, dp_gpu_ordinal p, dp_base_ptr p, dp_capacity p,
     dp_numa_bound p, dp_pinned p)"

lemma dp_put_simps [simp]:
  "dp_frame (dp_put p r) = dp_frame p"
  "dp_base_ptr (dp_put p r) = dp_base_ptr p"
  "dp_capacity (dp_put p r) = dp_capacity p"
  "dp_numa_node (dp_put p r) = dp_numa_node p"
  by (simp_all add: dp_put_def dp_frame_def)

lemma dp_alloc_law:
  assumes inv: "dp_inv p" and fits: "dp_fits p n" and run: "dp_allocate p n = (Ok ptr, q)"
  shows "dp_inv q \<and> dp_frame q = dp_frame p \<and> held_range dp_align (ptr, n) \<inter> dp_live p = {}
    \<and> dp_live q = dp_live p \<union> held_range dp_align (ptr, n) \<and> ptr + dp_align n < W64
    \<and> dp_base_ptr p \<le> ptr \<and> ptr + dp_align n \<le> dp_base_ptr p + dp_capacity p"
proof -
  let ?b = "dp_base_ptr p"
  have core: "ra_inv (dp_core p)" "ra_fits (dp_core p) n" and cap: "?b + dp_capacity p < W64"
    using inv fits by (simp_all add: dp_inv_def dp_fits_def)
  obtain off r where r: "ra_allocate (dp_core p) n = (Ok off, r)"
    and q: "q = dp_put p r" and ptr: "ptr = uadd ?b off"
    using run by (auto simp: dp_allocate_core split: prod.splits outcome.splits)
  note a = ra_allocate_Ok [OF core r, simplified]
  have ptr: "ptr = ?b + off"
    using ptr a(3) cap by (simp add: uadd_exact)
  have cq: "dp_core q = r" using a(2) by (simp add: q dp_core_put)
  have rng: "held_range dp_align (ptr, n) = (\<lambda>x. ?b + x) ` {off ..< off + ra_align n}"
    by (simp add: held_range_def dp_align_eq ptr ac_simps)
  have "held_range dp_align (ptr, n) \<inter> dp_live p = {}"
    using a(4) by (auto simp: rng dp_live_def)
  moreover have "dp_live q = dp_live p \<union> held_range dp_align (ptr, n)"
    unfolding rng dp_live_def cq a(5) by (simp add: q image_Un)
  moreover have "dp_inv q"
    using a(1) cap by (simp add: dp_inv_def cq) (simp add: q)
  ultimately show ?thesis
    using a(3) cap by (simp add: dp_align_eq ptr q)
qed

lemma dp_alloc_err:
  assumes "dp_inv p" and "dp_fits p n" and "dp_allocate p n = (Err e, q)"
  shows "q = p" and "e = DramOom (dp_align n) (dp_capacity p - dp_used p) (dp_capacity p)"
proof -
  have core: "ra_inv (dp_core p)" "ra_fits (dp_core p) n"
    using assms by (simp_all add: dp_inv_def dp_fits_def)
  obtain r where r: "ra_allocate (dp_core p) n = (Err e, r)" and q: "q = dp_put p r"
    using assms(3) by (auto simp: dp_allocate_core split: prod.splits outcome.splits)
  show "q = p" using ra_allocate_Err(1) [OF core r] q by simp
  show "e = DramOom (dp_align n) (dp_capacity p - dp_used p) (dp_capacity p)"
    using ra_allocate_Err(2) [OF core r] ra_used_card [OF core(1)]
    by (simp add: dp_align_eq dp_used_core)
qed

lemma dp_allocate_never_panics: "fst (dp_allocate p n) \<noteq> Panic"
  using ra_allocate_never_panics [of "dp_core p" n]
  by (auto simp: dp_allocate_core split: prod.splits outcome.splits)

text \<open>A non-empty range of live bytes lies in the pool, at an offset.\<close>

lemma dp_live_range:
  assumes inv: "dp_inv p" and pos: "0 < dp_align n" and sub: "held_range dp_align (ptr, n) \<subseteq> dp_live p"
  shows "dp_base_ptr p \<le> ptr" and "ptr + dp_align n \<le> dp_base_ptr p + dp_offset p"
    and "dp_offset p \<le> dp_capacity p"
    and "{ptr - dp_base_ptr p ..< ptr - dp_base_ptr p + ra_align n} \<subseteq> ra_live (dp_core p)"
proof -
  let ?b = "dp_base_ptr p"
  have "ptr \<in> dp_live p" and last: "ptr + dp_align n - 1 \<in> dp_live p"
    using pos sub by (auto simp: held_range_def subset_iff)
  then show le: "?b \<le> ptr" by (auto simp: dp_live_def)
  from last obtain x where "ptr + dp_align n - 1 = ?b + x" "x < dp_offset p"
    by (auto simp: dp_live_def dest: ra_live_below)
  then show "ptr + dp_align n \<le> ?b + dp_offset p" by linarith
  show "dp_offset p \<le> dp_capacity p" using inv by (simp add: dp_inv_def ra_inv_def)
  show "{ptr - ?b ..< ptr - ?b + ra_align n} \<subseteq> ra_live (dp_core p)"
  proof
    fix x assume "x \<in> {ptr - ?b ..< ptr - ?b + ra_align n}"
    then have "?b + x \<in> held_range dp_align (ptr, n)"
      using le by (auto simp: held_range_def dp_align_eq)
    with sub show "x \<in> ra_live (dp_core p)" by (auto simp: dp_live_def)
  qed
qed

lemma dp_release_law:
  assumes inv: "dp_inv p" and pos: "0 < dp_align n" and sub: "held_range dp_align (ptr, n) \<subseteq> dp_live p"
  shows "dp_inv (dp_free p ptr n) \<and> dp_frame (dp_free p ptr n) = dp_frame p
    \<and> dp_live (dp_free p ptr n) = dp_live p - held_range dp_align (ptr, n)"
proof -
  let ?b = "dp_base_ptr p" and ?off = "ptr - dp_base_ptr p"
  note l = dp_live_range [OF inv pos sub]
  have cap: "?b + dp_capacity p < W64" and core: "ra_inv (dp_core p)"
    using inv by (simp_all add: dp_inv_def)
  have "?off + ra_align n < W64" and rpos: "0 < ra_align n"
    using l(1-3) cap pos by (simp_all add: dp_align_eq)
  note f = ra_free_live [OF core this l(4)]
  have free: "dp_free p ptr n = dp_put p (ra_free (dp_core p) ?off n)"
    using l(1-3) cap pos by (simp add: dp_free_core uadd_exact usub_exact)
  have cq: "dp_core (dp_free p ptr n) = ra_free (dp_core p) ?off n"
    using f(3) by (simp add: free dp_core_put)
  have rng: "held_range dp_align (ptr, n) = (\<lambda>x. ?b + x) ` {?off ..< ?off + ra_align n}"
    using l(1) by (simp add: held_range_def dp_align_eq)
  have "dp_live (dp_free p ptr n) = (\<lambda>x. ?b + x) ` (ra_live (dp_core p) - {?off ..< ?off + ra_align n})"
    unfolding dp_live_def cq f(2) by (simp add: free)
  also have "\<dots> = dp_live p - held_range dp_align (ptr, n)"
    by (simp add: rng dp_live_def image_set_diff)
  finally have "dp_live (dp_free p ptr n) = dp_live p - held_range dp_align (ptr, n)" .
  moreover have "dp_inv (dp_free p ptr n)"
    using f(1) cap by (simp add: dp_inv_def cq) (simp add: free)
  ultimately show ?thesis by (simp add: free)
qed

lemma dp_free_ignored:
  assumes inv: "dp_inv p" and nowrap: "ptr + dp_align n < W64"
    and bad: "dp_align n = 0 \<or> \<not> held_range dp_align (ptr, n) \<subseteq> dp_live p"
  shows "dp_free p ptr n = p"
proof (cases "ptr < dp_base_ptr p \<or> uadd (dp_base_ptr p) (dp_capacity p) \<le> ptr")
  case True
  then show ?thesis by (simp add: dp_free_core)
next
  case False
  let ?b = "dp_base_ptr p" and ?off = "ptr - dp_base_ptr p"
  from False have le: "?b \<le> ptr" by simp
  have "\<not> {?off ..< ?off + ra_align n} \<subseteq> ra_live (dp_core p)" if "dp_align n \<noteq> 0"
  proof
    assume "{?off ..< ?off + ra_align n} \<subseteq> ra_live (dp_core p)"
    then have "(\<lambda>x. ?b + x) ` {?off ..< ?off + ra_align n} \<subseteq> dp_live p"
      unfolding dp_live_def by (rule image_mono)
    with le have "held_range dp_align (ptr, n) \<subseteq> dp_live p"
      by (simp add: held_range_def dp_align_eq)
    with bad that show False by simp
  qed
  then have "ra_free (dp_core p) ?off n = dp_core p"
    using inv nowrap le by (intro ra_free_ignored) (auto simp: dp_inv_def dp_align_eq)
  with False le nowrap show ?thesis by (simp add: dp_free_core usub_exact)
qed

lemma dp_canonical:
  assumes "dp_inv p" and "dp_inv q" and frame: "dp_frame p = dp_frame q" and "dp_live p = dp_live q"
  shows "p = q"
proof -
  have "dp_base_ptr p = dp_base_ptr q" and "dp_capacity p = dp_capacity q"
    using frame by (simp_all add: dp_frame_def)
  moreover then have "ra_live (dp_core p) = ra_live (dp_core q)"
    using assms(4) by (simp add: dp_live_def inj_image_eq_iff)
  ultimately have "dp_core p = dp_core q"
    using assms(1,2) by (intro ra_canonical) (simp_all add: dp_inv_def)
  with frame show ?thesis by (simp add: dp_frame_def dp_core_def)
qed

interpretation dp: region dp_allocate dp_free dp_live dp_inv dp_fits dp_align dp_frame
proof (unfold_locales, goal_cases)
  case (1 p n ptr q)
  then show ?case using dp_alloc_law by blast
next
  case (2 p n e q)
  then show ?case by (rule dp_alloc_err(1))
next
  case (3 p n)
  show ?case by (rule dp_allocate_never_panics)
next
  case (4 p n ptr)
  then show ?case using dp_release_law by blast
next
  case (5 p n ptr)
  then show ?case by (intro dp_free_ignored) auto
next
  case (6 p q)
  then show ?case by (rule dp_canonical)
next
  case (7 p q n)
  then show ?case by (simp add: dp_frame_def dp_fits_def ra_fits_def)
qed

section \<open>Properties\<close>

lemmas dp_eval = dp_allocate_core dp_free_core dp_put_def dp_core_def dp_used_def ra_eval

lemma dp_held_in_pool:
  assumes "dp_inv p" and "held_range dp_align (ptr, n) \<subseteq> dp_live p" and "dp_fits p n"
  shows "n = 0 \<or> dp_base_ptr p \<le> ptr \<and> ptr + dp_align n \<le> dp_base_ptr p + dp_capacity p"
proof (cases "n = 0")
  case False
  then have "0 < dp_align n"
    using assms(3) ra_align_bounds(1) [of n] by (simp add: dp_fits_def ra_fits_def dp_align_eq)
  from dp_live_range(1-3) [OF assms(1) this assms(2)] show ?thesis by linarith
qed simp

text \<open>
  The DRAM pool is the range allocator moved by its base address: \<open>allocate\<close> returns
  the allocator's offset plus the base and its errors unchanged, \<open>free\<close> of a pointer inside the
  mapping is the allocator's \<open>free\<close> of the offset, and a pointer outside the mapping is ignored.
  The two copies of the algorithm in the source agree on every input.
\<close>

theorem dp_refines_range_allocator:
  "dp_allocate p bytes =
     (case ra_allocate (dp_core p) bytes of
        (Ok off, r) \<Rightarrow> (Ok (uadd (dp_base_ptr p) off), dp_put p r)
      | (Err e, r) \<Rightarrow> (Err e, dp_put p r)
      | (Panic, r) \<Rightarrow> (Panic, dp_put p r))
   \<and> dp_free p ptr bytes =
     (if dp_base_ptr p \<le> ptr \<and> ptr < uadd (dp_base_ptr p) (dp_capacity p)
      then dp_put p (ra_free (dp_core p) (usub ptr (dp_base_ptr p)) bytes) else p)
   \<and> dp_used p = ra_used (dp_core p)"
  by (simp add: dp_allocate_core dp_free_core dp_used_core)

text \<open>
  Over every history of allocations and releases of a pool that starts empty, the host
  ranges the client holds are pairwise disjoint and lie inside the mapping, \<open>used\<close> is the sum of
  their aligned sizes, the pool's placement (base, capacity, NUMA node, pinning) never changes,
  and a client that has returned everything leaves the pool as it was created.
\<close>

theorem dp_history_no_aliasing:
  assumes "dp_inv p" and empty: "dp_offset p = 0" and "\<forall>x \<in> set ops. dp_fits p (op_size x)"
    and run: "client_run dp_allocate dp_free p ops = (q, held)"
  shows "disjoint_held dp_align held
    \<and> (\<forall>(ptr, n) \<in> set held. n = 0 \<or>
         dp_base_ptr p \<le> ptr \<and> ptr + dp_align n \<le> dp_base_ptr p + dp_capacity p)
    \<and> dp_used q = sum_list (map (dp_align \<circ> snd) held)
    \<and> dp_frame q = dp_frame p
    \<and> (held = [] \<longrightarrow> q = p)"
proof -
  have "dp_live p = {}" using empty by (auto simp: dp_live_def ra_live_def)
  note start = assms(1) this assms(3)
  have ok: "dp_inv q" "dp_frame q = dp_frame p" "tiles dp_align held (dp_live q)"
    and fit: "\<forall>(ptr, n) \<in> set held. dp_fits p n"
    using dp.client_run_ok [OF start] run by (auto simp: dp.client_ok_def)
  have same: "dp_base_ptr q = dp_base_ptr p" "dp_capacity q = dp_capacity p"
    using ok(2) by (simp_all add: dp_frame_def)
  have "n = 0 \<or> dp_base_ptr p \<le> ptr \<and> ptr + dp_align n \<le> dp_base_ptr p + dp_capacity p"
    if "(ptr, n) \<in> set held" for ptr n
  proof -
    have "held_range dp_align (ptr, n) \<subseteq> dp_live q"
      using that ok(3) unfolding tiles_def by blast
    moreover have "dp_fits q n"
      using fit that same by (auto simp: dp_fits_def ra_fits_def)
    ultimately show ?thesis using dp_held_in_pool [OF ok(1)] same by simp
  qed
  moreover have "card (dp_live q) = card (ra_live (dp_core q))"
    by (simp add: dp_live_def card_image)
  then have "dp_used q = sum_list (map (dp_align \<circ> snd) held)"
    using ok(1,3) tiles_card by (metis dp_used_core ra_used_card dp_inv_def)
  moreover have "held = [] \<longrightarrow> q = p"
    using dp.client_run_returns [OF start] run by simp
  ultimately show ?thesis
    using ok by (auto simp: tiles_def)
qed

definition dp_sample :: dram_pool where
  "dp_sample = \<lparr>dp_numa_node = 1, dp_gpu_ordinal = 0, dp_base_ptr = 65536, dp_capacity = 4096,
     dp_offset = 0, dp_free_blocks = [], dp_numa_bound = True, dp_pinned = True\<rparr>"

theorem dp_history_no_aliasing_witness:
  "disjoint_held dp_align [(65792, 100), (65536, 64)]
    \<and> dp_used (dp_sample\<lparr>dp_offset := 384, dp_free_blocks := [(64, 192)]\<rparr>) = 192"
proof -
  have inv: "dp_inv dp_sample" by (simp add: dp_inv_def dp_sample_def ra_inv_def W64_def)
  have run: "client_run dp_allocate dp_free dp_sample [Get 256, Get 100, Put 0, Get 64]
    = (dp_sample\<lparr>dp_offset := 384, dp_free_blocks := [(64, 192)]\<rparr>, [(65792, 100), (65536, 64)])"
    by (simp add: client_run_def dp_sample_def dp_eval)
  have fits: "\<forall>x \<in> set [Get 256, Get 100, Put 0, Get 64]. dp_fits dp_sample (op_size x)"
    by (simp add: dp_sample_def dp_fits_def ra_fits_def W64_def)
  have "dp_offset dp_sample = 0" by (simp add: dp_sample_def)
  from dp_history_no_aliasing [OF inv this fits run] show ?thesis
    by (simp add: W64_def ra_align_mod dp_align_eq)
qed

text \<open>
  A pointer of one pool handed to another pool (mappings do not overlap) changes
  nothing there: mixing up two GPUs' pools, or freeing twice, loses at most the range and never
  makes two allocations overlap. In its own pool the range is returned, and only it.
\<close>

theorem dp_free_right_pool_only:
  assumes inv: "dp_inv p" "dp_inv q" and pos: "0 < dp_align bytes"
    and live: "held_range dp_align (ptr, bytes) \<subseteq> dp_live p"
    and apart: "dp_base_ptr p + dp_capacity p \<le> dp_base_ptr q
      \<or> dp_base_ptr q + dp_capacity q \<le> dp_base_ptr p"
  shows "dp_free q ptr bytes = q
    \<and> dp_live (dp_free p ptr bytes) = dp_live p - held_range dp_align (ptr, bytes)
    \<and> dp_free (dp_free p ptr bytes) ptr bytes = dp_free p ptr bytes"
proof -
  note l = dp_live_range(1-3) [OF inv(1) pos live]
  have "dp_base_ptr p + dp_capacity p < W64" and "dp_base_ptr q + dp_capacity q < W64"
    using inv by (simp_all add: dp_inv_def)
  with l have nowrap: "ptr + dp_align bytes < W64" by linarith
  have "ptr < dp_base_ptr q \<or> uadd (dp_base_ptr q) (dp_capacity q) \<le> ptr"
    using l apart pos \<open>dp_base_ptr q + dp_capacity q < W64\<close> by (auto simp: uadd_exact)
  then have "dp_free q ptr bytes = q" by (simp add: dp_free_core)
  moreover note r = dp_release_law [OF inv(1) pos live]
  moreover have "ptr \<in> held_range dp_align (ptr, bytes)"
    using pos by (simp add: held_range_def)
  then have "\<not> held_range dp_align (ptr, bytes) \<subseteq> dp_live (dp_free p ptr bytes)"
    using r by blast
  then have "dp_free (dp_free p ptr bytes) ptr bytes = dp_free p ptr bytes"
    using r nowrap by (intro dp_free_ignored) auto
  ultimately show ?thesis by simp
qed

theorem dp_free_right_pool_only_witness:
  "dp_free (dp_sample\<lparr>dp_base_ptr := 131072, dp_offset := 512\<rparr>) 65536 64
      = dp_sample\<lparr>dp_base_ptr := 131072, dp_offset := 512\<rparr>
    \<and> dp_live (dp_free (dp_sample\<lparr>dp_offset := 512\<rparr>) 65536 64)
      = dp_live (dp_sample\<lparr>dp_offset := 512\<rparr>) - {65536 ..< 65600}"
proof -
  let ?p = "dp_sample\<lparr>dp_offset := 512\<rparr>"
  let ?q = "dp_sample\<lparr>dp_base_ptr := 131072, dp_offset := 512\<rparr>"
  have inv: "dp_inv ?p" "dp_inv ?q"
    by (simp_all add: dp_inv_def dp_sample_def ra_inv_def W64_def dp_core_def)
  have al: "dp_align 64 = 64" by (simp add: dp_align_eq ra_align_mod W64_def)
  have "{65536 ..< 65600} \<subseteq> (\<lambda>x. 65536 + x) ` {..< 512 :: nat}"
  proof
    fix x :: nat assume "x \<in> {65536 ..< 65600}"
    then have "65536 \<le> x" "x < 65600" by simp_all
    then have "x = 65536 + (x - 65536)" "x - 65536 < 512" by linarith+
    then show "x \<in> (\<lambda>x. 65536 + x) ` {..< 512}" by blast
  qed
  then have live: "held_range dp_align (65536, 64) \<subseteq> dp_live ?p"
    by (simp add: held_range_def al dp_live_def dp_sample_def ra_live_def dp_core_def)
  from dp_free_right_pool_only [OF inv _ live] show ?thesis
    by (simp add: al dp_sample_def held_range_def)
qed

end
