(* ===== verification/Vmt.thy ===== *)
theory Vmt
  imports Errors
begin

text \<open>
  \<open>src/vmt.rs\<close>: pages with their chunks, the migration state machine, and the virtual memory
  table that maps names to pages. The hash map is a partial function; what iterates over it
  (the sweeps of \<open>src/tiered.rs\<close>) takes the unspecified order of the iteration as an argument.
\<close>

section \<open>Decimal numerals\<close>

text \<open>\<open>format!("{}", n)\<close> of an unsigned integer.\<close>

definition digit :: "nat \<Rightarrow> char" where
  "digit d = char_of (48 + d)"

fun decimal :: "nat \<Rightarrow> string" where
  "decimal n = (if n < 10 then [digit n] else decimal (n div 10) @ [digit (n mod 10)])"

declare decimal.simps [simp del]

lemma digit_inj: "d < 10 \<Longrightarrow> e < 10 \<Longrightarrow> digit d = digit e \<Longrightarrow> d = e"
proof -
  assume "d < 10" "e < 10" "digit d = digit e"
  then have "(of_char (digit d) :: nat) = of_char (digit e)" by simp
  with \<open>d < 10\<close> \<open>e < 10\<close> show ?thesis by (simp add: digit_def)
qed

lemma decimal_inj: "decimal m = decimal n \<Longrightarrow> m = n"
proof (induction m arbitrary: n rule: decimal.induct)
  case (1 m)
  have len: "decimal k \<noteq> []" for k by (subst decimal.simps) simp
  show ?case
  proof (cases "m < 10")
    case True
    with "1.prems" len [of "n div 10"] show ?thesis
      by (subst (asm) (1 2) decimal.simps) (auto split: if_splits intro: digit_inj)
  next
    case False
    then have m: "decimal m = decimal (m div 10) @ [digit (m mod 10)]"
      by (subst decimal.simps) simp
    show ?thesis
    proof (cases "n < 10")
      case True
      then have "decimal n = [digit n]" by (subst decimal.simps) simp
      with m "1.prems" len [of "m div 10"] show ?thesis by simp
    next
      case n: False
      then have "decimal n = decimal (n div 10) @ [digit (n mod 10)]"
        by (subst decimal.simps) simp
      with m "1.prems" have "decimal (m div 10) = decimal (n div 10)"
        and "digit (m mod 10) = digit (n mod 10)" by simp_all
      with "1.IH" [OF False] digit_inj [of "m mod 10" "n mod 10"]
      have "m div 10 = n div 10" "m mod 10 = n mod 10" by simp_all
      then show ?thesis by (metis div_mult_mod_eq)
    qed
  qed
qed

section \<open>Pages\<close>

record chunk =
  ck_gpu_ordinal :: int
  ck_device_ptr :: u64
  ck_size_bytes :: usize
  ck_num_elements :: usize

record dram_chunk =
  dc_numa_node :: usize
  dc_host_ptr :: usize
  dc_size_bytes :: usize
  dc_cuda_registered :: bool

record page =
  pg_name :: string
  pg_tier :: tier
  pg_state :: page_state
  pg_shape :: "usize list"
  pg_element_size :: usize
  pg_size_bytes :: usize
  pg_vram_chunks :: "chunk list"
  pg_dram_chunks :: "dram_chunk list"
  pg_ssd_offset :: "u64 option"
  pg_access_count :: u64
  pg_last_access_ns :: u64
  pg_pinned :: bool

text \<open>\<open>Page::new\<close>. The numbers of GPUs and of NUMA nodes only size the vectors' buffers.\<close>

definition page_new :: "string \<Rightarrow> usize list \<Rightarrow> usize \<Rightarrow> usize \<Rightarrow> usize \<Rightarrow> page" where
  "page_new name shape element_size num_gpus num_numa_nodes =
     \<lparr>pg_name = name, pg_tier = Vram, pg_state = Unmapped, pg_shape = shape,
      pg_element_size = element_size, pg_size_bytes = umul (uproduct shape) element_size,
      pg_vram_chunks = [], pg_dram_chunks = [], pg_ssd_offset = None,
      pg_access_count = 0, pg_last_access_ns = 0, pg_pinned = False\<rparr>"

fun valid_transition :: "page_state \<Rightarrow> page_state \<Rightarrow> bool" where
  "valid_transition Unmapped Allocated = True"
| "valid_transition Allocated Resident = True"
| "valid_transition Resident Warm = True"
| "valid_transition Warm Resident = True"
| "valid_transition Warm Cold = True"
| "valid_transition Cold Warm = True"
| "valid_transition Cold Resident = True"
| "valid_transition Resident Cold = True"
| "valid_transition _ _ = False"

definition page_transition :: "page_state \<Rightarrow> (page, unit) op" where
  "page_transition new_state p =
     (if valid_transition (pg_state p) new_state
      then (Ok (), p\<lparr>pg_state := new_state\<rparr>)
      else (Err (InvalidTransition (pg_state p) new_state (pg_name p)), p))"

definition page_touch :: "u64 \<Rightarrow> page \<Rightarrow> page" where
  "page_touch now_ns p = p\<lparr>pg_access_count := uadd (pg_access_count p) 1, pg_last_access_ns := now_ns\<rparr>"

definition page_is_idle :: "page \<Rightarrow> u64 \<Rightarrow> u64 \<Rightarrow> bool" where
  "page_is_idle p now_ns idle_threshold_ns \<longleftrightarrow>
     \<not> pg_pinned p \<and> idle_threshold_ns < saturating_sub now_ns (pg_last_access_ns p)"

definition page_is_hot :: "page \<Rightarrow> u64 \<Rightarrow> bool" where
  "page_is_hot p access_threshold \<longleftrightarrow> access_threshold \<le> pg_access_count p"

section \<open>The table\<close>

record vmt =
  vt_pages :: "string \<Rightarrow> page option"
  vt_num_gpus :: usize
  vt_num_numa_nodes :: usize
  vt_next_id :: u64

definition vmt_new :: "usize \<Rightarrow> usize \<Rightarrow> vmt" where
  "vmt_new num_gpus num_numa_nodes =
     \<lparr>vt_pages = Map.empty, vt_num_gpus = num_gpus, vt_num_numa_nodes = num_numa_nodes, vt_next_id = 0\<rparr>"

definition auto_name :: "u64 \<Rightarrow> string" where
  "auto_name n = ''vugva_alloc_'' @ decimal n"

definition vmt_allocate :: "string \<Rightarrow> usize list \<Rightarrow> usize \<Rightarrow> (vmt, string) op" where
  "vmt_allocate name shape element_size v =
     (let (alloc_name, v1) =
        (if name = [] then
           (let id = uadd (vt_next_id v) 1 in (auto_name id, v\<lparr>vt_next_id := id\<rparr>))
         else (name, v));
        page = (page_new alloc_name shape element_size (vt_num_gpus v1) (vt_num_numa_nodes v1))
          \<lparr>pg_state := Allocated, pg_tier := Vram\<rparr>
      in (Ok alloc_name, v1\<lparr>vt_pages := (vt_pages v1)(alloc_name \<mapsto> page)\<rparr>))"

definition vmt_lookup :: "vmt \<Rightarrow> string \<Rightarrow> page option" where
  "vmt_lookup v name = vt_pages v name"

text \<open>A write through \<open>lookup_mut\<close>: \<open>f\<close> is applied to the page when there is one.\<close>

definition vmt_modify :: "string \<Rightarrow> (page \<Rightarrow> page) \<Rightarrow> vmt \<Rightarrow> vmt" where
  "vmt_modify name f v = v\<lparr>vt_pages := (vt_pages v)(name := map_option f (vt_pages v name))\<rparr>"

definition vmt_remove :: "string \<Rightarrow> vmt \<Rightarrow> page option \<times> vmt" where
  "vmt_remove name v = (vt_pages v name, v\<lparr>vt_pages := (vt_pages v)(name := None)\<rparr>)"

definition vmt_len :: "vmt \<Rightarrow> nat" where
  "vmt_len v = card (dom (vt_pages v))"

definition vmt_is_empty :: "vmt \<Rightarrow> bool" where
  "vmt_is_empty v \<longleftrightarrow> vmt_len v = 0"

section \<open>The migration state machine\<close>

inductive migrates :: "page \<Rightarrow> page \<Rightarrow> bool" where
  migrate: "page_transition st p = (Ok (), q) \<Longrightarrow> migrates p q"

inductive_simps migrates_iff: "migrates p q"

fun tier_rank :: "page_state \<Rightarrow> nat" where
  "tier_rank Unmapped = 0"
| "tier_rank Allocated = 1"
| "tier_rank _ = 2"

definition state_reach :: "page_state \<Rightarrow> page_state \<Rightarrow> bool" where
  "state_reach a b \<longleftrightarrow> a = b \<or> tier_rank a < tier_rank b \<or> tier_rank a = 2 \<and> tier_rank b = 2"

lemma migrates_eq: "migrates p q \<longleftrightarrow>
    valid_transition (pg_state p) (pg_state q) \<and> q = p\<lparr>pg_state := pg_state q\<rparr>"
proof
  assume "migrates p q"
  then show "valid_transition (pg_state p) (pg_state q) \<and> q = p\<lparr>pg_state := pg_state q\<rparr>"
    by (auto simp: migrates_iff page_transition_def split: if_splits)
next
  assume a: "valid_transition (pg_state p) (pg_state q) \<and> q = p\<lparr>pg_state := pg_state q\<rparr>"
  then have "page_transition (pg_state q) p = (Ok (), q)"
    by (simp add: page_transition_def)
  then show "migrates p q" by (rule migrate)
qed

lemma valid_transition_reach: "valid_transition a b \<Longrightarrow> state_reach a b"
  by (cases a; cases b) (simp_all add: state_reach_def)

lemma state_reach_trans: "state_reach a b \<Longrightarrow> state_reach b c \<Longrightarrow> state_reach a c"
  by (auto simp: state_reach_def)

lemma migrates_to: "valid_transition (pg_state p) st \<Longrightarrow> migrates p (p\<lparr>pg_state := st\<rparr>)"
  by (simp add: migrates_eq)

lemma migrates_path:
  assumes "valid_transition (pg_state p) st" and "migrates\<^sup>*\<^sup>* (p\<lparr>pg_state := st\<rparr>) q"
  shows "migrates\<^sup>*\<^sup>* p q"
  using migrates_to [OF assms(1)] assms(2) by (rule converse_rtranclp_into_rtranclp)

lemma migrates_resident:
  assumes "pg_state p = Resident" and "tier_rank st = 2"
  shows "migrates\<^sup>*\<^sup>* p (p\<lparr>pg_state := st\<rparr>)"
proof (cases "st = Resident")
  case True
  with assms show ?thesis by (metis page.surjective page.update_convs(3) rtranclp.rtrancl_refl)
next
  case False
  with assms have "valid_transition (pg_state p) st" by (cases st) simp_all
  then show ?thesis by (intro r_into_rtranclp migrates_to)
qed

lemma migrates_tiers:
  assumes "tier_rank (pg_state p) = 2" and "tier_rank st = 2"
  shows "migrates\<^sup>*\<^sup>* p (p\<lparr>pg_state := st\<rparr>)"
proof (cases "pg_state p = Resident")
  case False
  with assms have "valid_transition (pg_state p) Resident" by (cases "pg_state p") simp_all
  moreover have "migrates\<^sup>*\<^sup>* (p\<lparr>pg_state := Resident\<rparr>) (p\<lparr>pg_state := st\<rparr>)"
    using migrates_resident [of "p\<lparr>pg_state := Resident\<rparr>" st] assms(2) by simp
  ultimately show ?thesis by (rule migrates_path)
qed (use assms migrates_resident in simp)

lemma migrates_allocated:
  assumes "pg_state p = Allocated" and "tier_rank st = 2"
  shows "migrates\<^sup>*\<^sup>* p (p\<lparr>pg_state := st\<rparr>)"
proof -
  have "migrates\<^sup>*\<^sup>* (p\<lparr>pg_state := Resident\<rparr>) (p\<lparr>pg_state := st\<rparr>)"
    using migrates_resident [of "p\<lparr>pg_state := Resident\<rparr>" st] assms(2) by simp
  with assms(1) show ?thesis by (intro migrates_path [of p Resident]) simp_all
qed

lemma migrates_unmapped:
  assumes "pg_state p = Unmapped" and "tier_rank st \<noteq> 0"
  shows "migrates\<^sup>*\<^sup>* p (p\<lparr>pg_state := st\<rparr>)"
proof (cases "st = Allocated")
  case True
  with assms show ?thesis by (intro r_into_rtranclp migrates_to) simp
next
  case False
  with assms(2) have "tier_rank st = 2" by (cases st) simp_all
  then have "migrates\<^sup>*\<^sup>* (p\<lparr>pg_state := Allocated\<rparr>) (p\<lparr>pg_state := st\<rparr>)"
    using migrates_allocated [of "p\<lparr>pg_state := Allocated\<rparr>" st] by simp
  with assms(1) show ?thesis by (intro migrates_path [of p Allocated]) simp_all
qed

lemma migrates_reach:
  assumes "state_reach (pg_state p) st"
  shows "migrates\<^sup>*\<^sup>* p (p\<lparr>pg_state := st\<rparr>)"
proof (cases "pg_state p = st")
  case True
  then show ?thesis by (metis page.surjective page.update_convs(3) rtranclp.rtrancl_refl)
next
  case False
  with assms have "tier_rank (pg_state p) < tier_rank st \<or> tier_rank (pg_state p) = 2 \<and> tier_rank st = 2"
    by (simp add: state_reach_def)
  then show ?thesis
    by (cases "pg_state p"; cases st) (simp_all add: migrates_tiers migrates_allocated migrates_unmapped)
qed

lemma reach_migrates:
  assumes "migrates\<^sup>*\<^sup>* p q"
  shows "q = p\<lparr>pg_state := pg_state q\<rparr> \<and> state_reach (pg_state p) (pg_state q)"
  using assms
proof (induction rule: rtranclp_induct)
  case base
  show ?case by (simp add: state_reach_def)
next
  case (step q r)
  from step.hyps(2) have "valid_transition (pg_state q) (pg_state r)" and r: "r = q\<lparr>pg_state := pg_state r\<rparr>"
    by (simp_all add: migrates_eq)
  with step.IH have "state_reach (pg_state p) (pg_state r)"
    using valid_transition_reach state_reach_trans by blast
  moreover have "r = p\<lparr>pg_state := pg_state r\<rparr>"
    using r step.IH by (metis page.surjective page.update_convs(3))
  ultimately show ?case by simp
qed

text \<open>
  What the machine is meant to be, stated without its table: a page is allocated once, becomes
  resident once from there, and moves freely between the three tiers, but never to the tier it is
  in.
\<close>

definition lifecycle :: "page_state \<Rightarrow> page_state \<Rightarrow> bool" where
  "lifecycle a b \<longleftrightarrow> a = Unmapped \<and> b = Allocated \<or> a = Allocated \<and> b = Resident
     \<or> a \<noteq> b \<and> {a, b} \<subseteq> {Resident, Warm, Cold}"

lemma valid_transition_lifecycle: "valid_transition a b = lifecycle a b"
  by (cases a; cases b) (simp_all add: lifecycle_def)

lemma page_transition_eq:
  "page_transition st p =
     (if lifecycle (pg_state p) st then (Ok (), p\<lparr>pg_state := st\<rparr>)
      else (Err (InvalidTransition (pg_state p) st (pg_name p)), p))"
  by (simp add: page_transition_def valid_transition_lifecycle)

lemma transitions_path:
  "successively lifecycle (pg_state p # ts) \<Longrightarrow>
     forM ts page_transition p = (Ok (), p\<lparr>pg_state := last (pg_state p # ts)\<rparr>)"
proof (induction ts arbitrary: p)
  case (Cons t ts)
  from Cons.prems Cons.IH [of "p\<lparr>pg_state := t\<rparr>"] show ?case
    by (simp add: page_transition_eq bindM_def)
qed (simp add: retM_def)

lemma transitions_stop:
  "successively lifecycle (pg_state p # good) \<Longrightarrow> \<not> lifecycle (last (pg_state p # good)) t \<Longrightarrow>
     forM (good @ t # rest) page_transition p
       = (Err (InvalidTransition (last (pg_state p # good)) t (pg_name p)),
          p\<lparr>pg_state := last (pg_state p # good)\<rparr>)"
proof (induction good arbitrary: p)
  case (Cons u good)
  from Cons.prems Cons.IH [of "p\<lparr>pg_state := u\<rparr>"] show ?case
    by (simp add: page_transition_eq bindM_def)
qed (simp add: page_transition_eq bindM_def)

text \<open>A list that is no path has a first step that is none.\<close>

lemma successively_first_gap:
  "\<not> successively R (s # ts) \<Longrightarrow>
     \<exists>good t rest. ts = good @ t # rest \<and> successively R (s # good) \<and> \<not> R (last (s # good)) t"
proof (induction ts arbitrary: s)
  case (Cons t ts)
  show ?case
  proof (cases "R s t")
    case False
    then show ?thesis by (intro exI [of _ "[]"]) simp
  next
    case True
    with Cons.prems Cons.IH [of t] obtain good u rest where
      "ts = good @ u # rest" "successively R (t # good)" "\<not> R (last (t # good)) u" by auto
    with True show ?thesis by (intro exI [of _ "t # good"] exI [of _ u] exI [of _ rest]) simp
  qed
qed simp

lemma migrates_transitions: "migrates\<^sup>*\<^sup>* p q \<longleftrightarrow> (\<exists>ts. forM ts page_transition p = (Ok (), q))"
proof
  assume "migrates\<^sup>*\<^sup>* p q"
  then show "\<exists>ts. forM ts page_transition p = (Ok (), q)"
  proof (induction rule: converse_rtranclp_induct)
    case base
    show ?case by (intro exI [of _ "[]"]) (simp add: retM_def)
  next
    case (step p u)
    then obtain st ts where "page_transition st p = (Ok (), u)" "forM ts page_transition u = (Ok (), q)"
      by (auto simp: migrates_iff)
    then show ?case by (intro exI [of _ "st # ts"]) (simp add: bindM_def)
  qed
next
  assume "\<exists>ts. forM ts page_transition p = (Ok (), q)"
  then obtain ts where "forM ts page_transition p = (Ok (), q)" ..
  then show "migrates\<^sup>*\<^sup>* p q"
  proof (induction ts arbitrary: p)
    case Nil
    then show ?case by (simp add: retM_def)
  next
    case (Cons t ts)
    from Cons.prems have "page_transition t p = (Ok (), p\<lparr>pg_state := t\<rparr>)"
      and "forM ts page_transition (p\<lparr>pg_state := t\<rparr>) = (Ok (), q)"
      by (auto simp: bindM_def page_transition_eq [of t p] split: if_splits)
    with Cons.IH show ?case by (meson converse_rtranclp_into_rtranclp migrate)
  qed
qed

text \<open>
  Property C35. The migration state machine, over any list of transitions asked of a page. They all
  succeed when the states form a path of the life cycle of a page (allocated once, resident from
  there, then from each tier to each other one, and no step to the same state); otherwise the
  first step that is none is refused with an error that names the two states and the page, and the
  page stays in the state before it. Only the state of the page changes. The pages some list of
  transitions leads to are the page itself in its own state or a later one (Unmapped, then
  Allocated, then the three tiers, each reachable from each), so no page with data ever becomes
  Unmapped or Allocated again.
\<close>

theorem page_state_machine:
  "(if successively lifecycle (pg_state p # ts)
    then forM ts page_transition p = (Ok (), p\<lparr>pg_state := last (pg_state p # ts)\<rparr>)
    else (\<exists>good t rest. ts = good @ t # rest
      \<and> successively lifecycle (pg_state p # good) \<and> \<not> lifecycle (last (pg_state p # good)) t
      \<and> forM ts page_transition p
        = (Err (InvalidTransition (last (pg_state p # good)) t (pg_name p)),
           p\<lparr>pg_state := last (pg_state p # good)\<rparr>)))
   \<and> (\<exists>us. forM us page_transition p = (Ok (), q)) =
      (\<exists>st. q = p\<lparr>pg_state := st\<rparr> \<and>
        (pg_state p = st \<or> tier_rank (pg_state p) < tier_rank st
         \<or> {pg_state p, st} \<subseteq> {Resident, Warm, Cold}))"
proof -
  have two: "tier_rank st = 2 \<longleftrightarrow> st \<in> {Resident, Warm, Cold}" for st
    by (cases st) simp_all
  have "migrates\<^sup>*\<^sup>* p q \<longleftrightarrow> (\<exists>st. q = p\<lparr>pg_state := st\<rparr> \<and> state_reach (pg_state p) st)"
    using reach_migrates [of p q] migrates_reach by (metis page.select_convs(3) page.update_convs(3) page.surjective)
  then have reach: "(\<exists>us. forM us page_transition p = (Ok (), q)) =
      (\<exists>st. q = p\<lparr>pg_state := st\<rparr> \<and>
        (pg_state p = st \<or> tier_rank (pg_state p) < tier_rank st
         \<or> {pg_state p, st} \<subseteq> {Resident, Warm, Cold}))"
    unfolding migrates_transitions by (auto simp: state_reach_def two)
  show ?thesis
  proof (cases "successively lifecycle (pg_state p # ts)")
    case True
    then show ?thesis using reach by (simp add: transitions_path)
  next
    case False
    from successively_first_gap [OF False] obtain good t rest where
      gap: "ts = good @ t # rest" "successively lifecycle (pg_state p # good)"
        "\<not> lifecycle (last (pg_state p # good)) t" by blast
    note stop = transitions_stop [OF gap(2,3), of rest]
    from False reach show ?thesis
      by (simp only: if_False, intro conjI exI [of _ good] exI [of _ t] exI [of _ rest])
        (use gap stop in simp_all)
  qed
qed

section \<open>Idleness and heat\<close>

lemma touches_count: "0 < k \<Longrightarrow> pg_access_count ((page_touch now ^^ k) p) = (pg_access_count p + k) mod W64"
proof (induction k)
  case (Suc k)
  then show ?case
    by (cases "k = 0") (simp_all add: page_touch_def uadd_def mod_simps ac_simps)
qed simp

lemma touches_last: "0 < k \<Longrightarrow> pg_last_access_ns ((page_touch now ^^ k) p) = now"
  by (cases k) (simp_all add: page_touch_def)

lemma touches_pinned: "pg_pinned ((page_touch now ^^ k) p) = pg_pinned p"
  by (induction k) (simp_all add: page_touch_def)

text \<open>
  What the two predicates the sweeps rely on say after \<open>k\<close> accesses, the last one at
  \<open>now\<close>: the page is idle at \<open>later\<close> exactly when it is not pinned and more than the threshold has
  passed (a clock that went backwards never makes it idle), and it is hot exactly when the counter
  has reached the threshold, unless the 64-bit counter has wrapped.
\<close>

theorem page_touch_idle_hot:
  assumes "0 < k"
  shows "page_is_idle ((page_touch now ^^ k) p) later threshold
      = (\<not> pg_pinned p \<and> now + threshold < later)
    \<and> (pg_access_count p + k < W64 \<longrightarrow>
       page_is_hot ((page_touch now ^^ k) p) hot = (hot \<le> pg_access_count p + k))"
  using touches_count [OF assms, of now p] touches_last [OF assms, of now p]
  by (auto simp: page_is_idle_def page_is_hot_def saturating_sub_def touches_pinned)

theorem page_touch_idle_hot_witness:
  "page_is_idle ((page_touch 100 ^^ 3) (page_new ''w'' [4, 2] 4 1 1)) 151 50
    \<and> \<not> page_is_idle ((page_touch 100 ^^ 3) (page_new ''w'' [4, 2] 4 1 1)) 150 50
    \<and> \<not> page_is_hot ((page_touch 100 ^^ 3) (page_new ''w'' [4, 2] 4 1 1)) 10"
  using page_touch_idle_hot [of 3 100 "page_new ''w'' [4, 2] 4 1 1" 151 50 10]
    page_touch_idle_hot [of 3 100 "page_new ''w'' [4, 2] 4 1 1" 150 50 10]
  by (simp add: page_new_def W64_def)

section \<open>The table's operations\<close>

text \<open>The table is finite and files every page under the page's own name.\<close>

definition vmt_inv :: "vmt \<Rightarrow> bool" where
  "vmt_inv v \<longleftrightarrow> finite (dom (vt_pages v)) \<and> vt_next_id v < W64
     \<and> (\<forall>n p. vt_pages v n = Some p \<longrightarrow> pg_name p = n)"

lemma vmt_inv_new: "vmt_inv (vmt_new g n)"
  by (simp add: vmt_inv_def vmt_new_def)

lemma vmt_allocate_inv: "vmt_inv v \<Longrightarrow> vmt_inv (snd (vmt_allocate name shape es v))"
  by (auto simp: vmt_inv_def vmt_allocate_def Let_def page_new_def)

lemma vmt_remove_inv: "vmt_inv v \<Longrightarrow> vmt_inv (snd (vmt_remove name v))"
  by (auto simp: vmt_inv_def vmt_remove_def)

lemma vmt_modify_inv:
  "vmt_inv v \<Longrightarrow> (\<And>p. pg_name (f p) = pg_name p) \<Longrightarrow> vmt_inv (vmt_modify name f v)"
  by (auto simp: vmt_inv_def vmt_modify_def)

lemma vmt_lookup_simps [simp]:
  "vmt_lookup (vmt_modify n f v) m = (if m = n then map_option f (vmt_lookup v n) else vmt_lookup v m)"
  "vmt_lookup (snd (vmt_remove n v)) m = (if m = n then None else vmt_lookup v m)"
  "vmt_lookup (vmt_new g k) m = None"
  by (simp_all add: vmt_lookup_def vmt_modify_def vmt_remove_def vmt_new_def)

lemma vmt_modify_twice: "vmt_modify n f (vmt_modify n g v) = vmt_modify n (f \<circ> g) v"
  by (simp add: vmt_modify_def option.map_comp)

lemma vmt_modify_id: "(\<And>pg. f pg = pg) \<Longrightarrow> vmt_modify n f v = v"
  by (simp add: vmt_modify_def option.map_ident fun_upd_idem_iff cong: option.map_cong)

definition fresh_page :: "string \<Rightarrow> usize list \<Rightarrow> usize \<Rightarrow> page" where
  "fresh_page name shape es = (page_new name shape es 0 0)\<lparr>pg_state := Allocated\<rparr>"

lemma vmt_allocate_run:
  "vmt_allocate name shape es v =
     (let n = (if name = [] then auto_name (uadd (vt_next_id v) 1) else name) in
      (Ok n, v\<lparr>vt_next_id := (if name = [] then uadd (vt_next_id v) 1 else vt_next_id v),
        vt_pages := (vt_pages v)(n \<mapsto> fresh_page n shape es)\<rparr>))"
  by (simp add: vmt_allocate_def Let_def fresh_page_def page_new_def)

text \<open>
  Property C36. \<open>allocate\<close> always succeeds. It files, under the name it returns, a page of state
  Allocated with the product of the dimensions times the element size as its size (modulo the word)
  and no chunk in any tier; every other page is untouched; the table grows by one page unless the
  name was taken, in which case the previous page is silently replaced, chunk lists included.
  Removing the returned name gives that page back and, if the name was free, the old pages.
\<close>

theorem vmt_allocate_correct:
  assumes inv: "vmt_inv v" and run: "vmt_allocate name shape es v = (r, v')"
  shows "\<exists>n p. r = Ok n \<and> (name \<noteq> [] \<longrightarrow> n = name) \<and> vmt_lookup v' n = Some p
    \<and> pg_name p = n \<and> pg_state p = Allocated \<and> pg_size_bytes p = (prod_list shape * es) mod W64
    \<and> pg_vram_chunks p = [] \<and> pg_dram_chunks p = [] \<and> pg_ssd_offset p = None
    \<and> (\<forall>m. m \<noteq> n \<longrightarrow> vmt_lookup v' m = vmt_lookup v m)
    \<and> vmt_len v' = (if vmt_lookup v n = None then vmt_len v + 1 else vmt_len v)
    \<and> fst (vmt_remove n v') = Some p
    \<and> (vmt_lookup v n = None \<longrightarrow> vt_pages (snd (vmt_remove n v')) = vt_pages v)
    \<and> vmt_inv v'"
proof -
  define n where "n = (if name = [] then auto_name (uadd (vt_next_id v) 1) else name)"
  define p where "p = fresh_page n shape es"
  have r: "r = Ok n" and pages: "vt_pages v' = (vt_pages v)(n \<mapsto> p)"
    using run by (auto simp: vmt_allocate_run Let_def n_def p_def)
  have fin: "finite (dom (vt_pages v))" using inv by (simp add: vmt_inv_def)
  have len: "vmt_len v' = (if vmt_lookup v n = None then vmt_len v + 1 else vmt_len v)"
    using fin by (auto simp: vmt_len_def vmt_lookup_def pages insert_absorb domIff card_insert_if)
  have size: "pg_size_bytes p = (prod_list shape * es) mod W64"
    by (simp add: p_def fresh_page_def page_new_def umul_def uproduct_mod mod_simps)
  have "vmt_inv v'" using vmt_allocate_inv [OF inv, of name shape es] run by simp
  moreover have "vmt_lookup v n = None \<longrightarrow> vt_pages (snd (vmt_remove n v')) = vt_pages v"
    by (auto simp: vmt_remove_def pages vmt_lookup_def)
  ultimately show ?thesis
    using r len size
    by (intro exI [of _ n] exI [of _ p])
       (simp add: n_def [symmetric] vmt_lookup_def vmt_remove_def pages,
        simp add: p_def fresh_page_def page_new_def n_def)
qed

theorem vmt_allocate_correct_witness:
  "vmt_len (snd (vmt_allocate ''w'' [3, 5] 4 (vmt_new 2 1))) = 1"
proof -
  define v where "v = snd (vmt_allocate ''w'' [3, 5] 4 (vmt_new 2 1))"
  have run: "vmt_allocate ''w'' [3, 5] 4 (vmt_new 2 1) = (Ok ''w'', v)"
    by (simp add: v_def vmt_allocate_run Let_def)
  have "vmt_len (vmt_new 2 1) = 0" by (simp add: vmt_len_def vmt_new_def)
  with vmt_allocate_correct [OF vmt_inv_new run] have "vmt_len v = 1" by auto
  then show ?thesis by (simp add: v_def)
qed

text \<open>A client that allocates and removes; \<open>auto_names\<close> collects the generated names.\<close>

datatype vmt_op = VAlloc string "usize list" usize | VRemove string

fun auto_names :: "vmt_op list \<Rightarrow> vmt \<Rightarrow> string list" where
  "auto_names [] v = []"
| "auto_names (VAlloc name shape es # ops) v =
     (case vmt_allocate name shape es v of
        (Ok n, v') \<Rightarrow> (if name = [] then n # auto_names ops v' else auto_names ops v')
      | (_, v') \<Rightarrow> auto_names ops v')"
| "auto_names (VRemove name # ops) v = auto_names ops (snd (vmt_remove name v))"

lemma auto_name_inj: "auto_name m = auto_name n \<longleftrightarrow> m = n"
  using decimal_inj by (auto simp: auto_name_def)

lemma auto_names_range:
  assumes "vt_next_id v + length ops < W64"
  shows "auto_names ops v = map auto_name [vt_next_id v + 1 ..< vt_next_id v + 1 + length (auto_names ops v)]
    \<and> length (auto_names ops v) \<le> length ops"
  using assms
proof (induction ops v rule: auto_names.induct)
  case (1 v)
  show ?case by simp
next
  case (2 name shape es ops v)
  show ?case
  proof (cases "name = []")
    case True
    define v' where "v' = snd (vmt_allocate name shape es v)"
    have run: "vmt_allocate name shape es v = (Ok (auto_name (vt_next_id v + 1)), v')"
      and next_id: "vt_next_id v' = vt_next_id v + 1"
      using "2.prems" True by (simp_all add: vmt_allocate_run Let_def v'_def uadd_exact)
    let ?k = "length (auto_names ops v')"
    have IH: "auto_names ops v' = map auto_name [vt_next_id v + 2 ..< vt_next_id v + 2 + ?k] \<and> ?k \<le> length ops"
      using 2(1) [OF run [symmetric] refl True] "2.prems" by (simp add: next_id)
    have up: "[vt_next_id v + 1 ..< vt_next_id v + 1 + Suc ?k]
        = (vt_next_id v + 1) # [vt_next_id v + 2 ..< vt_next_id v + 2 + ?k]"
      by (subst upt_conv_Cons) (simp_all del: upt_Suc)
    have cons: "auto_names (VAlloc name shape es # ops) v
        = auto_name (vt_next_id v + 1) # auto_names ops v'"
      using True run by simp
    have "auto_name (vt_next_id v + 1) # auto_names ops v'
        = map auto_name [vt_next_id v + 1 ..< vt_next_id v + 1 + Suc ?k]"
      unfolding up using IH by (metis list.simps(9))
    then show ?thesis
      using IH unfolding cons list.size by simp
  next
    case False
    define v' where "v' = snd (vmt_allocate name shape es v)"
    have run: "vmt_allocate name shape es v = (Ok name, v')" and "vt_next_id v' = vt_next_id v"
      using False by (simp_all add: vmt_allocate_run Let_def v'_def)
    with 2(2) [OF run [symmetric] refl False] "2.prems" False show ?thesis by (simp add: run)
  qed
next
  case (3 name ops v)
  then show ?case by (simp add: vmt_remove_def)
qed

text \<open>
  Generated names. Over any history of fewer than \<open>2 ^ 64\<close> operations on a fresh table
  the names of anonymous allocations are \<open>vugva_alloc_1\<close>, \<open>vugva_alloc_2\<close>, ... in this order, so no
  two are equal, also when pages are removed in between.
\<close>

theorem vmt_auto_names_distinct:
  assumes "length ops < W64"
  shows "auto_names ops (vmt_new g n)
      = map auto_name [1 ..< 1 + length (auto_names ops (vmt_new g n))]
    \<and> distinct (auto_names ops (vmt_new g n))"
proof -
  have names: "auto_names ops (vmt_new g n)
      = map auto_name [1 ..< 1 + length (auto_names ops (vmt_new g n))]"
    using auto_names_range [of "vmt_new g n" ops] assms by (simp add: vmt_new_def)
  have "distinct (map auto_name [1 ..< k])" for k
    by (simp add: distinct_map inj_on_def auto_name_inj)
  with names show ?thesis by metis
qed

theorem vmt_auto_names_distinct_witness:
  "distinct (auto_names [VAlloc [] [2] 4, VAlloc ''w'' [2] 4, VRemove ''vugva_alloc_1'', VAlloc [] [3] 4] (vmt_new 1 1))"
  using vmt_auto_names_distinct [of "[VAlloc [] [2] 4, VAlloc ''w'' [2] 4,
      VRemove ''vugva_alloc_1'', VAlloc [] [3] 4]" 1 1]
  by (simp add: W64_def)

end
