(* ===== verification/Dma.thy ===== *)
theory Dma
  imports Errors "HOL-Library.Word"
begin

unbundle bit_operations_syntax

text \<open>
  \<open>src/dma.rs\<close>: descriptors, the per-GPU command ring and the engine that routes submissions. The
  ring's three counters are 32-bit words, as in the code. The sequential operations implement a
  bounded FIFO queue, whose contract is the locale \<open>fifo\<close>; the last section splits \<open>submit\<close> and
  \<open>peek\<close>/\<open>ack\<close> at their atomic accesses and lets one producer and one consumer interleave.
\<close>

section \<open>The model\<close>

text \<open>The padding bytes of a descriptor are always zero and have no field here.\<close>

record dma_descriptor =
  dd_src_addr :: "64 word"
  dd_dst_addr :: "64 word"
  dd_size :: "32 word"
  dd_src_ordinal :: "32 word"
  dd_dst_ordinal :: "32 word"
  dd_priority :: "32 word"
  dd_flags :: "32 word"

definition DMA_FLAG_WRITEBACK :: "32 word" where
  "DMA_FLAG_WRITEBACK = push_bit 0 1"

record dma_completion =
  dm_submitted :: "32 word"
  dm_completed :: "32 word"

definition completion_new :: dma_completion where
  "completion_new = \<lparr>dm_submitted = 0, dm_completed = 0\<rparr>"

definition is_done :: "dma_completion \<Rightarrow> bool" where
  "is_done c \<longleftrightarrow> dm_submitted c = dm_completed c"

definition u32_saturating_sub :: "32 word \<Rightarrow> 32 word \<Rightarrow> 32 word" where
  "u32_saturating_sub a b = (if b \<le> a then a - b else 0)"

definition completion_pending :: "dma_completion \<Rightarrow> 32 word" where
  "completion_pending c = u32_saturating_sub (dm_submitted c) (dm_completed c)"

record dma_ring =
  rg_ring :: "dma_descriptor list"
  rg_consumer :: "32 word"
  rg_completion :: dma_completion
  rg_capacity :: "32 word"
  rg_mask :: "32 word"

definition zero_descriptor :: dma_descriptor where
  "zero_descriptor = \<lparr>dd_src_addr = 0, dd_dst_addr = 0, dd_size = 0, dd_src_ordinal = 0,
     dd_dst_ordinal = 0, dd_priority = 0, dd_flags = 0\<rparr>"

definition ring_new :: dma_ring where
  "ring_new = (let capacity = 1024 in
     \<lparr>rg_ring = replicate (unat capacity) zero_descriptor, rg_consumer = 0,
      rg_completion = completion_new, rg_capacity = capacity, rg_mask = capacity - 1\<rparr>)"

definition pending_count :: "dma_ring \<Rightarrow> 32 word" where
  "pending_count r = u32_saturating_sub (dm_submitted (rg_completion r)) (rg_consumer r)"

definition ring_is_full :: "dma_ring \<Rightarrow> bool" where
  "ring_is_full r \<longleftrightarrow> rg_capacity r \<le> pending_count r"

text \<open>The raw write of a descriptor into its slot, and the release store of the producer index.\<close>

definition ring_write :: "32 word \<Rightarrow> dma_descriptor \<Rightarrow> dma_ring \<Rightarrow> dma_ring" where
  "ring_write slot desc r = r\<lparr>rg_ring := (rg_ring r)[unat slot := desc]\<rparr>"

definition store_submitted :: "32 word \<Rightarrow> dma_ring \<Rightarrow> dma_ring" where
  "store_submitted n r = r\<lparr>rg_completion := (rg_completion r)\<lparr>dm_submitted := n\<rparr>\<rparr>"

definition ring_submit :: "dma_descriptor \<Rightarrow> (dma_ring, 32 word) op" where
  "ring_submit desc r =
     (if ring_is_full r then (Err DmaRingFull, r)
      else
       (let producer = dm_submitted (rg_completion r); slot = producer AND rg_mask r
        in (Ok slot, store_submitted (producer + 1) (ring_write slot desc r))))"

definition mark_complete :: "dma_ring \<Rightarrow> dma_ring" where
  "mark_complete r =
     r\<lparr>rg_completion := (rg_completion r)\<lparr>dm_completed := dm_completed (rg_completion r) + 1\<rparr>\<rparr>"

definition ring_peek :: "dma_ring \<Rightarrow> dma_descriptor option" where
  "ring_peek r =
     (let consumer = rg_consumer r; producer = dm_submitted (rg_completion r) in
      if producer \<le> consumer then None
      else (let slot = unat (consumer AND rg_mask r) in Some (rg_ring r ! slot)))"

definition ring_ack :: "dma_ring \<Rightarrow> dma_ring" where
  "ring_ack r = mark_complete (r\<lparr>rg_consumer := rg_consumer r + 1\<rparr>)"

section \<open>The engine\<close>

record dma_engine =
  de_rings :: "dma_ring list"
  de_num_gpus :: usize

definition dma_new :: "usize \<Rightarrow> dma_engine" where
  "dma_new num_gpus = \<lparr>de_rings = map (\<lambda>_. ring_new) [0 ..< num_gpus], de_num_gpus = num_gpus\<rparr>"

text \<open>\<open>self.rings[g].submit(&desc)\<close>; the index panics past the end of the vector.\<close>

definition ring_at :: "nat \<Rightarrow> (dma_ring, 'a) op \<Rightarrow> (dma_engine, 'a) op" where
  "ring_at g m e =
     (if g < length (de_rings e)
      then (case m (de_rings e ! g) of (r, ring) \<Rightarrow> (r, e\<lparr>de_rings := (de_rings e)[g := ring]\<rparr>))
      else (Panic, e))"

definition submit_dram_to_vram ::
  "nat \<Rightarrow> 64 word \<Rightarrow> 64 word \<Rightarrow> usize \<Rightarrow> 32 word \<Rightarrow> (dma_engine, 32 word) op" where
  "submit_dram_to_vram dst_gpu src_addr dst_addr size_bytes priority e =
     (if de_num_gpus e \<le> dst_gpu then (Err (InvalidGpu dst_gpu), e)
      else ring_at dst_gpu (ring_submit
        \<lparr>dd_src_addr = src_addr, dd_dst_addr = dst_addr, dd_size = word_of_nat size_bytes,
         dd_src_ordinal = word_of_nat dst_gpu, dd_dst_ordinal = word_of_nat dst_gpu,
         dd_priority = priority, dd_flags = 0\<rparr>) e)"

definition submit_vram_to_dram ::
  "nat \<Rightarrow> 64 word \<Rightarrow> 64 word \<Rightarrow> usize \<Rightarrow> 32 word \<Rightarrow> (dma_engine, 32 word) op" where
  "submit_vram_to_dram src_gpu src_addr dst_addr size_bytes priority e =
     (if de_num_gpus e \<le> src_gpu then (Err (InvalidGpu src_gpu), e)
      else ring_at src_gpu (ring_submit
        \<lparr>dd_src_addr = src_addr, dd_dst_addr = dst_addr, dd_size = word_of_nat size_bytes,
         dd_src_ordinal = word_of_nat src_gpu, dd_dst_ordinal = word_of_nat src_gpu,
         dd_priority = priority, dd_flags = DMA_FLAG_WRITEBACK\<rparr>) e)"

definition submit_vram_to_vram ::
  "nat \<Rightarrow> nat \<Rightarrow> 64 word \<Rightarrow> 64 word \<Rightarrow> usize \<Rightarrow> 32 word \<Rightarrow> (dma_engine, 32 word) op" where
  "submit_vram_to_vram src_gpu dst_gpu src_addr dst_addr size_bytes priority e =
     (if de_num_gpus e \<le> src_gpu \<or> de_num_gpus e \<le> dst_gpu
      then (Err (InvalidGpu (max src_gpu dst_gpu)), e)
      else ring_at dst_gpu (ring_submit
        \<lparr>dd_src_addr = src_addr, dd_dst_addr = dst_addr, dd_size = word_of_nat size_bytes,
         dd_src_ordinal = word_of_nat src_gpu, dd_dst_ordinal = word_of_nat dst_gpu,
         dd_priority = priority, dd_flags = 0\<rparr>) e)"

definition dma_is_idle :: "dma_engine \<Rightarrow> nat \<Rightarrow> bool outcome" where
  "dma_is_idle e g =
     (if de_num_gpus e \<le> g then Ok True
      else case vec_get (de_rings e) g of
        None \<Rightarrow> Panic
      | Some r \<Rightarrow> Ok (is_done (rg_completion r)))"

definition dma_pending :: "dma_engine \<Rightarrow> nat \<Rightarrow> 32 word outcome" where
  "dma_pending e g =
     (if de_num_gpus e \<le> g then Ok 0
      else case vec_get (de_rings e) g of
        None \<Rightarrow> Panic
      | Some r \<Rightarrow> Ok (completion_pending (rg_completion r)))"

definition dma_total_pending :: "dma_engine \<Rightarrow> 32 word" where
  "dma_total_pending e = sum_list (map (\<lambda>r. completion_pending (rg_completion r)) (de_rings e))"

section \<open>The contract of a bounded queue\<close>

text \<open>
  A producer and a consumer rely on this of a queue: what is accepted comes out in order, and
  nothing is refused while fewer than \<open>bound\<close> elements are queued. \<open>budget\<close> is the number of
  further insertions the contract is good for: the ring's counters are finite.
\<close>

datatype 'x queue_op = QPut 'x | QTake

text \<open>A run keeps, beside the state, what was accepted and what was taken out.\<close>

fun queue_step ::
  "('x \<Rightarrow> 's \<Rightarrow> 'r outcome \<times> 's) \<Rightarrow> ('s \<Rightarrow> 'x option) \<Rightarrow> ('s \<Rightarrow> 's) \<Rightarrow>
   's \<times> 'x list \<times> 'x list \<Rightarrow> 'x queue_op \<Rightarrow> 's \<times> 'x list \<times> 'x list" where
  "queue_step put front pop (s, ins, outs) (QPut x) =
     (case put x s of (Ok r, t) \<Rightarrow> (t, ins @ [x], outs) | (_, t) \<Rightarrow> (t, ins, outs))"
| "queue_step put front pop (s, ins, outs) QTake =
     (case front s of None \<Rightarrow> (s, ins, outs) | Some x \<Rightarrow> (pop s, ins, outs @ [x]))"

locale fifo =
  fixes put :: "'x \<Rightarrow> 's \<Rightarrow> 'r outcome \<times> 's"
    and front :: "'s \<Rightarrow> 'x option"
    and pop :: "'s \<Rightarrow> 's"
    and contents :: "'s \<Rightarrow> 'x list"
    and inv :: "'s \<Rightarrow> bool"
    and bound :: nat
    and budget :: "'s \<Rightarrow> nat"
  assumes put_room: "inv s \<Longrightarrow> 0 < budget s \<Longrightarrow> length (contents s) < bound \<Longrightarrow>
      \<exists>r t. put x s = (Ok r, t) \<and> inv t \<and> contents t = contents s @ [x] \<and> Suc (budget t) = budget s"
    and put_full: "inv s \<Longrightarrow> length (contents s) = bound \<Longrightarrow> \<exists>e. put x s = (Err e, s)"
    and contents_bound: "inv s \<Longrightarrow> length (contents s) \<le> bound"
    and front_nil: "inv s \<Longrightarrow> contents s = [] \<Longrightarrow> front s = None"
    and front_cons: "inv s \<Longrightarrow> contents s = x # xs \<Longrightarrow>
      front s = Some x \<and> inv (pop s) \<and> contents (pop s) = xs \<and> budget (pop s) = budget s"
begin

definition queue_ok :: "nat \<Rightarrow> 's \<times> 'x list \<times> 'x list \<Rightarrow> bool" where
  "queue_ok b c = (case c of (s, ins, outs) \<Rightarrow>
     inv s \<and> ins = outs @ contents s \<and> b \<le> budget s)"

lemma queue_step_ok:
  assumes "queue_ok (Suc b) c"
  shows "queue_ok b (queue_step put front pop c x)"
proof -
  obtain s ins outs where c: "c = (s, ins, outs)" by (cases c)
  with assms have inv: "inv s" and ins: "ins = outs @ contents s" and b: "Suc b \<le> budget s"
    by (simp_all add: queue_ok_def)
  show ?thesis
  proof (cases x)
    case (QPut y)
    show ?thesis
    proof (cases "length (contents s) < bound")
      case True
      with put_room [OF inv, of y] b obtain r t where "put y s = (Ok r, t)" "inv t"
        "contents t = contents s @ [y]" "Suc (budget t) = budget s" by auto
      with ins b show ?thesis by (simp add: c QPut queue_ok_def)
    next
      case False
      with contents_bound [OF inv] put_full [OF inv, of y] obtain e where "put y s = (Err e, s)"
        by auto
      with inv ins b show ?thesis by (simp add: c QPut queue_ok_def)
    qed
  next
    case QTake
    show ?thesis
    proof (cases "contents s")
      case Nil
      with front_nil [OF inv] inv ins b show ?thesis by (simp add: c QTake queue_ok_def)
    next
      case (Cons y ys)
      with front_cons [OF inv Cons] ins b show ?thesis by (simp add: c QTake queue_ok_def)
    qed
  qed
qed

lemma queue_run_ok:
  assumes "queue_ok (length ops) c"
  shows "queue_ok 0 (foldl (queue_step put front pop) c ops)"
  using assms
proof (induction ops arbitrary: c)
  case Nil
  then show ?case by simp
next
  case (Cons x ops)
  then show ?case using queue_step_ok [of "length ops" c x] by simp
qed

end

section \<open>The ring is a bounded queue\<close>

lemma mask_1023: "unat (w AND 1023 :: 32 word) = unat w mod 1024"
proof -
  have "(1023 :: 32 word) = mask 10" by (simp add: mask_eq_exp_minus_1)
  then have "w AND 1023 = take_bit 10 w" by (simp only: take_bit_eq_mask)
  then have "unat (w AND 1023) = take_bit 10 (unat w)" by (simp only: unsigned_take_bit_eq)
  then show ?thesis by (simp add: take_bit_eq_mod)
qed

definition ring_shape :: "dma_ring \<Rightarrow> bool" where
  "ring_shape r \<longleftrightarrow> length (rg_ring r) = 1024 \<and> rg_capacity r = 1024 \<and> rg_mask r = 1023"

text \<open>The two indices as natural numbers.\<close>

definition ring_head :: "dma_ring \<Rightarrow> nat" where
  "ring_head r = unat (rg_consumer r)"

definition ring_tail :: "dma_ring \<Rightarrow> nat" where
  "ring_tail r = unat (dm_submitted (rg_completion r))"

definition ring_inv :: "dma_ring \<Rightarrow> bool" where
  "ring_inv r \<longleftrightarrow> ring_shape r \<and> ring_head r \<le> ring_tail r \<and> ring_tail r \<le> ring_head r + 1024
     \<and> dm_completed (rg_completion r) = rg_consumer r"

definition ring_contents :: "dma_ring \<Rightarrow> dma_descriptor list" where
  "ring_contents r = map (\<lambda>i. rg_ring r ! (i mod 1024)) [ring_head r ..< ring_tail r]"

definition ring_budget :: "dma_ring \<Rightarrow> nat" where
  "ring_budget r = 2 ^ 32 - 1 - ring_tail r"

lemma ring_new_inv: "ring_inv ring_new" and ring_new_contents: "ring_contents ring_new = []"
  and ring_new_budget: "ring_budget ring_new = 2 ^ 32 - 1"
  by (simp_all add: ring_new_def Let_def ring_inv_def ring_shape_def ring_head_def ring_tail_def
      completion_new_def ring_contents_def ring_budget_def)

lemma ring_tail_lt: "ring_tail r < 2 ^ 32"
  unfolding ring_tail_def using unsigned_less [of "dm_submitted (rg_completion r)"] by simp

lemma unat_plus1: "unat (w :: 32 word) < 2 ^ 32 - 1 \<Longrightarrow> unat (w + 1) = unat w + 1"
  by (simp add: unat_word_ariths)

lemma unat_u32_saturating_sub: "unat (u32_saturating_sub a b) = unat a - unat b"
  by (auto simp: u32_saturating_sub_def unat_sub word_le_nat_alt)

lemma ring_pending: "unat (pending_count r) = ring_tail r - ring_head r"
  by (simp add: pending_count_def unat_u32_saturating_sub ring_tail_def ring_head_def)

lemma ring_full_iff: "ring_shape r \<Longrightarrow> ring_is_full r \<longleftrightarrow> 1024 \<le> ring_tail r - ring_head r"
  by (simp add: ring_is_full_def word_le_nat_alt ring_pending ring_shape_def)

lemma ring_contents_length: "length (ring_contents r) = ring_tail r - ring_head r"
  by (simp add: ring_contents_def)

text \<open>Writing one slot leaves every other slot of the window as it is.\<close>

lemma window_write:
  assumes "length xs = 1024" and "tail < head + 1024"
  shows "map (\<lambda>i. xs[tail mod 1024 := d] ! (i mod 1024)) [head ..< tail]
    = map (\<lambda>i. xs ! (i mod 1024)) [head ..< tail]"
proof (rule map_cong [OF refl])
  fix i assume "i \<in> set [head ..< tail]"
  then have i: "head \<le> i" "i < tail" by simp_all
  have "i mod 1024 \<noteq> tail mod 1024"
  proof
    assume "i mod 1024 = tail mod 1024"
    then have "1024 dvd tail - i" using i(2) by (metis less_imp_le mod_eq_dvd_iff_nat)
    with i assms(2) show False by (auto dest: dvd_imp_le)
  qed
  then show "xs[tail mod 1024 := d] ! (i mod 1024) = xs ! (i mod 1024)" by simp
qed

lemma ring_submit_room:
  assumes inv: "ring_inv r" and "0 < ring_budget r" and "ring_tail r < ring_head r + 1024"
  shows "\<exists>t. ring_submit d r = (Ok (dm_submitted (rg_completion r) AND 1023), t) \<and> ring_inv t
    \<and> ring_contents t = ring_contents r @ [d] \<and> ring_tail t = ring_tail r + 1
    \<and> rg_consumer t = rg_consumer r"
proof -
  define p where "p = dm_submitted (rg_completion r)"
  define t where "t = store_submitted (p + 1) (ring_write (p AND rg_mask r) d r)"
  have shape: "ring_shape r" and le: "ring_head r \<le> ring_tail r"
    using inv by (simp_all add: ring_inv_def)
  have "\<not> ring_is_full r" using ring_full_iff [OF shape] assms(3) le by simp
  then have run: "ring_submit d r = (Ok (p AND 1023), t)"
    using shape by (simp add: ring_submit_def Let_def t_def p_def ring_shape_def)
  have tail: "ring_tail t = ring_tail r + 1"
    using assms(2) by (simp add: t_def store_submitted_def ring_tail_def p_def ring_budget_def unat_plus1)
  have slot: "unat (p AND rg_mask r) = ring_tail r mod 1024"
    using shape by (simp add: ring_shape_def mask_1023 p_def ring_tail_def)
  have ring: "rg_ring t = (rg_ring r)[ring_tail r mod 1024 := d]" and head: "ring_head t = ring_head r"
    by (simp_all add: t_def store_submitted_def ring_write_def ring_head_def slot)
  have len: "length (rg_ring r) = 1024" using shape by (simp add: ring_shape_def)
  have "ring_contents t = ring_contents r @ [d]"
    using window_write [OF len assms(3), of d] le len
    by (simp add: ring_contents_def ring head tail)
  moreover have "ring_inv t"
    using inv assms(3) tail head
    by (simp add: ring_inv_def ring_shape_def) (simp add: t_def store_submitted_def ring_write_def)
  ultimately show ?thesis
    using run tail by (auto simp: p_def t_def store_submitted_def ring_write_def)
qed

lemma ring_ack_cons:
  assumes inv: "ring_inv r" and "ring_head r < ring_tail r"
  shows "ring_peek r = Some (rg_ring r ! (ring_head r mod 1024))"
    and "ring_inv (ring_ack r)" and "ring_head (ring_ack r) = ring_head r + 1"
    and "ring_tail (ring_ack r) = ring_tail r" and "rg_ring (ring_ack r) = rg_ring r"
proof -
  have shape: "ring_shape r" using inv by (simp add: ring_inv_def)
  show "ring_peek r = Some (rg_ring r ! (ring_head r mod 1024))"
    using assms(2) shape
    by (simp add: ring_peek_def Let_def word_le_nat_alt ring_head_def ring_tail_def ring_shape_def mask_1023)
  have "ring_head r < 2 ^ 32 - 1" using assms(2) ring_tail_lt [of r] by simp
  then show head: "ring_head (ring_ack r) = ring_head r + 1"
    by (simp add: ring_ack_def mark_complete_def ring_head_def unat_plus1)
  show tail: "ring_tail (ring_ack r) = ring_tail r" and "rg_ring (ring_ack r) = rg_ring r"
    by (simp_all add: ring_ack_def mark_complete_def ring_tail_def)
  show "ring_inv (ring_ack r)"
    using inv assms(2) unfolding ring_inv_def head tail
    by (simp add: ring_shape_def ring_ack_def mark_complete_def)
qed

interpretation ring: fifo ring_submit ring_peek ring_ack ring_contents ring_inv 1024 ring_budget
proof (unfold_locales, goal_cases)
  case (1 r d)
  then have "ring_tail r < ring_head r + 1024"
    by (simp add: ring_contents_length ring_inv_def)
  with ring_submit_room [OF 1(1,2) this, of d] 1(2) show ?case
    by (auto simp: ring_budget_def)
next
  case (2 r d)
  then have "ring_is_full r"
    using ring_full_iff [of r] by (simp add: ring_contents_length ring_inv_def)
  then show ?case by (simp add: ring_submit_def)
next
  case (3 r)
  then show ?case by (auto simp: ring_contents_length ring_inv_def)
next
  case (4 r)
  then have "ring_tail r \<le> ring_head r" by (auto simp: ring_contents_def)
  then show ?case by (simp add: ring_peek_def Let_def word_le_nat_alt ring_head_def ring_tail_def)
next
  case (5 r d ds)
  then have lt: "ring_head r < ring_tail r"
    by (cases "ring_head r < ring_tail r") (simp_all add: ring_contents_def)
  note a = ring_ack_cons [OF 5(1) lt]
  have "d = rg_ring r ! (ring_head r mod 1024)" and "ring_contents (ring_ack r) = ds"
    using 5(2) lt by (simp_all add: ring_contents_def upt_conv_Cons a)
  with a show ?case by (simp add: ring_budget_def)
qed

section \<open>Properties of the ring\<close>

lemma ring_completion_pending:
  "ring_inv r \<Longrightarrow> unat (completion_pending (rg_completion r)) = length (ring_contents r)"
  by (simp add: completion_pending_def unat_u32_saturating_sub ring_inv_def ring_contents_length
      ring_tail_def ring_head_def)

text \<open>
  Property C20. FIFO. Over every history of fewer than \<open>2 ^ 32\<close> submissions and consumptions of a
  new ring, the accepted descriptors are exactly those consumed, in the same order, followed by the
  ones still in the ring: none is lost, duplicated or reordered. At most 1024 are pending, the ring
  reports full exactly at 1024 and idle exactly when everything accepted has been consumed.
\<close>

theorem ring_history_fifo:
  assumes "length ops < 2 ^ 32"
    and run: "foldl (queue_step ring_submit ring_peek ring_ack) (ring_new, [], []) ops = (r, ins, outs)"
  shows "ins = outs @ ring_contents r
    \<and> length outs + 1024 \<ge> length ins
    \<and> unat (pending_count r) = length ins - length outs
    \<and> unat (completion_pending (rg_completion r)) = length ins - length outs
    \<and> (ring_is_full r = (length ins = length outs + 1024))
    \<and> (is_done (rg_completion r) = (outs = ins))"
proof -
  have "ring.queue_ok (length ops) (ring_new, [], [])"
    using assms(1) by (simp add: ring.queue_ok_def ring_new_inv ring_new_contents ring_new_budget)
  from ring.queue_run_ok [OF this] run have inv: "ring_inv r" and ins: "ins = outs @ ring_contents r"
    by (simp_all add: ring.queue_ok_def)
  have shape: "ring_shape r" using inv by (simp add: ring_inv_def)
  have le: "ring_tail r \<le> ring_head r + 1024" "ring_head r \<le> ring_tail r"
    using inv by (simp_all add: ring_inv_def)
  have "is_done (rg_completion r) \<longleftrightarrow> ring_head r = ring_tail r"
    using inv by (auto simp: is_done_def ring_inv_def ring_head_def ring_tail_def word_unat_eq_iff)
  also have "\<dots> \<longleftrightarrow> outs = ins"
    using le(2) ins ring_contents_length [of r] by auto
  finally show ?thesis
    using ins le ring_contents_length [of r] ring_pending [of r] ring_completion_pending [OF inv]
      ring_full_iff [OF shape] by auto
qed

definition sample_desc :: "64 word \<Rightarrow> dma_descriptor" where
  "sample_desc a = zero_descriptor\<lparr>dd_src_addr := a, dd_size := 4096\<rparr>"

theorem ring_history_fifo_witness:
  "\<exists>r. foldl (queue_step ring_submit ring_peek ring_ack) (ring_new, [], [])
        [QPut (sample_desc 1), QTake, QTake, QPut (sample_desc 2)] = (r, [sample_desc 1, sample_desc 2], [sample_desc 1])
     \<and> ring_contents r = [sample_desc 2] \<and> unat (pending_count r) = 1"
proof -
  let ?run = "foldl (queue_step ring_submit ring_peek ring_ack) (ring_new, [], [])
        [QPut (sample_desc 1), QTake, QTake, QPut (sample_desc 2)]"
  have "fst (snd ?run) = [sample_desc 1, sample_desc 2] \<and> snd (snd ?run) = [sample_desc 1]"
    by (simp add: ring_new_def ring_submit_def ring_peek_def ring_ack_def mark_complete_def
        ring_is_full_def pending_count_def u32_saturating_sub_def completion_new_def
        store_submitted_def ring_write_def Let_def)
  then obtain r where run: "?run = (r, [sample_desc 1, sample_desc 2], [sample_desc 1])"
    by (metis prod.collapse)
  from ring_history_fifo [OF _ run] run show ?thesis by auto
qed

text \<open>
  \<open>submit\<close> on a ring in a consistent state: when fewer than 1024 descriptors are
  pending it takes the next slot, appends the descriptor and leaves the consumer index alone; when
  1024 are pending it returns \<open>DmaRingFull\<close> and writes nothing, so no pending descriptor is ever
  overwritten.
\<close>

theorem ring_submit_correct:
  assumes "ring_inv r" and "unat (dm_submitted (rg_completion r)) < 2 ^ 32 - 1"
  shows "if length (ring_contents r) < 1024
    then \<exists>slot t. ring_submit d r = (Ok slot, t) \<and> ring_inv t
      \<and> unat slot = unat (dm_submitted (rg_completion r)) mod 1024
      \<and> ring_contents t = ring_contents r @ [d] \<and> rg_consumer t = rg_consumer r
    else ring_submit d r = (Err DmaRingFull, r)"
proof (cases "length (ring_contents r) < 1024")
  case True
  then have "ring_tail r < ring_head r + 1024" and "0 < ring_budget r"
    using assms by (auto simp: ring_contents_length ring_inv_def ring_budget_def ring_tail_def)
  with ring_submit_room [OF assms(1)] True show ?thesis
    by (fastforce simp: mask_1023)
next
  case False
  then have "ring_is_full r"
    using ring_full_iff [of r] assms(1) by (simp add: ring_contents_length ring_inv_def)
  with False show ?thesis by (simp add: ring_submit_def)
qed

theorem ring_submit_correct_witness:
  "\<exists>slot t. ring_submit (sample_desc 7) ring_new = (Ok slot, t) \<and> ring_contents t = [sample_desc 7]"
  using ring_submit_correct [OF ring_new_inv, of "sample_desc 7"] ring_new_contents
  by (auto simp: ring_new_def Let_def completion_new_def)

text \<open>
  Property C40. The counters wrap. When the submitted counter stands at \<open>2 ^ 32 - 1\<close> the next
  submission is accepted and moves it to 0, below the consumer index: the ring then reports that
  nothing is pending, whatever it held, and the descriptors in it are never seen by the consumer.
\<close>

theorem ring_counter_wrap_loses:
  assumes inv: "ring_inv r" and "unat (dm_submitted (rg_completion r)) = 2 ^ 32 - 1"
    and "length (ring_contents r) < 1024"
  shows "\<exists>slot t. ring_submit d r = (Ok slot, t) \<and> pending_count t = 0
    \<and> completion_pending (rg_completion t) = 0 \<and> ring_peek t = None \<and> \<not> is_done (rg_completion t)"
proof -
  let ?p = "dm_submitted (rg_completion r)"
  define t where "t = store_submitted 0 (ring_write (?p AND rg_mask r) d r)"
  have wrap: "?p + 1 = 0" using assms(2) by (simp add: word_unat_eq_iff unat_word_ariths)
  have "\<not> ring_is_full r"
    using assms(3) ring_full_iff [of r] inv by (simp add: ring_inv_def ring_contents_length)
  then have run: "ring_submit d r = (Ok (?p AND rg_mask r), t)"
    by (simp add: ring_submit_def Let_def wrap t_def)
  have sub: "dm_submitted (rg_completion t) = 0" and cons: "rg_consumer t = rg_consumer r"
    and comp: "dm_completed (rg_completion t) = rg_consumer r"
    using inv by (simp_all add: t_def store_submitted_def ring_write_def ring_inv_def)
  have "ring_tail r = 2 ^ 32 - 1"
    by (simp add: ring_tail_def assms(2))
  moreover have "ring_tail r < ring_head r + 1024"
    using assms(3) inv by (auto simp: ring_contents_length ring_inv_def)
  ultimately have "ring_head r \<noteq> 0" by simp
  then have "rg_consumer r \<noteq> 0" by (auto simp: ring_head_def)
  with sub cons comp run show ?thesis
    by (auto simp: pending_count_def completion_pending_def u32_saturating_sub_def ring_peek_def
        Let_def is_done_def)
qed

definition worn_ring :: dma_ring where
  "worn_ring = ring_new\<lparr>rg_consumer := 4294967294,
     rg_completion := \<lparr>dm_submitted = 4294967295, dm_completed = 4294967294\<rparr>\<rparr>"

theorem ring_counter_wrap_loses_witness:
  "length (ring_contents worn_ring) = 1
    \<and> (\<exists>slot t. ring_submit (sample_desc 7) worn_ring = (Ok slot, t) \<and> ring_peek t = None)"
proof -
  have inv: "ring_inv worn_ring"
    by (simp add: worn_ring_def ring_new_def Let_def ring_inv_def ring_shape_def ring_head_def ring_tail_def)
  have len: "length (ring_contents worn_ring) = 1"
    by (simp add: worn_ring_def ring_contents_length ring_head_def ring_tail_def)
  have "unat (dm_submitted (rg_completion worn_ring)) = 2 ^ 32 - 1" by (simp add: worn_ring_def)
  from ring_counter_wrap_loses [OF inv this, of "sample_desc 7"] len show ?thesis by auto
qed

text \<open>
  \<open>ack\<close> does not check that there is something to acknowledge. On an empty ring it
  moves the consumer past the producer, and the next accepted descriptor is then invisible: the
  consumer sees an empty ring and the pending count is zero.
\<close>

theorem ring_ack_empty_loses:
  assumes inv: "ring_inv r" and empty: "ring_contents r = []"
    and "unat (dm_submitted (rg_completion r)) < 2 ^ 32 - 1"
  shows "\<exists>slot t. ring_submit d (ring_ack r) = (Ok slot, t) \<and> ring_peek t = None
    \<and> pending_count t = 0 \<and> is_done (rg_completion t)"
proof -
  let ?w = "rg_consumer r"
  have eq: "dm_submitted (rg_completion r) = ?w" and comp: "dm_completed (rg_completion r) = ?w"
    using inv empty by (auto simp: ring_contents_def ring_inv_def ring_tail_def ring_head_def
        intro: word_unat_eq_iff [THEN iffD2])
  have up: "unat (?w + 1) = unat ?w + 1" using assms(3) eq by (simp add: unat_plus1)
  then have "u32_saturating_sub ?w (?w + 1) = 0"
    by (simp add: word_unat_eq_iff unat_u32_saturating_sub)
  then have "\<not> ring_is_full (ring_ack r)"
    using inv by (simp add: ring_is_full_def pending_count_def ring_ack_def mark_complete_def eq
        ring_inv_def ring_shape_def)
  then show ?thesis
    by (simp add: ring_submit_def Let_def ring_ack_def mark_complete_def store_submitted_def
        ring_write_def ring_peek_def pending_count_def u32_saturating_sub_def is_done_def eq comp)
qed

theorem ring_ack_empty_loses_witness:
  "\<exists>slot t. ring_submit (sample_desc 7) (ring_ack ring_new) = (Ok slot, t) \<and> ring_peek t = None"
  using ring_ack_empty_loses [OF ring_new_inv ring_new_contents, of "sample_desc 7"]
  by (auto simp: ring_new_def Let_def completion_new_def)

section \<open>Routing\<close>

text \<open>The engine of \<open>DmaEngine::new\<close> has one ring per GPU, and no operation changes their number.\<close>

definition dma_inv :: "dma_engine \<Rightarrow> bool" where
  "dma_inv e \<longleftrightarrow> length (de_rings e) = de_num_gpus e \<and> (\<forall>r \<in> set (de_rings e). ring_inv r)"

lemma dma_new_inv: "dma_inv (dma_new n)"
  by (simp add: dma_inv_def dma_new_def ring_new_inv)

lemma ring_at_run:
  "g < length (de_rings e) \<Longrightarrow> ring_at g m e =
     (fst (m (de_rings e ! g)), e\<lparr>de_rings := (de_rings e)[g := snd (m (de_rings e ! g))]\<rparr>)"
  by (simp add: ring_at_def split: prod.split)

lemma dma_submit_at:
  assumes inv: "dma_inv e" and g: "g < de_num_gpus e"
    and room: "length (ring_contents (de_rings e ! g)) < 1024"
    and fresh: "unat (dm_submitted (rg_completion (de_rings e ! g))) < 2 ^ 32 - 1"
  shows "\<exists>slot e'. ring_at g (ring_submit d) e = (Ok slot, e') \<and> dma_inv e'
    \<and> de_num_gpus e' = de_num_gpus e
    \<and> ring_contents (de_rings e' ! g) = ring_contents (de_rings e ! g) @ [d]
    \<and> (\<forall>h. h \<noteq> g \<longrightarrow> de_rings e' ! h = de_rings e ! h)"
proof -
  let ?r = "de_rings e ! g"
  have len: "length (de_rings e) = de_num_gpus e" and all: "\<forall>r \<in> set (de_rings e). ring_inv r"
    using inv by (simp_all add: dma_inv_def)
  have r: "ring_inv ?r" using all g len by simp
  have "ring_tail ?r < ring_head ?r + 1024" and "0 < ring_budget ?r"
    using room fresh r by (auto simp: ring_contents_length ring_inv_def ring_budget_def ring_tail_def)
  with ring_submit_room [OF r] obtain slot t where t: "ring_submit d ?r = (Ok slot, t)" "ring_inv t"
    "ring_contents t = ring_contents ?r @ [d]" by blast
  have "\<forall>q \<in> set ((de_rings e)[g := t]). ring_inv q"
    using all t(2) set_update_subset_insert [of "de_rings e" g t] by blast
  with g len t show ?thesis
    by (simp add: ring_at_run dma_inv_def)
qed

text \<open>
  Routing. A submission to a GPU the engine does not have is refused with that
  ordinal (the larger one for a peer transfer) and changes nothing. Otherwise, while its ring has
  room, exactly the destination GPU's ring (the source GPU's for a writeback) gains one descriptor,
  with the given addresses, and \<open>DMA_FLAG_WRITEBACK\<close> marks exactly the writebacks. The size field
  has 32 bits: it is the transfer's size only below 4 GiB.
\<close>

theorem dma_routing:
  assumes inv: "dma_inv e"
    and room: "g < de_num_gpus e \<longrightarrow> length (ring_contents (de_rings e ! g)) < 1024
      \<and> unat (dm_submitted (rg_completion (de_rings e ! g))) < 2 ^ 32 - 1"
  shows "(de_num_gpus e \<le> g \<longrightarrow>
       submit_dram_to_vram g src dst n prio e = (Err (InvalidGpu g), e)
       \<and> submit_vram_to_dram g src dst n prio e = (Err (InvalidGpu g), e)
       \<and> submit_vram_to_vram h g src dst n prio e = (Err (InvalidGpu (max h g)), e))
   \<and> (g < de_num_gpus e \<longrightarrow>
       (\<forall>submit \<in> {submit_dram_to_vram g src dst n prio, submit_vram_to_dram g src dst n prio}
            \<union> (if h < de_num_gpus e then {submit_vram_to_vram h g src dst n prio} else {}).
          \<exists>slot e' d. submit e = (Ok slot, e') \<and> dma_inv e'
            \<and> ring_contents (de_rings e' ! g) = ring_contents (de_rings e ! g) @ [d]
            \<and> (\<forall>k. k \<noteq> g \<longrightarrow> de_rings e' ! k = de_rings e ! k)
            \<and> dd_src_addr d = src \<and> dd_dst_addr d = dst \<and> unat (dd_size d) = n mod 2 ^ 32)
       \<and> (\<exists>slot e' d. submit_vram_to_dram g src dst n prio e = (Ok slot, e')
            \<and> ring_contents (de_rings e' ! g) = ring_contents (de_rings e ! g) @ [d] \<and> dd_flags d = 1)
       \<and> (\<exists>slot e' d. submit_dram_to_vram g src dst n prio e = (Ok slot, e')
            \<and> ring_contents (de_rings e' ! g) = ring_contents (de_rings e ! g) @ [d] \<and> dd_flags d = 0))"
proof (cases "g < de_num_gpus e")
  case True
  note at = dma_submit_at [OF inv True conjunct1 [OF mp [OF room True]] conjunct2 [OF mp [OF room True]]]
  have size: "unat (word_of_nat n :: 32 word) = n mod 2 ^ 32"
    by (simp add: unat_of_nat)
  have d2v: "\<exists>slot e' d. submit_dram_to_vram g src dst n prio e = (Ok slot, e') \<and> dma_inv e'
      \<and> ring_contents (de_rings e' ! g) = ring_contents (de_rings e ! g) @ [d]
      \<and> (\<forall>k. k \<noteq> g \<longrightarrow> de_rings e' ! k = de_rings e ! k)
      \<and> dd_src_addr d = src \<and> dd_dst_addr d = dst \<and> unat (dd_size d) = n mod 2 ^ 32 \<and> dd_flags d = 0"
    using at [of "\<lparr>dd_src_addr = src, dd_dst_addr = dst, dd_size = word_of_nat n,
         dd_src_ordinal = word_of_nat g, dd_dst_ordinal = word_of_nat g, dd_priority = prio, dd_flags = 0\<rparr>"]
      True size unfolding submit_dram_to_vram_def by fastforce
  have v2d: "\<exists>slot e' d. submit_vram_to_dram g src dst n prio e = (Ok slot, e') \<and> dma_inv e'
      \<and> ring_contents (de_rings e' ! g) = ring_contents (de_rings e ! g) @ [d]
      \<and> (\<forall>k. k \<noteq> g \<longrightarrow> de_rings e' ! k = de_rings e ! k)
      \<and> dd_src_addr d = src \<and> dd_dst_addr d = dst \<and> unat (dd_size d) = n mod 2 ^ 32 \<and> dd_flags d = 1"
    using at [of "\<lparr>dd_src_addr = src, dd_dst_addr = dst, dd_size = word_of_nat n,
         dd_src_ordinal = word_of_nat g, dd_dst_ordinal = word_of_nat g, dd_priority = prio, dd_flags = DMA_FLAG_WRITEBACK\<rparr>"]
      True size unfolding submit_vram_to_dram_def by (fastforce simp: DMA_FLAG_WRITEBACK_def)
  have v2v: "\<exists>slot e' d. submit_vram_to_vram h g src dst n prio e = (Ok slot, e') \<and> dma_inv e'
      \<and> ring_contents (de_rings e' ! g) = ring_contents (de_rings e ! g) @ [d]
      \<and> (\<forall>k. k \<noteq> g \<longrightarrow> de_rings e' ! k = de_rings e ! k)
      \<and> dd_src_addr d = src \<and> dd_dst_addr d = dst \<and> unat (dd_size d) = n mod 2 ^ 32"
    if "h < de_num_gpus e"
    using at [of "\<lparr>dd_src_addr = src, dd_dst_addr = dst, dd_size = word_of_nat n,
         dd_src_ordinal = word_of_nat h, dd_dst_ordinal = word_of_nat g, dd_priority = prio, dd_flags = 0\<rparr>"]
      True size that unfolding submit_vram_to_vram_def by fastforce
  have "\<forall>submit \<in> {submit_dram_to_vram g src dst n prio, submit_vram_to_dram g src dst n prio}
            \<union> (if h < de_num_gpus e then {submit_vram_to_vram h g src dst n prio} else {}).
          \<exists>slot e' d. submit e = (Ok slot, e') \<and> dma_inv e'
            \<and> ring_contents (de_rings e' ! g) = ring_contents (de_rings e ! g) @ [d]
            \<and> (\<forall>k. k \<noteq> g \<longrightarrow> de_rings e' ! k = de_rings e ! k)
            \<and> dd_src_addr d = src \<and> dd_dst_addr d = dst \<and> unat (dd_size d) = n mod 2 ^ 32"
    (is "\<forall>submit \<in> _. ?P submit")
  proof -
    have "?P (submit_dram_to_vram g src dst n prio)" using d2v by blast
    moreover have "?P (submit_vram_to_dram g src dst n prio)" using v2d by blast
    ultimately show ?thesis using v2v by simp
  qed
  moreover have "\<not> de_num_gpus e \<le> g" using True by simp
  ultimately show ?thesis using d2v v2d by blast
next
  case False
  then show ?thesis
    by (simp add: submit_dram_to_vram_def submit_vram_to_dram_def submit_vram_to_vram_def)
qed

theorem dma_routing_witness:
  "\<exists>slot e'. submit_vram_to_dram 1 16 32 4096 0 (dma_new 2) = (Ok slot, e')
    \<and> (\<exists>d. ring_contents (de_rings e' ! 1) = [d] \<and> dd_flags d = 1)"
proof -
  have r: "de_rings (dma_new 2) ! 1 = ring_new" and n: "de_num_gpus (dma_new 2) = 2"
    by (simp_all add: dma_new_def)
  have "unat (dm_submitted (rg_completion ring_new)) < 2 ^ 32 - 1"
    by (simp add: ring_new_def Let_def completion_new_def)
  then have "1 < de_num_gpus (dma_new 2) \<longrightarrow> length (ring_contents (de_rings (dma_new 2) ! 1)) < 1024
      \<and> unat (dm_submitted (rg_completion (de_rings (dma_new 2) ! 1))) < 2 ^ 32 - 1"
    using r by (simp add: ring_new_contents)
  from dma_routing [OF dma_new_inv this, where src = 16 and dst = 32 and n = 4096 and prio = 0 and h = 0]
  show ?thesis unfolding r ring_new_contents n append_Nil by (meson one_less_numeral_iff semiring_norm(76))
qed

section \<open>One producer and one consumer\<close>

text \<open>
  The ring is shared between the CPU and the DMA engine. Here \<open>submit\<close> and the consumer's
  \<open>peek\<close>/read/\<open>ack\<close> are split at every atomic access to a counter and at the accesses to the slot,
  and the two run interleaved in any order (the source's acquire and release orderings make the
  accesses to the counters and the slot writes they publish appear in such an order).
\<close>

datatype producer_pc =
    PIdle
  | PCheck dma_descriptor "32 word" \<comment> \<open>\<open>is_full\<close>: producer index loaded\<close>
  | PAdmitted dma_descriptor \<comment> \<open>not full\<close>
  | PLoaded dma_descriptor "32 word" \<comment> \<open>producer index loaded again\<close>
  | PWritten dma_descriptor "32 word" \<comment> \<open>slot written\<close>

datatype consumer_pc =
    CIdle
  | CLoaded "32 word" \<comment> \<open>\<open>peek\<close>: consumer index loaded\<close>
  | CReady "32 word" \<comment> \<open>below the producer index\<close>
  | CRead dma_descriptor \<comment> \<open>slot read\<close>
  | CAcked \<comment> \<open>consumer index advanced, \<open>completed\<close> not yet\<close>

record spsc =
  sp_ring :: dma_ring
  sp_producer :: producer_pc
  sp_consumer :: consumer_pc
  sp_sent :: "dma_descriptor list"
  sp_got :: "dma_descriptor list"

definition spsc_start :: spsc where
  "spsc_start = \<lparr>sp_ring = ring_new, sp_producer = PIdle, sp_consumer = CIdle, sp_sent = [], sp_got = []\<rparr>"

abbreviation sub_of :: "spsc \<Rightarrow> 32 word" where
  "sub_of s \<equiv> dm_submitted (rg_completion (sp_ring s))"

abbreviation con_of :: "spsc \<Rightarrow> 32 word" where
  "con_of s \<equiv> rg_consumer (sp_ring s)"

inductive spsc_step :: "spsc \<Rightarrow> spsc \<Rightarrow> bool" where
  p_begin: "sp_producer s = PIdle \<Longrightarrow> spsc_step s (s\<lparr>sp_producer := PCheck d (sub_of s)\<rparr>)"
| p_full: "sp_producer s = PCheck d p \<Longrightarrow> rg_capacity (sp_ring s) \<le> u32_saturating_sub p (con_of s) \<Longrightarrow>
    spsc_step s (s\<lparr>sp_producer := PIdle\<rparr>)"
| p_admit: "sp_producer s = PCheck d p \<Longrightarrow> \<not> rg_capacity (sp_ring s) \<le> u32_saturating_sub p (con_of s) \<Longrightarrow>
    spsc_step s (s\<lparr>sp_producer := PAdmitted d\<rparr>)"
| p_load: "sp_producer s = PAdmitted d \<Longrightarrow> spsc_step s (s\<lparr>sp_producer := PLoaded d (sub_of s)\<rparr>)"
| p_write: "sp_producer s = PLoaded d p \<Longrightarrow>
    spsc_step s (s\<lparr>sp_ring := ring_write (p AND rg_mask (sp_ring s)) d (sp_ring s),
                  sp_producer := PWritten d p\<rparr>)"
| p_store: "sp_producer s = PWritten d p \<Longrightarrow>
    spsc_step s (s\<lparr>sp_ring := store_submitted (p + 1) (sp_ring s), sp_producer := PIdle,
                  sp_sent := sp_sent s @ [d]\<rparr>)"
| c_load: "sp_consumer s = CIdle \<Longrightarrow> spsc_step s (s\<lparr>sp_consumer := CLoaded (con_of s)\<rparr>)"
| c_empty: "sp_consumer s = CLoaded c \<Longrightarrow> sub_of s \<le> c \<Longrightarrow> spsc_step s (s\<lparr>sp_consumer := CIdle\<rparr>)"
| c_ready: "sp_consumer s = CLoaded c \<Longrightarrow> \<not> sub_of s \<le> c \<Longrightarrow>
    spsc_step s (s\<lparr>sp_consumer := CReady c\<rparr>)"
| c_read: "sp_consumer s = CReady c \<Longrightarrow>
    spsc_step s (s\<lparr>sp_consumer := CRead (rg_ring (sp_ring s) ! unat (c AND rg_mask (sp_ring s)))\<rparr>)"
| c_ack: "sp_consumer s = CRead x \<Longrightarrow>
    spsc_step s (s\<lparr>sp_ring := (sp_ring s)\<lparr>rg_consumer := con_of s + 1\<rparr>, sp_consumer := CAcked,
                  sp_got := sp_got s @ [x]\<rparr>)"
| c_complete: "sp_consumer s = CAcked \<Longrightarrow>
    spsc_step s (s\<lparr>sp_ring := mark_complete (sp_ring s), sp_consumer := CIdle\<rparr>)"

inductive_cases spsc_stepE [consumes 1, case_names p_begin p_full p_admit p_load p_write p_store
    c_load c_empty c_ready c_read c_ack c_complete]: "spsc_step s t"

text \<open>
  The window invariant over the abstract histories: \<open>a\<close> descriptors sent, \<open>b\<close> consumed, and the
  slots of the window hold the sent descriptors not yet consumed.
\<close>

definition window_ok :: "dma_descriptor list \<Rightarrow> dma_descriptor list \<Rightarrow> dma_descriptor list \<Rightarrow> bool" where
  "window_ok ring sent got \<longleftrightarrow> length ring = 1024 \<and> length got \<le> length sent
     \<and> length sent \<le> length got + 1024 \<and> got = take (length got) sent
     \<and> (\<forall>i. length got \<le> i \<longrightarrow> i < length sent \<longrightarrow> ring ! (i mod 1024) = sent ! i)"

fun producer_ok :: "dma_descriptor list \<Rightarrow> dma_descriptor list \<Rightarrow> dma_descriptor list \<Rightarrow> producer_pc \<Rightarrow> bool" where
  "producer_ok ring sent got PIdle = True"
| "producer_ok ring sent got (PCheck d p) = (unat p = length sent)"
| "producer_ok ring sent got (PAdmitted d) = (length sent < length got + 1024)"
| "producer_ok ring sent got (PLoaded d p) = (unat p = length sent \<and> length sent < length got + 1024)"
| "producer_ok ring sent got (PWritten d p) = (unat p = length sent \<and> length sent < length got + 1024
     \<and> ring ! (length sent mod 1024) = d)"

fun consumer_ok :: "dma_descriptor list \<Rightarrow> dma_descriptor list \<Rightarrow> consumer_pc \<Rightarrow> bool" where
  "consumer_ok sent got CIdle = True"
| "consumer_ok sent got (CLoaded c) = (unat c = length got)"
| "consumer_ok sent got (CReady c) = (unat c = length got \<and> length got < length sent)"
| "consumer_ok sent got (CRead x) = (length got < length sent \<and> x = sent ! length got)"
| "consumer_ok sent got CAcked = True"

definition spsc_inv :: "spsc \<Rightarrow> bool" where
  "spsc_inv s \<longleftrightarrow> rg_capacity (sp_ring s) = 1024 \<and> rg_mask (sp_ring s) = 1023
     \<and> unat (sub_of s) = length (sp_sent s) \<and> unat (con_of s) = length (sp_got s)
     \<and> window_ok (rg_ring (sp_ring s)) (sp_sent s) (sp_got s)
     \<and> producer_ok (rg_ring (sp_ring s)) (sp_sent s) (sp_got s) (sp_producer s)
     \<and> consumer_ok (sp_sent s) (sp_got s) (sp_consumer s)
     \<and> unat (dm_completed (rg_completion (sp_ring s)))
         + (if sp_consumer s = CAcked then 1 else 0) = length (sp_got s)"

lemma spsc_start_inv: "spsc_inv spsc_start"
  by (simp add: spsc_inv_def spsc_start_def ring_new_def Let_def completion_new_def window_ok_def)

lemma window_ok_write:
  assumes w: "window_ok ring sent got" and room: "length sent < length got + 1024"
  shows "window_ok (ring[length sent mod 1024 := d]) sent got"
proof -
  have "ring[length sent mod 1024 := d] ! (i mod 1024) = sent ! i"
    if i: "length got \<le> i" "i < length sent" for i
  proof -
    have "i mod 1024 \<noteq> length sent mod 1024"
    proof
      assume "i mod 1024 = length sent mod 1024"
      then have "1024 dvd length sent - i" using i(2) by (metis less_imp_le mod_eq_dvd_iff_nat)
      with i room show False by (auto dest: dvd_imp_le)
    qed
    with w i show ?thesis by (simp add: window_ok_def)
  qed
  with w show ?thesis by (simp add: window_ok_def)
qed

lemma window_ok_send:
  assumes "window_ok ring sent got" and "length sent < length got + 1024"
    and "ring ! (length sent mod 1024) = d"
  shows "window_ok ring (sent @ [d]) got"
  using assms by (auto simp: window_ok_def nth_append less_Suc_eq)

lemma window_ok_take:
  assumes "window_ok ring sent got" and "length got < length sent"
  shows "window_ok ring sent (got @ [sent ! length got])"
  using assms by (auto simp: window_ok_def take_Suc_conv_app_nth)

lemma producer_ok_take:
  "producer_ok ring sent got pc \<Longrightarrow> producer_ok ring sent (got @ [x]) pc"
  by (cases pc) auto

lemma consumer_ok_send:
  "consumer_ok sent got pc \<Longrightarrow> consumer_ok (sent @ [d]) got pc"
  by (cases pc) (auto simp: nth_append)

lemma spsc_step_sent: "spsc_step s t \<Longrightarrow> length (sp_sent s) \<le> length (sp_sent t)"
  by (erule spsc_stepE) simp_all

lemma window_ok_room:
  assumes "spsc_inv s" and "sp_producer s = PCheck d p"
    and "\<not> rg_capacity (sp_ring s) \<le> u32_saturating_sub p (con_of s)"
  shows "length (sp_sent s) < length (sp_got s) + 1024"
  using assms by (auto simp: spsc_inv_def word_le_nat_alt unat_u32_saturating_sub)

lemma spsc_inv_store:
  assumes inv: "spsc_inv s" and pc: "sp_producer s = PWritten d p" and "Suc (length (sp_sent s)) < 2 ^ 32"
  shows "spsc_inv (s\<lparr>sp_ring := store_submitted (p + 1) (sp_ring s), sp_producer := PIdle,
                  sp_sent := sp_sent s @ [d]\<rparr>)"
proof -
  have p: "unat p = length (sp_sent s)" and room: "length (sp_sent s) < length (sp_got s) + 1024"
    and slot: "rg_ring (sp_ring s) ! (length (sp_sent s) mod 1024) = d"
    using inv pc by (simp_all add: spsc_inv_def)
  have "unat (p + 1) = Suc (length (sp_sent s))"
    using p assms(3) by (simp add: unat_plus1)
  moreover have "window_ok (rg_ring (sp_ring s)) (sp_sent s @ [d]) (sp_got s)"
    using inv room slot by (intro window_ok_send) (simp_all add: spsc_inv_def)
  moreover have "consumer_ok (sp_sent s @ [d]) (sp_got s) (sp_consumer s)"
    using inv by (intro consumer_ok_send) (simp add: spsc_inv_def)
  ultimately show ?thesis
    using inv by (simp add: spsc_inv_def store_submitted_def)
qed

lemma spsc_inv_write:
  assumes inv: "spsc_inv s" and pc: "sp_producer s = PLoaded d p"
  shows "spsc_inv (s\<lparr>sp_ring := ring_write (p AND rg_mask (sp_ring s)) d (sp_ring s),
                  sp_producer := PWritten d p\<rparr>)"
proof -
  have p: "unat p = length (sp_sent s)" and room: "length (sp_sent s) < length (sp_got s) + 1024"
    using inv pc by (simp_all add: spsc_inv_def)
  have slot: "unat (p AND 1023) = length (sp_sent s) mod 1024"
    using p by (simp add: mask_1023)
  have w: "window_ok (rg_ring (sp_ring s)) (sp_sent s) (sp_got s)"
    using inv by (simp add: spsc_inv_def)
  then have "length (rg_ring (sp_ring s)) = 1024" by (simp add: window_ok_def)
  with window_ok_write [OF w room, of d] inv p room show ?thesis
    by (simp add: spsc_inv_def ring_write_def slot)
qed

lemma spsc_inv_ack:
  assumes inv: "spsc_inv s" and pc: "sp_consumer s = CRead x" and "length (sp_sent s) < 2 ^ 32"
  shows "spsc_inv (s\<lparr>sp_ring := (sp_ring s)\<lparr>rg_consumer := con_of s + 1\<rparr>, sp_consumer := CAcked,
                  sp_got := sp_got s @ [x]\<rparr>)"
proof -
  have lt: "length (sp_got s) < length (sp_sent s)" and x: "x = sp_sent s ! length (sp_got s)"
    using inv pc by (simp_all add: spsc_inv_def)
  have "unat (con_of s + 1) = Suc (length (sp_got s))"
    using inv lt assms(3) by (simp add: spsc_inv_def unat_plus1)
  moreover have "window_ok (rg_ring (sp_ring s)) (sp_sent s) (sp_got s @ [x])"
    unfolding x using inv lt by (intro window_ok_take) (simp_all add: spsc_inv_def)
  moreover have "producer_ok (rg_ring (sp_ring s)) (sp_sent s) (sp_got s @ [x]) (sp_producer s)"
    using inv by (intro producer_ok_take) (simp add: spsc_inv_def)
  ultimately show ?thesis using inv pc by (simp add: spsc_inv_def)
qed

lemma spsc_inv_read:
  assumes inv: "spsc_inv s" and pc: "sp_consumer s = CReady c"
  shows "spsc_inv (s\<lparr>sp_consumer := CRead (rg_ring (sp_ring s) ! unat (c AND rg_mask (sp_ring s)))\<rparr>)"
proof -
  have c: "unat c = length (sp_got s)" "length (sp_got s) < length (sp_sent s)"
    and w: "window_ok (rg_ring (sp_ring s)) (sp_sent s) (sp_got s)"
    using inv pc by (simp_all add: spsc_inv_def)
  then have "rg_ring (sp_ring s) ! unat (c AND rg_mask (sp_ring s)) = sp_sent s ! length (sp_got s)"
    using inv by (simp add: spsc_inv_def mask_1023 window_ok_def)
  with inv c pc show ?thesis by (simp add: spsc_inv_def)
qed

lemma spsc_inv_complete:
  assumes inv: "spsc_inv s" and pc: "sp_consumer s = CAcked" and "length (sp_sent s) < 2 ^ 32"
  shows "spsc_inv (s\<lparr>sp_ring := mark_complete (sp_ring s), sp_consumer := CIdle\<rparr>)"
proof -
  have "length (sp_got s) \<le> length (sp_sent s)"
    using inv by (simp add: spsc_inv_def window_ok_def)
  then have "unat (dm_completed (rg_completion (sp_ring s)) + 1) = length (sp_got s)"
    using inv pc assms(3) by (simp add: spsc_inv_def unat_plus1)
  with inv show ?thesis by (simp add: spsc_inv_def mark_complete_def)
qed

lemma spsc_step_inv:
  assumes "spsc_step s t" and inv: "spsc_inv s" and few: "length (sp_sent t) < 2 ^ 32"
  shows "spsc_inv t"
  using assms(1)
proof (cases rule: spsc_stepE)
  case (p_begin d)
  then show ?thesis using inv by (simp add: spsc_inv_def)
next
  case (p_full d p)
  then show ?thesis using inv by (simp add: spsc_inv_def)
next
  case (p_admit d p)
  then show ?thesis using window_ok_room [OF inv p_admit(2,3)] inv by (simp add: spsc_inv_def)
next
  case (p_load d)
  then show ?thesis using inv by (simp add: spsc_inv_def)
next
  case (p_write d p)
  then show ?thesis using spsc_inv_write [OF inv] by simp
next
  case (p_store d p)
  then show ?thesis using spsc_inv_store [OF inv] few by simp
next
  case c_load
  then show ?thesis using inv by (simp add: spsc_inv_def)
next
  case (c_empty c)
  then show ?thesis using inv by (simp add: spsc_inv_def)
next
  case (c_ready c)
  then show ?thesis using inv by (auto simp: spsc_inv_def word_le_nat_alt)
next
  case (c_read c)
  then show ?thesis using spsc_inv_read [OF inv] by simp
next
  case (c_ack x)
  then show ?thesis using spsc_inv_ack [OF inv] few by simp
next
  case c_complete
  then show ?thesis using spsc_inv_complete [OF inv] few by simp
qed

lemma spsc_reachable_inv:
  assumes "spsc_step\<^sup>*\<^sup>* spsc_start s" and "length (sp_sent s) < 2 ^ 32"
  shows "spsc_inv s"
  using assms
proof (induction rule: rtranclp_induct)
  case base
  show ?case by (rule spsc_start_inv)
next
  case (step s t)
  then have "length (sp_sent s) < 2 ^ 32" using spsc_step_sent [of s t] by simp
  with step spsc_step_inv show ?case by blast
qed

text \<open>
  Property C2. The ring is safe for one producer and one consumer under every interleaving of their
  accesses, for the first \<open>2 ^ 32\<close> submissions: what the consumer has read is at every moment the
  beginning of what the producer has sent, in order, each descriptor once and untorn; at most 1024
  descriptors are outstanding; when the producer is about to write its slot and the consumer is
  about to read its own, the two slots differ; and a refused submission found 1024 outstanding.
\<close>

theorem ring_spsc_safe:
  assumes reach: "spsc_step\<^sup>*\<^sup>* spsc_start s" and few: "length (sp_sent s) < 2 ^ 32"
  shows "sp_got s = take (length (sp_got s)) (sp_sent s)
    \<and> length (sp_sent s) \<le> length (sp_got s) + 1024
    \<and> unat (dm_completed (rg_completion (sp_ring s))) \<le> length (sp_got s)
    \<and> (\<forall>d p c. sp_producer s = PLoaded d p \<longrightarrow> sp_consumer s = CReady c \<longrightarrow>
         p AND rg_mask (sp_ring s) \<noteq> c AND rg_mask (sp_ring s))
    \<and> (\<forall>d p. sp_producer s = PCheck d p \<longrightarrow>
         rg_capacity (sp_ring s) \<le> u32_saturating_sub p (con_of s) \<longrightarrow>
         length (sp_sent s) = length (sp_got s) + 1024)"
proof -
  have inv: "spsc_inv s" using spsc_reachable_inv [OF assms] .
  have w: "window_ok (rg_ring (sp_ring s)) (sp_sent s) (sp_got s)"
    using inv by (simp add: spsc_inv_def)
  have "p AND rg_mask (sp_ring s) \<noteq> c AND rg_mask (sp_ring s)"
    if "sp_producer s = PLoaded d p" "sp_consumer s = CReady c" for d p c
  proof
    assume eq: "p AND rg_mask (sp_ring s) = c AND rg_mask (sp_ring s)"
    have p: "unat p = length (sp_sent s)" "length (sp_sent s) < length (sp_got s) + 1024"
      and c: "unat c = length (sp_got s)" "length (sp_got s) < length (sp_sent s)"
      using inv that by (simp_all add: spsc_inv_def)
    from eq have "length (sp_sent s) mod 1024 = length (sp_got s) mod 1024"
      using inv p(1) c(1) by (simp add: spsc_inv_def) (metis mask_1023)
    then have "1024 dvd length (sp_sent s) - length (sp_got s)"
      using c(2) by (metis less_imp_le mod_eq_dvd_iff_nat)
    with c(2) p(2) show False by (auto dest: dvd_imp_le)
  qed
  moreover have "length (sp_sent s) = length (sp_got s) + 1024"
    if "sp_producer s = PCheck d p" "rg_capacity (sp_ring s) \<le> u32_saturating_sub p (con_of s)" for d p
    using inv that w by (auto simp: spsc_inv_def word_le_nat_alt unat_u32_saturating_sub window_ok_def)
  ultimately show ?thesis
    using w inv by (auto simp: window_ok_def spsc_inv_def)
qed

theorem ring_spsc_safe_witness:
  "\<exists>s. spsc_step\<^sup>*\<^sup>* spsc_start s \<and> sp_producer s = PCheck (sample_desc 3) 0
    \<and> length (sp_sent s) \<le> length (sp_got s) + 1024"
proof -
  let ?s = "spsc_start\<lparr>sp_producer := PCheck (sample_desc 3) (sub_of spsc_start)\<rparr>"
  have "spsc_step spsc_start ?s" by (rule p_begin) (simp add: spsc_start_def)
  then have reach: "spsc_step\<^sup>*\<^sup>* spsc_start ?s" by (rule r_into_rtranclp)
  have "length (sp_sent ?s) < 2 ^ 32" by (simp add: spsc_start_def)
  from ring_spsc_safe [OF reach this] reach show ?thesis
    by (intro exI [of _ ?s]) (simp add: spsc_start_def ring_new_def Let_def completion_new_def)
qed

end
