(* ===== verification/Binary64.thy ===== *)
theory Binary64
  imports Complex_Main
begin

text \<open>
  The \<open>f64\<close> arithmetic of the placement policy. A finite double is the real number it stands for,
  and every arithmetic operation rounds its exact result by a function \<open>fl\<close>, an argument of the
  definitions that compute with doubles. What the proofs use of \<open>fl\<close> is the locale \<open>rounding\<close>; the
  last section defines IEEE 754 binary64 rounding (to nearest, ties to even, gradual underflow)
  and shows that it is one. The quantities of this program stay far below the largest double
  (access rates are at most \<open>2 ^ 64\<close>), so no operation overflows.
\<close>

type_synonym f64 = real

locale rounding =
  fixes fl :: "real \<Rightarrow> f64"
  assumes fl_mono: "x \<le> y \<Longrightarrow> fl x \<le> fl y"
    and fl_zero: "fl 0 = 0"
    and fl_one: "fl 1 = 1"
    and fl_idem: "fl (fl x) = fl x"
begin

lemma fl_nonneg: "0 \<le> x \<Longrightarrow> 0 \<le> fl x"
  using fl_mono [of 0 x] fl_zero by simp

lemma fl_le: "x \<le> y \<Longrightarrow> fl y = y \<Longrightarrow> fl x \<le> y"
  using fl_mono [of x y] by simp

lemma fl_ge: "y \<le> x \<Longrightarrow> fl y = y \<Longrightarrow> y \<le> fl x"
  using fl_mono [of y x] by simp

end

text \<open>\<open>x as usize\<close> truncates towards zero and saturates.\<close>

definition f64_to_usize :: "f64 \<Rightarrow> nat" where
  "f64_to_usize x = min (nat \<lfloor>x\<rfloor>) (2 ^ 64 - 1)"

lemma f64_to_usize_le: "0 \<le> x \<Longrightarrow> real (f64_to_usize x) \<le> x"
proof -
  assume "0 \<le> x"
  have "real (f64_to_usize x) \<le> real (nat \<lfloor>x\<rfloor>)" by (simp add: f64_to_usize_def)
  also have "\<dots> \<le> x" using \<open>0 \<le> x\<close> by simp
  finally show ?thesis .
qed

lemma rounding_id: "rounding (\<lambda>x. x)"
  by unfold_locales simp_all

section \<open>Round to nearest, ties to even\<close>

definition rne :: "real \<Rightarrow> int" where
  "rne y = (let n = \<lfloor>y\<rfloor>; d = y - of_int n in
     if d < 1 / 2 then n else if 1 / 2 < d then n + 1 else if even n then n else n + 1)"

lemma rne_int [simp]: "rne (of_int n) = n"
  by (simp add: rne_def)

lemma rne_cases: "rne y = \<lfloor>y\<rfloor> \<or> rne y = \<lfloor>y\<rfloor> + 1"
  by (simp add: rne_def Let_def)

lemma rne_mono: "y \<le> z \<Longrightarrow> rne y \<le> rne z"
proof -
  assume le: "y \<le> z"
  then consider "\<lfloor>y\<rfloor> = \<lfloor>z\<rfloor>" | "\<lfloor>y\<rfloor> + 1 \<le> \<lfloor>z\<rfloor>" using floor_mono [OF le] by linarith
  then show ?thesis
  proof cases
    case 1
    with le show ?thesis by (auto simp: rne_def Let_def)
  next
    case 2
    with rne_cases [of y] rne_cases [of z] show ?thesis by linarith
  qed
qed

lemma rne_minus: "rne (- y) = - rne y"
proof (cases "y = of_int \<lfloor>y\<rfloor>")
  case True
  then have "rne y = \<lfloor>y\<rfloor>" using rne_int by metis
  moreover have "rne (- y) = - \<lfloor>y\<rfloor>" using True rne_int [of "- \<lfloor>y\<rfloor>"] by simp
  ultimately show ?thesis by simp
next
  case False
  have "\<lceil>y\<rceil> = \<lfloor>y\<rfloor> + 1" using False by (simp add: ceiling_altdef)
  then have "\<lfloor>- y\<rfloor> = - \<lfloor>y\<rfloor> - 1" by (simp add: floor_minus)
  then show ?thesis by (auto simp: rne_def Let_def)
qed

section \<open>Binary64\<close>

text \<open>The unit in the last place of the binade of \<open>x\<close>, at least the smallest subnormal.\<close>

definition ulp_exp :: "real \<Rightarrow> int" where
  "ulp_exp x = max (\<lfloor>log 2 \<bar>x\<bar>\<rfloor> - 52) (- 1074)"

definition round64 :: "real \<Rightarrow> f64" where
  "round64 x = (if x = 0 then 0 else of_int (rne (x / 2 powr ulp_exp x)) * 2 powr ulp_exp x)"

lemma round64_minus: "round64 (- x) = - round64 x"
  by (simp add: round64_def ulp_exp_def rne_minus)

lemma binade: "x \<noteq> 0 \<Longrightarrow> 2 powr \<lfloor>log 2 \<bar>x\<bar>\<rfloor> \<le> \<bar>x\<bar> \<and> \<bar>x\<bar> < 2 powr (\<lfloor>log 2 \<bar>x\<bar>\<rfloor> + 1)"
proof -
  assume "x \<noteq> 0"
  then have pos: "0 < \<bar>x\<bar>" by simp
  have "2 powr \<lfloor>log 2 \<bar>x\<bar>\<rfloor> \<le> 2 powr log 2 \<bar>x\<bar>" by simp
  moreover have "2 powr log 2 \<bar>x\<bar> < 2 powr (\<lfloor>log 2 \<bar>x\<bar>\<rfloor> + 1)"
    by (simp only: powr_less_cancel_iff) linarith
  ultimately show ?thesis using pos by simp
qed

text \<open>A power of two at least the unit is a whole number of units.\<close>

lemma powr_multiple:
  assumes "e \<le> k"
  shows "\<exists>n::int. 2 powr real_of_int k = of_int n * 2 powr real_of_int e \<and> 0 < n"
proof -
  have "2 powr real_of_int k = 2 powr real_of_int (k - e) * 2 powr real_of_int e"
    by (simp add: powr_add [symmetric])
  also have "2 powr real_of_int (k - e) = 2 powr real (nat (k - e))"
    using assms by simp
  also have "\<dots> = of_int (2 ^ nat (k - e))" by (simp only: powr_realpow) simp
  finally show ?thesis by (intro exI [of _ "2 ^ nat (k - e)"]) simp
qed

lemma round64_grid:
  assumes "x = of_int n * 2 powr real_of_int e" and "ulp_exp x \<le> e"
  shows "round64 x = x"
proof (cases "x = 0")
  case False
  obtain m :: int where "2 powr real_of_int e = of_int m * 2 powr real_of_int (ulp_exp x)"
    using powr_multiple [OF assms(2)] by blast
  then have "x = of_int (n * m) * 2 powr ulp_exp x"
    using assms(1) by (simp only: of_int_mult mult.assoc)
  then have "x / 2 powr ulp_exp x = of_int (n * m)"
    using nonzero_divide_eq_eq [of "2 powr ulp_exp x" x "of_int (n * m)"] by simp
  then have "rne (x / 2 powr ulp_exp x) = n * m" by (metis rne_int)
  with \<open>x / 2 powr ulp_exp x = of_int (n * m)\<close> False show ?thesis
    by (simp add: round64_def field_simps)
qed (simp add: round64_def)

lemma round64_powr: "- 1074 \<le> k \<Longrightarrow> round64 (2 powr real_of_int k) = 2 powr real_of_int k"
  by (rule round64_grid [of _ 1 k]) (simp_all add: ulp_exp_def)

lemma round64_nonneg: "0 \<le> x \<Longrightarrow> 0 \<le> round64 x"
proof -
  assume "0 \<le> x"
  then have "rne 0 \<le> rne (x / 2 powr ulp_exp x)" by (intro rne_mono) simp
  then show ?thesis using rne_int [of 0] by (simp add: round64_def)
qed

lemma ulp_exp_mono: "0 < x \<Longrightarrow> x \<le> y \<Longrightarrow> ulp_exp x \<le> ulp_exp y"
proof -
  assume "0 < x" "x \<le> y"
  then have "\<lfloor>log 2 \<bar>x\<bar>\<rfloor> \<le> \<lfloor>log 2 \<bar>y\<bar>\<rfloor>" by (intro floor_mono) simp
  then show ?thesis by (simp add: ulp_exp_def)
qed

lemma round64_mono_pos:
  assumes "0 < x" and "x \<le> y"
  shows "round64 x \<le> round64 y"
proof (cases "ulp_exp x = ulp_exp y")
  case True
  then have "rne (x / 2 powr ulp_exp x) \<le> rne (y / 2 powr ulp_exp y)"
    using assms by (intro rne_mono) (simp add: divide_right_mono)
  with True assms show ?thesis by (simp add: round64_def)
next
  case False
  define k where "k = \<lfloor>log 2 \<bar>y\<bar>\<rfloor>"
  define j where "j = \<lfloor>log 2 \<bar>x\<bar>\<rfloor>"
  have "ulp_exp x < ulp_exp y" using False ulp_exp_mono [OF assms] by simp
  then have lt: "max (j - 52) (- 1074) < max (k - 52) (- 1074)"
    by (simp only: ulp_exp_def j_def k_def)
  have eqs: "ulp_exp x = max (j - 52) (- 1074)" "ulp_exp y = max (k - 52) (- 1074)"
    by (simp_all only: ulp_exp_def j_def k_def)
  have y: "ulp_exp y = k - 52" and xk: "\<lfloor>log 2 \<bar>x\<bar>\<rfloor> + 1 \<le> k" "ulp_exp x \<le> k" "- 1074 \<le> k"
    using lt unfolding eqs j_def [symmetric] by linarith+
  have "x \<le> 2 powr k"
  proof -
    have "x < 2 powr (\<lfloor>log 2 \<bar>x\<bar>\<rfloor> + 1)" using binade [of x] assms(1) by simp
    also have "\<dots> \<le> 2 powr k" using xk(1) by (simp only: powr_le_cancel_iff)
    finally show ?thesis by simp
  qed
  have ky: "2 powr k \<le> y" using binade [of y] assms unfolding k_def by simp
  obtain n :: int where n: "2 powr real_of_int k = of_int n * 2 powr real_of_int (ulp_exp x)"
    using powr_multiple [OF xk(2)] by blast
  have "rne (x / 2 powr ulp_exp x) \<le> rne (of_int n)"
    using \<open>x \<le> 2 powr k\<close> n by (intro rne_mono) (simp add: pos_divide_le_eq)
  then have up: "round64 x \<le> 2 powr k"
    using assms(1) n by (simp add: round64_def)
  obtain m :: int where m: "2 powr real_of_int k = of_int m * 2 powr real_of_int (ulp_exp y)"
    using powr_multiple [of "ulp_exp y" k] y by auto
  have "rne (of_int m) \<le> rne (y / 2 powr ulp_exp y)"
    using ky m by (intro rne_mono) (simp add: pos_le_divide_eq)
  then have "2 powr k \<le> round64 y"
    using assms m by (simp add: round64_def)
  with up show ?thesis by linarith
qed

lemma round64_mono: "x \<le> y \<Longrightarrow> round64 x \<le> round64 y"
proof -
  assume le: "x \<le> y"
  consider "0 < x" | "x \<le> 0" "0 \<le> y" | "y < 0" by linarith
  then show ?thesis
  proof cases
    case 1
    with le show ?thesis by (intro round64_mono_pos)
  next
    case 2
    have "0 \<le> round64 (- x)" using 2(1) by (intro round64_nonneg) simp
    with 2(2) round64_nonneg [of y] show ?thesis by (simp add: round64_minus)
  next
    case 3
    then have "round64 (- y) \<le> round64 (- x)" using le by (intro round64_mono_pos) simp_all
    then show ?thesis by (simp add: round64_minus)
  qed
qed

lemma round64_idem_pos:
  assumes "0 < x"
  shows "round64 (round64 x) = round64 x"
proof -
  define e where "e = ulp_exp x"
  define k where "k = \<lfloor>log 2 \<bar>x\<bar>\<rfloor>"
  define n where "n = rne (x / 2 powr e)"
  have r: "round64 x = of_int n * 2 powr real_of_int e"
    using assms by (simp add: round64_def n_def e_def)
  have ke: "k - 52 \<le> e" "- 1074 \<le> e" by (simp_all add: e_def ulp_exp_def k_def)
  have "x \<le> 2 powr real_of_int (k + 1)"
    using binade [of x] assms unfolding k_def by simp
  also have "\<dots> \<le> 2 powr real_of_int (e + 53)"
    using ke(1) by (simp only: powr_le_cancel_iff)
  finally have "round64 x \<le> 2 powr real_of_int (e + 53)"
    using round64_mono [of x] round64_powr [of "e + 53"] ke(2) by fastforce
  then have bound: "round64 x = 2 powr real_of_int (e + 53) \<or> round64 x < 2 powr real_of_int (e + 53)"
    by linarith
  show ?thesis
  proof (cases "round64 x = 0")
    case False
    with round64_nonneg [of x] assms have pos: "0 < round64 x" by simp
    from bound show ?thesis
    proof
      assume "round64 x = 2 powr real_of_int (e + 53)"
      with round64_powr [of "e + 53"] ke(2) show ?thesis by simp
    next
      assume "round64 x < 2 powr real_of_int (e + 53)"
      then have "log 2 (round64 x) < e + 53"
        using pos by (subst log_less_iff) simp_all
      then have "\<lfloor>log 2 \<bar>round64 x\<bar>\<rfloor> < e + 53" using pos by (simp add: floor_less_iff)
      then have "ulp_exp (round64 x) \<le> e" using ke(2) by (simp add: ulp_exp_def)
      with r show ?thesis by (rule round64_grid)
    qed
  qed (simp add: round64_def)
qed

interpretation f64: rounding round64
proof (unfold_locales, goal_cases)
  case (1 x y)
  then show ?case by (rule round64_mono)
next
  case 2
  show ?case by (simp add: round64_def)
next
  case 3
  show ?case using round64_powr [of 0] by simp
next
  case (4 x)
  consider "0 < x" | "x = 0" | "0 < - x" by linarith
  then show ?case
  proof cases
    case 3
    from round64_idem_pos [OF this] show ?thesis by (simp add: round64_minus)
  next
    case 1
    then show ?thesis by (rule round64_idem_pos)
  next
    case 2
    then show ?thesis by (simp add: round64_def)
  qed
qed

end
