(* ===== verification/Membrane.thy ===== *)
theory Membrane
  imports Prelude Binary64 "HOL-Library.Char_ord" "HOL-Library.List_Lexorder" "HOL-Library.Multiset"
begin

text \<open>
  \<open>src/membrane.rs\<close>: decayed access rates per page, the scoring policy, and the plan that splits
  the candidates of a sweep into the pages to keep in VRAM and the pages to evict. Doubles are
  reals, \<open>fl\<close> is the rounding of an operation (\<open>Binary64\<close>). Names compare byte by byte.
\<close>

section \<open>The model\<close>

definition RATE_DECAY :: f64 where
  "RATE_DECAY = 3 / 4"

definition VRAM_HIGH_WATER :: "(real \<Rightarrow> f64) \<Rightarrow> f64" where
  "VRAM_HIGH_WATER fl = fl (85 / 100)"

definition HYSTERESIS :: f64 where
  "HYSTERESIS = 3 / 2"

record page_obs =
  ob_rate :: f64
  ob_bytes :: usize
  ob_resident :: bool
  ob_pinned :: bool

record tier_policy =
  tp_alpha :: f64
  tp_beta :: f64

definition policy_default :: "(real \<Rightarrow> f64) \<Rightarrow> tier_policy" where
  "policy_default fl = \<lparr>tp_alpha = 1, tp_beta = fl (5 / 100)\<rparr>"

text \<open>A score is a finite double or, for a pinned page, \<open>f64::INFINITY\<close>.\<close>

datatype score = Fin f64 | Infinity

definition score :: "(real \<Rightarrow> f64) \<Rightarrow> tier_policy \<Rightarrow> page_obs \<Rightarrow> score" where
  "score fl pol obs =
     (if ob_pinned obs then Infinity
      else
       (let mib = fl (fl (real (ob_bytes obs)) / (1024 * 1024));
            benefit = fl (fl (tp_alpha pol * ob_rate obs) * (if ob_resident obs then HYSTERESIS else 1))
        in Fin (fl (benefit - fl (tp_beta pol * mib)))))"

record membrane =
  mb_rates :: "string \<Rightarrow> f64 option"
  mb_hits :: "string \<Rightarrow> u64 option"
  mb_sweeps :: u64

definition membrane_new :: membrane where
  "membrane_new = \<lparr>mb_rates = Map.empty, mb_hits = Map.empty, mb_sweeps = 0\<rparr>"

definition observe :: "string \<Rightarrow> membrane \<Rightarrow> membrane" where
  "observe name m =
     m\<lparr>mb_hits := (mb_hits m)(name \<mapsto> uadd (case mb_hits m name of None \<Rightarrow> 0 | Some h \<Rightarrow> h) 1)\<rparr>"

text \<open>The two loops of \<open>decay\<close> treat every name on its own, so their order does not matter.\<close>

definition decay :: "(real \<Rightarrow> f64) \<Rightarrow> membrane \<Rightarrow> membrane" where
  "decay fl m =
     (let decayed = (\<lambda>name. case mb_rates m name of
            None \<Rightarrow> None
          | Some rate \<Rightarrow>
              (let h = fl (real (case mb_hits m name of None \<Rightarrow> 0 | Some h \<Rightarrow> h)) in
               Some (fl (fl (rate * RATE_DECAY) + fl (h * (1 - RATE_DECAY))))));
          rates = (\<lambda>name. case mb_hits m name of
            None \<Rightarrow> decayed name
          | Some h \<Rightarrow>
              (case decayed name of
                 None \<Rightarrow> Some (fl (fl (real h) * (1 - RATE_DECAY)))
               | Some rate \<Rightarrow> Some rate))
      in m\<lparr>mb_rates := rates, mb_hits := Map.empty, mb_sweeps := uadd (mb_sweeps m) 1\<rparr>)"

definition membrane_rate :: "membrane \<Rightarrow> string \<Rightarrow> f64" where
  "membrane_rate m name = (case mb_rates m name of None \<Rightarrow> 0 | Some r \<Rightarrow> r)"

definition forget :: "string \<Rightarrow> membrane \<Rightarrow> membrane" where
  "forget name m = m\<lparr>mb_rates := (mb_rates m)(name := None), mb_hits := (mb_hits m)(name := None)\<rparr>"

section \<open>The order of the plan\<close>

text \<open>Scores are ordered as \<open>partial_cmp\<close> orders them.\<close>

instantiation score :: linorder
begin

fun less_eq_score :: "score \<Rightarrow> score \<Rightarrow> bool" where
  "less_eq_score (Fin a) (Fin b) = (a \<le> b)"
| "less_eq_score Infinity (Fin b) = False"
| "less_eq_score _ Infinity = True"

definition less_score :: "score \<Rightarrow> score \<Rightarrow> bool" where
  "less_score a b \<longleftrightarrow> a \<le> b \<and> \<not> b \<le> a"

instance
proof (intro_classes, goal_cases)
  case (1 x y)
  show ?case by (rule less_score_def)
next
  case (2 x)
  show ?case by (cases x) simp_all
next
  case (3 x y z)
  then show ?case by (cases x; cases y; cases z) simp_all
next
  case (4 x y)
  then show ?case by (cases x; cases y) simp_all
next
  case (5 x y)
  show ?case by (cases x; cases y) auto
qed

end

text \<open>The sort key: descending by score, ties by name.\<close>

datatype rank = Rank (rank_score: score) (rank_name: string)

instantiation rank :: linorder
begin

definition less_eq_rank :: "rank \<Rightarrow> rank \<Rightarrow> bool" where
  "less_eq_rank a b \<longleftrightarrow> rank_score b < rank_score a
     \<or> rank_score a = rank_score b \<and> rank_name a \<le> rank_name b"

definition less_rank :: "rank \<Rightarrow> rank \<Rightarrow> bool" where
  "less_rank a b \<longleftrightarrow> a \<le> b \<and> \<not> b \<le> a"

instance
proof (intro_classes, goal_cases)
  case (1 x y)
  show ?case by (rule less_rank_def)
next
  case (2 x)
  show ?case by (simp add: less_eq_rank_def)
next
  case (3 x y z)
  then show ?case by (auto simp: less_eq_rank_def)
next
  case (4 x y)
  then show ?case by (cases x; cases y) (auto simp: less_eq_rank_def)
next
  case (5 x y)
  show ?case by (auto simp: less_eq_rank_def)
qed

end

definition candidate_rank :: "(real \<Rightarrow> f64) \<Rightarrow> tier_policy \<Rightarrow> string \<times> page_obs \<Rightarrow> rank" where
  "candidate_rank fl pol c = Rank (score fl pol (snd c)) (fst c)"

text \<open>The filling loop, with its accumulators, and the plan.\<close>

fun fill ::
  "usize \<Rightarrow> (string \<times> page_obs) list \<Rightarrow> usize \<Rightarrow> string list \<Rightarrow> string list \<Rightarrow> string list \<times> string list" where
  "fill cap [] used keep evict = (keep, evict)"
| "fill cap ((name, obs) # rest) used keep evict =
     (if ob_pinned obs \<or> uadd used (ob_bytes obs) \<le> cap
      then fill cap rest (uadd used (ob_bytes obs)) (keep @ [name]) evict
      else fill cap rest used keep (evict @ [name]))"

definition high_water :: "(real \<Rightarrow> f64) \<Rightarrow> usize \<Rightarrow> usize" where
  "high_water fl vram_budget = f64_to_usize (fl (fl (real vram_budget) * VRAM_HIGH_WATER fl))"

definition plan ::
  "(real \<Rightarrow> f64) \<Rightarrow> tier_policy \<Rightarrow> (string \<times> page_obs) list \<Rightarrow> usize \<Rightarrow> string list \<times> string list" where
  "plan fl pol candidates vram_budget =
     (let ranked = sort_key (candidate_rank fl pol) candidates
      in fill (high_water fl vram_budget) ranked 0 [] [])"

section \<open>The filling loop\<close>

text \<open>The candidates the loop accepts and those it rejects, as lists.\<close>

fun accepts :: "usize \<Rightarrow> (string \<times> page_obs) list \<Rightarrow> usize \<Rightarrow> (string \<times> page_obs) list" where
  "accepts cap [] used = []"
| "accepts cap (c # cs) used =
     (if ob_pinned (snd c) \<or> used + ob_bytes (snd c) \<le> cap
      then c # accepts cap cs (used + ob_bytes (snd c)) else accepts cap cs used)"

fun rejects :: "usize \<Rightarrow> (string \<times> page_obs) list \<Rightarrow> usize \<Rightarrow> (string \<times> page_obs) list" where
  "rejects cap [] used = []"
| "rejects cap (c # cs) used =
     (if ob_pinned (snd c) \<or> used + ob_bytes (snd c) \<le> cap
      then rejects cap cs (used + ob_bytes (snd c)) else c # rejects cap cs used)"

abbreviation bytes_of :: "(string \<times> page_obs) list \<Rightarrow> nat" where
  "bytes_of cs \<equiv> sum_list (map (ob_bytes \<circ> snd) cs)"

lemma fill_accepts:
  "used + bytes_of cs < W64 \<Longrightarrow> fill cap cs used keep evict =
     (keep @ map fst (accepts cap cs used), evict @ map fst (rejects cap cs used))"
  by (induction cap cs used keep evict rule: fill.induct) (simp_all add: uadd_exact)

lemma accepts_rejects_mset: "mset (accepts cap cs used) + mset (rejects cap cs used) = mset cs"
  by (induction cs arbitrary: used) simp_all

lemma accepts_pinned: "c \<in> set cs \<Longrightarrow> ob_pinned (snd c) \<Longrightarrow> c \<in> set (accepts cap cs used)"
  by (induction cs arbitrary: used) auto

lemma rejects_unpinned: "c \<in> set (rejects cap cs used) \<Longrightarrow> \<not> ob_pinned (snd c)"
  by (induction cs arbitrary: used) (auto split: if_splits)

lemma accepts_append:
  "accepts cap (xs @ ys) used = accepts cap xs used @ accepts cap ys (used + bytes_of (accepts cap xs used))"
  "rejects cap (xs @ ys) used = rejects cap xs used @ rejects cap ys (used + bytes_of (accepts cap xs used))"
  by (induction xs arbitrary: used) (simp_all add: add.assoc)

lemma accepts_all_pinned: "\<forall>c \<in> set cs. ob_pinned (snd c) \<Longrightarrow> accepts cap cs used = cs"
  by (induction cs arbitrary: used) simp_all

lemma accepts_budget:
  "\<forall>c \<in> set cs. \<not> ob_pinned (snd c) \<Longrightarrow> used + bytes_of (accepts cap cs used) \<le> max cap used"
proof (induction cs arbitrary: used)
  case (Cons c cs)
  then have rest: "\<forall>c \<in> set cs. \<not> ob_pinned (snd c)" by simp
  have c: "\<not> ob_pinned (snd c)" using Cons.prems by simp
  show ?case
  proof (cases "used + ob_bytes (snd c) \<le> cap")
    case True
    then have "accepts cap (c # cs) used = c # accepts cap cs (used + ob_bytes (snd c))" by simp
    with Cons.IH [OF rest, of "used + ob_bytes (snd c)"] True show ?thesis by simp
  next
    case False
    with c have "accepts cap (c # cs) used = accepts cap cs used" by simp
    with Cons.IH [OF rest, of used] show ?thesis by simp
  qed
qed simp

text \<open>What is rejected does not fit beside what is accepted in the end.\<close>

lemma rejects_full:
  "c \<in> set (rejects cap cs used) \<Longrightarrow> cap < used + bytes_of (accepts cap cs used) + ob_bytes (snd c)"
proof (induction cs arbitrary: used)
  case (Cons d cs)
  show ?case
  proof (cases "ob_pinned (snd d) \<or> used + ob_bytes (snd d) \<le> cap")
    case True
    with Cons.prems Cons.IH [of "used + ob_bytes (snd d)"] show ?thesis by simp
  next
    case False
    with Cons.prems Cons.IH [of used] show ?thesis by (cases "c = d") auto
  qed
qed simp

lemma accepts_member_fits:
  "c \<in> set (accepts cap cs used) \<Longrightarrow> \<not> ob_pinned (snd c) \<Longrightarrow> used + ob_bytes (snd c) \<le> cap"
proof (induction cs arbitrary: used)
  case (Cons d cs)
  then show ?case using Cons.IH [of "used + ob_bytes (snd d)"] Cons.IH [of used]
    by (fastforce split: if_splits)
qed simp

lemma accepts_subset: "set (accepts cap cs used) \<subseteq> set cs" "set (rejects cap cs used) \<subseteq> set cs"
  by (induction cs arbitrary: used) auto

lemma accepts_rejects_disjoint:
  "distinct (map fst cs) \<Longrightarrow> fst ` set (accepts cap cs used) \<inter> fst ` set (rejects cap cs used) = {}"
proof (induction cs arbitrary: used)
  case (Cons c cs)
  then show ?case
    using Cons.IH [of "used + ob_bytes (snd c)"] Cons.IH [of used]
      accepts_subset [of cap cs "used + ob_bytes (snd c)"] accepts_subset [of cap cs used]
    by (auto simp: image_iff)
qed simp

text \<open>A smaller candidate may be accepted after a rejected one, never a larger or equal one.\<close>

lemma reject_then_accept:
  assumes "sorted_wrt (\<lambda>x y. key x < key y) cs" and "\<forall>c \<in> set cs. \<not> ob_pinned (snd c)"
    and "c \<in> set (rejects cap cs used)" and "d \<in> set (accepts cap cs used)" and "(key c :: 'k :: linorder) < key d"
  shows "ob_bytes (snd d) < ob_bytes (snd c)"
  using assms
proof (induction cs arbitrary: used)
  case (Cons x cs)
  show ?case
  proof (cases "used + ob_bytes (snd x) \<le> cap")
    case True
    have "d \<noteq> x"
    proof
      assume "d = x"
      have "c \<in> set cs" using Cons.prems(2,3) True accepts_subset(2) [of cap cs] by auto
      with Cons.prems(1) \<open>d = x\<close> have "key d < key c" by simp
      with Cons.prems(5) show False by simp
    qed
    with Cons.prems True Cons.IH [of "used + ob_bytes (snd x)"] show ?thesis by simp
  next
    case False
    have d: "d \<in> set (accepts cap cs used)" using Cons.prems(2,4) False by simp
    show ?thesis
    proof (cases "c = x")
      case True
      have "\<not> ob_pinned (snd d)" using d accepts_subset(1) [of cap cs used] Cons.prems(2) by auto
      with accepts_member_fits [OF d] True False show ?thesis by simp
    next
      case ne: False
      then have "c \<in> set (rejects cap cs used)" using Cons.prems(2,3) False by simp
      with d Cons.prems Cons.IH show ?thesis by simp
    qed
  qed
qed simp

section \<open>The ranking\<close>

lemma score_Infinity: "score fl pol obs = Infinity \<longleftrightarrow> ob_pinned obs"
  by (simp add: score_def Let_def)

lemma sorted_split:
  "sorted_wrt (\<lambda>x y. P y \<longrightarrow> P x) xs \<Longrightarrow> xs = filter P xs @ filter (\<lambda>x. \<not> P x) xs"
proof (induction xs)
  case (Cons x xs)
  show ?case
  proof (cases "P x")
    case False
    with Cons.prems have "\<forall>y \<in> set xs. \<not> P y" by auto
    with False show ?thesis by (simp add: filter_empty_conv)
  qed (use Cons in simp)
qed simp

definition ranked :: "(real \<Rightarrow> f64) \<Rightarrow> tier_policy \<Rightarrow> (string \<times> page_obs) list \<Rightarrow> (string \<times> page_obs) list" where
  "ranked fl pol cs = sort_key (candidate_rank fl pol) cs"

lemma ranked_mset [simp]: "mset (ranked fl pol cs) = mset cs" "set (ranked fl pol cs) = set cs"
  by (simp_all add: ranked_def)

lemma bytes_of_mset: "mset xs = mset ys \<Longrightarrow> bytes_of xs = bytes_of ys"
  by (metis mset_map sum_mset_sum_list)

lemma candidate_rank_inj: "distinct (map fst cs) \<Longrightarrow> inj_on (candidate_rank fl pol) (set cs)"
  by (auto simp: candidate_rank_def inj_on_def distinct_map)

lemma ranked_sorted: "sorted_wrt (\<lambda>x y. candidate_rank fl pol x \<le> candidate_rank fl pol y) (ranked fl pol cs)"
  using sorted_sort_key [of "candidate_rank fl pol" cs] by (simp add: ranked_def sorted_wrt_map)

lemma ranked_strict:
  assumes "distinct (map fst cs)"
  shows "sorted_wrt (\<lambda>x y. candidate_rank fl pol x < candidate_rank fl pol y) (ranked fl pol cs)"
proof -
  have "distinct (map (candidate_rank fl pol) (ranked fl pol cs))"
    using assms candidate_rank_inj [OF assms, of fl pol]
    by (metis distinct_map mset_eq_imp_distinct_iff ranked_mset(1) ranked_mset(2))
  moreover have "sorted (map (candidate_rank fl pol) (ranked fl pol cs))"
    by (simp add: ranked_def)
  ultimately have "sorted_wrt (<) (map (candidate_rank fl pol) (ranked fl pol cs))"
    by (simp add: strict_sorted_iff)
  then show ?thesis by (simp add: sorted_wrt_map)
qed

lemma ranked_pinned_first:
  "ranked fl pol cs = filter (\<lambda>c. ob_pinned (snd c)) (ranked fl pol cs)
     @ filter (\<lambda>c. \<not> ob_pinned (snd c)) (ranked fl pol cs)"
proof (rule sorted_split, rule sorted_wrt_mono_rel [OF _ ranked_sorted], rule impI)
  fix x y :: "string \<times> page_obs"
  assume le: "candidate_rank fl pol x \<le> candidate_rank fl pol y" and "ob_pinned (snd y)"
  then have "score fl pol (snd y) = Infinity" by (simp add: score_Infinity)
  with le have "score fl pol (snd x) = Infinity"
    by (cases "score fl pol (snd x)") (auto simp: candidate_rank_def less_eq_rank_def less_score_def)
  then show "ob_pinned (snd x)" by (simp add: score_Infinity)
qed

lemma ranked_order_independent:
  assumes "mset cs = mset ds" and "distinct (map fst cs)"
  shows "ranked fl pol cs = ranked fl pol ds"
proof -
  let ?key = "candidate_rank fl pol"
  have "mset (map ?key (ranked fl pol cs)) = mset (map ?key (ranked fl pol ds))"
    using assms(1) by simp
  then have "map ?key (ranked fl pol cs) = map ?key (ranked fl pol ds)"
    by (metis properties_for_sort ranked_def sorted_sort_key)
  moreover have "inj_on ?key (set (ranked fl pol cs) \<union> set (ranked fl pol ds))"
    using candidate_rank_inj [OF assms(2)] assms(1) mset_eq_setD [OF assms(1)] by simp
  ultimately show ?thesis by (rule map_inj_on)
qed

section \<open>What a plan is\<close>

text \<open>The bytes of the candidates whose names are kept.\<close>

definition kept_bytes :: "(string \<times> page_obs) list \<Rightarrow> string list \<Rightarrow> nat" where
  "kept_bytes cs keep = bytes_of (filter (\<lambda>c. fst c \<in> set keep) cs)"

lemma plan_accepts:
  assumes "bytes_of cs < W64"
  shows "plan fl pol cs budget =
    (map fst (accepts (high_water fl budget) (ranked fl pol cs) 0),
     map fst (rejects (high_water fl budget) (ranked fl pol cs) 0))"
proof -
  have "0 + bytes_of (ranked fl pol cs) < W64"
    using assms bytes_of_mset [of "ranked fl pol cs" cs] by simp
  from fill_accepts [OF this, of "high_water fl budget" "[]" "[]"] show ?thesis
    by (simp add: plan_def Let_def ranked_def)
qed

lemma kept_bytes_accepts:
  assumes "distinct (map fst cs)"
  shows "kept_bytes cs (map fst (accepts cap (ranked fl pol cs) 0)) = bytes_of (accepts cap (ranked fl pol cs) 0)"
proof -
  let ?r = "ranked fl pol cs" and ?A = "accepts cap (ranked fl pol cs) 0"
  let ?R = "rejects cap (ranked fl pol cs) 0" and ?P = "\<lambda>c. fst c \<in> fst ` set (accepts cap (ranked fl pol cs) 0)"
  have "distinct (map fst ?r)"
    using assms by (metis mset_eq_imp_distinct_iff mset_map ranked_mset(1))
  then have disj: "fst ` set ?A \<inter> fst ` set ?R = {}" by (rule accepts_rejects_disjoint)
  have "filter ?P ?R = []"
    using disj by (auto simp: filter_empty_conv)
  moreover have "filter ?P ?A = ?A" by (rule filter_True) simp
  moreover have "mset cs = mset ?A + mset ?R"
    using accepts_rejects_mset [of cap ?r 0] by simp
  ultimately have "mset (filter ?P cs) = mset ?A"
    by (metis add.right_neutral filter_union_mset mset.simps(1) mset_filter)
  then have "bytes_of (filter ?P cs) = bytes_of ?A" by (rule bytes_of_mset)
  then show ?thesis by (simp add: kept_bytes_def)
qed

lemma accepts_ranked_budget:
  "bytes_of (accepts cap (ranked fl pol cs) 0)
     \<le> max cap (bytes_of (filter (\<lambda>c. ob_pinned (snd c)) cs))"
proof -
  let ?p = "filter (\<lambda>c. ob_pinned (snd c)) (ranked fl pol cs)"
  let ?u = "filter (\<lambda>c. \<not> ob_pinned (snd c)) (ranked fl pol cs)"
  have "accepts cap (?p @ ?u) 0 = ?p @ accepts cap ?u (bytes_of ?p)"
    by (simp add: accepts_append accepts_all_pinned)
  then have "bytes_of (accepts cap (ranked fl pol cs) 0) = bytes_of ?p + bytes_of (accepts cap ?u (bytes_of ?p))"
    by (subst ranked_pinned_first) simp
  also have "\<dots> \<le> max cap (bytes_of ?p)" by (rule accepts_budget) simp
  also have "bytes_of ?p = bytes_of (filter (\<lambda>c. ob_pinned (snd c)) cs)"
    by (rule bytes_of_mset) simp
  finally show ?thesis .
qed

context rounding
begin

lemma high_water_le:
  assumes "fl (real budget) = real budget"
  shows "high_water fl budget \<le> budget"
proof -
  have w: "0 \<le> VRAM_HIGH_WATER fl" "VRAM_HIGH_WATER fl \<le> 1"
    using fl_nonneg [of "85 / 100"] fl_le [of "85 / 100" 1] fl_one by (simp_all add: VRAM_HIGH_WATER_def)
  then have "real budget * VRAM_HIGH_WATER fl \<le> real budget"
    by (simp add: mult_left_le)
  then have "fl (fl (real budget) * VRAM_HIGH_WATER fl) \<le> real budget"
    using assms by (simp add: fl_le)
  moreover have "0 \<le> fl (fl (real budget) * VRAM_HIGH_WATER fl)"
    using w assms by (intro fl_nonneg) simp
  ultimately show ?thesis
    using f64_to_usize_le [of "fl (fl (real budget) * VRAM_HIGH_WATER fl)"]
    by (simp add: high_water_def)
qed

lemma score_unpinned_mono:
  assumes "0 \<le> tp_alpha pol" "0 \<le> tp_beta pol" "0 \<le> r" "r \<le> r'" "b' \<le> b" and "res \<longrightarrow> res'"
  shows "score fl pol \<lparr>ob_rate = r, ob_bytes = b, ob_resident = res, ob_pinned = False\<rparr>
      \<le> score fl pol \<lparr>ob_rate = r', ob_bytes = b', ob_resident = res', ob_pinned = False\<rparr>"
proof -
  let ?k = "\<lambda>z. if z then HYSTERESIS else 1"
  have "fl (tp_alpha pol * r) \<le> fl (tp_alpha pol * r')"
    using assms(1,4) by (intro fl_mono mult_left_mono)
  moreover have "0 \<le> fl (tp_alpha pol * r')" using assms(1,3,4) by (intro fl_nonneg) simp
  moreover have "?k res \<le> ?k res'" "0 \<le> ?k res" using assms(6) by (auto simp: HYSTERESIS_def)
  ultimately have "fl (tp_alpha pol * r) * ?k res \<le> fl (tp_alpha pol * r') * ?k res'"
    by - (rule mult_mono)
  then have benefit: "fl (fl (tp_alpha pol * r) * ?k res) \<le> fl (fl (tp_alpha pol * r') * ?k res')"
    by (rule fl_mono)
  have "fl (real b') \<le> fl (real b)" using assms(5) by (intro fl_mono) simp
  then have "fl (real b') / (1024 * 1024) \<le> fl (real b) / (1024 * 1024)"
    by (rule divide_right_mono) simp
  then have "fl (fl (real b') / (1024 * 1024)) \<le> fl (fl (real b) / (1024 * 1024))"
    by (rule fl_mono)
  then have "fl (tp_beta pol * fl (fl (real b') / (1024 * 1024)))
      \<le> fl (tp_beta pol * fl (fl (real b) / (1024 * 1024)))"
    by (intro fl_mono [OF mult_left_mono] assms(2))
  with benefit have "fl (fl (fl (tp_alpha pol * r) * ?k res) - fl (tp_beta pol * fl (fl (real b) / (1024 * 1024))))
      \<le> fl (fl (fl (tp_alpha pol * r') * ?k res') - fl (tp_beta pol * fl (fl (real b') / (1024 * 1024))))"
    by (rule fl_mono [OF diff_mono])
  then show ?thesis by (simp only: score_def Let_def page_obs.select_convs if_False less_eq_score.simps)
qed

lemma score_hysteresis:
  assumes "fl r = r" "fl c = c" "c \<le> HYSTERESIS * r"
  shows "score fl (policy_default fl) \<lparr>ob_rate = c, ob_bytes = b, ob_resident = False, ob_pinned = False\<rparr>
       \<le> score fl (policy_default fl) \<lparr>ob_rate = r, ob_bytes = b, ob_resident = True, ob_pinned = False\<rparr>"
proof -
  have "fl (1 * c) * 1 \<le> fl (1 * r) * HYSTERESIS"
    using assms by (simp add: mult.commute)
  then have "fl (fl (fl (1 * c) * 1) - y) \<le> fl (fl (fl (1 * r) * HYSTERESIS) - y)" for y
    by (intro fl_mono diff_right_mono)
  then show ?thesis by (simp add: score_def Let_def policy_default_def)
qed

lemma score_pinned_top:
  "score fl pol \<lparr>ob_rate = r, ob_bytes = b, ob_resident = res, ob_pinned = False\<rparr>
     < score fl pol \<lparr>ob_rate = r', ob_bytes = b', ob_resident = res', ob_pinned = True\<rparr>"
  by (simp add: score_def Let_def less_score_def)

end

text \<open>
  Property C13. The plan splits the candidates: every one is either kept or evicted, exactly once;
  pinned pages are always kept; and the kept bytes exceed the high-water mark only by pinned pages
  alone. For a budget that a double represents the high-water mark is at most the budget.
\<close>

theorem plan_split_and_budget:
  assumes "rounding fl" and total: "bytes_of cs < W64" and dist: "distinct (map fst cs)"
    and run: "plan fl pol cs budget = (keep, evict)"
  shows "mset keep + mset evict = mset (map fst cs)
    \<and> (\<forall>(n, ob) \<in> set cs. ob_pinned ob \<longrightarrow> n \<in> set keep \<and> n \<notin> set evict)
    \<and> kept_bytes cs keep \<le> max (high_water fl budget) (bytes_of (filter (\<lambda>c. ob_pinned (snd c)) cs))
    \<and> (fl (real budget) = real budget \<longrightarrow> high_water fl budget \<le> budget)"
proof -
  let ?A = "accepts (high_water fl budget) (ranked fl pol cs) 0"
  let ?R = "rejects (high_water fl budget) (ranked fl pol cs) 0"
  have ke: "keep = map fst ?A" "evict = map fst ?R"
    using run plan_accepts [OF total, of fl pol budget] by simp_all
  have all: "mset ?A + mset ?R = mset cs"
    using accepts_rejects_mset [of _ "ranked fl pol cs" 0] by simp
  have split: "mset keep + mset evict = mset (map fst cs)"
    unfolding ke mset_map by (metis all image_mset_union)
  have "n \<in> set keep \<and> n \<notin> set evict" if "(n, ob) \<in> set cs" "ob_pinned ob" for n ob
  proof -
    have "(n, ob) \<in> set ?A" using that by (intro accepts_pinned) simp_all
    then have "n \<in> set keep" unfolding ke by (metis fst_conv image_eqI list.set_map)
    moreover have "distinct (map fst (ranked fl pol cs))"
      using dist by (metis mset_eq_imp_distinct_iff mset_map ranked_mset(1))
    ultimately show ?thesis
      using accepts_rejects_disjoint [of "ranked fl pol cs" "high_water fl budget" 0] unfolding ke by auto
  qed
  then show ?thesis
    using split kept_bytes_accepts [OF dist] accepts_ranked_budget rounding.high_water_le [OF assms(1)]
    unfolding ke by auto
qed

definition sample_cands :: "(string \<times> page_obs) list" where
  "sample_cands =
     [(''w'', \<lparr>ob_rate = 1, ob_bytes = 60, ob_resident = True, ob_pinned = False\<rparr>),
      (''a'', \<lparr>ob_rate = 4, ob_bytes = 70, ob_resident = False, ob_pinned = False\<rparr>),
      (''p'', \<lparr>ob_rate = 0, ob_bytes = 10, ob_resident = True, ob_pinned = True\<rparr>),
      (''z'', \<lparr>ob_rate = 0, ob_bytes = 5, ob_resident = False, ob_pinned = False\<rparr>)]"

text \<open>Ranked \<open>p\<close>, \<open>a\<close>, \<open>w\<close>, \<open>z\<close>: with 85 bytes \<open>w\<close> does not fit any more, the colder \<open>z\<close> does.\<close>

lemma sample_plan:
  "plan (\<lambda>x. x) (policy_default (\<lambda>x. x)) sample_cands 100 = ([''p'', ''a'', ''z''], [''w''])"
  by (simp add: plan_def Let_def sample_cands_def policy_default_def candidate_rank_def score_def
      high_water_def f64_to_usize_def VRAM_HIGH_WATER_def HYSTERESIS_def less_eq_rank_def less_score_def
      uadd_def W64_def)

lemma sample_cands_facts:
  "bytes_of sample_cands < W64" "distinct (map fst sample_cands)"
  by (simp_all add: sample_cands_def W64_def)

theorem plan_split_and_budget_witness:
  "mset [''p'', ''a'', ''z''] + mset [''w''] = mset (map fst sample_cands)
    \<and> kept_bytes sample_cands [''p'', ''a'', ''z''] \<le> max (high_water (\<lambda>x. x) 100) 10"
  using plan_split_and_budget [OF rounding_id sample_cands_facts sample_plan]
  by (simp add: sample_cands_def)

text \<open>
  Property C33. The plan is greedy in rank order and maximal: an evicted page is unpinned and would
  not fit beside the kept ones; and where an unpinned page is kept although a better ranked one was
  evicted, the kept one is strictly smaller. (So the kept pages need not be a prefix of the ranking.)
\<close>

theorem plan_greedy_maximal:
  assumes total: "bytes_of cs < W64" and dist: "distinct (map fst cs)"
    and run: "plan fl pol cs budget = (keep, evict)"
  shows "(\<forall>(n, ob) \<in> set cs. n \<in> set evict \<longrightarrow>
       \<not> ob_pinned ob \<and> high_water fl budget < kept_bytes cs keep + ob_bytes ob)
    \<and> (\<forall>c \<in> set cs. \<forall>d \<in> set cs. fst c \<in> set evict \<longrightarrow> fst d \<in> set keep \<longrightarrow> \<not> ob_pinned (snd d) \<longrightarrow>
       candidate_rank fl pol c < candidate_rank fl pol d \<longrightarrow> ob_bytes (snd d) < ob_bytes (snd c))"
proof -
  let ?cap = "high_water fl budget" and ?r = "ranked fl pol cs"
  let ?A = "accepts ?cap ?r 0" and ?R = "rejects ?cap ?r 0"
  have ke: "keep = map fst ?A" "evict = map fst ?R"
    using run plan_accepts [OF total, of fl pol budget] by simp_all
  have inj: "inj_on fst (set cs)" using dist by (simp add: distinct_map)
  have sub: "set ?A \<subseteq> set cs" "set ?R \<subseteq> set cs"
    using accepts_subset [of ?cap ?r 0] by simp_all
  have R: "c \<in> set ?R" if "c \<in> set cs" "fst c \<in> set evict" for c
    using that sub(2) inj unfolding ke by (auto dest: inj_onD)
  have A: "c \<in> set ?A" if "c \<in> set cs" "fst c \<in> set keep" for c
    using that sub(1) inj unfolding ke by (auto dest: inj_onD)
  have first: "\<not> ob_pinned ob \<and> ?cap < kept_bytes cs keep + ob_bytes ob"
    if "(n, ob) \<in> set cs" "n \<in> set evict" for n ob
    using R [of "(n, ob)"] that rejects_unpinned [of "(n, ob)" ?cap ?r 0]
      rejects_full [of "(n, ob)" ?cap ?r 0] kept_bytes_accepts [OF dist, of ?cap fl pol]
    unfolding ke by simp
  let ?p = "filter (\<lambda>c. ob_pinned (snd c)) ?r" and ?u = "filter (\<lambda>c. \<not> ob_pinned (snd c)) ?r"
  have "ob_bytes (snd d) < ob_bytes (snd c)"
    if "c \<in> set cs" "d \<in> set cs" "fst c \<in> set evict" "fst d \<in> set keep" "\<not> ob_pinned (snd d)"
      "candidate_rank fl pol c < candidate_rank fl pol d" for c d
  proof (rule reject_then_accept)
    show "sorted_wrt (\<lambda>x y. candidate_rank fl pol x < candidate_rank fl pol y) ?u"
      using ranked_strict [OF dist] by (rule sorted_wrt_filter)
    have cu: "c \<in> set ?R" "d \<in> set ?A" using R A that by simp_all
    have "accepts ?cap ?r 0 = ?p @ accepts ?cap ?u (bytes_of ?p)"
      by (subst ranked_pinned_first) (simp add: accepts_append accepts_all_pinned)
    with cu that(5) show "d \<in> set (accepts ?cap ?u (bytes_of ?p))" by auto
    have "rejects ?cap ?r 0 = rejects ?cap ?p 0 @ rejects ?cap ?u (bytes_of ?p)"
      by (subst ranked_pinned_first) (simp add: accepts_append accepts_all_pinned)
    moreover have "rejects ?cap ?p 0 = []"
    proof -
      have "x \<notin> set (rejects ?cap ?p 0)" for x
        using rejects_unpinned [of x ?cap ?p 0] accepts_subset(2) [of ?cap ?p 0] by auto
      then show ?thesis by (metis last_in_set)
    qed
    ultimately show "c \<in> set (rejects ?cap ?u (bytes_of ?p))" using cu by simp
  qed (use that in auto)
  with first show ?thesis by auto
qed

theorem plan_greedy_maximal_witness:
  "high_water (\<lambda>x. x) 100 < kept_bytes sample_cands [''p'', ''a'', ''z''] + 60"
  using plan_greedy_maximal [OF sample_cands_facts sample_plan]
  by (simp add: sample_cands_def)

text \<open>
  Property C34. The plan is deterministic: it does not depend on the order in which the candidates
  are listed, which for the sweep is the iteration order of a hash map.
\<close>

theorem plan_order_independent:
  assumes "mset cs = mset ds" and "distinct (map fst cs)"
  shows "plan fl pol cs budget = plan fl pol ds budget"
  using ranked_order_independent [OF assms, of fl pol] by (simp add: plan_def Let_def ranked_def)

theorem plan_order_independent_witness:
  "plan (\<lambda>x. x) (policy_default (\<lambda>x. x)) (rev sample_cands) 100 = ([''p'', ''a'', ''z''], [''w''])"
  using plan_order_independent [of sample_cands "rev sample_cands"] sample_plan sample_cands_facts(2)
  by simp

section \<open>The score\<close>

text \<open>
  The score, for nonnegative weights and rates: it grows with the rate, falls with the
  size, incumbency never lowers it (also when the size penalty makes the score negative), a pinned
  page beats every other, and under the default weights a challenger of the same size whose rate is
  at most 1.5 times the incumbent's does not outrank it.
\<close>

theorem score_monotone:
  assumes fl: "rounding fl" and "0 \<le> tp_alpha pol" "0 \<le> tp_beta pol" "0 \<le> r" "r \<le> r'" "b' \<le> b"
  shows "score fl pol \<lparr>ob_rate = r, ob_bytes = b, ob_resident = res, ob_pinned = False\<rparr>
      \<le> score fl pol \<lparr>ob_rate = r', ob_bytes = b', ob_resident = res, ob_pinned = False\<rparr>
    \<and> score fl pol \<lparr>ob_rate = r, ob_bytes = b, ob_resident = False, ob_pinned = False\<rparr>
      \<le> score fl pol \<lparr>ob_rate = r, ob_bytes = b, ob_resident = True, ob_pinned = False\<rparr>
    \<and> score fl pol \<lparr>ob_rate = r', ob_bytes = b', ob_resident = res, ob_pinned = False\<rparr>
      < score fl pol \<lparr>ob_rate = r, ob_bytes = b, ob_resident = res', ob_pinned = True\<rparr>
    \<and> (fl r = r \<longrightarrow> fl c = c \<longrightarrow> c \<le> HYSTERESIS * r \<longrightarrow>
       score fl (policy_default fl) \<lparr>ob_rate = c, ob_bytes = b, ob_resident = False, ob_pinned = False\<rparr>
       \<le> score fl (policy_default fl) \<lparr>ob_rate = r, ob_bytes = b, ob_resident = True, ob_pinned = False\<rparr>)"
  using rounding.score_unpinned_mono [OF fl assms(2-6), of res res]
    rounding.score_unpinned_mono [OF fl assms(2-4) order_refl order_refl, of False True b]
    rounding.score_pinned_top [OF fl, of pol r' b' res r b res'] rounding.score_hysteresis [OF fl, of r c b]
  by blast

theorem score_monotone_witness:
  "score (\<lambda>x. x) (policy_default (\<lambda>x. x)) \<lparr>ob_rate = 3, ob_bytes = 209715200, ob_resident = False, ob_pinned = False\<rparr>
    \<le> score (\<lambda>x. x) (policy_default (\<lambda>x. x)) \<lparr>ob_rate = 2, ob_bytes = 209715200, ob_resident = True, ob_pinned = False\<rparr>"
  using score_monotone [OF rounding_id, of "policy_default (\<lambda>x. x)" 2 2 0 209715200 True True 3]
  by (simp add: policy_default_def HYSTERESIS_def)

section \<open>The rates\<close>

definition membrane_inv :: "(real \<Rightarrow> f64) \<Rightarrow> membrane \<Rightarrow> bool" where
  "membrane_inv fl m \<longleftrightarrow> (\<forall>n r. mb_rates m n = Some r \<longrightarrow> 0 \<le> r \<and> fl r = r)"

lemma observe_hits: "mb_hits ((observe n ^^ Suc k) m) n
    = Some ((case mb_hits m n of None \<Rightarrow> 0 | Some h \<Rightarrow> h) + Suc k)"
  if "(case mb_hits m n of None \<Rightarrow> 0 | Some h \<Rightarrow> h) + Suc k < W64"
  using that
proof (induction k)
  case 0
  then show ?case by (simp add: observe_def uadd_exact)
next
  case (Suc k)
  then have "mb_hits ((observe n ^^ Suc k) m) n
      = Some ((case mb_hits m n of None \<Rightarrow> 0 | Some h \<Rightarrow> h) + Suc k)" by simp
  then have "mb_hits (observe n ((observe n ^^ Suc k) m)) n
      = Some (uadd ((case mb_hits m n of None \<Rightarrow> 0 | Some h \<Rightarrow> h) + Suc k) 1)"
    by (simp add: observe_def)
  with Suc.prems show ?case by (simp add: uadd_exact)
qed

lemma observe_frame:
  "mb_rates ((observe n ^^ k) m) = mb_rates m"
  "a \<noteq> n \<Longrightarrow> mb_hits ((observe n ^^ k) m) a = mb_hits m a"
  by (induction k) (simp_all add: observe_def)

text \<open>The rate of a page with \<open>h\<close> hits in the window that is now folded in.\<close>

definition folded_rate :: "(real \<Rightarrow> f64) \<Rightarrow> f64 option \<Rightarrow> nat option \<Rightarrow> f64" where
  "folded_rate fl rate h = (case (rate, h) of
      (Some r, _) \<Rightarrow> fl (fl (r * (3 / 4)) + fl (fl (real (case h of None \<Rightarrow> 0 | Some k \<Rightarrow> k)) * (1 / 4)))
    | (None, Some k) \<Rightarrow> fl (fl (real k) * (1 / 4))
    | (None, None) \<Rightarrow> 0)"

lemma decay_rate: "membrane_rate (decay fl m) n = folded_rate fl (mb_rates m n) (mb_hits m n)"
  by (simp add: membrane_rate_def decay_def Let_def folded_rate_def RATE_DECAY_def split: option.split)

lemma decay_inv:
  assumes "rounding fl" and "membrane_inv fl m"
  shows "membrane_inv fl (decay fl m)"
proof -
  note nonneg = rounding.fl_nonneg [OF assms(1)] and idem = rounding.fl_idem [OF assms(1)]
  have "0 \<le> r' \<and> fl r' = r'" if "mb_rates (decay fl m) n = Some r'" for n r'
  proof (cases "mb_rates m n")
    case None
    with that obtain h where "r' = fl (fl (real h) * (1 / 4))"
      by (auto simp: decay_def Let_def RATE_DECAY_def split: option.splits)
    then show ?thesis using nonneg idem by simp
  next
    case (Some r)
    then have "0 \<le> r" using assms(2) by (simp add: membrane_inv_def)
    define h where "h = (case mb_hits m n of None \<Rightarrow> 0 | Some h \<Rightarrow> h)"
    from Some that have "r' = fl (fl (r * (3 / 4)) + fl (fl (real h) * (1 / 4)))"
      by (simp add: decay_def Let_def RATE_DECAY_def h_def split: option.splits)
    then show ?thesis using nonneg idem \<open>0 \<le> r\<close> by simp
  qed
  then show ?thesis by (simp add: membrane_inv_def)
qed

lemma folded_mono:
  assumes "rounding fl" and "k \<le> k'"
  shows "folded_rate fl rate (Some k) \<le> folded_rate fl rate (Some k')"
proof -
  note mono = rounding.fl_mono [OF assms(1)]
  have "fl (real k) \<le> fl (real k')" using assms(2) by (intro mono) simp
  then have "fl (real k) * (1 / 4) \<le> fl (real k') * (1 / 4)"
    by (rule mult_right_mono) simp
  then have le: "fl (fl (real k) * (1 / 4)) \<le> fl (fl (real k') * (1 / 4))"
    by (rule mono)
  have le': "fl (x + fl (fl (real k) * (1 / 4))) \<le> fl (x + fl (fl (real k') * (1 / 4)))" for x
    by (rule mono) (rule add_left_mono [OF le])
  show ?thesis
    by (cases rate) (simp_all only: folded_rate_def prod.case option.case le le')
qed

lemma folded_idle:
  assumes "rounding fl" and "0 \<le> r" "fl r = r"
  shows "0 \<le> folded_rate fl (Some r) None" and "folded_rate fl (Some r) None \<le> r"
proof -
  have eq: "folded_rate fl (Some r) None = fl (r * (3 / 4))"
    using rounding.fl_zero [OF assms(1)] rounding.fl_idem [OF assms(1)] by (simp add: folded_rate_def)
  show "0 \<le> folded_rate fl (Some r) None"
    unfolding eq by (rule rounding.fl_nonneg [OF assms(1)]) (simp add: assms(2))
  have "r * (3 / 4) \<le> r" using assms(2) by simp
  from rounding.fl_le [OF assms(1) this assms(3)] show "folded_rate fl (Some r) None \<le> r"
    unfolding eq .
qed

text \<open>
  One window of the membrane. After \<open>k\<close> accesses to a page and a decay, its rate is
  three quarters of the old one plus a quarter of \<open>k\<close> (a page seen for the first time starts at a
  quarter of \<open>k\<close>), which grows with \<open>k\<close>; every page not accessed keeps a nonnegative rate that is
  at most the old one; the window is empty again; and a forgotten page has rate 0 at once.
\<close>

theorem membrane_window:
  assumes fl: "rounding fl" and inv: "membrane_inv fl m" and fresh: "mb_hits m = Map.empty"
    and k: "0 < k" "k < W64"
  shows "membrane_rate (decay fl ((observe n ^^ k) m)) n =
       (case mb_rates m n of
          Some r \<Rightarrow> fl (fl (r * (3 / 4)) + fl (fl (real k) * (1 / 4)))
        | None \<Rightarrow> fl (fl (real k) * (1 / 4)))
    \<and> (\<forall>k'. k \<le> k' \<longrightarrow> k' < W64 \<longrightarrow> membrane_rate (decay fl ((observe n ^^ k) m)) n
         \<le> membrane_rate (decay fl ((observe n ^^ k') m)) n)
    \<and> (\<forall>a. a \<noteq> n \<longrightarrow> 0 \<le> membrane_rate (decay fl ((observe n ^^ k) m)) a
         \<and> membrane_rate (decay fl ((observe n ^^ k) m)) a \<le> membrane_rate m a)
    \<and> mb_hits (decay fl ((observe n ^^ k) m)) = Map.empty
    \<and> membrane_inv fl (decay fl ((observe n ^^ k) m))
    \<and> membrane_rate (forget n m) n = 0"
proof -
  have hits: "mb_hits ((observe n ^^ j) m) n = Some j" if "0 < j" "j < W64" for j
    using observe_hits [of m n "j - 1"] that fresh by simp
  have rate: "membrane_rate (decay fl ((observe n ^^ j) m)) n = folded_rate fl (mb_rates m n) (Some j)"
    if "0 < j" "j < W64" for j
    using hits [OF that] by (simp add: decay_rate observe_frame)
  have "0 \<le> membrane_rate (decay fl ((observe n ^^ k) m)) a
         \<and> membrane_rate (decay fl ((observe n ^^ k) m)) a \<le> membrane_rate m a" if "a \<noteq> n" for a
  proof (cases "mb_rates m a")
    case None
    with that fresh show ?thesis
      unfolding decay_rate by (simp add: observe_frame membrane_rate_def folded_rate_def)
  next
    case (Some r)
    then have "0 \<le> r" "fl r = r" using inv by (simp_all add: membrane_inv_def)
    with Some that fresh folded_idle [OF fl this] show ?thesis
      unfolding decay_rate by (simp add: observe_frame membrane_rate_def)
  qed
  moreover have "membrane_inv fl ((observe n ^^ k) m)"
    using inv by (simp add: membrane_inv_def observe_frame)
  then have "membrane_inv fl (decay fl ((observe n ^^ k) m))" by (rule decay_inv [OF fl])
  moreover have "mb_hits (decay fl ((observe n ^^ k) m)) = Map.empty"
    by (simp add: decay_def Let_def)
  moreover have "membrane_rate (decay fl ((observe n ^^ k) m)) n
         \<le> membrane_rate (decay fl ((observe n ^^ k') m)) n" if "k \<le> k'" "k' < W64" for k'
    using rate [OF k] rate [of k'] folded_mono [OF fl that(1)] k that by simp
  moreover have "membrane_rate (decay fl ((observe n ^^ k) m)) n =
       (case mb_rates m n of
          Some r \<Rightarrow> fl (fl (r * (3 / 4)) + fl (fl (real k) * (1 / 4)))
        | None \<Rightarrow> fl (fl (real k) * (1 / 4)))"
    unfolding rate [OF k] by (simp add: folded_rate_def split: option.split)
  moreover have "membrane_rate (forget n m) n = 0"
    by (simp add: forget_def membrane_rate_def)
  ultimately show ?thesis by blast
qed

theorem membrane_window_witness:
  "membrane_rate (decay (\<lambda>x. x) ((observe ''w'' ^^ 4) membrane_new)) ''w'' = 1"
  using membrane_window [OF rounding_id, of membrane_new 4 "''w''"]
  by (simp add: membrane_inv_def membrane_new_def W64_def)

end
