(* ===== verification/Spill.thy ===== *)
theory Spill
  imports RangeAlloc
begin

text \<open>
  \<open>src/spill.rs\<close>: the NVMe tier, a file with an allocator of its offsets. Host memory is a function
  from addresses to bytes, the file a list of bytes. Positional reads and writes behave as POSIX
  describes them; that a call fails, and after how many bytes, is an argument of the operation.
\<close>

section \<open>Memory and file I/O\<close>

type_synonym byte = "8 word"
type_synonym host_memory = "usize \<Rightarrow> byte"

definition slice :: "host_memory \<Rightarrow> usize \<Rightarrow> usize \<Rightarrow> byte list" where
  "slice mem src n = map (\<lambda>i. mem (src + i)) [0 ..< n]"

definition mem_write :: "usize \<Rightarrow> byte list \<Rightarrow> host_memory \<Rightarrow> host_memory" where
  "mem_write dst bs mem = (\<lambda>a. if dst \<le> a \<and> a < dst + length bs then bs ! (a - dst) else mem a)"

text \<open>The environment's answer to one I/O request: done, or failed after \<open>k\<close> bytes.\<close>

datatype io_result = IoDone | IoFail io_error nat

definition pwrite :: "nat \<Rightarrow> byte list \<Rightarrow> byte list \<Rightarrow> byte list" where
  "pwrite off bs f =
     (if bs = [] then f
      else take off (f @ replicate (off - length f) 0) @ bs @ drop (off + length bs) f)"

definition write_all_at :: "io_result \<Rightarrow> byte list \<Rightarrow> u64 \<Rightarrow> byte list \<Rightarrow> io_error option \<times> byte list" where
  "write_all_at io buf off f = (case io of
      IoDone \<Rightarrow> (None, pwrite off buf f)
    | IoFail e k \<Rightarrow> (Some e, pwrite off (take k buf) f))"

text \<open>\<open>read_exact_at\<close>: what was read, and the error when it is short.\<close>

definition read_exact_at :: "io_result \<Rightarrow> u64 \<Rightarrow> usize \<Rightarrow> byte list \<Rightarrow> io_error option \<times> byte list" where
  "read_exact_at io off n f =
     (let avail = take n (drop off f) in
      case io of
        IoDone \<Rightarrow> (if length avail = n then None else Some UnexpectedEof, avail)
      | IoFail e k \<Rightarrow> (Some e, take k avail))"

section \<open>The spill file\<close>

record spill_file =
  sf_bytes :: "byte list"
  sf_path :: string
  sf_alloc :: range_allocator
  sf_unlink_on_drop :: bool

text \<open>The two I/O requests of \<open>create\<close>: opening the file and setting its length.\<close>

definition spill_create ::
  "io_error option \<Rightarrow> io_error option \<Rightarrow> string \<Rightarrow> usize \<Rightarrow> bool \<Rightarrow> spill_file outcome" where
  "spill_create open_err len_err path capacity unlink_on_drop =
     (case open_err of
        Some e \<Rightarrow> Err (Io e)
      | None \<Rightarrow>
         (case len_err of
            Some e \<Rightarrow> Err (Io e)
          | None \<Rightarrow> Ok \<lparr>sf_bytes = replicate capacity 0, sf_path = path,
                        sf_alloc = ra_new capacity, sf_unlink_on_drop = unlink_on_drop\<rparr>))"

definition spill_capacity :: "spill_file \<Rightarrow> usize" where
  "spill_capacity s = ra_capacity (sf_alloc s)"

definition spill_used :: "spill_file \<Rightarrow> usize" where
  "spill_used s = ra_used (sf_alloc s)"

definition spill_reserve :: "usize \<Rightarrow> (spill_file, u64) op" where
  "spill_reserve bytes s =
     (case ra_allocate (sf_alloc s) bytes of (r, a) \<Rightarrow> (r, s\<lparr>sf_alloc := a\<rparr>))"

definition spill_write_at :: "io_result \<Rightarrow> host_memory \<Rightarrow> usize \<Rightarrow> usize \<Rightarrow> u64 \<Rightarrow> (spill_file, unit) op" where
  "spill_write_at io mem src bytes offset s =
     (case write_all_at io (slice mem src bytes) offset (sf_bytes s) of
        (None, f) \<Rightarrow> (Ok (), s\<lparr>sf_bytes := f\<rparr>)
      | (Some e, f) \<Rightarrow> (Err (Io e), s\<lparr>sf_bytes := f\<rparr>))"

definition spill_write_at_new_offset ::
  "io_result \<Rightarrow> host_memory \<Rightarrow> usize \<Rightarrow> usize \<Rightarrow> (spill_file, u64) op" where
  "spill_write_at_new_offset io mem src bytes s =
     (case ra_allocate (sf_alloc s) bytes of
        (Ok offset, a) \<Rightarrow>
          (case write_all_at io (slice mem src bytes) offset (sf_bytes s) of
             (None, f) \<Rightarrow> (Ok offset, s\<lparr>sf_alloc := a, sf_bytes := f\<rparr>)
           | (Some e, f) \<Rightarrow> (Err (Io e), s\<lparr>sf_alloc := ra_free a offset bytes, sf_bytes := f\<rparr>))
      | (Err e, a) \<Rightarrow> (Err e, s\<lparr>sf_alloc := a\<rparr>)
      | (Panic, a) \<Rightarrow> (Panic, s\<lparr>sf_alloc := a\<rparr>))"

text \<open>\<open>read_into\<close> changes the host memory at \<open>dst\<close>, not the file.\<close>

definition spill_read_into :: "io_result \<Rightarrow> spill_file \<Rightarrow> u64 \<Rightarrow> usize \<Rightarrow> usize \<Rightarrow> (host_memory, unit) op" where
  "spill_read_into io s offset dst bytes mem =
     (case read_exact_at io offset bytes (sf_bytes s) of
        (None, bs) \<Rightarrow> (Ok (), mem_write dst bs mem)
      | (Some e, bs) \<Rightarrow> (Err (Io e), mem_write dst bs mem))"

definition spill_free :: "u64 \<Rightarrow> usize \<Rightarrow> spill_file \<Rightarrow> spill_file" where
  "spill_free offset bytes s = s\<lparr>sf_alloc := ra_free (sf_alloc s) offset bytes\<rparr>"

definition spill_sync :: "io_error option \<Rightarrow> (spill_file, unit) op" where
  "spill_sync err s = ((case err of None \<Rightarrow> Ok () | Some e \<Rightarrow> Err (Io e)), s)"

text \<open>\<open>Drop\<close>: the path to remove, when there is one; the result of the removal is ignored.\<close>

definition spill_drop :: "spill_file \<Rightarrow> string option" where
  "spill_drop s = (if sf_unlink_on_drop s then Some (sf_path s) else None)"

section \<open>Bytes\<close>

lemma length_slice [simp]: "length (slice mem src n) = n"
  by (simp add: slice_def)

lemma slice_mem_write: "length bs = n \<Longrightarrow> slice (mem_write dst bs mem) dst n = bs"
  by (simp add: slice_def mem_write_def list_eq_iff_nth_eq)

lemma mem_write_outside: "a < dst \<or> dst + length bs \<le> a \<Longrightarrow> mem_write dst bs mem a = mem a"
  by (auto simp: mem_write_def)

lemma pwrite_length: "off + length bs \<le> length f \<Longrightarrow> length (pwrite off bs f) = length f"
  by (simp add: pwrite_def)

lemma pwrite_nth:
  assumes "off + length bs \<le> length f" and "i < length f"
  shows "pwrite off bs f ! i = (if off \<le> i \<and> i < off + length bs then bs ! (i - off) else f ! i)"
  using assms by (auto simp: pwrite_def nth_append)

lemma pwrite_at: "off + length bs \<le> length f \<Longrightarrow> take (length bs) (drop off (pwrite off bs f)) = bs"
  by (simp add: pwrite_def)

text \<open>The content of a range of the file.\<close>

definition file_range :: "spill_file \<Rightarrow> nat \<Rightarrow> nat \<Rightarrow> byte list" where
  "file_range s off n = take n (drop off (sf_bytes s))"

lemma pwrite_other:
  assumes "off + length bs \<le> length f" and "{q ..< q + m} \<inter> {off ..< off + length bs} = {}"
    and "q + m \<le> length f"
  shows "take m (drop q (pwrite off bs f)) = take m (drop q f)"
proof (rule nth_equalityI)
  show "length (take m (drop q (pwrite off bs f))) = length (take m (drop q f))"
    using assms(1) by (simp add: pwrite_length)
  fix i assume "i < length (take m (drop q (pwrite off bs f)))"
  then have i: "i < m" "q + i < length f" using assms(3) by simp_all
  have "q + i \<notin> {off ..< off + length bs}" using assms(2) i(1) by auto
  with i assms(1) show "take m (drop q (pwrite off bs f)) ! i = take m (drop q f) ! i"
    by (auto simp: pwrite_nth pwrite_length)
qed

section \<open>Invariant\<close>

definition spill_inv :: "spill_file \<Rightarrow> bool" where
  "spill_inv s \<longleftrightarrow> ra_inv (sf_alloc s) \<and> length (sf_bytes s) = ra_capacity (sf_alloc s)"

lemma spill_create_inv:
  "capacity < W64 \<Longrightarrow> spill_create None None path capacity u = Ok s \<Longrightarrow> spill_inv s"
  by (auto simp: spill_create_def spill_inv_def ra_inv_def ra_new_def)

lemma live_in_file:
  assumes "spill_inv s" and "{q ..< q + m} \<subseteq> ra_live (sf_alloc s)"
  shows "m = 0 \<or> q + m \<le> length (sf_bytes s)"
proof (cases "m = 0")
  case False
  then have "q + m - 1 \<in> ra_live (sf_alloc s)" using assms(2) by auto
  then show ?thesis using assms(1) by (auto dest!: ra_live_below simp: spill_inv_def ra_inv_def)
qed simp

text \<open>A write into a fresh reservation leaves every live range of the file as it is.\<close>

lemma fresh_write:
  assumes inv: "spill_inv s" and fits: "ra_fits (sf_alloc s) n"
    and alloc: "ra_allocate (sf_alloc s) n = (Ok off, a)" and len: "length bs \<le> n"
  shows "off + length bs \<le> length (sf_bytes s)"
    and "length (pwrite off bs (sf_bytes s)) = length (sf_bytes s)"
    and "\<forall>q m. {q ..< q + m} \<subseteq> ra_live (sf_alloc s) \<longrightarrow>
      take m (drop q (pwrite off bs (sf_bytes s))) = take m (drop q (sf_bytes s))"
proof -
  have ra: "ra_inv (sf_alloc s)" using inv by (simp add: spill_inv_def)
  note a = ra_allocate_Ok [OF ra fits alloc]
  have "n \<le> ra_align n" using ra_align_bounds(1) ra_fits_align(2) [OF fits] by blast
  with a(3) len inv show fit: "off + length bs \<le> length (sf_bytes s)"
    by (simp add: spill_inv_def)
  then show "length (pwrite off bs (sf_bytes s)) = length (sf_bytes s)" by (rule pwrite_length)
  have "{off ..< off + length bs} \<subseteq> {off ..< off + ra_align n}"
    using \<open>n \<le> ra_align n\<close> len by auto
  with a(4) have apart: "{off ..< off + length bs} \<inter> ra_live (sf_alloc s) = {}" by blast
  show "\<forall>q m. {q ..< q + m} \<subseteq> ra_live (sf_alloc s) \<longrightarrow>
      take m (drop q (pwrite off bs (sf_bytes s))) = take m (drop q (sf_bytes s))"
  proof (intro allI impI)
    fix q m assume sub: "{q ..< q + m} \<subseteq> ra_live (sf_alloc s)"
    with apart have "{q ..< q + m} \<inter> {off ..< off + length bs} = {}" by blast
    with live_in_file [OF inv sub] fit
    show "take m (drop q (pwrite off bs (sf_bytes s))) = take m (drop q (sf_bytes s))"
      by (cases "m = 0") (simp_all add: pwrite_other)
  qed
qed

section \<open>Properties\<close>

text \<open>
  Property C19. Spill round trip, when the write succeeds and the size with the capacity of the file stays in
  the 64 bits. Writing \<open>n\<close> bytes of memory to a new offset and reading them back
  from there, into any destination and from any later memory, restores exactly those bytes and
  touches no other byte of memory; the range did not overlap any spilled page, every spilled page's
  bytes in the file are unchanged, and the file keeps its size.
\<close>

theorem spill_roundtrip:
  assumes inv: "spill_inv s" and fits: "ra_fits (sf_alloc s) n"
    and run: "spill_write_at_new_offset IoDone mem src n s = (Ok off, s')"
  shows "\<exists>mem''. spill_read_into IoDone s' off dst n mem' = (Ok (), mem'')
    \<and> slice mem'' dst n = slice mem src n
    \<and> (\<forall>x. x < dst \<or> dst + n \<le> x \<longrightarrow> mem'' x = mem' x)
    \<and> {off ..< off + n} \<inter> ra_live (sf_alloc s) = {}
    \<and> {off ..< off + n} \<subseteq> ra_live (sf_alloc s')
    \<and> (\<forall>q m. {q ..< q + m} \<subseteq> ra_live (sf_alloc s) \<longrightarrow> file_range s' q m = file_range s q m)
    \<and> spill_inv s'"
proof -
  let ?bs = "slice mem src n"
  obtain a where alloc: "ra_allocate (sf_alloc s) n = (Ok off, a)"
    and s': "s' = s\<lparr>sf_alloc := a, sf_bytes := pwrite off ?bs (sf_bytes s)\<rparr>"
    using run by (auto simp: spill_write_at_new_offset_def write_all_at_def split: prod.splits outcome.splits)
  have ra: "ra_inv (sf_alloc s)" using inv by (simp add: spill_inv_def)
  note a = ra_allocate_Ok [OF ra fits alloc]
  have le: "n \<le> ra_align n" using ra_align_bounds(1) ra_fits_align(2) [OF fits] by blast
  note w = fresh_write [OF inv fits alloc, of ?bs, simplified]
  have again: "take n (drop off (sf_bytes s')) = ?bs"
    using pwrite_at [of off ?bs "sf_bytes s"] w(1) by (simp add: s')
  then have "spill_read_into IoDone s' off dst n mem' = (Ok (), mem_write dst ?bs mem')"
    by (simp add: spill_read_into_def read_exact_at_def Let_def)
  moreover have "slice (mem_write dst ?bs mem') dst n = ?bs" by (rule slice_mem_write) simp
  moreover have "\<forall>x. x < dst \<or> dst + n \<le> x \<longrightarrow> mem_write dst ?bs mem' x = mem' x"
    by (simp add: mem_write_outside)
  moreover have "{off ..< off + n} \<subseteq> {off ..< off + ra_align n}" using le by auto
  then have "{off ..< off + n} \<inter> ra_live (sf_alloc s) = {}" "{off ..< off + n} \<subseteq> ra_live (sf_alloc s')"
    using a(4,5) unfolding s' by (simp_all, blast+)
  moreover have "spill_inv s'"
    using a(1,2) w(2) inv by (simp add: spill_inv_def s')
  moreover have "\<forall>q m. {q ..< q + m} \<subseteq> ra_live (sf_alloc s) \<longrightarrow> file_range s' q m = file_range s q m"
    using w(3) by (simp add: file_range_def s')
  ultimately show ?thesis by blast
qed

definition sample_spill :: spill_file where
  "sample_spill = \<lparr>sf_bytes = replicate 256 0, sf_path = ''t2'', sf_alloc = ra_new 256, sf_unlink_on_drop = True\<rparr>"

lemma sample_spill_ok: "spill_inv sample_spill" "n \<le> 128 \<Longrightarrow> ra_fits (sf_alloc sample_spill) n"
  by (simp_all add: sample_spill_def spill_inv_def ra_inv_new ra_fits_def W64_def ra_new_def ra_inv_def)

lemma sample_reserve: "ra_allocate (ra_new 256) 3 = (Ok 0, \<lparr>ra_capacity = 256, ra_offset = 64, ra_free_blocks = []\<rparr>)"
  by (simp add: ra_eval)

theorem spill_roundtrip_witness:
  "\<exists>s' mem''. spill_write_at_new_offset IoDone word_of_nat 7 3 sample_spill = (Ok 0, s')
    \<and> spill_read_into IoDone s' 0 100 3 (\<lambda>_. 0) = (Ok (), mem'') \<and> slice mem'' 100 3 = [7, 8, 9]"
proof -
  obtain s' where run: "spill_write_at_new_offset IoDone word_of_nat 7 3 sample_spill = (Ok 0, s')"
    by (simp add: spill_write_at_new_offset_def sample_spill_def sample_reserve write_all_at_def)
  have "ra_fits (sf_alloc sample_spill) 3" by (simp add: sample_spill_ok)
  moreover have "slice (word_of_nat :: nat \<Rightarrow> byte) 7 3 = [7, 8, 9]"
    by (simp add: slice_def upt_rec)
  ultimately show ?thesis
    using spill_roundtrip [OF sample_spill_ok(1) _ run, of 100 "\<lambda>_. 0"] run by auto
qed

text \<open>
  A failed write strands nothing. When the write of a new page fails after any number
  of bytes, the error is passed on, the reservation is returned (the allocator is exactly as
  before), and every spilled page's bytes are unchanged.
\<close>

theorem spill_write_failure:
  assumes inv: "spill_inv s" and fits: "ra_fits (sf_alloc s) n" and pos: "0 < n"
    and alloc: "\<exists>off a. ra_allocate (sf_alloc s) n = (Ok off, a)"
  shows "\<exists>s'. spill_write_at_new_offset (IoFail e k) mem src n s = (Err (Io e), s')
    \<and> sf_alloc s' = sf_alloc s \<and> spill_inv s'
    \<and> (\<forall>q m. {q ..< q + m} \<subseteq> ra_live (sf_alloc s) \<longrightarrow> file_range s' q m = file_range s q m)"
proof -
  obtain off a where alloc: "ra_allocate (sf_alloc s) n = (Ok off, a)" using alloc by blast
  have ra: "ra_inv (sf_alloc s)" using inv by (simp add: spill_inv_def)
  have "0 < ra_align n" using ra_align_bounds(1) [OF ra_fits_align(2) [OF fits]] pos by simp
  then have again: "ra_free a off n = sf_alloc s"
    by (rule ra.release_alloc [OF ra fits _ alloc])
  note w = fresh_write [OF inv fits alloc, of "take k (slice mem src n)", simplified]
  show ?thesis
    using w(2,3) again inv
    by (simp add: spill_write_at_new_offset_def alloc write_all_at_def spill_inv_def file_range_def)
qed

theorem spill_write_failure_witness:
  "\<exists>s'. spill_write_at_new_offset (IoFail (OsError 28) 2) word_of_nat 7 3 sample_spill = (Err (Io (OsError 28)), s')
    \<and> sf_alloc s' = ra_new 256"
proof -
  have "\<exists>off a. ra_allocate (sf_alloc sample_spill) 3 = (Ok off, a)"
    by (simp add: sample_spill_def sample_reserve)
  from spill_write_failure [OF sample_spill_ok(1) _ _ this, of "OsError 28" 2 word_of_nat 7]
  show ?thesis by (auto simp: sample_spill_ok) (auto simp: sample_spill_def)
qed

text \<open>
  What a reserved range contains. It can always be read without an error, and reads as
  whatever bytes the file holds there: zeros only where nothing was ever written. A page that is
  spilled and freed leaves its bytes, and the next cold page reserved at the same offset reads them.
\<close>

theorem spill_reserve_reads_file:
  assumes inv: "spill_inv s" and fits: "ra_fits (sf_alloc s) n"
    and w: "spill_write_at_new_offset IoDone mem src n s = (Ok off, s1)" and pos: "0 < n"
  shows "\<exists>s2 mem2. spill_reserve n (spill_free off n s1) = (Ok off, s2)
    \<and> spill_read_into IoDone s2 off dst n mem' = (Ok (), mem2) \<and> slice mem2 dst n = slice mem src n"
proof -
  let ?bs = "slice mem src n"
  obtain a where alloc: "ra_allocate (sf_alloc s) n = (Ok off, a)"
    and s1: "s1 = s\<lparr>sf_alloc := a, sf_bytes := pwrite off ?bs (sf_bytes s)\<rparr>"
    using w by (auto simp: spill_write_at_new_offset_def write_all_at_def split: prod.splits outcome.splits)
  have ra: "ra_inv (sf_alloc s)" using inv by (simp add: spill_inv_def)
  have "0 < ra_align n" using ra_align_bounds(1) [OF ra_fits_align(2) [OF fits]] pos by simp
  then have "ra_free a off n = sf_alloc s"
    by (rule ra.release_alloc [OF ra fits _ alloc])
  then have "spill_reserve n (spill_free off n s1) = (Ok off, s1)"
    by (simp add: spill_reserve_def spill_free_def s1 alloc)
  moreover have "take n (drop off (sf_bytes s1)) = ?bs"
    using pwrite_at [of off ?bs "sf_bytes s"] fresh_write(1) [OF inv fits alloc, of ?bs] by (simp add: s1)
  then have "spill_read_into IoDone s1 off dst n mem' = (Ok (), mem_write dst ?bs mem')"
    by (simp add: spill_read_into_def read_exact_at_def Let_def)
  moreover have "slice (mem_write dst ?bs mem') dst n = ?bs" by (rule slice_mem_write) simp
  ultimately show ?thesis by blast
qed

theorem spill_reserve_reads_file_witness:
  "\<exists>s1 s2 mem2. spill_write_at_new_offset IoDone word_of_nat 7 3 sample_spill = (Ok 0, s1)
    \<and> spill_reserve 3 (spill_free 0 3 s1) = (Ok 0, s2)
    \<and> spill_read_into IoDone s2 0 100 3 (\<lambda>_. 0) = (Ok (), mem2) \<and> slice mem2 100 3 = [7, 8, 9]"
proof -
  obtain s1 where run: "spill_write_at_new_offset IoDone word_of_nat 7 3 sample_spill = (Ok 0, s1)"
    by (simp add: spill_write_at_new_offset_def sample_spill_def sample_reserve write_all_at_def)
  have "ra_fits (sf_alloc sample_spill) 3" by (simp add: sample_spill_ok)
  moreover have "slice (word_of_nat :: nat \<Rightarrow> byte) 7 3 = [7, 8, 9]"
    by (simp add: slice_def upt_rec)
  ultimately show ?thesis
    using spill_reserve_reads_file [OF sample_spill_ok(1) _ run, of 100 "\<lambda>_. 0"] run by auto
qed

end
