(* ===== verification/Driver.thy ===== *)
theory Driver
  imports Errors Spill Binary64
begin

text \<open>
  What lies outside the crate, as one record of functions over an opaque world \<open>'w\<close>: the CUDA driver
  calls the code makes (\<open>src/ffi/cuda.rs\<close> declares them), the files and the command the topology is
  read from, the clock, and the outcome of file I/O. Where the code discards a status code, the
  field returns what the out-variable holds after the call.
  Every definition that reaches the driver takes this record as its first argument. A call returns
  its status code, its out-parameters and the next world. The copies to a device take their source bytes by
  value: \<open>pf_htod_async\<close> is told what the memory held at the call, which the driver may in fact read
  later, up to the end of the copy. What the code relies on of the driver is
  stated as predicates of the record where a theorem needs it; nothing is assumed of it otherwise.

  Then \<open>src/context.rs\<close> (primary contexts, guards, the registry) and \<open>src/streams.rs\<close>.
\<close>

section \<open>The platform\<close>

record 'w platform =
  pf_init :: "'w \<Rightarrow> int \<times> 'w"
  pf_ctx_retain :: "int \<Rightarrow> 'w \<Rightarrow> int \<times> u64 \<times> 'w"
  pf_ctx_release :: "int \<Rightarrow> 'w \<Rightarrow> int \<times> 'w"
  pf_ctx_set_current :: "u64 \<Rightarrow> 'w \<Rightarrow> int \<times> 'w"
  pf_ctx_push :: "u64 \<Rightarrow> 'w \<Rightarrow> int \<times> 'w"
  pf_ctx_pop :: "'w \<Rightarrow> int \<times> 'w"
  pf_stream_priority_range :: "'w \<Rightarrow> int \<times> (int \<times> int) \<times> 'w"
  pf_mem_get_info :: "'w \<Rightarrow> int \<times> (usize \<times> usize) \<times> 'w"
  pf_mem_alloc :: "usize \<Rightarrow> 'w \<Rightarrow> int \<times> u64 \<times> 'w"
  pf_mem_free :: "u64 \<Rightarrow> 'w \<Rightarrow> int \<times> 'w"
  pf_host_register :: "usize \<Rightarrow> usize \<Rightarrow> 'w \<Rightarrow> int \<times> 'w"
  pf_host_unregister :: "usize \<Rightarrow> 'w \<Rightarrow> int \<times> 'w"
  pf_htod :: "u64 \<Rightarrow> byte list \<Rightarrow> 'w \<Rightarrow> int \<times> 'w"
  pf_htod_async :: "u64 \<Rightarrow> byte list \<Rightarrow> u64 \<Rightarrow> 'w \<Rightarrow> int \<times> 'w"
  pf_dtoh_async :: "u64 \<Rightarrow> usize \<Rightarrow> u64 \<Rightarrow> 'w \<Rightarrow> int \<times> byte list \<times> 'w"
  pf_peer_async :: "u64 \<Rightarrow> u64 \<Rightarrow> u64 \<Rightarrow> u64 \<Rightarrow> usize \<Rightarrow> u64 \<Rightarrow> 'w \<Rightarrow> int \<times> 'w"
  pf_can_access_peer :: "int \<Rightarrow> int \<Rightarrow> 'w \<Rightarrow> int \<times> int \<times> 'w"
  pf_enable_peer :: "u64 \<Rightarrow> 'w \<Rightarrow> int \<times> 'w"
  pf_stream_create :: "'w \<Rightarrow> int \<times> u64 \<times> 'w"
  pf_stream_create_prio :: "int \<Rightarrow> 'w \<Rightarrow> int \<times> u64 \<times> 'w"
  pf_stream_destroy :: "u64 \<Rightarrow> 'w \<Rightarrow> int \<times> 'w"
  pf_stream_sync :: "u64 \<Rightarrow> 'w \<Rightarrow> int \<times> 'w"
  pf_stream_query :: "u64 \<Rightarrow> 'w \<Rightarrow> int \<times> 'w"
  pf_event_create :: "nat \<Rightarrow> 'w \<Rightarrow> int \<times> u64 \<times> 'w"
  pf_event_destroy :: "u64 \<Rightarrow> 'w \<Rightarrow> int \<times> 'w"
  pf_event_record :: "u64 \<Rightarrow> u64 \<Rightarrow> 'w \<Rightarrow> int \<times> 'w"
  pf_event_sync :: "u64 \<Rightarrow> 'w \<Rightarrow> int \<times> 'w"
  pf_event_query :: "u64 \<Rightarrow> 'w \<Rightarrow> int \<times> 'w"
  pf_event_elapsed :: "u64 \<Rightarrow> u64 \<Rightarrow> 'w \<Rightarrow> int \<times> real \<times> 'w"
  pf_device_name :: "int \<Rightarrow> 'w \<Rightarrow> string \<times> 'w"
  pf_total_mem :: "int \<Rightarrow> 'w \<Rightarrow> usize \<times> 'w"
  pf_capability :: "int \<Rightarrow> 'w \<Rightarrow> (int \<times> int) \<times> 'w"
  pf_attribute :: "int \<Rightarrow> int \<Rightarrow> 'w \<Rightarrow> int \<times> 'w"
  pf_numactl :: "'w \<Rightarrow> (io_error + string) \<times> 'w"
  pf_read_file :: "string \<Rightarrow> 'w \<Rightarrow> string option \<times> 'w"
  pf_mmap :: "usize \<Rightarrow> 'w \<Rightarrow> usize \<times> 'w"
  pf_munmap :: "usize \<Rightarrow> usize \<Rightarrow> 'w \<Rightarrow> int \<times> 'w"
  pf_mbind :: "usize \<Rightarrow> usize \<Rightarrow> u64 list \<Rightarrow> u64 \<Rightarrow> 'w \<Rightarrow> int \<times> 'w"
  pf_no_pin :: "'w \<Rightarrow> bool"
  pf_open :: "string \<Rightarrow> 'w \<Rightarrow> io_error option \<times> 'w"
  pf_set_len :: "string \<Rightarrow> u64 \<Rightarrow> 'w \<Rightarrow> io_error option \<times> 'w"
  pf_remove_file :: "string \<Rightarrow> 'w \<Rightarrow> int \<times> 'w"
  pf_clock :: "'w \<Rightarrow> u64 \<times> 'w"
  pf_io :: "'w \<Rightarrow> io_result \<times> 'w"

text \<open>\<open>check_cu("f", f(..))?\<close> for a call without and with an out-parameter.\<close>

definition cu_call :: "string \<Rightarrow> ('w \<Rightarrow> int \<times> 'w) \<Rightarrow> ('w, unit) op" where
  "cu_call name f w = (case f w of (rc, w') \<Rightarrow> (check_cu name rc, w'))"

definition cu_get :: "string \<Rightarrow> ('w \<Rightarrow> int \<times> 'a \<times> 'w) \<Rightarrow> ('w, 'a) op" where
  "cu_get name f w = (case f w of (rc, x, w') \<Rightarrow>
     (case check_cu name rc of Ok _ \<Rightarrow> Ok x | Err e \<Rightarrow> Err e | Panic \<Rightarrow> Panic, w'))"

text \<open>\<open>let _ = f(..)\<close>.\<close>

definition cu_ignore :: "('w \<Rightarrow> int \<times> 'w) \<Rightarrow> 'w \<Rightarrow> 'w" where
  "cu_ignore f w = snd (f w)"

text \<open>
  A value with a destructor, held for the rest of a block: \<open>release\<close> runs however the block ends.
\<close>

definition scoped :: "('s, unit) op \<Rightarrow> ('s \<Rightarrow> 's) \<Rightarrow> ('s, 'a) op \<Rightarrow> ('s, 'a) op" where
  "scoped acquire release body w =
     (case acquire w of
        (Ok _, w1) \<Rightarrow> (case body w1 of (r, w2) \<Rightarrow> (r, release w2))
      | (Err e, w1) \<Rightarrow> (Err e, w1)
      | (Panic, w1) \<Rightarrow> (Panic, w1))"

lemma cu_call_cases:
  "cu_call name f w = (Ok u, w') \<longleftrightarrow> f w = (0, w')"
  "cu_call name f w = (Err e, w') \<longleftrightarrow> (\<exists>rc. f w = (rc, w') \<and> rc \<noteq> 0 \<and> e = CudaError name rc)"
  "cu_call name f w \<noteq> (Panic, w')"
  by (auto simp: cu_call_def check_cu_def split: prod.split)

lemma cu_get_cases:
  "cu_get name f w = (Ok x, w') \<longleftrightarrow> f w = (0, x, w')"
  "cu_get name f w = (Err e, w') \<longleftrightarrow> (\<exists>rc x. f w = (rc, x, w') \<and> rc \<noteq> 0 \<and> e = CudaError name rc)"
  "cu_get name f w \<noteq> (Panic, w')"
  by (auto simp: cu_get_def check_cu_def split: prod.split)

lemma cu_run [run_simps]:
  "f w = (0, w') \<Longrightarrow> cu_call name f w = (Ok (), w')"
  "f w = (rc, w') \<Longrightarrow> rc \<noteq> 0 \<Longrightarrow> cu_call name f w = (Err (CudaError name rc), w')"
  "g w = (0, x, w') \<Longrightarrow> cu_get name g w = (Ok x, w')"
  "g w = (rc, x, w') \<Longrightarrow> rc \<noteq> 0 \<Longrightarrow> cu_get name g w = (Err (CudaError name rc), w')"
  by (simp_all add: cu_call_def cu_get_def check_cu_def)

section \<open>Primary contexts\<close>

record primary_context =
  pc_device :: int
  pc_ctx :: u64

definition pc_retain :: "'w platform \<Rightarrow> int \<Rightarrow> ('w, primary_context) op" where
  "pc_retain pf ordinal =
     bindM (cu_call ''cuInit'' (pf_init pf)) (\<lambda>_.
     bindM (cu_get ''cuDevicePrimaryCtxRetain'' (pf_ctx_retain pf ordinal)) (\<lambda>ctx.
     retM \<lparr>pc_device = ordinal, pc_ctx = ctx\<rparr>))"

definition pc_bind :: "'w platform \<Rightarrow> primary_context \<Rightarrow> ('w, unit) op" where
  "pc_bind pf c = cu_call ''cuCtxSetCurrent'' (pf_ctx_set_current pf (pc_ctx c))"

text \<open>\<open>enter\<close> pushes; the guard's \<open>Drop\<close> pops and ignores the result.\<close>

definition pc_enter :: "'w platform \<Rightarrow> primary_context \<Rightarrow> ('w, unit) op" where
  "pc_enter pf c = cu_call ''cuCtxPushCurrent_v2'' (pf_ctx_push pf (pc_ctx c))"

definition guard_drop :: "'w platform \<Rightarrow> 'w \<Rightarrow> 'w" where
  "guard_drop pf = cu_ignore (pf_ctx_pop pf)"

definition pc_drop :: "'w platform \<Rightarrow> primary_context \<Rightarrow> 'w \<Rightarrow> 'w" where
  "pc_drop pf c = cu_ignore (pf_ctx_release pf (pc_device c))"

definition drop_contexts :: "'w platform \<Rightarrow> primary_context list \<Rightarrow> 'w \<Rightarrow> 'w" where
  "drop_contexts pf cs w = fold (pc_drop pf) cs w"

text \<open>
  The loop of \<open>ContextRegistry::new\<close>, which also \<open>PeerMatrix::enable_all\<close> has: when a retain fails
  the contexts in the vector are dropped, in order, as the error propagates.
\<close>

fun retain_all :: "'w platform \<Rightarrow> int list \<Rightarrow> primary_context list \<Rightarrow> ('w, primary_context list) op" where
  "retain_all pf [] acc w = (Ok acc, w)"
| "retain_all pf (ord # rest) acc w =
     (case pc_retain pf ord w of
        (Ok c, w1) \<Rightarrow> retain_all pf rest (acc @ [c]) w1
      | (Err e, w1) \<Rightarrow> (Err e, drop_contexts pf acc w1)
      | (Panic, w1) \<Rightarrow> (Panic, drop_contexts pf acc w1))"

record context_registry =
  cr_contexts :: "primary_context list"

definition registry_new :: "'w platform \<Rightarrow> int list \<Rightarrow> ('w, context_registry) op" where
  "registry_new pf ordinals =
     bindM (retain_all pf ordinals []) (\<lambda>cs. retM \<lparr>cr_contexts = cs\<rparr>)"

definition registry_len :: "context_registry \<Rightarrow> usize" where
  "registry_len r = length (cr_contexts r)"

definition registry_is_empty :: "context_registry \<Rightarrow> bool" where
  "registry_is_empty r \<longleftrightarrow> cr_contexts r = []"

definition registry_get :: "context_registry \<Rightarrow> usize \<Rightarrow> ('w, primary_context) op" where
  "registry_get r idx = ok_or (vec_get (cr_contexts r) idx) (InvalidGpu idx)"

definition registry_bind :: "'w platform \<Rightarrow> context_registry \<Rightarrow> usize \<Rightarrow> ('w, unit) op" where
  "registry_bind pf r idx = bindM (registry_get r idx) (pc_bind pf)"

definition registry_enter :: "'w platform \<Rightarrow> context_registry \<Rightarrow> usize \<Rightarrow> ('w, unit) op" where
  "registry_enter pf r idx = bindM (registry_get r idx) (pc_enter pf)"

section \<open>Streams and events\<close>

definition CUDA_ERROR_NOT_READY :: int where
  "CUDA_ERROR_NOT_READY = 600"

definition CU_EVENT_DEFAULT :: nat where
  "CU_EVENT_DEFAULT = 0"

definition CU_EVENT_BLOCKING_SYNC :: nat where
  "CU_EVENT_BLOCKING_SYNC = 1"

record cuda_stream =
  cs_inner :: u64
  cs_priority :: int

definition stream_new :: "'w platform \<Rightarrow> ('w, cuda_stream) op" where
  "stream_new pf = bindM (cu_get ''cuStreamCreate'' (pf_stream_create pf))
     (\<lambda>s. retM \<lparr>cs_inner = s, cs_priority = 0\<rparr>)"

definition stream_with_priority :: "'w platform \<Rightarrow> int \<Rightarrow> ('w, cuda_stream) op" where
  "stream_with_priority pf priority =
     bindM (cu_get ''cuStreamCreateWithPriority'' (pf_stream_create_prio pf priority))
     (\<lambda>s. retM \<lparr>cs_inner = s, cs_priority = priority\<rparr>)"

definition stream_synchronize :: "'w platform \<Rightarrow> cuda_stream \<Rightarrow> ('w, unit) op" where
  "stream_synchronize pf s = cu_call ''cuStreamSynchronize'' (pf_stream_sync pf (cs_inner s))"

text \<open>
  The two queries treat status 900 as "not ready". After the check of a nonzero status the code is
  unreachable, so its \<open>unreachable!\<close> is a panic here.
\<close>

definition query_result :: "string \<Rightarrow> ('w \<Rightarrow> int \<times> 'w) \<Rightarrow> ('w, bool) op" where
  "query_result name f w = (case f w of (res, w') \<Rightarrow>
     if res = 0 then (Ok True, w')
     else if res = 900 then (Ok False, w')
     else bindM (liftM (check_cu name res)) (\<lambda>_. panicM) w')"

definition stream_query_complete :: "'w platform \<Rightarrow> cuda_stream \<Rightarrow> ('w, bool) op" where
  "stream_query_complete pf s = query_result ''cuStreamQuery'' (pf_stream_query pf (cs_inner s))"

definition stream_drop :: "'w platform \<Rightarrow> cuda_stream \<Rightarrow> 'w \<Rightarrow> 'w" where
  "stream_drop pf s w = (if cs_inner s \<noteq> 0 then cu_ignore (pf_stream_destroy pf (cs_inner s)) w else w)"

record cuda_event =
  ce_inner :: u64

definition event_new_blocking :: "'w platform \<Rightarrow> ('w, cuda_event) op" where
  "event_new_blocking pf = bindM (cu_get ''cuEventCreate'' (pf_event_create pf CU_EVENT_BLOCKING_SYNC))
     (\<lambda>e. retM \<lparr>ce_inner = e\<rparr>)"

definition event_new_default :: "'w platform \<Rightarrow> ('w, cuda_event) op" where
  "event_new_default pf = bindM (cu_get ''cuEventCreate'' (pf_event_create pf CU_EVENT_DEFAULT))
     (\<lambda>e. retM \<lparr>ce_inner = e\<rparr>)"

definition event_record :: "'w platform \<Rightarrow> cuda_event \<Rightarrow> cuda_stream \<Rightarrow> ('w, unit) op" where
  "event_record pf e s = cu_call ''cuEventRecord'' (pf_event_record pf (ce_inner e) (cs_inner s))"

definition event_synchronize :: "'w platform \<Rightarrow> cuda_event \<Rightarrow> ('w, unit) op" where
  "event_synchronize pf e = cu_call ''cuEventSynchronize'' (pf_event_sync pf (ce_inner e))"

definition event_query :: "'w platform \<Rightarrow> cuda_event \<Rightarrow> ('w, bool) op" where
  "event_query pf e = query_result ''cuEventQuery'' (pf_event_query pf (ce_inner e))"

definition event_elapsed :: "'w platform \<Rightarrow> cuda_event \<Rightarrow> cuda_event \<Rightarrow> ('w, real) op" where
  "event_elapsed pf e other =
     cu_get ''cuEventElapsedTime'' (pf_event_elapsed pf (ce_inner other) (ce_inner e))"

definition event_drop :: "'w platform \<Rightarrow> cuda_event \<Rightarrow> 'w \<Rightarrow> 'w" where
  "event_drop pf e w = (if ce_inner e \<noteq> 0 then cu_ignore (pf_event_destroy pf (ce_inner e)) w else w)"

record stream_pool =
  st_compute :: "cuda_stream list"
  st_prefetch :: "cuda_stream list"
  st_len :: usize

definition highest_priority :: "'w platform \<Rightarrow> ('w, int) op" where
  "highest_priority pf =
     bindM (cu_get ''cuCtxGetStreamPriorityRange'' (pf_stream_priority_range pf))
     (\<lambda>(least, greatest). retM greatest)"

text \<open>
  One round of the loop of \<open>StreamPool::new\<close>, inside the guard of GPU \<open>idx\<close>; the accumulators are
  the two vectors, which keep what was pushed before a failure.
\<close>

definition pool_round ::
  "'w platform \<Rightarrow> ('w \<times> cuda_stream list \<times> cuda_stream list, unit) op" where
  "pool_round pf = (\<lambda>(w, compute, prefetch).
     case stream_new pf w of
       (Ok s, w1) \<Rightarrow>
         (case bindM (highest_priority pf) (stream_with_priority pf) w1 of
            (Ok p, w2) \<Rightarrow> (Ok (), (w2, compute @ [s], prefetch @ [p]))
          | (Err e, w2) \<Rightarrow> (Err e, (w2, compute @ [s], prefetch))
          | (Panic, w2) \<Rightarrow> (Panic, (w2, compute @ [s], prefetch)))
     | (Err e, w1) \<Rightarrow> (Err e, (w1, compute, prefetch))
     | (Panic, w1) \<Rightarrow> (Panic, (w1, compute, prefetch)))"

definition on_world :: "('w, 'a) op \<Rightarrow> ('w \<times> 'b, 'a) op" where
  "on_world m = (\<lambda>(w, b). case m w of (r, w') \<Rightarrow> (r, (w', b)))"

definition pool_gpu :: "'w platform \<Rightarrow> context_registry \<Rightarrow> usize \<Rightarrow>
    ('w \<times> cuda_stream list \<times> cuda_stream list, unit) op" where
  "pool_gpu pf contexts idx =
     scoped (on_world (registry_enter pf contexts idx)) (\<lambda>(w, b). (guard_drop pf w, b)) (pool_round pf)"

definition drop_streams :: "'w platform \<Rightarrow> cuda_stream list \<Rightarrow> 'w \<Rightarrow> 'w" where
  "drop_streams pf ss w = fold (stream_drop pf) ss w"

definition stream_pool_new :: "'w platform \<Rightarrow> context_registry \<Rightarrow> ('w, stream_pool) op" where
  "stream_pool_new pf contexts w =
     (let num_gpus = registry_len contexts in
      case forM [0 ..< num_gpus] (pool_gpu pf contexts) (w, [], []) of
        (Ok _, (w1, compute, prefetch)) \<Rightarrow>
          (Ok \<lparr>st_compute = compute, st_prefetch = prefetch, st_len = num_gpus\<rparr>, w1)
      | (Err e, (w1, compute, prefetch)) \<Rightarrow>
          (Err e, drop_streams pf compute (drop_streams pf prefetch w1))
      | (Panic, (w1, compute, prefetch)) \<Rightarrow>
          (Panic, drop_streams pf compute (drop_streams pf prefetch w1)))"

text \<open>\<open>StreamPool::sync\<close>; the indices panic past the end.\<close>

definition stream_pool_sync :: "'w platform \<Rightarrow> stream_pool \<Rightarrow> usize \<Rightarrow> ('w, unit) op" where
  "stream_pool_sync pf p idx =
     bindM (bindM (unwrapM (vec_get (st_compute p) idx)) (stream_synchronize pf)) (\<lambda>_.
     bindM (unwrapM (vec_get (st_prefetch p) idx)) (stream_synchronize pf))"

section \<open>What is relied on of the driver\<close>

text \<open>Retain and release move the reference count of a device's primary context.\<close>

definition counts_references :: "'w platform \<Rightarrow> ('w \<Rightarrow> int \<Rightarrow> nat) \<Rightarrow> bool" where
  "counts_references pf refs \<longleftrightarrow>
     (\<forall>w rc w'. pf_init pf w = (rc, w') \<longrightarrow> refs w' = refs w)
   \<and> (\<forall>d w rc c w'. pf_ctx_retain pf d w = (rc, c, w') \<longrightarrow>
        refs w' = (if rc = 0 then (refs w)(d := refs w d + 1) else refs w))
   \<and> (\<forall>d w rc w'. pf_ctx_release pf d w = (rc, w') \<longrightarrow> 0 < refs w d \<longrightarrow>
        refs w' = (refs w)(d := refs w d - 1))"

text \<open>
  The calling thread has a stack of current contexts, and a stream belongs for good to the context
  that was current when it was created; a new stream has a new handle.
\<close>

definition streams_in_context :: "'w platform \<Rightarrow> ('w \<Rightarrow> u64 list) \<Rightarrow> ('w \<Rightarrow> u64 \<Rightarrow> u64 option) \<Rightarrow> bool" where
  "streams_in_context pf stack owner \<longleftrightarrow>
     (\<forall>c w rc w'. pf_ctx_push pf c w = (rc, w') \<longrightarrow>
        owner w' = owner w \<and> stack w' = (if rc = 0 then c # stack w else stack w))
   \<and> (\<forall>w rc w'. pf_ctx_pop pf w = (rc, w') \<longrightarrow> owner w' = owner w \<and> stack w' = tl (stack w))
   \<and> (\<forall>w rc s w'. pf_stream_create pf w = (rc, s, w') \<longrightarrow> stack w' = stack w
        \<and> (if rc = 0 then owner w s = None \<and> owner w' = (owner w)(s \<mapsto> hd (stack w)) else owner w' = owner w))
   \<and> (\<forall>p w rc s w'. pf_stream_create_prio pf p w = (rc, s, w') \<longrightarrow> stack w' = stack w
        \<and> (if rc = 0 then owner w s = None \<and> owner w' = (owner w)(s \<mapsto> hd (stack w)) else owner w' = owner w))
   \<and> (\<forall>w rc r w'. pf_stream_priority_range pf w = (rc, r, w') \<longrightarrow> stack w' = stack w \<and> owner w' = owner w)
   \<and> (\<forall>s w rc w'. pf_stream_destroy pf s w = (rc, w') \<longrightarrow> stack w' = stack w)"

text \<open>A platform on which every call succeeds and does nothing; the witnesses refine it.\<close>

definition idle_platform :: "'w platform" where
  "idle_platform = \<lparr>
     pf_init = (\<lambda>w. (0, w)), pf_ctx_retain = (\<lambda>d w. (0, 1, w)), pf_ctx_release = (\<lambda>d w. (0, w)),
     pf_ctx_set_current = (\<lambda>c w. (0, w)), pf_ctx_push = (\<lambda>c w. (0, w)), pf_ctx_pop = (\<lambda>w. (0, w)),
     pf_stream_priority_range = (\<lambda>w. (0, (0, -1), w)), pf_mem_get_info = (\<lambda>w. (0, (0, 0), w)),
     pf_mem_alloc = (\<lambda>n w. (0, 1, w)), pf_mem_free = (\<lambda>p w. (0, w)),
     pf_host_register = (\<lambda>p n w. (0, w)), pf_host_unregister = (\<lambda>p w. (0, w)),
     pf_htod = (\<lambda>p bs w. (0, w)), pf_htod_async = (\<lambda>p bs s w. (0, w)),
     pf_dtoh_async = (\<lambda>p n s w. (0, replicate n 0, w)),
     pf_peer_async = (\<lambda>a b c d n s w. (0, w)), pf_can_access_peer = (\<lambda>a b w. (0, 1, w)),
     pf_enable_peer = (\<lambda>c w. (0, w)), pf_stream_create = (\<lambda>w. (0, 1, w)),
     pf_stream_create_prio = (\<lambda>p w. (0, 1, w)), pf_stream_destroy = (\<lambda>s w. (0, w)),
     pf_stream_sync = (\<lambda>s w. (0, w)), pf_stream_query = (\<lambda>s w. (0, w)),
     pf_event_create = (\<lambda>k w. (0, 1, w)), pf_event_destroy = (\<lambda>e w. (0, w)),
     pf_event_record = (\<lambda>e s w. (0, w)), pf_event_sync = (\<lambda>e w. (0, w)), pf_event_query = (\<lambda>e w. (0, w)),
     pf_event_elapsed = (\<lambda>a b w. (0, 0, w)), pf_device_name = (\<lambda>d w. ([], w)),
     pf_total_mem = (\<lambda>d w. (0, w)), pf_capability = (\<lambda>d w. ((0, 0), w)), pf_attribute = (\<lambda>a d w. (0, w)),
     pf_numactl = (\<lambda>w. (Inl (OsError 2), w)), pf_read_file = (\<lambda>f w. (None, w)),
     pf_mmap = (\<lambda>n w. (65536, w)), pf_munmap = (\<lambda>p n w. (0, w)), pf_mbind = (\<lambda>p n m k w. (0, w)),
     pf_no_pin = (\<lambda>w. False), pf_open = (\<lambda>f w. (None, w)), pf_set_len = (\<lambda>f n w. (None, w)),
     pf_remove_file = (\<lambda>f w. (0, w)), pf_clock = (\<lambda>w. (0, w)), pf_io = (\<lambda>w. (IoDone, w))\<rparr>"

section \<open>Reference counts\<close>

lemma pc_retain_refs:
  assumes "counts_references pf refs"
  shows "pc_retain pf d w = (Ok c, w') \<Longrightarrow> pc_device c = d \<and> refs w' = (refs w)(d := refs w d + 1)"
    and "pc_retain pf d w = (Err e, w') \<Longrightarrow> refs w' = refs w"
    and "pc_retain pf d w \<noteq> (Panic, w')"
proof -
  obtain rc w1 where init: "pf_init pf w = (rc, w1)" by force
  obtain rc2 x w2 where ret: "pf_ctx_retain pf d w1 = (rc2, x, w2)" by (cases "pf_ctx_retain pf d w1")
  have "refs w1 = refs w" and "refs w2 = (if rc2 = 0 then (refs w1)(d := refs w1 d + 1) else refs w1)"
    using assms init ret unfolding counts_references_def by blast+
  moreover have "pc_retain pf d w = (if rc \<noteq> 0 then (Err (CudaError ''cuInit'' rc), w1)
      else if rc2 \<noteq> 0 then (Err (CudaError ''cuDevicePrimaryCtxRetain'' rc2), w2)
      else (Ok \<lparr>pc_device = d, pc_ctx = x\<rparr>, w2))"
    using init ret by (simp add: pc_retain_def run_simps bindM_def cu_call_def cu_get_def check_cu_def)
  ultimately show "pc_retain pf d w = (Ok c, w') \<Longrightarrow> pc_device c = d \<and> refs w' = (refs w)(d := refs w d + 1)"
    and "pc_retain pf d w = (Err e, w') \<Longrightarrow> refs w' = refs w"
    and "pc_retain pf d w \<noteq> (Panic, w')"
    by (auto split: if_splits)
qed

lemma drop_contexts_refs:
  assumes "counts_references pf refs"
  shows "(\<forall>d. count_list (map pc_device cs) d \<le> refs w d) \<Longrightarrow>
    refs (drop_contexts pf cs w) = (\<lambda>d. refs w d - count_list (map pc_device cs) d)"
proof (induction cs arbitrary: w)
  case Nil
  then show ?case by (simp add: drop_contexts_def)
next
  case (Cons c cs)
  define w1 where "w1 = pc_drop pf c w"
  have pos: "0 < refs w (pc_device c)" using Cons.prems [rule_format, of "pc_device c"] by simp
  obtain rc w2 where rel: "pf_ctx_release pf (pc_device c) w = (rc, w2)" by force
  have "\<forall>d w rc w'. pf_ctx_release pf d w = (rc, w') \<longrightarrow> 0 < refs w d \<longrightarrow>
        refs w' = (refs w)(d := refs w d - 1)"
    using assms by (simp add: counts_references_def)
  with rel pos have w1: "refs w1 = (refs w)(pc_device c := refs w (pc_device c) - 1)"
    by (simp add: w1_def pc_drop_def cu_ignore_def)
  have "\<forall>d. count_list (map pc_device cs) d \<le> refs w1 d"
  proof
    fix d
    show "count_list (map pc_device cs) d \<le> refs w1 d"
      using Cons.prems [rule_format, of d] by (auto simp: w1 split: if_splits)
  qed
  from Cons.IH [OF this] have "refs (drop_contexts pf cs w1) = (\<lambda>d. refs w1 d - count_list (map pc_device cs) d)" .
  moreover have "drop_contexts pf (c # cs) w = drop_contexts pf cs w1"
    by (simp add: drop_contexts_def w1_def)
  ultimately show ?case by (auto simp: w1)
qed

lemma retain_all_refs:
  assumes docs: "counts_references pf refs"
  shows "retain_all pf ords acc w = (r, w') \<Longrightarrow>
    (\<forall>d. count_list (map pc_device acc) d \<le> refs w d) \<Longrightarrow>
    (case r of
       Ok cs \<Rightarrow> map pc_device cs = map pc_device acc @ ords \<and> refs w' = (\<lambda>d. refs w d + count_list ords d)
     | Err e \<Rightarrow> refs w' = (\<lambda>d. refs w d - count_list (map pc_device acc) d)
     | Panic \<Rightarrow> False)"
proof (induction ords arbitrary: acc w)
  case Nil
  then show ?case by auto
next
  case (Cons d ords)
  obtain r1 w1 where step: "pc_retain pf d w = (r1, w1)" by force
  show ?case
  proof (cases r1)
    case (Ok c)
    note refs = pc_retain_refs(1) [OF docs step [unfolded Ok]]
    have run: "retain_all pf ords (acc @ [c]) w1 = (r, w')"
      using Cons.prems(1) step Ok by simp
    have le: "\<forall>x. count_list (map pc_device (acc @ [c])) x \<le> refs w1 x"
      using Cons.prems(2) refs by simp
    show ?thesis
      using Cons.IH [OF run le] refs by (cases r) auto
  next
    case (Err e)
    then have "r = Err e" and w': "w' = drop_contexts pf acc w1" using Cons.prems(1) step by simp_all
    moreover have "refs w1 = refs w" using pc_retain_refs(2) [OF docs] step Err by blast
    ultimately show ?thesis
      using drop_contexts_refs [OF docs, of acc w1] Cons.prems(2) by simp
  next
    case Panic
    then show ?thesis using pc_retain_refs(3) [OF docs] step by blast
  qed
qed

text \<open>
  The registry owns exactly one reference per listed device. When it is built, each
  device's count has grown by its number of occurrences and the contexts are in the order of the
  ordinals; when any retain fails, every reference taken before is given back, so the counts are as
  they were; and dropping a registry restores the counts.
\<close>

theorem registry_references:
  assumes docs: "counts_references pf refs" and run: "registry_new pf ordinals w = (r, w')"
  shows "(\<forall>reg. r = Ok reg \<longrightarrow> map pc_device (cr_contexts reg) = ordinals
       \<and> refs w' = (\<lambda>d. refs w d + count_list ordinals d)
       \<and> refs (drop_contexts pf (cr_contexts reg) w') = refs w)
    \<and> (\<forall>e. r = Err e \<longrightarrow> refs w' = refs w) \<and> r \<noteq> Panic"
proof -
  obtain q where q: "retain_all pf ordinals [] w = (q, w')"
    and r: "r = (case q of Ok cs \<Rightarrow> Ok \<lparr>cr_contexts = cs\<rparr> | Err e \<Rightarrow> Err e | Panic \<Rightarrow> Panic)"
    using run by (auto simp: registry_new_def bindM_def retM_def split: prod.splits outcome.splits)
  note a = retain_all_refs [OF docs q]
  show ?thesis
  proof (cases q)
    case (Ok cs)
    with a have dev: "map pc_device cs = ordinals" and refs: "refs w' = (\<lambda>d. refs w d + count_list ordinals d)"
      by simp_all
    then have "refs (drop_contexts pf cs w') = (\<lambda>d. refs w' d - count_list ordinals d)"
      using drop_contexts_refs [OF docs, of cs w'] by simp
    with dev refs Ok r show ?thesis by simp
  qed (use a r in simp_all)
qed

text \<open>A driver that counts references and refuses device 9.\<close>

definition counting_platform :: "(int \<Rightarrow> nat) platform" where
  "counting_platform = idle_platform\<lparr>
     pf_ctx_retain := (\<lambda>d w. if d = 9 then (101, 0, w) else (0, 7, w(d := w d + 1))),
     pf_ctx_release := (\<lambda>d w. (0, w(d := w d - 1)))\<rparr>"

lemma counting_platform_docs: "counts_references counting_platform (\<lambda>w. w)"
  by (auto simp: counts_references_def counting_platform_def idle_platform_def split: if_splits)

theorem registry_references_witness:
  "fst (registry_new counting_platform [0, 1, 9] (\<lambda>_. 0)) = Err (CudaError ''cuDevicePrimaryCtxRetain'' 101)
    \<and> snd (registry_new counting_platform [0, 1, 9] (\<lambda>_. 0)) = (\<lambda>_. 0)"
proof -
  obtain r w' where run: "registry_new counting_platform [0, 1, 9] (\<lambda>_. 0) = (r, w')" by force
  have "fst (registry_new counting_platform [0, 1, 9] (\<lambda>_. 0)) = Err (CudaError ''cuDevicePrimaryCtxRetain'' 101)"
    by (simp add: registry_new_def bindM_def pc_retain_def counting_platform_def idle_platform_def
        cu_call_def cu_get_def check_cu_def retM_def)
  with registry_references [OF counting_platform_docs run] run show ?thesis by auto
qed

section \<open>Streams belong to their GPU\<close>

lemma streams_in_contextD:
  assumes "streams_in_context pf stack owner"
  shows "pf_ctx_push pf c w = (rc, w') \<Longrightarrow>
      owner w' = owner w \<and> stack w' = (if rc = 0 then c # stack w else stack w)"
    and "pf_ctx_pop pf w = (rc, w') \<Longrightarrow> owner w' = owner w \<and> stack w' = tl (stack w)"
    and "pf_stream_create pf w = (rc, s, w') \<Longrightarrow> stack w' = stack w
        \<and> (if rc = 0 then owner w s = None \<and> owner w' = (owner w)(s \<mapsto> hd (stack w)) else owner w' = owner w)"
    and "pf_stream_create_prio pf p w = (rc, s, w') \<Longrightarrow> stack w' = stack w
        \<and> (if rc = 0 then owner w s = None \<and> owner w' = (owner w)(s \<mapsto> hd (stack w)) else owner w' = owner w)"
    and "pf_stream_priority_range pf w = (rc, q, w') \<Longrightarrow> stack w' = stack w \<and> owner w' = owner w"
    and "pf_stream_destroy pf s w = (rc, w') \<Longrightarrow> stack w' = stack w"
proof -
  note docs = assms [unfolded streams_in_context_def]
  show "pf_ctx_push pf c w = (rc, w') \<Longrightarrow>
      owner w' = owner w \<and> stack w' = (if rc = 0 then c # stack w else stack w)"
    by (rule conjunct1 [OF docs, rule_format])
  show "pf_ctx_pop pf w = (rc, w') \<Longrightarrow> owner w' = owner w \<and> stack w' = tl (stack w)"
    by (rule conjunct1 [OF conjunct2 [OF docs], rule_format])
  show "pf_stream_create pf w = (rc, s, w') \<Longrightarrow> stack w' = stack w
        \<and> (if rc = 0 then owner w s = None \<and> owner w' = (owner w)(s \<mapsto> hd (stack w)) else owner w' = owner w)"
    by (rule conjunct1 [OF conjunct2 [OF conjunct2 [OF docs]], rule_format])
  show "pf_stream_create_prio pf p w = (rc, s, w') \<Longrightarrow> stack w' = stack w
        \<and> (if rc = 0 then owner w s = None \<and> owner w' = (owner w)(s \<mapsto> hd (stack w)) else owner w' = owner w)"
    by (rule conjunct1 [OF conjunct2 [OF conjunct2 [OF conjunct2 [OF docs]]], rule_format])
  show "pf_stream_priority_range pf w = (rc, q, w') \<Longrightarrow> stack w' = stack w \<and> owner w' = owner w"
    by (rule conjunct1 [OF conjunct2 [OF conjunct2 [OF conjunct2 [OF conjunct2 [OF docs]]]], rule_format])
  show "pf_stream_destroy pf s w = (rc, w') \<Longrightarrow> stack w' = stack w"
    by (rule conjunct2 [OF conjunct2 [OF conjunct2 [OF conjunct2 [OF conjunct2 [OF docs]]]], rule_format])
qed

text \<open>\<open>grows o1 o2\<close>: no stream changes its owner.\<close>

definition grows :: "(u64 \<Rightarrow> u64 option) \<Rightarrow> (u64 \<Rightarrow> u64 option) \<Rightarrow> bool" where
  "grows o1 o2 \<longleftrightarrow> (\<forall>s c. o1 s = Some c \<longrightarrow> o2 s = Some c)"

lemma grows_trans: "grows a b \<Longrightarrow> grows b c \<Longrightarrow> grows a c"
  by (simp add: grows_def)

lemma pool_round_ok:
  assumes docs: "streams_in_context pf stack owner"
    and run: "pool_round pf (w, compute, prefetch) = (r, (w', compute', prefetch'))"
  shows "stack w' = stack w \<and> r \<noteq> Panic
    \<and> (\<forall>u. r = Ok u \<longrightarrow> (\<exists>s p. compute' = compute @ [s] \<and> prefetch' = prefetch @ [p] \<and> grows (owner w) (owner w')
         \<and> owner w' (cs_inner s) = Some (hd (stack w)) \<and> owner w' (cs_inner p) = Some (hd (stack w))))"
proof -
  obtain rc s w1 where c: "pf_stream_create pf w = (rc, s, w1)" by (cases "pf_stream_create pf w")
  note d1 = streams_in_contextD(3) [OF docs c]
  show ?thesis
  proof (cases "rc = 0")
    case False
    with run c d1 show ?thesis
      by (auto simp: pool_round_def stream_new_def bindM_def cu_get_def check_cu_def)
  next
    case rc: True
    obtain rc2 l g w2 where q: "pf_stream_priority_range pf w1 = (rc2, (l, g), w2)"
      by (cases "pf_stream_priority_range pf w1") auto
    note d2 = streams_in_contextD(5) [OF docs q]
    show ?thesis
    proof (cases "rc2 = 0")
      case False
      with run rc c q d1 d2 show ?thesis
        by (auto simp: pool_round_def stream_new_def highest_priority_def bindM_def cu_get_def check_cu_def retM_def)
    next
      case rc2: True
      obtain rc3 p w3 where h: "pf_stream_create_prio pf g w2 = (rc3, p, w3)"
        by (cases "pf_stream_create_prio pf g w2")
      note d3 = streams_in_contextD(4) [OF docs h]
      show ?thesis
      proof (cases "rc3 = 0")
        case False
        with run rc rc2 c q h d1 d2 d3 show ?thesis
          by (auto simp: pool_round_def stream_new_def highest_priority_def stream_with_priority_def
              bindM_def cu_get_def check_cu_def retM_def)
      next
        case rc3: True
        have "r = Ok ()" "w' = w3" "compute' = compute @ [\<lparr>cs_inner = s, cs_priority = 0\<rparr>]"
          "prefetch' = prefetch @ [\<lparr>cs_inner = p, cs_priority = g\<rparr>]"
          using run rc rc2 rc3 c q h
          by (auto simp: pool_round_def stream_new_def highest_priority_def stream_with_priority_def
              bindM_def cu_get_def check_cu_def retM_def)
        moreover have "owner w3 = (owner w)(s \<mapsto> hd (stack w), p \<mapsto> hd (stack w))" "s \<noteq> p"
          "owner w s = None" "owner w p = None" "stack w3 = stack w"
          using d1 d2 d3 rc rc3 by (auto split: if_splits)
        ultimately show ?thesis by (auto simp: grows_def)
      qed
    qed
  qed
qed

lemma pool_gpu_ok:
  assumes docs: "streams_in_context pf stack owner"
    and run: "pool_gpu pf contexts idx (w, compute, prefetch) = (r, (w', compute', prefetch'))"
  shows "stack w' = stack w \<and> r \<noteq> Panic
    \<and> (\<forall>u. r = Ok u \<longrightarrow> (\<exists>s p c. compute' = compute @ [s] \<and> prefetch' = prefetch @ [p] \<and> grows (owner w) (owner w')
         \<and> idx < registry_len contexts \<and> c = cr_contexts contexts ! idx
         \<and> owner w' (cs_inner s) = Some (pc_ctx c) \<and> owner w' (cs_inner p) = Some (pc_ctx c)))"
proof (cases "vec_get (cr_contexts contexts) idx")
  case None
  with run show ?thesis
    by (auto simp: pool_gpu_def scoped_def on_world_def registry_enter_def registry_get_def run_simps bindM_def)
next
  case (Some c)
  obtain rc w1 where push: "pf_ctx_push pf (pc_ctx c) w = (rc, w1)" by force
  note d1 = streams_in_contextD(1) [OF docs push]
  have enter: "registry_enter pf contexts idx w =
      (if rc = 0 then (Ok (), w1) else (Err (CudaError ''cuCtxPushCurrent_v2'' rc), w1))"
    using Some push by (simp add: registry_enter_def registry_get_def run_simps bindM_def pc_enter_def
        cu_call_def check_cu_def)
  show ?thesis
  proof (cases "rc = 0")
    case False
    with run enter d1 show ?thesis by (auto simp: pool_gpu_def scoped_def on_world_def)
  next
    case rc: True
    obtain q w2 c2 p2 where body: "pool_round pf (w1, compute, prefetch) = (q, (w2, c2, p2))"
      by (metis prod_cases4)
    obtain rc2 w3 where pop: "pf_ctx_pop pf w2 = (rc2, w3)" by force
    have res: "r = q" "w' = w3" "compute' = c2" "prefetch' = p2"
      using run enter rc body pop
      by (auto simp: pool_gpu_def scoped_def on_world_def guard_drop_def cu_ignore_def)
    have st: "stack w1 = pc_ctx c # stack w" "owner w1 = owner w" using d1 rc by simp_all
    note b = pool_round_ok [OF docs body]
    note d2 = streams_in_contextD(2) [OF docs pop]
    have "idx < registry_len contexts \<and> c = cr_contexts contexts ! idx"
      using Some by (simp add: vec_get_Some registry_len_def)
    with b d2 st show ?thesis unfolding res by auto
  qed
qed

lemma pool_loop_ok:
  assumes docs: "streams_in_context pf stack owner"
  shows "forM [0 ..< n] (pool_gpu pf contexts) (w, [], []) = (r, (w', compute, prefetch)) \<Longrightarrow>
    stack w' = stack w \<and> r \<noteq> Panic
    \<and> (\<forall>u. r = Ok u \<longrightarrow> length compute = n \<and> length prefetch = n
       \<and> (\<forall>i < n. i < registry_len contexts
            \<and> owner w' (cs_inner (compute ! i)) = Some (pc_ctx (cr_contexts contexts ! i))
            \<and> owner w' (cs_inner (prefetch ! i)) = Some (pc_ctx (cr_contexts contexts ! i))))"
proof (induction n arbitrary: r w' compute prefetch)
  case 0
  then show ?case by (auto simp: run_simps)
next
  case (Suc n)
  obtain q w1 c1 p1 where first: "forM [0 ..< n] (pool_gpu pf contexts) (w, [], []) = (q, (w1, c1, p1))"
    by (metis prod_cases4)
  note IH = Suc.IH [OF first]
  have run: "forM ([0 ..< n] @ [n]) (pool_gpu pf contexts) (w, [], []) = (r, (w', compute, prefetch))"
    using Suc.prems by simp
  show ?case
  proof (cases q)
    case (Ok u)
    obtain q2 w2 c2 p2 where last: "pool_gpu pf contexts n (w1, c1, p1) = (q2, (w2, c2, p2))"
      by (metis prod_cases4)
    have res: "r = q2" "w' = w2" "compute = c2" "prefetch = p2"
      using run unfolding forM_append bindM_def first Ok
      by (auto simp: bindM_def last retM_def split: outcome.splits)
    note g = pool_gpu_ok [OF docs last]
    show ?thesis
    proof (intro conjI allI impI)
      show "stack w' = stack w" "r \<noteq> Panic" using g IH by (simp_all add: res)
      fix v assume "r = Ok v"
      with g obtain s p where sp: "c2 = c1 @ [s]" "p2 = p1 @ [p]" "grows (owner w1) (owner w2)"
        "n < registry_len contexts" "owner w2 (cs_inner s) = Some (pc_ctx (cr_contexts contexts ! n))"
        "owner w2 (cs_inner p) = Some (pc_ctx (cr_contexts contexts ! n))"
        unfolding res by blast
      note I = conjunct2 [OF conjunct2 [OF IH], rule_format, OF Ok]
      show "length compute = Suc n" "length prefetch = Suc n" using I sp by (simp_all add: res)
      fix i assume "i < Suc n"
      show "i < registry_len contexts"
        "owner w' (cs_inner (compute ! i)) = Some (pc_ctx (cr_contexts contexts ! i))"
        "owner w' (cs_inner (prefetch ! i)) = Some (pc_ctx (cr_contexts contexts ! i))"
        using I sp \<open>i < Suc n\<close> by (auto simp: res nth_append less_Suc_eq grows_def)
    qed
  next
    case (Err e)
    with run IH show ?thesis unfolding forM_append bindM_def first by auto
  next
    case Panic
    with IH show ?thesis by simp
  qed
qed

lemma drop_streams_stack:
  assumes "streams_in_context pf stack owner"
  shows "stack (drop_streams pf ss w) = stack w"
proof (induction ss arbitrary: w)
  case (Cons s ss)
  obtain rc w1 where "pf_stream_destroy pf (cs_inner s) w = (rc, w1)" by force
  with streams_in_contextD(6) [OF assms this] Cons.IH show ?case
    by (simp add: drop_streams_def stream_drop_def cu_ignore_def)
qed (simp add: drop_streams_def)

text \<open>
  The pool creates one compute and one prefetch stream per GPU, each inside that GPU's
  own context, in the order of the registry; and whether it succeeds or fails at any call, the
  stack of current contexts of the calling thread is afterwards as before.
\<close>

theorem stream_pool_in_own_context:
  assumes docs: "streams_in_context pf stack owner" and run: "stream_pool_new pf contexts w = (r, w')"
  shows "stack w' = stack w \<and> r \<noteq> Panic
    \<and> (\<forall>pool. r = Ok pool \<longrightarrow>
         st_len pool = registry_len contexts
       \<and> length (st_compute pool) = registry_len contexts \<and> length (st_prefetch pool) = registry_len contexts
       \<and> (\<forall>i < registry_len contexts.
            owner w' (cs_inner (st_compute pool ! i)) = Some (pc_ctx (cr_contexts contexts ! i))
          \<and> owner w' (cs_inner (st_prefetch pool ! i)) = Some (pc_ctx (cr_contexts contexts ! i))))"
proof -
  obtain q w1 compute prefetch
    where loop: "forM [0 ..< registry_len contexts] (pool_gpu pf contexts) (w, [], []) = (q, (w1, compute, prefetch))"
    by (metis prod_cases4)
  note l = pool_loop_ok [OF docs loop]
  show ?thesis
  proof (cases q)
    case (Ok u)
    with run loop have "r = Ok \<lparr>st_compute = compute, st_prefetch = prefetch, st_len = registry_len contexts\<rparr>" "w' = w1"
      by (auto simp: stream_pool_new_def Let_def)
    with l Ok show ?thesis by auto
  next
    case (Err e)
    with run loop have "r = Err e" "w' = drop_streams pf compute (drop_streams pf prefetch w1)"
      by (auto simp: stream_pool_new_def Let_def)
    with l show ?thesis by (simp add: drop_streams_stack [OF docs])
  qed (use l in simp)
qed

text \<open>A driver with a context stack, numbered streams, and their owners.\<close>

definition stream_platform :: "(u64 list \<times> (u64 \<Rightarrow> u64 option) \<times> u64) platform" where
  "stream_platform = idle_platform\<lparr>
     pf_ctx_push := (\<lambda>c (st, ow, n). (0, (c # st, ow, n))),
     pf_ctx_pop := (\<lambda>(st, ow, n). (0, (tl st, ow, n))),
     pf_stream_create := (\<lambda>(st, ow, n). if ow n = None then (0, n, (st, ow(n \<mapsto> hd st), n + 1)) else (2, 0, (st, ow, n))),
     pf_stream_create_prio := (\<lambda>p (st, ow, n). if ow n = None then (0, n, (st, ow(n \<mapsto> hd st), n + 1)) else (2, 0, (st, ow, n)))\<rparr>"

lemma stream_platform_docs: "streams_in_context stream_platform fst (\<lambda>w. fst (snd w))"
  by (auto simp: streams_in_context_def stream_platform_def idle_platform_def split: if_splits)

definition two_contexts :: context_registry where
  "two_contexts = \<lparr>cr_contexts = [\<lparr>pc_device = 0, pc_ctx = 70\<rparr>, \<lparr>pc_device = 1, pc_ctx = 71\<rparr>]\<rparr>"

theorem stream_pool_in_own_context_witness:
  "\<exists>pool w'. stream_pool_new stream_platform two_contexts ([9], Map.empty, 1) = (Ok pool, w')
    \<and> fst w' = [9] \<and> fst (snd w') (cs_inner (st_compute pool ! 1)) = Some 71"
proof -
  obtain pool w' where run: "stream_pool_new stream_platform two_contexts ([9], Map.empty, 1) = (Ok pool, w')"
    by (simp add: stream_pool_new_def Let_def two_contexts_def registry_len_def upt_rec pool_gpu_def scoped_def
        on_world_def registry_enter_def registry_get_def bindM_def vec_get_def ok_or_def retM_def pc_enter_def
        cu_call_def cu_get_def check_cu_def stream_platform_def idle_platform_def pool_round_def stream_new_def
        highest_priority_def stream_with_priority_def guard_drop_def cu_ignore_def)
  from stream_pool_in_own_context [OF stream_platform_docs run] show ?thesis
    using run by (auto simp: two_contexts_def registry_len_def)
qed

section \<open>Queries\<close>

text \<open>
  The two completion queries answer true for status 0 and false for status 900 only.
  Every other status is an error, and the driver's "not ready" status, which \<open>src/ffi/cuda.rs\<close>
  declares as 600, is among them: asking whether unfinished work is done fails. They never panic.
\<close>

theorem query_not_ready_is_an_error:
  assumes "pf_stream_query pf (cs_inner s) w = (res, w')" and "pf_event_query pf (ce_inner e) w = (res, w')"
  shows "stream_query_complete pf s w =
      ((if res = 0 then Ok True else if res = 900 then Ok False else Err (CudaError ''cuStreamQuery'' res)), w')
    \<and> event_query pf e w =
      ((if res = 0 then Ok True else if res = 900 then Ok False else Err (CudaError ''cuEventQuery'' res)), w')
    \<and> (res = CUDA_ERROR_NOT_READY \<longrightarrow> (\<exists>err. stream_query_complete pf s w = (Err err, w')))"
  using assms by (simp add: stream_query_complete_def event_query_def query_result_def bindM_def liftM_def
      check_cu_def CUDA_ERROR_NOT_READY_def)

theorem query_not_ready_is_an_error_witness:
  "stream_query_complete (idle_platform\<lparr>pf_stream_query := (\<lambda>s w. (600, w)), pf_event_query := (\<lambda>s w. (600, w))\<rparr>)
     \<lparr>cs_inner = 3, cs_priority = 0\<rparr> () = (Err (CudaError ''cuStreamQuery'' 600), ())"
  using query_not_ready_is_an_error
    [of "idle_platform\<lparr>pf_stream_query := (\<lambda>s w. (600, w)), pf_event_query := (\<lambda>s w. (600, w))\<rparr>"
        "\<lparr>cs_inner = 3, cs_priority = 0\<rparr>" "()" 600 "()" "\<lparr>ce_inner = 0\<rparr>"]
  by (simp add: idle_platform_def)

end
