(* ===== verification/Gpu.thy ===== *)
theory Gpu
  imports Driver Vmt
begin

text \<open>
  \<open>src/gpu.rs\<close>: the NUMA distance table and its parser, the peer access matrix, and the cluster with
  the choice of the DRAM node for a GPU. Text is ASCII: white space is the ASCII white space.
\<close>

section \<open>Text\<close>

definition is_space :: "char \<Rightarrow> bool" where
  "is_space c \<longleftrightarrow> (of_char c :: nat) \<in> {9, 10, 11, 12, 13, 32}"

definition trim :: "string \<Rightarrow> string" where
  "trim s = rev (dropWhile is_space (rev (dropWhile is_space s)))"

text \<open>\<open>split_whitespace\<close>: \<open>cur\<close> is the word being read.\<close>

fun words_from :: "string \<Rightarrow> string \<Rightarrow> string list" where
  "words_from cur [] = (if cur = [] then [] else [cur])"
| "words_from cur (c # s) =
     (if is_space c then (if cur = [] then words_from [] s else cur # words_from [] s)
      else words_from (cur @ [c]) s)"

definition split_whitespace :: "string \<Rightarrow> string list" where
  "split_whitespace s = words_from [] s"

text \<open>\<open>lines\<close>: split at newlines, a trailing carriage return removed, no empty last line.\<close>

definition strip_cr :: "string \<Rightarrow> string" where
  "strip_cr s = (if s \<noteq> [] \<and> last s = CHR 0x0D then butlast s else s)"

fun lines_from :: "string \<Rightarrow> string \<Rightarrow> string list" where
  "lines_from cur [] = (if cur = [] then [] else [cur])"
| "lines_from cur (c # s) =
     (if c = CHR 0x0A then strip_cr cur # lines_from [] s else lines_from (cur @ [c]) s)"

definition text_lines :: "string \<Rightarrow> string list" where
  "text_lines s = lines_from [] s"

fun starts_with :: "string \<Rightarrow> string \<Rightarrow> bool" where
  "starts_with s [] = True"
| "starts_with [] (p # ps) = False"
| "starts_with (c # s) (p # ps) = (c = p \<and> starts_with s ps)"

fun contains :: "string \<Rightarrow> string \<Rightarrow> bool" where
  "contains [] p = (p = [])"
| "contains (c # s) p = (starts_with (c # s) p \<or> contains s p)"

section \<open>Numbers\<close>

definition digit_value :: "char \<Rightarrow> nat option" where
  "digit_value c = (let n = of_char c :: nat in if 48 \<le> n \<and> n \<le> 57 then Some (n - 48) else None)"

fun digits_value :: "nat \<Rightarrow> string \<Rightarrow> nat option" where
  "digits_value acc [] = Some acc"
| "digits_value acc (c # s) =
     (case digit_value c of None \<Rightarrow> None | Some d \<Rightarrow> digits_value (10 * acc + d) s)"

text \<open>\<open>parse::<u32>()\<close>: an optional plus sign, at least one digit, and no overflow.\<close>

definition unsigned_body :: "string \<Rightarrow> nat option" where
  "unsigned_body s = (if s = [] then None else digits_value 0 s)"

definition parse_u32 :: "string \<Rightarrow> nat option" where
  "parse_u32 s =
     (case unsigned_body (if s \<noteq> [] \<and> hd s = CHR ''+'' then tl s else s) of
        None \<Rightarrow> None
      | Some n \<Rightarrow> (if n < 2 ^ 32 then Some n else None))"

definition parse_isize :: "string \<Rightarrow> int option" where
  "parse_isize s =
     (if s \<noteq> [] \<and> hd s = CHR ''-'' then
        (case unsigned_body (tl s) of None \<Rightarrow> None | Some n \<Rightarrow> if n \<le> 2 ^ 63 then Some (- int n) else None)
      else
        (case unsigned_body (if s \<noteq> [] \<and> hd s = CHR ''+'' then tl s else s) of
           None \<Rightarrow> None
         | Some n \<Rightarrow> if n < 2 ^ 63 then Some (int n) else None))"

section \<open>The NUMA topology\<close>

record numa_topology =
  nt_distances :: "nat list list"
  nt_node_count :: usize

definition single_node :: numa_topology where
  "single_node = \<lparr>nt_distances = [[10]], nt_node_count = 1\<rparr>"

text \<open>The loop body of \<open>from_numactl\<close> on one line.\<close>

definition numactl_line :: "string \<Rightarrow> nat list list \<times> nat \<Rightarrow> nat list list \<times> nat" where
  "numactl_line line = (\<lambda>(distances, node_count).
     (let trimmed = trim line in
      if starts_with trimmed ''node'' \<and> contains trimmed ''distances:'' then
        (case position (\<lambda>c. c = CHR '':'') trimmed of
           None \<Rightarrow> (distances, node_count)
         | Some colon_pos \<Rightarrow>
             (let nums = List.map_filter parse_u32 (split_whitespace (drop (colon_pos + 1) trimmed)) in
              if nums \<noteq> [] then (distances @ [nums], max node_count (length nums))
              else (distances, node_count)))
      else (distances, node_count)))"

definition numactl_parse :: "string \<Rightarrow> numa_topology" where
  "numactl_parse stdout =
     (let (distances, node_count) = fold numactl_line (text_lines stdout) ([], 0) in
      if distances = [] then \<lparr>nt_distances = [[10]], nt_node_count = 1\<rparr>
      else \<lparr>nt_distances = distances, nt_node_count = node_count\<rparr>)"

definition from_numactl :: "'w platform \<Rightarrow> ('w, numa_topology) op" where
  "from_numactl pf w = (case pf_numactl pf w of
      (Inl e, w') \<Rightarrow> (Err (Io e), w')
    | (Inr stdout, w') \<Rightarrow> (Ok (numactl_parse stdout), w'))"

definition numa_distance :: "numa_topology \<Rightarrow> usize \<Rightarrow> usize \<Rightarrow> nat" where
  "numa_distance t src dst =
     (case vec_get (nt_distances t) src of
        None \<Rightarrow> 30
      | Some row \<Rightarrow> (case vec_get row dst of None \<Rightarrow> 30 | Some d \<Rightarrow> d))"

definition dma_bandwidth_factor :: "(real \<Rightarrow> f64) \<Rightarrow> numa_topology \<Rightarrow> usize \<Rightarrow> usize \<Rightarrow> f64" where
  "dma_bandwidth_factor fl t src_node dst_node =
     (let d = numa_distance t src_node dst_node in
      if d \<le> 12 then fl (95 / 100) else if d \<le> 20 then fl (80 / 100) else fl (65 / 100))"

section \<open>Peer access\<close>

record peer_matrix =
  pm_can_access :: "bool list list"
  pm_enabled :: "bool list list"
  pm_num_gpus :: usize
  pm_primary_ctxs :: "primary_context list"

definition set_cell :: "bool list list \<Rightarrow> nat \<Rightarrow> nat \<Rightarrow> bool \<Rightarrow> bool list list" where
  "set_cell m i j b = m[i := (m ! i)[j := b]]"

definition peer_probe ::
  "'w platform \<Rightarrow> int list \<Rightarrow> nat \<times> nat \<Rightarrow> ('w \<times> bool list list, unit) op" where
  "peer_probe pf ords = (\<lambda>(i, j) (w, m).
     if i = j then (Ok (), (w, set_cell m i j True))
     else (case cu_get ''cuDeviceCanAccessPeer'' (pf_can_access_peer pf (ords ! i) (ords ! j)) w of
         (Ok can, w') \<Rightarrow> (Ok (), (w', set_cell m i j (can \<noteq> 0)))
       | (Err e, w') \<Rightarrow> (Err e, (w', m))
       | (Panic, w') \<Rightarrow> (Panic, (w', m))))"

definition peer_discover :: "'w platform \<Rightarrow> int list \<Rightarrow> ('w, peer_matrix) op" where
  "peer_discover pf ords w =
     (let n = length ords in
      case forM (List.product [0 ..< n] [0 ..< n]) (peer_probe pf ords) (w, replicate n (replicate n False)) of
        (Ok _, (w', can)) \<Rightarrow>
          (Ok \<lparr>pm_can_access = can, pm_enabled = replicate n (replicate n False), pm_num_gpus = n,
               pm_primary_ctxs = []\<rparr>, w')
      | (Err e, (w', can)) \<Rightarrow> (Err e, w')
      | (Panic, (w', can)) \<Rightarrow> (Panic, w'))"

definition cell :: "bool list list \<Rightarrow> nat \<Rightarrow> nat \<Rightarrow> bool option" where
  "cell m i j = (case vec_get m i of None \<Rightarrow> None | Some row \<Rightarrow> vec_get row j)"

text \<open>One pair of the inner loop of \<open>enable_all\<close>; indexing past a vector panics.\<close>

definition enable_pair ::
  "'w platform \<Rightarrow> nat \<Rightarrow> nat \<Rightarrow> ('w \<times> peer_matrix, unit) op" where
  "enable_pair pf i j = (\<lambda>(w, m).
     if i = j then (Ok (), (w, m))
     else case cell (pm_can_access m) i j of
       None \<Rightarrow> (Panic, (w, m))
     | Some can \<Rightarrow>
         (if \<not> can then (Ok (), (w, m))
          else case cell (pm_enabled m) i j of
            None \<Rightarrow> (Panic, (w, m))
          | Some enabled \<Rightarrow>
              (if enabled then (Ok (), (w, m))
               else case vec_get (pm_primary_ctxs m) j of
                 None \<Rightarrow> (Panic, (w, m))
               | Some dst \<Rightarrow>
                   (case pf_enable_peer pf (pc_ctx dst) w of (res, w') \<Rightarrow>
                      (Ok (), (w', if res = 0 \<or> res = 704
                                   then m\<lparr>pm_enabled := set_cell (pm_enabled m) i j True\<rparr> else m))))))"

definition enable_row :: "'w platform \<Rightarrow> nat \<Rightarrow> nat \<Rightarrow> ('w \<times> peer_matrix, unit) op" where
  "enable_row pf n i = (\<lambda>(w, m).
     case vec_get (pm_primary_ctxs m) i of
       None \<Rightarrow> (Panic, (w, m))
     | Some c \<Rightarrow> scoped (on_world (pc_enter pf c)) (\<lambda>(w, m). (guard_drop pf w, m))
                   (forM [0 ..< n] (enable_pair pf i)) (w, m))"

definition enable_all :: "'w platform \<Rightarrow> int list \<Rightarrow> ('w \<times> peer_matrix, unit) op" where
  "enable_all pf ords = (\<lambda>(w, m).
     (let retained = (if pm_primary_ctxs m = []
          then (case retain_all pf ords [] w of
                  (Ok cs, w') \<Rightarrow> (Ok (), (w', m\<lparr>pm_primary_ctxs := cs\<rparr>))
                | (Err e, w') \<Rightarrow> (Err e, (w', m))
                | (Panic, w') \<Rightarrow> (Panic, (w', m)))
          else (Ok (), (w, m)))
      in case retained of
           (Ok _, s) \<Rightarrow> forM [0 ..< length ords] (enable_row pf (length ords)) s
         | (Err e, s) \<Rightarrow> (Err e, s)
         | (Panic, s) \<Rightarrow> (Panic, s)))"

definition can_access :: "peer_matrix \<Rightarrow> usize \<Rightarrow> usize \<Rightarrow> bool" where
  "can_access m src dst = (case cell (pm_can_access m) src dst of None \<Rightarrow> False | Some b \<Rightarrow> b)"

definition is_enabled :: "peer_matrix \<Rightarrow> usize \<Rightarrow> usize \<Rightarrow> bool" where
  "is_enabled m src dst = (case cell (pm_enabled m) src dst of None \<Rightarrow> False | Some b \<Rightarrow> b)"

section \<open>The cluster\<close>

record gpu_info =
  gi_device_id :: int
  gi_name :: string
  gi_total_vram :: usize
  gi_free_vram :: usize
  gi_compute_capability :: "int \<times> int"
  gi_sm_count :: int
  gi_numa_node :: usize
  gi_pci_bus_id :: int
  gi_pci_device_id :: int
  gi_concurrent_kernels :: bool

record gpu_cluster =
  gc_infos :: "gpu_info list"
  gc_ordinals :: "int list"
  gc_peer_matrix :: peer_matrix
  gc_numa :: numa_topology
  gc_ordinal_map :: "int \<Rightarrow> usize option"

definition hex_digit :: "nat \<Rightarrow> char" where
  "hex_digit d = (if d < 10 then char_of (48 + d) else char_of (87 + d))"

fun hexadecimal :: "nat \<Rightarrow> string" where
  "hexadecimal n = (if n < 16 then [hex_digit n] else hexadecimal (n div 16) @ [hex_digit (n mod 16)])"

declare hexadecimal.simps [simp del]

text \<open>\<open>{:02x}\<close> and \<open>{}\<close> of an \<open>i32\<close>.\<close>

definition show_i32_02x :: "int \<Rightarrow> string" where
  "show_i32_02x i = (let h = hexadecimal (nat (i mod 2 ^ 32)) in replicate (2 - length h) CHR ''0'' @ h)"

definition show_int :: "int \<Rightarrow> string" where
  "show_int i = (if i < 0 then CHR ''-'' # decimal (nat (- i)) else decimal (nat i))"

definition numa_paths :: "int \<Rightarrow> string list" where
  "numa_paths ord =
     [''/sys/bus/pci/devices/0000:'' @ show_i32_02x ord @ '':00.0/numa_node'',
      ''/sys/class/drm/card'' @ show_int ord @ ''/device/numa_node'']"

fun read_numa_from :: "'w platform \<Rightarrow> string list \<Rightarrow> 'w \<Rightarrow> usize option \<times> 'w" where
  "read_numa_from pf [] w = (None, w)"
| "read_numa_from pf (path # paths) w =
     (case pf_read_file pf path w of
        (None, w') \<Rightarrow> read_numa_from pf paths w'
      | (Some s, w') \<Rightarrow>
          (case parse_isize (trim s) of
             None \<Rightarrow> read_numa_from pf paths w'
           | Some n \<Rightarrow> (Some (if n < 0 then 0 else nat n), w')))"

definition read_numa_node :: "'w platform \<Rightarrow> int \<Rightarrow> 'w \<Rightarrow> usize option \<times> 'w" where
  "read_numa_node pf ord = read_numa_from pf (numa_paths ord)"

text \<open>A call whose status the code does not look at.\<close>

definition askM :: "('w \<Rightarrow> 'a \<times> 'w) \<Rightarrow> ('w, 'a) op" where
  "askM f w = (case f w of (x, w') \<Rightarrow> (Ok x, w'))"

text \<open>
  The free memory is read inside a scope of its own: the context is retained, pushed, and both are
  undone in reverse order whatever happens.
\<close>

definition probe_free_vram :: "'w platform \<Rightarrow> int \<Rightarrow> ('w, usize) op" where
  "probe_free_vram pf ord w =
     (case pc_retain pf ord w of
        (Ok c, w1) \<Rightarrow>
          (case scoped (pc_enter pf c) (guard_drop pf)
                  (bindM (cu_get ''cuMemGetInfo_v2'' (pf_mem_get_info pf)) (\<lambda>(free, tot). retM free)) w1 of
             (r, w2) \<Rightarrow> (r, pc_drop pf c w2))
      | (Err e, w1) \<Rightarrow> (Err e, w1)
      | (Panic, w1) \<Rightarrow> (Panic, w1))"

definition discover_gpu :: "'w platform \<Rightarrow> int \<Rightarrow> ('w, gpu_info) op" where
  "discover_gpu pf ord =
     bindM (askM (pf_device_name pf ord)) (\<lambda>name.
     bindM (askM (pf_total_mem pf ord)) (\<lambda>total.
     bindM (probe_free_vram pf ord) (\<lambda>free.
     bindM (askM (pf_capability pf ord)) (\<lambda>cc.
     bindM (askM (pf_attribute pf 16 ord)) (\<lambda>sm.
     bindM (askM (pf_attribute pf 31 ord)) (\<lambda>ck.
     bindM (askM (pf_attribute pf 33 ord)) (\<lambda>bus.
     bindM (askM (pf_attribute pf 34 ord)) (\<lambda>pdev.
     bindM (askM (read_numa_node pf ord)) (\<lambda>node.
     retM \<lparr>gi_device_id = ord, gi_name = name, gi_total_vram = total, gi_free_vram = free,
           gi_compute_capability = cc, gi_sm_count = sm,
           gi_numa_node = (case node of None \<Rightarrow> 0 | Some n \<Rightarrow> n),
           gi_pci_bus_id = bus, gi_pci_device_id = pdev, gi_concurrent_kernels = (ck \<noteq> 0)\<rparr>)))))))))"

fun mapM :: "('a \<Rightarrow> ('s, 'b) op) \<Rightarrow> 'a list \<Rightarrow> ('s, 'b list) op" where
  "mapM f [] = retM []"
| "mapM f (x # xs) = bindM (f x) (\<lambda>y. bindM (mapM f xs) (\<lambda>ys. retM (y # ys)))"

text \<open>Collecting pairs into a hash map: a later index of a repeated ordinal replaces an earlier one.\<close>

definition ordinal_index :: "int list \<Rightarrow> int \<Rightarrow> usize option" where
  "ordinal_index ords = fold (\<lambda>(i, ord) m. m(ord \<mapsto> i)) (enumerate 0 ords) Map.empty"

definition cluster_discover :: "'w platform \<Rightarrow> int list \<Rightarrow> ('w, gpu_cluster) op" where
  "cluster_discover pf ords =
     bindM (cu_call ''cuInit'' (pf_init pf)) (\<lambda>_.
     bindM (catchM (from_numactl pf)) (\<lambda>topo.
     bindM (mapM (discover_gpu pf) ords) (\<lambda>infos.
     bindM (peer_discover pf ords) (\<lambda>peers.
     retM \<lparr>gc_infos = infos, gc_ordinals = ords, gc_peer_matrix = peers,
           gc_numa = (case topo of Inl _ \<Rightarrow> single_node | Inr t \<Rightarrow> t),
           gc_ordinal_map = ordinal_index ords\<rparr>))))"

definition enable_peer_access :: "'w platform \<Rightarrow> ('w \<times> gpu_cluster, unit) op" where
  "enable_peer_access pf = (\<lambda>(w, c).
     case enable_all pf (gc_ordinals c) (w, gc_peer_matrix c) of
       (r, (w', m)) \<Rightarrow> (r, (w', c\<lparr>gc_peer_matrix := m\<rparr>)))"

definition index_of :: "gpu_cluster \<Rightarrow> int \<Rightarrow> usize option" where
  "index_of c ordinal = gc_ordinal_map c ordinal"

definition dma_factor :: "(real \<Rightarrow> f64) \<Rightarrow> gpu_cluster \<Rightarrow> int \<Rightarrow> usize \<Rightarrow> f64 outcome" where
  "dma_factor fl c gpu_ordinal dram_numa_node =
     (case index_of c gpu_ordinal of
        None \<Rightarrow> Ok (fl (65 / 100))
      | Some idx \<Rightarrow>
          (case vec_get (gc_infos c) idx of
             None \<Rightarrow> Panic
           | Some info \<Rightarrow> Ok (dma_bandwidth_factor fl (gc_numa c) dram_numa_node (gi_numa_node info))))"

text \<open>The search of \<open>optimal_dram_node\<close>: a strictly nearer node replaces the best so far.\<close>

fun nearest :: "(usize \<Rightarrow> nat) \<Rightarrow> usize list \<Rightarrow> usize \<Rightarrow> nat \<Rightarrow> usize" where
  "nearest df [] best best_dist = best"
| "nearest df (node # nodes) best best_dist =
     (let d = df node in
      if d < best_dist then nearest df nodes node d else nearest df nodes best best_dist)"

definition optimal_dram_node :: "gpu_cluster \<Rightarrow> int \<Rightarrow> usize outcome" where
  "optimal_dram_node c gpu_ordinal =
     (case index_of c gpu_ordinal of
        None \<Rightarrow> Ok 0
      | Some idx \<Rightarrow>
          (case vec_get (gc_infos c) idx of
             None \<Rightarrow> Panic
           | Some info \<Rightarrow>
               Ok (nearest (numa_distance (gc_numa c) (gi_numa_node info))
                     [0 ..< nt_node_count (gc_numa c)] 0 (2 ^ 32 - 1))))"

section \<open>Reading numbers and lines\<close>

lemma digit_value_digit: "d < 10 \<Longrightarrow> digit_value (digit d) = Some d"
  by (simp add: digit_value_def digit_def)

lemma decimal_cons: "\<exists>c s. decimal n = c # s"
  by (subst decimal.simps) (cases "decimal (n div 10)"; simp)

lemma decimal_digits: "c \<in> set (decimal n) \<Longrightarrow> digit_value c \<noteq> None"
proof (induction n rule: decimal.induct)
  case (1 n)
  then show ?case
    by (subst (asm) (2) decimal.simps) (auto simp: digit_value_digit split: if_splits)
qed

lemma digits_value_append:
  "digits_value acc (s @ t) = (case digits_value acc s of None \<Rightarrow> None | Some a \<Rightarrow> digits_value a t)"
  by (induction s arbitrary: acc) (auto split: option.split)

lemma digits_value_decimal: "digits_value 0 (decimal n) = Some n"
proof (induction n rule: decimal.induct)
  case (1 n)
  show ?case
  proof (cases "n < 10")
    case True
    then show ?thesis by (subst decimal.simps) (simp add: digit_value_digit)
  next
    case False
    then have "decimal n = decimal (n div 10) @ [digit (n mod 10)]" by (subst decimal.simps) simp
    then show ?thesis
      using 1 [OF False] by (simp add: digits_value_append digit_value_digit)
  qed
qed

lemma digit_value_chars: "digit_value c \<noteq> None \<Longrightarrow> c \<notin> {CHR ''+'', CHR '':'', CHR '' '', CHR 0x0A, CHR 0x0D, CHR ''n'', CHR ''s''} \<and> \<not> is_space c"
  by (auto simp: digit_value_def is_space_def Let_def split: if_splits)

lemma decimal_chars:
  "c \<in> set (decimal n) \<Longrightarrow> c \<notin> {CHR ''+'', CHR '':'', CHR '' '', CHR 0x0A, CHR 0x0D, CHR ''n'', CHR ''s''} \<and> \<not> is_space c"
  using decimal_digits digit_value_chars by blast

lemma parse_u32_decimal: "n < 2 ^ 32 \<Longrightarrow> parse_u32 (decimal n) = Some n"
proof -
  assume "n < 2 ^ 32"
  obtain c s where c: "decimal n = c # s" using decimal_cons by blast
  then have "c \<noteq> CHR ''+''" using decimal_chars [of c n] by auto
  with c \<open>n < 2 ^ 32\<close> digits_value_decimal [of n] show ?thesis
    by (simp add: parse_u32_def unsigned_body_def)
qed

lemma lines_from_line: "CHR 0x0A \<notin> set l \<Longrightarrow> lines_from cur (l @ CHR 0x0A # s) = strip_cr (cur @ l) # lines_from [] s"
  by (induction l arbitrary: cur) auto

lemma text_lines_concat:
  assumes "\<forall>l \<in> set ls. CHR 0x0A \<notin> set l \<and> CHR 0x0D \<notin> set l"
  shows "text_lines (concat (map (\<lambda>l. l @ [CHR 0x0A]) ls)) = ls"
proof -
  have "strip_cr l = l" if "CHR 0x0D \<notin> set l" for l
    using that by (metis last_in_set strip_cr_def)
  with assms show ?thesis
    by (induction ls) (simp_all add: text_lines_def lines_from_line)
qed

lemma words_from_word: "\<forall>c \<in> set u. \<not> is_space c \<Longrightarrow> words_from cur (u @ s) = words_from (cur @ u) s"
  by (induction u arbitrary: cur) simp_all

lemma is_space_blank [simp]: "is_space CHR '' ''"
  by (simp add: is_space_def)

lemma split_decimals: "split_whitespace (concat (map (\<lambda>d. '' '' @ decimal d) row)) = map decimal row"
proof -
  have "words_from cur (concat (map (\<lambda>d. '' '' @ decimal d) row)) =
      (if cur = [] then [] else [cur]) @ map decimal row" for cur
  proof (induction row arbitrary: cur)
    case (Cons d row)
    have ns: "\<forall>c \<in> set (decimal d). \<not> is_space c" using decimal_chars by blast
    obtain c s where "decimal d = c # s" using decimal_cons by blast
    then have "decimal d \<noteq> []" by simp
    then show ?case
      using Cons.IH [of "decimal d"] words_from_word [OF ns, of "[]" "concat (map (\<lambda>d. '' '' @ decimal d) row)"]
      by simp
  qed simp
  then show ?thesis by (simp add: split_whitespace_def)
qed

lemma position_append: "\<forall>c \<in> set u. \<not> p c \<Longrightarrow> p d \<Longrightarrow> position p (u @ d # s) = Some (length u)"
  by (induction u) auto

lemma starts_with_set: "starts_with s p \<Longrightarrow> set p \<subseteq> set s"
  by (induction s p rule: starts_with.induct) auto

lemma starts_with_append [simp]: "starts_with (p @ s) p"
  by (induction p) simp_all

lemma contains_set: "contains s p \<Longrightarrow> set p \<subseteq> set s"
proof (induction s)
  case (Cons c s)
  then show ?case using starts_with_set [of "c # s" p] by auto
qed simp

lemma contains_append [simp]: "contains (u @ p @ s) p"
proof (induction u)
  case Nil
  show ?case by (cases "p @ s") (use starts_with_append [of p s] in auto)
qed simp

lemma set_trim: "set (trim s) \<subseteq> set s"
  unfolding trim_def by (auto dest!: set_dropWhileD)

lemma trim_none: "s \<noteq> [] \<Longrightarrow> \<not> is_space (hd s) \<Longrightarrow> \<not> is_space (last s) \<Longrightarrow> trim s = s"
proof -
  assume a: "s \<noteq> []" "\<not> is_space (hd s)" "\<not> is_space (last s)"
  then have "dropWhile is_space s = s" by (cases s) simp_all
  moreover have "dropWhile is_space (rev s) = rev s"
    using a(1,3) by (cases "rev s") (simp, metis dropWhile.simps(2) hd_rev list.sel(1))
  ultimately show "trim s = s" by (simp add: trim_def)
qed

section \<open>The two formats\<close>

text \<open>The format the parser's comment shows, one row per node: \<open>node 0 distances: 10 21\<close>.\<close>

definition commented_row :: "nat \<Rightarrow> nat list \<Rightarrow> string" where
  "commented_row i row = ''node '' @ decimal i @ '' distances:'' @ concat (map (\<lambda>d. '' '' @ decimal d) row)"

definition commented_output :: "nat list list \<Rightarrow> string" where
  "commented_output rows = concat (map (\<lambda>l. l @ [CHR 0x0A]) (map (\<lambda>(i, r). commented_row i r) (enumerate 0 rows)))"

text \<open>
  The format of \<open>numactl --hardware\<close> itself: the heading \<open>node distances:\<close>, a line of node numbers,
  then the rows, each beginning with its node number and a colon.
\<close>

definition numactl_row :: "nat \<Rightarrow> nat list \<Rightarrow> string" where
  "numactl_row i row = ''  '' @ decimal i @ '':'' @ concat (map (\<lambda>d. ''  '' @ decimal d) row)"

definition numactl_output :: "nat list list \<Rightarrow> string" where
  "numactl_output rows = concat (map (\<lambda>l. l @ [CHR 0x0A])
     (''node distances:''
      # (''node'' @ concat (map (\<lambda>i. ''   '' @ decimal i) [0 ..< length rows]))
      # map (\<lambda>(i, r). numactl_row i r) (enumerate 0 rows)))"

lemma commented_row_ends:
  "\<not> is_space (last (commented_row i row))" "CHR 0x0A \<notin> set (commented_row i row)" "CHR 0x0D \<notin> set (commented_row i row)"
proof -
  have "CHR 0x0A \<notin> set (decimal d)" "CHR 0x0D \<notin> set (decimal d)" for d
    using decimal_chars by blast+
  then show "CHR 0x0A \<notin> set (commented_row i row)" "CHR 0x0D \<notin> set (commented_row i row)"
    by (simp_all add: commented_row_def)
  show "\<not> is_space (last (commented_row i row))"
  proof (cases row rule: rev_cases)
    case Nil
    then show ?thesis by (simp add: commented_row_def is_space_def)
  next
    case (snoc ds d)
    obtain c s where "decimal d = c # s" using decimal_cons by blast
    then have ne: "decimal d \<noteq> []" by simp
    then have "last (commented_row i row) = last (decimal d)"
      by (simp add: commented_row_def snoc)
    moreover have "last (decimal d) \<in> set (decimal d)" using ne by simp
    ultimately show ?thesis using decimal_chars by metis
  qed
qed

lemma numactl_line_hit:
  assumes "trim l = l" "starts_with l ''node''" "contains l ''distances:''"
    and "position (\<lambda>c. c = CHR '':'') l = Some p"
    and "List.map_filter parse_u32 (split_whitespace (drop (p + 1) l)) = row" "row \<noteq> []"
  shows "numactl_line l (ds, k) = (ds @ [row], max k (length row))"
  using assms by (simp add: numactl_line_def Let_def)

lemma commented_line:
  assumes "row \<noteq> []" and "\<forall>d \<in> set row. d < 2 ^ 32"
  shows "numactl_line (commented_row i row) (ds, k) = (ds @ [row], max k (length row))"
proof -
  let ?l = "commented_row i row" and ?rest = "concat (map (\<lambda>d. '' '' @ decimal d) row)"
  have tr: "trim ?l = ?l"
  proof (rule trim_none)
    show "?l \<noteq> []" "\<not> is_space (hd ?l)" by (simp_all add: commented_row_def is_space_def)
  qed (rule commented_row_ends)
  have "?l = (''node '' @ decimal i @ '' distances'') @ CHR '':'' # ?rest"
    by (simp add: commented_row_def)
  moreover have "\<forall>c \<in> set (''node '' @ decimal i @ '' distances''). \<not> c = CHR '':''"
    using decimal_chars [of _ i] by auto
  ultimately have pos: "position (\<lambda>c. c = CHR '':'') ?l = Some (length (''node '' @ decimal i @ '' distances''))"
    using position_append [of "''node '' @ decimal i @ '' distances''" "\<lambda>c. c = CHR '':''" "CHR '':''" ?rest] by simp
  have drop: "drop (length (''node '' @ decimal i @ '' distances'') + 1) ?l = ?rest"
    by (simp add: commented_row_def)
  have "List.map_filter parse_u32 (map decimal row) = row"
    using assms(2) by (induction row) (simp_all add: map_filter_simps parse_u32_decimal)
  then have nums: "List.map_filter parse_u32 (split_whitespace ?rest) = row"
    unfolding split_decimals .
  have st: "starts_with ?l ''node''" by (simp add: commented_row_def)
  have co: "contains ?l ''distances:''"
    using contains_append [of "''node '' @ decimal i @ '' ''" "''distances:''" ?rest]
    by (simp add: commented_row_def)
  show ?thesis
    by (rule numactl_line_hit [OF tr st co pos _ assms(1)]) (simp only: drop nums)
qed

lemma commented_fold:
  assumes "\<forall>r \<in> set rows. r \<noteq> [] \<and> (\<forall>d \<in> set r. d < 2 ^ 32)"
  shows "fold numactl_line (map (\<lambda>(i, r). commented_row i r) (enumerate n rows)) (ds, k)
    = (ds @ rows, fold (\<lambda>r m. max m (length r)) rows k)"
  using assms by (induction rows arbitrary: n ds k) (simp_all add: commented_line)

lemma numactl_line_skip:
  assumes "CHR ''n'' \<notin> set l \<or> CHR ''s'' \<notin> set l"
  shows "numactl_line l acc = acc"
proof -
  have "\<not> (starts_with (trim l) ''node'' \<and> contains (trim l) ''distances:'')"
    using assms starts_with_set [of "trim l" "''node''"] contains_set [of "trim l" "''distances:''"] set_trim [of l]
    by auto
  then show ?thesis by (cases acc) (auto simp: numactl_line_def Let_def)
qed

lemma numactl_heading: "numactl_line ''node distances:'' acc = acc"
  by (cases acc) (simp add: numactl_line_def Let_def trim_def is_space_def split_whitespace_def map_filter_simps)

lemma numactl_fold_skip:
  "\<forall>l \<in> set ls. CHR ''n'' \<notin> set l \<or> CHR ''s'' \<notin> set l \<Longrightarrow> fold numactl_line ls acc = acc"
  by (induction ls arbitrary: acc) (simp_all add: numactl_line_skip)

text \<open>
  Property C39. The topology parser against the two formats. A table printed with one
  \<open>node i distances: ...\<close> line per node, as the comment in the code has it, is read back exactly.
  The output of \<open>numactl --hardware\<close> in that program's own format (a heading, the node numbers, and
  rows that begin with \<open>i:\<close>) is never read: whatever the distances, the result is the fallback of a
  single node.
\<close>

theorem numactl_formats:
  assumes "rows \<noteq> []" and "\<forall>r \<in> set rows. r \<noteq> [] \<and> (\<forall>d \<in> set r. d < 2 ^ 32)"
  shows "numactl_parse (commented_output rows) =
      \<lparr>nt_distances = rows, nt_node_count = fold (\<lambda>r m. max m (length r)) rows 0\<rparr>
    \<and> numactl_parse (numactl_output rows) = single_node"
proof
  have "\<forall>l \<in> set (map (\<lambda>(i, r). commented_row i r) (enumerate 0 rows)). CHR 0x0A \<notin> set l \<and> CHR 0x0D \<notin> set l"
    by (auto simp: commented_row_ends)
  then have "text_lines (commented_output rows) = map (\<lambda>(i, r). commented_row i r) (enumerate 0 rows)"
    unfolding commented_output_def by (rule text_lines_concat)
  then show "numactl_parse (commented_output rows) =
      \<lparr>nt_distances = rows, nt_node_count = fold (\<lambda>r m. max m (length r)) rows 0\<rparr>"
    using commented_fold [OF assms(2), of 0 "[]" 0] assms(1) by (simp add: numactl_parse_def)
  let ?ls = "(''node'' @ concat (map (\<lambda>i. ''   '' @ decimal i) [0 ..< length rows]))
      # map (\<lambda>(i, r). numactl_row i r) (enumerate 0 rows)"
  have d: "CHR 0x0A \<notin> set (decimal d)" "CHR 0x0D \<notin> set (decimal d)" "CHR ''n'' \<notin> set (decimal d)" "CHR ''s'' \<notin> set (decimal d)" for d
    using decimal_chars by blast+
  have "\<forall>l \<in> set (''node distances:'' # ?ls). CHR 0x0A \<notin> set l \<and> CHR 0x0D \<notin> set l"
    by (auto simp: numactl_row_def d)
  then have "text_lines (numactl_output rows) = ''node distances:'' # ?ls"
    unfolding numactl_output_def by (rule text_lines_concat)
  moreover have "\<forall>l \<in> set ?ls. CHR ''n'' \<notin> set l \<or> CHR ''s'' \<notin> set l"
    by (auto simp: numactl_row_def d)
  then have "fold numactl_line ?ls ([], 0) = ([], 0)" by (rule numactl_fold_skip)
  ultimately show "numactl_parse (numactl_output rows) = single_node"
    by (simp add: numactl_parse_def numactl_heading single_node_def del: list.map append.simps)
qed

theorem numactl_formats_witness:
  "numactl_parse (commented_output [[10, 21], [21, 10]]) = \<lparr>nt_distances = [[10, 21], [21, 10]], nt_node_count = 2\<rparr>
    \<and> numactl_parse (numactl_output [[10, 21], [21, 10]]) = single_node"
  using numactl_formats [of "[[10, 21], [21, 10]]"] by simp

section \<open>Indices and the nearest node\<close>

lemma ordinal_index_snoc:
  "ordinal_index (ords @ [x]) = (ordinal_index ords)(x \<mapsto> length ords)"
  by (simp add: ordinal_index_def enumerate_append_eq)

lemma ordinal_index_Some:
  "ordinal_index ords x = Some i \<Longrightarrow> i < length ords \<and> ords ! i = x \<and> (\<forall>j < length ords. i < j \<longrightarrow> ords ! j \<noteq> x)"
proof (induction ords rule: rev_induct)
  case Nil
  then show ?case by (simp add: ordinal_index_def)
next
  case (snoc y ords)
  then show ?case
    by (auto simp: ordinal_index_snoc nth_append less_Suc_eq split: if_splits)
qed

lemma ordinal_index_None: "ordinal_index ords x = None \<longleftrightarrow> x \<notin> set ords"
  by (induction ords rule: rev_induct) (simp add: ordinal_index_def, auto simp: ordinal_index_snoc)

lemma ordinal_index_nth:
  "distinct ords \<Longrightarrow> i < length ords \<Longrightarrow> ordinal_index ords (ords ! i) = Some i"
  by (metis nth_eq_iff_index_eq nth_mem option.exhaust ordinal_index_None ordinal_index_Some)

lemma discovered_cluster:
  assumes "cluster_discover pf ords w = (Ok c, w')"
  shows "pm_primary_ctxs (gc_peer_matrix c) = []" "gc_ordinals c = ords" "gc_ordinal_map c = ordinal_index ords"
proof -
  obtain peers u u' where "peer_discover pf ords u = (Ok peers, u')"
    and c: "gc_peer_matrix c = peers" "gc_ordinals c = ords" "gc_ordinal_map c = ordinal_index ords"
    using assms by (auto simp: cluster_discover_def bindM_Ok_iff retM_def)
  then have "pm_primary_ctxs peers = []"
    by (auto simp: peer_discover_def Let_def case_prod_beta split: outcome.splits dest: sym)
  with c show "pm_primary_ctxs (gc_peer_matrix c) = []" "gc_ordinals c = ords" "gc_ordinal_map c = ordinal_index ords"
    by simp_all
qed


lemma nearest_spec:
  assumes "sorted_wrt (<) ns"
    and "best_dist = df best \<and> (\<forall>n \<in> set ns. best < n) \<or> (\<forall>n \<in> set ns. df n < best_dist) \<and> ns \<noteq> []"
  shows "(nearest df ns best best_dist = best \<and> best_dist = df best \<or> nearest df ns best best_dist \<in> set ns)
    \<and> (\<forall>n \<in> set ns. df (nearest df ns best best_dist) \<le> df n)
    \<and> (\<forall>n \<in> set ns. n < nearest df ns best best_dist \<longrightarrow> df (nearest df ns best best_dist) < df n)
    \<and> (best_dist = df best \<longrightarrow> (nearest df ns best best_dist = best \<or> df (nearest df ns best best_dist) < df best))"
  using assms
proof (induction ns arbitrary: best best_dist)
  case (Cons n ns)
  show ?case
  proof (cases "df n < best_dist")
    case True
    have "df n = df n \<and> (\<forall>m \<in> set ns. n < m)" using Cons.prems(1) by simp
    with Cons.IH [of "df n" n] Cons.prems(1) True
    show ?thesis by (auto simp: Let_def)
  next
    case False
    then have "best_dist = df best \<and> (\<forall>m \<in> set ns. best < m)" "best < n"
      using Cons.prems(2) by auto
    with Cons.IH [of best_dist best] Cons.prems(1) False
    show ?thesis by (auto simp: Let_def)
  qed
qed simp

text \<open>
  The DRAM node chosen for a GPU of the cluster, when every distance from the GPU's
  node is below the largest \<open>u32\<close>: an existing node, no other node is nearer, and of equally near
  nodes the one with the smallest number. A GPU that is not in the cluster gets node 0. No index of
  the cluster's map is out of range, so the lookup never panics.
\<close>

theorem optimal_node_is_nearest:
  assumes map: "gc_ordinal_map c = ordinal_index (gc_ordinals c)" and len: "length (gc_infos c) = length (gc_ordinals c)"
    and nodes: "0 < nt_node_count (gc_numa c)"
    and dists: "\<forall>info \<in> set (gc_infos c). \<forall>n < nt_node_count (gc_numa c).
      numa_distance (gc_numa c) (gi_numa_node info) n < 2 ^ 32 - 1"
  shows "(ord \<notin> set (gc_ordinals c) \<longrightarrow> optimal_dram_node c ord = Ok 0)
    \<and> (ord \<in> set (gc_ordinals c) \<longrightarrow> (\<exists>i b. i < length (gc_ordinals c) \<and> gc_ordinals c ! i = ord
         \<and> optimal_dram_node c ord = Ok b \<and> b < nt_node_count (gc_numa c)
         \<and> (\<forall>n < nt_node_count (gc_numa c).
              numa_distance (gc_numa c) (gi_numa_node (gc_infos c ! i)) b
                \<le> numa_distance (gc_numa c) (gi_numa_node (gc_infos c ! i)) n
            \<and> (n < b \<longrightarrow> numa_distance (gc_numa c) (gi_numa_node (gc_infos c ! i)) b
                < numa_distance (gc_numa c) (gi_numa_node (gc_infos c ! i)) n))))"
proof (cases "ord \<in> set (gc_ordinals c)")
  case False
  then have "index_of c ord = None" using map by (simp add: index_of_def ordinal_index_None)
  with False show ?thesis by (simp add: optimal_dram_node_def)
next
  case True
  then obtain i where idx: "index_of c ord = Some i"
    using map ordinal_index_None [of "gc_ordinals c" ord] by (auto simp: index_of_def)
  then have i: "i < length (gc_ordinals c)" "gc_ordinals c ! i = ord"
    using map ordinal_index_Some by (auto simp: index_of_def)
  let ?df = "numa_distance (gc_numa c) (gi_numa_node (gc_infos c ! i))"
  let ?ns = "[0 ..< nt_node_count (gc_numa c)]"
  have "gc_infos c ! i \<in> set (gc_infos c)" using i(1) len by simp
  then have "\<forall>n \<in> set ?ns. ?df n < 2 ^ 32 - 1" using dists by auto
  then have ok: "2 ^ 32 - 1 = ?df 0 \<and> (\<forall>n \<in> set ?ns. 0 < n) \<or> (\<forall>n \<in> set ?ns. ?df n < 2 ^ 32 - 1) \<and> ?ns \<noteq> []"
    using nodes by simp
  have "0 \<in> set ?ns" using nodes by simp
  with \<open>\<forall>n \<in> set ?ns. ?df n < 2 ^ 32 - 1\<close> have "?df 0 \<noteq> 2 ^ 32 - 1" by (metis less_irrefl)
  with nearest_spec [OF _ ok] have "nearest ?df ?ns 0 (2 ^ 32 - 1) \<in> set ?ns"
    and "\<forall>n \<in> set ?ns. ?df (nearest ?df ?ns 0 (2 ^ 32 - 1)) \<le> ?df n"
    and "\<forall>n \<in> set ?ns. n < nearest ?df ?ns 0 (2 ^ 32 - 1) \<longrightarrow> ?df (nearest ?df ?ns 0 (2 ^ 32 - 1)) < ?df n"
    by (metis sorted_wrt_upt)+
  moreover have "optimal_dram_node c ord = Ok (nearest ?df ?ns 0 (2 ^ 32 - 1))"
    using idx i(1) len by (simp add: optimal_dram_node_def vec_get_def)
  ultimately show ?thesis using True i by auto
qed

definition sample_cluster :: gpu_cluster where
  "sample_cluster = \<lparr>
     gc_infos = [\<lparr>gi_device_id = 0, gi_name = ''GPU0'', gi_total_vram = 8192, gi_free_vram = 4096,
        gi_compute_capability = (8, 9), gi_sm_count = 24, gi_numa_node = 1, gi_pci_bus_id = 1,
        gi_pci_device_id = 0, gi_concurrent_kernels = True\<rparr>],
     gc_ordinals = [0],
     gc_peer_matrix = \<lparr>pm_can_access = [[True]], pm_enabled = [[False]], pm_num_gpus = 1, pm_primary_ctxs = []\<rparr>,
     gc_numa = \<lparr>nt_distances = [[10, 21], [21, 10]], nt_node_count = 2\<rparr>,
     gc_ordinal_map = ordinal_index [0]\<rparr>"

theorem optimal_node_is_nearest_witness:
  "optimal_dram_node sample_cluster 0 = Ok 1 \<and> optimal_dram_node sample_cluster 5 = Ok 0"
proof -
  have d: "numa_distance (gc_numa sample_cluster) 1 0 = 21" "numa_distance (gc_numa sample_cluster) 1 1 = 10"
    by (simp_all add: numa_distance_def sample_cluster_def vec_get_def)
  have node: "\<forall>info \<in> set (gc_infos sample_cluster). gi_numa_node info = 1"
    by (simp add: sample_cluster_def)
  have two: "nt_node_count (gc_numa sample_cluster) = 2" by (simp add: sample_cluster_def)
  have dists: "\<forall>info \<in> set (gc_infos sample_cluster). \<forall>n < nt_node_count (gc_numa sample_cluster).
      numa_distance (gc_numa sample_cluster) (gi_numa_node info) n < 2 ^ 32 - 1"
    using node d by (auto simp: two less_2_cases_iff)
  have "gc_ordinal_map sample_cluster = ordinal_index (gc_ordinals sample_cluster)"
    "length (gc_infos sample_cluster) = length (gc_ordinals sample_cluster)"
    "0 < nt_node_count (gc_numa sample_cluster)"
    by (simp_all add: sample_cluster_def)
  note best = optimal_node_is_nearest [OF this dists]
  have "gi_numa_node (gc_infos sample_cluster ! 0) = 1" and ords: "gc_ordinals sample_cluster = [0]"
    by (simp_all add: sample_cluster_def)
  then have "\<exists>b < 2. optimal_dram_node sample_cluster 0 = Ok b \<and>
      (\<forall>n < 2. numa_distance (gc_numa sample_cluster) 1 b \<le> numa_distance (gc_numa sample_cluster) 1 n)"
    using best [of 0] by (auto simp: two)
  then have "optimal_dram_node sample_cluster 0 = Ok 1"
    using d by (auto simp: less_2_cases_iff)
  moreover have "optimal_dram_node sample_cluster 5 = Ok 0" using best [of 5] ords by simp
  ultimately show ?thesis by simp
qed

section \<open>Peer access\<close>

definition square :: "nat \<Rightarrow> bool list list \<Rightarrow> bool" where
  "square n m \<longleftrightarrow> length m = n \<and> (\<forall>row \<in> set m. length row = n)"

lemma square_cell: "square n m \<Longrightarrow> i < n \<Longrightarrow> j < n \<Longrightarrow> cell m i j = Some (m ! i ! j)"
  by (simp add: square_def cell_def vec_get_def)

lemma cell_bounds: "square n m \<Longrightarrow> cell m i j = Some b \<Longrightarrow> i < n \<and> j < n"
  by (auto simp: square_def cell_def vec_get_def split: if_splits)

lemma square_set_cell: "square n m \<Longrightarrow> i < n \<Longrightarrow> square n (set_cell m i j b)"
  unfolding square_def set_cell_def
  by (auto dest!: set_update_subset_insert [THEN subsetD])

lemma cell_set_cell:
  assumes "square n m" "i < n" "j < n"
  shows "cell (set_cell m i j b) x y = (if x = i \<and> y = j then Some b else cell m x y)"
proof -
  have "length m = n" "length (m ! i) = n" using assms by (simp_all add: square_def)
  with assms(2,3) show ?thesis
    by (auto simp: cell_def set_cell_def vec_get_def nth_list_update)
qed

text \<open>What every step of \<open>enable_all\<close> keeps, relative to the matrix \<open>m\<close> it started from.\<close>

definition peers_kept :: "nat \<Rightarrow> peer_matrix \<Rightarrow> 'w \<times> peer_matrix \<Rightarrow> bool" where
  "peers_kept n m s \<longleftrightarrow> pm_can_access (snd s) = pm_can_access m
     \<and> square n (pm_can_access m) \<and> square n (pm_enabled (snd s)) \<and> length (pm_primary_ctxs (snd s)) = n
     \<and> (\<forall>i j. is_enabled (snd s) i j \<longrightarrow> is_enabled m i j \<or> i \<noteq> j \<and> can_access m i j)
     \<and> (\<forall>i j. is_enabled m i j \<longrightarrow> is_enabled (snd s) i j)"

lemma enable_pair_kept:
  assumes "i < n" "j < n" and kept: "peers_kept n m s"
  shows "peers_kept n m (snd (enable_pair pf i j s)) \<and> fst (enable_pair pf i j s) \<noteq> Panic"
proof -
  obtain w q where s: "s = (w, q)" by force
  have sq: "square n (pm_can_access q)" "square n (pm_enabled q)" "length (pm_primary_ctxs q) = n"
    and same: "pm_can_access q = pm_can_access m"
    using kept by (simp_all add: peers_kept_def s)
  note cells = square_cell [OF sq(1) assms(1,2)] square_cell [OF sq(2) assms(1,2)]
  show ?thesis
  proof (cases "i = j \<or> \<not> pm_can_access q ! i ! j \<or> pm_enabled q ! i ! j")
    case True
    then show ?thesis using kept cells by (auto simp: enable_pair_def s)
  next
    case False
    obtain rc w' where call: "pf_enable_peer pf (pc_ctx (pm_primary_ctxs q ! j)) w = (rc, w')" by force
    let ?q = "q\<lparr>pm_enabled := set_cell (pm_enabled q) i j True\<rparr>"
    have run: "enable_pair pf i j s = (Ok (), (w', if rc = 0 \<or> rc = 704 then ?q else q))"
      using False cells call assms(2) sq(3) by (simp add: enable_pair_def s vec_get_def)
    have "can_access m i j" using False cells(1) same by (simp add: can_access_def)
    moreover have "is_enabled ?q x y = (x = i \<and> y = j \<or> is_enabled q x y)" for x y
      using cell_set_cell [OF sq(2) assms(1,2)] by (auto simp: is_enabled_def)
    ultimately have "peers_kept n m (w', ?q)"
      using kept False square_set_cell [OF sq(2) assms(1)] by (auto simp: peers_kept_def s)
    moreover have "peers_kept n m (w', q)" using kept by (simp add: peers_kept_def s)
    ultimately show ?thesis unfolding run by simp
  qed
qed

lemma enable_row_kept:
  assumes "i < n" and kept: "peers_kept n m s"
  shows "peers_kept n m (snd (enable_row pf n i s)) \<and> fst (enable_row pf n i s) \<noteq> Panic"
proof -
  obtain w q where s: "s = (w, q)" by force
  have ctx: "vec_get (pm_primary_ctxs q) i = Some (pm_primary_ctxs q ! i)"
    using kept assms(1) by (simp add: peers_kept_def s vec_get_def)
  obtain rc w1 where push: "pf_ctx_push pf (pc_ctx (pm_primary_ctxs q ! i)) w = (rc, w1)" by force
  have kept1: "peers_kept n m (w1, q)" using kept by (simp add: peers_kept_def s)
  show ?thesis
  proof (cases "rc = 0")
    case False
    then show ?thesis using ctx push kept1
      by (simp add: enable_row_def s scoped_def on_world_def pc_enter_def cu_call_def check_cu_def)
  next
    case True
    let ?body = "forM [0 ..< n] (enable_pair pf i) (w1, q)"
    have step: "peers_kept n m (snd (enable_pair pf i j t)) \<and> fst (enable_pair pf i j t) \<noteq> Panic"
      if "j \<in> set [0 ..< n]" "peers_kept n m t" for j t
      using that assms(1) enable_pair_kept by simp
    have body: "peers_kept n m (snd ?body)" "fst ?body \<noteq> Panic"
      using forM_inv [of "[0 ..< n]" "peers_kept n m" "enable_pair pf i"] kept1 step
        forM_no_panic [of "[0 ..< n]" "peers_kept n m" "enable_pair pf i"] by blast+
    obtain r w2 q2 where res: "?body = (r, (w2, q2))" by (metis prod.exhaust)
    have run: "enable_row pf n i s = (r, (guard_drop pf w2, q2))"
      using ctx push True res
      by (simp add: enable_row_def s scoped_def on_world_def pc_enter_def cu_call_def check_cu_def)
    show ?thesis using body res unfolding run by (simp add: peers_kept_def)
  qed
qed

lemma retain_all_length: "retain_all pf ords acc w = (Ok cs, w') \<Longrightarrow> length cs = length acc + length ords"
  by (induction ords arbitrary: acc w) (auto split: prod.splits outcome.splits)

lemma pc_retain_no_panic: "fst (pc_retain pf d w) \<noteq> Panic"
  unfolding pc_retain_def
  by (intro bindM_no_panic) (auto simp: cu_call_def cu_get_def check_cu_def run_simps split: prod.split)

lemma retain_all_no_panic: "fst (retain_all pf ords acc w) \<noteq> Panic"
proof (induction ords arbitrary: acc w)
  case (Cons d ords)
  then show ?case using pc_retain_no_panic [of pf d w]
    by (auto split: prod.split outcome.split)
qed simp

text \<open>
  Enabling peer access on the matrix that \<open>discover\<close> built for the same GPUs: it never
  panics; it marks a pair as enabled only if the driver reported it as capable and the two GPUs
  differ; it never unmarks a pair; and the capabilities are not changed. This holds on every error
  path too.
\<close>

theorem peer_enable_only_capable:
  assumes sq: "square (length ords) (pm_can_access m)" "square (length ords) (pm_enabled m)"
    and ctxs: "pm_primary_ctxs m = [] \<or> length (pm_primary_ctxs m) = length ords"
    and run: "enable_all pf ords (w, m) = (r, (w', m'))"
  shows "r \<noteq> Panic \<and> pm_can_access m' = pm_can_access m
    \<and> (\<forall>i j. is_enabled m' i j \<longrightarrow> is_enabled m i j \<or> i \<noteq> j \<and> can_access m i j)
    \<and> (\<forall>i j. is_enabled m i j \<longrightarrow> is_enabled m' i j)"
proof -
  let ?n = "length ords"
  have rows: "fst (forM [0 ..< ?n] (enable_row pf ?n) s) \<noteq> Panic
      \<and> peers_kept ?n m (snd (forM [0 ..< ?n] (enable_row pf ?n) s))" if "peers_kept ?n m s" for s
  proof -
    have step: "peers_kept ?n m (snd (enable_row pf ?n i t)) \<and> fst (enable_row pf ?n i t) \<noteq> Panic"
      if "i \<in> set [0 ..< ?n]" "peers_kept ?n m t" for i t
      using that enable_row_kept by simp
    with forM_inv [of "[0 ..< ?n]" "peers_kept ?n m" "enable_row pf ?n" s]
      forM_no_panic [of "[0 ..< ?n]" "peers_kept ?n m" "enable_row pf ?n" s] that
    show ?thesis by blast
  qed
  show ?thesis
  proof (cases "pm_primary_ctxs m = []")
    case False
    then have "peers_kept ?n m (w, m)" using sq ctxs by (simp add: peers_kept_def)
    from rows [OF this] run False show ?thesis by (simp add: enable_all_def peers_kept_def)
  next
    case True
    obtain q w1 where ret: "retain_all pf ords [] w = (q, w1)" by force
    show ?thesis
    proof (cases q)
      case (Ok cs)
      have "peers_kept ?n m (w1, m\<lparr>pm_primary_ctxs := cs\<rparr>)"
        using sq retain_all_length [OF ret [unfolded Ok]]
        by (simp add: peers_kept_def is_enabled_def)
      from rows [OF this] run True ret Ok show ?thesis by (simp add: enable_all_def peers_kept_def)
    next
      case (Err e)
      with run True ret show ?thesis by (auto simp: enable_all_def)
    next
      case Panic
      with retain_all_no_panic [of pf ords "[]" w] ret show ?thesis by simp
    qed
  qed
qed

theorem peer_enable_only_capable_witness:
  "\<exists>m'. snd (snd (enable_all (idle_platform :: unit platform) [0] ((), gc_peer_matrix sample_cluster))) = m'
    \<and> \<not> is_enabled m' 0 0"
proof -
  let ?m = "gc_peer_matrix sample_cluster"
  obtain r w' m' where run: "enable_all (idle_platform :: unit platform) [0] ((), ?m) = (r, (w', m'))"
    by (metis prod.exhaust)
  have "square (length [0 :: int]) (pm_can_access ?m)" "square (length [0 :: int]) (pm_enabled ?m)"
    "pm_primary_ctxs ?m = []" "\<not> is_enabled ?m 0 0"
    by (simp_all add: sample_cluster_def square_def is_enabled_def cell_def vec_get_def)
  with peer_enable_only_capable [OF _ _ _ run] run show ?thesis by auto
qed

end
