(* ===== verification/Tiered.thy ===== *)
theory Tiered
  imports Gpu DramPool Dma Membrane
begin

text \<open>
  \<open>src/tiered.rs\<close>, \<open>struct TieredPool\<close>: the three-tier pool, over the components it is made of. Host
  memory is part of the state, because the code writes it and the driver copies from and to it; the
  driver and everything else outside the process is the platform's world. Device memory is the
  driver's.
\<close>

section \<open>State\<close>

type_synonym vram_block = "usize \<times> u64"

record 'w tiered_pool =
  tp_vmt :: vmt
  tp_dma :: dma_engine
  tp_cluster :: gpu_cluster
  tp_streams :: stream_pool
  tp_contexts :: context_registry
  tp_dram_pools :: "dram_pool list"
  tp_vram_free :: "vram_block list list"
  tp_spill :: "spill_file option"
  tp_inflight :: "string \<Rightarrow> (usize \<times> u64 \<times> usize \<times> cuda_event) option"
  tp_membrane :: membrane
  tp_policy :: tier_policy
  tp_membrane_budget :: "usize option"
  tp_idle_threshold_ns :: u64
  tp_hot_threshold :: u64
  tp_host :: host_memory
  tp_world :: 'w

definition DEFAULT_IDLE_NS :: u64 where
  "DEFAULT_IDLE_NS = 5000000000"

definition HOT_ACCESS_THRESHOLD :: u64 where
  "HOT_ACCESS_THRESHOLD = 10"

text \<open>Operations of the parts, as operations of the pool.\<close>

definition worldM :: "('w, 'a) op \<Rightarrow> ('w tiered_pool, 'a) op" where
  "worldM m p = (case m (tp_world p) of (r, w) \<Rightarrow> (r, p\<lparr>tp_world := w\<rparr>))"

definition ignoreW :: "('w \<Rightarrow> int \<times> 'w) \<Rightarrow> ('w tiered_pool, unit) op" where
  "ignoreW f p = (Ok (), p\<lparr>tp_world := cu_ignore f (tp_world p)\<rparr>)"

definition dmaM :: "(dma_engine, 'a) op \<Rightarrow> ('w tiered_pool, 'a) op" where
  "dmaM m p = (case m (tp_dma p) of (r, e) \<Rightarrow> (r, p\<lparr>tp_dma := e\<rparr>))"

definition vmtM :: "(vmt, 'a) op \<Rightarrow> ('w tiered_pool, 'a) op" where
  "vmtM m p = (case m (tp_vmt p) of (r, v) \<Rightarrow> (r, p\<lparr>tp_vmt := v\<rparr>))"

text \<open>\<open>self.dram_pools[i]\<close>, which panics past the end.\<close>

definition dramM :: "nat \<Rightarrow> (dram_pool, 'a) op \<Rightarrow> ('w tiered_pool, 'a) op" where
  "dramM i m p =
     (if i < length (tp_dram_pools p)
      then (case m (tp_dram_pools p ! i) of
              (r, d) \<Rightarrow> (r, p\<lparr>tp_dram_pools := (tp_dram_pools p)[i := d]\<rparr>))
      else (Panic, p))"

definition lookupM :: "string \<Rightarrow> ('w tiered_pool, page) op" where
  "lookupM name p = ok_or (vmt_lookup (tp_vmt p) name) (UnknownAllocation name) p"

text \<open>\<open>self.vmt.lookup_mut(name).unwrap()\<close> with a write \<open>f\<close> through it.\<close>

definition modify_page :: "string \<Rightarrow> (page \<Rightarrow> page) \<Rightarrow> ('w tiered_pool, unit) op" where
  "modify_page name f p =
     bindM (unwrapM (vmt_lookup (tp_vmt p) name)) (\<lambda>_.
       modM (\<lambda>p. p\<lparr>tp_vmt := vmt_modify name f (tp_vmt p)\<rparr>)) p"

text \<open>A local with a destructor: \<open>fin\<close> runs when the block ends, however it ends.\<close>

definition finallyM :: "('s, 'a) op \<Rightarrow> ('s \<Rightarrow> 's) \<Rightarrow> ('s, 'a) op" where
  "finallyM m fin s = (case m s of (r, t) \<Rightarrow> (r, fin t))"

text \<open>\<open>i as usize\<close> of an \<open>i32\<close> extends the sign.\<close>

definition i32_as_usize :: "int \<Rightarrow> usize" where
  "i32_as_usize i = nat (i mod 2 ^ 64)"

section \<open>Construction\<close>

text \<open>\<open>allocate_numa_dram\<close>, with the rounding to pages, the node mask and the \<open>mbind\<close> call.\<close>

definition page_round :: "usize \<Rightarrow> usize" where
  "page_round bytes = unat ((word_of_nat bytes + word_of_nat 4096 - 1) AND NOT (word_of_nat 4096 - 1) :: 64 word)"

definition node_mask :: "usize \<Rightarrow> u64 list" where
  "node_mask numa_node =
     (let words = numa_node div 64 + 1; nodemask = replicate words 0
      in nodemask[numa_node div 64 := 2 ^ (numa_node mod 64)])"

definition allocate_numa_dram :: "'w platform \<Rightarrow> usize \<Rightarrow> usize \<Rightarrow> ('w, usize \<times> bool) op" where
  "allocate_numa_dram pf bytes numa_node w =
     (let aligned_size = page_round bytes in
      case pf_mmap pf aligned_size w of
        (ptr, w1) \<Rightarrow>
          if ptr = 0 \<or> ptr = W64 - 1 then (Err (CudaError ''mmap'' 2), w1)
          else
           (let words = numa_node div 64 + 1; maxnode = words * 64 in
            case pf_mbind pf ptr aligned_size (node_mask numa_node) maxnode w1 of
              (rc, w2) \<Rightarrow> (Ok (ptr, rc = 0), w2)))"

definition libc_free :: "'w platform \<Rightarrow> usize \<Rightarrow> usize \<Rightarrow> 'w \<Rightarrow> 'w" where
  "libc_free pf ptr bytes w = (if ptr \<noteq> 0 \<and> 0 < bytes then cu_ignore (pf_munmap pf ptr bytes) w else w)"

text \<open>One round of the loop of \<open>TieredPool::new\<close>: map, register, and describe the pool of GPU \<open>idx\<close>.\<close>

definition make_dram_pool ::
  "'w platform \<Rightarrow> gpu_cluster \<Rightarrow> context_registry \<Rightarrow> usize \<Rightarrow> usize \<times> int \<Rightarrow> ('w, dram_pool) op" where
  "make_dram_pool pf cluster contexts bytes = (\<lambda>(idx, ord).
     bindM (liftM (optimal_dram_node cluster ord)) (\<lambda>optimal_node.
     bindM (allocate_numa_dram pf bytes optimal_node) (\<lambda>(base_ptr, numa_bound).
     bindM (scoped (registry_enter pf contexts idx) (guard_drop pf)
              (\<lambda>w. if pf_no_pin pf w then (Ok False, w)
                   else (case pf_host_register pf base_ptr bytes w of (rc, w') \<Rightarrow> (Ok (rc = 0), w'))))
       (\<lambda>pinned.
     retM \<lparr>dp_numa_node = optimal_node, dp_gpu_ordinal = ord, dp_base_ptr = base_ptr, dp_capacity = bytes,
           dp_offset = 0, dp_free_blocks = [], dp_numa_bound = numa_bound, dp_pinned = pinned\<rparr>))))"

definition drop_stream_pool :: "'w platform \<Rightarrow> stream_pool \<Rightarrow> 'w \<Rightarrow> 'w" where
  "drop_stream_pool pf st w = drop_streams pf (st_prefetch st) (drop_streams pf (st_compute st) w)"

text \<open>
  \<open>TieredPool::new\<close>. On an error the streams and the contexts made so far are dropped, in reverse
  order; the mappings of the DRAM pools have no destructor.
\<close>

definition tiered_new ::
  "'w platform \<Rightarrow> (real \<Rightarrow> f64) \<Rightarrow> int list \<Rightarrow> usize \<Rightarrow> host_memory \<Rightarrow> 'w \<Rightarrow> 'w tiered_pool outcome \<times> 'w" where
  "tiered_new pf fl ords bytes host =
     bindM (cluster_discover pf ords) (\<lambda>cluster.
     bindM (registry_new pf ords) (\<lambda>contexts.
       (\<lambda>w. case stream_pool_new pf contexts w of
          (Ok streams, w1) \<Rightarrow>
            (case mapM (make_dram_pool pf cluster contexts bytes) (enumerate 0 ords) w1 of
               (Ok pools, w2) \<Rightarrow>
                 (Ok \<lparr>tp_vmt = vmt_new (length ords) (nt_node_count (gc_numa cluster)),
                      tp_dma = dma_new (length ords), tp_cluster = cluster, tp_streams = streams,
                      tp_contexts = contexts, tp_dram_pools = pools,
                      tp_vram_free = replicate (length ords) [], tp_spill = None,
                      tp_inflight = Map.empty, tp_membrane = membrane_new, tp_policy = policy_default fl,
                      tp_membrane_budget = None, tp_idle_threshold_ns = DEFAULT_IDLE_NS,
                      tp_hot_threshold = HOT_ACCESS_THRESHOLD, tp_host = host, tp_world = w2\<rparr>, w2)
             | (Err e, w2) \<Rightarrow> (Err e, drop_contexts pf (cr_contexts contexts) (drop_stream_pool pf streams w2))
             | (Panic, w2) \<Rightarrow> (Panic, drop_contexts pf (cr_contexts contexts) (drop_stream_pool pf streams w2)))
        | (Err e, w1) \<Rightarrow> (Err e, drop_contexts pf (cr_contexts contexts) w1)
        | (Panic, w1) \<Rightarrow> (Panic, drop_contexts pf (cr_contexts contexts) w1))))"

definition drop_spill :: "'w platform \<Rightarrow> spill_file option \<Rightarrow> 'w \<Rightarrow> 'w" where
  "drop_spill pf s w = (case s of
      None \<Rightarrow> w
    | Some s \<Rightarrow> (case spill_drop s of None \<Rightarrow> w | Some path \<Rightarrow> cu_ignore (pf_remove_file pf path) w))"

text \<open>A file attached before is dropped by the assignment, after the new one has been created.\<close>

definition attach_spill :: "'w platform \<Rightarrow> string \<Rightarrow> usize \<Rightarrow> bool \<Rightarrow> ('w tiered_pool, unit) op" where
  "attach_spill pf path capacity unlink_on_drop p =
     (case pf_open pf path (tp_world p) of
        (Some e, w1) \<Rightarrow> (Err (Io e), p\<lparr>tp_world := w1\<rparr>)
      | (None, w1) \<Rightarrow>
          (case pf_set_len pf path capacity w1 of
             (len_err, w2) \<Rightarrow>
               (case spill_create None len_err path capacity unlink_on_drop of
                  Ok s \<Rightarrow> (Ok (), p\<lparr>tp_world := drop_spill pf (tp_spill p) w2, tp_spill := Some s\<rparr>)
                | Err e \<Rightarrow> (Err e, p\<lparr>tp_world := w2\<rparr>)
                | Panic \<Rightarrow> (Panic, p\<lparr>tp_world := w2\<rparr>))))"

definition has_spill :: "'w tiered_pool \<Rightarrow> bool" where
  "has_spill p \<longleftrightarrow> tp_spill p \<noteq> None"

definition tiered_spill_used :: "'w tiered_pool \<Rightarrow> usize" where
  "tiered_spill_used p = (case tp_spill p of None \<Rightarrow> 0 | Some s \<Rightarrow> spill_used s)"

section \<open>Allocation\<close>

definition no_spill_message :: "string \<Rightarrow> string" where
  "no_spill_message name = name @ '': Tier::Ssd requires a spill file '' @ [CHR 0xE2, CHR 0x80, CHR 0x94]
     @ '' call TieredPool::attach_spill first''"

definition tier_state :: "tier \<Rightarrow> page_state" where
  "tier_state t = (case t of Vram \<Rightarrow> Resident | Dram \<Rightarrow> Warm | Ssd \<Rightarrow> Cold)"

text \<open>The size of the DRAM chunk of pool \<open>i\<close>: the last pool takes the remainder of the division.\<close>

definition shard_bytes :: "usize \<Rightarrow> nat \<Rightarrow> nat \<Rightarrow> usize" where
  "shard_bytes total_bytes num_pools i =
     uadd (total_bytes div num_pools) (if i + 1 = num_pools then total_bytes mod num_pools else 0)"

definition add_shard :: "string \<Rightarrow> usize \<Rightarrow> nat \<Rightarrow> nat \<Rightarrow> ('w tiered_pool, unit) op" where
  "add_shard name total_bytes num_pools i =
     (let chunk_bytes = shard_bytes total_bytes num_pools i in
      bindM (dramM i (\<lambda>d. dp_allocate d chunk_bytes)) (\<lambda>host_ptr.
      bindM (getM (\<lambda>p. dp_numa_node (tp_dram_pools p ! i))) (\<lambda>node.
      modify_page name (\<lambda>pg. pg\<lparr>pg_dram_chunks := pg_dram_chunks pg @
        [\<lparr>dc_numa_node = node, dc_host_ptr = host_ptr, dc_size_bytes = chunk_bytes, dc_cuda_registered = False\<rparr>]\<rparr>))))"

definition spillM :: "vugva_error \<Rightarrow> (spill_file, 'a) op \<Rightarrow> ('w tiered_pool, 'a) op" where
  "spillM err m p =
     (case tp_spill p of
        None \<Rightarrow> (Err err, p)
      | Some s \<Rightarrow> (case m s of (r, s') \<Rightarrow> (r, p\<lparr>tp_spill := Some s'\<rparr>)))"

definition tiered_allocate :: "string \<Rightarrow> usize list \<Rightarrow> usize \<Rightarrow> tier \<Rightarrow> ('w tiered_pool, string) op" where
  "tiered_allocate name shape element_size initial_tier =
     (let total_bytes = umul (uproduct shape) element_size in
      bindM (vmtM (vmt_allocate name shape element_size)) (\<lambda>alloc_name.
      if initial_tier = Ssd then
        bindM (spillM (UnknownAllocation (no_spill_message alloc_name)) (spill_reserve total_bytes)) (\<lambda>offset.
        bindM (modify_page alloc_name (\<lambda>pg. pg\<lparr>pg_tier := Ssd, pg_state := Cold, pg_ssd_offset := Some offset\<rparr>)) (\<lambda>_.
        retM alloc_name))
      else
        bindM (getM (\<lambda>p. length (tp_dram_pools p))) (\<lambda>num_pools.
        bindM (modify_page alloc_name (\<lambda>pg. pg\<lparr>pg_tier := initial_tier\<rparr>)) (\<lambda>_.
        bindM (if num_pools = 0 then panicM else retM ()) (\<lambda>_.
        bindM (forM [0 ..< num_pools] (add_shard alloc_name total_bytes num_pools)) (\<lambda>_.
        bindM (modify_page alloc_name (\<lambda>pg. pg\<lparr>pg_state := tier_state initial_tier\<rparr>)) (\<lambda>_.
        retM alloc_name)))))))"

section \<open>Device memory\<close>

definition set_context :: "'w platform \<Rightarrow> usize \<Rightarrow> ('w tiered_pool, unit) op" where
  "set_context pf gpu_idx p = worldM (registry_bind pf (tp_contexts p) gpu_idx) p"

text \<open>A cached block of exactly the size is taken; otherwise the driver is asked.\<close>

definition alloc_vram_on_gpu :: "'w platform \<Rightarrow> usize \<Rightarrow> usize \<Rightarrow> ('w tiered_pool, u64) op" where
  "alloc_vram_on_gpu pf gpu_idx bytes p =
     (case vec_get (tp_vram_free p) gpu_idx of
        None \<Rightarrow> (Err (InvalidGpu gpu_idx), p)
      | Some cache \<Rightarrow>
          (case position (\<lambda>(sz, _). sz = bytes) cache of
             Some i \<Rightarrow>
               (Ok (snd (cache ! i)),
                p\<lparr>tp_vram_free := (tp_vram_free p)[gpu_idx := vec_swap_remove i cache]\<rparr>)
           | None \<Rightarrow>
               bindM (set_context pf gpu_idx) (\<lambda>_.
                 worldM (cu_get ''cuMemAlloc_v2'' (pf_mem_alloc pf bytes))) p))"

definition free_vram_on_gpu :: "usize \<Rightarrow> u64 \<Rightarrow> usize \<Rightarrow> ('w tiered_pool, unit) op" where
  "free_vram_on_gpu gpu_idx ptr bytes p =
     (if ptr = 0 then (Ok (), p)
      else case vec_get (tp_vram_free p) gpu_idx of
        None \<Rightarrow> (Err (InvalidGpu gpu_idx), p)
      | Some cache \<Rightarrow>
          (Ok (), p\<lparr>tp_vram_free := (tp_vram_free p)[gpu_idx := cache @ [(bytes, ptr)]]\<rparr>))"

text \<open>
  The end of every promotion: the page gains a chunk on the GPU, and is hot and resident. The
  ordinal is indexed and the size divided by the element size, and both can panic.
\<close>

definition install_chunk :: "string \<Rightarrow> usize \<Rightarrow> u64 \<Rightarrow> usize \<Rightarrow> ('w tiered_pool, unit) op" where
  "install_chunk name gpu_idx ptr bytes p =
     bindM (unwrapM (vmt_lookup (tp_vmt p) name)) (\<lambda>page.
     bindM (unwrapM (vec_get (gc_ordinals (tp_cluster p)) gpu_idx)) (\<lambda>ordinal.
     bindM (if pg_element_size page = 0 then panicM else retM ()) (\<lambda>_.
     modify_page name (\<lambda>pg. pg\<lparr>
       pg_vram_chunks := pg_vram_chunks pg @ [\<lparr>ck_gpu_ordinal = ordinal, ck_device_ptr = ptr,
         ck_size_bytes = bytes, ck_num_elements = bytes div pg_element_size page\<rparr>],
       pg_tier := Vram, pg_state := Resident\<rparr>)))) p"

text \<open>\<open>self.streams.compute[i].synchronize()?\<close> and the same stream's handle.\<close>

definition compute_stream :: "usize \<Rightarrow> ('w tiered_pool, cuda_stream) op" where
  "compute_stream gpu_idx p = unwrapM (vec_get (st_compute (tp_streams p)) gpu_idx) p"

definition prefetch_stream :: "usize \<Rightarrow> ('w tiered_pool, cuda_stream) op" where
  "prefetch_stream gpu_idx p = unwrapM (vec_get (st_prefetch (tp_streams p)) gpu_idx) p"

definition sync_compute :: "'w platform \<Rightarrow> usize \<Rightarrow> ('w tiered_pool, unit) op" where
  "sync_compute pf gpu_idx = bindM (compute_stream gpu_idx) (\<lambda>s. worldM (stream_synchronize pf s))"

section \<open>Prefetch\<close>

definition drop_event :: "'w platform \<Rightarrow> cuda_event \<Rightarrow> 'w tiered_pool \<Rightarrow> 'w tiered_pool" where
  "drop_event pf event p = p\<lparr>tp_world := event_drop pf event (tp_world p)\<rparr>"

definition claim_prefetch :: "'w platform \<Rightarrow> string \<Rightarrow> usize \<Rightarrow> u64 \<Rightarrow> ('w tiered_pool, u64 option) op" where
  "claim_prefetch pf name gpu_idx now p =
     (case tp_inflight p name of
        None \<Rightarrow> (Ok None, p)
      | Some (pf_gpu, ptr, bytes, event) \<Rightarrow>
          finallyM
            (if pf_gpu \<noteq> gpu_idx then
               bindM (ignoreM (free_vram_on_gpu pf_gpu ptr bytes)) (\<lambda>_. retM None)
             else
               bindM (worldM (event_synchronize pf event)) (\<lambda>_.
               bindM (install_chunk name gpu_idx ptr bytes) (\<lambda>_.
               bindM (modify_page name (page_touch now)) (\<lambda>_.
               retM (Some ptr)))))
            (drop_event pf event)
            (p\<lparr>tp_inflight := (tp_inflight p)(name := None)\<rparr>))"

text \<open>
  \<open>prefetch\<close> of a warm page: a device block, an event, the copy on the prefetch stream, the record
  behind it. The bytes are read from host memory when the copy is issued.
\<close>

definition start_prefetch :: "'w platform \<Rightarrow> string \<Rightarrow> usize \<Rightarrow> usize \<Rightarrow> usize \<Rightarrow> ('w tiered_pool, unit) op" where
  "start_prefetch pf name gpu_idx bytes host_ptr =
     bindM (alloc_vram_on_gpu pf gpu_idx bytes) (\<lambda>dst.
     bindM (set_context pf gpu_idx) (\<lambda>_.
     bindM (worldM (event_new_blocking pf)) (\<lambda>event p.
       let body =
         bindM (prefetch_stream gpu_idx) (\<lambda>stream.
         bindM (getM (\<lambda>p. slice (tp_host p) host_ptr bytes)) (\<lambda>bs.
         bindM (\<lambda>p. case pf_htod_async pf dst bs (cs_inner stream) (tp_world p) of
                  (rc, w) \<Rightarrow> (Ok rc, p\<lparr>tp_world := w\<rparr>)) (\<lambda>rc.
         if rc \<noteq> 0 then
           bindM (ignoreM (free_vram_on_gpu gpu_idx dst bytes)) (\<lambda>_.
             liftM (check_cu ''cuMemcpyHtoDAsync_v2'' rc))
         else worldM (event_record pf event stream))))
       in case body p of
            (Ok _, q) \<Rightarrow> (Ok (), q\<lparr>tp_inflight := (tp_inflight q)(name \<mapsto> (gpu_idx, dst, bytes, event))\<rparr>)
          | (Err e, q) \<Rightarrow> (Err e, drop_event pf event q)
          | (Panic, q) \<Rightarrow> (Panic, drop_event pf event q))))"

definition prefetch :: "'w platform \<Rightarrow> string \<Rightarrow> usize \<Rightarrow> ('w tiered_pool, unit) op" where
  "prefetch pf name gpu_idx p =
     (if tp_inflight p name \<noteq> None then (Ok (), p)
      else case vmt_lookup (tp_vmt p) name of
        None \<Rightarrow> (Ok (), p)
      | Some page \<Rightarrow>
          (if pg_tier page \<noteq> Dram then (Ok (), p)
           else case vec_get (pg_dram_chunks page) 0 of
             None \<Rightarrow> (Ok (), p)
           | Some c \<Rightarrow> start_prefetch pf name gpu_idx (pg_size_bytes page) (dc_host_ptr c) p))"

definition inflight_count :: "'w tiered_pool \<Rightarrow> nat" where
  "inflight_count p = card (dom (tp_inflight p))"

section \<open>Access\<close>

text \<open>What \<open>access\<close> reads of the page: this GPU's device chunk, another GPU's, this GPU's shard.\<close>

definition chunk_here :: "page \<Rightarrow> int \<Rightarrow> chunk option" where
  "chunk_here page ordinal = List.find (\<lambda>c. ck_gpu_ordinal c = ordinal) (pg_vram_chunks page)"

definition chunk_elsewhere :: "page \<Rightarrow> int \<Rightarrow> chunk option" where
  "chunk_elsewhere page ordinal = List.find (\<lambda>c. ck_gpu_ordinal c \<noteq> ordinal) (pg_vram_chunks page)"

definition touchM :: "string \<Rightarrow> u64 \<Rightarrow> ('w tiered_pool, unit) op" where
  "touchM name now = modify_page name (page_touch now)"

text \<open>\<open>Tier::Vram\<close>: resident here, or copied from the GPU it is on.\<close>

definition raw_context :: "usize \<Rightarrow> ('w tiered_pool, u64) op" where
  "raw_context gpu_idx p = bindM (registry_get (tp_contexts p) gpu_idx) (\<lambda>c. retM (pc_ctx c)) p"

definition access_peer :: "'w platform \<Rightarrow> string \<Rightarrow> usize \<Rightarrow> u64 \<Rightarrow> chunk \<Rightarrow> ('w tiered_pool, u64) op" where
  "access_peer pf name gpu_idx now src p =
     (let bytes = ck_size_bytes src in
      bindM (ok_or (index_of (tp_cluster p) (ck_gpu_ordinal src))
               (InvalidGpu (i32_as_usize (ck_gpu_ordinal src)))) (\<lambda>src_idx.
      bindM (alloc_vram_on_gpu pf gpu_idx bytes) (\<lambda>dst_ptr.
      bindM (compute_stream gpu_idx) (\<lambda>stream.
      bindM (raw_context gpu_idx) (\<lambda>dst_ctx.
      bindM (raw_context src_idx) (\<lambda>src_ctx.
      bindM (worldM (cu_call ''cuMemcpyPeerAsync''
               (pf_peer_async pf dst_ptr dst_ctx (ck_device_ptr src) src_ctx bytes (cs_inner stream)))) (\<lambda>_.
      bindM (sync_compute pf gpu_idx) (\<lambda>_.
      bindM (touchM name now) (\<lambda>_.
      bindM (install_chunk name gpu_idx dst_ptr bytes) (\<lambda>_.
      retM dst_ptr)))))))))) p"

definition access_vram ::
  "'w platform \<Rightarrow> string \<Rightarrow> usize \<Rightarrow> u64 \<Rightarrow> chunk option \<Rightarrow> chunk option \<Rightarrow> ('w tiered_pool, u64) op" where
  "access_vram pf name gpu_idx now here elsewhere =
     (case here of
        Some c \<Rightarrow> bindM (touchM name now) (\<lambda>_. retM (ck_device_ptr c))
      | None \<Rightarrow> bindM (ok_or elsewhere (UnknownAllocation name)) (access_peer pf name gpu_idx now))"

text \<open>
  \<open>Tier::Dram\<close>: a block, a descriptor for the ring, the copy on the compute stream and the wait for
  it. The status of the copy call is not looked at.
\<close>

definition access_dram ::
  "'w platform \<Rightarrow> string \<Rightarrow> usize \<Rightarrow> u64 \<Rightarrow> dram_chunk option \<Rightarrow> ('w tiered_pool, u64) op" where
  "access_dram pf name gpu_idx now shard =
     bindM (ok_or shard (UnknownAllocation name)) (\<lambda>dram.
     (let bytes = dc_size_bytes dram; src_ptr = dc_host_ptr dram in
      bindM (alloc_vram_on_gpu pf gpu_idx bytes) (\<lambda>dst_ptr.
      bindM (dmaM (submit_dram_to_vram gpu_idx (word_of_nat src_ptr) (word_of_nat dst_ptr) bytes 2)) (\<lambda>_.
      bindM (set_context pf gpu_idx) (\<lambda>_.
      bindM (compute_stream gpu_idx) (\<lambda>stream.
      bindM (getM (\<lambda>p. slice (tp_host p) src_ptr bytes)) (\<lambda>bs.
      bindM (ignoreW (pf_htod_async pf dst_ptr bs (cs_inner stream))) (\<lambda>_.
      bindM (sync_compute pf gpu_idx) (\<lambda>_.
      bindM (touchM name now) (\<lambda>_.
      bindM (install_chunk name gpu_idx dst_ptr bytes) (\<lambda>_.
      retM dst_ptr)))))))))))"

text \<open>
  \<open>Tier::Ssd\<close>. The staging buffer: the page's own shard when it is large enough, otherwise scratch
  from the GPU's pool, halved until it is granted; at or below 1 MiB the failure is final.
\<close>

function stage_alloc :: "usize \<Rightarrow> usize \<Rightarrow> ('w tiered_pool, usize \<times> usize) op" where
  "stage_alloc gpu_idx want p =
     (case dramM gpu_idx (\<lambda>d. dp_allocate d want) p of
        (Ok ptr, q) \<Rightarrow> (Ok (ptr, want), q)
      | (Err e, q) \<Rightarrow> (if want \<le> 2 ^ 20 then (Err e, q) else stage_alloc gpu_idx (want div 2) q)
      | (Panic, q) \<Rightarrow> (Panic, q))"
  by pat_completeness auto
termination
  by (relation "measure (\<lambda>(gpu_idx, want, p). want)") auto

declare stage_alloc.simps [simp del]

text \<open>One chunk of the streaming loop: read it into the staging buffer, copy it to the device.\<close>

definition stage_chunk ::
  "'w platform \<Rightarrow> u64 \<Rightarrow> usize \<Rightarrow> u64 \<Rightarrow> usize \<Rightarrow> usize \<Rightarrow> ('w tiered_pool, unit) op" where
  "stage_chunk pf offset stage_ptr dst_ptr done this =
     bindM (\<lambda>p. case tp_spill p of
              None \<Rightarrow> (Panic, p)
            | Some s \<Rightarrow>
                (case pf_io pf (tp_world p) of
                   (io, w) \<Rightarrow>
                     (case spill_read_into io s (uadd offset done) stage_ptr this (tp_host p) of
                        (r, host) \<Rightarrow> (r, p\<lparr>tp_world := w, tp_host := host\<rparr>)))) (\<lambda>_.
     bindM (getM (\<lambda>p. slice (tp_host p) stage_ptr this)) (\<lambda>bs.
     worldM (cu_call ''cuMemcpyHtoD_v2'' (pf_htod pf (uadd dst_ptr done) bs))))"

text \<open>
  The loop \<open>while done < total\<close>. \<open>fuel\<close> bounds the number of rounds, and \<open>None\<close> is running out of it;
  \<open>access\<close> gives as much as there are bytes, which is enough whenever the staging buffer is not
  empty (\<open>stage_loop_returns\<close> below).
\<close>

fun stage_loop ::
  "nat \<Rightarrow> 'w platform \<Rightarrow> u64 \<Rightarrow> usize \<Rightarrow> usize \<Rightarrow> u64 \<Rightarrow> usize \<Rightarrow> usize \<Rightarrow>
   'w tiered_pool \<Rightarrow> (unit outcome \<times> 'w tiered_pool) option" where
  "stage_loop fuel pf offset stage_ptr stage_len dst_ptr bytes done p =
     (if done < bytes then
        (case fuel of
           0 \<Rightarrow> None
         | Suc fuel' \<Rightarrow>
             (let this = min stage_len (bytes - done) in
              case stage_chunk pf offset stage_ptr dst_ptr done this p of
                (Ok _, q) \<Rightarrow> stage_loop fuel' pf offset stage_ptr stage_len dst_ptr bytes (uadd done this) q
              | (Err e, q) \<Rightarrow> Some (Err e, q)
              | (Panic, q) \<Rightarrow> Some (Panic, q)))
      else Some (Ok (), p))"

declare stage_loop.simps [simp del]

definition stage_copy ::
  "'w platform \<Rightarrow> string \<Rightarrow> usize \<Rightarrow> u64 \<Rightarrow> usize \<Rightarrow> usize \<Rightarrow> u64 \<Rightarrow> usize \<Rightarrow> ('w tiered_pool, unit) op" where
  "stage_copy pf name gpu_idx offset stage_ptr stage_len dst_ptr bytes =
     bindM (spillM (UnknownAllocation (name @ '': page is on Tier::Ssd but no spill file is attached''))
              (\<lambda>s. (Ok (), s))) (\<lambda>_.
     bindM (set_context pf gpu_idx) (\<lambda>_ p.
       case stage_loop bytes pf offset stage_ptr stage_len dst_ptr bytes 0 p of
         None \<Rightarrow> (Panic, p)
       | Some result \<Rightarrow> result))"

definition dram_freeM :: "nat \<Rightarrow> usize \<Rightarrow> usize \<Rightarrow> ('w tiered_pool, unit) op" where
  "dram_freeM i ptr bytes = dramM i (\<lambda>d. (Ok (), dp_free d ptr bytes))"

definition access_ssd ::
  "'w platform \<Rightarrow> string \<Rightarrow> usize \<Rightarrow> u64 \<Rightarrow> page \<Rightarrow> dram_chunk option \<Rightarrow> ('w tiered_pool, u64) op" where
  "access_ssd pf name gpu_idx now page shard =
     bindM (ok_or (pg_ssd_offset page)
              (UnknownAllocation (name @ '': page is on Tier::Ssd but has no spill offset''))) (\<lambda>offset.
     (let bytes = pg_size_bytes page in
      bindM (alloc_vram_on_gpu pf gpu_idx bytes) (\<lambda>dst_ptr.
      bindM (case shard of
               Some c \<Rightarrow>
                 (if bytes \<le> dc_size_bytes c then retM (dc_host_ptr c, bytes, False)
                  else bindM (catchM (stage_alloc gpu_idx bytes)) (\<lambda>res. case res of
                      Inr (ptr, want) \<Rightarrow> retM (ptr, want, True)
                    | Inl e \<Rightarrow> bindM (ignoreM (free_vram_on_gpu gpu_idx dst_ptr bytes)) (\<lambda>_. errM e)))
             | None \<Rightarrow>
                 bindM (catchM (stage_alloc gpu_idx bytes)) (\<lambda>res. case res of
                      Inr (ptr, want) \<Rightarrow> retM (ptr, want, True)
                    | Inl e \<Rightarrow> bindM (ignoreM (free_vram_on_gpu gpu_idx dst_ptr bytes)) (\<lambda>_. errM e)))
        (\<lambda>(stage_ptr, stage_len, borrowed).
      bindM (catchM (stage_copy pf name gpu_idx offset stage_ptr stage_len dst_ptr bytes)) (\<lambda>copy_res.
      bindM (if borrowed then dram_freeM gpu_idx stage_ptr stage_len else retM ()) (\<lambda>_.
      bindM (case copy_res of
               Inl e \<Rightarrow> bindM (ignoreM (free_vram_on_gpu gpu_idx dst_ptr bytes)) (\<lambda>_. errM e)
             | Inr _ \<Rightarrow> retM ()) (\<lambda>_.
      bindM (touchM name now) (\<lambda>_.
      bindM (install_chunk name gpu_idx dst_ptr bytes) (\<lambda>_.
      retM dst_ptr)))))))))"

definition access :: "'w platform \<Rightarrow> string \<Rightarrow> usize \<Rightarrow> ('w tiered_pool, u64) op" where
  "access pf name gpu_idx =
     bindM (worldM (\<lambda>w. case pf_clock pf w of (now, w') \<Rightarrow> (Ok now, w'))) (\<lambda>now.
     bindM (modM (\<lambda>p. p\<lparr>tp_membrane := observe name (tp_membrane p)\<rparr>)) (\<lambda>_.
     bindM (claim_prefetch pf name gpu_idx now) (\<lambda>claimed.
     case claimed of
       Some ptr \<Rightarrow> retM ptr
     | None \<Rightarrow>
         bindM (lookupM name) (\<lambda>page.
         bindM (\<lambda>p. unwrapM (vec_get (gc_ordinals (tp_cluster p)) gpu_idx) p) (\<lambda>ordinal.
         (let shard = vec_get (pg_dram_chunks page) gpu_idx in
          case pg_tier page of
            Vram \<Rightarrow> access_vram pf name gpu_idx now (chunk_here page ordinal) (chunk_elsewhere page ordinal)
          | Dram \<Rightarrow> access_dram pf name gpu_idx now shard
          | Ssd \<Rightarrow> access_ssd pf name gpu_idx now page shard))))))"

section \<open>Demotion\<close>

text \<open>
  One chunk of \<open>demote\<close>: the shard of its GPU is its backing; the descriptor, the copy to the host,
  the wait, and the block goes to the cache.
\<close>

definition copy_to_host :: "'w platform \<Rightarrow> usize \<Rightarrow> usize \<Rightarrow> u64 \<Rightarrow> usize \<Rightarrow> ('w tiered_pool, unit) op" where
  "copy_to_host pf gpu_idx dst src bytes =
     bindM (compute_stream gpu_idx) (\<lambda>stream p.
       case pf_dtoh_async pf src bytes (cs_inner stream) (tp_world p) of
         (rc, bs, w) \<Rightarrow> (check_cu ''cuMemcpyDtoHAsync_v2'' rc,
                         p\<lparr>tp_world := w, tp_host := mem_write dst bs (tp_host p)\<rparr>))"

definition demote_chunk ::
  "'w platform \<Rightarrow> string \<Rightarrow> dram_chunk list \<Rightarrow> chunk \<Rightarrow> ('w tiered_pool, unit) op" where
  "demote_chunk pf name dram c p =
     bindM (ok_or (index_of (tp_cluster p) (ck_gpu_ordinal c))
              (InvalidGpu (i32_as_usize (ck_gpu_ordinal c)))) (\<lambda>gpu_idx.
     bindM (ok_or (vec_get dram gpu_idx) (UnknownAllocation name)) (\<lambda>backing.
     if dc_size_bytes backing < ck_size_bytes c then
       bindM (unwrapM (vec_get (tp_dram_pools p) gpu_idx)) (\<lambda>d.
         errM (DramOom (ck_size_bytes c) (dc_size_bytes backing) (dp_capacity d)))
     else
       bindM (dmaM (submit_vram_to_dram gpu_idx (word_of_nat (ck_device_ptr c))
                (word_of_nat (dc_host_ptr backing)) (ck_size_bytes c) 0)) (\<lambda>_.
       bindM (set_context pf gpu_idx) (\<lambda>_.
       bindM (copy_to_host pf gpu_idx (dc_host_ptr backing) (ck_device_ptr c) (ck_size_bytes c)) (\<lambda>_.
       bindM (sync_compute pf gpu_idx) (\<lambda>_.
       free_vram_on_gpu gpu_idx (ck_device_ptr c) (ck_size_bytes c))))))) p"

definition demote :: "'w platform \<Rightarrow> string \<Rightarrow> ('w tiered_pool, unit) op" where
  "demote pf name =
     bindM (lookupM name) (\<lambda>page.
     if pg_tier page \<noteq> Vram \<or> pg_pinned page then retM ()
     else
       bindM (forM (pg_vram_chunks page) (demote_chunk pf name (pg_dram_chunks page))) (\<lambda>_.
       modify_page name (\<lambda>pg. pg\<lparr>pg_vram_chunks := [], pg_tier := Dram, pg_state := Warm\<rparr>)))"

section \<open>Sweeps\<close>

definition enable_membrane :: "usize \<Rightarrow> 'w tiered_pool \<Rightarrow> 'w tiered_pool" where
  "enable_membrane vram_budget p = p\<lparr>tp_membrane_budget := Some vram_budget\<rparr>"

definition tiered_membrane_rate :: "'w tiered_pool \<Rightarrow> string \<Rightarrow> f64" where
  "tiered_membrane_rate p name = membrane_rate (tp_membrane p) name"

text \<open>\<open>self.vmt.iter()\<close>: the entries in the order \<open>order\<close> of the hash map, which is unspecified.\<close>

definition vmt_entries :: "string list \<Rightarrow> vmt \<Rightarrow> (string \<times> page) list" where
  "vmt_entries order v = List.map_filter (\<lambda>n. map_option (Pair n) (vmt_lookup v n)) order"

definition sweep_candidates :: "string list \<Rightarrow> 'w tiered_pool \<Rightarrow> (string \<times> page_obs) list" where
  "sweep_candidates order p =
     map (\<lambda>(name, page). (name, \<lparr>ob_rate = membrane_rate (tp_membrane p) name, ob_bytes = pg_size_bytes page,
                                ob_resident = (pg_tier page = Vram), ob_pinned = pg_pinned page\<rparr>))
       (vmt_entries order (tp_vmt p))"

definition is_in_vram :: "string \<Rightarrow> bool \<Rightarrow> 'w tiered_pool \<Rightarrow> bool" where
  "is_in_vram name fallback p =
     (case vmt_lookup (tp_vmt p) name of None \<Rightarrow> fallback | Some pg \<Rightarrow> pg_tier pg = Vram)"

definition sweep_evict :: "'w platform \<Rightarrow> string \<Rightarrow> ('w tiered_pool, unit) op" where
  "sweep_evict pf name = bindM (getM (is_in_vram name False)) (\<lambda>resident.
     if resident then demote pf name else retM ())"

definition sweep_keep :: "'w platform \<Rightarrow> string \<Rightarrow> ('w tiered_pool, unit) op" where
  "sweep_keep pf name = bindM (getM (is_in_vram name True)) (\<lambda>resident.
     if \<not> resident then ignoreM (access pf name 0) else retM ())"

definition membrane_sweep :: "'w platform \<Rightarrow> (real \<Rightarrow> f64) \<Rightarrow> string list \<Rightarrow> ('w tiered_pool, unit) op" where
  "membrane_sweep pf fl order p =
     (case tp_membrane_budget p of
        None \<Rightarrow> (Ok (), p)
      | Some budget \<Rightarrow>
          (let q = p\<lparr>tp_membrane := decay fl (tp_membrane p)\<rparr>;
               (keep, evict) = plan fl (tp_policy q) (sweep_candidates order q) budget
           in bindM (forM evict (sweep_evict pf)) (\<lambda>_. forM keep (sweep_keep pf)) q))"

definition sweep_demotes :: "string list \<Rightarrow> u64 \<Rightarrow> 'w tiered_pool \<Rightarrow> string list" where
  "sweep_demotes order now p =
     map fst (filter (\<lambda>(name, page). pg_state page = Resident \<and> page_is_idle page now (tp_idle_threshold_ns p))
       (vmt_entries order (tp_vmt p)))"

definition sweep_promotes :: "string list \<Rightarrow> 'w tiered_pool \<Rightarrow> string list" where
  "sweep_promotes order p =
     map fst (filter (\<lambda>(name, page). pg_tier page = Dram \<and> page_is_hot page (tp_hot_threshold p))
       (vmt_entries order (tp_vmt p)))"

definition background_sweep :: "'w platform \<Rightarrow> (real \<Rightarrow> f64) \<Rightarrow> string list \<Rightarrow> ('w tiered_pool, unit) op" where
  "background_sweep pf fl order p =
     (if tp_membrane_budget p \<noteq> None then membrane_sweep pf fl order p
      else case pf_clock pf (tp_world p) of
        (now, w) \<Rightarrow>
          (let q = p\<lparr>tp_world := w\<rparr> in
           bindM (forM (sweep_demotes order now q) (demote pf)) (\<lambda>_.
             forM (sweep_promotes order q) (\<lambda>name. bindM (access pf name 0) (\<lambda>_. retM ()))) q))"

section \<open>Writing and releasing a page\<close>

text \<open>The copy loop of \<open>write_page\<close>: the address and size of every chunk, and the bytes done so far.\<close>

fun copy_shards :: "(usize \<times> usize) list \<Rightarrow> byte list \<Rightarrow> usize \<Rightarrow> host_memory \<Rightarrow> usize \<times> host_memory" where
  "copy_shards [] data written mem = (written, mem)"
| "copy_shards ((host_ptr, sz) # rest) data written mem =
     (let stop = min (uadd written sz) (length data) in
      if stop \<le> written then (written, mem)
      else copy_shards rest data stop
             (mem_write host_ptr (take (stop - written) (drop written data)) mem))"

definition write_page :: "'w platform \<Rightarrow> string \<Rightarrow> byte list \<Rightarrow> ('w tiered_pool, unit) op" where
  "write_page pf name data =
     bindM (lookupM name) (\<lambda>page.
     if length data \<noteq> pg_size_bytes page then errM (Io InvalidInput)
     else if pg_tier page = Ssd then
       bindM (ok_or (pg_ssd_offset page)
                (UnknownAllocation (name @ '': page is on Tier::Ssd but has no spill offset''))) (\<lambda>offset.
       bindM (spillM (UnknownAllocation (name @ '': page is on Tier::Ssd but no spill file is attached'')) (\<lambda>s. (Ok (), s))) (\<lambda>_.
       bindM (\<lambda>p. case pf_io pf (tp_world p) of (io, w) \<Rightarrow> (Ok io, p\<lparr>tp_world := w\<rparr>)) (\<lambda>io.
       spillM (UnknownAllocation (name @ '': page is on Tier::Ssd but no spill file is attached''))
         (spill_write_at io (mem_write 0 data (\<lambda>_. 0)) 0 (length data) offset))))
     else
       (\<lambda>p. case copy_shards (map (\<lambda>c. (dc_host_ptr c, dc_size_bytes c)) (pg_dram_chunks page)) data 0 (tp_host p) of
          (written, host) \<Rightarrow>
            ((if written = length data then Ok () else Err (Io InvalidData)), p\<lparr>tp_host := host\<rparr>)))"

definition free_page_vram :: "chunk \<Rightarrow> ('w tiered_pool, unit) op" where
  "free_page_vram c p =
     (case index_of (tp_cluster p) (ck_gpu_ordinal c) of
        None \<Rightarrow> (Ok (), p)
      | Some idx \<Rightarrow> free_vram_on_gpu idx (ck_device_ptr c) (ck_size_bytes c) p)"

definition offer_to_pools :: "dram_chunk list \<Rightarrow> dram_pool list \<Rightarrow> dram_pool list" where
  "offer_to_pools cs pools = fold (\<lambda>c. map (\<lambda>d. dp_free d (dc_host_ptr c) (dc_size_bytes c))) cs pools"

definition deallocate :: "string \<Rightarrow> ('w tiered_pool, unit) op" where
  "deallocate name =
     bindM (lookupM name) (\<lambda>page.
     bindM (forM (pg_vram_chunks page) free_page_vram) (\<lambda>_.
     modM (\<lambda>p. p\<lparr>tp_dram_pools := offer_to_pools (pg_dram_chunks page) (tp_dram_pools p),
                 tp_vmt := snd (vmt_remove name (tp_vmt p))\<rparr>)))"

section \<open>Accessors\<close>

definition dram_used :: "usize \<Rightarrow> ('w tiered_pool, usize) op" where
  "dram_used gpu_idx p = ok_or (map_option dp_used (vec_get (tp_dram_pools p) gpu_idx)) (InvalidGpu gpu_idx) p"

definition vram_cached_blocks :: "usize \<Rightarrow> ('w tiered_pool, usize) op" where
  "vram_cached_blocks gpu_idx p = ok_or (map_option length (vec_get (tp_vram_free p) gpu_idx)) (InvalidGpu gpu_idx) p"

definition dram_numa_bound :: "usize \<Rightarrow> ('w tiered_pool, bool) op" where
  "dram_numa_bound gpu_idx p =
     ok_or (map_option dp_numa_bound (vec_get (tp_dram_pools p) gpu_idx)) (InvalidGpu gpu_idx) p"

definition dram_pinned :: "usize \<Rightarrow> ('w tiered_pool, bool) op" where
  "dram_pinned gpu_idx p = ok_or (map_option dp_pinned (vec_get (tp_dram_pools p) gpu_idx)) (InvalidGpu gpu_idx) p"

section \<open>Drop\<close>

definition drop_cache :: "'w platform \<Rightarrow> context_registry \<Rightarrow> usize \<times> vram_block list \<Rightarrow> 'w \<Rightarrow> 'w" where
  "drop_cache pf contexts = (\<lambda>(gpu_idx, cache) w.
     if cache = [] then w
     else case registry_enter pf contexts gpu_idx w of
       (Ok _, w1) \<Rightarrow> guard_drop pf (fold (\<lambda>(_, ptr). cu_ignore (pf_mem_free pf ptr)) cache w1)
     | (_, w1) \<Rightarrow> w1)"

definition drop_dram_pool :: "'w platform \<Rightarrow> dram_pool \<Rightarrow> 'w \<Rightarrow> 'w" where
  "drop_dram_pool pf d w =
     (if dp_base_ptr d = 0 then w
      else
        (let w1 = (if dp_pinned d then cu_ignore (pf_host_unregister pf (dp_base_ptr d)) w else w)
         in libc_free pf (dp_base_ptr d) (dp_capacity d) w1))"

text \<open>
  \<open>Drop for TieredPool\<close>, and then the destructors of the fields in the order of their declaration:
  streams, contexts, spill file, the events of the prefetches in flight (in the order \<open>order\<close> of that
  hash map).
\<close>

definition drop_inflight :: "'w platform \<Rightarrow> string list \<Rightarrow> 'w tiered_pool \<Rightarrow> 'w \<Rightarrow> 'w" where
  "drop_inflight pf order p w =
     fold (\<lambda>name w. case tp_inflight p name of None \<Rightarrow> w | Some (_, _, _, event) \<Rightarrow> event_drop pf event w) order w"

definition tiered_drop :: "'w platform \<Rightarrow> string list \<Rightarrow> 'w tiered_pool \<Rightarrow> 'w" where
  "tiered_drop pf order p =
     (let w1 = fold (drop_cache pf (tp_contexts p)) (enumerate 0 (tp_vram_free p)) (tp_world p);
          w2 = fold (drop_dram_pool pf) (tp_dram_pools p) w1;
          w3 = drop_stream_pool pf (tp_streams p) w2;
          w4 = drop_contexts pf (cr_contexts (tp_contexts p)) w3;
          w5 = drop_spill pf (tp_spill p) w4
      in drop_inflight pf order p w5)"

end
