(* ===== verification/TieredStore.thy ===== *)
theory TieredStore
  imports Tiered
begin

text \<open>
  The storage side of \<open>src/tiered.rs\<close>: what \<open>allocate\<close>, \<open>write_page\<close> and \<open>deallocate\<close> do to the
  table, to the DRAM pools and to host memory.
\<close>

section \<open>Running the pool's operations\<close>

lemma modify_page_run:
  "vmt_lookup (tp_vmt p) n = Some pg \<Longrightarrow> modify_page n f p = (Ok (), p\<lparr>tp_vmt := vmt_modify n f (tp_vmt p)\<rparr>)"
  "vmt_lookup (tp_vmt p) n = None \<Longrightarrow> modify_page n f p = (Panic, p)"
  by (simp_all add: modify_page_def run_simps)

lemma lookupM_run:
  "vmt_lookup (tp_vmt p) n = Some pg \<Longrightarrow> lookupM n p = (Ok pg, p)"
  "vmt_lookup (tp_vmt p) n = None \<Longrightarrow> lookupM n p = (Err (UnknownAllocation n), p)"
  by (simp_all add: lookupM_def run_simps)

lemma bind_modify_page:
  "vmt_lookup (tp_vmt p) n = Some pg
    \<Longrightarrow> bindM (modify_page n g) f p = f () (p\<lparr>tp_vmt := vmt_modify n g (tp_vmt p)\<rparr>)"
  by (simp add: bindM_def modify_page_run)

lemma bind_lookupM:
  "vmt_lookup (tp_vmt p) n = Some pg \<Longrightarrow> bindM (lookupM n) f p = f pg p"
  by (simp add: bindM_def lookupM_run)

section \<open>The pools and the shards of a page\<close>

definition apart :: "dram_pool \<Rightarrow> dram_pool \<Rightarrow> bool" where
  "apart a b \<longleftrightarrow> dp_base_ptr a + dp_capacity a \<le> dp_base_ptr b \<or> dp_base_ptr b + dp_capacity b \<le> dp_base_ptr a"

definition pools_ok :: "dram_pool list \<Rightarrow> bool" where
  "pools_ok ds \<longleftrightarrow> (\<forall>d \<in> set ds. dp_inv d) \<and> (\<forall>i j. i < j \<longrightarrow> j < length ds \<longrightarrow> apart (ds ! i) (ds ! j))"

definition shards_fit :: "dram_pool list \<Rightarrow> usize \<Rightarrow> bool" where
  "shards_fit ds total_bytes \<longleftrightarrow> (\<forall>d \<in> set ds. \<forall>i. dp_fits d (shard_bytes total_bytes (length ds) i))"

lemma pools_apart: "pools_ok ds \<Longrightarrow> i < length ds \<Longrightarrow> j < length ds \<Longrightarrow> i \<noteq> j \<Longrightarrow> apart (ds ! i) (ds ! j)"
  by (auto simp: pools_ok_def apart_def nat_neq_iff)

text \<open>A chunk offered to every pool is taken by the pool it lies in.\<close>

lemma offer_one:
  assumes ok: "pools_ok ds" and i: "i < length ds"
    and lo: "dp_base_ptr (ds ! i) \<le> ptr" and hi: "ptr + dp_align n \<le> dp_base_ptr (ds ! i) + dp_capacity (ds ! i)"
  shows "map (\<lambda>d. dp_free d ptr n) ds = ds[i := dp_free (ds ! i) ptr n]"
proof (rule nth_equalityI)
  fix j assume "j < length (map (\<lambda>d. dp_free d ptr n) ds)"
  then have j: "j < length ds" by simp
  have inv: "dp_inv (ds ! j)" "dp_inv (ds ! i)" using ok i j by (simp_all add: pools_ok_def)
  then have below: "ptr + dp_align n < W64" using hi by (simp add: dp_inv_def)
  show "map (\<lambda>d. dp_free d ptr n) ds ! j = ds[i := dp_free (ds ! i) ptr n] ! j"
  proof (cases "j = i")
    case False
    have "dp_free (ds ! j) ptr n = ds ! j"
    proof (cases "dp_align n = 0")
      case True
      with inv below show ?thesis by (intro dp_free_ignored) simp_all
    next
      case ne: False
      with pools_apart [OF ok i j] False lo hi
      have "ptr < dp_base_ptr (ds ! j) \<or> dp_base_ptr (ds ! j) + dp_capacity (ds ! j) \<le> ptr"
        by (auto simp: apart_def)
      moreover have "dp_base_ptr (ds ! j) + dp_capacity (ds ! j) < W64" using inv by (simp add: dp_inv_def)
      ultimately show ?thesis by (auto simp: dp_free_core uadd_exact)
    qed
    with j False show ?thesis by simp
  qed (use j in simp)
qed simp

text \<open>\<open>cs\<close> are the shards a page has been granted, one from each of the first pools.\<close>

definition granted :: "dram_pool list \<Rightarrow> dram_pool list \<Rightarrow> dram_chunk list \<Rightarrow> bool" where
  "granted ds es cs \<longleftrightarrow> length es = length ds \<and> length cs \<le> length ds
     \<and> (\<forall>i < length cs. dp_allocate (ds ! i) (dc_size_bytes (cs ! i)) = (Ok (dc_host_ptr (cs ! i)), es ! i)
          \<and> dc_numa_node (cs ! i) = dp_numa_node (ds ! i) \<and> \<not> dc_cuda_registered (cs ! i))
     \<and> (\<forall>i. length cs \<le> i \<longrightarrow> i < length ds \<longrightarrow> es ! i = ds ! i)"

definition add_chunks :: "dram_chunk list \<Rightarrow> page \<Rightarrow> page" where
  "add_chunks cs pg = pg\<lparr>pg_dram_chunks := pg_dram_chunks pg @ cs\<rparr>"

lemma add_chunks_fold: "(\<lambda>pg. pg\<lparr>pg_dram_chunks := pg_dram_chunks pg @ cs\<rparr>) = add_chunks cs"
  by (simp add: add_chunks_def fun_eq_iff)

lemma add_chunks_twice: "add_chunks cs \<circ> add_chunks ds = add_chunks (ds @ cs)"
  by (simp add: add_chunks_def fun_eq_iff)

lemma granted_Nil [simp]: "granted ds ds []"
  by (simp add: granted_def)

lemma granted_snoc:
  assumes g: "granted ds es cs" and k: "length cs < length ds"
    and run: "dp_allocate (ds ! length cs) sz = (Ok ptr, e)"
  shows "granted ds (es[length cs := e]) (cs @ [\<lparr>dc_numa_node = dp_numa_node (ds ! length cs),
           dc_host_ptr = ptr, dc_size_bytes = sz, dc_cuda_registered = False\<rparr>])"
  using assms by (auto simp: granted_def nth_append less_Suc_eq nth_list_update)

lemma add_shard_run:
  assumes page: "vmt_lookup (tp_vmt p) n = Some pg" and i: "i < length (tp_dram_pools p)"
    and fit: "dp_inv (tp_dram_pools p ! i)" "dp_fits (tp_dram_pools p ! i) (shard_bytes t N i)"
  shows "(\<exists>ptr e. dp_allocate (tp_dram_pools p ! i) (shard_bytes t N i) = (Ok ptr, e)
      \<and> add_shard n t N i p = (Ok (), p\<lparr>tp_dram_pools := (tp_dram_pools p)[i := e],
          tp_vmt := vmt_modify n (add_chunks [\<lparr>dc_numa_node = dp_numa_node (tp_dram_pools p ! i),
            dc_host_ptr = ptr, dc_size_bytes = shard_bytes t N i, dc_cuda_registered = False\<rparr>]) (tp_vmt p)\<rparr>))
    \<or> (\<exists>err. fst (dp_allocate (tp_dram_pools p ! i) (shard_bytes t N i)) = Err err
      \<and> add_shard n t N i p = (Err err, p))"
proof -
  obtain r e where run: "dp_allocate (tp_dram_pools p ! i) (shard_bytes t N i) = (r, e)" by force
  show ?thesis
  proof (cases r)
    case (Ok ptr)
    have "dp_numa_node e = dp_numa_node (tp_dram_pools p ! i)"
      using dp_alloc_law [OF fit run [unfolded Ok]] by (simp add: dp_frame_def)
    with run Ok i page show ?thesis
      by (simp add: add_shard_def Let_def dramM_def bindM_def getM_run modify_page_run add_chunks_fold)
  next
    case (Err err)
    have "e = tp_dram_pools p ! i" using dp_alloc_err(1) [OF fit run [unfolded Err]] .
    with run Err i show ?thesis by (simp add: add_shard_def Let_def dramM_def bindM_def)
  next
    case Panic
    with run dp_allocate_never_panics [of "tp_dram_pools p ! i"] show ?thesis by (metis fst_conv)
  qed
qed

text \<open>The loop over the pools: every shard granted, or an error at the first pool that has no room.\<close>

lemma add_shards_run:
  assumes ok: "pools_ok (tp_dram_pools p)" and fit: "shards_fit (tp_dram_pools p) t"
    and page: "vmt_lookup (tp_vmt p) n = Some pg" and N: "N = length (tp_dram_pools p)"
  shows "k \<le> N \<Longrightarrow> \<exists>cs es r. forM [0 ..< k] (add_shard n t N) p
      = (r, p\<lparr>tp_dram_pools := es, tp_vmt := vmt_modify n (add_chunks cs) (tp_vmt p)\<rparr>)
    \<and> granted (tp_dram_pools p) es cs \<and> map dc_size_bytes cs = map (shard_bytes t N) [0 ..< length cs]
    \<and> (r = Ok () \<and> length cs = k \<or> (\<exists>e. r = Err e \<and> length cs < k
        \<and> fst (dp_allocate (tp_dram_pools p ! length cs) (shard_bytes t N (length cs))) = Err e))"
proof (induction k)
  case 0
  have "p\<lparr>tp_dram_pools := tp_dram_pools p, tp_vmt := vmt_modify n (add_chunks []) (tp_vmt p)\<rparr> = p"
    by (simp add: vmt_modify_id add_chunks_def)
  then show ?case
    by (intro exI [of _ "[]"] exI [of _ "tp_dram_pools p"] exI [of _ "Ok ()"]) (simp add: run_simps)
next
  case (Suc k)
  let ?ds = "tp_dram_pools p"
  from Suc obtain cs es r where run: "forM [0 ..< k] (add_shard n t N) p
      = (r, p\<lparr>tp_dram_pools := es, tp_vmt := vmt_modify n (add_chunks cs) (tp_vmt p)\<rparr>)"
    and g: "granted ?ds es cs" and sizes: "map dc_size_bytes cs = map (shard_bytes t N) [0 ..< length cs]"
    and res: "r = Ok () \<and> length cs = k \<or> (\<exists>e. r = Err e \<and> length cs < k
        \<and> fst (dp_allocate (?ds ! length cs) (shard_bytes t N (length cs))) = Err e)"
    by auto
  let ?q = "p\<lparr>tp_dram_pools := es, tp_vmt := vmt_modify n (add_chunks cs) (tp_vmt p)\<rparr>"
  have split: "forM [0 ..< Suc k] (add_shard n t N) = bindM (forM [0 ..< k] (add_shard n t N))
      (\<lambda>_. bindM (add_shard n t N k) (\<lambda>_. retM ()))"
    by (simp add: forM_append)
  from res show ?case
  proof (elim disjE exE conjE)
    fix e assume "r = Err e" and "length cs < k"
      and "fst (dp_allocate (?ds ! length cs) (shard_bytes t N (length cs))) = Err e"
    with run g sizes show ?thesis
      unfolding split by (intro exI [of _ cs] exI [of _ es] exI [of _ r]) (simp add: run_simps)
  next
    assume r: "r = Ok ()" and k: "length cs = k"
    have kl: "k < length ?ds" using Suc.prems N by simp
    have esk: "es ! k = ?ds ! k" "length es = length ?ds" using g k kl by (simp_all add: granted_def)
    have "?ds ! k \<in> set ?ds" using kl by simp
    then have inv: "dp_inv (tp_dram_pools ?q ! k)" "dp_fits (tp_dram_pools ?q ! k) (shard_bytes t N k)"
      using ok fit esk N by (auto simp: pools_ok_def shards_fit_def)
    have pg: "vmt_lookup (tp_vmt ?q) n = Some (add_chunks cs pg)" using page by simp
    have "k < length (tp_dram_pools ?q)" using kl esk by simp
    from add_shard_run [OF pg this inv]
    show ?thesis
    proof (elim disjE exE conjE)
      fix ptr e
      let ?c = "\<lparr>dc_numa_node = dp_numa_node (?ds ! k), dc_host_ptr = ptr,
            dc_size_bytes = shard_bytes t N k, dc_cuda_registered = False\<rparr>"
      assume a: "dp_allocate (tp_dram_pools ?q ! k) (shard_bytes t N k) = (Ok ptr, e)"
        and step: "add_shard n t N k ?q = (Ok (), ?q\<lparr>tp_dram_pools := (tp_dram_pools ?q)[k := e],
          tp_vmt := vmt_modify n (add_chunks [\<lparr>dc_numa_node = dp_numa_node (tp_dram_pools ?q ! k),
            dc_host_ptr = ptr, dc_size_bytes = shard_bytes t N k, dc_cuda_registered = False\<rparr>]) (tp_vmt ?q)\<rparr>)"
      have "forM [0 ..< Suc k] (add_shard n t N) p
          = (Ok (), p\<lparr>tp_dram_pools := es[k := e], tp_vmt := vmt_modify n (add_chunks (cs @ [?c])) (tp_vmt p)\<rparr>)"
        unfolding split using run r step esk
        by (simp add: run_simps vmt_modify_twice add_chunks_twice)
      moreover have "granted ?ds (es[k := e]) (cs @ [?c])"
        using granted_snoc [OF g] k kl a esk by simp
      moreover have "map dc_size_bytes (cs @ [?c]) = map (shard_bytes t N) [0 ..< length (cs @ [?c])]"
        using sizes k by simp
      moreover have "length (cs @ [?c]) = Suc k" using k by simp
      ultimately show ?thesis by blast
    next
      fix err
      assume a: "fst (dp_allocate (tp_dram_pools ?q ! k) (shard_bytes t N k)) = Err err"
        and step: "add_shard n t N k ?q = (Err err, ?q)"
      have "forM [0 ..< Suc k] (add_shard n t N) p = (Err err, ?q)"
        unfolding split using run r step by (simp add: run_simps)
      with g sizes k a esk show ?thesis
        by (intro exI [of _ cs] exI [of _ es] exI [of _ "Err err"]) simp
    qed
  qed
qed


lemma granted_frame:
  assumes ok: "pools_ok ds" and fit: "shards_fit ds t" and g: "granted ds es cs"
    and sizes: "map dc_size_bytes cs = map (shard_bytes t (length ds)) [0 ..< length cs]"
    and i: "i < length ds"
  shows "dp_inv (es ! i) \<and> dp_frame (es ! i) = dp_frame (ds ! i)"
    and "i < length cs \<Longrightarrow>
      held_range dp_align (dc_host_ptr (cs ! i), dc_size_bytes (cs ! i)) \<inter> dp_live (ds ! i) = {}
      \<and> dp_live (es ! i) = dp_live (ds ! i) \<union> held_range dp_align (dc_host_ptr (cs ! i), dc_size_bytes (cs ! i))
      \<and> dp_base_ptr (ds ! i) \<le> dc_host_ptr (cs ! i)
      \<and> dc_host_ptr (cs ! i) + dp_align (dc_size_bytes (cs ! i)) \<le> dp_base_ptr (ds ! i) + dp_capacity (ds ! i)
      \<and> dp_free (es ! i) (dc_host_ptr (cs ! i)) (dc_size_bytes (cs ! i)) = ds ! i"
proof -
  have "ds ! i \<in> set ds" using i by simp
  then have inv: "dp_inv (ds ! i)" and fits: "dp_fits (ds ! i) (shard_bytes t (length ds) i)"
    using ok fit by (auto simp: pools_ok_def shards_fit_def)
  have law: "dp_inv (es ! i) \<and> dp_frame (es ! i) = dp_frame (ds ! i)
      \<and> held_range dp_align (dc_host_ptr (cs ! i), dc_size_bytes (cs ! i)) \<inter> dp_live (ds ! i) = {}
      \<and> dp_live (es ! i) = dp_live (ds ! i) \<union> held_range dp_align (dc_host_ptr (cs ! i), dc_size_bytes (cs ! i))
      \<and> dp_base_ptr (ds ! i) \<le> dc_host_ptr (cs ! i)
      \<and> dc_host_ptr (cs ! i) + dp_align (dc_size_bytes (cs ! i)) \<le> dp_base_ptr (ds ! i) + dp_capacity (ds ! i)
      \<and> dp_free (es ! i) (dc_host_ptr (cs ! i)) (dc_size_bytes (cs ! i)) = ds ! i" if "i < length cs"
  proof -
    have "map dc_size_bytes cs ! i = map (shard_bytes t (length ds)) [0 ..< length cs] ! i" using sizes by simp
    then have sz: "dc_size_bytes (cs ! i) = shard_bytes t (length ds) i" using that by simp
    have run: "dp_allocate (ds ! i) (shard_bytes t (length ds) i) = (Ok (dc_host_ptr (cs ! i)), es ! i)"
      using g that sz by (auto simp: granted_def)
    from dp_alloc_law [OF inv fits run] dp.release_alloc_any [OF inv fits run] sz show ?thesis by simp
  qed
  have "es ! i = ds ! i" if "\<not> i < length cs" using g i that by (simp add: granted_def)
  with law inv show "dp_inv (es ! i) \<and> dp_frame (es ! i) = dp_frame (ds ! i)" by (cases "i < length cs") auto
  show "i < length cs \<Longrightarrow>
      held_range dp_align (dc_host_ptr (cs ! i), dc_size_bytes (cs ! i)) \<inter> dp_live (ds ! i) = {}
      \<and> dp_live (es ! i) = dp_live (ds ! i) \<union> held_range dp_align (dc_host_ptr (cs ! i), dc_size_bytes (cs ! i))
      \<and> dp_base_ptr (ds ! i) \<le> dc_host_ptr (cs ! i)
      \<and> dc_host_ptr (cs ! i) + dp_align (dc_size_bytes (cs ! i)) \<le> dp_base_ptr (ds ! i) + dp_capacity (ds ! i)
      \<and> dp_free (es ! i) (dc_host_ptr (cs ! i)) (dc_size_bytes (cs ! i)) = ds ! i"
    using law by blast
qed

lemma same_frame_pools_ok:
  assumes "pools_ok ds" and "length es = length ds"
    and "\<And>i. i < length ds \<Longrightarrow> dp_inv (es ! i) \<and> dp_frame (es ! i) = dp_frame (ds ! i)"
  shows "pools_ok es"
  using assms unfolding pools_ok_def apart_def dp_frame_def
  by (simp add: all_set_conv_all_nth)

text \<open>Offering all the shards to all the pools puts the pools back.\<close>

lemma offer_granted:
  assumes ok: "pools_ok ds" and fit: "shards_fit ds t" and g: "granted ds es cs"
    and sizes: "map dc_size_bytes cs = map (shard_bytes t (length ds)) [0 ..< length cs]"
  shows "offer_to_pools cs es = ds"
proof -
  let ?mix = "\<lambda>j. map (\<lambda>i. if i < j then ds ! i else es ! i) [0 ..< length ds]"
  have len: "length cs \<le> length ds" "length es = length ds" using g by (simp_all add: granted_def)
  note frame = granted_frame [OF ok fit g sizes]
  have "offer_to_pools (take j cs) es = ?mix j" if "j \<le> length cs" for j
    using that
  proof (induction j)
    case 0
    have "map ((!) es) [0 ..< length ds] = es" using map_nth [of es] len(2) by simp
    then show ?case by (simp add: offer_to_pools_def)
  next
    case (Suc j)
    let ?c = "cs ! j"
    have j: "j < length ds" "j < length cs" using Suc.prems len by simp_all
    have "pools_ok (?mix j)"
      using ok frame(1) by (intro same_frame_pools_ok [OF ok]) (auto simp: pools_ok_def)
    moreover have "?mix j ! j = es ! j" using j by simp
    moreover have "dp_base_ptr (es ! j) = dp_base_ptr (ds ! j)" "dp_capacity (es ! j) = dp_capacity (ds ! j)"
      using frame(1) [OF j(1)] by (simp_all add: dp_frame_def)
    ultimately have "map (\<lambda>d. dp_free d (dc_host_ptr ?c) (dc_size_bytes ?c)) (?mix j)
        = (?mix j)[j := dp_free (es ! j) (dc_host_ptr ?c) (dc_size_bytes ?c)]"
      using offer_one [of "?mix j" j "dc_host_ptr ?c" "dc_size_bytes ?c"] frame(2) [OF j] j by simp
    also have "\<dots> = ?mix (Suc j)"
    proof (rule nth_equalityI)
      fix i assume "i < length ((?mix j)[j := dp_free (es ! j) (dc_host_ptr ?c) (dc_size_bytes ?c)])"
      then have "i < length ds" by simp
      then show "(?mix j)[j := dp_free (es ! j) (dc_host_ptr ?c) (dc_size_bytes ?c)] ! i = ?mix (Suc j) ! i"
        using frame(2) [OF j] by (cases "i = j") (simp_all add: less_Suc_eq)
    qed simp
    finally show ?case
      using Suc.IH j by (simp add: offer_to_pools_def take_Suc_conv_app_nth)
  qed
  from this [of "length cs"] have "offer_to_pools cs es = ?mix (length cs)" by simp
  also have "\<dots> = ds" using g by (intro nth_equalityI) (simp_all add: granted_def)
  finally show ?thesis .
qed


section \<open>Allocation and release\<close>

definition alloc_name :: "string \<Rightarrow> vmt \<Rightarrow> string" where
  "alloc_name name v = (if name = [] then auto_name (uadd (vt_next_id v) 1) else name)"

definition filed :: "string \<Rightarrow> page \<Rightarrow> string \<Rightarrow> vmt \<Rightarrow> vmt" where
  "filed name pg n v = v\<lparr>vt_next_id := (if name = [] then uadd (vt_next_id v) 1 else vt_next_id v),
     vt_pages := (vt_pages v)(n \<mapsto> pg)\<rparr>"

lemma filed_simps [simp]:
  "vmt_lookup (filed name pg n v) m = (if m = n then Some pg else vmt_lookup v m)"
  "vmt_modify n f (filed name pg n v) = filed name (f pg) n v"
  "vt_pages (filed name pg n v) = (vt_pages v)(n \<mapsto> pg)"
  by (simp_all add: filed_def vmt_lookup_def vmt_modify_def)

lemma vmtM_allocate:
  "vmtM (vmt_allocate name shape es) p
     = (Ok (alloc_name name (tp_vmt p)), p\<lparr>tp_vmt := filed name (fresh_page (alloc_name name (tp_vmt p)) shape es)
         (alloc_name name (tp_vmt p)) (tp_vmt p)\<rparr>)"
  by (simp add: vmtM_def vmt_allocate_run filed_def alloc_name_def Let_def)

definition sharded_page :: "string \<Rightarrow> usize list \<Rightarrow> usize \<Rightarrow> tier \<Rightarrow> page_state \<Rightarrow> dram_chunk list \<Rightarrow> page" where
  "sharded_page n shape es t st cs =
     (fresh_page n shape es)\<lparr>pg_tier := t, pg_state := st, pg_dram_chunks := cs\<rparr>"

lemma sharded_page_simps [simp]:
  "(sharded_page n shape es t st cs)\<lparr>pg_state := st'\<rparr> = sharded_page n shape es t st' cs"
  "pg_dram_chunks (sharded_page n shape es t st cs) = cs"
  "pg_vram_chunks (sharded_page n shape es t st cs) = []"
  "pg_tier (sharded_page n shape es t st cs) = t"
  "pg_state (sharded_page n shape es t st cs) = st"
  "pg_size_bytes (sharded_page n shape es t st cs) = umul (uproduct shape) es"
  by (simp_all add: sharded_page_def fresh_page_def page_new_def)

lemma tiered_allocate_run:
  assumes ok: "pools_ok (tp_dram_pools p)" and some: "tp_dram_pools p \<noteq> []"
    and fit: "shards_fit (tp_dram_pools p) (umul (uproduct shape) es)" and t: "t \<noteq> Ssd"
    and run: "tiered_allocate name shape es t p = (r, q)"
  defines "n \<equiv> alloc_name name (tp_vmt p)"
  shows "\<exists>cs ds. granted (tp_dram_pools p) ds cs
    \<and> map dc_size_bytes cs
        = map (shard_bytes (umul (uproduct shape) es) (length (tp_dram_pools p))) [0 ..< length cs]
    \<and> q = p\<lparr>tp_dram_pools := ds, tp_vmt := filed name
        (sharded_page n shape es t (if r = Ok n then tier_state t else Allocated) cs) n (tp_vmt p)\<rparr>
    \<and> (r = Ok n \<and> length cs = length ds \<or> (\<exists>e. r = Err e \<and> length cs < length ds
        \<and> fst (dp_allocate (tp_dram_pools p ! length cs)
            (shard_bytes (umul (uproduct shape) es) (length (tp_dram_pools p)) (length cs))) = Err e))"
proof -
  let ?N = "length (tp_dram_pools p)" and ?T = "umul (uproduct shape) es"
  let ?p1 = "p\<lparr>tp_vmt := filed name ((fresh_page n shape es)\<lparr>pg_tier := t\<rparr>) n (tp_vmt p)\<rparr>"
  have "vmt_lookup (tp_vmt ?p1) n = Some ((fresh_page n shape es)\<lparr>pg_tier := t\<rparr>)" by simp
  from add_shards_run [of ?p1, OF _ _ this, of ?T ?N ?N] ok fit
  obtain cs ds r0 where loop: "forM [0 ..< ?N] (add_shard n ?T ?N) ?p1 =
      (r0, ?p1\<lparr>tp_dram_pools := ds, tp_vmt := vmt_modify n (add_chunks cs) (tp_vmt ?p1)\<rparr>)"
    and g: "granted (tp_dram_pools p) ds cs"
    and sizes: "map dc_size_bytes cs = map (shard_bytes ?T ?N) [0 ..< length cs]"
    and r0: "r0 = Ok () \<and> length cs = ?N \<or> (\<exists>e. r0 = Err e \<and> length cs < ?N
        \<and> fst (dp_allocate (tp_dram_pools p ! length cs) (shard_bytes ?T ?N (length cs))) = Err e)"
    by auto
  have len: "length ds = ?N" using g by (simp add: granted_def)
  let ?pg = "\<lambda>st. sharded_page n shape es t st cs"
  have loop: "forM [0 ..< ?N] (add_shard n ?T ?N) ?p1 =
      (r0, p\<lparr>tp_dram_pools := ds, tp_vmt := filed name (?pg Allocated) n (tp_vmt p)\<rparr>)"
    using loop by (simp add: add_chunks_def sharded_page_def fresh_page_def page_new_def)
  have alloc: "tiered_allocate name shape es t p =
      bindM (forM [0 ..< ?N] (add_shard n ?T ?N)) (\<lambda>_.
        bindM (modify_page n (\<lambda>pg. pg\<lparr>pg_state := tier_state t\<rparr>)) (\<lambda>_. retM n)) ?p1"
    using t some by (simp add: tiered_allocate_def Let_def bindM_run(1) [OF vmtM_allocate, folded n_def]
        run_simps bind_modify_page n_def del: forM.simps)
  show ?thesis
    using r0
  proof
    assume a: "r0 = Ok () \<and> length cs = ?N"
    then have "tiered_allocate name shape es t p
        = (Ok n, p\<lparr>tp_dram_pools := ds, tp_vmt := filed name (?pg (tier_state t)) n (tp_vmt p)\<rparr>)"
      unfolding alloc using loop
      by (simp add: run_simps bind_modify_page)
    with run have "r = Ok n"
      and "q = p\<lparr>tp_dram_pools := ds, tp_vmt := filed name (?pg (tier_state t)) n (tp_vmt p)\<rparr>" by simp_all
    with a g sizes len show ?thesis by (intro exI [of _ cs] exI [of _ ds]) simp
  next
    assume "\<exists>e. r0 = Err e \<and> length cs < ?N
        \<and> fst (dp_allocate (tp_dram_pools p ! length cs) (shard_bytes ?T ?N (length cs))) = Err e"
    then obtain e where e: "r0 = Err e" and a: "length cs < ?N"
      "fst (dp_allocate (tp_dram_pools p ! length cs) (shard_bytes ?T ?N (length cs))) = Err e" by blast
    then have "tiered_allocate name shape es t p
        = (Err e, p\<lparr>tp_dram_pools := ds, tp_vmt := filed name (?pg Allocated) n (tp_vmt p)\<rparr>)"
      unfolding alloc using loop by (simp add: run_simps)
    with run have "r = Err e"
      and "q = p\<lparr>tp_dram_pools := ds, tp_vmt := filed name (?pg Allocated) n (tp_vmt p)\<rparr>" by simp_all
    with a g sizes len show ?thesis by (intro exI [of _ cs] exI [of _ ds]) simp
  qed
qed


lemma shard_bytes_exact:
  assumes "t < W64" and "i < N"
  shows "shard_bytes t N i = t div N + (if i + 1 = N then t mod N else 0)"
proof -
  have "t div N + t mod N \<le> t"
    using assms div_mult_mod_eq [of t N] by (cases N) (simp_all add: add_mult_distrib2 le_add1 mult.commute)
  then have "t div N + (if i + 1 = N then t mod N else 0) < W64" using assms(1) by auto
  then show ?thesis by (simp add: shard_bytes_def uadd_exact)
qed

lemma shards_sum:
  assumes "t < W64" and "0 < N"
  shows "sum_list (map (shard_bytes t N) [0 ..< N]) = t"
proof -
  obtain m where N: "N = Suc m" using assms(2) by (cases N) auto
  have "sum_list (map (shard_bytes t N) [0 ..< m]) = sum_list (map (\<lambda>_. t div N) [0 ..< m])"
    using assms N by (intro arg_cong [of _ _ sum_list] map_cong) (simp_all add: shard_bytes_exact)
  moreover have "shard_bytes t N m = t div N + t mod N" using assms N by (simp add: shard_bytes_exact)
  ultimately have "sum_list (map (shard_bytes t N) [0 ..< N]) = m * (t div N) + t div N + t mod N"
    unfolding N by (simp add: sum_list_triv)
  also have "\<dots> = t" using div_mult_mod_eq [of t N] by (simp add: N algebra_simps)
  finally show ?thesis .
qed

text \<open>The share of a pool: the even part of the bytes, with the remainder for the last one.\<close>

definition page_share :: "usize \<Rightarrow> nat \<Rightarrow> nat \<Rightarrow> usize" where
  "page_share t N i = t div N + (if i + 1 = N then t mod N else 0)"

text \<open>
  Property C22. What \<open>allocate\<close> does to a pool, for a tier with warm backing and a size whose shards,
  rounded up and added to the capacity of a pool, stay in the 64 bits. Every DRAM pool grants one shard: of the even share of the bytes, the last
  pool's with the remainder, so that together they hold exactly the bytes of the page; the shards lie
  in their own pools and overlap nothing that was live there; the page is filed under the returned
  name with those shards, the asked tier and the tier's state. When a pool has no room for its shard
  the error of the first such pool is returned, but the page is filed all the same, in state
  Allocated, with the shards granted before.
\<close>

theorem tiered_allocate_shards:
  assumes ok: "pools_ok (tp_dram_pools p)" and some: "tp_dram_pools p \<noteq> []"
    and fit: "shards_fit (tp_dram_pools p) (umul (uproduct shape) es)" and t: "t \<noteq> Ssd"
    and run: "tiered_allocate name shape es t p = (r, q)"
  shows "\<exists>n cs. n = alloc_name name (tp_vmt p)
    \<and> vmt_lookup (tp_vmt q) n
        = Some (sharded_page n shape es t (if r = Ok n then tier_state t else Allocated) cs)
    \<and> (\<forall>m. m \<noteq> n \<longrightarrow> vmt_lookup (tp_vmt q) m = vmt_lookup (tp_vmt p) m)
    \<and> (\<forall>i < length cs. \<forall>range. range = held_range dp_align (dc_host_ptr (cs ! i), dc_size_bytes (cs ! i)) \<longrightarrow>
        range \<inter> dp_live (tp_dram_pools p ! i) = {}
        \<and> dp_live (tp_dram_pools q ! i) = dp_live (tp_dram_pools p ! i) \<union> range
        \<and> dp_base_ptr (tp_dram_pools p ! i) \<le> dc_host_ptr (cs ! i)
        \<and> dc_host_ptr (cs ! i) + dp_align (dc_size_bytes (cs ! i))
            \<le> dp_base_ptr (tp_dram_pools p ! i) + dp_capacity (tp_dram_pools p ! i))
    \<and> drop (length cs) (tp_dram_pools q) = drop (length cs) (tp_dram_pools p)
    \<and> map dc_size_bytes cs = map (page_share (umul (uproduct shape) es) (length (tp_dram_pools p))) [0 ..< length cs]
    \<and> (r = Ok n \<and> length cs = length (tp_dram_pools p)
          \<and> sum_list (map dc_size_bytes cs) = umul (uproduct shape) es
       \<or> (\<exists>e. r = Err e \<and> length cs < length (tp_dram_pools p)
          \<and> fst (dp_allocate (tp_dram_pools p ! length cs)
              (page_share (umul (uproduct shape) es) (length (tp_dram_pools p)) (length cs))) = Err e))"
proof -
  let ?n = "alloc_name name (tp_vmt p)" and ?T = "umul (uproduct shape) es" and ?N = "length (tp_dram_pools p)"
  obtain cs ds where g: "granted (tp_dram_pools p) ds cs"
    and sizes: "map dc_size_bytes cs
      = map (shard_bytes (umul (uproduct shape) es) (length (tp_dram_pools p))) [0 ..< length cs]"
    and q: "q = p\<lparr>tp_dram_pools := ds, tp_vmt := filed name
        (sharded_page ?n shape es t (if r = Ok ?n then tier_state t else Allocated) cs) ?n (tp_vmt p)\<rparr>"
    and r: "r = Ok ?n \<and> length cs = length ds \<or> (\<exists>e. r = Err e \<and> length cs < length ds
        \<and> fst (dp_allocate (tp_dram_pools p ! length cs) (shard_bytes ?T ?N (length cs))) = Err e)"
    using tiered_allocate_run [OF ok some fit t run] by blast
  have share: "shard_bytes ?T ?N i = page_share ?T ?N i" if "i < ?N" for i
    using that by (simp add: shard_bytes_exact page_share_def)
  have len: "length cs \<le> length (tp_dram_pools p)" "length ds = length (tp_dram_pools p)"
    and rest: "\<forall>i. length cs \<le> i \<longrightarrow> i < length (tp_dram_pools p) \<longrightarrow> ds ! i = tp_dram_pools p ! i"
    using g by (simp_all add: granted_def)
  have "drop (length cs) ds = drop (length cs) (tp_dram_pools p)"
    using len rest by (intro nth_equalityI) simp_all
  moreover have "sum_list (map dc_size_bytes cs) = umul (uproduct shape) es"
    if "length cs = length (tp_dram_pools p)"
    using sizes that some by (simp add: shards_sum)
  moreover have "i < length cs \<Longrightarrow> i < length (tp_dram_pools p)" for i using len by simp
  moreover have "map dc_size_bytes cs = map (page_share ?T ?N) [0 ..< length cs]"
    unfolding sizes using len by (intro map_cong refl share) simp
  moreover have "r = Ok ?n \<and> length cs = ?N \<or> (\<exists>e. r = Err e \<and> length cs < ?N
        \<and> fst (dp_allocate (tp_dram_pools p ! length cs) (page_share ?T ?N (length cs))) = Err e)"
    using r share [of "length cs"] len(2) by auto
  ultimately show ?thesis
    using granted_frame(2) [OF ok fit g sizes] len(2)
    by (intro exI [of _ ?n] exI [of _ cs]) (auto simp: q)
qed

text \<open>
  Property C14. \<open>deallocate\<close> undoes \<open>allocate\<close>, failed allocations included, for a tier with warm backing
  and a size whose shards, rounded up and added to the capacity of a pool, stay in the 64 bits: the DRAM pools are again exactly what they
  were, free lists and high-water marks included, and the page is gone.
\<close>

theorem deallocate_undoes_allocate:
  assumes ok: "pools_ok (tp_dram_pools p)" and some: "tp_dram_pools p \<noteq> []"
    and fit: "shards_fit (tp_dram_pools p) (umul (uproduct shape) es)" and t: "t \<noteq> Ssd"
    and run: "tiered_allocate name shape es t p = (r, q)"
  shows "deallocate (alloc_name name (tp_vmt p)) q
    = (Ok (), p\<lparr>tp_vmt := (tp_vmt q)\<lparr>vt_pages := (vt_pages (tp_vmt p))(alloc_name name (tp_vmt p) := None)\<rparr>\<rparr>)"
proof -
  let ?n = "alloc_name name (tp_vmt p)"
  obtain cs ds where g: "granted (tp_dram_pools p) ds cs"
    and sizes: "map dc_size_bytes cs
      = map (shard_bytes (umul (uproduct shape) es) (length (tp_dram_pools p))) [0 ..< length cs]"
    and q: "q = p\<lparr>tp_dram_pools := ds, tp_vmt := filed name
        (sharded_page ?n shape es t (if r = Ok ?n then tier_state t else Allocated) cs) ?n (tp_vmt p)\<rparr>"
    using tiered_allocate_run [OF ok some fit t run] by blast
  have "vmt_lookup (tp_vmt q) ?n
      = Some (sharded_page ?n shape es t (if r = Ok ?n then tier_state t else Allocated) cs)"
    by (simp add: q)
  then have "deallocate ?n q = (Ok (), q\<lparr>tp_dram_pools := offer_to_pools cs (tp_dram_pools q),
      tp_vmt := snd (vmt_remove ?n (tp_vmt q))\<rparr>)"
    by (simp add: deallocate_def bind_lookupM run_simps)
  then show ?thesis
    using offer_granted [OF ok fit g sizes] by (simp add: q vmt_remove_def)
qed


text \<open>Returning a device block changes nothing but the recycle cache.\<close>

lemma free_vram_frame:
  "fst (free_vram_on_gpu g ptr n p) \<noteq> Panic"
  "snd (free_vram_on_gpu g ptr n p) = p\<lparr>tp_vram_free := tp_vram_free (snd (free_vram_on_gpu g ptr n p))\<rparr>"
  by (auto simp: free_vram_on_gpu_def split: option.split)

lemma free_page_vram_frame:
  "fst (free_page_vram c p) \<noteq> Panic"
  "snd (free_page_vram c p) = p\<lparr>tp_vram_free := tp_vram_free (snd (free_page_vram c p))\<rparr>"
  using free_vram_frame by (auto simp: free_page_vram_def split: option.split)

lemma forM_free_page_vram:
  fixes p :: "'w tiered_pool"
  shows "snd (forM cs free_page_vram p) = p\<lparr>tp_vram_free := tp_vram_free (snd (forM cs free_page_vram p))\<rparr>"
proof (rule forM_inv [where I = "\<lambda>q. q = p\<lparr>tp_vram_free := tp_vram_free q\<rparr>"])
  fix c and q :: "'w tiered_pool" assume q: "q = p\<lparr>tp_vram_free := tp_vram_free q\<rparr>"
  have "q\<lparr>tp_vram_free := x\<rparr> = p\<lparr>tp_vram_free := x\<rparr>" for x by (subst q) simp
  with free_page_vram_frame(2) [of c q]
  show "snd (free_page_vram c q) = p\<lparr>tp_vram_free := tp_vram_free (snd (free_page_vram c q))\<rparr>"
    by simp
qed simp

lemma deallocate_run:
  assumes "vmt_lookup (tp_vmt p) name = Some pg" and "deallocate name p = (Ok u, q)"
  shows "q = p\<lparr>tp_vram_free := tp_vram_free q, tp_vmt := snd (vmt_remove name (tp_vmt p)),
    tp_dram_pools := offer_to_pools (pg_dram_chunks pg) (tp_dram_pools p)\<rparr>"
proof -
  obtain r p1 where loop: "forM (pg_vram_chunks pg) free_page_vram p = (r, p1)" by force
  have p1: "p1 = p\<lparr>tp_vram_free := tp_vram_free p1\<rparr>"
    using forM_free_page_vram [of "pg_vram_chunks pg" p] loop by simp
  have "q = p1\<lparr>tp_dram_pools := offer_to_pools (pg_dram_chunks pg) (tp_dram_pools p1),
      tp_vmt := snd (vmt_remove name (tp_vmt p1))\<rparr>"
    using assms loop by (cases r) (simp_all add: deallocate_def bindM_def lookupM_run modM_run)
  then show ?thesis by (subst (asm) (1 2 3) p1) simp
qed

text \<open>
  Property C32. What \<open>deallocate\<close> leaves behind. The spill reservation of the page, its entry among the
  prefetches in flight and its access rates stay; so when a prefetch of the page was in flight, the
  next \<open>access\<close> to the name on that GPU waits for the copy and then panics, because the page the
  chunk belongs to is gone.
\<close>

theorem deallocate_leaves:
  assumes page: "vmt_lookup (tp_vmt p) name = Some pg" and run: "deallocate name p = (Ok u, q)"
    and inflight: "tp_inflight p name = Some (g, ptr, bytes, event)"
    and sync: "\<forall>w. fst (pf_event_sync pf (ce_inner event) w) = 0"
  shows "tp_spill q = tp_spill p \<and> tp_inflight q = tp_inflight p \<and> tp_membrane q = tp_membrane p
    \<and> fst (access pf name g q) = Panic"
proof -
  note q = deallocate_run [OF page run]
  have kept: "tp_spill q = tp_spill p" "tp_inflight q = tp_inflight p" "tp_membrane q = tp_membrane p"
    and gone: "vmt_lookup (tp_vmt q) name = None" by (subst q, simp)+
  obtain now w where clock: "pf_clock pf (tp_world q) = (now, w)" by force
  let ?q = "q\<lparr>tp_world := w, tp_membrane := observe name (tp_membrane q)\<rparr>"
  obtain w' where "pf_event_sync pf (ce_inner event) w = (0, w')"
    using sync by (metis prod.collapse)
  then have "fst (claim_prefetch pf name g now ?q) = Panic"
    using kept gone inflight
    by (simp add: claim_prefetch_def finallyM_def worldM_def event_synchronize_def cu_call_def
        check_cu_def bindM_def install_chunk_def run_simps)
  then obtain q2 where "claim_prefetch pf name g now ?q = (Panic, q2)" by (metis prod.collapse)
  then have "fst (access pf name g q) = Panic"
    by (simp add: access_def worldM_def clock bindM_def modM_run)
  with kept show ?thesis by simp
qed

section \<open>Writing a page\<close>

definition shard_range :: "usize \<times> usize \<Rightarrow> nat set" where
  "shard_range c = {fst c ..< fst c + snd c}"

definition shards_disjoint :: "(usize \<times> usize) list \<Rightarrow> bool" where
  "shards_disjoint = sorted_wrt (\<lambda>c d. shard_range c \<inter> shard_range d = {})"

lemma copy_shards_all:
  assumes "\<forall>c \<in> set cs. 0 < snd c" and "w + sum_list (map snd cs) = length data"
    and "length data < W64" and "shards_disjoint cs"
  shows "\<exists>mem'. copy_shards cs data w mem = (length data, mem')
    \<and> concat (map (\<lambda>c. slice mem' (fst c) (snd c)) cs) = drop w data
    \<and> (\<forall>a. a \<notin> (\<Union>c \<in> set cs. shard_range c) \<longrightarrow> mem' a = mem a)"
  using assms
proof (induction cs arbitrary: w mem)
  case Nil
  then show ?case by simp
next
  case (Cons c cs)
  obtain ptr sz where c: "c = (ptr, sz)" by force
  have sz: "0 < sz" "w + sz + sum_list (map snd cs) = length data" using Cons.prems by (simp_all add: c)
  let ?bs = "take sz (drop w data)"
  let ?mem = "mem_write ptr ?bs mem"
  have len: "length ?bs = sz" using sz by simp
  have stop: "min (uadd w sz) (length data) = w + sz" using sz Cons.prems(3) by (simp add: uadd_exact)
  have "shards_disjoint cs" using Cons.prems(4) by (simp add: shards_disjoint_def)
  with Cons.IH [of "w + sz" ?mem] Cons.prems sz
  obtain mem' where run: "copy_shards cs data (w + sz) ?mem = (length data, mem')"
    and rest: "concat (map (\<lambda>c. slice mem' (fst c) (snd c)) cs) = drop (w + sz) data"
    and frame: "\<forall>a. a \<notin> (\<Union>c \<in> set cs. shard_range c) \<longrightarrow> mem' a = ?mem a"
    by auto
  have "\<forall>a \<in> {ptr ..< ptr + sz}. a \<notin> (\<Union>c \<in> set cs. shard_range c)"
    using Cons.prems(4) by (fastforce simp: shards_disjoint_def c shard_range_def)
  then have "slice mem' ptr sz = slice ?mem ptr sz"
    using frame by (auto simp: slice_def)
  also have "\<dots> = ?bs" using len by (rule slice_mem_write)
  finally have "slice mem' ptr sz @ drop (w + sz) data = drop w data"
    using append_take_drop_id [of sz "drop w data"] by (simp add: add.commute)
  moreover have "copy_shards (c # cs) data w mem = (length data, mem')"
    using run stop sz by (simp add: c Let_def)
  moreover have "mem' a = mem a" if "a \<notin> (\<Union>c \<in> set (c # cs). shard_range c)" for a
    using that frame mem_write_outside [of a ptr ?bs] len by (auto simp: c shard_range_def not_less not_le)
  ultimately show ?case using rest by (auto simp: c)
qed

definition shards_of :: "page \<Rightarrow> (usize \<times> usize) list" where
  "shards_of pg = map (\<lambda>c. (dc_host_ptr c, dc_size_bytes c)) (pg_dram_chunks pg)"

lemma write_page_warm:
  assumes "vmt_lookup (tp_vmt p) name = Some pg" and "pg_tier pg \<noteq> Ssd" and "length data = pg_size_bytes pg"
    and "copy_shards (shards_of pg) data 0 (tp_host p) = (written, host)"
  shows "write_page pf name data p
    = (if written = length data then Ok () else Err (Io InvalidData), p\<lparr>tp_host := host\<rparr>)"
  using assms by (simp add: write_page_def bind_lookupM shards_of_def)

lemma write_shards:
  assumes page: "vmt_lookup (tp_vmt p) name = Some pg" "pg_tier pg \<noteq> Ssd"
    and data: "length data = pg_size_bytes pg" "length data < W64" and N: "0 < N"
    and sizes: "map snd (shards_of pg) = map (shard_bytes (length data) N) [0 ..< N]"
    and disj: "shards_disjoint (shards_of pg)"
  shows "if data = [] \<or> N \<le> length data
    then \<exists>host. write_page pf name data p = (Ok (), p\<lparr>tp_host := host\<rparr>)
      \<and> concat (map (\<lambda>c. slice host (fst c) (snd c)) (shards_of pg)) = data
      \<and> (\<forall>a. a \<notin> (\<Union>c \<in> set (shards_of pg). shard_range c) \<longrightarrow> host a = tp_host p a)
    else write_page pf name data p = (Err (Io InvalidData), p)"
proof -
  let ?cs = "shards_of pg" and ?t = "length data"
  have len: "length ?cs = N" using sizes by (metis length_map length_upt diff_zero)
  have size: "snd (?cs ! i) = ?t div N + (if i + 1 = N then ?t mod N else 0)" if "i < N" for i
  proof -
    have "map snd ?cs ! i = map (shard_bytes ?t N) [0 ..< N] ! i" using sizes by simp
    with that len show ?thesis by (simp add: shard_bytes_exact [OF data(2)])
  qed
  show ?thesis
  proof (cases "N \<le> ?t")
    case True
    then have "0 < ?t div N" using N by (simp add: div_greater_zero_iff)
    then have "0 < snd (?cs ! i)" if "i < N" for i using size [OF that] by simp
    then have pos: "\<forall>c \<in> set ?cs. 0 < snd c" unfolding all_set_conv_all_nth len by blast
    have "0 + sum_list (map snd ?cs) = ?t" unfolding sizes using shards_sum [OF data(2) N] by simp
    from copy_shards_all [OF pos this data(2) disj, of "tp_host p"] obtain host where
      run: "copy_shards ?cs data 0 (tp_host p) = (?t, host)"
      and host: "concat (map (\<lambda>c. slice host (fst c) (snd c)) ?cs) = data"
      "\<forall>a. a \<notin> (\<Union>c \<in> set ?cs. shard_range c) \<longrightarrow> host a = tp_host p a" by auto
    with write_page_warm [OF page data(1) run] True show ?thesis by auto
  next
    case False
    then have small: "?t div N = 0" "?t < N" by simp_all
    then obtain ptr sz cs where cs: "?cs = (ptr, sz) # cs" using len N by (cases ?cs) auto
    have "min sz ?t = 0"
      using size [OF N] small by (cases "N = 1") (simp_all add: cs)
    then have run: "copy_shards ?cs data 0 (tp_host p) = (0, tp_host p)"
      using data(2) size [OF N] small by (simp add: cs Let_def uadd_def min_def split: if_splits)
    note run = write_page_warm [OF page data(1) run]
    show ?thesis
    proof (cases "data = []")
      case True
      have "map (\<lambda>c. slice (tp_host p) (fst c) (snd c)) ?cs = replicate N []"
        using size len True by (intro nth_equalityI) (simp_all add: slice_def)
      then have "concat (map (\<lambda>c. slice (tp_host p) (fst c) (snd c)) ?cs) = data"
        using True by (simp only: concat_replicate_trivial)
      moreover have "write_page pf name data p = (Ok (), p\<lparr>tp_host := tp_host p\<rparr>)"
        unfolding run using True by simp
      moreover have c: "data = [] \<or> N \<le> ?t" using True by simp
      ultimately show ?thesis unfolding if_P [OF c] by (intro exI [of _ "tp_host p"]) simp
    qed (use run False in simp)
  qed
qed

text \<open>
  Property C21. \<open>write_page\<close> on a warm or resident page sharded as \<open>allocate\<close> does it. When the page has
  at least one byte per pool (or none at all) the shards, read in order, hold exactly the data, and no
  other byte of host memory and nothing else of the pool changes. A page with fewer bytes than there
  are pools cannot be written: its first shard is empty, the loop stops there, and the data is
  refused as if the backing were short.
\<close>

theorem write_page_shards:
  assumes page: "vmt_lookup (tp_vmt p) name = Some pg" "pg_tier pg \<noteq> Ssd"
    and data: "length data = pg_size_bytes pg" "length data < W64" and N: "0 < N"
    and sizes: "map snd (shards_of pg) = map (shard_bytes (length data) N) [0 ..< N]"
    and disj: "shards_disjoint (shards_of pg)"
  shows "if data = [] \<or> N \<le> length data
    then \<exists>host. write_page pf name data p = (Ok (), p\<lparr>tp_host := host\<rparr>)
      \<and> concat (map (\<lambda>c. slice host (fst c) (snd c)) (shards_of pg)) = data
      \<and> (\<forall>a. a \<notin> (\<Union>c \<in> set (shards_of pg). shard_range c) \<longrightarrow> host a = tp_host p a)
    else write_page pf name data p = (Err (Io InvalidData), p)"
  by (rule write_shards [OF assms])


section \<open>A pool of two GPUs, for the witnesses\<close>

definition two_gpus :: gpu_cluster where
  "two_gpus = sample_cluster\<lparr>gc_ordinals := [0, 1], gc_ordinal_map := ordinal_index [0, 1]\<rparr>"

definition two_streams :: stream_pool where
  "two_streams = \<lparr>st_compute = [\<lparr>cs_inner = 1, cs_priority = 0\<rparr>, \<lparr>cs_inner = 2, cs_priority = 0\<rparr>],
     st_prefetch = [\<lparr>cs_inner = 3, cs_priority = -1\<rparr>, \<lparr>cs_inner = 4, cs_priority = -1\<rparr>], st_len = 2\<rparr>"

definition pool_sample :: "'w \<Rightarrow> 'w tiered_pool" where
  "pool_sample w = \<lparr>tp_vmt = vmt_new 2 2, tp_dma = dma_new 2, tp_cluster = two_gpus, tp_streams = two_streams,
     tp_contexts = \<lparr>cr_contexts = [\<lparr>pc_device = 0, pc_ctx = 7\<rparr>, \<lparr>pc_device = 1, pc_ctx = 8\<rparr>]\<rparr>,
     tp_dram_pools = [dp_sample, dp_sample\<lparr>dp_base_ptr := 131072\<rparr>], tp_vram_free = [[], []],
     tp_spill = None, tp_inflight = Map.empty, tp_membrane = membrane_new, tp_policy = policy_default id,
     tp_membrane_budget = None, tp_idle_threshold_ns = DEFAULT_IDLE_NS, tp_hot_threshold = HOT_ACCESS_THRESHOLD,
     tp_host = (\<lambda>_. 0), tp_world = w\<rparr>"

lemma pool_sample_ok:
  "pools_ok (tp_dram_pools (pool_sample w))"
  "tp_dram_pools (pool_sample w) \<noteq> []"
proof -
  have "dp_inv dp_sample" "dp_inv (dp_sample\<lparr>dp_base_ptr := 131072\<rparr>)"
    by (simp_all add: dp_inv_def dp_sample_def ra_inv_def W64_def dp_core_def)
  moreover have "apart dp_sample (dp_sample\<lparr>dp_base_ptr := 131072\<rparr>)"
    by (simp add: apart_def dp_sample_def)
  ultimately show "pools_ok (tp_dram_pools (pool_sample w))"
    by (auto simp: pools_ok_def pool_sample_def nth_Cons less_Suc_eq split: nat.splits)
qed (simp add: pool_sample_def)

lemma pool_sample_fits: "t < 100000 \<Longrightarrow> shards_fit (tp_dram_pools (pool_sample w)) t"
proof -
  assume "t < 100000"
  have "shard_bytes t 2 i < 200000" for i
  proof -
    have "shard_bytes t 2 i \<le> t div 2 + t mod 2" by (auto simp: shard_bytes_def uadd_def intro: order_trans [OF mod_less_eq_dividend])
    with \<open>t < 100000\<close> show ?thesis by linarith
  qed
  then have small: "shard_bytes t (length (tp_dram_pools (pool_sample w))) i < 200000" for i
    by (simp add: pool_sample_def numeral_2_eq_2)
  show ?thesis
    unfolding shards_fit_def
  proof (intro ballI allI)
    fix d i assume "d \<in> set (tp_dram_pools (pool_sample w))"
    then have "dp_capacity d = 4096" by (auto simp: pool_sample_def dp_sample_def)
    with small [of i] show "dp_fits d (shard_bytes t (length (tp_dram_pools (pool_sample w))) i)"
      by (simp add: dp_fits_def ra_fits_def W64_def)
  qed
qed

theorem tiered_allocate_shards_witness:
  "\<exists>r q cs. tiered_allocate ''w'' [3, 5] 4 Dram (pool_sample ()) = (r, q)
    \<and> vmt_lookup (tp_vmt q) ''w''
      = Some (sharded_page ''w'' [3, 5] 4 Dram (if r = Ok ''w'' then Warm else Allocated) cs)"
proof -
  obtain r q where run: "tiered_allocate ''w'' [3, 5] 4 Dram (pool_sample ()) = (r, q)" by force
  have "umul (uproduct [3, 5]) 4 < 100000" by (simp add: uproduct_def umul_def W64_def)
  from tiered_allocate_shards [OF pool_sample_ok pool_sample_fits [OF this] _ run]
  show ?thesis using run by (auto simp: alloc_name_def tier_state_def)
qed

theorem deallocate_undoes_allocate_witness:
  "tp_dram_pools (snd (deallocate ''w'' (snd (tiered_allocate ''w'' [3, 5] 4 Dram (pool_sample ())))))
    = tp_dram_pools (pool_sample ())"
proof -
  obtain r q where run: "tiered_allocate ''w'' [3, 5] 4 Dram (pool_sample ()) = (r, q)" by force
  have "umul (uproduct [3, 5]) 4 < 100000" by (simp add: uproduct_def umul_def W64_def)
  from deallocate_undoes_allocate [OF pool_sample_ok pool_sample_fits [OF this] _ run]
  show ?thesis using run by (simp add: alloc_name_def)
qed

theorem write_page_shards_witness:
  "write_page (idle_platform :: unit platform) ''w'' [7] ((pool_sample ())\<lparr>tp_vmt := filed ''w''
      (sharded_page ''w'' [1] 1 Dram Warm [\<lparr>dc_numa_node = 1, dc_host_ptr = 65536, dc_size_bytes = 0, dc_cuda_registered = False\<rparr>,
        \<lparr>dc_numa_node = 1, dc_host_ptr = 131072, dc_size_bytes = 1, dc_cuda_registered = False\<rparr>]) ''w'' (vmt_new 2 2)\<rparr>)
    = (Err (Io InvalidData), (pool_sample ())\<lparr>tp_vmt := filed ''w''
      (sharded_page ''w'' [1] 1 Dram Warm [\<lparr>dc_numa_node = 1, dc_host_ptr = 65536, dc_size_bytes = 0, dc_cuda_registered = False\<rparr>,
        \<lparr>dc_numa_node = 1, dc_host_ptr = 131072, dc_size_bytes = 1, dc_cuda_registered = False\<rparr>]) ''w'' (vmt_new 2 2)\<rparr>)"
proof -
  let ?cs = "[\<lparr>dc_numa_node = 1, dc_host_ptr = 65536, dc_size_bytes = 0, dc_cuda_registered = False\<rparr>,
        \<lparr>dc_numa_node = 1, dc_host_ptr = 131072, dc_size_bytes = 1, dc_cuda_registered = False\<rparr>]"
  let ?pg = "sharded_page ''w'' [1] 1 Dram Warm ?cs"
  let ?p = "(pool_sample ())\<lparr>tp_vmt := filed ''w'' ?pg ''w'' (vmt_new 2 2)\<rparr>"
  have page: "vmt_lookup (tp_vmt ?p) ''w'' = Some ?pg" "pg_tier ?pg \<noteq> Ssd" by simp_all
  have size: "length [7 :: byte] = pg_size_bytes ?pg" "length [7 :: byte] < W64"
    by (simp_all add: uproduct_def umul_def W64_def)
  have shards: "map snd (shards_of ?pg) = map (shard_bytes (length [7 :: byte]) 2) [0 ..< 2]"
    by (simp add: shards_of_def shard_bytes_def uadd_def W64_def numeral_2_eq_2)
  have "shards_disjoint (shards_of ?pg)" by (simp add: shards_disjoint_def shards_of_def shard_range_def)
  from write_page_shards [OF page size _ shards this, of "idle_platform :: unit platform"] show ?thesis by simp
qed


definition prefetching_sample :: "unit tiered_pool" where
  "prefetching_sample = (pool_sample ())\<lparr>tp_vmt := filed ''w'' (sharded_page ''w'' [4] 1 Dram Warm []) ''w'' (vmt_new 2 2),
     tp_inflight := [''w'' \<mapsto> (0, 9, 4, \<lparr>ce_inner = 5\<rparr>)]\<rparr>"

theorem deallocate_leaves_witness:
  "\<exists>q. deallocate ''w'' prefetching_sample = (Ok (), q) \<and> inflight_count q = 1
    \<and> fst (access idle_platform ''w'' 0 q) = Panic"
proof -
  have page: "vmt_lookup (tp_vmt prefetching_sample) ''w'' = Some (sharded_page ''w'' [4] 1 Dram Warm [])"
    and inflight: "tp_inflight prefetching_sample ''w'' = Some (0, 9, 4, \<lparr>ce_inner = 5\<rparr>)"
    by (simp_all add: prefetching_sample_def)
  obtain q where run: "deallocate ''w'' prefetching_sample = (Ok (), q)"
    using page by (simp add: deallocate_def bind_lookupM run_simps)
  have "\<forall>w. fst (pf_event_sync (idle_platform :: unit platform) (ce_inner \<lparr>ce_inner = 5\<rparr>) w) = 0"
    by (simp add: idle_platform_def)
  from deallocate_leaves [OF page run inflight this] run show ?thesis
    by (simp add: inflight_count_def prefetching_sample_def)
qed

end
