(* ===== verification/VramCache.thy ===== *)
theory VramCache
  imports TieredStore "HOL-Library.Multiset"
begin

text \<open>
  The recycle cache of device blocks in \<open>src/tiered.rs\<close> (\<open>alloc_vram_on_gpu\<close>, \<open>free_vram_on_gpu\<close>):
  over every history, a block is either cached or held by one client, with the size and in the
  context it was allocated with.
\<close>

section \<open>What is relied on of the driver\<close>

text \<open>
  \<open>cur\<close> is the current context of the thread, \<open>given\<close> the context and the size of every block the
  driver has handed out. A new block is not null and was not handed out before.
\<close>

definition device_blocks :: "'w platform \<Rightarrow> ('w \<Rightarrow> u64) \<Rightarrow> ('w \<Rightarrow> u64 \<Rightarrow> (u64 \<times> usize) option) \<Rightarrow> bool" where
  "device_blocks pf cur given \<longleftrightarrow>
     (\<forall>c w rc w'. pf_ctx_set_current pf c w = (rc, w') \<longrightarrow> given w' = given w \<and> (rc = 0 \<longrightarrow> cur w' = c))
   \<and> (\<forall>n w rc x w'. pf_mem_alloc pf n w = (rc, x, w') \<longrightarrow>
        (if rc = 0 then x \<noteq> 0 \<and> given w x = None \<and> given w' = (given w)(x \<mapsto> (cur w, n))
         else given w' = given w))"

section \<open>Histories\<close>

type_synonym held_block = "usize \<times> usize \<times> u64"

text \<open>A client asks for a block on a GPU, or returns the \<open>i\<close>-th block it holds.\<close>

datatype vram_op = VGet usize usize | VPut nat

fun vram_step :: "'w platform \<Rightarrow> 'w tiered_pool \<times> held_block list \<Rightarrow> vram_op \<Rightarrow> 'w tiered_pool \<times> held_block list" where
  "vram_step pf (p, held) (VGet g n) =
     (case alloc_vram_on_gpu pf g n p of
        (Ok x, q) \<Rightarrow> (q, held @ [(g, n, x)])
      | (_, q) \<Rightarrow> (q, held))"
| "vram_step pf (p, held) (VPut i) =
     (if i < length held
      then (case held ! i of (g, n, x) \<Rightarrow> (snd (free_vram_on_gpu g x n p), vec_remove i held))
      else (p, held))"

definition vram_run :: "'w platform \<Rightarrow> 'w tiered_pool \<Rightarrow> vram_op list \<Rightarrow> 'w tiered_pool \<times> held_block list" where
  "vram_run pf p ops = foldl (vram_step pf) (p, []) ops"

section \<open>The blocks of the pool\<close>

definition cache_blocks :: "nat \<Rightarrow> vram_block list \<Rightarrow> held_block multiset" where
  "cache_blocks g cache = image_mset (\<lambda>(n, x). (g, n, x)) (mset cache)"

definition cached :: "vram_block list list \<Rightarrow> held_block multiset" where
  "cached caches = (\<Sum>g < length caches. cache_blocks g (caches ! g))"

lemma cached_update:
  assumes "g < length caches" and "cache_blocks g c + M = cache_blocks g (caches ! g) + N"
  shows "cached (caches[g := c]) + M = cached caches + N"
proof -
  have split: "cached cs = cache_blocks g (cs ! g) + (\<Sum>k \<in> {..< length cs} - {g}. cache_blocks k (cs ! k))"
    if "length cs = length caches" for cs
    using assms(1) that by (simp add: cached_def sum.remove)
  have rest: "(\<Sum>k \<in> {..< length caches} - {g}. cache_blocks k (caches[g := c] ! k))
      = (\<Sum>k \<in> {..< length caches} - {g}. cache_blocks k (caches ! k))"
    by (rule sum.cong) auto
  have "cached (caches[g := c]) + M = (cache_blocks g c + M)
      + (\<Sum>k \<in> {..< length caches} - {g}. cache_blocks k (caches ! k))"
    using split [of "caches[g := c]"] rest assms(1) by (simp add: ac_simps)
  also have "\<dots> = cached caches + N"
    unfolding assms(2) using split [of caches] by (simp add: ac_simps)
  finally show ?thesis .
qed

lemma mset_swap_remove: "i < length xs \<Longrightarrow> add_mset (xs ! i) (mset (vec_swap_remove i xs)) = mset xs"
proof -
  assume i: "i < length xs"
  then have ne: "xs \<noteq> []" by auto
  have "mset (butlast (xs[i := last xs])) = mset (xs[i := last xs]) - {#last (xs[i := last xs])#}"
    using ne mset_append [of "butlast (xs[i := last xs])" "[last (xs[i := last xs])]"]
    by (metis append_butlast_last_id add_mset_add_single add_diff_cancel_right' list_update_nonempty mset_append mset_single_iff_right mset.simps)
  moreover have "last (xs[i := last xs]) = last xs"
    using i ne by (simp add: last_conv_nth nth_list_update)
  moreover have "mset (xs[i := last xs]) = add_mset (last xs) (mset xs - {#xs ! i#})"
    using i by (simp add: mset_update)
  ultimately show ?thesis using i by (simp add: vec_swap_remove_def)
qed

text \<open>All blocks, cached and held.\<close>

definition all_blocks :: "'w tiered_pool \<times> held_block list \<Rightarrow> held_block multiset" where
  "all_blocks c = cached (tp_vram_free (fst c)) + mset (snd c)"

lemma alloc_cached:
  assumes "g < length (tp_vram_free p)" and pos: "position (\<lambda>(sz, _). sz = n) (tp_vram_free p ! g) = Some i"
  shows "\<exists>x q. alloc_vram_on_gpu pf g n p = (Ok x, q) \<and> tp_world q = tp_world p
    \<and> q = p\<lparr>tp_vram_free := tp_vram_free q\<rparr> \<and> length (tp_vram_free q) = length (tp_vram_free p)
    \<and> add_mset (g, n, x) (cached (tp_vram_free q)) = cached (tp_vram_free p)"
proof -
  let ?cache = "tp_vram_free p ! g"
  have i: "i < length ?cache" and sz: "fst (?cache ! i) = n"
    using position_Some [OF pos] by (auto simp: case_prod_beta)
  let ?q = "p\<lparr>tp_vram_free := (tp_vram_free p)[g := vec_swap_remove i ?cache]\<rparr>"
  have "cache_blocks g (vec_swap_remove i ?cache) + {#(g, n, snd (?cache ! i))#} = cache_blocks g ?cache + {#}"
    using mset_swap_remove [OF i] sz by (metis (no_types, lifting) cache_blocks_def add.right_neutral
        add_mset_add_single case_prod_beta image_mset_add_mset)
  from cached_update [OF assms(1) this]
  have "add_mset (g, n, snd (?cache ! i)) (cached (tp_vram_free ?q)) = cached (tp_vram_free p)" by simp
  moreover have "alloc_vram_on_gpu pf g n p = (Ok (snd (?cache ! i)), ?q)"
    using assms by (simp add: alloc_vram_on_gpu_def vec_get_def)
  ultimately show ?thesis by (intro exI [of _ "snd (?cache ! i)"] exI [of _ ?q]) simp
qed


definition ctx_of :: "context_registry \<Rightarrow> usize \<Rightarrow> u64" where
  "ctx_of r g = pc_ctx (cr_contexts r ! g)"

lemma set_context_given:
  assumes dev: "device_blocks pf cur given" and run: "set_context pf g p = (r, q)"
  shows "\<exists>w. q = p\<lparr>tp_world := w\<rparr> \<and> given w = given (tp_world p)
    \<and> (r = Ok () \<longrightarrow> cur w = ctx_of (tp_contexts p) g)"
proof (cases "vec_get (cr_contexts (tp_contexts p)) g")
  case None
  then have "r = Err (InvalidGpu g)" and "q = p"
    using run by (simp_all add: set_context_def worldM_def registry_bind_def registry_get_def bindM_def run_simps)
  then show ?thesis by (intro exI [of _ "tp_world p"]) simp
next
  case (Some c)
  obtain rc w where s: "pf_ctx_set_current pf (pc_ctx c) (tp_world p) = (rc, w)" by force
  have "r = check_cu ''cuCtxSetCurrent'' rc" "q = p\<lparr>tp_world := w\<rparr>"
    using run Some s
    by (simp_all add: set_context_def worldM_def registry_bind_def registry_get_def bindM_def run_simps
        pc_bind_def cu_call_def)
  moreover have "given w = given (tp_world p)" "rc = 0 \<longrightarrow> cur w = pc_ctx c"
    using dev s unfolding device_blocks_def by blast+
  moreover have "c = cr_contexts (tp_contexts p) ! g"
    using Some by (simp add: vec_get_def split: if_splits)
  ultimately show ?thesis
    by (intro exI [of _ w]) (simp add: check_cu_def ctx_of_def)
qed

text \<open>A block that is not cached comes from the driver, new and in the context of the GPU.\<close>

lemma alloc_fresh:
  assumes dev: "device_blocks pf cur given" and g: "g < length (tp_vram_free p)"
    and pos: "position (\<lambda>(sz, _). sz = n) (tp_vram_free p ! g) = None"
    and run: "alloc_vram_on_gpu pf g n p = (r, q)"
  shows "q = p\<lparr>tp_world := tp_world q\<rparr>
    \<and> (case r of
        Ok x \<Rightarrow> x \<noteq> 0 \<and> given (tp_world p) x = None
          \<and> given (tp_world q) = (given (tp_world p))(x \<mapsto> (ctx_of (tp_contexts p) g, n))
      | _ \<Rightarrow> given (tp_world q) = given (tp_world p))"
proof -
  obtain r1 p1 where sc: "set_context pf g p = (r1, p1)" by force
  then obtain w where p1: "p1 = p\<lparr>tp_world := w\<rparr>" and w: "given w = given (tp_world p)"
    and cur: "r1 = Ok () \<longrightarrow> cur w = ctx_of (tp_contexts p) g"
    using set_context_given [OF dev sc] by blast
  have alloc: "alloc_vram_on_gpu pf g n p
      = bindM (set_context pf g) (\<lambda>_. worldM (cu_get ''cuMemAlloc_v2'' (pf_mem_alloc pf n))) p"
    using g pos by (simp add: alloc_vram_on_gpu_def vec_get_def)
  show ?thesis
  proof (cases r1)
    case (Ok u)
    obtain rc x w2 where m: "pf_mem_alloc pf n w = (rc, x, w2)" by (cases "pf_mem_alloc pf n w")
    have "if rc = 0 then x \<noteq> 0 \<and> given w x = None \<and> given w2 = (given w)(x \<mapsto> (cur w, n)) else given w2 = given w"
      using dev m unfolding device_blocks_def by blast
    moreover have "q = p\<lparr>tp_world := w2\<rparr>" and "r = (if rc = 0 then Ok x else Err (CudaError ''cuMemAlloc_v2'' rc))"
      using run Ok sc m
      by (auto simp: alloc bindM_def p1 worldM_def cu_get_def check_cu_def)
    ultimately show ?thesis using w cur Ok by auto
  qed (use run sc p1 w in \<open>auto simp: alloc bindM_def\<close>)
qed

section \<open>The invariant\<close>

definition pointer_of :: "held_block \<Rightarrow> u64" where
  "pointer_of b = snd (snd b)"

definition blocks_ok :: "('w \<Rightarrow> u64 \<Rightarrow> (u64 \<times> usize) option) \<Rightarrow> 'w tiered_pool \<Rightarrow> 'w tiered_pool \<times> held_block list \<Rightarrow> bool" where
  "blocks_ok given p0 c \<longleftrightarrow>
     length (tp_vram_free (fst c)) = length (tp_vram_free p0) \<and> tp_contexts (fst c) = tp_contexts p0
   \<and> (\<forall>x. count (image_mset pointer_of (all_blocks c)) x \<le> 1)
   \<and> (\<forall>(g, n, x) \<in># all_blocks c. g < length (tp_vram_free p0) \<and> x \<noteq> 0
        \<and> given (tp_world (fst c)) x = Some (ctx_of (tp_contexts p0) g, n))
   \<and> dom (given (tp_world (fst c))) = dom (given (tp_world p0)) \<union> pointer_of ` set_mset (all_blocks c)"

lemma blocks_ok_same:
  assumes "blocks_ok given p0 (p, held)" and "all_blocks (q, held') = all_blocks (p, held)"
    and "length (tp_vram_free q) = length (tp_vram_free p)" and "tp_contexts q = tp_contexts p"
    and "given (tp_world q) = given (tp_world p)"
  shows "blocks_ok given p0 (q, held')"
  using assms by (simp add: blocks_ok_def)

lemma vram_get_ok:
  assumes dev: "device_blocks pf cur given" and ok: "blocks_ok given p0 (p, held)"
  shows "blocks_ok given p0 (vram_step pf (p, held) (VGet g n))"
proof (cases "g < length (tp_vram_free p)")
  case False
  then show ?thesis using ok by (simp add: alloc_vram_on_gpu_def vec_get_def)
next
  case g: True
  show ?thesis
  proof (cases "position (\<lambda>(sz, _). sz = n) (tp_vram_free p ! g)")
    case (Some i)
    from alloc_cached [OF g Some, of pf] obtain x q where run: "alloc_vram_on_gpu pf g n p = (Ok x, q)"
      and w: "tp_world q = tp_world p" and frame: "q = p\<lparr>tp_vram_free := tp_vram_free q\<rparr>"
      and len: "length (tp_vram_free q) = length (tp_vram_free p)"
      and all: "add_mset (g, n, x) (cached (tp_vram_free q)) = cached (tp_vram_free p)" by blast
    have "tp_contexts q = tp_contexts p" by (subst frame) simp
    with all w len run show ?thesis
      by (simp, intro blocks_ok_same [OF ok]) (simp_all add: all_blocks_def)
  next
    case None
    obtain r q where run: "alloc_vram_on_gpu pf g n p = (r, q)" by force
    note f = alloc_fresh [OF dev g None run]
    have same: "tp_vram_free q = tp_vram_free p" "tp_contexts q = tp_contexts p"
      by (subst conjunct1 [OF f], simp)+
    show ?thesis
    proof (cases r)
      case (Ok x)
      let ?c = "(q, held @ [(g, n, x)])"
      have all: "all_blocks ?c = add_mset (g, n, x) (all_blocks (p, held))"
        by (simp add: all_blocks_def same)
      have x: "x \<noteq> 0" "given (tp_world p) x = None"
        and gq: "given (tp_world q) = (given (tp_world p))(x \<mapsto> (ctx_of (tp_contexts p) g, n))"
        using f Ok by simp_all
      have new: "x \<notin> pointer_of ` set_mset (all_blocks (p, held))"
      proof -
        have "pointer_of ` set_mset (all_blocks (p, held)) \<subseteq> dom (given (tp_world p))"
          using ok by (simp add: blocks_ok_def)
        with x(2) show ?thesis by blast
      qed
      then have zero: "count (image_mset pointer_of (all_blocks (p, held))) x = 0"
        by (simp add: count_eq_zero_iff)
      have "blocks_ok given p0 ?c"
        unfolding blocks_ok_def all
      proof (intro conjI)
        show "\<forall>y. count (image_mset pointer_of (add_mset (g, n, x) (all_blocks (p, held)))) y \<le> 1"
          using ok zero by (simp add: blocks_ok_def pointer_of_def)
        show "\<forall>(g', n', y) \<in># add_mset (g, n, x) (all_blocks (p, held)). g' < length (tp_vram_free p0) \<and> y \<noteq> 0
            \<and> given (tp_world (fst ?c)) y = Some (ctx_of (tp_contexts p0) g', n')"
          using ok g x new by (fastforce simp: blocks_ok_def gq pointer_of_def image_iff)
        show "dom (given (tp_world (fst ?c)))
            = dom (given (tp_world p0)) \<union> pointer_of ` set_mset (add_mset (g, n, x) (all_blocks (p, held)))"
          using ok by (simp add: blocks_ok_def gq pointer_of_def)
      qed (use ok same in \<open>simp_all add: blocks_ok_def\<close>)
      then show ?thesis using run Ok by simp
    next
      case (Err e)
      with f run same show ?thesis by (auto intro!: blocks_ok_same [OF ok] simp: all_blocks_def)
    next
      case Panic
      with f run same show ?thesis by (auto intro!: blocks_ok_same [OF ok] simp: all_blocks_def)
    qed
  qed
qed


lemma vram_put_ok:
  assumes ok: "blocks_ok given p0 (p, held)"
  shows "blocks_ok given p0 (vram_step pf (p, held) (VPut i))"
proof (cases "i < length held")
  case True
  obtain g n x where h: "held ! i = (g, n, x)" by (cases "held ! i")
  have "(g, n, x) \<in># all_blocks (p, held)" using h True nth_mem [OF True] by (simp add: all_blocks_def)
  moreover have "\<forall>(g, n, x) \<in># all_blocks (p, held). g < length (tp_vram_free p0) \<and> x \<noteq> 0"
    using ok by (auto simp: blocks_ok_def)
  moreover have len: "length (tp_vram_free p) = length (tp_vram_free p0)" using ok by (simp add: blocks_ok_def)
  ultimately have g: "g < length (tp_vram_free p)" and x: "x \<noteq> 0" by auto
  let ?q = "p\<lparr>tp_vram_free := (tp_vram_free p)[g := tp_vram_free p ! g @ [(n, x)]]\<rparr>"
  have free: "snd (free_vram_on_gpu g x n p) = ?q"
    using g x by (simp add: free_vram_on_gpu_def vec_get_def)
  have "cache_blocks g (tp_vram_free p ! g @ [(n, x)]) + {#} = cache_blocks g (tp_vram_free p ! g) + {#(g, n, x)#}"
    by (simp add: cache_blocks_def)
  from cached_update [OF g this]
  have "cached (tp_vram_free ?q) = add_mset (g, n, x) (cached (tp_vram_free p))" by simp
  moreover have "mset held = add_mset (g, n, x) (mset (vec_remove i held))"
    using True h by (metis id_take_nth_drop mset.simps(2) mset_append union_mset_add_mset_right vec_remove_def)
  ultimately have "all_blocks (?q, vec_remove i held) = all_blocks (p, held)" by (simp add: all_blocks_def)
  with free True h show ?thesis by (simp, intro blocks_ok_same [OF ok]) simp_all
qed (use ok in simp)

lemma vram_run_ok:
  assumes dev: "device_blocks pf cur given" and "blocks_ok given p0 c"
  shows "blocks_ok given p0 (foldl (vram_step pf) c ops)"
  using assms(2)
proof (induction ops arbitrary: c)
  case (Cons x ops)
  obtain p held where c: "c = (p, held)" by force
  have "blocks_ok given p0 (vram_step pf (p, held) x)"
    using Cons.prems vram_get_ok [OF dev] vram_put_ok unfolding c by (cases x) blast+
  then show ?case using Cons.IH by (simp add: c)
qed simp

lemma count_image_le_1:
  assumes "\<forall>x. count (image_mset f (A + mset xs)) x \<le> 1"
  shows "distinct (map f xs)" and "\<forall>a \<in># A. f a \<notin> f ` set xs"
proof -
  have "count (image_mset f A) x + count (mset (map f xs)) x \<le> 1" for x
    using assms by simp
  note sum = this
  then have "\<forall>x. count (mset (map f xs)) x \<le> 1" by (meson add_leD2)
  then show "distinct (map f xs)"
    by (metis count_greater_zero_iff distinct_count_atmost_1 le_antisym less_one linorder_not_less not_gr_zero set_mset_mset count_mset_0_iff le_0_eq less_eq_Suc_le One_nat_def)
  show "\<forall>a \<in># A. f a \<notin> f ` set xs"
  proof (intro ballI notI)
    fix a assume "a \<in># A" and "f a \<in> f ` set xs"
    then have "0 < count (image_mset f A) (f a)" and "0 < count (mset (map f xs)) (f a)"
      by (simp_all add: count_greater_zero_iff del: count_image_mset)
    with sum [of "f a"] show False by linarith
  qed
qed

text \<open>
  Over every history of device allocations and releases, whatever the driver answers:
  the blocks the clients hold are pairwise different and not in the cache, so no block is handed out
  twice; each is a block the driver gave with exactly the requested size in the primary context of
  the GPU it was requested for; and every block the driver gave is held or cached, none is lost.
\<close>

theorem vram_history_no_aliasing:
  assumes dev: "device_blocks pf cur given" and empty: "\<forall>cache \<in> set (tp_vram_free p). cache = []"
    and run: "vram_run pf p ops = (q, held)"
  shows "distinct (map pointer_of held)
    \<and> (\<forall>(g, n, x) \<in> set held. given (tp_world q) x = Some (ctx_of (tp_contexts p) g, n))
    \<and> (\<forall>cache \<in> set (tp_vram_free q). \<forall>(n, x) \<in> set cache. x \<notin> pointer_of ` set held)
    \<and> dom (given (tp_world q)) = dom (given (tp_world p)) \<union> pointer_of ` set held
        \<union> (\<Union>cache \<in> set (tp_vram_free q). snd ` set cache)"
proof -
  have "cached (tp_vram_free p) = {#}"
    unfolding cached_def using empty by (intro sum.neutral) (simp add: cache_blocks_def)
  then have "blocks_ok given p (p, [])" by (simp add: blocks_ok_def all_blocks_def)
  from vram_run_ok [OF dev this, of ops] run have ok: "blocks_ok given p (q, held)" by (simp add: vram_run_def)
  have count: "\<forall>x. count (image_mset pointer_of (cached (tp_vram_free q) + mset held)) x \<le> 1"
    and blocks: "\<forall>(g, n, x) \<in># cached (tp_vram_free q) + mset held.
        given (tp_world q) x = Some (ctx_of (tp_contexts p) g, n)"
    and dom: "dom (given (tp_world q)) = dom (given (tp_world p))
        \<union> pointer_of ` set_mset (cached (tp_vram_free q) + mset held)"
    using ok by (simp_all add: blocks_ok_def all_blocks_def case_prod_beta)
  have set: "set_mset (cached (tp_vram_free q))
      = (\<Union>g < length (tp_vram_free q). (\<lambda>(n, x). (g, n, x)) ` set (tp_vram_free q ! g))"
    by (simp add: cached_def cache_blocks_def set_mset_sum)
  have ptrs: "pointer_of ` set_mset (cached (tp_vram_free q)) = (\<Union>cache \<in> set (tp_vram_free q). snd ` set cache)"
  proof -
    have "set (tp_vram_free q) = (!) (tp_vram_free q) ` {..< length (tp_vram_free q)}"
      using nth_image [of "length (tp_vram_free q)" "tp_vram_free q"] by (simp add: atLeast0LessThan)
    then show ?thesis
      unfolding set by (simp add: image_UN image_image pointer_of_def case_prod_beta)
  qed
  note split = count_image_le_1 [OF count]
  have "x \<notin> pointer_of ` set held" if "cache \<in> set (tp_vram_free q)" "(n, x) \<in> set cache" for cache n x
  proof -
    have "x \<in> pointer_of ` set_mset (cached (tp_vram_free q))" unfolding ptrs using that by force
    with split(2) show ?thesis by auto
  qed
  then show ?thesis
    using split(1) blocks dom ptrs by (auto simp: image_Un Un_ac)
qed


text \<open>A driver that numbers its blocks.\<close>

type_synonym block_world = "u64 \<times> (u64 \<times> usize) list"

definition numbering_device :: "block_world platform" where
  "numbering_device = idle_platform\<lparr>
     pf_ctx_set_current := (\<lambda>c (cur, given). (0, (c, given))),
     pf_mem_alloc := (\<lambda>n (cur, given). (0, length given + 1, (cur, given @ [(cur, n)])))\<rparr>"

definition given_block :: "block_world \<Rightarrow> u64 \<Rightarrow> (u64 \<times> usize) option" where
  "given_block w x = (if 0 < x \<and> x \<le> length (snd w) then Some (snd w ! (x - 1)) else None)"

lemma numbering_device_blocks: "device_blocks numbering_device fst given_block"
  by (auto simp: device_blocks_def numbering_device_def given_block_def fun_eq_iff nth_append)

theorem vram_history_no_aliasing_witness:
  "snd (vram_run numbering_device (pool_sample (0, [])) [VGet 0 64, VPut 0, VGet 0 64, VGet 1 64])
      = [(0, 64, 1), (1, 64, 2)]
    \<and> distinct (map pointer_of [(0, 64, 1), (1, 64, 2)])"
proof -
  obtain q where run: "vram_run numbering_device (pool_sample (0, [])) [VGet 0 64, VPut 0, VGet 0 64, VGet 1 64]
      = (q, [(0, 64, 1), (1, 64, 2)])"
    by (simp add: vram_run_def alloc_vram_on_gpu_def free_vram_on_gpu_def pool_sample_def vec_get_def
        set_context_def worldM_def registry_bind_def registry_get_def pc_bind_def cu_call_def cu_get_def
        check_cu_def bindM_def run_simps numbering_device_def vec_remove_def vec_swap_remove_def)
  have "\<forall>cache \<in> set (tp_vram_free (pool_sample ((0, []) :: block_world))). cache = []"
    by (simp add: pool_sample_def)
  from vram_history_no_aliasing [OF numbering_device_blocks this run] run show ?thesis by simp
qed

end
