(* ===== verification/Promotion.thy ===== *)
theory Promotion
  imports TieredStore
begin

text \<open>
  Promotion and demotion in \<open>src/tiered.rs\<close> (\<open>access\<close>, \<open>demote\<close>, the sweeps): which pages they touch,
  what they move, that the streaming loop ends, and what the DMA ring does to them.
\<close>

lemma keeps_read: "(\<And>s. keeps I (m s)) \<Longrightarrow> keeps I (\<lambda>s. m s s)"
  by (simp add: keeps_def)

lemma keeps_unwrap_at: "keeps I (\<lambda>s. unwrapM (f s) s)"
  by (rule keeps_read) (rule keeps_pure)

section \<open>Loops\<close>

text \<open>The staging loops keep what their rounds keep.\<close>

lemma stage_alloc_keeps:
  assumes "\<And>n. keeps I (dramM g (\<lambda>d. dp_allocate d n))" shows "keeps I (stage_alloc g want)"
proof (rule keepsI)
  fix p assume "I p"
  with assms show "I (snd (stage_alloc g want p))"
  proof (induction g want p rule: stage_alloc.induct)
    case (1 g want p)
    obtain r q where run: "dramM g (\<lambda>d. dp_allocate d want) p = (r, q)" by force
    have "I q" by (rule keepsD [OF "1.prems"(1,2) run])
    with run "1.IH" "1.prems"(1) show ?case
      by (subst stage_alloc.simps) (auto split: outcome.split)
  qed
qed

lemma stage_loop_keeps:
  assumes chunk: "\<And>pos this. this \<le> len \<Longrightarrow> keeps I (stage_chunk pf off stage dst pos this)"
  shows "I p \<Longrightarrow> stage_loop fuel pf off stage len dst bytes pos p = Some (r, q) \<Longrightarrow> I q"
proof (induction fuel arbitrary: pos p)
  case 0
  then show ?case by (simp add: stage_loop.simps [of 0] split: if_splits)
next
  case (Suc fuel)
  obtain r1 p1 where run: "stage_chunk pf off stage dst pos (min len (bytes - pos)) p = (r1, p1)" by force
  have p1: "I p1" by (rule keepsD [OF chunk Suc.prems(1) run]) simp
  show ?case
  proof (cases "pos < bytes")
    case True
    with Suc.prems(2) run have "case r1 of
        Ok _ \<Rightarrow> stage_loop fuel pf off stage len dst bytes (uadd pos (min len (bytes - pos))) p1 = Some (r, q)
      | Err e \<Rightarrow> (r, q) = (Err e, p1) | Panic \<Rightarrow> (r, q) = (Panic, p1)"
      by (auto simp: stage_loop.simps [of "Suc fuel"] Let_def split: outcome.splits)
    with Suc.IH [OF p1] p1 show ?thesis by (cases r1) auto
  next
    case False
    with Suc.prems show ?thesis by (simp add: stage_loop.simps [of "Suc fuel"])
  qed
qed

lemma spill_same: "tp_spill p = Some x \<Longrightarrow> p\<lparr>tp_spill := Some x\<rparr> = p"
  by (cases p) simp

lemma stage_copy_keeps:
  assumes ctx: "keeps I (set_context pf g)" and chunk: "\<And>pos this. this \<le> len \<Longrightarrow> keeps I (stage_chunk pf off stage dst pos this)"
  shows "keeps I (stage_copy pf n g off stage len dst bytes)"
proof -
  have "keeps I (\<lambda>p. case stage_loop bytes pf off stage len dst bytes 0 p of
         None \<Rightarrow> (Panic, p) | Some result \<Rightarrow> result)"
    using stage_loop_keeps [OF chunk] by (auto intro!: keepsI split: option.split)
  moreover have "keeps I (spillM e (\<lambda>s. (Ok (), s)))" for e
    by (rule keepsI) (auto simp: spillM_def spill_same split: option.split)
  ultimately show ?thesis unfolding stage_copy_def by (intro keeps_intros ctx)
qed

section \<open>What promotion and demotion leave alone\<close>

text \<open>
  A write of a promotion to a page leaves its size and its host shards, and moves it nowhere but into
  VRAM. A predicate that is kept by such writes to the pages of \<open>may\<close>, and does not depend on the
  parts of the pool that every operation uses, is kept by every operation that does not touch the
  host's memory.
\<close>

definition promoting :: "(page \<Rightarrow> page) \<Rightarrow> bool" where
  "promoting f \<longleftrightarrow> (\<forall>pg. pg_dram_chunks (f pg) = pg_dram_chunks pg \<and> pg_size_bytes (f pg) = pg_size_bytes pg
     \<and> pg_ssd_offset (f pg) = pg_ssd_offset pg \<and> (pg_tier (f pg) = pg_tier pg \<or> pg_tier (f pg) = Vram))"

locale pool_shell =
  fixes I :: "'w tiered_pool \<Rightarrow> bool" and may :: "string \<Rightarrow> bool"
  assumes world: "I p \<Longrightarrow> I (p\<lparr>tp_world := w\<rparr>)"
    and dma: "I p \<Longrightarrow> I (p\<lparr>tp_dma := e\<rparr>)"
    and caches: "I p \<Longrightarrow> I (p\<lparr>tp_vram_free := cs\<rparr>)"
    and inflight: "I p \<Longrightarrow> I (p\<lparr>tp_inflight := fl\<rparr>)"
    and membrane: "I p \<Longrightarrow> I (p\<lparr>tp_membrane := mb\<rparr>)"
    and promote: "I p \<Longrightarrow> may n \<Longrightarrow> promoting f \<Longrightarrow> I (p\<lparr>tp_vmt := vmt_modify n f (tp_vmt p)\<rparr>)"
begin

lemma keeps_worldM: "keeps I (worldM m)"
  by (rule keepsI) (auto simp: worldM_def world split: prod.split)

lemma keeps_ignoreW: "keeps I (ignoreW f)"
  by (rule keepsI) (simp add: ignoreW_def world)

lemma keeps_dmaM: "keeps I (dmaM m)"
  by (rule keepsI) (auto simp: dmaM_def dma split: prod.split)

lemma keeps_promote: "may n \<Longrightarrow> promoting f \<Longrightarrow> keeps I (modify_page n f)"
  by (rule keepsI) (auto simp: modify_page_def bindM_def unwrapM_def run_simps promote split: option.split)

lemma keeps_touch: "may n \<Longrightarrow> keeps I (modify_page n (page_touch now))"
  by (rule keeps_promote) (simp_all add: promoting_def page_touch_def)

lemma keeps_lookupM: "keeps I (lookupM n)"
  by (rule keepsI) (simp add: lookupM_def ok_or_def run_simps split: option.split)

lemma keeps_set_context: "keeps I (set_context pf g)"
  unfolding set_context_def by (rule keeps_read) (rule keeps_worldM)

lemma keeps_alloc_vram: "keeps I (alloc_vram_on_gpu pf g n)"
proof (rule keepsI)
  fix p assume p: "I p"
  have "keeps I (bindM (set_context pf g) (\<lambda>_. worldM (cu_get ''cuMemAlloc_v2'' (pf_mem_alloc pf n))))"
    by (intro keeps_intros keeps_set_context keeps_worldM)
  with p show "I (snd (alloc_vram_on_gpu pf g n p))"
    by (auto simp: alloc_vram_on_gpu_def keeps_def caches split: option.split)
qed

lemma keeps_free_vram: "keeps I (free_vram_on_gpu g ptr n)"
  by (rule keepsI) (auto simp: free_vram_on_gpu_def caches split: option.split)

lemma keeps_streams: "keeps I (compute_stream g)" "keeps I (prefetch_stream g)"
  "keeps I (sync_compute pf g)" "keeps I (raw_context g)"
proof -
  show c: "keeps I (compute_stream g)" and "keeps I (prefetch_stream g)"
    by (auto intro!: keepsI simp: compute_stream_def prefetch_stream_def unwrapM_def run_simps split: option.split)
  show "keeps I (sync_compute pf g)"
    unfolding sync_compute_def by (intro keeps_intros c keeps_worldM)
  show "keeps I (raw_context g)"
    by (rule keepsI) (auto simp: raw_context_def registry_get_def ok_or_def bindM_def run_simps split: option.split)
qed

lemma keeps_install: "may n \<Longrightarrow> keeps I (install_chunk n g ptr bytes)"
  unfolding install_chunk_def by (rule keeps_read) (intro keeps_intros keeps_promote, simp_all add: promoting_def)

lemma keeps_drop_event: "I p \<Longrightarrow> I (drop_event pf event p)"
  by (simp add: drop_event_def world)

lemma keeps_finallyM: "keeps I m \<Longrightarrow> (\<And>p. I p \<Longrightarrow> I (fin p)) \<Longrightarrow> keeps I (finallyM m fin)"
  by (rule keepsI) (simp add: finallyM_def keeps_def case_prod_beta)

lemma keeps_world_case: "keeps I (\<lambda>p. case f (tp_world p) of (r, w) \<Rightarrow> (g r, p\<lparr>tp_world := w\<rparr>))"
  by (rule keepsI) (auto simp: world split: prod.split)

lemma keeps_unfilter: "I (p\<lparr>tp_inflight := fl\<rparr>) \<Longrightarrow> keeps I m \<Longrightarrow> I (snd (m (p\<lparr>tp_inflight := fl\<rparr>)))"
  by (simp add: keeps_def)

lemma keeps_claim: 
  assumes n: "may n" shows "keeps I (claim_prefetch pf n g now)"
proof (rule keepsI)
  fix p assume p: "I p"
  show "I (snd (claim_prefetch pf n g now p))"
  proof (cases "tp_inflight p n")
    case (Some e)
    obtain g' ptr bytes event where e: "e = (g', ptr, bytes, event)" by (cases e)
    have "keeps I (finallyM
            (if g' \<noteq> g then bindM (ignoreM (free_vram_on_gpu g' ptr bytes)) (\<lambda>_. retM None)
             else bindM (worldM (event_synchronize pf event)) (\<lambda>_.
               bindM (install_chunk n g ptr bytes) (\<lambda>_.
               bindM (modify_page n (page_touch now)) (\<lambda>_. retM (Some ptr)))))
            (drop_event pf event))"
      by (intro keeps_finallyM keeps_drop_event keeps_intros keeps_free_vram keeps_worldM
          keeps_install keeps_touch n)
    with p Some e inflight [OF p] show ?thesis by (simp add: claim_prefetch_def keeps_def)
  qed (use p in \<open>simp add: claim_prefetch_def\<close>)
qed

lemmas keeps_shell = keeps_intros keeps_worldM keeps_ignoreW keeps_dmaM keeps_touch keeps_lookupM
  keeps_set_context keeps_alloc_vram keeps_free_vram keeps_streams keeps_install

lemma keeps_access_peer: "may n \<Longrightarrow> keeps I (access_peer pf n g now src)"
  unfolding access_peer_def touchM_def Let_def by (rule keeps_read) (intro keeps_shell)

lemma keeps_access_vram: "may n \<Longrightarrow> keeps I (access_vram pf n g now here elsewhere)"
  by (cases here) (auto simp: access_vram_def touchM_def intro!: keeps_shell keeps_access_peer)

lemma keeps_access_dram: "may n \<Longrightarrow> keeps I (access_dram pf n g now shard)"
  unfolding access_dram_def touchM_def Let_def by (intro keeps_shell)

lemma keeps_start_prefetch: "keeps I (start_prefetch pf n g bytes ptr)"
proof -
  have ask: "keeps I (\<lambda>p. case f (tp_world p) of (rc, w) \<Rightarrow> (Ok rc, p\<lparr>tp_world := w\<rparr>))" for f :: "'w \<Rightarrow> int \<times> 'w"
    by (rule keeps_world_case)
  have "keeps I (\<lambda>p. let body =
         bindM (prefetch_stream g) (\<lambda>stream.
         bindM (getM (\<lambda>p. slice (tp_host p) ptr bytes)) (\<lambda>bs.
         bindM (\<lambda>p. case pf_htod_async pf dst bs (cs_inner stream) (tp_world p) of
                  (rc, w) \<Rightarrow> (Ok rc, p\<lparr>tp_world := w\<rparr>)) (\<lambda>rc.
         if rc \<noteq> 0 then
           bindM (ignoreM (free_vram_on_gpu g dst bytes)) (\<lambda>_.
             liftM (check_cu ''cuMemcpyHtoDAsync_v2'' rc))
         else worldM (event_record pf event stream))))
       in case body p of
            (Ok _, q) \<Rightarrow> (Ok (), q\<lparr>tp_inflight := (tp_inflight q)(n \<mapsto> (g, dst, bytes, event))\<rparr>)
          | (Err e, q) \<Rightarrow> (Err e, drop_event pf event q)
          | (Panic, q) \<Rightarrow> (Panic, drop_event pf event q))" (is "keeps I (\<lambda>p. let body = ?body in _ body p)") for dst event
  proof (rule keepsI)
    fix p assume p: "I p"
    obtain r q where run: "?body p = (r, q)" by force
    have "keeps I ?body" by (intro keeps_shell keeps_streams ask)
    from keepsD [OF this p run] have "I q" .
    then show "I (snd (let body = ?body in case body p of
            (Ok _, q) \<Rightarrow> (Ok (), q\<lparr>tp_inflight := (tp_inflight q)(n \<mapsto> (g, dst, bytes, event))\<rparr>)
          | (Err e, q) \<Rightarrow> (Err e, drop_event pf event q)
          | (Panic, q) \<Rightarrow> (Panic, drop_event pf event q)))"
      unfolding Let_def run by (cases r) (simp_all add: inflight keeps_drop_event)
  qed
  then show ?thesis unfolding start_prefetch_def by (intro keeps_shell) assumption
qed

lemma prefetch_keeps: "keeps I (prefetch pf n g)"
  using keeps_start_prefetch
  by (auto intro!: keepsI simp: prefetch_def keeps_def split: option.split)

text \<open>\<open>access\<close> is what its tiers are; only the promotion from the spill file uses host memory.\<close>

lemma access_split:
  assumes n: "may n"
    and cold: "\<And>p pg now. I p \<Longrightarrow> vmt_lookup (tp_vmt p) n = Some pg \<Longrightarrow> pg_tier pg = Ssd \<Longrightarrow>
      I (snd (access_ssd pf n g now pg (vec_get (pg_dram_chunks pg) g) p))"
  shows "keeps I (access pf n g)"
proof -
  have "keeps I (bindM (lookupM n) (\<lambda>page.
         bindM (\<lambda>p. unwrapM (vec_get (gc_ordinals (tp_cluster p)) g) p) (\<lambda>ordinal.
         (let shard = vec_get (pg_dram_chunks page) g in
          case pg_tier page of
            Vram \<Rightarrow> access_vram pf n g now (chunk_here page ordinal) (chunk_elsewhere page ordinal)
          | Dram \<Rightarrow> access_dram pf n g now shard
          | Ssd \<Rightarrow> access_ssd pf n g now page shard))))" (is "keeps I (bindM _ ?tiers)") for now
  proof (rule keepsI)
    fix p assume p: "I p"
    show "I (snd (bindM (lookupM n) ?tiers p))"
    proof (cases "vmt_lookup (tp_vmt p) n")
      case (Some pg)
      have "I (snd (?tiers pg p))"
      proof (cases "vec_get (gc_ordinals (tp_cluster p)) g")
        case ord: (Some o')
        have "keeps I (access_vram pf n g now (chunk_here pg o') (chunk_elsewhere pg o'))"
          "keeps I (access_dram pf n g now (vec_get (pg_dram_chunks pg) g))"
          by (intro keeps_access_vram keeps_access_dram n)+
        then show ?thesis using p cold [OF p Some, of now]
          by (cases "pg_tier pg") (auto simp: ord bindM_def unwrapM_def run_simps keeps_def)
      qed (use p in \<open>simp add: bindM_def unwrapM_def run_simps\<close>)
      then show ?thesis by (simp add: bind_lookupM [OF Some])
    qed (use p in \<open>simp add: lookupM_run bindM_def\<close>)
  qed
  moreover have "keeps I (modM (\<lambda>p. p\<lparr>tp_membrane := observe n (tp_membrane p)\<rparr>))"
    by (rule keepsI) (simp add: modM_run membrane)
  ultimately show ?thesis
    unfolding access_def
    by (intro keeps_bindM keeps_worldM keeps_claim n) (auto intro!: keeps_shell split: option.split)
qed

end

text \<open>
  With the writes to host memory, to the DRAM pools and of a demotion: a predicate that only depends
  on the fixed parts and on pages outside \<open>may\<close> is kept by every operation on a page of \<open>may\<close>.
\<close>

locale pool_frame = pool_shell I may for I :: "'w tiered_pool \<Rightarrow> bool" and may :: "string \<Rightarrow> bool" +
  assumes pools: "I p \<Longrightarrow> I (p\<lparr>tp_dram_pools := ds\<rparr>)"
    and host: "I p \<Longrightarrow> I (p\<lparr>tp_host := h\<rparr>)"
    and retire: "I p \<Longrightarrow> may n \<Longrightarrow>
      I (p\<lparr>tp_vmt := vmt_modify n (\<lambda>pg. pg\<lparr>pg_vram_chunks := [], pg_tier := Dram, pg_state := Warm\<rparr>) (tp_vmt p)\<rparr>)"
begin

lemma keeps_dramM: "keeps I (dramM i m)"
  by (rule keepsI) (auto simp: dramM_def pools split: prod.split)

lemma keeps_retire: "may n \<Longrightarrow> keeps I (modify_page n (\<lambda>pg. pg\<lparr>pg_vram_chunks := [], pg_tier := Dram, pg_state := Warm\<rparr>))"
  by (rule keepsI) (auto simp: modify_page_def bindM_def unwrapM_def run_simps retire split: option.split)

lemmas keeps_ops = keeps_shell keeps_dramM

lemma keeps_stage_alloc: "keeps I (stage_alloc g want)"
  by (rule stage_alloc_keeps) (rule keeps_dramM)

lemma keeps_stage_chunk: "keeps I (stage_chunk pf off stage dst pos this)"
proof -
  have "keeps I (\<lambda>p. case tp_spill p of
              None \<Rightarrow> (Panic, p)
            | Some s \<Rightarrow>
                (case pf_io pf (tp_world p) of
                   (io, w) \<Rightarrow>
                     (case spill_read_into io s (uadd off pos) stage this (tp_host p) of
                        (r, h) \<Rightarrow> (r, p\<lparr>tp_world := w, tp_host := h\<rparr>))))"
    using world host by (auto intro!: keepsI split: option.split prod.split)
  then show ?thesis unfolding stage_chunk_def by (intro keeps_ops)
qed

lemma keeps_stage_copy: "keeps I (stage_copy pf n g off stage len dst bytes)"
  by (rule stage_copy_keeps [OF keeps_set_context keeps_stage_chunk])

lemma keeps_access_ssd:
  assumes n: "may n" shows "keeps I (access_ssd pf n g now pg shard)"
proof -
  have borrow: "keeps I (bindM (catchM (stage_alloc g bytes)) (\<lambda>res. case res of
      Inr (ptr, want) \<Rightarrow> retM (ptr, want, True)
    | Inl e \<Rightarrow> bindM (ignoreM (free_vram_on_gpu g dst bytes)) (\<lambda>_. errM e)))" for bytes dst
    by (intro keeps_ops keeps_stage_alloc) (auto intro!: keeps_ops split: sum.split)
  show ?thesis
    unfolding access_ssd_def touchM_def Let_def dram_freeM_def
    by (intro keeps_ops keeps_stage_copy n)
      (auto intro!: keeps_ops keeps_stage_copy n borrow split: option.split sum.split prod.split)
qed

lemma access_keeps: "may n \<Longrightarrow> keeps I (access pf n g)"
  by (rule access_split) (use keeps_access_ssd in \<open>simp_all add: keeps_def\<close>)

lemma demote_chunk_keeps: "keeps I (demote_chunk pf n dram c)"
proof -
  have "keeps I (copy_to_host pf g dst src bytes)" for g dst src bytes
    unfolding copy_to_host_def
    by (intro keeps_ops) (auto intro!: keepsI world host split: prod.split)
  then show ?thesis
    unfolding demote_chunk_def by - (rule keeps_read, intro keeps_ops)
qed

lemma demote_keeps: "may n \<Longrightarrow> keeps I (demote pf n)"
  unfolding demote_def by (intro keeps_ops demote_chunk_keeps keeps_retire)

end

text \<open>The instances: the page of another name, and the parts that are fixed at construction.\<close>

interpretation other_page: pool_frame "\<lambda>p. vmt_lookup (tp_vmt p) m = x" "\<lambda>n. n \<noteq> m" for m x
  by unfold_locales simp_all

definition topology :: "'w tiered_pool \<Rightarrow> gpu_cluster \<times> stream_pool \<times> context_registry \<times> tier_policy" where
  "topology p = (tp_cluster p, tp_streams p, tp_contexts p, tp_policy p)"

interpretation fixed_parts: pool_frame "\<lambda>p. topology p = t" "\<lambda>_. True" for t
  by unfold_locales (simp_all add: topology_def)


section \<open>Sweeps\<close>

lemma fill_evicts_unpinned:
  "n \<in> set (snd (fill cap cs used keep evict)) \<Longrightarrow> n \<in> set evict \<or> (\<exists>obs. (n, obs) \<in> set cs \<and> \<not> ob_pinned obs)"
  by (induction cap cs used keep evict rule: fill.induct) (auto split: if_splits)

lemma plan_evicts_unpinned:
  assumes "plan fl pol cs budget = (keep, evict)" and "n \<in> set evict"
  shows "\<exists>obs. (n, obs) \<in> set cs \<and> \<not> ob_pinned obs"
  using fill_evicts_unpinned [of n "high_water fl budget" "sort_key (candidate_rank fl pol) cs" 0 "[]" "[]"] assms
  by (simp add: plan_def Let_def)

lemma vmt_entries_lookup: "(n, pg) \<in> set (vmt_entries order v) \<Longrightarrow> vmt_lookup v n = Some pg"
  by (induction order) (auto simp: vmt_entries_def List.map_filter_simps split: option.splits)

lemma sweep_evict_keeps:
  assumes "n \<noteq> m" shows "keeps (\<lambda>q. vmt_lookup (tp_vmt q) m = x) (sweep_evict pf n)"
  unfolding sweep_evict_def using assms by (intro keeps_intros other_page.demote_keeps)

lemma sweep_keep_keeps:
  assumes pg: "pg_tier pg = Vram" shows "keeps (\<lambda>q. vmt_lookup (tp_vmt q) m = Some pg) (sweep_keep pf n)"
proof (cases "n = m")
  case True
  show ?thesis
    by (rule keepsI) (simp add: sweep_keep_def is_in_vram_def bindM_def run_simps True pg)
next
  case False
  then show ?thesis unfolding sweep_keep_def by (intro keeps_intros other_page.access_keeps)
qed

text \<open>
  Property C16. No sweep touches a pinned page that is in VRAM. Whatever the driver, the disk and the
  clock answer, whatever the order of the table, with the membrane enabled or with the idle timeout,
  and however the sweep ends, the page is after \<open>background_sweep\<close> exactly as it was before it: its
  chunks, its tier, its state and its counters.
\<close>

theorem sweep_keeps_pinned:
  assumes page: "vmt_lookup (tp_vmt p) m = Some pg" and pinned: "pg_pinned pg" and vram: "pg_tier pg = Vram"
  shows "vmt_lookup (tp_vmt (snd (background_sweep pf fl order p))) m = Some pg"
proof (cases "tp_membrane_budget p")
  case None
  obtain now w where clock: "pf_clock pf (tp_world p) = (now, w)" by force
  let ?q = "p\<lparr>tp_world := w\<rparr>"
  have "m \<notin> set (sweep_demotes order now ?q)"
    using vmt_entries_lookup page pinned by (fastforce simp: sweep_demotes_def page_is_idle_def)
  moreover have "m \<notin> set (sweep_promotes order ?q)"
    using vmt_entries_lookup page vram by (fastforce simp: sweep_promotes_def)
  ultimately have "keeps (\<lambda>q. vmt_lookup (tp_vmt q) m = Some pg)
      (bindM (forM (sweep_demotes order now ?q) (demote pf)) (\<lambda>_.
        forM (sweep_promotes order ?q) (\<lambda>name. bindM (access pf name 0) (\<lambda>_. retM ()))))"
    by (intro keeps_intros other_page.demote_keeps other_page.access_keeps) auto
  then have "vmt_lookup (tp_vmt (snd (bindM (forM (sweep_demotes order now ?q) (demote pf)) (\<lambda>_.
        forM (sweep_promotes order ?q) (\<lambda>name. bindM (access pf name 0) (\<lambda>_. retM ()))) ?q))) m = Some pg"
    using page by (simp add: keeps_def)
  then show ?thesis by (simp add: background_sweep_def None clock Let_def)
next
  case (Some budget)
  let ?q = "p\<lparr>tp_membrane := decay fl (tp_membrane p)\<rparr>"
  obtain keep evict where plan: "plan fl (tp_policy ?q) (sweep_candidates order ?q) budget = (keep, evict)" by force
  have "m \<notin> set evict"
  proof
    assume "m \<in> set evict"
    from plan_evicts_unpinned [OF plan this] obtain obs where
      obs: "(m, obs) \<in> set (sweep_candidates order ?q)" "\<not> ob_pinned obs" by blast
    then obtain pg' where "(m, pg') \<in> set (vmt_entries order (tp_vmt ?q))" "ob_pinned obs = pg_pinned pg'"
      by (auto simp: sweep_candidates_def)
    with vmt_entries_lookup [of m pg'] page pinned obs(2) show False by fastforce
  qed
  then have "keeps (\<lambda>q. vmt_lookup (tp_vmt q) m = Some pg)
      (bindM (forM evict (sweep_evict pf)) (\<lambda>_. forM keep (sweep_keep pf)))"
    by (intro keeps_intros sweep_evict_keeps sweep_keep_keeps vram) auto
  then have "vmt_lookup (tp_vmt (snd (bindM (forM evict (sweep_evict pf)) (\<lambda>_. forM keep (sweep_keep pf)) ?q))) m
      = Some pg"
    using page by (simp add: keeps_def)
  then show ?thesis using plan by (simp add: background_sweep_def membrane_sweep_def Some Let_def)
qed

definition pinned_page :: page where
  "pinned_page = (sharded_page ''w'' [4] 1 Vram Resident [])\<lparr>pg_pinned := True,
     pg_vram_chunks := [\<lparr>ck_gpu_ordinal = 0, ck_device_ptr = 9, ck_size_bytes = 4, ck_num_elements = 4\<rparr>]\<rparr>"

theorem sweep_keeps_pinned_witness:
  "vmt_lookup (tp_vmt (snd (background_sweep idle_platform round64 [''v'', ''w'']
      ((pool_sample ())\<lparr>tp_membrane_budget := Some 2, tp_vmt := filed ''w'' pinned_page ''w'' (vmt_new 2 2)\<rparr>)))) ''w''
    = Some pinned_page"
  by (rule sweep_keeps_pinned) (simp_all add: pinned_page_def)

end
