(* ===== verification/DeviceMemory.thy ===== *)
theory DeviceMemory
  imports Promotion
begin

text \<open>
  What the copies of \<open>src/tiered.rs\<close> do to device memory: a page keeps its bytes from the spill file,
  and from the DRAM tier, into VRAM and back.
\<close>

section \<open>What is relied on of the driver and the disk\<close>

text \<open>
  \<open>dev\<close> is the content of device memory once all the work issued so far is done. A copy that reports
  success has moved exactly its bytes, a new block lies inside the address space, and the other calls
  of the promotion path leave device memory alone. A machine is healthy when no call of that path
  fails, allocations of up to \<open>room\<close> bytes included.
\<close>

definition device_memory :: "'w platform \<Rightarrow> ('w \<Rightarrow> u64 \<Rightarrow> byte) \<Rightarrow> bool" where
  "device_memory pf dev \<longleftrightarrow>
     (\<forall>dst bs w rc w'. pf_htod pf dst bs w = (rc, w') \<longrightarrow> rc = 0 \<longrightarrow> dev w' = mem_write dst bs (dev w))
   \<and> (\<forall>dst bs s w rc w'. pf_htod_async pf dst bs s w = (rc, w') \<longrightarrow> rc = 0 \<longrightarrow> dev w' = mem_write dst bs (dev w))
   \<and> (\<forall>src n s w rc bs w'. pf_dtoh_async pf src n s w = (rc, bs, w') \<longrightarrow>
        dev w' = dev w \<and> (rc = 0 \<longrightarrow> bs = slice (dev w) src n))
   \<and> (\<forall>n w rc x w'. pf_mem_alloc pf n w = (rc, x, w') \<longrightarrow> dev w' = dev w \<and> (rc = 0 \<longrightarrow> x + n \<le> W64))
   \<and> (\<forall>c w rc w'. pf_ctx_set_current pf c w = (rc, w') \<longrightarrow> dev w' = dev w)
   \<and> (\<forall>s w rc w'. pf_stream_sync pf s w = (rc, w') \<longrightarrow> dev w' = dev w)
   \<and> (\<forall>w now w'. pf_clock pf w = (now, w') \<longrightarrow> dev w' = dev w)
   \<and> (\<forall>w io w'. pf_io pf w = (io, w') \<longrightarrow> dev w' = dev w)"

definition never_fails :: "'w platform \<Rightarrow> usize \<Rightarrow> bool" where
  "never_fails pf room \<longleftrightarrow> (\<forall>w. (\<forall>c. fst (pf_ctx_set_current pf c w) = 0) \<and> (\<forall>n \<le> room. fst (pf_mem_alloc pf n w) = 0)
     \<and> (\<forall>dst bs. fst (pf_htod pf dst bs w) = 0) \<and> (\<forall>dst bs s. fst (pf_htod_async pf dst bs s w) = 0)
     \<and> (\<forall>src n s. fst (pf_dtoh_async pf src n s w) = 0) \<and> (\<forall>s. fst (pf_stream_sync pf s w) = 0)
     \<and> fst (pf_io pf w) = IoDone)"

definition healthy :: "'w platform \<Rightarrow> ('w \<Rightarrow> u64 \<Rightarrow> byte) \<Rightarrow> usize \<Rightarrow> bool" where
  "healthy pf dev room \<longleftrightarrow> device_memory pf dev \<and> never_fails pf room"

lemma healthy_htod:
  "healthy pf dev room \<Longrightarrow> \<exists>w'. pf_htod pf dst bs w = (0, w') \<and> dev w' = mem_write dst bs (dev w)"
  "healthy pf dev room \<Longrightarrow> \<exists>w'. pf_htod_async pf dst bs s w = (0, w') \<and> dev w' = mem_write dst bs (dev w)"
  unfolding healthy_def device_memory_def never_fails_def by (metis prod.collapse)+

lemma healthy_dtoh:
  "healthy pf dev room \<Longrightarrow> \<exists>w'. pf_dtoh_async pf src n s w = (0, slice (dev w) src n, w') \<and> dev w' = dev w"
  unfolding healthy_def device_memory_def never_fails_def by (metis prod.collapse)

lemma healthy_silent:
  "healthy pf dev room \<Longrightarrow> \<exists>w'. pf_ctx_set_current pf c w = (0, w') \<and> dev w' = dev w"
  "healthy pf dev room \<Longrightarrow> \<exists>w'. pf_stream_sync pf s w = (0, w') \<and> dev w' = dev w"
  "healthy pf dev room \<Longrightarrow> \<exists>now w'. pf_clock pf w = (now, w') \<and> dev w' = dev w"
  "healthy pf dev room \<Longrightarrow> \<exists>w'. pf_io pf w = (IoDone, w') \<and> dev w' = dev w"
  "healthy pf dev room \<Longrightarrow> n \<le> room \<Longrightarrow> \<exists>x w'. pf_mem_alloc pf n w = (0, x, w') \<and> dev w' = dev w \<and> x + n \<le> W64"
  unfolding healthy_def device_memory_def never_fails_def by (metis prod.collapse)+

section \<open>The steps of a promotion on a healthy machine\<close>

definition gpu_ready :: "usize \<Rightarrow> 'w tiered_pool \<Rightarrow> bool" where
  "gpu_ready g p \<longleftrightarrow> g < length (gc_ordinals (tp_cluster p)) \<and> g < length (st_compute (tp_streams p))
     \<and> g < length (cr_contexts (tp_contexts p)) \<and> g < length (tp_vram_free p) \<and> g < length (tp_dram_pools p)
     \<and> (\<forall>cache \<in> set (tp_vram_free p). \<forall>(n, x) \<in> set cache. x + n \<le> W64)"

lemma set_context_ok:
  assumes "healthy pf dev room" and "gpu_ready g p"
  shows "\<exists>w. set_context pf g p = (Ok (), p\<lparr>tp_world := w\<rparr>) \<and> dev w = dev (tp_world p)"
proof -
  let ?c = "cr_contexts (tp_contexts p) ! g"
  obtain w where "pf_ctx_set_current pf (pc_ctx ?c) (tp_world p) = (0, w)" "dev w = dev (tp_world p)"
    using healthy_silent(1) [OF assms(1)] by blast
  moreover have "vec_get (cr_contexts (tp_contexts p)) g = Some ?c"
    using assms(2) by (simp add: gpu_ready_def vec_get_def)
  ultimately show ?thesis
    by (intro exI [of _ w]) (simp add: set_context_def worldM_def registry_bind_def registry_get_def pc_bind_def bindM_def run_simps)
qed

lemma sync_compute_ok:
  assumes "healthy pf dev room" and "gpu_ready g p"
  shows "\<exists>w. sync_compute pf g p = (Ok (), p\<lparr>tp_world := w\<rparr>) \<and> dev w = dev (tp_world p)"
    and "compute_stream g p = (Ok (st_compute (tp_streams p) ! g), p)"
proof -
  let ?s = "st_compute (tp_streams p) ! g"
  have "vec_get (st_compute (tp_streams p)) g = Some ?s"
    using assms(2) by (simp add: gpu_ready_def vec_get_def)
  then show cs: "compute_stream g p = (Ok ?s, p)" by (simp add: compute_stream_def run_simps)
  obtain w where "pf_stream_sync pf (cs_inner ?s) (tp_world p) = (0, w)" "dev w = dev (tp_world p)"
    using healthy_silent(2) [OF assms(1)] by blast
  with cs show "\<exists>w. sync_compute pf g p = (Ok (), p\<lparr>tp_world := w\<rparr>) \<and> dev w = dev (tp_world p)"
    by (intro exI [of _ w]) (simp add: sync_compute_def worldM_def stream_synchronize_def bindM_def run_simps)
qed

lemma alloc_vram_ok:
  assumes h: "healthy pf dev room" and g: "gpu_ready g p" and n: "n \<le> room"
  shows "\<exists>ptr w caches. alloc_vram_on_gpu pf g n p = (Ok ptr, p\<lparr>tp_world := w, tp_vram_free := caches\<rparr>)
    \<and> dev w = dev (tp_world p) \<and> ptr + n \<le> W64 \<and> gpu_ready g (p\<lparr>tp_world := w, tp_vram_free := caches\<rparr>)"
proof -
  have some: "vec_get (tp_vram_free p) g = Some (tp_vram_free p ! g)"
    using g by (simp add: gpu_ready_def vec_get_def)
  show ?thesis
  proof (cases "position (\<lambda>(sz, _). sz = n) (tp_vram_free p ! g)")
    case None
    obtain w where "set_context pf g p = (Ok (), p\<lparr>tp_world := w\<rparr>)" "dev w = dev (tp_world p)"
      using set_context_ok [OF h g] by blast
    moreover obtain x w' where "pf_mem_alloc pf n w = (0, x, w')" "dev w' = dev w" "x + n \<le> W64"
      using healthy_silent(5) [OF h n] by blast
    ultimately show ?thesis
      using g some None
      by (intro exI [of _ x] exI [of _ w'] exI [of _ "tp_vram_free p"])
        (simp add: alloc_vram_on_gpu_def bindM_def worldM_def run_simps gpu_ready_def)
  next
    case (Some i)
    let ?cache = "tp_vram_free p ! g"
    let ?caches = "(tp_vram_free p)[g := vec_swap_remove i ?cache]"
    have i: "i < length ?cache" "fst (?cache ! i) = n"
      using position_Some [OF Some] by (auto simp: case_prod_beta)
    have in_p: "?cache \<in> set (tp_vram_free p)" using g by (simp add: gpu_ready_def)
    have ends: "\<forall>(k, x) \<in> set ?cache. x + k \<le> W64" using g in_p unfolding gpu_ready_def by blast
    have "?cache ! i \<in> set ?cache" using i by simp
    with ends i(2) have fit: "snd (?cache ! i) + n \<le> W64" by (metis (mono_tags, lifting) case_prod_beta)
    have ne: "?cache \<noteq> []" using i(1) by auto
    have "set (vec_swap_remove i ?cache) \<subseteq> set (?cache[i := last ?cache])"
      unfolding vec_swap_remove_def by (meson in_set_butlastD subsetI)
    also have "\<dots> \<subseteq> set ?cache" using ne by (auto dest: set_update_subset_insert [THEN subsetD])
    finally have "\<forall>(k, x) \<in> set (vec_swap_remove i ?cache). x + k \<le> W64" using ends by blast
    then have "\<forall>cache \<in> set ?caches. \<forall>(k, x) \<in> set cache. x + k \<le> W64"
      using g set_update_subset_insert [of "tp_vram_free p" g "vec_swap_remove i ?cache"]
      unfolding gpu_ready_def by blast
    then have "gpu_ready g (p\<lparr>tp_world := tp_world p, tp_vram_free := ?caches\<rparr>)"
      using g by (simp add: gpu_ready_def)
    moreover have "alloc_vram_on_gpu pf g n p
        = (Ok (snd (?cache ! i)), p\<lparr>tp_world := tp_world p, tp_vram_free := ?caches\<rparr>)"
      using some Some by (simp add: alloc_vram_on_gpu_def)
    ultimately show ?thesis
      using fit by (intro exI [of _ "snd (?cache ! i)"] exI [of _ "tp_world p"] exI [of _ ?caches]) simp
  qed
qed


section \<open>Streaming a cold page\<close>

lemma mem_write_append:
  "length xs = n \<Longrightarrow> mem_write (a + n) ys (mem_write a xs mem) = mem_write a (xs @ ys) mem"
  by (auto simp: mem_write_def fun_eq_iff nth_append)

lemma mem_write_Nil [simp]: "mem_write a [] mem = mem"
  by (auto simp: mem_write_def fun_eq_iff)

lemma stage_chunk_ok:
  assumes h: "healthy pf dev room" and s: "tp_spill p = Some s"
    and fit: "off + pos + this \<le> length (sf_bytes s)" "length (sf_bytes s) < W64"
    and dst: "dst + pos < W64"
  shows "\<exists>w host. stage_chunk pf off stage dst pos this p = (Ok (), p\<lparr>tp_world := w, tp_host := host\<rparr>)
    \<and> dev w = mem_write (dst + pos) (take this (drop (off + pos) (sf_bytes s))) (dev (tp_world p))
    \<and> (\<forall>a. a < stage \<or> stage + this \<le> a \<longrightarrow> host a = tp_host p a)"
proof -
  let ?bs = "take this (drop (off + pos) (sf_bytes s))"
  have len: "length ?bs = this" using fit by simp
  have off: "uadd off pos = off + pos" and d: "uadd dst pos = dst + pos"
    using fit dst by (simp_all add: uadd_exact)
  obtain w1 where io: "pf_io pf (tp_world p) = (IoDone, w1)" "dev w1 = dev (tp_world p)"
    using healthy_silent(4) [OF h] by blast
  obtain w2 where cp: "pf_htod pf (dst + pos) ?bs w1 = (0, w2)" "dev w2 = mem_write (dst + pos) ?bs (dev w1)"
    using healthy_htod(1) [OF h] by blast
  have read: "spill_read_into IoDone s (off + pos) stage this (tp_host p)
      = (Ok (), mem_write stage ?bs (tp_host p))"
    using len by (simp add: spill_read_into_def read_exact_at_def Let_def)
  have "slice (mem_write stage ?bs (tp_host p)) stage this = ?bs" using len by (rule slice_mem_write)
  then have "stage_chunk pf off stage dst pos this p
      = (Ok (), p\<lparr>tp_world := w2, tp_host := mem_write stage ?bs (tp_host p)\<rparr>)"
    using s io cp read
    by (simp add: stage_chunk_def bindM_def off d getM_run worldM_def cu_call_def check_cu_def)
  with cp io len show ?thesis
    by (intro exI [of _ w2] exI [of _ "mem_write stage ?bs (tp_host p)"]) (simp add: mem_write_outside)
qed

lemma stage_loop_ok:
  assumes h: "healthy pf dev room" and len: "0 < stage_len"
    and fit: "off + bytes \<le> length (sf_bytes s)" "length (sf_bytes s) < W64" and dst: "dst + bytes \<le> W64"
  shows "tp_spill p = Some s \<Longrightarrow> pos \<le> bytes \<Longrightarrow> bytes - pos \<le> fuel \<Longrightarrow>
    \<exists>w host. stage_loop fuel pf off stage stage_len dst bytes pos p
      = Some (Ok (), p\<lparr>tp_world := w, tp_host := host\<rparr>)
    \<and> dev w = mem_write (dst + pos) (take (bytes - pos) (drop (off + pos) (sf_bytes s))) (dev (tp_world p))
    \<and> (\<forall>a. a < stage \<or> stage + stage_len \<le> a \<longrightarrow> host a = tp_host p a)"
proof (induction fuel arbitrary: pos p)
  case 0
  then show ?case
    by (intro exI [of _ "tp_world p"] exI [of _ "tp_host p"]) (simp add: stage_loop.simps [of 0])
next
  case (Suc fuel)
  show ?case
  proof (cases "pos < bytes")
    case False
    then show ?thesis
      by (intro exI [of _ "tp_world p"] exI [of _ "tp_host p"]) (simp add: stage_loop.simps [of "Suc fuel"])
  next
    case True
    let ?k = "min stage_len (bytes - pos)"
    have k: "0 < ?k" "?k \<le> bytes - pos" using len True by simp_all
    have "off + pos + ?k \<le> length (sf_bytes s)" "dst + pos < W64" using k fit dst True by simp_all
    from stage_chunk_ok [OF h Suc.prems(1) this(1) fit(2) this(2), of stage]
    obtain w1 h1 where run: "stage_chunk pf off stage dst pos ?k p = (Ok (), p\<lparr>tp_world := w1, tp_host := h1\<rparr>)"
      and d1: "dev w1 = mem_write (dst + pos) (take ?k (drop (off + pos) (sf_bytes s))) (dev (tp_world p))"
      and h1: "\<forall>a. a < stage \<or> stage + ?k \<le> a \<longrightarrow> h1 a = tp_host p a" by blast
    let ?q = "p\<lparr>tp_world := w1, tp_host := h1\<rparr>"
    have next_pos: "uadd pos ?k = pos + ?k" using k fit True by (simp add: uadd_exact)
    have "tp_spill ?q = Some s" "pos + ?k \<le> bytes" "bytes - (pos + ?k) \<le> fuel"
      using Suc.prems k True by simp_all
    from Suc.IH [OF this] obtain w2 h2 where
      loop: "stage_loop fuel pf off stage stage_len dst bytes (pos + ?k) ?q
        = Some (Ok (), ?q\<lparr>tp_world := w2, tp_host := h2\<rparr>)"
      and d2: "dev w2 = mem_write (dst + (pos + ?k))
          (take (bytes - (pos + ?k)) (drop (off + (pos + ?k)) (sf_bytes s))) (dev w1)"
      and h2: "\<forall>a. a < stage \<or> stage + stage_len \<le> a \<longrightarrow> h2 a = h1 a" by auto
    have frame: "\<forall>a. a < stage \<or> stage + stage_len \<le> a \<longrightarrow> h2 a = tp_host p a"
      using h1 h2 by (metis add_le_cancel_left le_trans min.cobounded1)
    have "stage_loop (Suc fuel) pf off stage stage_len dst bytes pos p
        = Some (Ok (), p\<lparr>tp_world := w2, tp_host := h2\<rparr>)"
      using True run loop next_pos by (simp add: stage_loop.simps [of "Suc fuel"] Let_def)
    moreover have "dev w2 = mem_write (dst + pos) (take (bytes - pos) (drop (off + pos) (sf_bytes s))) (dev (tp_world p))"
    proof -
      have "take (bytes - pos) (drop (off + pos) (sf_bytes s))
          = take ?k (drop (off + pos) (sf_bytes s))
            @ take (bytes - (pos + ?k)) (drop (off + (pos + ?k)) (sf_bytes s))"
        using take_add [of ?k "bytes - (pos + ?k)" "drop (off + pos) (sf_bytes s)"] k True
        by (simp add: ac_simps)
      moreover have "length (take ?k (drop (off + pos) (sf_bytes s))) = ?k" using k fit True by simp
      ultimately show ?thesis
        unfolding d2 d1 using mem_write_append by (metis add.assoc)
    qed
    ultimately show ?thesis using frame by blast
  qed
qed


section \<open>The staging buffer\<close>

lemma dp_align_MiB: "n \<le> 2 ^ 20 \<Longrightarrow> dp_align n \<le> 2 ^ 20"
proof -
  assume n: "n \<le> 2 ^ 20"
  then have "dp_align n = (n + 63) div 64 * 64" by (simp add: dp_align_eq ra_align_exact W64_def)
  moreover have "(n + 63) div 64 \<le> (2 ^ 20 + 63) div 64" using n by (intro div_le_mono) simp
  ultimately show ?thesis by simp
qed

lemma dp_allocate_room:
  assumes "dp_inv d" and "dp_offset d + dp_align n \<le> dp_capacity d"
  shows "fst (dp_allocate d n) \<noteq> Err e"
proof -
  have "uadd (dp_offset d) (dp_align n) = dp_offset d + dp_align n"
    using assms by (simp add: dp_inv_def uadd_exact)
  with assms(2) show ?thesis
    by (auto simp: dp_allocate_def Let_def split: option.split prod.split if_splits)
qed

lemma stage_alloc_ok:
  assumes "g < length (tp_dram_pools p)" and "dp_inv (tp_dram_pools p ! g)"
    and "dp_offset (tp_dram_pools p ! g) + 2 ^ 20 \<le> dp_capacity (tp_dram_pools p ! g)"
    and "0 < want" and "dp_fits (tp_dram_pools p ! g) want"
  shows "\<exists>ptr n e. stage_alloc g want p = (Ok (ptr, n), p\<lparr>tp_dram_pools := (tp_dram_pools p)[g := e]\<rparr>)
    \<and> 0 < n \<and> n \<le> want \<and> dp_allocate (tp_dram_pools p ! g) n = (Ok ptr, e)"
  using assms
proof (induction g want p rule: stage_alloc.induct)
  case (1 g want p)
  let ?d = "tp_dram_pools p ! g"
  obtain r e where run: "dp_allocate ?d want = (r, e)" by force
  then have dram: "dramM g (\<lambda>d. dp_allocate d want) p = (r, p\<lparr>tp_dram_pools := (tp_dram_pools p)[g := e]\<rparr>)"
    using "1.prems"(1) by (simp add: dramM_def)
  show ?case
  proof (cases r)
    case (Ok ptr)
    with dram have "stage_alloc g want p = (Ok (ptr, want), p\<lparr>tp_dram_pools := (tp_dram_pools p)[g := e]\<rparr>)"
      by (subst stage_alloc.simps) simp
    with run Ok "1.prems"(4) show ?thesis by blast
  next
    case (Err err)
    have "e = ?d" using dp_alloc_err(1) [OF "1.prems"(2,5)] run Err by blast
    then have same: "p\<lparr>tp_dram_pools := (tp_dram_pools p)[g := e]\<rparr> = p" by simp
    have big: "\<not> want \<le> 2 ^ 20"
    proof
      assume "want \<le> 2 ^ 20"
      then have "dp_align want \<le> 2 ^ 20" by (rule dp_align_MiB)
      with "1.prems"(3) have "dp_offset ?d + dp_align want \<le> dp_capacity ?d" by linarith
      from dp_allocate_room [OF "1.prems"(2) this, of err] run Err show False by simp
    qed
    have half: "0 < want div 2" "dp_fits ?d (want div 2)"
      using big "1.prems"(5) by (simp_all add: div_greater_zero_iff dp_fits_def ra_fits_def)
    from "1.IH" [OF dram [symmetric] Err big, unfolded same, OF "1.prems"(1-3) half] obtain ptr n e' where
      "stage_alloc g (want div 2) p = (Ok (ptr, n), p\<lparr>tp_dram_pools := (tp_dram_pools p)[g := e']\<rparr>)"
      "0 < n" "n \<le> want div 2" "dp_allocate ?d n = (Ok ptr, e')" by blast
    moreover have "stage_alloc g want p = stage_alloc g (want div 2) p"
      using dram Err big same by (subst stage_alloc.simps) simp
    moreover from calculation have "n \<le> want" by (meson div_le_dividend le_trans)
    ultimately show ?thesis by (intro exI [of _ ptr] exI [of _ n] exI [of _ e']) simp
  next
    case Panic
    with run dp_allocate_never_panics [of ?d want] show ?thesis by simp
  qed
qed

section \<open>Promotion of a cold page\<close>

definition promoted :: "int \<Rightarrow> u64 \<Rightarrow> usize \<Rightarrow> u64 \<Rightarrow> page \<Rightarrow> page" where
  "promoted ordinal ptr bytes now pg = (page_touch now pg)\<lparr>
     pg_vram_chunks := pg_vram_chunks pg @ [\<lparr>ck_gpu_ordinal = ordinal, ck_device_ptr = ptr,
       ck_size_bytes = bytes, ck_num_elements = bytes div pg_element_size pg\<rparr>],
     pg_tier := Vram, pg_state := Resident\<rparr>"

lemma touch_install:
  assumes page: "vmt_lookup (tp_vmt p) name = Some pg" and es: "pg_element_size pg \<noteq> 0"
    and g: "g < length (gc_ordinals (tp_cluster p))"
  shows "bindM (touchM name now) (\<lambda>_. bindM (install_chunk name g ptr bytes) (\<lambda>_. retM ptr)) p
    = (Ok ptr, p\<lparr>tp_vmt := vmt_modify name (promoted (gc_ordinals (tp_cluster p) ! g) ptr bytes now) (tp_vmt p)\<rparr>)"
proof -
  let ?v = "vmt_modify name (page_touch now) (tp_vmt p)"
  let ?F = "\<lambda>x. x\<lparr>pg_vram_chunks := pg_vram_chunks x @ [\<lparr>ck_gpu_ordinal = gc_ordinals (tp_cluster p) ! g,
      ck_device_ptr = ptr, ck_size_bytes = bytes, ck_num_elements = bytes div pg_element_size pg\<rparr>],
      pg_tier := Vram, pg_state := Resident\<rparr>"
  have es': "pg_element_size (page_touch now pg) = pg_element_size pg" by (simp add: page_touch_def)
  have ord: "vec_get (gc_ordinals (tp_cluster p)) g = Some (gc_ordinals (tp_cluster p) ! g)"
    using g by (simp add: vec_get_def)
  have look: "vmt_lookup ?v name = Some (page_touch now pg)" using page by simp
  have "bindM (touchM name now) (\<lambda>_. bindM (install_chunk name g ptr bytes) (\<lambda>_. retM ptr)) p
      = (Ok ptr, p\<lparr>tp_vmt := vmt_modify name ?F ?v\<rparr>)"
    using page es es' ord look
    by (simp add: touchM_def bind_modify_page bindM_def install_chunk_def run_simps modify_page_run)
  also have "vmt_modify name ?F ?v = vmt_modify name (promoted (gc_ordinals (tp_cluster p) ! g) ptr bytes now) (tp_vmt p)"
    using page by (simp add: vmt_modify_def vmt_lookup_def promoted_def page_touch_def)
  finally show ?thesis .
qed


lemma stage_copy_ok:
  assumes h: "healthy pf dev room" and g: "gpu_ready g p" and s: "tp_spill p = Some s" and n: "0 < n"
    and fit: "off + bytes \<le> length (sf_bytes s)" "length (sf_bytes s) < W64" and dst: "dst + bytes \<le> W64"
  shows "\<exists>w host. stage_copy pf name g off stage n dst bytes p = (Ok (), p\<lparr>tp_world := w, tp_host := host\<rparr>)
    \<and> dev w = mem_write dst (take bytes (drop off (sf_bytes s))) (dev (tp_world p))
    \<and> (\<forall>a. a < stage \<or> stage + n \<le> a \<longrightarrow> host a = tp_host p a)"
proof -
  obtain w where ctx: "set_context pf g p = (Ok (), p\<lparr>tp_world := w\<rparr>)" "dev w = dev (tp_world p)"
    using set_context_ok [OF h g] by blast
  have "tp_spill (p\<lparr>tp_world := w\<rparr>) = Some s" using s by simp
  from stage_loop_ok [OF h n fit dst this, of 0 bytes stage] obtain w' host where
    "stage_loop bytes pf off stage n dst bytes 0 (p\<lparr>tp_world := w\<rparr>)
      = Some (Ok (), p\<lparr>tp_world := w', tp_host := host\<rparr>)"
    "dev w' = mem_write dst (take bytes (drop off (sf_bytes s))) (dev w)"
    "\<forall>a. a < stage \<or> stage + n \<le> a \<longrightarrow> host a = tp_host p a" by auto
  moreover have "spillM e (\<lambda>s. (Ok (), s)) p = (Ok (), p)" for e
    using s by (simp add: spillM_def)
  ultimately show ?thesis
    using ctx by (intro exI [of _ w'] exI [of _ host]) (simp add: stage_copy_def bindM_def)
qed

text \<open>
  The addresses a pool has to spare: inside its mapping and not granted. A staging buffer of the
  pool lies among them.
\<close>

definition dp_spare :: "dram_pool \<Rightarrow> nat set" where
  "dp_spare d = {dp_base_ptr d ..< dp_base_ptr d + dp_capacity d} - dp_live d"

lemma stage_in_spare:
  assumes inv: "dp_inv d" and fits: "dp_fits d n" and run: "dp_allocate d n = (Ok stage, e)"
  shows "{stage ..< stage + n} \<subseteq> dp_spare d"
proof -
  note law = dp_alloc_law [OF assms]
  have "n \<le> dp_align n" using fits ra_align_bounds(1) [of n] by (simp add: dp_fits_def ra_fits_def dp_align_eq)
  then have sub: "{stage ..< stage + n} \<subseteq> held_range dp_align (stage, n)" by (auto simp: held_range_def)
  have "held_range dp_align (stage, n) \<subseteq> {dp_base_ptr d ..< dp_base_ptr d + dp_capacity d}"
    using law by (auto simp: held_range_def)
  with sub law show ?thesis unfolding dp_spare_def by blast
qed

lemma access_ssd_ok:
  assumes h: "healthy pf dev room" and g: "gpu_ready g p" and page: "vmt_lookup (tp_vmt p) name = Some pg"
    and cold: "pg_ssd_offset pg = Some off" and size: "0 < pg_size_bytes pg" "pg_element_size pg \<noteq> 0" "pg_size_bytes pg \<le> room"
    and s: "tp_spill p = Some s"
    and fit: "off + pg_size_bytes pg \<le> length (sf_bytes s)" "length (sf_bytes s) < W64"
    and pool: "dp_inv (tp_dram_pools p ! g)" "dp_fits (tp_dram_pools p ! g) (pg_size_bytes pg)"
      "dp_offset (tp_dram_pools p ! g) + 2 ^ 20 \<le> dp_capacity (tp_dram_pools p ! g)"
  shows "\<exists>ptr w host caches. access_ssd pf name g now pg None p
      = (Ok ptr, p\<lparr>tp_world := w, tp_host := host, tp_vram_free := caches,
          tp_vmt := vmt_modify name (promoted (gc_ordinals (tp_cluster p) ! g) ptr (pg_size_bytes pg) now) (tp_vmt p)\<rparr>)
    \<and> dev w = mem_write ptr (take (pg_size_bytes pg) (drop off (sf_bytes s))) (dev (tp_world p))
    \<and> (\<forall>a. a \<notin> dp_spare (tp_dram_pools p ! g) \<longrightarrow> host a = tp_host p a)"
proof -
  let ?n = "pg_size_bytes pg" and ?d = "tp_dram_pools p ! g"
  obtain dst w1 caches where alloc: "alloc_vram_on_gpu pf g ?n p = (Ok dst, p\<lparr>tp_world := w1, tp_vram_free := caches\<rparr>)"
    and w1: "dev w1 = dev (tp_world p)" and dst: "dst + ?n \<le> W64"
    and g1: "gpu_ready g (p\<lparr>tp_world := w1, tp_vram_free := caches\<rparr>)"
    using alloc_vram_ok [OF h g size(3)] by blast
  define p1 where "p1 = p\<lparr>tp_world := w1, tp_vram_free := caches\<rparr>"
  have g_len: "g < length (tp_dram_pools p1)" using g by (simp add: p1_def gpu_ready_def)
  have d1: "tp_dram_pools p1 ! g = ?d" by (simp add: p1_def)
  have pool1: "dp_inv (tp_dram_pools p1 ! g)" "dp_fits (tp_dram_pools p1 ! g) ?n"
    "dp_offset (tp_dram_pools p1 ! g) + 2 ^ 20 \<le> dp_capacity (tp_dram_pools p1 ! g)"
    using pool d1 by simp_all
  from stage_alloc_ok [OF g_len pool1(1,3) size(1) pool1(2)] obtain stage n e where
    stage: "stage_alloc g ?n p1 = (Ok (stage, n), p1\<lparr>tp_dram_pools := (tp_dram_pools p1)[g := e]\<rparr>)"
    and n: "0 < n" "n \<le> ?n" and de: "dp_allocate ?d n = (Ok stage, e)" using d1 by auto
  define p2 where "p2 = p1\<lparr>tp_dram_pools := (tp_dram_pools p1)[g := e]\<rparr>"
  have "gpu_ready g p2" and s2: "tp_spill p2 = Some s"
    using g1 s by (simp_all add: p2_def p1_def gpu_ready_def)
  from stage_copy_ok [OF h this(1) s2 n(1) fit dst, of name stage] obtain w2 host where
    copy: "stage_copy pf name g off stage n dst ?n p2 = (Ok (), p2\<lparr>tp_world := w2, tp_host := host\<rparr>)"
    and w2: "dev w2 = mem_write dst (take ?n (drop off (sf_bytes s))) (dev (tp_world p2))"
    and h2: "\<forall>a. a < stage \<or> stage + n \<le> a \<longrightarrow> host a = tp_host p2 a" by blast
  define p3 where "p3 = p2\<lparr>tp_world := w2, tp_host := host\<rparr>"
  have fits: "dp_fits ?d n" using pool(2) n(2) by (simp add: dp_fits_def ra_fits_def)
  then have restored: "dp_free e stage n = ?d" using dp.release_alloc_any [OF pool(1) _ de] by blast
  have frame: "\<forall>a. a \<notin> dp_spare ?d \<longrightarrow> host a = tp_host p a"
  proof (intro allI impI)
    fix a assume "a \<notin> dp_spare ?d"
    then have "a \<notin> {stage ..< stage + n}" using stage_in_spare [OF pool(1) fits de] by blast
    then show "host a = tp_host p a" using h2 by (simp add: p2_def p1_def not_less) (metis not_less)
  qed
  define p4 where "p4 = p\<lparr>tp_world := w2, tp_host := host, tp_vram_free := caches\<rparr>"
  have ret: "dram_freeM g stage n p3 = (Ok (), p4)"
    using g_len restored by (simp add: dram_freeM_def dramM_def p3_def p2_def p1_def p4_def)
  have "vmt_lookup (tp_vmt p4) name = Some pg" "g < length (gc_ordinals (tp_cluster p4))"
    using page g by (simp_all add: p4_def gpu_ready_def)
  note fin = touch_install [OF this(1) size(2) this(2), of now dst ?n]
  have alloc: "alloc_vram_on_gpu pf g ?n p = (Ok dst, p1)"
    and stage: "catchM (stage_alloc g ?n) p1 = (Ok (Inr (stage, n)), p2)"
    and copy: "catchM (stage_copy pf name g off stage n dst ?n) p2 = (Ok (Inr ()), p3)"
    using alloc stage copy by (simp_all add: p1_def p2_def p3_def catchM_def)
  have "access_ssd pf name g now pg None p = (Ok dst, p4\<lparr>tp_vmt :=
      vmt_modify name (promoted (gc_ordinals (tp_cluster p4) ! g) dst ?n now) (tp_vmt p4)\<rparr>)"
    using fin by (simp add: access_ssd_def cold Let_def bindM_def ok_or_def retM_run alloc stage copy ret)
  moreover have "dev w2 = mem_write dst (take ?n (drop off (sf_bytes s))) (dev (tp_world p))"
    using w1 w2 by (simp add: p2_def p1_def)
  ultimately show ?thesis using frame
    by (intro exI [of _ dst] exI [of _ w2] exI [of _ host] exI [of _ caches]) (simp add: p4_def)
qed


lemma write_cold_run:
  assumes page: "vmt_lookup (tp_vmt p) name = Some pg" "pg_tier pg = Ssd" and cold: "pg_ssd_offset pg = Some off"
    and data: "length data = pg_size_bytes pg" and s: "tp_spill p = Some s" and io: "pf_io pf (tp_world p) = (IoDone, w)"
  shows "write_page pf name data p
    = (Ok (), p\<lparr>tp_world := w, tp_spill := Some (s\<lparr>sf_bytes := pwrite off data (sf_bytes s)\<rparr>)\<rparr>)"
proof -
  have "slice (mem_write 0 data (\<lambda>_. 0)) 0 (length data) = data" by (rule slice_mem_write) simp
  then show ?thesis using assms
    by (simp add: write_page_def bindM_def lookupM_run ok_or_def retM_run spillM_def spill_write_at_def write_all_at_def)
qed

lemma write_cold_ok:
  assumes h: "healthy pf dev room" and page: "vmt_lookup (tp_vmt p) name = Some pg" "pg_tier pg = Ssd"
    and cold: "pg_ssd_offset pg = Some off" and data: "length data = pg_size_bytes pg" and s: "tp_spill p = Some s"
  shows "\<exists>w. write_page pf name data p
    = (Ok (), p\<lparr>tp_world := w, tp_spill := Some (s\<lparr>sf_bytes := pwrite off data (sf_bytes s)\<rparr>)\<rparr>)
    \<and> dev w = dev (tp_world p)"
proof -
  obtain w where io: "pf_io pf (tp_world p) = (IoDone, w)" and w: "dev w = dev (tp_world p)"
    using healthy_silent(4) [OF h] by blast
  from write_cold_run [OF page cold data s io] w show ?thesis by (intro exI [of _ w]) simp
qed

text \<open>The start of \<open>access\<close>: the clock, the sample for the membrane, no prefetch to claim, the page.\<close>

lemma access_start:
  assumes h: "healthy pf dev room" and g: "gpu_ready g p" and page: "vmt_lookup (tp_vmt p) name = Some pg"
    and quiet: "tp_inflight p name = None"
  shows "\<exists>now w. dev w = dev (tp_world p) \<and> access pf name g p
    = (case pg_tier pg of
        Vram \<Rightarrow> access_vram pf name g now (chunk_here pg (gc_ordinals (tp_cluster p) ! g))
                  (chunk_elsewhere pg (gc_ordinals (tp_cluster p) ! g))
      | Dram \<Rightarrow> access_dram pf name g now (vec_get (pg_dram_chunks pg) g)
      | Ssd \<Rightarrow> access_ssd pf name g now pg (vec_get (pg_dram_chunks pg) g))
      (p\<lparr>tp_world := w, tp_membrane := observe name (tp_membrane p)\<rparr>)"
proof -
  obtain now w where clock: "pf_clock pf (tp_world p) = (now, w)" "dev w = dev (tp_world p)"
    using healthy_silent(3) [OF h] by blast
  have "vec_get (gc_ordinals (tp_cluster p)) g = Some (gc_ordinals (tp_cluster p) ! g)"
    using g by (simp add: gpu_ready_def vec_get_def)
  with clock page quiet show ?thesis
    by (intro exI [of _ now] exI [of _ w])
      (simp add: access_def worldM_def bindM_def modM_run claim_prefetch_def lookupM_def ok_or_def retM_run
        unwrapM_def Let_def split: tier.split)
qed

text \<open>
  Property C9. What is written to a cold page is what its next access finds in device memory. On a
  machine whose calls succeed, for a non-empty page whose range of the spill file exists and that has
  no transfer in flight, \<open>write_page\<close> followed by \<open>access\<close> returns a device pointer at which exactly
  the data is, however small the pieces are in which the pool lets it stream through host memory (a
  mebibyte of fresh DRAM is enough). Apart from the caches of device blocks and the rate of the
  page, nothing else of the pool changes: the file only in the range of the page, device memory only
  in the block returned, host memory only at addresses the pool of this GPU had not granted, and of
  the table only this page, which is hot, with the chunk filed under this GPU. The staging buffer is
  returned, so the DRAM pools are as before.
\<close>

theorem cold_page_roundtrip:
  assumes h: "healthy pf dev room" and g: "gpu_ready g p" and page: "vmt_lookup (tp_vmt p) name = Some pg" "pg_tier pg = Ssd"
    and cold: "pg_ssd_offset pg = Some off" "pg_dram_chunks pg = []"
    and size: "0 < pg_size_bytes pg" "pg_element_size pg \<noteq> 0" "pg_size_bytes pg \<le> room" and data: "length data = pg_size_bytes pg"
    and s: "tp_spill p = Some s" "off + pg_size_bytes pg \<le> length (sf_bytes s)" "length (sf_bytes s) < W64"
    and pool: "dp_inv (tp_dram_pools p ! g)" "dp_fits (tp_dram_pools p ! g) (pg_size_bytes pg)"
      "dp_offset (tp_dram_pools p ! g) + 2 ^ 20 \<le> dp_capacity (tp_dram_pools p ! g)"
    and quiet: "tp_inflight p name = None"
  shows "\<exists>q1 ptr q2 now w host caches v.
      write_page pf name data p = (Ok (), q1) \<and> access pf name g q1 = (Ok ptr, q2)
    \<and> q2 = p\<lparr>tp_world := w, tp_host := host, tp_vram_free := caches, tp_vmt := v,
        tp_membrane := observe name (tp_membrane p),
        tp_spill := Some (s\<lparr>sf_bytes := take off (sf_bytes s) @ data @ drop (off + length data) (sf_bytes s)\<rparr>)\<rparr>
    \<and> slice (dev w) ptr (length data) = data
    \<and> (\<forall>a. a < ptr \<or> ptr + length data \<le> a \<longrightarrow> dev w a = dev (tp_world p) a)
    \<and> (\<forall>a. a \<notin> dp_spare (tp_dram_pools p ! g) \<longrightarrow> host a = tp_host p a)
    \<and> vmt_lookup v name = Some (promoted (gc_ordinals (tp_cluster p) ! g) ptr (pg_size_bytes pg) now pg)
    \<and> (\<forall>m. m \<noteq> name \<longrightarrow> vmt_lookup v m = vmt_lookup (tp_vmt p) m)"
proof -
  let ?s = "s\<lparr>sf_bytes := pwrite off data (sf_bytes s)\<rparr>"
  obtain w where wr: "write_page pf name data p = (Ok (), p\<lparr>tp_world := w, tp_spill := Some ?s\<rparr>)"
    and w: "dev w = dev (tp_world p)"
    using write_cold_ok [OF h page cold(1) data s(1)] by blast
  define q1 where "q1 = p\<lparr>tp_world := w, tp_spill := Some ?s\<rparr>"
  have fit: "off + length data \<le> length (sf_bytes s)" using s data by simp
  have q1: "gpu_ready g q1" "vmt_lookup (tp_vmt q1) name = Some pg" "tp_inflight q1 name = None"
    using g page quiet by (simp_all add: q1_def gpu_ready_def)
  have none: "vec_get (pg_dram_chunks pg) g = None" by (simp add: cold vec_get_def)
  obtain now w1 where begun: "access pf name g q1
      = access_ssd pf name g now pg None (q1\<lparr>tp_world := w1, tp_membrane := observe name (tp_membrane q1)\<rparr>)"
    and w1: "dev w1 = dev (tp_world q1)"
    using access_start [OF h q1] page(2) none by auto
  define p1 where "p1 = q1\<lparr>tp_world := w1, tp_membrane := observe name (tp_membrane q1)\<rparr>"
  have p1: "gpu_ready g p1" "vmt_lookup (tp_vmt p1) name = Some pg" "tp_spill p1 = Some ?s"
    "tp_dram_pools p1 = tp_dram_pools p" "tp_cluster p1 = tp_cluster p" "tp_vmt p1 = tp_vmt p"
    using g page by (simp_all add: p1_def q1_def gpu_ready_def)
  have s1: "off + pg_size_bytes pg \<le> length (sf_bytes ?s)" "length (sf_bytes ?s) < W64"
    using pwrite_length [OF fit] s data by simp_all
  have pool1: "dp_inv (tp_dram_pools p1 ! g)" "dp_fits (tp_dram_pools p1 ! g) (pg_size_bytes pg)"
    "dp_offset (tp_dram_pools p1 ! g) + 2 ^ 20 \<le> dp_capacity (tp_dram_pools p1 ! g)"
    using pool p1(4) by simp_all
  from access_ssd_ok [OF h p1(1,2) cold(1) size p1(3) s1 pool1, of now]
  obtain ptr w2 host caches where run: "access_ssd pf name g now pg None p1
      = (Ok ptr, p1\<lparr>tp_world := w2, tp_host := host, tp_vram_free := caches,
          tp_vmt := vmt_modify name (promoted (gc_ordinals (tp_cluster p1) ! g) ptr (pg_size_bytes pg) now) (tp_vmt p1)\<rparr>)"
    and w2: "dev w2 = mem_write ptr (take (pg_size_bytes pg) (drop off (sf_bytes ?s))) (dev (tp_world p1))"
    and host: "\<forall>a. a \<notin> dp_spare (tp_dram_pools p1 ! g) \<longrightarrow> host a = tp_host p1 a"
    by blast
  have "take (pg_size_bytes pg) (drop off (sf_bytes ?s)) = data"
    using pwrite_at [OF fit] data by simp
  with w2 have dw: "dev w2 = mem_write ptr data (dev (tp_world p))" by (simp add: p1_def w1 q1_def w)
  let ?v = "vmt_modify name (promoted (gc_ordinals (tp_cluster p) ! g) ptr (pg_size_bytes pg) now) (tp_vmt p)"
  have bytes: "pwrite off data (sf_bytes s) = take off (sf_bytes s) @ data @ drop (off + length data) (sf_bytes s)"
    using fit by (simp add: pwrite_def)
  define q2 where "q2 = p\<lparr>tp_world := w2, tp_host := host, tp_vram_free := caches, tp_vmt := ?v,
        tp_membrane := observe name (tp_membrane p), tp_spill := Some ?s\<rparr>"
  have "access pf name g q1 = (Ok ptr, q2)"
    unfolding begun p1_def [symmetric] run using p1(5,6) by (simp add: q2_def p1_def q1_def)
  moreover have "slice (dev w2) ptr (length data) = data" by (simp add: dw slice_mem_write)
  moreover have "\<forall>a. a < ptr \<or> ptr + length data \<le> a \<longrightarrow> dev w2 a = dev (tp_world p) a"
    by (simp add: dw mem_write_outside)
  moreover have "\<forall>a. a \<notin> dp_spare (tp_dram_pools p ! g) \<longrightarrow> host a = tp_host p a"
    using host by (simp add: p1_def q1_def)
  moreover have "vmt_lookup ?v name = Some (promoted (gc_ordinals (tp_cluster p) ! g) ptr (pg_size_bytes pg) now pg)"
    "\<forall>m. m \<noteq> name \<longrightarrow> vmt_lookup ?v m = vmt_lookup (tp_vmt p) m" using page by simp_all
  ultimately show ?thesis
    using wr [folded q1_def] q2_def [unfolded bytes] by blast
qed


text \<open>A machine whose world is its device memory.\<close>

definition memory_machine :: "(u64 \<Rightarrow> byte) platform" where
  "memory_machine = idle_platform\<lparr>
     pf_mem_alloc := (\<lambda>n mem. (if n \<le> 2 ^ 30 then 0 else 2, 65536, mem)),
     pf_htod := (\<lambda>dst bs mem. (0, mem_write dst bs mem)),
     pf_htod_async := (\<lambda>dst bs s mem. (0, mem_write dst bs mem)),
     pf_dtoh_async := (\<lambda>src n s mem. (0, slice mem src n, mem))\<rparr>"

lemma memory_machine_healthy: "healthy memory_machine (\<lambda>mem. mem) (2 ^ 30)"
  by (simp add: healthy_def device_memory_def never_fails_def memory_machine_def idle_platform_def W64_def)

definition large_pool :: dram_pool where
  "large_pool = dp_sample\<lparr>dp_capacity := 2 ^ 21\<rparr>"

definition cold_sample :: "(u64 \<Rightarrow> byte) tiered_pool" where
  "cold_sample = (pool_sample (\<lambda>_. 0))\<lparr>tp_dram_pools := [large_pool],
     tp_spill := Some \<lparr>sf_bytes = replicate 128 0, sf_path = ''/nvme/spill'', sf_alloc = ra_new 128,
       sf_unlink_on_drop = True\<rparr>,
     tp_vmt := filed ''c'' ((fresh_page ''c'' [3] 1)\<lparr>pg_tier := Ssd, pg_state := Cold, pg_ssd_offset := Some 64\<rparr>)
       ''c'' (vmt_new 2 2)\<rparr>"

lemma sample_ready:
  "gpu_ready 0 ((pool_sample w)\<lparr>tp_dram_pools := [large_pool], tp_spill := sp, tp_vmt := v\<rparr>)"
  "dp_inv large_pool" "n < 2 ^ 40 \<Longrightarrow> dp_fits large_pool n" "dp_offset large_pool + 2 ^ 20 \<le> dp_capacity large_pool"
  by (simp_all add: gpu_ready_def pool_sample_def two_gpus_def two_streams_def large_pool_def dp_sample_def
      dp_inv_def dp_core_def ra_inv_def dp_fits_def ra_fits_def W64_def)

theorem cold_page_roundtrip_witness:
  "\<exists>q1 ptr q2. write_page memory_machine ''c'' [1, 2, 3] cold_sample = (Ok (), q1)
    \<and> access memory_machine ''c'' 0 q1 = (Ok ptr, q2) \<and> slice (tp_world q2) ptr 3 = [1, 2, 3]"
proof -
  let ?pg = "(fresh_page ''c'' [3] 1)\<lparr>pg_tier := Ssd, pg_state := Cold, pg_ssd_offset := Some 64\<rparr>"
  let ?s = "\<lparr>sf_bytes = replicate 128 0, sf_path = ''/nvme/spill'', sf_alloc = ra_new 128, sf_unlink_on_drop = True\<rparr>"
  have size: "pg_size_bytes ?pg = 3" by (simp add: fresh_page_def page_new_def uproduct_def umul_def W64_def)
  have ready: "gpu_ready 0 cold_sample" by (simp add: cold_sample_def sample_ready)
  have page: "vmt_lookup (tp_vmt cold_sample) ''c'' = Some ?pg" "pg_tier ?pg = Ssd"
    and cold: "pg_ssd_offset ?pg = Some 64" "pg_dram_chunks ?pg = []"
    by (simp_all add: cold_sample_def fresh_page_def page_new_def)
  have sizes: "0 < pg_size_bytes ?pg" "pg_element_size ?pg \<noteq> 0" "pg_size_bytes ?pg \<le> 2 ^ 30"
    using size by (simp_all add: fresh_page_def page_new_def)
  have data: "length [1 :: byte, 2, 3] = pg_size_bytes ?pg" using size by simp
  have s: "tp_spill cold_sample = Some ?s" "64 + pg_size_bytes ?pg \<le> length (sf_bytes ?s)"
    "length (sf_bytes ?s) < W64" using size by (simp_all add: cold_sample_def W64_def)
  have pool: "dp_inv (tp_dram_pools cold_sample ! 0)" "dp_fits (tp_dram_pools cold_sample ! 0) (pg_size_bytes ?pg)"
    "dp_offset (tp_dram_pools cold_sample ! 0) + 2 ^ 20 \<le> dp_capacity (tp_dram_pools cold_sample ! 0)"
    using sample_ready(2) sample_ready(3) [of "pg_size_bytes ?pg"] sample_ready(4) size by (simp_all add: cold_sample_def)
  have "tp_inflight cold_sample ''c'' = None" by (simp add: cold_sample_def pool_sample_def)
  from cold_page_roundtrip [OF memory_machine_healthy ready page cold sizes data s pool this]
  show ?thesis by (auto simp: numeral_3_eq_3)
qed

section \<open>The streaming loop ends\<close>

lemma stage_loop_enough:
  assumes len: "0 < stage_len" and "bytes < W64"
  shows "pos \<le> bytes \<Longrightarrow> bytes - pos \<le> k * stage_len \<Longrightarrow>
    \<exists>res. \<forall>fuel \<ge> k. stage_loop fuel pf off stage stage_len dst bytes pos p = Some res"
proof (induction k arbitrary: pos p)
  case 0
  then show ?case by (simp add: stage_loop.simps)
next
  case (Suc k)
  show ?case
  proof (cases "pos < bytes")
    case False
    then show ?thesis by (simp add: stage_loop.simps)
  next
    case True
    let ?n = "min stage_len (bytes - pos)"
    obtain r q where run: "stage_chunk pf off stage dst pos ?n p = (r, q)" by force
    have next_pos: "uadd pos ?n = pos + ?n" using True assms(2) by (simp add: uadd_exact)
    have "pos + ?n \<le> bytes" "bytes - (pos + ?n) \<le> k * stage_len" using Suc.prems(2) True by (auto simp: min_def)
    from Suc.IH [OF this, of q] obtain res where
      rest: "\<forall>fuel \<ge> k. stage_loop fuel pf off stage stage_len dst bytes (pos + ?n) q = Some res" by blast
    have "stage_loop fuel pf off stage stage_len dst bytes pos p
        = Some (case r of Ok _ \<Rightarrow> res | Err e \<Rightarrow> (Err e, q) | Panic \<Rightarrow> (Panic, q))" if "Suc k \<le> fuel" for fuel
    proof -
      obtain f where f: "fuel = Suc f" "k \<le> f" using \<open>Suc k \<le> fuel\<close> by (cases fuel) auto
      with True run next_pos rest show ?thesis
        by (simp add: stage_loop.simps [of "Suc f"] Let_def split: outcome.split)
    qed
    then show ?thesis by blast
  qed
qed

text \<open>
  Property C28. The loop that streams a cold page ends. With a staging buffer of \<open>stage_len\<close> bytes it
  takes at most \<open>ceil(bytes / stage_len)\<close> rounds whatever the file and the driver answer: with that
  much fuel or more it has a result, always the same one. \<open>access\<close> gives it \<open>bytes\<close>, which is enough,
  and \<open>stage_alloc\<close> never grants an empty buffer.
\<close>

theorem stage_loop_returns:
  assumes "0 < stage_len" and "bytes < W64"
  shows "\<exists>res. \<forall>fuel. (bytes + stage_len - 1) div stage_len \<le> fuel \<or> bytes \<le> fuel \<longrightarrow>
    stage_loop fuel pf off stage stage_len dst bytes 0 p = Some res"
proof -
  let ?k = "(bytes + stage_len - 1) div stage_len"
  have "bytes - 0 \<le> ?k * stage_len"
    using assms(1) div_mult_mod_eq [of "bytes + stage_len - 1" stage_len]
      mod_less_divisor [OF assms(1), of "bytes + stage_len - 1"] by linarith
  from stage_loop_enough [OF assms _ this, of pf off stage dst p] obtain res where
    res: "\<forall>fuel \<ge> ?k. stage_loop fuel pf off stage stage_len dst bytes 0 p = Some res" by auto
  have "?k \<le> bytes"
  proof (cases "bytes = 0")
    case False
    have "bytes + stage_len - 1 \<le> bytes * stage_len"
      using False assms(1) by (cases bytes; cases stage_len) simp_all
    then show ?thesis using assms(1) by (metis div_le_mono nonzero_mult_div_cancel_right not_gr_zero)
  qed (use assms(1) in simp)
  with res show ?thesis by (metis le_trans)
qed

theorem stage_loop_returns_witness:
  "\<exists>r. stage_loop 3 (idle_platform :: unit platform) 0 65536 2 9 5 0 (pool_sample ()) = Some r"
  using stage_loop_returns [of 2 5 "idle_platform :: unit platform" 0 65536 9 "pool_sample ()"]
  by (auto simp: W64_def)

end
