(* ===== verification/WarmTier.thy ===== *)
theory WarmTier
  imports DeviceMemory
begin

text \<open>
  The DRAM tier of \<open>src/tiered.rs\<close> on a healthy machine: a page keeps its bytes over a demotion and
  the promotion after it; and what happens when the DMA ring of the GPU is full.
\<close>

section \<open>Room in a ring\<close>

definition ring_room :: "nat \<Rightarrow> dma_engine \<Rightarrow> usize \<Rightarrow> bool" where
  "ring_room k e g \<longleftrightarrow> g < length (de_rings e) \<and> g < de_num_gpus e \<and> ring_inv (de_rings e ! g)
     \<and> ring_tail (de_rings e ! g) + k \<le> ring_head (de_rings e ! g) + 1024
     \<and> ring_tail (de_rings e ! g) + k < 2 ^ 32"

lemma ring_at_room:
  assumes "ring_room (Suc k) e g"
  shows "\<exists>slot e'. ring_at g (ring_submit d) e = (Ok slot, e') \<and> ring_room k e' g"
proof -
  let ?r = "de_rings e ! g"
  have r: "ring_inv ?r" "0 < ring_budget ?r" "ring_tail ?r < ring_head ?r + 1024"
    using assms by (simp_all add: ring_room_def ring_budget_def)
  from ring_submit_room [OF r, of d] obtain t where t: "ring_submit d ?r = (Ok (dm_submitted (rg_completion ?r) AND 1023), t)"
    "ring_inv t" "ring_tail t = ring_tail ?r + 1" "rg_consumer t = rg_consumer ?r" by blast
  have "ring_head t = ring_head ?r" using t(4) by (simp add: ring_head_def)
  with t assms show ?thesis by (auto simp: ring_at_run ring_room_def)
qed

lemma submit_room:
  assumes "ring_room (Suc k) e g"
  shows "\<exists>slot e'. submit_dram_to_vram g src dst n prio e = (Ok slot, e') \<and> ring_room k e' g"
    and "\<exists>slot e'. submit_vram_to_dram g src dst n prio e = (Ok slot, e') \<and> ring_room k e' g"
  using ring_at_room [OF assms] assms
  by (simp_all add: submit_dram_to_vram_def submit_vram_to_dram_def ring_room_def)

text \<open>The rings of the other GPUs are left as they are.\<close>

lemma submit_other_ring:
  assumes "i \<noteq> j"
  shows "submit_vram_to_dram i src dst n prio e = (r, e') \<Longrightarrow>
      de_num_gpus e' = de_num_gpus e \<and> length (de_rings e') = length (de_rings e) \<and> de_rings e' ! j = de_rings e ! j"
    and "submit_dram_to_vram i src dst n prio e = (r, e') \<Longrightarrow>
      de_num_gpus e' = de_num_gpus e \<and> length (de_rings e') = length (de_rings e) \<and> de_rings e' ! j = de_rings e ! j"
  using assms by (auto simp: submit_vram_to_dram_def submit_dram_to_vram_def ring_at_def split: prod.splits if_splits)

section \<open>Promotion from the DRAM tier\<close>

lemma access_dram_with:
  assumes h: "healthy pf dev room" and page: "vmt_lookup (tp_vmt p) name = Some pg"
    and es: "pg_element_size pg \<noteq> 0" and ring: "ring_room (Suc k) (tp_dma p) g"
    and alloc: "alloc_vram_on_gpu pf g (dc_size_bytes c) p = (Ok dst, p\<lparr>tp_world := w1, tp_vram_free := caches\<rparr>)"
    and w1: "dev w1 = dev (tp_world p)" and g1: "gpu_ready g (p\<lparr>tp_world := w1, tp_vram_free := caches\<rparr>)"
  shows "\<exists>w e. access_dram pf name g now (Some c) p
      = (Ok dst, p\<lparr>tp_world := w, tp_vram_free := caches, tp_dma := e,
          tp_vmt := vmt_modify name (promoted (gc_ordinals (tp_cluster p) ! g) dst (dc_size_bytes c) now) (tp_vmt p)\<rparr>)
    \<and> dev w = mem_write dst (slice (tp_host p) (dc_host_ptr c) (dc_size_bytes c)) (dev (tp_world p))
    \<and> ring_room k e g \<and> (\<forall>j m. j \<noteq> g \<longrightarrow> ring_room m (tp_dma p) j \<longrightarrow> ring_room m e j)"
proof -
  let ?n = "dc_size_bytes c" and ?bs = "slice (tp_host p) (dc_host_ptr c) (dc_size_bytes c)"
  define p1 where "p1 = p\<lparr>tp_world := w1, tp_vram_free := caches\<rparr>"
  obtain slot e where sub: "submit_dram_to_vram g (word_of_nat (dc_host_ptr c)) (word_of_nat dst) ?n 2 (tp_dma p)
      = (Ok slot, e)" and room: "ring_room k e g"
    using submit_room(1) [OF ring] by blast
  define p2 where "p2 = p1\<lparr>tp_dma := e\<rparr>"
  have dma: "dmaM (submit_dram_to_vram g (word_of_nat (dc_host_ptr c)) (word_of_nat dst) ?n 2) p1 = (Ok slot, p2)"
    using sub by (simp add: dmaM_def p2_def p1_def)
  have g2: "gpu_ready g p2" using g1 by (simp add: p2_def p1_def gpu_ready_def)
  obtain w3 where ctx: "set_context pf g p2 = (Ok (), p2\<lparr>tp_world := w3\<rparr>)" and w3: "dev w3 = dev (tp_world p2)"
    using set_context_ok [OF h g2] by blast
  define p3 where "p3 = p2\<lparr>tp_world := w3\<rparr>"
  let ?s = "st_compute (tp_streams p3) ! g"
  have g3: "gpu_ready g p3" using g2 by (simp add: p3_def gpu_ready_def)
  have stream: "compute_stream g p3 = (Ok ?s, p3)" by (rule sync_compute_ok(2) [OF h g3])
  obtain w4 where copy: "pf_htod_async pf dst ?bs (cs_inner ?s) w3 = (0, w4)" and w4: "dev w4 = mem_write dst ?bs (dev w3)"
    using healthy_htod(2) [OF h] by blast
  define p4 where "p4 = p3\<lparr>tp_world := w4\<rparr>"
  have host: "slice (tp_host p3) (dc_host_ptr c) ?n = ?bs" by (simp add: p3_def p2_def p1_def)
  have ign: "ignoreW (pf_htod_async pf dst ?bs (cs_inner ?s)) p3 = (Ok (), p4)"
    using copy by (simp add: ignoreW_def cu_ignore_def p4_def) (simp add: p3_def)
  have g4: "gpu_ready g p4" using g3 by (simp add: p4_def gpu_ready_def)
  obtain w5 where sync: "sync_compute pf g p4 = (Ok (), p4\<lparr>tp_world := w5\<rparr>)" and w5: "dev w5 = dev (tp_world p4)"
    using sync_compute_ok(1) [OF h g4] by blast
  define p5 where "p5 = p4\<lparr>tp_world := w5\<rparr>"
  have p5: "p5 = p\<lparr>tp_world := w5, tp_vram_free := caches, tp_dma := e\<rparr>"
    by (simp add: p5_def p4_def p3_def p2_def p1_def)
  have "vmt_lookup (tp_vmt p5) name = Some pg" "g < length (gc_ordinals (tp_cluster p5))"
    using page g1 by (simp_all add: p5 gpu_ready_def)
  note fin = touch_install [OF this(1) es this(2), of now dst ?n]
  have "access_dram pf name g now (Some c) p = (Ok dst, p5\<lparr>tp_vmt :=
      vmt_modify name (promoted (gc_ordinals (tp_cluster p5) ! g) dst ?n now) (tp_vmt p5)\<rparr>)"
    using fin alloc [folded p1_def] dma ctx [folded p3_def] stream host ign sync [folded p5_def]
    by (simp add: access_dram_def Let_def bindM_def ok_or_def retM_run getM_run)
  moreover have "dev w5 = mem_write dst ?bs (dev (tp_world p))"
    using w1 w3 w4 w5 by (simp add: p4_def p2_def p1_def)
  moreover have "ring_room m e j" if "j \<noteq> g" "ring_room m (tp_dma p) j" for j m
    using submit_other_ring(2) [OF _ sub, of j] that by (simp add: ring_room_def)
  ultimately show ?thesis using room by (intro exI [of _ w5] exI [of _ e]) (simp add: p5)
qed

lemma alloc_vram_length:
  "length (tp_vram_free (snd (alloc_vram_on_gpu pf g n p))) = length (tp_vram_free p)"
proof -
  have set_ctx: "tp_vram_free (snd (set_context pf g p)) = tp_vram_free p"
    by (simp add: set_context_def worldM_def split: prod.split)
  show ?thesis
  proof (cases "set_context pf g p")
    case (Pair r q)
    then show ?thesis using set_ctx
      by (cases r) (auto simp: alloc_vram_on_gpu_def bindM_def worldM_def split: option.split prod.split)
  qed
qed

lemma access_dram_ok:
  assumes h: "healthy pf dev room" and g: "gpu_ready g p" and page: "vmt_lookup (tp_vmt p) name = Some pg"
    and es: "pg_element_size pg \<noteq> 0" and n: "dc_size_bytes c \<le> room" and ring: "ring_room (Suc k) (tp_dma p) g"
  shows "\<exists>ptr w caches e. access_dram pf name g now (Some c) p
      = (Ok ptr, p\<lparr>tp_world := w, tp_vram_free := caches, tp_dma := e,
          tp_vmt := vmt_modify name (promoted (gc_ordinals (tp_cluster p) ! g) ptr (dc_size_bytes c) now) (tp_vmt p)\<rparr>)
    \<and> dev w = mem_write ptr (slice (tp_host p) (dc_host_ptr c) (dc_size_bytes c)) (dev (tp_world p))
    \<and> ring_room k e g \<and> (\<forall>j m. j \<noteq> g \<longrightarrow> ring_room m (tp_dma p) j \<longrightarrow> ring_room m e j)
    \<and> length caches = length (tp_vram_free p) \<and> gpu_ready g (p\<lparr>tp_vram_free := caches\<rparr>) \<and> ptr + dc_size_bytes c \<le> W64"
proof -
  obtain dst w1 caches where alloc: "alloc_vram_on_gpu pf g (dc_size_bytes c) p = (Ok dst, p\<lparr>tp_world := w1, tp_vram_free := caches\<rparr>)"
    and w1: "dev w1 = dev (tp_world p)" and below: "dst + dc_size_bytes c \<le> W64"
    and g1: "gpu_ready g (p\<lparr>tp_world := w1, tp_vram_free := caches\<rparr>)"
    using alloc_vram_ok [OF h g n] by blast
  have "length caches = length (tp_vram_free p)" using alloc_vram_length [of pf g "dc_size_bytes c" p] alloc by simp
  moreover have "gpu_ready g (p\<lparr>tp_vram_free := caches\<rparr>)" using g1 by (simp add: gpu_ready_def)
  ultimately show ?thesis using below access_dram_with [OF h page es ring alloc w1 g1] by blast
qed

text \<open>A cached block of the size is the one that is taken.\<close>

lemma alloc_vram_cached:
  assumes "g < length (tp_vram_free p)" and "position (\<lambda>(sz, _). sz = n) (tp_vram_free p ! g) = Some i"
  shows "alloc_vram_on_gpu pf g n p = (Ok (snd (tp_vram_free p ! g ! i)),
    p\<lparr>tp_vram_free := (tp_vram_free p)[g := vec_swap_remove i (tp_vram_free p ! g)]\<rparr>)"
  using assms by (simp add: alloc_vram_on_gpu_def vec_get_def)

section \<open>Demotion\<close>

definition demoted :: "page \<Rightarrow> page" where
  "demoted pg = pg\<lparr>pg_vram_chunks := [], pg_tier := Dram, pg_state := Warm\<rparr>"

lemma demote_chunk_ok:
  assumes h: "healthy pf dev room" and g: "gpu_ready g p"
    and idx: "index_of (tp_cluster p) (ck_gpu_ordinal c) = Some g" and b: "vec_get dram g = Some b"
    and fit: "ck_size_bytes c \<le> dc_size_bytes b"
    and ring: "ring_room (Suc k) (tp_dma p) g"
  shows "\<exists>w e slot. demote_chunk pf name dram c p = (Ok (), p\<lparr>tp_world := w, tp_dma := e,
        tp_host := mem_write (dc_host_ptr b) (slice (dev (tp_world p)) (ck_device_ptr c) (ck_size_bytes c)) (tp_host p),
        tp_vram_free := (if ck_device_ptr c = 0 then tp_vram_free p
          else (tp_vram_free p)[g := tp_vram_free p ! g @ [(ck_size_bytes c, ck_device_ptr c)]])\<rparr>)
    \<and> dev w = dev (tp_world p) \<and> ring_room k e g
    \<and> submit_vram_to_dram g (word_of_nat (ck_device_ptr c)) (word_of_nat (dc_host_ptr b)) (ck_size_bytes c) 0 (tp_dma p)
      = (Ok slot, e)"
proof -
  let ?n = "ck_size_bytes c" and ?x = "ck_device_ptr c"
  let ?bs = "slice (dev (tp_world p)) ?x ?n"
  obtain slot e where sub: "submit_vram_to_dram g (word_of_nat ?x) (word_of_nat (dc_host_ptr b)) ?n 0 (tp_dma p) = (Ok slot, e)"
    and room: "ring_room k e g" using submit_room(2) [OF ring] by blast
  define p1 where "p1 = p\<lparr>tp_dma := e\<rparr>"
  have dma: "dmaM (submit_vram_to_dram g (word_of_nat ?x) (word_of_nat (dc_host_ptr b)) ?n 0) p = (Ok slot, p1)"
    using sub by (simp add: dmaM_def p1_def)
  have g1: "gpu_ready g p1" using g by (simp add: p1_def gpu_ready_def)
  obtain w2 where ctx: "set_context pf g p1 = (Ok (), p1\<lparr>tp_world := w2\<rparr>)" and w2: "dev w2 = dev (tp_world p)"
    using set_context_ok [OF h g1] by (auto simp: p1_def)
  define p2 where "p2 = p1\<lparr>tp_world := w2\<rparr>"
  have g2: "gpu_ready g p2" using g1 by (simp add: p2_def gpu_ready_def)
  obtain w3 where copy: "pf_dtoh_async pf ?x ?n (cs_inner (st_compute (tp_streams p2) ! g)) w2 = (0, ?bs, w3)"
    and w3: "dev w3 = dev (tp_world p)" using healthy_dtoh [OF h] w2 by metis
  define p3 where "p3 = p2\<lparr>tp_world := w3, tp_host := mem_write (dc_host_ptr b) ?bs (tp_host p)\<rparr>"
  have "tp_world p2 = w2" "tp_host p2 = tp_host p" by (simp_all add: p2_def p1_def)
  then have toh: "copy_to_host pf g (dc_host_ptr b) ?x ?n p2 = (Ok (), p3)"
    using sync_compute_ok(2) [OF h g2] copy by (simp add: copy_to_host_def bindM_def check_cu_def p3_def)
  have g3: "gpu_ready g p3" using g2 by (simp add: p3_def gpu_ready_def)
  obtain w4 where sync: "sync_compute pf g p3 = (Ok (), p3\<lparr>tp_world := w4\<rparr>)" and w4: "dev w4 = dev (tp_world p)"
    using sync_compute_ok(1) [OF h g3] w3 by (auto simp: p3_def)
  define p4 where "p4 = p3\<lparr>tp_world := w4\<rparr>"
  let ?caches = "if ?x = 0 then tp_vram_free p else (tp_vram_free p)[g := tp_vram_free p ! g @ [(?n, ?x)]]"
  define p5 where "p5 = p\<lparr>tp_world := w4, tp_dma := e, tp_host := mem_write (dc_host_ptr b) ?bs (tp_host p),
    tp_vram_free := ?caches\<rparr>"
  have free: "free_vram_on_gpu g ?x ?n p4 = (Ok (), p5)"
    using g by (simp add: free_vram_on_gpu_def vec_get_def gpu_ready_def p5_def p4_def p3_def p2_def p1_def)
  have "demote_chunk pf name dram c p = (Ok (), p5)"
    using idx b fit dma ctx [folded p2_def] toh sync [folded p4_def] free
    by (simp add: demote_chunk_def bindM_def ok_or_def retM_run)
  then show ?thesis
    using room w4 sub by (intro exI [of _ w4] exI [of _ e] exI [of _ slot]) (simp add: p5_def)
qed

lemma demoted_fold: "(\<lambda>pg. pg\<lparr>pg_vram_chunks := [], pg_tier := Dram, pg_state := Warm\<rparr>) = demoted"
  by (simp add: demoted_def fun_eq_iff)

lemma demote_ok:
  assumes h: "healthy pf dev room" and g: "gpu_ready g p" and page: "vmt_lookup (tp_vmt p) name = Some pg"
    and hot: "pg_tier pg = Vram" "\<not> pg_pinned pg" "pg_vram_chunks pg = [c]"
    and idx: "index_of (tp_cluster p) (ck_gpu_ordinal c) = Some g" and b: "vec_get (pg_dram_chunks pg) g = Some b"
    and fit: "ck_size_bytes c \<le> dc_size_bytes b" and ptr: "ck_device_ptr c \<noteq> 0"
    and ring: "ring_room (Suc k) (tp_dma p) g"
  shows "\<exists>w e. demote pf name p = (Ok (), p\<lparr>tp_world := w, tp_dma := e,
        tp_host := mem_write (dc_host_ptr b) (slice (dev (tp_world p)) (ck_device_ptr c) (ck_size_bytes c)) (tp_host p),
        tp_vram_free := (tp_vram_free p)[g := tp_vram_free p ! g @ [(ck_size_bytes c, ck_device_ptr c)]],
        tp_vmt := vmt_modify name demoted (tp_vmt p)\<rparr>)
    \<and> dev w = dev (tp_world p) \<and> ring_room k e g"
proof -
  obtain w e where step: "demote_chunk pf name (pg_dram_chunks pg) c p = (Ok (), p\<lparr>tp_world := w, tp_dma := e,
        tp_host := mem_write (dc_host_ptr b) (slice (dev (tp_world p)) (ck_device_ptr c) (ck_size_bytes c)) (tp_host p),
        tp_vram_free := (tp_vram_free p)[g := tp_vram_free p ! g @ [(ck_size_bytes c, ck_device_ptr c)]]\<rparr>)"
    and w: "dev w = dev (tp_world p)" "ring_room k e g"
    using demote_chunk_ok [OF h g idx b fit ring, of name] ptr by auto
  have "demote pf name p = (Ok (), p\<lparr>tp_world := w, tp_dma := e,
        tp_host := mem_write (dc_host_ptr b) (slice (dev (tp_world p)) (ck_device_ptr c) (ck_size_bytes c)) (tp_host p),
        tp_vram_free := (tp_vram_free p)[g := tp_vram_free p ! g @ [(ck_size_bytes c, ck_device_ptr c)]],
        tp_vmt := vmt_modify name demoted (tp_vmt p)\<rparr>)"
    using page hot step by (simp add: demote_def bindM_def lookupM_run retM_run modify_page_run demoted_fold)
  with w show ?thesis by blast
qed


text \<open>The caches stay small, and the access that brings a warm page to a GPU.\<close>

lemma gpu_ready_caches:
  assumes "gpu_ready g p" and "length caches = length (tp_vram_free p)"
    and "\<forall>cache \<in> set caches. \<forall>(n, x) \<in> set cache. x + n \<le> W64"
  shows "gpu_ready g (p\<lparr>tp_world := w, tp_dma := e, tp_host := host, tp_vram_free := caches\<rparr>)"
  using assms by (simp add: gpu_ready_def)

lemma push_cache_small:
  assumes "\<forall>cache \<in> set caches. \<forall>(n, x) \<in> set cache. x + n \<le> W64" and "i < length caches" and "x + n \<le> W64"
  shows "\<forall>cache \<in> set (caches[i := caches ! i @ [(n, x)]]). \<forall>(n, x) \<in> set cache. x + n \<le> W64"
proof -
  have "\<forall>cache \<in> insert (caches ! i @ [(n, x)]) (set caches). \<forall>(n, x) \<in> set cache. x + n \<le> W64"
    using assms by (auto simp: case_prod_beta)
  then show ?thesis using set_update_subset_insert [of caches i] by blast
qed

lemma first_access:
  assumes h: "healthy pf dev room" and g: "gpu_ready i p"
    and page: "vmt_lookup (tp_vmt p) name = Some pg" "pg_tier pg = Dram" "pg_element_size pg \<noteq> 0" "tp_inflight p name = None"
    and b: "vec_get (pg_dram_chunks pg) i = Some b" "dc_size_bytes b \<le> room" and ring: "ring_room (Suc k) (tp_dma p) i"
  shows "\<exists>x q now. access pf name i p = (Ok x, q)
    \<and> vmt_lookup (tp_vmt q) name = Some (promoted (gc_ordinals (tp_cluster p) ! i) x (dc_size_bytes b) now pg)
    \<and> slice (dev (tp_world q)) x (dc_size_bytes b) = slice (tp_host p) (dc_host_ptr b) (dc_size_bytes b)
    \<and> x + dc_size_bytes b \<le> W64 \<and> ring_room k (tp_dma q) i
    \<and> (\<forall>j m. j \<noteq> i \<longrightarrow> ring_room m (tp_dma p) j \<longrightarrow> ring_room m (tp_dma q) j) \<and> (\<forall>j. gpu_ready j p \<longrightarrow> gpu_ready j q)
    \<and> tp_inflight q name = None \<and> tp_cluster q = tp_cluster p"
proof -
  let ?n = "dc_size_bytes b" and ?oi = "gc_ordinals (tp_cluster p) ! i"
  obtain now w where w: "dev w = dev (tp_world p)" and begun: "access pf name i p
      = access_dram pf name i now (Some b) (p\<lparr>tp_world := w, tp_membrane := observe name (tp_membrane p)\<rparr>)"
    using access_start [OF h g page(1,4)] page(2) b(1) by auto
  define p1 where "p1 = p\<lparr>tp_world := w, tp_membrane := observe name (tp_membrane p)\<rparr>"
  have p1: "gpu_ready i p1" "vmt_lookup (tp_vmt p1) name = Some pg" "ring_room (Suc k) (tp_dma p1) i"
    using g page ring by (simp_all add: p1_def gpu_ready_def)
  from access_dram_ok [OF h p1(1,2) page(3) b(2) p1(3), of now] obtain x w1 caches e where
    acc: "access_dram pf name i now (Some b) p1 = (Ok x, p1\<lparr>tp_world := w1, tp_vram_free := caches, tp_dma := e,
          tp_vmt := vmt_modify name (promoted (gc_ordinals (tp_cluster p1) ! i) x ?n now) (tp_vmt p1)\<rparr>)"
    and w1: "dev w1 = mem_write x (slice (tp_host p1) (dc_host_ptr b) ?n) (dev (tp_world p1))"
    and e: "ring_room k e i" "\<forall>j m. j \<noteq> i \<longrightarrow> ring_room m (tp_dma p1) j \<longrightarrow> ring_room m e j"
    and caches: "length caches = length (tp_vram_free p1)" "gpu_ready i (p1\<lparr>tp_vram_free := caches\<rparr>)" "x + ?n \<le> W64"
    by blast
  define q where "q = p1\<lparr>tp_world := w1, tp_vram_free := caches, tp_dma := e, tp_vmt := vmt_modify name (promoted ?oi x ?n now) (tp_vmt p1)\<rparr>"
  have "access pf name i p = (Ok x, q)" using begun acc by (simp add: p1_def q_def)
  moreover have "slice (dev (tp_world q)) x ?n = slice (tp_host p) (dc_host_ptr b) ?n"
    using slice_mem_write [of "slice (tp_host p) (dc_host_ptr b) ?n" ?n x] by (simp add: q_def w1 p1_def)
  moreover have "vmt_lookup (tp_vmt q) name = Some (promoted ?oi x ?n now pg)" "tp_inflight q name = None" "tp_cluster q = tp_cluster p"
    using page by (simp_all add: q_def p1_def)
  moreover have "\<forall>j. gpu_ready j p \<longrightarrow> gpu_ready j q" using caches by (simp add: q_def p1_def gpu_ready_def)
  moreover have "ring_room k (tp_dma q) i \<and> (\<forall>j m. j \<noteq> i \<longrightarrow> ring_room m (tp_dma p) j \<longrightarrow> ring_room m (tp_dma q) j)"
    using e by (simp add: q_def p1_def)
  ultimately show ?thesis using caches(3) by blast
qed

text \<open>
  Property C10. A page with one device chunk keeps its bytes over a demotion and the promotion after it. On a
  machine whose calls succeed, with two free slots in the DMA ring and no transfer of the page in flight,
  \<open>demote\<close> of an unpinned page whose only chunk fills its shard succeeds: the shard then holds the
  bytes the device block held, the block is in the recycle cache, the page is warm and has no device
  chunk. The next \<open>access\<close> returns a pointer at which those bytes are in device memory again. Each
  direction takes one slot of the GPU's DMA ring.
\<close>

theorem demote_access_roundtrip:
  assumes h: "healthy pf dev room" and g: "gpu_ready g p" and page: "vmt_lookup (tp_vmt p) name = Some pg"
    and hot: "pg_tier pg = Vram" "\<not> pg_pinned pg" "pg_vram_chunks pg = [c]" "pg_element_size pg \<noteq> 0"
    and idx: "index_of (tp_cluster p) (ck_gpu_ordinal c) = Some g" and b: "vec_get (pg_dram_chunks pg) g = Some b"
    and fit: "ck_size_bytes c = dc_size_bytes b" "ck_size_bytes c \<le> room"
    and ptr: "ck_device_ptr c \<noteq> 0" "ck_device_ptr c + ck_size_bytes c \<le> W64"
    and ring: "ring_room 2 (tp_dma p) g" and quiet: "tp_inflight p name = None"
  shows "\<exists>q1 x q2. demote pf name p = (Ok (), q1)
    \<and> slice (tp_host q1) (dc_host_ptr b) (dc_size_bytes b) = slice (dev (tp_world p)) (ck_device_ptr c) (ck_size_bytes c)
    \<and> vmt_lookup (tp_vmt q1) name = Some (demoted pg)
    \<and> (ck_size_bytes c, ck_device_ptr c) \<in> set (tp_vram_free q1 ! g)
    \<and> access pf name g q1 = (Ok x, q2)
    \<and> slice (dev (tp_world q2)) x (ck_size_bytes c) = slice (dev (tp_world p)) (ck_device_ptr c) (ck_size_bytes c)"
proof -
  let ?n = "ck_size_bytes c" and ?caches = "(tp_vram_free p)[g := tp_vram_free p ! g @ [(ck_size_bytes c, ck_device_ptr c)]]"
  let ?bs = "slice (dev (tp_world p)) (ck_device_ptr c) ?n"
  have two: "ring_room (Suc 1) (tp_dma p) g" using ring by (simp add: numeral_2_eq_2)
  have le: "?n \<le> dc_size_bytes b" "dc_size_bytes b \<le> room" using fit by simp_all
  obtain w e where run: "demote pf name p = (Ok (), p\<lparr>tp_world := w, tp_dma := e,
        tp_host := mem_write (dc_host_ptr b) ?bs (tp_host p), tp_vram_free := ?caches,
        tp_vmt := vmt_modify name demoted (tp_vmt p)\<rparr>)" and one: "ring_room (Suc 0) e g"
    using demote_ok [OF h g page hot(1-3) idx b le(1) ptr(1) two] by auto
  define q1 where "q1 = p\<lparr>tp_world := w, tp_dma := e, tp_host := mem_write (dc_host_ptr b) ?bs (tp_host p),
        tp_vram_free := ?caches, tp_vmt := vmt_modify name demoted (tp_vmt p)\<rparr>"
  have len: "g < length (tp_vram_free p)" using g by (simp add: gpu_ready_def)
  have "\<forall>cache \<in> set (tp_vram_free p). \<forall>(n, x) \<in> set cache. x + n \<le> W64" using g unfolding gpu_ready_def by blast
  from push_cache_small [OF this len ptr(2)] have ready: "gpu_ready g q1" using g by (simp add: gpu_ready_def q1_def)
  have q1: "vmt_lookup (tp_vmt q1) name = Some (demoted pg)" "tp_inflight q1 name = None" "ring_room (Suc 0) (tp_dma q1) g"
    using page quiet one by (simp_all add: q1_def)
  have dem: "pg_tier (demoted pg) = Dram" "pg_element_size (demoted pg) \<noteq> 0" "vec_get (pg_dram_chunks (demoted pg)) g = Some b"
    using hot(4) b by (simp_all add: demoted_def)
  from first_access [OF h ready q1(1) dem(1,2) q1(2) dem(3) le(2) q1(3)] obtain x q2 where
    acc: "access pf name g q1 = (Ok x, q2)"
    and got: "slice (dev (tp_world q2)) x (dc_size_bytes b) = slice (tp_host q1) (dc_host_ptr b) (dc_size_bytes b)" by blast
  have host: "slice (tp_host q1) (dc_host_ptr b) (dc_size_bytes b) = ?bs"
    using slice_mem_write [of ?bs "dc_size_bytes b" "dc_host_ptr b"] fit by (simp add: q1_def)
  have "(?n, ck_device_ptr c) \<in> set (tp_vram_free q1 ! g)" using len by (simp add: q1_def)
  moreover have "demote pf name p = (Ok (), q1)" using run by (simp add: q1_def)
  ultimately show ?thesis using acc got host q1(1) fit(1) by metis
qed

section \<open>A full ring\<close>




section \<open>Witnesses\<close>

definition shard0 :: dram_chunk where
  "shard0 = \<lparr>dc_numa_node = 1, dc_host_ptr = 65536, dc_size_bytes = 4, dc_cuda_registered = False\<rparr>"

definition block0 :: chunk where
  "block0 = \<lparr>ck_gpu_ordinal = 0, ck_device_ptr = 512, ck_size_bytes = 4, ck_num_elements = 4\<rparr>"

definition hot_page :: page where
  "hot_page = (sharded_page ''h'' [4] 1 Vram Resident [shard0])\<lparr>pg_vram_chunks := [block0]\<rparr>"

definition warm_page :: page where
  "warm_page = sharded_page ''v'' [4] 1 Dram Warm [shard0]"


definition warm_sample :: "dma_engine \<Rightarrow> (u64 \<Rightarrow> byte) tiered_pool" where
  "warm_sample e = (pool_sample (\<lambda>a. if a = 512 then 9 else 0))\<lparr>tp_dma := e,
     tp_vmt := filed ''v'' warm_page ''v'' (filed ''h'' hot_page ''h'' (vmt_new 2 2))\<rparr>"

lemma warm_sample_facts:
  "gpu_ready 0 (warm_sample e)"
  "vmt_lookup (tp_vmt (warm_sample e)) ''h'' = Some hot_page"
  "vmt_lookup (tp_vmt (warm_sample e)) ''v'' = Some warm_page"
  "index_of (tp_cluster (warm_sample e)) (ck_gpu_ordinal block0) = Some 0"
  "tp_inflight (warm_sample e) n = None"
  "tp_dma (warm_sample e) = e"
  by (simp_all add: gpu_ready_def warm_sample_def pool_sample_def two_gpus_def two_streams_def index_of_def
      ordinal_index_def block0_def)

lemma sample_pages:
  "pg_tier hot_page = Vram" "\<not> pg_pinned hot_page" "pg_vram_chunks hot_page = [block0]"
  "pg_element_size hot_page \<noteq> 0" "vec_get (pg_dram_chunks hot_page) 0 = Some shard0"
  "pg_tier warm_page = Dram" "vec_get (pg_dram_chunks warm_page) 0 = Some shard0"
  "ck_size_bytes block0 = dc_size_bytes shard0" "ck_size_bytes block0 \<le> 2 ^ 30"
  "ck_device_ptr block0 \<noteq> 0" "ck_device_ptr block0 + ck_size_bytes block0 \<le> W64"
  by (simp_all add: hot_page_def warm_page_def vec_get_def block0_def shard0_def W64_def)
    (simp_all add: sharded_page_def fresh_page_def page_new_def)

theorem demote_access_roundtrip_witness:
  "\<exists>q1 x q2. demote memory_machine ''h'' (warm_sample (dma_new 2)) = (Ok (), q1)
    \<and> slice (tp_host q1) 65536 4 = [9, 0, 0, 0]
    \<and> access memory_machine ''h'' 0 q1 = (Ok x, q2) \<and> slice (tp_world q2) x 4 = [9, 0, 0, 0]"
proof -
  let ?p = "warm_sample (dma_new 2)"
  have room: "ring_room 2 (tp_dma ?p) 0"
    using ring_new_inv by (simp add: warm_sample_facts ring_room_def dma_new_def)
      (simp add: ring_new_def Let_def ring_tail_def ring_head_def completion_new_def)
  have bytes: "slice (tp_world ?p) (ck_device_ptr block0) 4 = [9, 0, 0, 0]"
    by (simp add: slice_def block0_def warm_sample_def pool_sample_def upt_rec)
  have four: "dc_host_ptr shard0 = 65536" "dc_size_bytes shard0 = 4" "ck_size_bytes block0 = 4"
    by (simp_all add: shard0_def block0_def)
  from demote_access_roundtrip [OF memory_machine_healthy warm_sample_facts(1,2) sample_pages(1-4)
      warm_sample_facts(4) sample_pages(5,8,9,10,11) room warm_sample_facts(5)]
  show ?thesis unfolding bytes four by blast
qed


end
