(* ===== verification/Engine.thy ===== *)
theory Engine
  imports Tiered
begin

text \<open>
  \<open>src/allocator.rs\<close>: the allocator of device memory over the retained contexts, and the first
  generation engine, which keeps a table of pages whose bytes live on the GPUs of the cluster. The
  engine's state is its fields with the platform's world.
\<close>

section \<open>The allocator\<close>

definition SINGLE_GPU_LIMIT :: usize where
  "SINGLE_GPU_LIMIT = 128 * 1024 * 1024"

record unified_allocator =
  ua_contexts :: context_registry
  ua_ordinals :: "int list"
  ua_infos :: "gpu_info list"

definition ua_new :: "'w platform \<Rightarrow> int list \<Rightarrow> gpu_info list \<Rightarrow> ('w, unified_allocator) op" where
  "ua_new pf ordinals infos =
     bindM (registry_new pf ordinals) (\<lambda>contexts.
     retM \<lparr>ua_contexts = contexts, ua_ordinals = ordinals, ua_infos = infos\<rparr>)"

definition set_device :: "'w platform \<Rightarrow> unified_allocator \<Rightarrow> usize \<Rightarrow> ('w, unit) op" where
  "set_device pf a idx = registry_bind pf (ua_contexts a) idx"

definition ua_context :: "unified_allocator \<Rightarrow> usize \<Rightarrow> ('w, u64) op" where
  "ua_context a idx = bindM (registry_get (ua_contexts a) idx) (\<lambda>c. retM (pc_ctx c))"

definition free_vram :: "'w platform \<Rightarrow> unified_allocator \<Rightarrow> usize \<Rightarrow> ('w, usize) op" where
  "free_vram pf a idx =
     bindM (set_device pf a idx) (\<lambda>_.
     bindM (cu_get ''cuMemGetInfo_v2'' (pf_mem_get_info pf)) (\<lambda>(free, tot).
     retM free))"

definition alloc_device :: "'w platform \<Rightarrow> unified_allocator \<Rightarrow> usize \<Rightarrow> usize \<Rightarrow> ('w, u64) op" where
  "alloc_device pf a idx bytes =
     bindM (set_device pf a idx) (\<lambda>_. cu_get ''cuMemAlloc_v2'' (pf_mem_alloc pf bytes))"

definition free_device :: "'w platform \<Rightarrow> unified_allocator \<Rightarrow> usize \<Rightarrow> u64 \<Rightarrow> ('w, unit) op" where
  "free_device pf a idx ptr =
     bindM (set_device pf a idx) (\<lambda>_. cu_call ''cuMemFree_v2'' (pf_mem_free pf ptr))"

definition peer_copy_async :: "'w platform \<Rightarrow> unified_allocator \<Rightarrow> usize \<Rightarrow> u64 \<Rightarrow> usize \<Rightarrow> u64 \<Rightarrow>
    usize \<Rightarrow> u64 \<Rightarrow> ('w, unit) op" where
  "peer_copy_async pf a src_gpu src_ptr dst_gpu dst_ptr bytes stream =
     bindM (set_device pf a dst_gpu) (\<lambda>_.
     bindM (ua_context a dst_gpu) (\<lambda>dst_ctx.
     bindM (ua_context a src_gpu) (\<lambda>src_ctx.
     cu_call ''cuMemcpyPeerAsync'' (pf_peer_async pf dst_ptr dst_ctx src_ptr src_ctx bytes stream))))"

section \<open>The engine\<close>

record 'w engine =
  en_cluster :: gpu_cluster
  en_vmt :: vmt
  en_allocator :: unified_allocator
  en_streams :: stream_pool
  en_world :: 'w

record engine_builder =
  eb_ordinals :: "int list"

definition builder_new :: engine_builder where
  "builder_new = \<lparr>eb_ordinals = []\<rparr>"

definition builder_gpus :: "int list \<Rightarrow> engine_builder \<Rightarrow> engine_builder" where
  "builder_gpus ordinals b = b\<lparr>eb_ordinals := ordinals\<rparr>"

text \<open>A cluster owns the contexts its peer matrix retained.\<close>

definition drop_cluster :: "'w platform \<Rightarrow> gpu_cluster \<Rightarrow> 'w \<Rightarrow> 'w" where
  "drop_cluster pf c = drop_contexts pf (pm_primary_ctxs (gc_peer_matrix c))"

definition drop_allocator :: "'w platform \<Rightarrow> unified_allocator \<Rightarrow> 'w \<Rightarrow> 'w" where
  "drop_allocator pf a = drop_contexts pf (cr_contexts (ua_contexts a))"

text \<open>\<open>fin\<close> runs when \<open>m\<close> does not succeed: a local dropped as an error propagates.\<close>

definition on_failure :: "('s \<Rightarrow> 's) \<Rightarrow> ('s, 'a) op \<Rightarrow> ('s, 'a) op" where
  "on_failure fin m s = (case m s of
      (Ok x, t) \<Rightarrow> (Ok x, t)
    | (Err e, t) \<Rightarrow> (Err e, fin t)
    | (Panic, t) \<Rightarrow> (Panic, fin t))"

text \<open>The parts of \<open>VugvaEngine::new\<close> after the discovery; the cluster is a local of it.\<close>

definition engine_parts ::
  "'w platform \<Rightarrow> gpu_cluster \<Rightarrow> ('w, unified_allocator \<times> stream_pool) op" where
  "engine_parts pf cluster =
     bindM (ua_new pf (gc_ordinals cluster) (gc_infos cluster)) (\<lambda>allocator.
     bindM (on_failure (drop_allocator pf allocator) (stream_pool_new pf (ua_contexts allocator))) (\<lambda>streams.
     retM (allocator, streams)))"

definition engine_new :: "'w platform \<Rightarrow> int list \<Rightarrow> 'w \<Rightarrow> 'w engine outcome \<times> 'w" where
  "engine_new pf ords w =
     (if ords = [] then (Err (InvalidGpu 0), w)
      else case cluster_discover pf ords w of
        (Ok cluster0, w1) \<Rightarrow>
          (case enable_peer_access pf (w1, cluster0) of
             (Ok _, (w2, cluster)) \<Rightarrow>
               (case on_failure (drop_cluster pf cluster) (engine_parts pf cluster) w2 of
                  (Ok (allocator, streams), w3) \<Rightarrow>
                    (Ok \<lparr>en_cluster = cluster,
                         en_vmt = vmt_new (length ords) (nt_node_count (gc_numa cluster)),
                         en_allocator = allocator, en_streams = streams, en_world = w3\<rparr>, w3)
                | (Err e, w3) \<Rightarrow> (Err e, w3)
                | (Panic, w3) \<Rightarrow> (Panic, w3))
           | (Err e, (w2, cluster)) \<Rightarrow> (Err e, drop_cluster pf cluster w2)
           | (Panic, (w2, cluster)) \<Rightarrow> (Panic, drop_cluster pf cluster w2))
      | (Err e, w1) \<Rightarrow> (Err e, w1)
      | (Panic, w1) \<Rightarrow> (Panic, w1))"

definition builder_build :: "'w platform \<Rightarrow> engine_builder \<Rightarrow> 'w \<Rightarrow> 'w engine outcome \<times> 'w" where
  "builder_build pf b = engine_new pf (eb_ordinals b)"

text \<open>The fields are dropped in the order of their declaration: the streams last.\<close>

definition engine_drop :: "'w platform \<Rightarrow> 'w engine \<Rightarrow> 'w" where
  "engine_drop pf e =
     drop_stream_pool pf (en_streams e)
       (drop_allocator pf (en_allocator e) (drop_cluster pf (en_cluster e) (en_world e)))"

section \<open>Allocation\<close>

definition worldE :: "(unified_allocator \<Rightarrow> ('w, 'a) op) \<Rightarrow> ('w engine, 'a) op" where
  "worldE m e = (case m (en_allocator e) (en_world e) of (r, w) \<Rightarrow> (r, e\<lparr>en_world := w\<rparr>))"

definition vmtE :: "(vmt, 'a) op \<Rightarrow> ('w engine, 'a) op" where
  "vmtE m e = (case m (en_vmt e) of (r, v) \<Rightarrow> (r, e\<lparr>en_vmt := v\<rparr>))"

definition modifyE :: "string \<Rightarrow> (page \<Rightarrow> page) \<Rightarrow> ('w engine, unit) op" where
  "modifyE name f e =
     bindM (unwrapM (vmt_lookup (en_vmt e) name)) (\<lambda>_.
       modM (\<lambda>e. e\<lparr>en_vmt := vmt_modify name f (en_vmt e)\<rparr>)) e"

text \<open>Does the request fit on GPU 0? A driver that cannot tell sends it to the cluster.\<close>

definition fits_first_gpu :: "'w platform \<Rightarrow> usize \<Rightarrow> ('w engine, bool) op" where
  "fits_first_gpu pf total_bytes =
     (if total_bytes \<le> SINGLE_GPU_LIMIT
      then bindM (catchM (worldE (\<lambda>a. free_vram pf a 0)))
             (\<lambda>r. retM (case r of Inr free \<Rightarrow> total_bytes \<le> free | Inl _ \<Rightarrow> False))
      else retM False)"

definition add_vram_chunk :: "'w platform \<Rightarrow> string \<Rightarrow> usize \<Rightarrow> usize \<Rightarrow> usize \<Rightarrow> ('w engine, unit) op" where
  "add_vram_chunk pf name element_size i bytes =
     bindM (worldE (\<lambda>a. alloc_device pf a i bytes)) (\<lambda>ptr.
     bindM (getM (\<lambda>e. gc_ordinals (en_cluster e))) (\<lambda>ords.
     bindM (unwrapM (vec_get ords i)) (\<lambda>ord.
     bindM (if element_size = 0 then panicM else retM ()) (\<lambda>_.
     modifyE name (\<lambda>pg. pg\<lparr>pg_vram_chunks := pg_vram_chunks pg @
       [\<lparr>ck_gpu_ordinal = ord, ck_device_ptr = ptr, ck_size_bytes = bytes,
         ck_num_elements = bytes div element_size\<rparr>]\<rparr>)))))"

text \<open>The bytes of shard \<open>i\<close>: the last GPU gets the remainder.\<close>

definition gpu_shard :: "usize \<Rightarrow> nat \<Rightarrow> nat \<Rightarrow> usize" where
  "gpu_shard total_bytes num_gpus i =
     (let chunk_bytes = total_bytes div num_gpus in
      if i = num_gpus - 1 then usub total_bytes (umul chunk_bytes (num_gpus - 1)) else chunk_bytes)"

definition engine_allocate :: "'w platform \<Rightarrow> string \<Rightarrow> usize list \<Rightarrow> usize \<Rightarrow> ('w engine, string) op" where
  "engine_allocate pf name shape element_size =
     (let total_bytes = umul (uproduct shape) element_size in
      bindM (getM (\<lambda>e. length (gc_ordinals (en_cluster e)))) (\<lambda>num_gpus.
      bindM (if num_gpus = 0 then panicM else retM ()) (\<lambda>_.
      bindM (fits_first_gpu pf total_bytes) (\<lambda>single.
      bindM (vmtE (vmt_allocate name shape element_size)) (\<lambda>alloc_name.
      bindM (forM (if single then [(0, total_bytes)]
                   else map (\<lambda>i. (i, gpu_shard total_bytes num_gpus i)) [0 ..< num_gpus])
              (\<lambda>(i, bytes). add_vram_chunk pf alloc_name element_size i bytes)) (\<lambda>_.
      bindM (modifyE alloc_name (\<lambda>pg. pg\<lparr>pg_state := Resident, pg_tier := Vram\<rparr>)) (\<lambda>_.
      retM alloc_name)))))))"

section \<open>Access and release\<close>

definition en_stream :: "usize \<Rightarrow> ('w engine, cuda_stream) op" where
  "en_stream gpu_idx e = unwrapM (vec_get (st_compute (en_streams e)) gpu_idx) e"

definition resident_chunk :: "page \<Rightarrow> int \<Rightarrow> chunk option" where
  "resident_chunk pg ordinal =
     (if pg_state pg = Resident then find (\<lambda>c. ck_gpu_ordinal c = ordinal) (pg_vram_chunks pg) else None)"

definition engine_fetch :: "'w platform \<Rightarrow> string \<Rightarrow> usize \<Rightarrow> int \<Rightarrow> chunk \<Rightarrow> ('w engine, u64) op" where
  "engine_fetch pf name gpu_idx ordinal src =
     (let bytes = ck_size_bytes src in
      bindM (\<lambda>e. unwrapM (index_of (en_cluster e) (ck_gpu_ordinal src)) e) (\<lambda>src_idx.
      bindM (worldE (\<lambda>a. alloc_device pf a gpu_idx bytes)) (\<lambda>dst_ptr.
      bindM (en_stream gpu_idx) (\<lambda>stream.
      bindM (worldE (\<lambda>a. peer_copy_async pf a src_idx (ck_device_ptr src) gpu_idx dst_ptr bytes
                (cs_inner stream))) (\<lambda>_.
      bindM (worldE (\<lambda>a. stream_synchronize pf stream)) (\<lambda>_.
      bindM (\<lambda>e. unwrapM (vmt_lookup (en_vmt e) name) e) (\<lambda>page.
      bindM (if pg_element_size page = 0 then panicM else retM ()) (\<lambda>_.
      bindM (modifyE name (\<lambda>pg. pg\<lparr>pg_vram_chunks := pg_vram_chunks pg @
        [\<lparr>ck_gpu_ordinal = ordinal, ck_device_ptr = dst_ptr, ck_size_bytes = bytes,
          ck_num_elements = bytes div pg_element_size page\<rparr>]\<rparr>)) (\<lambda>_.
      retM dst_ptr)))))))))"

definition engine_access :: "'w platform \<Rightarrow> string \<Rightarrow> int \<Rightarrow> ('w engine, u64) op" where
  "engine_access pf name ordinal e =
     bindM (ok_or (index_of (en_cluster e) ordinal) (InvalidGpu (i32_as_usize ordinal))) (\<lambda>gpu_idx.
     bindM (ok_or (vmt_lookup (en_vmt e) name) (UnknownAllocation name)) (\<lambda>page.
     case resident_chunk page ordinal of
       Some c \<Rightarrow> retM (ck_device_ptr c)
     | None \<Rightarrow>
         bindM (ok_or (vec_get (pg_vram_chunks page) 0) (UnknownAllocation name)) (\<lambda>src.
         if ck_gpu_ordinal src = ordinal then retM (ck_device_ptr src)
         else engine_fetch pf name gpu_idx ordinal src))) e"

definition free_chunk :: "'w platform \<Rightarrow> chunk \<Rightarrow> ('w engine, unit) op" where
  "free_chunk pf c e =
     (case index_of (en_cluster e) (ck_gpu_ordinal c) of
        Some gpu_idx \<Rightarrow> worldE (\<lambda>a. free_device pf a gpu_idx (ck_device_ptr c)) e
      | None \<Rightarrow> (Err (InvalidGpu (i32_as_usize (ck_gpu_ordinal c))), e))"

text \<open>The sweep over the chunks, with \<open>first_err\<close>; \<open>get_or_insert\<close> keeps the first error.\<close>

fun free_chunks ::
  "'w platform \<Rightarrow> chunk list \<Rightarrow> vugva_error option \<Rightarrow> ('w engine, vugva_error option) op" where
  "free_chunks pf [] first_err = retM first_err"
| "free_chunks pf (c # cs) first_err =
     bindM (catchM (free_chunk pf c)) (\<lambda>result.
     free_chunks pf cs (case first_err of
        Some e \<Rightarrow> Some e
      | None \<Rightarrow> (case result of Inl e \<Rightarrow> Some e | Inr _ \<Rightarrow> None)))"

definition engine_free :: "'w platform \<Rightarrow> string \<Rightarrow> ('w engine, unit) op" where
  "engine_free pf name e =
     (case vmt_remove name (en_vmt e) of
        (None, v) \<Rightarrow> (Err (UnknownAllocation name), e\<lparr>en_vmt := v\<rparr>)
      | (Some page, v) \<Rightarrow>
          bindM (free_chunks pf (pg_vram_chunks page) None) (\<lambda>first_err.
          case first_err of Some x \<Rightarrow> errM x | None \<Rightarrow> retM ()) (e\<lparr>en_vmt := v\<rparr>))"


section \<open>The references an engine holds\<close>

text \<open>
  The calls of the discovery and of the streams do not touch the reference counts. With
  \<open>counts_references\<close> this says what every call of the engine's life does to them.
\<close>

definition leaves_references :: "'w platform \<Rightarrow> ('w \<Rightarrow> int \<Rightarrow> nat) \<Rightarrow> bool" where
  "leaves_references pf refs \<longleftrightarrow> (\<forall>w.
     refs (snd (pf_numactl pf w)) = refs w
   \<and> (\<forall>d. refs (snd (pf_device_name pf d w)) = refs w \<and> refs (snd (pf_total_mem pf d w)) = refs w
        \<and> refs (snd (pf_capability pf d w)) = refs w)
   \<and> (\<forall>k d. refs (snd (pf_attribute pf k d w)) = refs w)
   \<and> (\<forall>path. refs (snd (pf_read_file pf path w)) = refs w)
   \<and> (\<forall>a b. refs (snd (snd (pf_can_access_peer pf a b w))) = refs w)
   \<and> (\<forall>c. refs (snd (pf_enable_peer pf c w)) = refs w \<and> refs (snd (pf_ctx_push pf c w)) = refs w)
   \<and> refs (snd (pf_ctx_pop pf w)) = refs w
   \<and> refs (snd (snd (pf_mem_get_info pf w))) = refs w
   \<and> refs (snd (snd (pf_stream_priority_range pf w))) = refs w
   \<and> refs (snd (snd (pf_stream_create pf w))) = refs w
   \<and> (\<forall>p. refs (snd (snd (pf_stream_create_prio pf p w))) = refs w)
   \<and> (\<forall>s. refs (snd (pf_stream_destroy pf s w)) = refs w))"

lemma keeps_cu:
  "(\<And>w. I w \<Longrightarrow> I (snd (f w))) \<Longrightarrow> keeps I (cu_call name f)"
  "(\<And>w. I w \<Longrightarrow> I (snd (snd (g w)))) \<Longrightarrow> keeps I (cu_get name g)"
  "(\<And>w. I w \<Longrightarrow> I (snd (h w))) \<Longrightarrow> keeps I (askM h)"
  by (simp_all add: keeps_def cu_call_def cu_get_def askM_def case_prod_beta)

lemma keeps_mapM: "(\<And>x. x \<in> set xs \<Longrightarrow> keeps I (f x)) \<Longrightarrow> keeps I (mapM f xs)"
proof (induction xs)
  case (Cons x xs)
  then show ?case unfolding mapM.simps by (intro keeps_bindM keeps_pure) simp_all
qed (simp add: keeps_pure)

lemma keeps_scoped:
  assumes "keeps I acquire" "keeps I body" "\<And>w. I w \<Longrightarrow> I (release w)"
  shows "keeps I (scoped acquire release body)"
proof (rule keepsI)
  fix w assume "I w"
  with assms(1) have "I (snd (acquire w))" by (simp add: keeps_def)
  with assms(2,3) show "I (snd (scoped acquire release body w))"
    by (auto simp: scoped_def keeps_def split: prod.split outcome.split) (metis snd_conv)?
qed


lemma leaves_calls:
  assumes "leaves_references pf refs"
  shows "refs (snd (pf_numactl pf w)) = refs w" "refs (snd (pf_device_name pf d w)) = refs w"
    "refs (snd (pf_total_mem pf d w)) = refs w" "refs (snd (pf_capability pf d w)) = refs w"
    "refs (snd (pf_attribute pf k d w)) = refs w" "refs (snd (pf_read_file pf path w)) = refs w"
    "refs (snd (snd (pf_can_access_peer pf a b w))) = refs w" "refs (snd (pf_enable_peer pf c w)) = refs w"
    "refs (snd (pf_ctx_push pf c w)) = refs w" "refs (snd (pf_ctx_pop pf w)) = refs w"
    "refs (snd (snd (pf_mem_get_info pf w))) = refs w"
    "refs (snd (snd (pf_stream_priority_range pf w))) = refs w"
    "refs (snd (snd (pf_stream_create pf w))) = refs w"
    "refs (snd (snd (pf_stream_create_prio pf p w))) = refs w"
    "refs (snd (pf_stream_destroy pf s w)) = refs w"
  using assms [unfolded leaves_references_def, rule_format, of w] by simp_all

lemma read_numa_keeps:
  assumes "leaves_references pf refs"
  shows "refs (snd (read_numa_from pf paths w)) = refs w"
proof (induction paths arbitrary: w)
  case (Cons path paths)
  have "refs (snd (pf_read_file pf path w)) = refs w" by (rule leaves_calls [OF assms])
  with Cons.IH show ?case by (auto split: prod.split option.split)
qed simp

lemma probe_keeps:
  assumes counts: "counts_references pf refs" and leaves: "leaves_references pf refs"
  shows "keeps (\<lambda>w. refs w = r0) (probe_free_vram pf d)"
proof (rule keepsI)
  fix w assume r0: "refs w = r0"
  obtain r w1 where ret: "pc_retain pf d w = (r, w1)" by force
  show "refs (snd (probe_free_vram pf d w)) = r0"
  proof (cases r)
    case (Ok c)
    note one = pc_retain_refs(1) [OF counts ret [unfolded Ok]]
    define body where "body = scoped (pc_enter pf c) (guard_drop pf)
        (bindM (cu_get ''cuMemGetInfo_v2'' (pf_mem_get_info pf)) (\<lambda>(free, tot). retM free))"
    have "keeps (\<lambda>w. refs w = refs w1) body"
      unfolding body_def pc_enter_def
      by (intro keeps_scoped keeps_bindM keeps_cu)
        (auto simp: leaves_calls [OF leaves] guard_drop_def cu_ignore_def intro: keeps_pure)
    then have "refs (snd (body w1)) = refs w1" by (simp add: keeps_def)
    then have "refs (drop_contexts pf [c] (snd (body w1))) = (\<lambda>x. refs w1 x - count_list (map pc_device [c]) x)"
      using drop_contexts_refs [OF counts, of "[c]" "snd (body w1)"] one by simp
    then show ?thesis
      using ret Ok one r0 by (auto simp: probe_free_vram_def drop_contexts_def body_def split: prod.split)
  qed (use pc_retain_refs(2,3) [OF counts] ret r0 in \<open>auto simp: probe_free_vram_def\<close>)
qed

lemma discover_keeps:
  fixes pf :: "'w platform"
  assumes counts: "counts_references pf refs" and leaves: "leaves_references pf refs"
  shows "keeps (\<lambda>w. refs w = r0) (cluster_discover pf ords)"
proof -
  note calls = leaves_calls [OF leaves]
  have init: "refs (snd (pf_init pf w)) = refs w" for w
    using counts by (auto simp: counts_references_def) (metis prod.collapse)
  have "keeps (\<lambda>w. refs w = r0) (from_numactl pf)"
    using calls(1) by (simp add: keeps_def from_numactl_def case_prod_beta split: sum.split)
  moreover have "keeps (\<lambda>w. refs w = r0) (discover_gpu pf d)" for d
    unfolding discover_gpu_def read_numa_node_def
    by (intro keeps_bindM keeps_cu probe_keeps [OF counts leaves] keeps_pure)
      (simp_all add: calls read_numa_keeps [OF leaves])
  moreover have "keeps (\<lambda>w. refs w = r0) (peer_discover pf ords)"
  proof (rule keepsI)
    fix w assume "refs w = r0"
    let ?n = "length ords"
    define q where "q = forM (List.product [0 ..< ?n] [0 ..< ?n]) (peer_probe pf ords) (w, replicate ?n (replicate ?n False))"
    have "refs (fst (snd q)) = r0"
      unfolding q_def
    proof (rule forM_inv [where I = "\<lambda>s. refs (fst s) = r0"])
      fix x :: "nat \<times> nat" and s :: "'w \<times> bool list list" assume "refs (fst s) = r0"
      moreover obtain i j where "x = (i, j)" by force
      moreover obtain u m where "s = (u, m)" by force
      moreover obtain rc b u' where "pf_can_access_peer pf (ords ! i) (ords ! j) u = (rc, b, u')"
        by (metis prod_cases3)
      ultimately show "refs (fst (snd (peer_probe pf ords x s))) = r0"
        using calls(7) [of "ords ! i" "ords ! j" u]
        by (simp add: peer_probe_def cu_get_def check_cu_def)
    qed (simp add: \<open>refs w = r0\<close>)
    then show "refs (snd (peer_discover pf ords w)) = r0"
      by (auto simp: peer_discover_def Let_def q_def [symmetric] split: prod.split outcome.split)
  qed
  ultimately show ?thesis
    unfolding cluster_discover_def
    by (intro keeps_bindM keeps_cu keeps_mapM keeps_catchM keeps_pure) (simp_all add: init)
qed


text \<open>The references the contexts \<open>cs\<close> hold, on top of \<open>r0\<close>.\<close>

definition holding :: "(int \<Rightarrow> nat) \<Rightarrow> primary_context list \<Rightarrow> int \<Rightarrow> nat" where
  "holding r0 cs d = r0 d + count_list (map pc_device cs) d"

lemma drop_holding:
  assumes "counts_references pf refs" and "refs w = holding r0 cs"
  shows "refs (drop_contexts pf cs w) = r0"
  using drop_contexts_refs [OF assms(1), of cs w] assms(2) by (simp add: holding_def fun_eq_iff)

lemma retain_holding:
  assumes counts: "counts_references pf refs" and run: "retain_all pf ords [] w = (r, w')" and "refs w = r0"
  shows "(\<forall>cs. r = Ok cs \<longrightarrow> map pc_device cs = ords \<and> refs w' = holding r0 cs)"
    "(\<forall>cs. r \<noteq> Ok cs) \<longrightarrow> refs w' = r0"
  using retain_all_refs [OF counts run] assms(3) by (cases r; simp add: holding_def fun_eq_iff)+

lemma enable_row_keeps:
  fixes pf :: "'w platform"
  assumes leaves: "leaves_references pf refs"
  shows "keeps (\<lambda>s. refs (fst s) = r1 \<and> pm_primary_ctxs (snd s) = cs) (enable_row pf n i)"
proof -
  let ?I = "\<lambda>s :: 'w \<times> peer_matrix. refs (fst s) = r1 \<and> pm_primary_ctxs (snd s) = cs"
  note calls = leaves_calls [OF leaves]
  have pair: "keeps ?I (enable_pair pf i j)" for j
    by (auto simp: keeps_def enable_pair_def calls(8) case_prod_beta split: option.split)
  show ?thesis
  proof (rule keepsI)
    fix s assume s: "?I s"
    obtain w m where wm: "s = (w, m)" by force
    show "?I (snd (enable_row pf n i s))"
    proof (cases "vec_get (pm_primary_ctxs m) i")
      case (Some c)
      have "keeps ?I (on_world (pc_enter pf c))"
        by (simp add: keeps_def on_world_def pc_enter_def cu_call_def calls(9) case_prod_beta)
      then have "keeps ?I (scoped (on_world (pc_enter pf c)) (\<lambda>(w, m). (guard_drop pf w, m))
          (forM [0 ..< n] (enable_pair pf i)))"
        by (intro keeps_scoped keeps_forM pair) (auto simp: guard_drop_def cu_ignore_def calls(10))
      with s Some show ?thesis by (auto simp: enable_row_def wm keeps_def)
    qed (use s in \<open>simp add: enable_row_def wm\<close>)
  qed
qed

lemma enable_holding:
  assumes counts: "counts_references pf refs" and leaves: "leaves_references pf refs"
    and r0: "refs w = r0" and none: "pm_primary_ctxs (gc_peer_matrix c) = []"
    and run: "enable_peer_access pf (w, c) = (r, (w', c'))"
  shows "refs w' = holding r0 (pm_primary_ctxs (gc_peer_matrix c')) \<and> gc_ordinals c' = gc_ordinals c
    \<and> gc_infos c' = gc_infos c
    \<and> (\<forall>u. r = Ok u \<longrightarrow> map pc_device (pm_primary_ctxs (gc_peer_matrix c')) = gc_ordinals c)"
proof -
  define m ords where "m = gc_peer_matrix c" and "ords = gc_ordinals c"
  obtain q w1 where ret: "retain_all pf ords [] w = (q, w1)" by force
  note held = retain_holding [OF counts ret r0]
  obtain m' where all: "enable_all pf ords (w, m) = (r, (w', m'))" and c': "c' = c\<lparr>gc_peer_matrix := m'\<rparr>"
    using run by (auto simp: enable_peer_access_def m_def ords_def split: prod.splits)
  have "refs w' = holding r0 (pm_primary_ctxs m') \<and> (\<forall>u. r = Ok u \<longrightarrow> map pc_device (pm_primary_ctxs m') = ords)"
  proof (cases q)
    case (Ok cs)
    then have "enable_all pf ords (w, m)
        = forM [0 ..< length ords] (enable_row pf (length ords)) (w1, m\<lparr>pm_primary_ctxs := cs\<rparr>)"
      using ret none by (simp add: enable_all_def m_def)
    moreover have "keeps (\<lambda>s. refs (fst s) = refs w1 \<and> pm_primary_ctxs (snd s) = cs)
        (forM [0 ..< length ords] (enable_row pf (length ords)))"
      by (intro keeps_forM enable_row_keeps [OF leaves])
    ultimately have "refs w' = refs w1 \<and> pm_primary_ctxs m' = cs"
      using keepsD [of _ _ "(w1, m\<lparr>pm_primary_ctxs := cs\<rparr>)" r "(w', m')"] all by fastforce
    with held Ok show ?thesis by auto
  qed (use ret none all held in \<open>auto simp: enable_all_def m_def holding_def fun_eq_iff\<close>)
  then show ?thesis by (simp add: c' ords_def)
qed

lemma drop_streams_keep:
  assumes leaves: "leaves_references pf refs"
  shows "refs (drop_streams pf ss w) = refs w"
  unfolding drop_streams_def
  by (induction ss arbitrary: w) (auto simp: stream_drop_def cu_ignore_def leaves_calls [OF leaves])

lemma streams_keep:
  fixes pf :: "'w platform"
  assumes leaves: "leaves_references pf refs"
  shows "refs (snd (stream_pool_new pf contexts w)) = refs w"
proof -
  note calls = leaves_calls [OF leaves]
  let ?I = "\<lambda>s :: 'w \<times> cuda_stream list \<times> cuda_stream list. refs (fst s) = refs w"
  have world: "keeps (\<lambda>u. refs u = refs w) (stream_new pf)"
    "keeps (\<lambda>u. refs u = refs w) (bindM (highest_priority pf) (stream_with_priority pf))"
    unfolding stream_new_def highest_priority_def stream_with_priority_def
    by (intro keeps_bindM keeps_cu; auto simp: calls intro: keeps_pure keeps_bindM keeps_cu)+
  have "keeps ?I (pool_round pf)"
  proof (rule keepsI)
    fix s assume "?I s"
    obtain u a b where s: "s = (u, a, b)" by (metis prod_cases3)
    obtain r1 u1 where one: "stream_new pf u = (r1, u1)" by force
    obtain r2 u2 where two: "bindM (highest_priority pf) (stream_with_priority pf) u1 = (r2, u2)" by force
    have "refs u1 = refs w" using keepsD [OF world(1) _ one] \<open>?I s\<close> s by simp
    moreover from this have "refs u2 = refs w" using keepsD [OF world(2) _ two] by simp
    ultimately show "?I (snd (pool_round pf s))"
      by (simp add: pool_round_def s one two split: outcome.split)
  qed
  moreover have "keeps ?I (on_world (registry_enter pf contexts i))" for i
  proof -
    have "keeps (\<lambda>u. refs u = refs w) (registry_enter pf contexts i)"
      unfolding registry_enter_def registry_get_def pc_enter_def
      by (intro keeps_bindM keeps_pure keeps_cu) (simp add: calls)
    then show ?thesis by (auto simp: keeps_def on_world_def case_prod_beta)
  qed
  ultimately have "keeps ?I (forM [0 ..< registry_len contexts] (pool_gpu pf contexts))"
    unfolding pool_gpu_def
    by (intro keeps_forM keeps_scoped) (auto simp: guard_drop_def cu_ignore_def calls(10))
  then have "?I (snd (forM [0 ..< registry_len contexts] (pool_gpu pf contexts) (w, [], [])))"
    by (simp add: keeps_def)
  then show ?thesis
    by (auto simp: stream_pool_new_def Let_def drop_streams_keep [OF leaves] split: prod.split outcome.split)
qed


lemma parts_holding:
  assumes counts: "counts_references pf refs" and leaves: "leaves_references pf refs"
    and held: "refs w = holding r0 (pm_primary_ctxs (gc_peer_matrix c))"
    and run: "on_failure (drop_cluster pf c) (engine_parts pf c) w = (r, w')"
  shows "\<forall>a st. r = Ok (a, st) \<longrightarrow> map pc_device (cr_contexts (ua_contexts a)) = gc_ordinals c
      \<and> refs w' = holding (refs w) (cr_contexts (ua_contexts a))"
    "(\<forall>x. r \<noteq> Ok x) \<longrightarrow> refs w' = r0"
proof -
  obtain q w1 where ret: "retain_all pf (gc_ordinals c) [] w = (q, w1)" by force
  note h = retain_holding [OF counts ret refl]
  have cleared: "refs (drop_cluster pf c u) = r0" if "refs u = refs w" for u
    unfolding drop_cluster_def using drop_holding [OF counts] that held by metis
  have "(\<forall>a st. r = Ok (a, st) \<longrightarrow> map pc_device (cr_contexts (ua_contexts a)) = gc_ordinals c
      \<and> refs w' = holding (refs w) (cr_contexts (ua_contexts a))) \<and> ((\<forall>x. r \<noteq> Ok x) \<longrightarrow> refs w' = r0)"
  proof (cases q)
    case (Ok cs)
    define a where "a = \<lparr>ua_contexts = \<lparr>cr_contexts = cs\<rparr>, ua_ordinals = gc_ordinals c, ua_infos = gc_infos c\<rparr>"
    have new: "ua_new pf (gc_ordinals c) (gc_infos c) w = (Ok a, w1)"
      using ret Ok by (simp add: ua_new_def registry_new_def bindM_def retM_def a_def)
    obtain r2 w2 where st: "stream_pool_new pf (ua_contexts a) w1 = (r2, w2)" by force
    have w2: "refs w2 = holding (refs w) cs" using streams_keep [OF leaves] st h Ok by (metis snd_conv)
    then have "refs (drop_allocator pf a w2) = refs w"
      unfolding drop_allocator_def a_def using drop_holding [OF counts] by simp
    then show ?thesis
      using run new st w2 h Ok cleared
      by (cases r2) (auto simp: on_failure_def engine_parts_def bindM_def retM_def a_def)
  next
    case (Err x)
    then have "ua_new pf (gc_ordinals c) (gc_infos c) w = (Err x, w1)"
      using ret by (simp add: ua_new_def registry_new_def bindM_def)
    then show ?thesis using run h Err cleared by (auto simp: on_failure_def engine_parts_def bindM_def)
  next
    case Panic
    then have "ua_new pf (gc_ordinals c) (gc_infos c) w = (Panic, w1)"
      using ret by (simp add: ua_new_def registry_new_def bindM_def)
    then show ?thesis using run h Panic cleared by (auto simp: on_failure_def engine_parts_def bindM_def)
  qed
  then show "\<forall>a st. r = Ok (a, st) \<longrightarrow> map pc_device (cr_contexts (ua_contexts a)) = gc_ordinals c
      \<and> refs w' = holding (refs w) (cr_contexts (ua_contexts a))"
    "(\<forall>x. r \<noteq> Ok x) \<longrightarrow> refs w' = r0" by simp_all
qed

text \<open>
  Property C23. An engine holds two references to the primary context of every listed device, one in
  its peer matrix and one in its allocator, and gives all of them back: when construction fails at
  any call the counts are as before, and so they are after the engine is dropped. The drop gives
  them back before it destroys the streams, so when the engine held the last references its streams
  outlive their contexts.
\<close>

theorem engine_references:
  assumes counts: "counts_references pf refs" and leaves: "leaves_references pf refs"
    and run: "engine_new pf ords w = (r, w')"
  shows "(\<forall>e. r = Ok e \<longrightarrow> refs w' = (\<lambda>d. refs w d + 2 * count_list ords d) \<and> en_world e = w'
       \<and> refs (engine_drop pf e) = refs w
       \<and> (\<exists>w2. refs w2 = refs w \<and> engine_drop pf e = drop_stream_pool pf (en_streams e) w2))
    \<and> ((\<forall>e. r \<noteq> Ok e) \<longrightarrow> refs w' = refs w)"
proof (cases "ords = []")
  case False
  obtain q w1 where disc: "cluster_discover pf ords w = (q, w1)" by force
  have w1: "refs w1 = refs w" using keepsD [OF discover_keeps [OF counts leaves] _ disc] by blast
  show ?thesis
  proof (cases q)
    case (Ok c0)
    note c0 = discovered_cluster [OF disc [unfolded Ok]]
    obtain r2 w2 c where en: "enable_peer_access pf (w1, c0) = (r2, (w2, c))" by (metis prod_cases3)
    note held = enable_holding [OF counts leaves w1 c0(1) en]
    have cleared: "refs (drop_cluster pf c u) = refs w"
      if "refs u = holding (refs w) (pm_primary_ctxs (gc_peer_matrix c))" for u
      unfolding drop_cluster_def by (rule drop_holding [OF counts that])
    show ?thesis
    proof (cases r2)
      case ok2: (Ok u2)
      obtain r3 w3 where parts: "on_failure (drop_cluster pf c) (engine_parts pf c) w2 = (r3, w3)" by force
      note p = parts_holding [OF counts leaves conjunct1 [OF held] parts]
      show ?thesis
      proof (cases r3)
        case ok3: (Ok as)
        obtain a st where as: "as = (a, st)" by force
        note p3 = p(1) [rule_format, OF ok3 [unfolded as]]
        define e where "e = \<lparr>en_cluster = c, en_vmt = vmt_new (length ords) (nt_node_count (gc_numa c)),
            en_allocator = a, en_streams = st, en_world = w3\<rparr>"
        have r: "r = Ok e" "w' = w3" using run False disc Ok en ok2 parts ok3 as by (auto simp: engine_new_def e_def)
        define w4 where "w4 = drop_cluster pf c w3"
        define w5 where "w5 = drop_allocator pf a w4"
        let ?pm = "pm_primary_ctxs (gc_peer_matrix c)" and ?cs = "cr_contexts (ua_contexts a)"
        have "map pc_device ?pm = ords" "map pc_device ?cs = ords" using held p3 ok2 c0(2) by auto
        moreover have w3: "refs w3 = holding (holding (refs w) ?cs) ?pm"
          using p3 held by (simp add: holding_def fun_eq_iff)
        ultimately have "refs w3 = (\<lambda>d. refs w d + 2 * count_list ords d)" by (simp add: holding_def fun_eq_iff)
        moreover have "refs w4 = holding (refs w) ?cs"
          unfolding w4_def drop_cluster_def by (rule drop_holding [OF counts w3])
        then have w5: "refs w5 = refs w"
          unfolding w5_def drop_allocator_def by (rule drop_holding [OF counts])
        moreover have "engine_drop pf e = drop_stream_pool pf (en_streams e) w5"
          by (simp add: engine_drop_def e_def w5_def w4_def)
        moreover from this w5 have "refs (engine_drop pf e) = refs w"
          by (simp add: drop_stream_pool_def drop_streams_keep [OF leaves])
        ultimately show ?thesis using r by (auto simp: e_def)
      qed (use run False disc Ok en ok2 parts p held in \<open>auto simp: engine_new_def\<close>)
    qed (use run False disc Ok en held cleared in \<open>auto simp: engine_new_def\<close>)
  qed (use run False disc w1 in \<open>auto simp: engine_new_def\<close>)
qed (use run in \<open>auto simp: engine_new_def\<close>)


lemma counting_calls:
  "pf_init counting_platform w = (0, w)"
  "pf_ctx_retain counting_platform d w = (if d = 9 then (101, 0, w) else (0, 7, w(d := w d + 1)))"
  "pf_ctx_release counting_platform d w = (0, w(d := w d - 1))"
  "pf_ctx_push counting_platform c w = (0, w)" "pf_ctx_pop counting_platform w = (0, w)"
  "pf_stream_priority_range counting_platform w = (0, (0, -1), w)"
  "pf_mem_get_info counting_platform w = (0, (0, 0), w)"
  "pf_stream_create counting_platform w = (0, 1, w)" "pf_stream_create_prio counting_platform p w = (0, 1, w)"
  "pf_stream_destroy counting_platform s w = (0, w)"
  "pf_device_name counting_platform d w = ([], w)" "pf_total_mem counting_platform d w = (0, w)"
  "pf_capability counting_platform d w = ((0, 0), w)" "pf_attribute counting_platform k d w = (0, w)"
  "pf_can_access_peer counting_platform a b w = (0, 1, w)" "pf_enable_peer counting_platform c w = (0, w)"
  "pf_numactl counting_platform w = (Inl (OsError 2), w)" "pf_read_file counting_platform f w = (None, w)"
  by (simp_all add: counting_platform_def idle_platform_def)

lemma counting_leaves: "leaves_references counting_platform (\<lambda>w. w)"
  by (simp add: leaves_references_def counting_calls)

text \<open>An engine over GPU 0 is built and takes two references; one over the GPUs 0 and 9 is refused.\<close>

lemma counting_engine:
  "\<exists>e w. engine_new counting_platform [0] (\<lambda>_. 0) = (Ok e, w)"
proof -
  have numa: "read_numa_node counting_platform d w = (None, w)" for d w
    by (simp add: read_numa_node_def numa_paths_def counting_calls)
  have "\<exists>i. discover_gpu counting_platform 0 (\<lambda>_. 0) = (Ok i, \<lambda>_. 0)"
    by (simp add: discover_gpu_def bindM_def askM_def numa retM_def probe_free_vram_def scoped_def
        pc_retain_def pc_enter_def guard_drop_def pc_drop_def cu_call_def cu_get_def check_cu_def cu_ignore_def
        counting_calls)
  then obtain c where disc: "cluster_discover counting_platform [0] (\<lambda>_. 0) = (Ok c, \<lambda>_. 0)"
    and pm: "gc_peer_matrix c = \<lparr>pm_can_access = [[True]], pm_enabled = [[False]], pm_num_gpus = 1, pm_primary_ctxs = []\<rparr>"
    and ords: "gc_ordinals c = [0]"
    by (auto simp: cluster_discover_def bindM_def cu_call_def check_cu_def counting_calls catchM_def from_numactl_def
        retM_def peer_discover_def peer_probe_def set_cell_def)
  define c' where "c' = c\<lparr>gc_peer_matrix := (gc_peer_matrix c)\<lparr>pm_primary_ctxs := [\<lparr>pc_device = 0, pc_ctx = 7\<rparr>]\<rparr>\<rparr>"
  have "enable_peer_access counting_platform (\<lambda>_. 0, c) = (Ok (), (\<lambda>_. 0)(0 := 1), c')"
    by (simp add: enable_peer_access_def ords pm enable_all_def pc_retain_def bindM_def cu_call_def cu_get_def
        check_cu_def counting_calls retM_def enable_row_def enable_pair_def vec_get_def scoped_def on_world_def
        pc_enter_def guard_drop_def cu_ignore_def c'_def)
  moreover have "\<exists>x w. engine_parts counting_platform c' ((\<lambda>_. 0)(0 := 1)) = (Ok x, w)"
    by (simp add: engine_parts_def c'_def ords ua_new_def registry_new_def bindM_def pc_retain_def cu_call_def
        cu_get_def check_cu_def counting_calls retM_def on_failure_def stream_pool_new_def registry_len_def
        pool_gpu_def scoped_def on_world_def registry_enter_def registry_get_def vec_get_def ok_or_def pc_enter_def
        pool_round_def stream_new_def highest_priority_def stream_with_priority_def)
  ultimately show ?thesis
    using disc by (auto simp: engine_new_def on_failure_def)
qed

theorem engine_references_witness:
  "\<exists>e w. engine_new counting_platform [0] (\<lambda>_. 0) = (Ok e, w) \<and> w 0 = 2 \<and> engine_drop counting_platform e 0 = 0"
proof -
  obtain e w where run: "engine_new counting_platform [0] (\<lambda>_. 0) = (Ok e, w)" using counting_engine by blast
  from engine_references [OF counting_platform_docs counting_leaves run] run show ?thesis by simp
qed

section \<open>Device memory\<close>

text \<open>
  What is documented of device memory: a retained context can be made current; an allocation
  returns an address no live allocation has and belongs to the current context; an allocation of the
  current context can be freed. Nothing is said of freeing in another context.
\<close>

definition device_heap ::
  "'w platform \<Rightarrow> u64 set \<Rightarrow> ('w \<Rightarrow> u64) \<Rightarrow> ('w \<Rightarrow> u64 \<Rightarrow> u64 option) \<Rightarrow> bool" where
  "device_heap pf ctxs cur heap \<longleftrightarrow>
     (\<forall>c \<in> ctxs. \<forall>w. \<exists>w'. pf_ctx_set_current pf c w = (0, w') \<and> cur w' = c \<and> heap w' = heap w)
   \<and> (\<forall>w. heap (snd (snd (pf_mem_get_info pf w))) = heap w)
   \<and> (\<forall>n w rc p w'. pf_mem_alloc pf n w = (rc, p, w') \<longrightarrow>
        (if rc = 0 then heap w p = None \<and> heap w' = (heap w)(p \<mapsto> cur w) else heap w' = heap w))
   \<and> (\<forall>p w. heap w p = Some (cur w) \<longrightarrow>
        (\<exists>w'. pf_mem_free pf p w = (0, w') \<and> heap w' = (heap w)(p := None)))"

text \<open>The engine's contexts match its cluster, and each is known to the driver.\<close>

definition engine_ok :: "u64 set \<Rightarrow> 'w engine \<Rightarrow> bool" where
  "engine_ok ctxs e \<longleftrightarrow>
     (let ords = gc_ordinals (en_cluster e); cs = cr_contexts (ua_contexts (en_allocator e)) in
      distinct ords \<and> ords \<noteq> [] \<and> gc_ordinal_map (en_cluster e) = ordinal_index ords
    \<and> length cs = length ords \<and> pc_ctx ` set cs \<subseteq> ctxs)"

definition gpu_ctx :: "'w engine \<Rightarrow> usize \<Rightarrow> u64" where
  "gpu_ctx e i = pc_ctx (cr_contexts (ua_contexts (en_allocator e)) ! i)"

lemma gpu_shards_sum:
  assumes "0 < n" "t < W64"
  shows "sum_list (map (gpu_shard t n) [0 ..< n]) = t"
proof -
  obtain k where n: "n = Suc k" using assms(1) by (cases n) auto
  let ?q = "t div n"
  have le: "?q * k \<le> t" using div_times_less_eq_dividend [of t n] by (simp add: n)
  have "map (gpu_shard t n) [0 ..< k] = replicate k ?q"
    by (rule nth_equalityI) (simp_all add: gpu_shard_def n Let_def)
  moreover have "gpu_shard t n k = t - ?q * k"
    using le assms(2) by (simp add: gpu_shard_def n Let_def umul_exact usub_exact)
  ultimately show ?thesis using le by (simp add: n sum_list_replicate)
qed


lemma device_heapD:
  assumes "device_heap pf ctxs cur heap"
  shows "c \<in> ctxs \<Longrightarrow> \<exists>w'. pf_ctx_set_current pf c w = (0, w') \<and> cur w' = c \<and> heap w' = heap w"
    and "heap (snd (snd (pf_mem_get_info pf w))) = heap w"
    and "pf_mem_alloc pf n w = (rc, p, w') \<Longrightarrow>
        (if rc = 0 then heap w p = None \<and> heap w' = (heap w)(p \<mapsto> cur w) else heap w' = heap w)"
    and "heap w p = Some (cur w) \<Longrightarrow> \<exists>w'. pf_mem_free pf p w = (0, w') \<and> heap w' = (heap w)(p := None)"
  using assms unfolding device_heap_def by blast+

lemma set_device_ok:
  assumes dev: "device_heap pf ctxs cur heap" and ok: "engine_ok ctxs e"
    and i: "i < length (gc_ordinals (en_cluster e))"
  shows "\<exists>w'. set_device pf (en_allocator e) i w = (Ok (), w') \<and> cur w' = gpu_ctx e i \<and> heap w' = heap w"
proof -
  let ?cs = "cr_contexts (ua_contexts (en_allocator e))"
  have get: "vec_get ?cs i = Some (?cs ! i)" and "pc_ctx (?cs ! i) \<in> ctxs"
    using ok i by (auto simp: engine_ok_def Let_def vec_get_def)
  from device_heapD(1) [OF dev this(2)] obtain w'
    where "pf_ctx_set_current pf (pc_ctx (?cs ! i)) w = (0, w')" "cur w' = pc_ctx (?cs ! i)" "heap w' = heap w"
    by blast
  with get show ?thesis
    by (simp add: set_device_def registry_bind_def registry_get_def bindM_def ok_or_def retM_def pc_bind_def
        cu_call_def check_cu_def gpu_ctx_def)
qed

lemma fits_first_gpu_ok:
  assumes dev: "device_heap pf ctxs cur heap" and ok: "engine_ok ctxs e"
  shows "\<exists>b w'. fits_first_gpu pf t e = (Ok b, e\<lparr>en_world := w'\<rparr>) \<and> heap w' = heap (en_world e)
    \<and> (b \<longrightarrow> t \<le> SINGLE_GPU_LIMIT)"
proof (cases "t \<le> SINGLE_GPU_LIMIT")
  case True
  have "0 < length (gc_ordinals (en_cluster e))" using ok by (simp add: engine_ok_def Let_def)
  from set_device_ok [OF dev ok this] obtain w1
    where set: "set_device pf (en_allocator e) 0 (en_world e) = (Ok (), w1)" and w1: "heap w1 = heap (en_world e)"
    by blast
  obtain rc free tot w2 where info: "pf_mem_get_info pf w1 = (rc, (free, tot), w2)"
    by (metis prod.collapse)
  have w2: "heap w2 = heap (en_world e)" using device_heapD(2) [OF dev, of w1] info w1 by simp
  have "fits_first_gpu pf t e = (Ok (rc = 0 \<and> t \<le> free), e\<lparr>en_world := w2\<rparr>)"
    using True set info
    by (simp add: fits_first_gpu_def bindM_def catchM_def worldE_def free_vram_def cu_get_def check_cu_def retM_def)
  with True w2 show ?thesis by auto
next
  case False
  then show ?thesis by (intro exI [of _ False] exI [of _ "en_world e"]) (simp add: fits_first_gpu_def retM_def)
qed

definition add_vram :: "chunk list \<Rightarrow> page \<Rightarrow> page" where
  "add_vram cs pg = pg\<lparr>pg_vram_chunks := pg_vram_chunks pg @ cs\<rparr>"

lemma add_vram_eta: "add_vram cs = (\<lambda>pg. pg\<lparr>pg_vram_chunks := pg_vram_chunks pg @ cs\<rparr>)"
  by (simp add: add_vram_def fun_eq_iff)

lemma add_vram_simps [simp]: "add_vram [] = (\<lambda>pg. pg)" "add_vram ds \<circ> add_vram cs = add_vram (cs @ ds)"
  by (simp_all add: add_vram_def fun_eq_iff)

lemma add_vram_chunk_run:
  assumes dev: "device_heap pf ctxs cur heap" and ok: "engine_ok ctxs e" and es: "0 < es"
    and i: "i < length (gc_ordinals (en_cluster e))" and pg: "vmt_lookup (en_vmt e) n \<noteq> None"
  obtains (granted) p w' c where "heap (en_world e) p = None" "heap w' = (heap (en_world e))(p \<mapsto> gpu_ctx e i)"
      "c = \<lparr>ck_gpu_ordinal = gc_ordinals (en_cluster e) ! i, ck_device_ptr = p, ck_size_bytes = bytes,
         ck_num_elements = bytes div es\<rparr>"
      "add_vram_chunk pf n es i bytes e
        = (Ok (), e\<lparr>en_world := w', en_vmt := vmt_modify n (add_vram [c]) (en_vmt e)\<rparr>)"
  | (refused) x w' where "heap w' = heap (en_world e)" "add_vram_chunk pf n es i bytes e = (Err x, e\<lparr>en_world := w'\<rparr>)"
proof -
  from set_device_ok [OF dev ok i] obtain w1
    where set: "set_device pf (en_allocator e) i (en_world e) = (Ok (), w1)"
      and w1: "cur w1 = gpu_ctx e i" "heap w1 = heap (en_world e)" by blast
  obtain rc p w2 where al: "pf_mem_alloc pf bytes w1 = (rc, p, w2)" by (metis prod_cases3)
  note al' = device_heapD(3) [OF dev al]
  have run: "worldE (\<lambda>a. alloc_device pf a i bytes) e
      = (if rc = 0 then Ok p else Err (CudaError ''cuMemAlloc_v2'' rc), e\<lparr>en_world := w2\<rparr>)"
    using set al by (simp add: worldE_def alloc_device_def bindM_def cu_get_def check_cu_def)
  show thesis
  proof (cases "rc = 0")
    case True
    have "vec_get (gc_ordinals (en_cluster e)) i = Some (gc_ordinals (en_cluster e) ! i)"
      using i by (simp add: vec_get_def)
    moreover obtain pg where "vmt_lookup (en_vmt e) n = Some pg" using pg by blast
    ultimately have "add_vram_chunk pf n es i bytes e = (Ok (), e\<lparr>en_world := w2,
        en_vmt := vmt_modify n (add_vram [\<lparr>ck_gpu_ordinal = gc_ordinals (en_cluster e) ! i, ck_device_ptr = p,
          ck_size_bytes = bytes, ck_num_elements = bytes div es\<rparr>]) (en_vmt e)\<rparr>)"
      using run True es
      by (simp add: add_vram_chunk_def bindM_def getM_def unwrapM_def retM_def modifyE_def modM_def add_vram_eta)
    with True al' w1 show thesis by (intro granted) auto
  next
    case False
    with run al' w1 show thesis by (intro refused [of w2]) (auto simp: add_vram_chunk_def bindM_def)
  qed
qed


text \<open>The chunks \<open>cs\<close> are the allocations \<open>h'\<close> has on top of \<open>h\<close>, each on the GPU it names.\<close>

definition issued :: "'w engine \<Rightarrow> chunk list \<Rightarrow> (u64 \<Rightarrow> u64 option) \<Rightarrow> (u64 \<Rightarrow> u64 option) \<Rightarrow> bool" where
  "issued e cs h h' \<longleftrightarrow>
     distinct (map ck_device_ptr cs)
   \<and> (\<forall>c \<in> set cs. h (ck_device_ptr c) = None
        \<and> (\<exists>i < length (gc_ordinals (en_cluster e)). ck_gpu_ordinal c = gc_ordinals (en_cluster e) ! i
             \<and> h' (ck_device_ptr c) = Some (gpu_ctx e i)))
   \<and> (\<forall>x. x \<notin> ck_device_ptr ` set cs \<longrightarrow> h' x = h x)"

lemma issued_Nil: "issued e [] h h"
  by (simp add: issued_def)

lemma issued_Cons:
  assumes "issued e cs h1 h'" and "h (ck_device_ptr c) = None" and "h1 = h(ck_device_ptr c \<mapsto> gpu_ctx e i)"
    and "i < length (gc_ordinals (en_cluster e))" and "ck_gpu_ordinal c = gc_ordinals (en_cluster e) ! i"
  shows "issued e (c # cs) h h'"
proof -
  have new: "ck_device_ptr c \<notin> ck_device_ptr ` set cs"
    using assms(1,3) by (auto simp: issued_def)
  then have "h' (ck_device_ptr c) = Some (gpu_ctx e i)" using assms(1,3) by (simp add: issued_def)
  moreover have "h (ck_device_ptr d) = None" if "d \<in> set cs" for d
    using assms(1,3) that by (auto simp: issued_def split: if_splits)
  moreover have "h' x = h x" if "x \<notin> ck_device_ptr ` set (c # cs)" for x
    using assms(1,3) that by (simp add: issued_def)
  ultimately show ?thesis using assms(1,2,4,5) new by (auto simp: issued_def)
qed

lemma engine_ok_frame [simp]:
  "engine_ok ctxs (e\<lparr>en_world := w, en_vmt := v\<rparr>) = engine_ok ctxs e"
  "engine_ok ctxs (e\<lparr>en_world := w\<rparr>) = engine_ok ctxs e" "engine_ok ctxs (e\<lparr>en_vmt := v\<rparr>) = engine_ok ctxs e"
  "gpu_ctx (e\<lparr>en_world := w, en_vmt := v\<rparr>) = gpu_ctx e"
  "gpu_ctx (e\<lparr>en_world := w\<rparr>) = gpu_ctx e" "gpu_ctx (e\<lparr>en_vmt := v\<rparr>) = gpu_ctx e"
  "issued (e\<lparr>en_world := w, en_vmt := v\<rparr>) = issued e" "issued (e\<lparr>en_vmt := v\<rparr>) = issued e"
  "issued (e\<lparr>en_world := w\<rparr>) = issued e"
  by (simp_all add: engine_ok_def gpu_ctx_def issued_def fun_eq_iff)

lemma add_chunks_run:
  assumes dev: "device_heap pf ctxs cur heap" and es: "0 < es"
  shows "engine_ok ctxs e \<Longrightarrow> \<forall>(i, b) \<in> set iss. i < length (gc_ordinals (en_cluster e)) \<Longrightarrow>
    vmt_lookup (en_vmt e) n \<noteq> None \<Longrightarrow>
    \<exists>r cs w'. forM iss (\<lambda>(i, b). add_vram_chunk pf n es i b) e
        = (r, e\<lparr>en_world := w', en_vmt := vmt_modify n (add_vram cs) (en_vmt e)\<rparr>)
      \<and> issued e cs (heap (en_world e)) (heap w')
      \<and> (r = Ok () \<and> map (\<lambda>c. (ck_gpu_ordinal c, ck_size_bytes c)) cs
             = map (\<lambda>(i, b). (gc_ordinals (en_cluster e) ! i, b)) iss \<or> (\<exists>x. r = Err x))"
proof (induction iss arbitrary: e)
  case Nil
  then show ?case
    by (intro exI [of _ "Ok ()"] exI [of _ "[]"] exI [of _ "en_world e"])
      (simp add: retM_def issued_Nil vmt_modify_id)
next
  case (Cons ib iss)
  obtain i b where ib: "ib = (i, b)" by force
  then have i: "i < length (gc_ordinals (en_cluster e))" using Cons.prems(2) by simp
  show ?case
  proof (cases rule: add_vram_chunk_run [OF dev Cons.prems(1) es i Cons.prems(3), where bytes = b, case_names granted refused])
    case (granted p w1 c)
    define e1 where "e1 = e\<lparr>en_world := w1, en_vmt := vmt_modify n (add_vram [c]) (en_vmt e)\<rparr>"
    have "engine_ok ctxs e1" "vmt_lookup (en_vmt e1) n \<noteq> None"
      "\<forall>(i, b) \<in> set iss. i < length (gc_ordinals (en_cluster e1))"
      using Cons.prems by (auto simp: e1_def)
    from Cons.IH [OF this(1,3,2)] obtain r cs w' where
      run: "forM iss (\<lambda>(i, b). add_vram_chunk pf n es i b) e1
        = (r, e1\<lparr>en_world := w', en_vmt := vmt_modify n (add_vram cs) (en_vmt e1)\<rparr>)"
      and iss: "issued e cs (heap w1) (heap w')"
      and res: "r = Ok () \<and> map (\<lambda>c. (ck_gpu_ordinal c, ck_size_bytes c)) cs
          = map (\<lambda>(i, b). (gc_ordinals (en_cluster e) ! i, b)) iss \<or> (\<exists>x. r = Err x)"
      by (auto simp: e1_def)
    have "issued e (c # cs) (heap (en_world e)) (heap w')"
      by (rule issued_Cons [OF iss _ _ i]) (use granted in auto)
    moreover have "forM (ib # iss) (\<lambda>(i, b). add_vram_chunk pf n es i b) e
        = (r, e\<lparr>en_world := w', en_vmt := vmt_modify n (add_vram (c # cs)) (en_vmt e)\<rparr>)"
      using granted(4) run by (simp add: ib bindM_def e1_def [symmetric]) (simp add: e1_def vmt_modify_twice)
    ultimately show ?thesis
      using res granted(3) ib by (intro exI [of _ r] exI [of _ "c # cs"] exI [of _ w']) auto
  next
    case (refused x w1)
    then show ?thesis
      by (intro exI [of _ "Err x"] exI [of _ "[]"] exI [of _ w1])
        (simp add: ib bindM_def issued_Nil vmt_modify_id)
  qed
qed

lemma free_chunks_run:
  assumes dev: "device_heap pf ctxs cur heap"
  shows "engine_ok ctxs e \<Longrightarrow> distinct (map ck_device_ptr cs) \<Longrightarrow>
    \<forall>c \<in> set cs. \<exists>i < length (gc_ordinals (en_cluster e)). ck_gpu_ordinal c = gc_ordinals (en_cluster e) ! i
       \<and> heap (en_world e) (ck_device_ptr c) = Some (gpu_ctx e i) \<Longrightarrow>
    \<exists>w'. free_chunks pf cs None e = (Ok None, e\<lparr>en_world := w'\<rparr>)
      \<and> heap w' = (\<lambda>x. if x \<in> ck_device_ptr ` set cs then None else heap (en_world e) x)"
proof (induction cs arbitrary: e)
  case Nil
  then show ?case by (intro exI [of _ "en_world e"]) (simp add: retM_def)
next
  case (Cons c cs)
  then obtain i where i: "i < length (gc_ordinals (en_cluster e))" "ck_gpu_ordinal c = gc_ordinals (en_cluster e) ! i"
      "heap (en_world e) (ck_device_ptr c) = Some (gpu_ctx e i)" by auto
  from set_device_ok [OF dev Cons.prems(1) i(1)] obtain w1
    where set: "set_device pf (en_allocator e) i (en_world e) = (Ok (), w1)"
      and w1: "cur w1 = gpu_ctx e i" "heap w1 = heap (en_world e)" by blast
  from device_heapD(4) [OF dev, of w1 "ck_device_ptr c"] i(3) w1 obtain w2
    where fr: "pf_mem_free pf (ck_device_ptr c) w1 = (0, w2)"
      and w2: "heap w2 = (heap (en_world e))(ck_device_ptr c := None)" by auto
  have "index_of (en_cluster e) (ck_gpu_ordinal c) = Some i"
    using Cons.prems(1) i by (simp add: index_of_def engine_ok_def Let_def ordinal_index_nth)
  then have one: "free_chunk pf c e = (Ok (), e\<lparr>en_world := w2\<rparr>)"
    using set fr by (simp add: free_chunk_def worldE_def free_device_def bindM_def cu_call_def check_cu_def)
  have "\<exists>w'. free_chunks pf cs None (e\<lparr>en_world := w2\<rparr>) = (Ok None, e\<lparr>en_world := w2\<rparr>\<lparr>en_world := w'\<rparr>)
      \<and> heap w' = (\<lambda>x. if x \<in> ck_device_ptr ` set cs then None else heap (en_world (e\<lparr>en_world := w2\<rparr>)) x)"
    by (rule Cons.IH) (use Cons.prems w2 in \<open>auto simp: rev_image_eqI\<close>)
  then obtain w' where rest: "free_chunks pf cs None (e\<lparr>en_world := w2\<rparr>) = (Ok None, e\<lparr>en_world := w'\<rparr>)"
      and w': "heap w' = (\<lambda>x. if x \<in> ck_device_ptr ` set cs then None else heap w2 x)" by (auto cong del: if_weak_cong)
  have "heap w' = (\<lambda>x. if x \<in> ck_device_ptr ` set (c # cs) then None else heap (en_world e) x)"
    by (auto simp: w' w2 fun_eq_iff)
  with one rest show ?case by (auto simp: bindM_def catchM_def)
qed


lemma modifyE_run: "vmt_lookup (en_vmt e) n = Some pg \<Longrightarrow> modifyE n f e = (Ok (), e\<lparr>en_vmt := vmt_modify n f (en_vmt e)\<rparr>)"
  by (simp add: modifyE_def bindM_def unwrapM_def retM_def modM_def)

lemma engine_free_issued:
  assumes dev: "device_heap pf ctxs cur heap" and ok: "engine_ok ctxs e"
    and cs: "issued e cs (heap (en_world e)) (heap w)"
    and look: "vmt_lookup v n = Some pg" "pg_vram_chunks pg = cs"
      "\<forall>m. m \<noteq> n \<longrightarrow> vmt_lookup v m = vmt_lookup (en_vmt e) m"
  shows "\<exists>e2. engine_free pf n (e\<lparr>en_world := w, en_vmt := v\<rparr>) = (Ok (), e2)
      \<and> heap (en_world e2) = heap (en_world e) \<and> vmt_lookup (en_vmt e2) n = None
      \<and> (\<forall>m. m \<noteq> n \<longrightarrow> vmt_lookup (en_vmt e2) m = vmt_lookup (en_vmt e) m)"
proof -
  define v' where "v' = snd (vmt_remove n v)"
  define e' where "e' = e\<lparr>en_world := w, en_vmt := v'\<rparr>"
  have rem: "vmt_remove n v = (Some pg, v')" using look(1) by (simp add: v'_def vmt_remove_def vmt_lookup_def)
  have "engine_ok ctxs e'" "distinct (map ck_device_ptr cs)"
    "\<forall>c \<in> set cs. \<exists>i < length (gc_ordinals (en_cluster e')). ck_gpu_ordinal c = gc_ordinals (en_cluster e') ! i
       \<and> heap (en_world e') (ck_device_ptr c) = Some (gpu_ctx e' i)"
    using ok cs by (simp_all add: e'_def issued_def)
  from free_chunks_run [OF dev this] obtain w'
    where run: "free_chunks pf cs None e' = (Ok None, e'\<lparr>en_world := w'\<rparr>)"
      and w': "heap w' = (\<lambda>x. if x \<in> ck_device_ptr ` set cs then None else heap w x)"
    by (auto simp: e'_def cong del: if_weak_cong)
  have "heap w' = heap (en_world e)"
    unfolding w' using cs by (auto simp: issued_def fun_eq_iff)
  moreover have "engine_free pf n (e\<lparr>en_world := w, en_vmt := v\<rparr>) = (Ok (), e'\<lparr>en_world := w'\<rparr>)"
    using rem run look(2) by (simp add: engine_free_def bindM_def retM_def e'_def)
  moreover have "vmt_lookup v' m = (if m = n then None else vmt_lookup v m)" for m
    by (simp add: v'_def)
  ultimately show ?thesis using look(3) by (simp add: e'_def)
qed

text \<open>
  What an allocation does: it files the page, and the chunks of the GPUs it got through are those of the page, all of them
  when it succeeds.
\<close>

lemma engine_allocate_loop:
  fixes e :: "'w engine" and shape :: "usize list"
  assumes dev: "device_heap pf ctxs cur heap" and ok: "engine_ok ctxs e" and es: "0 < es"
    and n: "n = (if name = [] then auto_name (uadd (vt_next_id (en_vmt e)) 1) else name)"
  defines "ords \<equiv> gc_ordinals (en_cluster e)" and "full \<equiv> umul (uproduct shape) es"
  shows "\<exists>b v cs q w. (b \<longrightarrow> full \<le> SINGLE_GPU_LIMIT)
    \<and> vt_pages v = (vt_pages (en_vmt e))(n \<mapsto> fresh_page n shape es)
    \<and> engine_allocate pf name shape es e =
        bindM (\<lambda>_. (q, e\<lparr>en_world := w, en_vmt := vmt_modify n (add_vram cs) v\<rparr>))
          (\<lambda>_. bindM (modifyE n (\<lambda>pg. pg\<lparr>pg_state := Resident, pg_tier := Vram\<rparr>)) (\<lambda>_. retM n)) e
    \<and> issued e cs (heap (en_world e)) (heap w)
    \<and> (q = Ok () \<and> map ck_gpu_ordinal cs = (if b then [ords ! 0] else ords) \<and> sum_list (map ck_size_bytes cs) = full
       \<or> (\<exists>x. q = Err x))"
proof -
  have g: "0 < length ords" "ords \<noteq> []" using ok by (auto simp: engine_ok_def Let_def ords_def)
  have t: "full < W64" by (simp add: full_def umul_def)
  from fits_first_gpu_ok [OF dev ok, of full] obtain b w1
    where fit: "fits_first_gpu pf full e = (Ok b, e\<lparr>en_world := w1\<rparr>)" and w1: "heap w1 = heap (en_world e)"
      and b: "b \<longrightarrow> full \<le> SINGLE_GPU_LIMIT" by blast
  obtain v where vm: "vmt_allocate name shape es (en_vmt e) = (Ok n, v)"
    and v: "vt_pages v = (vt_pages (en_vmt e))(n \<mapsto> fresh_page n shape es)"
    by (simp add: vmt_allocate_run Let_def n)
  define iss where "iss = (if b then [(0, full)] else map (\<lambda>i. (i, gpu_shard full (length ords) i)) [0 ..< length ords])"
  define e' where "e' = e\<lparr>en_world := w1, en_vmt := v\<rparr>"
  have "engine_ok ctxs e'" "\<forall>(i, b) \<in> set iss. i < length (gc_ordinals (en_cluster e'))" "vmt_lookup (en_vmt e') n \<noteq> None"
    using ok g by (auto simp: e'_def iss_def vmt_lookup_def v ords_def)
  from add_chunks_run [OF dev es this] obtain q cs w2
    where loop: "forM iss (\<lambda>(i, b). add_vram_chunk pf n es i b) e'
        = (q, e\<lparr>en_world := w2, en_vmt := vmt_modify n (add_vram cs) v\<rparr>)"
      and cs: "issued e cs (heap (en_world e)) (heap w2)"
      and q: "q = Ok () \<and> map (\<lambda>c. (ck_gpu_ordinal c, ck_size_bytes c)) cs = map (\<lambda>(i, b). (ords ! i, b)) iss \<or> (\<exists>x. q = Err x)"
    by (auto simp: e'_def w1 ords_def)
  have "bindM (fits_first_gpu pf full) k e = k b (e\<lparr>en_world := w1\<rparr>)" for k :: "bool \<Rightarrow> ('w engine, string) op"
    by (simp add: bindM_def fit)
  moreover have "bindM (vmtE (vmt_allocate name shape es)) k (e\<lparr>en_world := w1\<rparr>) = k n e'" for k :: "string \<Rightarrow> ('w engine, string) op"
    using vm by (simp add: vmtE_def e'_def bindM_def)
  ultimately have start: "engine_allocate pf name shape es e = bindM (forM iss (\<lambda>(i, b). add_vram_chunk pf n es i b))
      (\<lambda>_. bindM (modifyE n (\<lambda>pg. pg\<lparr>pg_state := Resident, pg_tier := Vram\<rparr>)) (\<lambda>_. retM n)) e'"
    using g(1) by (simp add: engine_allocate_def Let_def bind_now iss_def ords_def full_def)
  have "map ck_gpu_ordinal cs = (if b then [ords ! 0] else ords) \<and> sum_list (map ck_size_bytes cs) = full"
    if "map (\<lambda>c. (ck_gpu_ordinal c, ck_size_bytes c)) cs = map (\<lambda>(i, b). (ords ! i, b)) iss"
  proof -
    from arg_cong [OF that, of "map fst"] arg_cong [OF that, of "map snd"]
    have "map ck_gpu_ordinal cs = map (\<lambda>(i, b). ords ! i) iss" "map ck_size_bytes cs = map snd iss"
      by (simp_all add: case_prod_beta comp_def)
    then show ?thesis using gpu_shards_sum [OF g(1) t] by (simp add: iss_def comp_def map_nth)
  qed
  with q have "q = Ok () \<and> map ck_gpu_ordinal cs = (if b then [ords ! 0] else ords) \<and> sum_list (map ck_size_bytes cs) = full
      \<or> (\<exists>x. q = Err x)" by blast
  then show ?thesis using b v cs start loop by (intro exI [of _ b] exI [of _ v] exI [of _ cs] exI [of _ q] exI [of _ w2]) (simp add: bindM_def)
qed

text \<open>
  Property C15. An allocation and its release are inverse on the devices, whatever the driver refuses
  in between. \<open>allocate\<close> never panics for a positive element size. When it succeeds, the page under
  the name it returns is resident in the VRAM tier, and its chunks, each owned by the context of the
  GPU it names, are either one chunk of the whole size on the first GPU, for at most 128 MiB, or one
  chunk per GPU in order, and add up to the size. When a GPU refuses its shard the error leaves the
  page filed with the shards granted before. In both cases \<open>free\<close> of that name returns every
  granted chunk in the context that owns it, and the devices hold what they held before.
\<close>

theorem engine_free_undoes_allocate:
  fixes e :: "'w engine"
  assumes dev: "device_heap pf ctxs cur heap" and ok: "engine_ok ctxs e" and es: "0 < es"
    and n: "n = (if name = [] then auto_name (uadd (vt_next_id (en_vmt e)) 1) else name)"
    and run: "engine_allocate pf name shape es e = (r, e1)"
  shows "(\<exists>e2. engine_free pf n e1 = (Ok (), e2) \<and> heap (en_world e2) = heap (en_world e)
       \<and> vmt_lookup (en_vmt e2) n = None \<and> (\<forall>m. m \<noteq> n \<longrightarrow> vmt_lookup (en_vmt e2) m = vmt_lookup (en_vmt e) m))
    \<and> (\<exists>pg. vmt_lookup (en_vmt e1) n = Some pg
       \<and> (r = Ok n \<and> pg_state pg = Resident \<and> pg_tier pg = Vram
            \<and> sum_list (map ck_size_bytes (pg_vram_chunks pg)) = (prod_list shape * es) mod W64
            \<and> (map ck_gpu_ordinal (pg_vram_chunks pg) = gc_ordinals (en_cluster e)
               \<or> map ck_gpu_ordinal (pg_vram_chunks pg) = [gc_ordinals (en_cluster e) ! 0]
                 \<and> (prod_list shape * es) mod W64 \<le> SINGLE_GPU_LIMIT)
          \<or> (\<exists>x. r = Err x) \<and> pg_state pg = Allocated))"
proof -
  let ?resident = "\<lambda>pg. pg\<lparr>pg_state := Resident, pg_tier := Vram\<rparr>" and ?ords = "gc_ordinals (en_cluster e)"
  obtain b v cs q w where b: "b \<longrightarrow> umul (uproduct shape) es \<le> SINGLE_GPU_LIMIT"
    and v: "vt_pages v = (vt_pages (en_vmt e))(n \<mapsto> fresh_page n shape es)"
    and alloc: "engine_allocate pf name shape es e =
        bindM (\<lambda>_. (q, e\<lparr>en_world := w, en_vmt := vmt_modify n (add_vram cs) v\<rparr>)) (\<lambda>_. bindM (modifyE n ?resident) (\<lambda>_. retM n)) e"
    and cs: "issued e cs (heap (en_world e)) (heap w)"
    and q: "q = Ok () \<and> map ck_gpu_ordinal cs = (if b then [?ords ! 0] else ?ords) \<and> sum_list (map ck_size_bytes cs) = umul (uproduct shape) es
       \<or> (\<exists>x. q = Err x)"
    using engine_allocate_loop [OF dev ok es n, of shape] by (elim exE conjE) (rule that)
  have look: "vmt_lookup (vmt_modify n f v) n = Some (f (fresh_page n shape es))"
    "m \<noteq> n \<Longrightarrow> vmt_lookup (vmt_modify n f v) m = vmt_lookup (en_vmt e) m" "vmt_lookup v n = Some (fresh_page n shape es)"
    "m \<noteq> n \<Longrightarrow> vmt_lookup v m = vmt_lookup (en_vmt e) m" for f m
    by (simp_all add: vmt_lookup_def vmt_modify_def v)
  have freed: "\<exists>e2. engine_free pf n (e\<lparr>en_world := w, en_vmt := vmt_modify n f v\<rparr>) = (Ok (), e2)
      \<and> heap (en_world e2) = heap (en_world e) \<and> vmt_lookup (en_vmt e2) n = None
      \<and> (\<forall>m. m \<noteq> n \<longrightarrow> vmt_lookup (en_vmt e2) m = vmt_lookup (en_vmt e) m)"
    if "pg_vram_chunks (f (fresh_page n shape es)) = cs" for f
    by (rule engine_free_issued [OF dev ok cs look(1) [of f] that]) (intro allI impI, rule look(2))
  have chunks: "pg_vram_chunks ((?resident \<circ> add_vram cs) (fresh_page n shape es)) = cs"
    "pg_vram_chunks (add_vram cs (fresh_page n shape es)) = cs" "pg_state (add_vram cs (fresh_page n shape es)) = Allocated"
    by (simp_all add: add_vram_def fresh_page_def page_new_def)
  from q show ?thesis
  proof (elim disjE conjE exE)
    assume Ok: "q = Ok ()"
    then have "r = Ok n" "e1 = e\<lparr>en_world := w, en_vmt := vmt_modify n (?resident \<circ> add_vram cs) v\<rparr>"
      using run alloc by (simp_all add: bindM_def retM_def modifyE_run [of _ n "add_vram cs (fresh_page n shape es)"] look vmt_modify_twice)
    moreover assume "map ck_gpu_ordinal cs = (if b then [?ords ! 0] else ?ords)" "sum_list (map ck_size_bytes cs) = umul (uproduct shape) es"
    ultimately show ?thesis using freed [of "?resident \<circ> add_vram cs"] look b chunks(1) by (cases b) (simp_all add: umul_def uproduct_mod mod_simps)
  next
    fix x assume "q = Err x"
    then have "r = Err x" "e1 = e\<lparr>en_world := w, en_vmt := vmt_modify n (add_vram cs) v\<rparr>" using run alloc by (simp_all add: bindM_def)
    with freed [of "add_vram cs"] look chunks show ?thesis by simp
  qed
qed


text \<open>Two GPUs with a heap each, addressed through the current context.\<close>

definition heap_machine :: "(u64 \<times> (u64 \<Rightarrow> u64 option) \<times> u64) platform" where
  "heap_machine = idle_platform\<lparr>
     pf_ctx_set_current := (\<lambda>c (cur, h, k). (0, (c, h, k))),
     pf_mem_alloc := (\<lambda>n (cur, h, k). if h k = None then (0, k, (cur, h(k \<mapsto> cur), k + 1)) else (2, 0, (cur, h, k))),
     pf_mem_free := (\<lambda>p (cur, h, k). if h p = Some cur then (0, (cur, h(p := None), k)) else (1, (cur, h, k)))\<rparr>"

lemma heap_machine_docs: "device_heap heap_machine ctxs fst (\<lambda>w. fst (snd w))"
  by (auto simp: device_heap_def heap_machine_def idle_platform_def split: if_splits)

definition two_gpu_engine :: "(u64 \<times> (u64 \<Rightarrow> u64 option) \<times> u64) engine" where
  "two_gpu_engine = \<lparr>
     en_cluster = sample_cluster\<lparr>gc_ordinals := [0, 3], gc_ordinal_map := ordinal_index [0, 3]\<rparr>,
     en_vmt = vmt_new 2 1,
     en_allocator = \<lparr>ua_contexts = two_contexts, ua_ordinals = [0, 3], ua_infos = []\<rparr>,
     en_streams = \<lparr>st_compute = [], st_prefetch = [], st_len = 2\<rparr>,
     en_world = (0, Map.empty, 4096)\<rparr>"

lemma two_gpu_engine_ok: "engine_ok {70, 71} two_gpu_engine"
  by (simp add: engine_ok_def two_gpu_engine_def two_contexts_def Let_def)

theorem engine_free_undoes_allocate_witness:
  "\<exists>r e1 e2. engine_allocate heap_machine ''w'' [200, 1048576] 1 two_gpu_engine = (r, e1)
     \<and> engine_free heap_machine ''w'' e1 = (Ok (), e2) \<and> fst (snd (en_world e2)) = Map.empty"
proof -
  obtain r e1 where run: "engine_allocate heap_machine ''w'' [200, 1048576] 1 two_gpu_engine = (r, e1)" by force
  have "\<exists>e2. engine_free heap_machine ''w'' e1 = (Ok (), e2)
      \<and> fst (snd (en_world e2)) = fst (snd (en_world two_gpu_engine))"
    using engine_free_undoes_allocate [OF heap_machine_docs two_gpu_engine_ok _ _ run, of "''w''"] by auto
  with run show ?thesis by (auto simp: two_gpu_engine_def)
qed

section \<open>Access\<close>

lemma worldE_iff: "worldE m e = (r, e') \<longleftrightarrow> (\<exists>w. m (en_allocator e) (en_world e) = (r, w) \<and> e' = e\<lparr>en_world := w\<rparr>)"
  by (auto simp: worldE_def split: prod.splits)

lemma unwrapM_Ok_iff: "unwrapM x e = (Ok y, e') \<longleftrightarrow> x = Some y \<and> e' = e"
  by (auto simp: unwrapM_def retM_def panicM_def split: option.splits)

lemma unwrapM_not_Err: "unwrapM x e \<noteq> (Err y, e')"
  by (auto simp: unwrapM_def retM_def panicM_def split: option.splits)

lemma engine_fetch_ok:
  assumes "engine_fetch pf name gpu ordinal src e = (Ok ptr, e')"
  shows "\<exists>w k. e' = e\<lparr>en_world := w, en_vmt := vmt_modify name (add_vram [\<lparr>ck_gpu_ordinal = ordinal,
    ck_device_ptr = ptr, ck_size_bytes = ck_size_bytes src, ck_num_elements = k\<rparr>]) (en_vmt e)\<rparr>"
proof -
  obtain w pg where "modifyE name (add_vram [\<lparr>ck_gpu_ordinal = ordinal, ck_device_ptr = ptr,
      ck_size_bytes = ck_size_bytes src, ck_num_elements = ck_size_bytes src div pg_element_size pg\<rparr>])
      (e\<lparr>en_world := w\<rparr>) = (Ok (), e')" and pg: "vmt_lookup (en_vmt e) name = Some pg"
    using assms
    by (auto simp: engine_fetch_def Let_def bindM_Ok_iff worldE_iff unwrapM_Ok_iff en_stream_def retM_def panicM_def
        add_vram_eta split: if_splits)
  then show ?thesis
    by (intro exI [of _ w] exI [of _ "ck_size_bytes src div pg_element_size pg"]) (simp add: modifyE_run)
qed

lemma engine_fetch_err:
  assumes "engine_fetch pf name gpu ordinal src e = (Err x, e')"
  shows "en_vmt e' = en_vmt e"
  using assms
  by (auto simp: engine_fetch_def Let_def bindM_Ok_iff bindM_Err_iff worldE_iff unwrapM_Ok_iff unwrapM_not_Err en_stream_def
      retM_def panicM_def modifyE_def modM_def split: if_splits)


lemma find_skip: "\<forall>x \<in> set xs. \<not> P x \<Longrightarrow> find P (xs @ ys) = find P ys"
  by (induction xs) (auto split: if_splits)

text \<open>\<open>access\<close> to a resident page on a GPU of the cluster, and what a fetch of its block leaves.\<close>

lemma engine_access_resident:
  assumes "index_of (en_cluster e) ordinal = Some gpu" and "vmt_lookup (en_vmt e) name = Some p"
  shows "engine_access pf name ordinal e = (case resident_chunk p ordinal of
         Some c \<Rightarrow> retM (ck_device_ptr c)
       | None \<Rightarrow> bindM (ok_or (vec_get (pg_vram_chunks p) 0) (UnknownAllocation name)) (\<lambda>src.
           if ck_gpu_ordinal src = ordinal then retM (ck_device_ptr src)
           else engine_fetch pf name gpu ordinal src)) e"
  using assms by (simp add: engine_access_def bindM_def ok_or_def retM_def)

lemma engine_fetch_stays:
  assumes pg: "vmt_lookup (en_vmt e) name = Some pg" and resident: "pg_state pg = Resident"
    and idx: "index_of (en_cluster e) ordinal = Some gpu" and none: "ordinal \<notin> ck_gpu_ordinal ` set (pg_vram_chunks pg)"
    and fetch: "engine_fetch pf name gpu ordinal src e = (Ok ptr, e1)"
  shows "\<exists>c. vmt_lookup (en_vmt e1) name = Some (add_vram [c] pg) \<and> ck_gpu_ordinal c = ordinal \<and> ck_device_ptr c = ptr
    \<and> ck_size_bytes c = ck_size_bytes src \<and> engine_access pf name ordinal e1 = (Ok ptr, e1)"
proof -
  from engine_fetch_ok [OF fetch] obtain w k
    where e1: "e1 = e\<lparr>en_world := w, en_vmt := vmt_modify name (add_vram [\<lparr>ck_gpu_ordinal = ordinal,
      ck_device_ptr = ptr, ck_size_bytes = ck_size_bytes src, ck_num_elements = k\<rparr>]) (en_vmt e)\<rparr>"
    by blast
  define c where "c = \<lparr>ck_gpu_ordinal = ordinal, ck_device_ptr = ptr, ck_size_bytes = ck_size_bytes src, ck_num_elements = k\<rparr>"
  have l: "vmt_lookup (en_vmt e1) name = Some (add_vram [c] pg)" by (simp add: e1 pg c_def)
  have "\<forall>d \<in> set (pg_vram_chunks pg). ck_gpu_ordinal d \<noteq> ordinal" using none by force
  then have "resident_chunk (add_vram [c] pg) ordinal = Some c" by (simp add: resident_chunk_def add_vram_def resident c_def find_skip)
  then have "engine_access pf name ordinal e1 = (Ok ptr, e1)"
    using engine_access_resident [OF _ l, of ordinal gpu pf] idx by (simp add: e1 c_def retM_def)
  with l show ?thesis by (auto simp: c_def)
qed

text \<open>
  Property C37. On a resident page \<open>access\<close> returns the pointer of a chunk the page has on the GPU
  asked for: one it had, and then nothing changes, or a new block of the size of the page's first
  chunk, filled from it. The same access afterwards returns the same pointer without a call to the
  driver. An access that fails leaves the table as it was, and one for an ordinal the engine does
  not have, or for a name it does not know, does not reach the driver.
\<close>

theorem engine_access_repeats:
  assumes pg: "vmt_lookup (en_vmt e) name = Some pg" and resident: "pg_state pg = Resident"
    and run: "engine_access pf name ordinal e = (r, e1)"
  shows "(\<forall>ptr. r = Ok ptr \<longrightarrow> engine_access pf name ordinal e1 = (Ok ptr, e1)
       \<and> (\<exists>pg1 c. vmt_lookup (en_vmt e1) name = Some pg1 \<and> c \<in> set (pg_vram_chunks pg1)
            \<and> ck_gpu_ordinal c = ordinal \<and> ck_device_ptr c = ptr
            \<and> (if ordinal \<in> ck_gpu_ordinal ` set (pg_vram_chunks pg) then e1 = e
               else pg_vram_chunks pg1 = pg_vram_chunks pg @ [c]
                 \<and> ck_size_bytes c = ck_size_bytes (hd (pg_vram_chunks pg)))))
    \<and> (\<forall>x. r = Err x \<longrightarrow> en_vmt e1 = en_vmt e)
    \<and> (index_of (en_cluster e) ordinal = None \<longrightarrow>
         engine_access pf m ordinal e = (Err (InvalidGpu (i32_as_usize ordinal)), e))
    \<and> (index_of (en_cluster e) ordinal \<noteq> None \<longrightarrow> vmt_lookup (en_vmt e) m = None \<longrightarrow>
         engine_access pf m ordinal e = (Err (UnknownAllocation m), e))"
proof -
  have early: "index_of (en_cluster e) ordinal = None \<longrightarrow>
         engine_access pf m ordinal e = (Err (InvalidGpu (i32_as_usize ordinal)), e)"
    "index_of (en_cluster e) ordinal \<noteq> None \<longrightarrow> vmt_lookup (en_vmt e) m = None \<longrightarrow>
         engine_access pf m ordinal e = (Err (UnknownAllocation m), e)"
    by (auto simp: engine_access_def bindM_def ok_or_def errM_def retM_def)
  show ?thesis
  proof (cases "index_of (en_cluster e) ordinal")
    case None
    with early run show ?thesis by (auto simp: engine_access_def bindM_def ok_or_def errM_def)
  next
    case (Some gpu)
    note step = run [unfolded engine_access_resident [OF Some pg]]
    show ?thesis
    proof (cases "resident_chunk pg ordinal")
      case here: (Some c)
      then have "c \<in> set (pg_vram_chunks pg)" "ck_gpu_ordinal c = ordinal"
        by (auto simp: resident_chunk_def resident find_Some_iff)
      moreover have "r = Ok (ck_device_ptr c)" "e1 = e" using step here by (simp_all add: retM_def)
      ultimately show ?thesis using run pg early by auto
    next
      case away: None
      then have none: "ordinal \<notin> ck_gpu_ordinal ` set (pg_vram_chunks pg)"
        by (auto simp: resident_chunk_def resident find_None_iff)
      show ?thesis
      proof (cases "pg_vram_chunks pg")
        case Nil
        with step away early show ?thesis by (auto simp: bindM_def ok_or_def vec_get_def errM_def)
      next
        case (Cons src rest)
        have fetch: "engine_fetch pf name gpu ordinal src e = (r, e1)"
          using step away none Cons by (auto simp: bindM_def ok_or_def vec_get_def retM_def)
        from engine_fetch_stays [OF pg resident Some none, of pf src] none early engine_fetch_err fetch Cons
        show ?thesis by (fastforce simp: add_vram_def)
      qed
    qed
  qed
qed


definition resident_engine :: "(u64 \<times> (u64 \<Rightarrow> u64 option) \<times> u64) engine" where
  "resident_engine = two_gpu_engine\<lparr>
     en_vmt := (vmt_new 2 1)\<lparr>vt_pages := [''w'' \<mapsto> (fresh_page ''w'' [8] 2)\<lparr>pg_state := Resident,
       pg_vram_chunks := [\<lparr>ck_gpu_ordinal = 0, ck_device_ptr = 256, ck_size_bytes = 16, ck_num_elements = 8\<rparr>]\<rparr>]\<rparr>,
     en_streams := \<lparr>st_compute = [\<lparr>cs_inner = 5, cs_priority = 0\<rparr>, \<lparr>cs_inner = 6, cs_priority = 0\<rparr>],
       st_prefetch = [], st_len = 2\<rparr>\<rparr>"

theorem engine_access_repeats_witness:
  "\<exists>e1. engine_access heap_machine ''w'' 3 resident_engine = (Ok 4096, e1)
    \<and> engine_access heap_machine ''w'' 3 e1 = (Ok 4096, e1)"
proof -
  let ?pg = "(fresh_page ''w'' [8] 2)\<lparr>pg_state := Resident,
       pg_vram_chunks := [\<lparr>ck_gpu_ordinal = 0, ck_device_ptr = 256, ck_size_bytes = 16, ck_num_elements = 8\<rparr>]\<rparr>"
  have pg: "vmt_lookup (en_vmt resident_engine) ''w'' = Some ?pg" "pg_state ?pg = Resident"
    by (simp_all add: resident_engine_def vmt_lookup_def)
  have idx: "index_of (en_cluster resident_engine) 3 = Some 1" "index_of (en_cluster resident_engine) 0 = Some 0"
    by (simp_all add: resident_engine_def two_gpu_engine_def index_of_def ordinal_index_def)
  have "fst (engine_access heap_machine ''w'' 3 resident_engine) = Ok 4096"
    using pg idx
    by (simp add: engine_access_def bindM_def ok_or_def retM_def resident_chunk_def vec_get_def engine_fetch_def
        unwrapM_def worldE_def alloc_device_def set_device_def registry_bind_def registry_get_def pc_bind_def
        cu_call_def cu_get_def check_cu_def heap_machine_def idle_platform_def resident_engine_def two_gpu_engine_def
        two_contexts_def en_stream_def peer_copy_async_def ua_context_def stream_synchronize_def modifyE_def modM_def
        fresh_page_def page_new_def)
  then obtain e1 where run: "engine_access heap_machine ''w'' 3 resident_engine = (Ok 4096, e1)"
    by (cases "engine_access heap_machine ''w'' 3 resident_engine") auto
  with engine_access_repeats [OF pg run] show ?thesis by blast
qed

end
