(* ===== verification/Kernels.thy ===== *)
theory Kernels
  imports Gpu
begin

text \<open>
  \<open>src/nvrtc_kernel.rs\<close>: compiling a kernel from source at run time, loading it, launching it and
  dropping it. The compiler library and the module calls of the driver are the fields of a record
  over an opaque world. Where the code does not look at a status, the field returns what the
  out-variable holds after the call.
\<close>

section \<open>The compiler and the module calls\<close>

record 'w compiler =
  nv_create_program :: "string \<Rightarrow> string \<Rightarrow> 'w \<Rightarrow> int \<times> u64 \<times> 'w"
  nv_compile_program :: "u64 \<Rightarrow> string list \<Rightarrow> 'w \<Rightarrow> int \<times> 'w"
  nv_log_size :: "u64 \<Rightarrow> 'w \<Rightarrow> usize \<times> 'w"
  nv_log :: "u64 \<Rightarrow> usize \<Rightarrow> 'w \<Rightarrow> byte list \<times> 'w"
  nv_ptx_size :: "u64 \<Rightarrow> 'w \<Rightarrow> int \<times> usize \<times> 'w"
  nv_ptx :: "u64 \<Rightarrow> usize \<Rightarrow> 'w \<Rightarrow> int \<times> byte list \<times> 'w"
  nv_destroy_program :: "u64 \<Rightarrow> 'w \<Rightarrow> int \<times> 'w"
  md_load :: "byte list \<Rightarrow> 'w \<Rightarrow> int \<times> u64 \<times> 'w"
  md_function :: "u64 \<Rightarrow> string \<Rightarrow> 'w \<Rightarrow> int \<times> u64 \<times> 'w"
  md_unload :: "u64 \<Rightarrow> 'w \<Rightarrow> int \<times> 'w"
  md_capability :: "int \<Rightarrow> 'w \<Rightarrow> int \<times> (int \<times> int) \<times> 'w"
  md_launch :: "u64 \<Rightarrow> nat list \<Rightarrow> u64 \<Rightarrow> u64 list \<Rightarrow> 'w \<Rightarrow> int \<times> 'w"
  md_report :: "byte list \<Rightarrow> 'w \<Rightarrow> 'w"

text \<open>\<open>check_nvrtc("f", f(..))?\<close> for a call with an out-parameter.\<close>

definition nv_get :: "string \<Rightarrow> ('w \<Rightarrow> int \<times> 'a \<times> 'w) \<Rightarrow> ('w, 'a) op" where
  "nv_get name f w = (case f w of (rc, x, w') \<Rightarrow>
     (case check_nvrtc name rc of Ok _ \<Rightarrow> Ok x | Err e \<Rightarrow> Err e | Panic \<Rightarrow> Panic, w'))"

text \<open>\<open>CString::new\<close> refuses a string with a NUL in it.\<close>

definition c_string :: "string \<Rightarrow> string option" where
  "c_string s = (if CHR 0x00 \<in> set s then None else Some s)"

definition NVRTC_SUCCESS :: int where
  "NVRTC_SUCCESS = 0"

section \<open>Compiled kernels\<close>

record compiled_kernel =
  kn_module :: u64
  kn_function :: u64
  kn_program :: u64

definition kernel_function :: "compiled_kernel \<Rightarrow> u64" where
  "kernel_function k = kn_function k"

definition kernel_module :: "compiled_kernel \<Rightarrow> u64" where
  "kernel_module k = kn_module k"

definition kernel_drop :: "'w compiler \<Rightarrow> compiled_kernel \<Rightarrow> 'w \<Rightarrow> 'w" where
  "kernel_drop cp k w =
     cu_ignore (nv_destroy_program cp (kn_program k)) (cu_ignore (md_unload cp (kn_module k)) w)"

text \<open>The diagnostics of a failed compilation, printed before its status is returned.\<close>

definition report_log :: "'w compiler \<Rightarrow> u64 \<Rightarrow> ('w, unit) op" where
  "report_log cp program =
     bindM (askM (nv_log_size cp program)) (\<lambda>log_size.
     bindM (askM (nv_log cp program log_size)) (\<lambda>log.
     modM (md_report cp log)))"

definition compile_program :: "'w compiler \<Rightarrow> u64 \<Rightarrow> string \<Rightarrow> ('w, unit) op" where
  "compile_program cp program arch =
     bindM (unwrapM (c_string (''--gpu-architecture='' @ arch))) (\<lambda>arch_flag.
     bindM (askM (nv_compile_program cp program [arch_flag])) (\<lambda>compile_res.
     if compile_res \<noteq> NVRTC_SUCCESS
     then bindM (report_log cp program) (\<lambda>_. errM (NvrtcError ''nvrtcCompileProgram'' compile_res))
     else retM ()))"

definition compile_and_load :: "'w compiler \<Rightarrow> string \<Rightarrow> string \<Rightarrow> string \<Rightarrow> ('w, compiled_kernel) op" where
  "compile_and_load cp source kernel_name arch =
     bindM (unwrapM (c_string source)) (\<lambda>c_source.
     bindM (unwrapM (c_string (kernel_name @ ''.cu''))) (\<lambda>c_name.
     bindM (unwrapM (c_string kernel_name)) (\<lambda>c_kernel.
     bindM (nv_get ''nvrtcCreateProgram'' (nv_create_program cp c_source c_name)) (\<lambda>program.
     bindM (compile_program cp program arch) (\<lambda>_.
     bindM (nv_get ''nvrtcGetPTXSize'' (nv_ptx_size cp program)) (\<lambda>ptx_size.
     bindM (nv_get ''nvrtcGetPTX'' (nv_ptx cp program ptx_size)) (\<lambda>ptx.
     bindM (cu_get ''cuModuleLoadData'' (md_load cp ptx)) (\<lambda>module.
     bindM (cu_get ''cuModuleGetFunction'' (md_function cp module c_kernel)) (\<lambda>function.
     retM \<lparr>kn_module = module, kn_function = function, kn_program = program\<rparr>)))))))))"

definition detect_sm_arch :: "'w compiler \<Rightarrow> int \<Rightarrow> ('w, string) op" where
  "detect_sm_arch cp gpu_ordinal =
     bindM (cu_get ''cuDeviceComputeCapability'' (md_capability cp gpu_ordinal)) (\<lambda>(major, minor).
     retM (''sm_'' @ show_int major @ show_int minor))"

section \<open>The built-in kernels\<close>

text \<open>The two sources differ in the name of their entry point.\<close>

definition copy_kernel_source :: "string \<Rightarrow> string" where
  "copy_kernel_source entry = concat (map (\<lambda>l. l @ [CHR 0x0A])
     ['''',
      ''extern '' @ [CHR 0x22] @ ''C'' @ [CHR 0x22] @ '' __global__ void '' @ entry @ ''('',
      ''    const char* __restrict__ src,'',
      ''    char* __restrict__ dst,'',
      ''    unsigned long long n'',
      '') {'',
      ''    unsigned long long idx = blockIdx.x * blockDim.x + threadIdx.x;'',
      ''    if (idx < n) {'',
      ''        dst[idx] = src[idx];'',
      ''    }'',
      ''}''])"

definition MEMCPY_PEER_SRC :: string where
  "MEMCPY_PEER_SRC = copy_kernel_source ''memcpy_peer''"

definition TIER_PROMOTE_SRC :: string where
  "TIER_PROMOTE_SRC = copy_kernel_source ''tier_promote''"

definition compile_memcpy_peer :: "'w compiler \<Rightarrow> int \<Rightarrow> ('w, compiled_kernel) op" where
  "compile_memcpy_peer cp gpu_ordinal =
     bindM (detect_sm_arch cp gpu_ordinal) (compile_and_load cp MEMCPY_PEER_SRC ''memcpy_peer'')"

definition compile_tier_promote :: "'w compiler \<Rightarrow> int \<Rightarrow> ('w, compiled_kernel) op" where
  "compile_tier_promote cp gpu_ordinal =
     bindM (detect_sm_arch cp gpu_ordinal) (compile_and_load cp TIER_PROMOTE_SRC ''tier_promote'')"

definition launch_kernel ::
  "'w compiler \<Rightarrow> compiled_kernel \<Rightarrow> nat \<times> nat \<times> nat \<Rightarrow> nat \<times> nat \<times> nat \<Rightarrow> nat \<Rightarrow> u64 \<Rightarrow> u64 list \<Rightarrow> ('w, unit) op" where
  "launch_kernel cp k = (\<lambda>(gx, gy, gz) (bx, by, bz) shared_mem stream args.
     cu_call ''cuLaunchKernel'' (md_launch cp (kernel_function k) [gx, gy, gz, bx, by, bz, shared_mem] stream args))"


section \<open>The programs and modules alive\<close>

text \<open>
  What is documented of the resources: a program is made by a successful creation and ended by
  destroying it, a module likewise by loading and unloading, and no other call changes either.
\<close>

definition counts_kernels :: "'w compiler \<Rightarrow> ('w \<Rightarrow> u64 set) \<Rightarrow> ('w \<Rightarrow> u64 set) \<Rightarrow> bool" where
  "counts_kernels cp programs modules \<longleftrightarrow>
     (\<forall>src name w rc p w'. nv_create_program cp src name w = (rc, p, w') \<longrightarrow> modules w' = modules w
        \<and> (if rc = 0 then p \<notin> programs w \<and> programs w' = insert p (programs w) else programs w' = programs w))
   \<and> (\<forall>ptx w rc m w'. md_load cp ptx w = (rc, m, w') \<longrightarrow> programs w' = programs w
        \<and> (if rc = 0 then m \<notin> modules w \<and> modules w' = insert m (modules w) else modules w' = modules w))
   \<and> (\<forall>p w. modules (snd (nv_destroy_program cp p w)) = modules w
        \<and> programs (snd (nv_destroy_program cp p w)) = programs w - {p})
   \<and> (\<forall>m w. programs (snd (md_unload cp m w)) = programs w \<and> modules (snd (md_unload cp m w)) = modules w - {m})
   \<and> (\<forall>p flags w. programs (snd (nv_compile_program cp p flags w)) = programs w
        \<and> modules (snd (nv_compile_program cp p flags w)) = modules w)
   \<and> (\<forall>p w. programs (snd (nv_log_size cp p w)) = programs w \<and> modules (snd (nv_log_size cp p w)) = modules w)
   \<and> (\<forall>p n w. programs (snd (nv_log cp p n w)) = programs w \<and> modules (snd (nv_log cp p n w)) = modules w)
   \<and> (\<forall>log w. programs (md_report cp log w) = programs w \<and> modules (md_report cp log w) = modules w)
   \<and> (\<forall>p w. programs (snd (snd (nv_ptx_size cp p w))) = programs w \<and> modules (snd (snd (nv_ptx_size cp p w))) = modules w)
   \<and> (\<forall>p n w. programs (snd (snd (nv_ptx cp p n w))) = programs w \<and> modules (snd (snd (nv_ptx cp p n w))) = modules w)
   \<and> (\<forall>m f w. programs (snd (snd (md_function cp m f w))) = programs w
        \<and> modules (snd (snd (md_function cp m f w))) = modules w)"

lemma counts_kernelsD:
  assumes "counts_kernels cp programs modules"
  shows "nv_create_program cp src name w = (rc, p, w') \<Longrightarrow> modules w' = modules w
        \<and> (if rc = 0 then p \<notin> programs w \<and> programs w' = insert p (programs w) else programs w' = programs w)"
    and "md_load cp ptx w = (rc, m, w') \<Longrightarrow> programs w' = programs w
        \<and> (if rc = 0 then m \<notin> modules w \<and> modules w' = insert m (modules w) else modules w' = modules w)"
    and "programs (snd (nv_destroy_program cp p w)) = programs w - {p}"
      "modules (snd (nv_destroy_program cp p w)) = modules w"
    and "programs (snd (md_unload cp m w)) = programs w" "modules (snd (md_unload cp m w)) = modules w - {m}"
    and "programs (snd (snd (md_function cp m f w))) = programs w"
      "modules (snd (snd (md_function cp m f w))) = modules w"
proof -
  note docs = assms [unfolded counts_kernels_def]
  show "nv_create_program cp src name w = (rc, p, w') \<Longrightarrow> modules w' = modules w
        \<and> (if rc = 0 then p \<notin> programs w \<and> programs w' = insert p (programs w) else programs w' = programs w)"
    by (rule conjunct1 [OF docs, rule_format])
  show "md_load cp ptx w = (rc, m, w') \<Longrightarrow> programs w' = programs w
        \<and> (if rc = 0 then m \<notin> modules w \<and> modules w' = insert m (modules w) else modules w' = modules w)"
    by (rule conjunct1 [OF conjunct2 [OF docs], rule_format])
qed (use assms in \<open>simp_all add: counts_kernels_def\<close>)

text \<open>The calls between the creation of the program and the load of the module leave both alone.\<close>

definition kernels_at :: "('w \<Rightarrow> u64 set) \<Rightarrow> ('w \<Rightarrow> u64 set) \<Rightarrow> u64 set \<Rightarrow> u64 set \<Rightarrow> 'w \<Rightarrow> bool" where
  "kernels_at programs modules P M w \<longleftrightarrow> programs w = P \<and> modules w = M"

lemma quiet_calls:
  assumes "counts_kernels cp programs modules"
  shows "keeps (kernels_at programs modules P M) (compile_program cp p arch)"
    and "keeps (kernels_at programs modules P M) (nv_get name (nv_ptx_size cp p))"
    and "keeps (kernels_at programs modules P M) (nv_get name (nv_ptx cp p n))"
    and "keeps (kernels_at programs modules P M) (cu_get name (md_function cp m f))"
proof -
  note docs = assms [unfolded counts_kernels_def]
  show "keeps (kernels_at programs modules P M) (nv_get name (nv_ptx_size cp p))"
    "keeps (kernels_at programs modules P M) (nv_get name (nv_ptx cp p n))"
    "keeps (kernels_at programs modules P M) (cu_get name (md_function cp m f))"
    using docs by (auto simp: keeps_def kernels_at_def nv_get_def cu_get_def case_prod_beta)
  have ask: "keeps (kernels_at programs modules P M) (askM (nv_compile_program cp p flags))"
    "keeps (kernels_at programs modules P M) (askM (nv_log_size cp p))"
    "keeps (kernels_at programs modules P M) (askM (nv_log cp p n))"
    "keeps (kernels_at programs modules P M) (modM (md_report cp log))" for flags n log
    using docs by (auto simp: keeps_def kernels_at_def askM_def modM_def case_prod_beta)
  then show "keeps (kernels_at programs modules P M) (compile_program cp p arch)"
    unfolding compile_program_def report_log_def by (intro keeps_bindM keeps_if keeps_pure ask)
qed

definition program_to_ptx :: "'w compiler \<Rightarrow> u64 \<Rightarrow> string \<Rightarrow> ('w, byte list) op" where
  "program_to_ptx cp program arch =
     bindM (compile_program cp program arch) (\<lambda>_.
     bindM (nv_get ''nvrtcGetPTXSize'' (nv_ptx_size cp program)) (\<lambda>ptx_size.
     nv_get ''nvrtcGetPTX'' (nv_ptx cp program ptx_size)))"

definition load_ptx :: "'w compiler \<Rightarrow> string \<Rightarrow> u64 \<Rightarrow> byte list \<Rightarrow> ('w, compiled_kernel) op" where
  "load_ptx cp entry program ptx =
     bindM (cu_get ''cuModuleLoadData'' (md_load cp ptx)) (\<lambda>module.
     bindM (cu_get ''cuModuleGetFunction'' (md_function cp module entry)) (\<lambda>function.
     retM \<lparr>kn_module = module, kn_function = function, kn_program = program\<rparr>))"

lemma bindM_assoc: "bindM (bindM m f) g = bindM m (\<lambda>x. bindM (f x) g)"
  by (auto simp: bindM_def fun_eq_iff split: prod.split outcome.split)

lemma compile_and_load_parts:
  "compile_and_load cp source entry arch =
     bindM (unwrapM (c_string source)) (\<lambda>c_source.
     bindM (unwrapM (c_string (entry @ ''.cu''))) (\<lambda>c_name.
     bindM (unwrapM (c_string entry)) (\<lambda>c_kernel.
     bindM (nv_get ''nvrtcCreateProgram'' (nv_create_program cp c_source c_name)) (\<lambda>program.
     bindM (program_to_ptx cp program arch) (load_ptx cp c_kernel program)))))"
  by (simp add: compile_and_load_def program_to_ptx_def load_ptx_def [abs_def] bindM_assoc)

lemma nv_get_run:
  "nv_get name f w = (r, w') \<longleftrightarrow> (\<exists>rc x. f w = (rc, x, w') \<and> r = (if rc = 0 then Ok x else Err (NvrtcError name rc)))"
  by (auto simp: nv_get_def check_nvrtc_def split: prod.splits)

lemma ptx_errors:
  assumes "program_to_ptx cp p arch w = (Err e, w')"
  shows "\<exists>name rc. e = NvrtcError name rc \<and> name \<noteq> ''nvrtcCreateProgram''"
  using assms
  by (auto simp: program_to_ptx_def compile_program_def bindM_Err_iff nv_get_run askM_def unwrapM_def retM_def errM_def
      panicM_def report_log_def modM_def split: option.splits if_splits prod.splits)

lemma load_ptx_resources:
  assumes docs: "counts_kernels cp programs modules" and run: "load_ptx cp entry p ptx w = (r, w')"
  shows "programs w' = programs w \<and> r \<noteq> Panic"
    "r = Ok k \<Longrightarrow> kn_program k = p \<and> kn_module k \<notin> modules w \<and> modules w' = insert (kn_module k) (modules w)"
    "r = Err e \<Longrightarrow> (\<exists>name rc. e = CudaError name rc)
       \<and> ((\<forall>rc. e \<noteq> CudaError ''cuModuleGetFunction'' rc) \<longrightarrow> modules w' = modules w)
       \<and> (\<forall>rc. e = CudaError ''cuModuleGetFunction'' rc \<longrightarrow> (\<exists>m. m \<notin> modules w \<and> modules w' = insert m (modules w)))"
proof -
  obtain rc m w1 where load: "md_load cp ptx w = (rc, m, w1)" by (metis prod_cases3)
  note l = counts_kernelsD(2) [OF docs load]
  obtain rc2 f w2 where fn: "md_function cp m entry w1 = (rc2, f, w2)" by (metis prod_cases3)
  have w2: "programs w2 = programs w1" "modules w2 = modules w1"
    using counts_kernelsD(7,8) [OF docs, of m entry w1] fn by simp_all
  have res: "(r, w') = (if rc \<noteq> 0 then (Err (CudaError ''cuModuleLoadData'' rc), w1)
      else if rc2 \<noteq> 0 then (Err (CudaError ''cuModuleGetFunction'' rc2), w2)
      else (Ok \<lparr>kn_module = m, kn_function = f, kn_program = p\<rparr>, w2))"
    unfolding run [symmetric] using load fn
    by (simp add: load_ptx_def bindM_def cu_get_def check_cu_def retM_def)
  show "programs w' = programs w \<and> r \<noteq> Panic"
    "r = Ok k \<Longrightarrow> kn_program k = p \<and> kn_module k \<notin> modules w \<and> modules w' = insert (kn_module k) (modules w)"
    "r = Err e \<Longrightarrow> (\<exists>name rc. e = CudaError name rc)
       \<and> ((\<forall>rc. e \<noteq> CudaError ''cuModuleGetFunction'' rc) \<longrightarrow> modules w' = modules w)
       \<and> (\<forall>rc. e = CudaError ''cuModuleGetFunction'' rc \<longrightarrow> (\<exists>m. m \<notin> modules w \<and> modules w' = insert m (modules w)))"
    using res l w2 by (auto split: if_splits)
qed

text \<open>
  Property C38. A kernel that compiles and loads owns one live program and one live module, and
  dropping it ends exactly these two. A failure of the creation leaves nothing behind; but after a
  failure of any later call the program that was created stays alive with nothing to end it, and
  after a failure to find the entry point so does the module.
\<close>

theorem kernel_resources:
  assumes docs: "counts_kernels cp programs modules"
    and run: "compile_and_load cp source entry arch w = (r, w')"
  shows "(\<forall>k. r = Ok k \<longrightarrow> kn_program k \<notin> programs w \<and> kn_module k \<notin> modules w
       \<and> programs w' = insert (kn_program k) (programs w) \<and> modules w' = insert (kn_module k) (modules w)
       \<and> programs (kernel_drop cp k w') = programs w \<and> modules (kernel_drop cp k w') = modules w)
    \<and> (\<forall>rc. r = Err (NvrtcError ''nvrtcCreateProgram'' rc) \<longrightarrow> programs w' = programs w \<and> modules w' = modules w)
    \<and> (\<forall>e. r = Err e \<longrightarrow> (\<forall>rc. e \<noteq> NvrtcError ''nvrtcCreateProgram'' rc) \<longrightarrow>
         (\<exists>p. p \<notin> programs w \<and> programs w' = insert p (programs w))
       \<and> ((\<forall>rc. e \<noteq> CudaError ''cuModuleGetFunction'' rc) \<longrightarrow> modules w' = modules w)
       \<and> (\<forall>rc. e = CudaError ''cuModuleGetFunction'' rc \<longrightarrow> (\<exists>m. m \<notin> modules w \<and> modules w' = insert m (modules w))))"
proof (cases "c_string source = None \<or> c_string (entry @ ''.cu'') = None \<or> c_string entry = None")
  case True
  then have "r = Panic" using run by (auto simp: compile_and_load_parts bindM_def unwrapM_def retM_def panicM_def split: option.splits)
  then show ?thesis by simp
next
  case False
  then obtain s n f where strings: "c_string source = Some s" "c_string (entry @ ''.cu'') = Some n" "c_string entry = Some f" by auto
  obtain rc p w1 where new: "nv_create_program cp s n w = (rc, p, w1)" by (metis prod_cases3)
  note c = counts_kernelsD(1) [OF docs new]
  have run': "bindM (nv_get ''nvrtcCreateProgram'' (nv_create_program cp s n))
      (\<lambda>program. bindM (program_to_ptx cp program arch) (load_ptx cp f program)) w = (r, w')"
    using run strings by (simp add: compile_and_load_parts bindM_def unwrapM_def retM_def)
  show ?thesis
  proof (cases "rc = 0")
    case False
    then have "r = Err (NvrtcError ''nvrtcCreateProgram'' rc)" "w' = w1"
      using run' new by (simp_all add: bindM_def nv_get_def check_nvrtc_def)
    with c False show ?thesis by simp
  next
    case True
    then have fresh: "p \<notin> programs w" "programs w1 = insert p (programs w)" "modules w1 = modules w" using c by simp_all
    obtain q w2 where ptx: "program_to_ptx cp p arch w1 = (q, w2)" by force
    have "keeps (kernels_at programs modules (programs w1) (modules w1)) (program_to_ptx cp p arch)"
      unfolding program_to_ptx_def by (intro keeps_bindM quiet_calls [OF docs])
    from keepsD [OF this _ ptx] have same: "programs w2 = programs w1" "modules w2 = modules w1"
      by (simp_all add: kernels_at_def)
    have rest: "bindM (program_to_ptx cp p arch) (load_ptx cp f p) w1 = (r, w')"
      using run' new True by (simp add: bindM_def [of "nv_get _ _"] nv_get_def check_nvrtc_def)
    show ?thesis
    proof (cases q)
      case (Ok img)
      then have load: "load_ptx cp f p img w2 = (r, w')" using rest ptx by (simp add: bindM_def)
      note l = load_ptx_resources [OF docs load]
      show ?thesis
      proof (cases r)
        case (Ok k)
        have "programs (kernel_drop cp k w') = programs w' - {p}" "modules (kernel_drop cp k w') = modules w' - {kn_module k}"
          using l(2) [OF Ok] by (simp_all add: kernel_drop_def cu_ignore_def counts_kernelsD(3-6) [OF docs])
        with l(1) l(2) [OF Ok] Ok fresh same show ?thesis by auto
      next
        case (Err e)
        with l(1) l(3) [OF Err] fresh same show ?thesis by auto
      qed (use l(1) in simp)
    next
      case (Err e)
      then have "r = Err e" "w' = w2" using rest ptx by (simp_all add: bindM_def)
      with ptx_errors [OF ptx [unfolded Err]] fresh same show ?thesis by auto
    next
      case Panic
      then have "r = Panic" using rest ptx by (simp add: bindM_def)
      then show ?thesis by simp
    qed
  qed
qed


text \<open>A compiler with numbered programs and modules, which knows one entry point.\<close>

definition kernel_machine :: "(u64 set \<times> u64 set \<times> u64) compiler" where
  "kernel_machine = \<lparr>
     nv_create_program = (\<lambda>src name (P, M, k). if k \<in> P then (1, 0, (P, M, k)) else (0, k, (insert k P, M, k + 1))),
     nv_compile_program = (\<lambda>p flags w. (0, w)), nv_log_size = (\<lambda>p w. (0, w)), nv_log = (\<lambda>p n w. ([], w)),
     nv_ptx_size = (\<lambda>p w. (0, 1, w)), nv_ptx = (\<lambda>p n w. (0, replicate n 0, w)),
     nv_destroy_program = (\<lambda>p (P, M, k). (0, (P - {p}, M, k))),
     md_load = (\<lambda>ptx (P, M, k). if k \<in> M then (2, 0, (P, M, k)) else (0, k, (P, insert k M, k + 1))),
     md_function = (\<lambda>m f w. if f = ''memcpy_peer'' then (0, 9, w) else (500, 0, w)),
     md_unload = (\<lambda>m (P, M, k). (0, (P, M - {m}, k))),
     md_capability = (\<lambda>d w. (0, (8, 9), w)), md_launch = (\<lambda>f dims s args w. (0, w)),
     md_report = (\<lambda>log w. w)\<rparr>"

lemma kernel_machine_docs: "counts_kernels kernel_machine fst (\<lambda>w. fst (snd w))"
  by (auto simp: counts_kernels_def kernel_machine_def split: if_splits)

theorem kernel_resources_witness:
  "\<exists>r w'. compile_and_load kernel_machine ''x'' ''other'' ''sm_89'' ({}, {}, 1) = (r, w')
    \<and> r = Err (CudaError ''cuModuleGetFunction'' 500) \<and> (\<exists>p. fst w' = {p}) \<and> (\<exists>m. fst (snd w') = {m})"
proof -
  obtain r w' where run: "compile_and_load kernel_machine ''x'' ''other'' ''sm_89'' ({}, {}, 1) = (r, w')" by (metis prod.collapse)
  then have "r = Err (CudaError ''cuModuleGetFunction'' 500)"
    by (simp add: compile_and_load_def bindM_def unwrapM_def c_string_def retM_def nv_get_def cu_get_def check_cu_def
        check_nvrtc_def compile_program_def askM_def NVRTC_SUCCESS_def kernel_machine_def)
  with kernel_resources [OF kernel_machine_docs run] run show ?thesis by simp
qed

section \<open>The built-in kernels are well formed\<close>

lemma decimal_no_nul: "CHR 0x00 \<notin> set (show_int i)"
  using decimal_digits [of "CHR 0x00"] by (auto simp: show_int_def digit_value_def)

lemma get_no_panic: "fst (nv_get name f w) \<noteq> Panic" "fst (cu_get name f w) \<noteq> Panic" "fst (askM h w) \<noteq> Panic"
  by (auto simp: nv_get_def cu_get_def askM_def check_nvrtc_def check_cu_def split: prod.split)

lemma compile_no_panic:
  assumes "CHR 0x00 \<notin> set source" "CHR 0x00 \<notin> set entry" "CHR 0x00 \<notin> set arch"
  shows "fst (compile_and_load cp source entry arch w) \<noteq> Panic"
proof -
  have "fst (report_log cp p u) \<noteq> Panic" for p u
    by (simp add: report_log_def bindM_def modM_def askM_def case_prod_beta)
  then have comp: "fst (compile_program cp p arch u) \<noteq> Panic" for p u
    using assms(3)
    by (auto simp: compile_program_def c_string_def bindM_def unwrapM_def retM_def errM_def askM_def
        split: prod.splits outcome.splits) (metis fst_conv)
  have "fst (load_ptx cp f p ptx u) \<noteq> Panic" for f p ptx u
    unfolding load_ptx_def by (intro bindM_no_panic get_no_panic) (simp add: retM_def)
  moreover have "fst (program_to_ptx cp p arch u) \<noteq> Panic" for p u
    unfolding program_to_ptx_def by (intro bindM_no_panic get_no_panic comp)
  ultimately have "fst (bindM (program_to_ptx cp p arch) (load_ptx cp f p) u) \<noteq> Panic" for p f u
    by (intro bindM_no_panic)
  then have "fst (bindM (nv_get ''nvrtcCreateProgram'' (nv_create_program cp source (entry @ ''.cu'')))
      (\<lambda>p. bindM (program_to_ptx cp p arch) (load_ptx cp entry p)) w) \<noteq> Panic"
    by (rule bindM_no_panic [OF get_no_panic(1)])
  moreover have "c_string source = Some source" "c_string (entry @ ''.cu'') = Some (entry @ ''.cu'')" "c_string entry = Some entry"
    using assms by (simp_all add: c_string_def)
  ultimately show ?thesis
    by (simp add: compile_and_load_parts bind_now)
qed

text \<open>
  Each built-in source declares, with C linkage, the entry point that is looked up in
  its module, no string handed to the compiler contains a NUL, so the conversions of the code never
  panic, and the architecture is the one the device reports.
\<close>

theorem builtin_kernels_well_formed:
  "contains MEMCPY_PEER_SRC ([CHR 0x22] @ ''C'' @ [CHR 0x22] @ '' __global__ void memcpy_peer('')
   \<and> contains TIER_PROMOTE_SRC ([CHR 0x22] @ ''C'' @ [CHR 0x22] @ '' __global__ void tier_promote('')
   \<and> fst (compile_memcpy_peer cp d w) \<noteq> Panic \<and> fst (compile_tier_promote cp d w) \<noteq> Panic
   \<and> (\<forall>major minor w'. md_capability cp d w = (0, (major, minor), w') \<longrightarrow>
        detect_sm_arch cp d w = (Ok (''sm_'' @ show_int major @ show_int minor), w'))"
proof (intro conjI allI impI)
  show "contains MEMCPY_PEER_SRC ([CHR 0x22] @ ''C'' @ [CHR 0x22] @ '' __global__ void memcpy_peer('')"
    "contains TIER_PROMOTE_SRC ([CHR 0x22] @ ''C'' @ [CHR 0x22] @ '' __global__ void tier_promote('')"
    by code_simp+
  have arch: "fst (detect_sm_arch cp d w) \<noteq> Panic"
    unfolding detect_sm_arch_def by (intro bindM_no_panic get_no_panic) (auto simp: retM_def)
  have no_nul: "CHR 0x00 \<notin> set a" if "detect_sm_arch cp d w = (Ok a, u)" for a u
    using that decimal_no_nul by (auto simp: detect_sm_arch_def bindM_Ok_iff retM_def)
  have src: "CHR 0x00 \<notin> set MEMCPY_PEER_SRC" "CHR 0x00 \<notin> set TIER_PROMOTE_SRC" by code_simp+
  show "fst (compile_memcpy_peer cp d w) \<noteq> Panic"
    unfolding compile_memcpy_peer_def
    by (rule bindM_no_panic, rule arch, rule compile_no_panic [OF src(1) _ no_nul]) simp_all
  show "fst (compile_tier_promote cp d w) \<noteq> Panic"
    unfolding compile_tier_promote_def
    by (rule bindM_no_panic, rule arch, rule compile_no_panic [OF src(2) _ no_nul]) simp_all
  fix major minor w' assume "md_capability cp d w = (0, (major, minor), w')"
  then show "detect_sm_arch cp d w = (Ok (''sm_'' @ show_int major @ show_int minor), w')"
    by (simp add: detect_sm_arch_def bindM_def cu_get_def check_cu_def retM_def)
qed

end
