(* ===== verification/Loader.thy ===== *)
theory Loader
  imports Gpu
begin

text \<open>
  \<open>src/ffi/mod.rs\<close>, \<open>src/ffi/cuda.rs\<close> and \<open>src/ffi/nvrtc.rs\<close>: the libraries are opened and their
  symbols looked up on first use, and every result is remembered for the life of the process. The
  dynamic linker and the foreign functions behind the addresses are the fields of a record over an
  opaque world; a null pointer is 0.
\<close>

section \<open>The dynamic linker\<close>

record 'w linker =
  dl_clear_error :: "'w \<Rightarrow> 'w"
  dl_open :: "string \<Rightarrow> 'w \<Rightarrow> u64 \<times> 'w"
  dl_sym :: "u64 \<Rightarrow> string \<Rightarrow> 'w \<Rightarrow> u64 \<times> 'w"
  dl_text :: "usize \<Rightarrow> int \<Rightarrow> 'w \<Rightarrow> (int \<times> string option) \<times> 'w"
  dl_nvrtc_text :: "usize \<Rightarrow> int \<Rightarrow> 'w \<Rightarrow> string option \<times> 'w"

text \<open>
  The cells of the process: the two libraries (an error is remembered like a handle) and one slot
  per entry point for its address.
\<close>

record 'w process =
  ps_cuda :: "(vugva_error + u64) option"
  ps_nvrtc :: "(vugva_error + u64) option"
  ps_cuda_slots :: "string \<Rightarrow> usize option"
  ps_nvrtc_slots :: "string \<Rightarrow> usize option"
  ps_world :: 'w

definition CUDA_SONAME :: string where
  "CUDA_SONAME = ''libcuda.so.1''"

definition NVRTC_SONAME :: string where
  "NVRTC_SONAME = ''libnvrtc.so.12''"

definition CUDA_SUCCESS :: int where
  "CUDA_SUCCESS = 0"

definition CUDA_ERROR_NOT_FOUND :: int where
  "CUDA_ERROR_NOT_FOUND = 500"

definition NVRTC_ERROR_NOT_FOUND :: int where
  "NVRTC_ERROR_NOT_FOUND = 10000"

definition no_nul :: "string \<Rightarrow> bool" where
  "no_nul s \<longleftrightarrow> CHR 0x00 \<notin> set s"

section \<open>Libraries\<close>

fun open_first :: "'w linker \<Rightarrow> string list \<Rightarrow> 'w \<Rightarrow> u64 option \<times> 'w" where
  "open_first ld [] w = (None, w)"
| "open_first ld (name # names) w =
     (let w1 = dl_clear_error ld w in
      if \<not> no_nul name then open_first ld names w1
      else case dl_open ld name w1 of
        (h, w2) \<Rightarrow> if h \<noteq> 0 then (Some h, w2) else open_first ld names w2)"

definition open_lib :: "'w linker \<Rightarrow> string \<Rightarrow> string list \<Rightarrow> 'w \<Rightarrow> (vugva_error + u64) \<times> 'w" where
  "open_lib ld soname fallbacks w =
     (case open_first ld (soname # fallbacks) w of
        (Some h, w') \<Rightarrow> (Inr h, w')
      | (None, w') \<Rightarrow> (Inl (LibLoad ''cuda/nvrtc'' 0), w'))"

definition resolve :: "'w linker \<Rightarrow> u64 \<Rightarrow> string \<Rightarrow> 'w \<Rightarrow> u64 option \<times> 'w" where
  "resolve ld handle name w =
     (if \<not> no_nul name then (None, w)
      else case dl_sym ld handle name w of (p, w') \<Rightarrow> (if p = 0 then None else Some p, w'))"

text \<open>The remembered result, with the library's own name in the error.\<close>

definition library_result :: "string \<Rightarrow> vugva_error + u64 \<Rightarrow> u64 outcome" where
  "library_result soname r = (case r of
      Inr h \<Rightarrow> Ok h
    | Inl (LibLoad _ _) \<Rightarrow> Err (LibLoad soname 0)
    | Inl _ \<Rightarrow> Panic)"

definition cuda_module :: "'w linker \<Rightarrow> ('w process, u64) op" where
  "cuda_module ld s =
     (case ps_cuda s of
        Some r \<Rightarrow> (library_result CUDA_SONAME r, s)
      | None \<Rightarrow>
          (case open_lib ld CUDA_SONAME [''libcuda.so'', ''cuda''] (ps_world s) of
             (r, w) \<Rightarrow> (library_result CUDA_SONAME r, s\<lparr>ps_cuda := Some r, ps_world := w\<rparr>)))"

definition nvrtc_module :: "'w linker \<Rightarrow> ('w process, u64) op" where
  "nvrtc_module ld s =
     (case ps_nvrtc s of
        Some r \<Rightarrow> (library_result NVRTC_SONAME r, s)
      | None \<Rightarrow>
          (case open_lib ld NVRTC_SONAME [''libnvrtc.so.13'', ''libnvrtc.so.12'', ''libnvrtc.so.11'',
                  ''libnvrtc.so.10'', ''libnvrtc.so''] (ps_world s) of
             (r, w) \<Rightarrow> (library_result NVRTC_SONAME r, s\<lparr>ps_nvrtc := Some r, ps_world := w\<rparr>)))"

section \<open>Symbols\<close>

definition ends_with :: "string \<Rightarrow> string \<Rightarrow> bool" where
  "ends_with s suffix \<longleftrightarrow> starts_with (rev s) (rev suffix)"

fun resolve_first :: "'w linker \<Rightarrow> u64 \<Rightarrow> string list \<Rightarrow> 'w \<Rightarrow> usize \<times> 'w" where
  "resolve_first ld h [] w = (0, w)"
| "resolve_first ld h (name # names) w =
     (case resolve ld h name w of
        (Some p, w') \<Rightarrow> (p, w')
      | (None, w') \<Rightarrow> resolve_first ld h names w')"

text \<open>The name as given, then its two versioned spellings unless it has a version.\<close>

definition spellings :: "string \<Rightarrow> string list" where
  "spellings name =
     name # (if \<not> ends_with name ''_v2'' \<and> \<not> ends_with name ''_v3''
             then map (\<lambda>suffix. name @ suffix) [''_v2'', ''_v3''] else [])"

definition cuda_sym_addr :: "'w linker \<Rightarrow> string \<Rightarrow> ('w process, usize) op" where
  "cuda_sym_addr ld name =
     bindM (catchM (cuda_module ld)) (\<lambda>lib. case lib of
        Inl _ \<Rightarrow> retM 0
      | Inr h \<Rightarrow> (\<lambda>s. case resolve_first ld h (spellings name) (ps_world s) of
                    (p, w) \<Rightarrow> (Ok p, s\<lparr>ps_world := w\<rparr>)))"

definition nvrtc_sym_addr :: "'w linker \<Rightarrow> string \<Rightarrow> ('w process, usize) op" where
  "nvrtc_sym_addr ld name =
     bindM (catchM (nvrtc_module ld)) (\<lambda>lib. case lib of
        Inl _ \<Rightarrow> retM 0
      | Inr h \<Rightarrow> (\<lambda>s. case resolve ld h name (ps_world s) of
                    (p, w) \<Rightarrow> (Ok (case p of None \<Rightarrow> 0 | Some p \<Rightarrow> p), s\<lparr>ps_world := w\<rparr>)))"

definition nvrtc_sym_to_fn :: "'w linker \<Rightarrow> string \<Rightarrow> ('w process, usize) op" where
  "nvrtc_sym_to_fn ld name =
     bindM (nvrtc_module ld) (\<lambda>h s. case resolve ld h name (ps_world s) of
        (Some p, w) \<Rightarrow> (Ok p, s\<lparr>ps_world := w\<rparr>)
      | (None, w) \<Rightarrow> (Err (LibLoad ''libnvrtc.so'' 0), s\<lparr>ps_world := w\<rparr>))"

section \<open>Entry points\<close>

text \<open>
  The wrappers the two macros declare: \<open>call\<close> is the foreign function of that name with its
  arguments, run at the address found.
\<close>

definition cuda_addr :: "'w linker \<Rightarrow> string \<Rightarrow> ('w process, usize) op" where
  "cuda_addr ld name s =
     (case ps_cuda_slots s name of
        Some addr \<Rightarrow> (Ok addr, s)
      | None \<Rightarrow> bindM (cuda_sym_addr ld name)
                 (\<lambda>addr s. (Ok addr, s\<lparr>ps_cuda_slots := (ps_cuda_slots s)(name \<mapsto> addr)\<rparr>)) s)"

definition cuda_entry :: "'w linker \<Rightarrow> string \<Rightarrow> (usize \<Rightarrow> 'w \<Rightarrow> int \<times> 'w) \<Rightarrow> ('w process, int) op" where
  "cuda_entry ld name call =
     bindM (cuda_addr ld name) (\<lambda>addr.
     if addr = 0 then retM CUDA_ERROR_NOT_FOUND
     else (\<lambda>s. case call addr (ps_world s) of (rc, w) \<Rightarrow> (Ok rc, s\<lparr>ps_world := w\<rparr>)))"

definition nvrtc_addr :: "'w linker \<Rightarrow> string \<Rightarrow> ('w process, usize) op" where
  "nvrtc_addr ld name s =
     (case ps_nvrtc_slots s name of
        Some addr \<Rightarrow> (Ok addr, s)
      | None \<Rightarrow> bindM (nvrtc_sym_addr ld name)
                 (\<lambda>addr s. (Ok addr, s\<lparr>ps_nvrtc_slots := (ps_nvrtc_slots s)(name \<mapsto> addr)\<rparr>)) s)"

definition nvrtc_entry :: "'w linker \<Rightarrow> string \<Rightarrow> (usize \<Rightarrow> 'w \<Rightarrow> int \<times> 'w) \<Rightarrow> ('w process, int) op" where
  "nvrtc_entry ld name call =
     bindM (nvrtc_addr ld name) (\<lambda>addr.
     if addr = 0 then retM NVRTC_ERROR_NOT_FOUND
     else (\<lambda>s. case call addr (ps_world s) of (rc, w) \<Rightarrow> (Ok rc, s\<lparr>ps_world := w\<rparr>)))"


section \<open>Text of a foreign string\<close>

text \<open>
  \<open>CStr::to_str\<close> and \<open>to_string_lossy\<close>, on the bytes. A unit is a well-formed UTF-8 sequence or the
  longest prefix of one that is broken off, and the lossy conversion writes the replacement
  character for each of the latter.
\<close>

definition byte_at :: "string \<Rightarrow> nat \<Rightarrow> nat" where
  "byte_at s i = (if i < length s then of_char (s ! i) else 0)"

definition between :: "nat \<Rightarrow> nat \<Rightarrow> nat \<Rightarrow> bool" where
  "between lo x hi \<longleftrightarrow> lo \<le> x \<and> x \<le> hi"

definition continues :: "string \<Rightarrow> nat \<Rightarrow> bool" where
  "continues s i \<longleftrightarrow> between 128 (byte_at s i) 191"

definition second_of_three :: "nat \<Rightarrow> nat \<Rightarrow> bool" where
  "second_of_three a b \<longleftrightarrow> a = 224 \<and> between 160 b 191 \<or> between 225 a 236 \<and> between 128 b 191
     \<or> a = 237 \<and> between 128 b 159 \<or> between 238 a 239 \<and> between 128 b 191"

definition second_of_four :: "nat \<Rightarrow> nat \<Rightarrow> bool" where
  "second_of_four a b \<longleftrightarrow> a = 240 \<and> between 144 b 191 \<or> between 241 a 243 \<and> between 128 b 191
     \<or> a = 244 \<and> between 128 b 143"

definition utf8_unit :: "string \<Rightarrow> bool \<times> nat" where
  "utf8_unit s = (let a = byte_at s 0; b = byte_at s 1 in
     if a < 128 then (True, 1)
     else if between 194 a 223 then (if continues s 1 then (True, 2) else (False, 1))
     else if between 224 a 239 then
       (if \<not> second_of_three a b then (False, 1) else if \<not> continues s 2 then (False, 2) else (True, 3))
     else if between 240 a 244 then
       (if \<not> second_of_four a b then (False, 1) else if \<not> continues s 2 then (False, 2)
        else if \<not> continues s 3 then (False, 3) else (True, 4))
     else (False, 1))"

lemma utf8_unit_pos: "0 < snd (utf8_unit s)"
  by (simp add: utf8_unit_def Let_def)

lemma utf8_unit_consumes: "(ok, n) = utf8_unit s \<Longrightarrow> 0 < n" "utf8_unit s = (ok, n) \<Longrightarrow> 0 < n"
  using utf8_unit_pos [of s] by (metis snd_conv)+

function utf8_units :: "string \<Rightarrow> (bool \<times> string) list" where
  "utf8_units [] = []"
| "utf8_units (c # s) = (case utf8_unit (c # s) of
     (ok, n) \<Rightarrow> (ok, take n (c # s)) # utf8_units (drop n (c # s)))"
  by pat_completeness auto

termination utf8_units
  by (relation "measure length") (auto dest: utf8_unit_consumes)

definition replacement_char :: string where
  "replacement_char = [CHR 0xEF, CHR 0xBF, CHR 0xBD]"

definition utf8_ok :: "string \<Rightarrow> bool" where
  "utf8_ok s \<longleftrightarrow> (\<forall>(ok, u) \<in> set (utf8_units s). ok)"

definition utf8_lossy :: "string \<Rightarrow> string" where
  "utf8_lossy s = concat (map (\<lambda>(ok, u). if ok then u else replacement_char) (utf8_units s))"

section \<open>Error strings\<close>

definition driver_error_string :: "'w linker \<Rightarrow> string \<Rightarrow> int \<Rightarrow> ('w process, string option) op" where
  "driver_error_string ld symbol code =
     bindM (cuda_sym_addr ld symbol) (\<lambda>addr.
     if addr = 0 then retM None
     else (\<lambda>s. case dl_text ld addr code (ps_world s) of
        ((rc, text), w) \<Rightarrow>
          (Ok (if rc \<noteq> CUDA_SUCCESS then None else map_option utf8_lossy text), s\<lparr>ps_world := w\<rparr>)))"

definition error_name :: "'w linker \<Rightarrow> int \<Rightarrow> ('w process, string) op" where
  "error_name ld code =
     bindM (driver_error_string ld ''cuGetErrorName'' code) (\<lambda>text. retM (case text of
        Some s \<Rightarrow> s
      | None \<Rightarrow>
          if code = CUDA_SUCCESS then ''CUDA_SUCCESS''
          else if code = CUDA_ERROR_NOT_FOUND then ''CUDA_ERROR_NOT_FOUND (no driver, or symbol missing)''
          else ''CUresult('' @ show_int code @ '')''))"

definition cuda_error_string :: "'w linker \<Rightarrow> int \<Rightarrow> ('w process, string) op" where
  "cuda_error_string ld code =
     bindM (driver_error_string ld ''cuGetErrorString'' code)
       (\<lambda>text. case text of Some s \<Rightarrow> retM s | None \<Rightarrow> error_name ld code)"

definition nvrtc_get_error_string :: "'w linker \<Rightarrow> int \<Rightarrow> ('w process, string option) op" where
  "nvrtc_get_error_string ld code =
     bindM (nvrtc_addr ld ''nvrtcGetErrorString'') (\<lambda>addr.
     if addr = 0 then retM None
     else (\<lambda>s. case dl_nvrtc_text ld addr code (ps_world s) of (text, w) \<Rightarrow> (Ok text, s\<lparr>ps_world := w\<rparr>)))"

definition nvrtc_error_string :: "'w linker \<Rightarrow> int \<Rightarrow> ('w process, string) op" where
  "nvrtc_error_string ld code =
     (if code = NVRTC_ERROR_NOT_FOUND
      then retM ''NVRTC_ERROR_NOT_FOUND (libnvrtc.so is not available)''
      else bindM (nvrtc_get_error_string ld code) (\<lambda>p. retM (case p of
             None \<Rightarrow> ''nvrtcResult('' @ show_int code @ '')''
           | Some s \<Rightarrow> if utf8_ok s \<and> s \<noteq> [] then s else ''nvrtcResult('' @ show_int code @ '')'')))"

section \<open>Missing libraries\<close>

text \<open>No file of the names tried can be opened, now or later.\<close>

definition cannot_open :: "'w linker \<Rightarrow> string list \<Rightarrow> bool" where
  "cannot_open ld names \<longleftrightarrow> (\<forall>name \<in> set names. \<forall>w. fst (dl_open ld name w) = 0)"

lemma open_first_fails: "cannot_open ld names \<Longrightarrow> fst (open_first ld names w) = None"
  by (induction names arbitrary: w) (auto simp: cannot_open_def Let_def case_prod_beta)

text \<open>What a library cell can hold: a handle that is not null, or the error of the open.\<close>

definition cell_ok :: "(vugva_error + u64) option \<Rightarrow> bool" where
  "cell_ok c \<longleftrightarrow> (case c of None \<Rightarrow> True | Some (Inr h) \<Rightarrow> h \<noteq> 0 | Some (Inl e) \<Rightarrow> e = LibLoad ''cuda/nvrtc'' 0)"

lemma open_first_handle: "open_first ld names w = (Some h, w') \<Longrightarrow> h \<noteq> 0"
  by (induction names arbitrary: w) (auto simp: Let_def case_prod_beta split: if_splits)


text \<open>A process in which the driver has not been opened successfully so far.\<close>

definition driver_absent :: "'w process \<Rightarrow> bool" where
  "driver_absent s \<longleftrightarrow> (ps_cuda s = None \<or> ps_cuda s = Some (Inl (LibLoad ''cuda/nvrtc'' 0)))
     \<and> (\<forall>name. ps_cuda_slots s name = None \<or> ps_cuda_slots s name = Some 0)"

lemma cuda_module_absent:
  assumes no: "cannot_open ld (CUDA_SONAME # [''libcuda.so'', ''cuda''])" and s: "driver_absent s"
  shows "\<exists>w. cuda_module ld s = (Err (LibLoad CUDA_SONAME 0), s\<lparr>ps_cuda := Some (Inl (LibLoad ''cuda/nvrtc'' 0)), ps_world := w\<rparr>)
    \<and> (ps_cuda s \<noteq> None \<longrightarrow> w = ps_world s)"
proof (cases "ps_cuda s")
  case None
  obtain w where "open_first ld (CUDA_SONAME # [''libcuda.so'', ''cuda'']) (ps_world s) = (None, w)"
    using open_first_fails [OF no, of "ps_world s"] by (metis prod.collapse)
  with None show ?thesis
    by (intro exI [of _ w]) (simp add: cuda_module_def open_lib_def library_result_def)
next
  case (Some r)
  with s have "r = Inl (LibLoad ''cuda/nvrtc'' 0)" by (simp add: driver_absent_def)
  with Some show ?thesis
    by (intro exI [of _ "ps_world s"]) (simp add: cuda_module_def library_result_def)
qed

lemma cuda_sym_absent:
  assumes no: "cannot_open ld (CUDA_SONAME # [''libcuda.so'', ''cuda''])" and s: "driver_absent s"
  shows "\<exists>s'. cuda_sym_addr ld name s = (Ok 0, s') \<and> driver_absent s' \<and> ps_cuda_slots s' = ps_cuda_slots s
    \<and> ps_cuda s' \<noteq> None \<and> (ps_cuda s \<noteq> None \<longrightarrow> s' = s)"
proof -
  from cuda_module_absent [OF no s] obtain w
    where m: "cuda_module ld s = (Err (LibLoad CUDA_SONAME 0), s\<lparr>ps_cuda := Some (Inl (LibLoad ''cuda/nvrtc'' 0)), ps_world := w\<rparr>)"
      and w: "ps_cuda s \<noteq> None \<longrightarrow> w = ps_world s" by blast
  let ?s = "s\<lparr>ps_cuda := Some (Inl (LibLoad ''cuda/nvrtc'' 0)), ps_world := w\<rparr>"
  have "cuda_sym_addr ld name s = (Ok 0, ?s)"
    by (simp add: cuda_sym_addr_def bindM_def catchM_def m retM_def)
  moreover have "driver_absent ?s" using s by (simp add: driver_absent_def)
  moreover have "ps_cuda s \<noteq> None \<longrightarrow> ?s = s" using s w by (cases s) (auto simp: driver_absent_def)
  ultimately show ?thesis by (intro exI [of _ ?s]) simp
qed

text \<open>
  Without a driver every entry point returns the code for a missing symbol: the foreign
  function is not called, the answer is remembered, so that neither a library that appears later nor
  anything else in the world changes it and the linker is not asked again, opening the library is
  an error that names it, and the code has a text of its own.
\<close>

theorem missing_driver_is_an_error:
  assumes no: "cannot_open ld (CUDA_SONAME # [''libcuda.so'', ''cuda''])" and s: "driver_absent s"
    and run: "cuda_entry ld name call s = (r, s')"
  shows "r = Ok CUDA_ERROR_NOT_FOUND \<and> driver_absent s' \<and> ps_cuda_slots s' name = Some 0
    \<and> (\<forall>ld' call' w. cuda_entry ld' name call' (s'\<lparr>ps_world := w\<rparr>) = (Ok CUDA_ERROR_NOT_FOUND, s'\<lparr>ps_world := w\<rparr>))
    \<and> fst (cuda_module ld s) = Err (LibLoad CUDA_SONAME 0)
    \<and> fst (error_name ld CUDA_ERROR_NOT_FOUND s) = Ok ''CUDA_ERROR_NOT_FOUND (no driver, or symbol missing)''"
proof -
  from cuda_sym_absent [OF no s, of name] obtain s1
    where s1: "cuda_sym_addr ld name s = (Ok 0, s1)" "driver_absent s1" "ps_cuda_slots s1 = ps_cuda_slots s" by blast
  have addr: "\<exists>s2. cuda_addr ld name s = (Ok 0, s2) \<and> driver_absent s2 \<and> ps_cuda_slots s2 name = Some 0"
  proof (cases "ps_cuda_slots s name")
    case None
    let ?s2 = "s1\<lparr>ps_cuda_slots := (ps_cuda_slots s1)(name \<mapsto> 0)\<rparr>"
    have "cuda_addr ld name s = (Ok 0, ?s2)" using None s1(1) by (simp add: cuda_addr_def bindM_def)
    moreover have "driver_absent ?s2" using s1(2) by (simp add: driver_absent_def)
    ultimately show ?thesis by (intro exI [of _ ?s2]) simp
  next
    case (Some a)
    moreover have "a = 0" using s Some by (auto simp: driver_absent_def dest: spec [of _ name])
    ultimately show ?thesis using s by (intro exI [of _ s]) (simp add: cuda_addr_def)
  qed
  then have rs: "r = Ok CUDA_ERROR_NOT_FOUND" and s': "driver_absent s'" "ps_cuda_slots s' name = Some 0"
    using run by (auto simp: cuda_entry_def bindM_def retM_def)
  moreover have "cuda_entry ld' name call' (s'\<lparr>ps_world := w\<rparr>) = (Ok CUDA_ERROR_NOT_FOUND, s'\<lparr>ps_world := w\<rparr>)"
    for ld' :: "'a linker" and call' w
    using s'(2) by (simp add: cuda_entry_def cuda_addr_def bindM_def retM_def)
  moreover have "fst (cuda_module ld s) = Err (LibLoad CUDA_SONAME 0)"
    using cuda_module_absent [OF no s] by auto
  moreover from cuda_sym_absent [OF no s, of "''cuGetErrorName''"] obtain s3
    where "cuda_sym_addr ld ''cuGetErrorName'' s = (Ok 0, s3)" by blast
  then have "fst (error_name ld CUDA_ERROR_NOT_FOUND s) = Ok ''CUDA_ERROR_NOT_FOUND (no driver, or symbol missing)''"
    by (simp add: error_name_def driver_error_string_def bindM_def retM_def CUDA_ERROR_NOT_FOUND_def CUDA_SUCCESS_def)
  ultimately show ?thesis by blast
qed


text \<open>A linker on a machine without the driver, and one that has it with two versioned symbols.\<close>

definition no_driver :: "nat linker" where
  "no_driver = \<lparr>dl_clear_error = Suc, dl_open = (\<lambda>name w. (0, Suc w)), dl_sym = (\<lambda>h name w. (0, Suc w)),
     dl_text = (\<lambda>a c w. ((1, None), w)), dl_nvrtc_text = (\<lambda>a c w. (None, w))\<rparr>"

definition new_process :: "nat process" where
  "new_process = \<lparr>ps_cuda = None, ps_nvrtc = None, ps_cuda_slots = Map.empty, ps_nvrtc_slots = Map.empty, ps_world = 0\<rparr>"

theorem missing_driver_is_an_error_witness:
  "fst (cuda_entry no_driver ''cuInit'' (\<lambda>addr w. (0, w)) new_process) = Ok 500"
proof -
  have no: "cannot_open no_driver (CUDA_SONAME # [''libcuda.so'', ''cuda''])" "driver_absent new_process"
    by (simp_all add: cannot_open_def no_driver_def driver_absent_def new_process_def)
  obtain r s' where run: "cuda_entry no_driver ''cuInit'' (\<lambda>addr w. (0, w)) new_process = (r, s')" by force
  from missing_driver_is_an_error [OF no run] run show ?thesis by (simp add: CUDA_ERROR_NOT_FOUND_def)
qed

section \<open>Present libraries\<close>

text \<open>The address of a name in a library whose symbols are \<open>tab\<close>.\<close>

definition address_of :: "(string \<Rightarrow> u64) \<Rightarrow> string \<Rightarrow> usize" where
  "address_of tab name =
     (case find (\<lambda>n. tab n \<noteq> 0) (spellings name) of None \<Rightarrow> 0 | Some n \<Rightarrow> tab n)"

lemma resolve_first_table:
  assumes tab: "\<forall>n w. fst (dl_sym ld h n w) = tab n" and "\<forall>n \<in> set names. no_nul n"
  shows "fst (resolve_first ld h names w) = (case find (\<lambda>n. tab n \<noteq> 0) names of None \<Rightarrow> 0 | Some n \<Rightarrow> tab n)"
  using assms(2)
proof (induction names arbitrary: w)
  case (Cons n names)
  obtain p w1 where "dl_sym ld h n w = (p, w1)" by force
  moreover from this tab have "p = tab n" by (metis fst_conv)
  ultimately show ?case using Cons by (simp add: resolve_def)
qed simp

text \<open>
  With the driver open, the first call of an entry point binds it: to the symbol of its
  own name when the library has one, else to the one with \<open>_v2\<close>, else with \<open>_v3\<close>, where a name that
  carries a version is looked up only as it is. The call then runs the function at that address, or
  returns the missing-symbol code when there is none. Every later call uses the address bound, and
  the linker is not asked again.
\<close>

theorem entry_point_bound_once:
  assumes lib: "ps_cuda s = Some (Inr h)" and fresh: "ps_cuda_slots s name = None"
    and tab: "\<forall>n w. fst (dl_sym ld h n w) = tab n" and name: "no_nul name"
    and addr: "addr = address_of tab name"
    and run: "cuda_entry ld name call s = (r, s')"
  shows "ps_cuda_slots s' = (ps_cuda_slots s)(name \<mapsto> addr)
    \<and> (addr = 0 \<longrightarrow> r = Ok CUDA_ERROR_NOT_FOUND)
    \<and> (addr \<noteq> 0 \<longrightarrow> (\<exists>w. r = Ok (fst (call addr w)) \<and> ps_world s' = snd (call addr w)))
    \<and> (\<forall>ld' call' w. cuda_entry ld' name call' (s'\<lparr>ps_world := w\<rparr>) =
         (if addr = 0 then (Ok CUDA_ERROR_NOT_FOUND, s'\<lparr>ps_world := w\<rparr>)
          else (Ok (fst (call' addr w)), s'\<lparr>ps_world := snd (call' addr w)\<rparr>)))"
proof -
  have "\<forall>n \<in> set (spellings name). no_nul n" using name by (auto simp: spellings_def no_nul_def)
  from resolve_first_table [OF tab this, of "ps_world s"] addr obtain w1
    where res: "resolve_first ld h (spellings name) (ps_world s) = (addr, w1)"
    by (metis address_of_def prod.collapse)
  let ?s1 = "s\<lparr>ps_world := w1, ps_cuda_slots := (ps_cuda_slots s)(name \<mapsto> addr)\<rparr>"
  have bound: "cuda_addr ld name s = (Ok addr, ?s1)"
    using fresh lib res
    by (simp add: cuda_addr_def cuda_sym_addr_def cuda_module_def library_result_def catchM_def bindM_def)
  have again: "cuda_entry ld' name call' (t\<lparr>ps_world := w\<rparr>) =
         (if addr = 0 then (Ok CUDA_ERROR_NOT_FOUND, t\<lparr>ps_world := w\<rparr>)
          else (Ok (fst (call' addr w)), t\<lparr>ps_world := snd (call' addr w)\<rparr>))"
    if "ps_cuda_slots t name = Some addr" for ld' call' t w
    using that by (simp add: cuda_entry_def cuda_addr_def bindM_def retM_def case_prod_beta)
  show ?thesis
  proof (cases "addr = 0")
    case True
    then have "r = Ok CUDA_ERROR_NOT_FOUND" "s' = ?s1" using run bound by (simp_all add: cuda_entry_def bindM_def retM_def)
    with True again [of s'] show ?thesis by simp
  next
    case False
    obtain rc w2 where call: "call addr w1 = (rc, w2)" by force
    have "r = Ok rc" "s' = ?s1\<lparr>ps_world := w2\<rparr>" using run bound call False by (simp_all add: cuda_entry_def bindM_def)
    with False call again [of s'] show ?thesis by (auto intro: exI [of _ w1])
  qed
qed

definition with_driver :: "nat linker" where
  "with_driver = no_driver\<lparr>dl_sym := (\<lambda>h name w. (if name \<in> {''cuInit'', ''cuMemAlloc_v2''} then 77 else 0, Suc w))\<rparr>"

theorem entry_point_bound_once_witness:
  "\<exists>r s'. cuda_entry with_driver ''cuMemAlloc'' (\<lambda>addr w. (int addr, w)) (new_process\<lparr>ps_cuda := Some (Inr 5)\<rparr>) = (r, s')
     \<and> r = Ok 77 \<and> ps_cuda_slots s' ''cuMemAlloc'' = Some 77"
proof -
  let ?tab = "\<lambda>name. if name \<in> {''cuInit'', ''cuMemAlloc_v2''} then 77 else (0 :: nat)"
  obtain r s' where run: "cuda_entry with_driver ''cuMemAlloc'' (\<lambda>addr w. (int addr, w)) (new_process\<lparr>ps_cuda := Some (Inr 5)\<rparr>) = (r, s')"
    by force
  have "77 = address_of ?tab ''cuMemAlloc''" by (simp add: address_of_def spellings_def ends_with_def)
  moreover have "\<forall>n w. fst (dl_sym with_driver 5 n w) = ?tab n" by (simp add: with_driver_def)
  ultimately show ?thesis
    using entry_point_bound_once [of "new_process\<lparr>ps_cuda := Some (Inr 5)\<rparr>" 5 "''cuMemAlloc''" with_driver ?tab 77, OF _ _ _ _ _ run] run
    by (auto simp: new_process_def no_nul_def)
qed

section \<open>Error texts\<close>

lemma utf8_lossy_empty: "utf8_lossy s = [] \<Longrightarrow> s = []"
proof (cases s)
  case (Cons c r)
  obtain ok n where u: "utf8_unit (c # r) = (ok, n)" by force
  then have "take n (c # r) \<noteq> []" using utf8_unit_consumes(2) by fastforce
  then have "utf8_lossy (c # r) \<noteq> []" using u by (simp add: utf8_lossy_def replacement_char_def)
  then show "utf8_lossy s = [] \<Longrightarrow> s = []" using Cons by simp
qed

text \<open>
  The text of a compiler status is never empty, whatever the library answers. The name
  of a driver status is empty only when the driver itself names it with an empty string, which is
  passed on; the description falls back to the name.
\<close>

theorem error_texts:
  "(nvrtc_error_string ld code s = (Ok t, s') \<longrightarrow> t \<noteq> [])
   \<and> (error_name ld code s = (Ok [], s') \<longrightarrow> (\<exists>addr w. snd (fst (dl_text ld addr code w)) = Some []))
   \<and> (driver_error_string ld ''cuGetErrorString'' code s = (Ok None, u) \<longrightarrow> cuda_error_string ld code s = error_name ld code u)"
proof (intro conjI impI)
  assume "nvrtc_error_string ld code s = (Ok t, s')"
  then show "t \<noteq> []"
    by (auto simp: nvrtc_error_string_def bindM_Ok_iff retM_def split: option.splits if_splits)
next
  assume "error_name ld code s = (Ok [], s')"
  then obtain msg u where d: "driver_error_string ld ''cuGetErrorName'' code s = (Ok msg, u)"
    and "(case msg of Some s \<Rightarrow> s
      | None \<Rightarrow> if code = CUDA_SUCCESS then ''CUDA_SUCCESS''
          else if code = CUDA_ERROR_NOT_FOUND then ''CUDA_ERROR_NOT_FOUND (no driver, or symbol missing)''
          else ''CUresult('' @ show_int code @ '')'') = []"
    by (auto simp: error_name_def bindM_Ok_iff retM_def)
  then have empty: "msg = Some []" by (cases msg) (auto split: if_splits)
  obtain addr v where "(if addr = 0 then retM None
     else (\<lambda>s. case dl_text ld addr code (ps_world s) of
        ((rc, text), w) \<Rightarrow>
          (Ok (if rc \<noteq> CUDA_SUCCESS then None else map_option utf8_lossy text), s\<lparr>ps_world := w\<rparr>))) v = (Ok (Some []), u)"
    using d unfolding empty driver_error_string_def bindM_Ok_iff by blast
  then have "snd (fst (dl_text ld addr code (ps_world v))) = Some []"
    by (auto simp: retM_def split: if_splits prod.splits dest: utf8_lossy_empty)
  then show "\<exists>addr w. snd (fst (dl_text ld addr code w)) = Some []" by blast
next
  assume "driver_error_string ld ''cuGetErrorString'' code s = (Ok None, u)"
  then show "cuda_error_string ld code s = error_name ld code u"
    by (simp add: cuda_error_string_def bindM_def)
qed

theorem error_texts_witness:
  "\<exists>t s'. nvrtc_error_string no_driver 6 new_process = (Ok t, s') \<and> t \<noteq> []"
proof -
  obtain t s' where run: "nvrtc_error_string no_driver 6 new_process = (Ok t, s')"
    by (simp add: nvrtc_error_string_def NVRTC_ERROR_NOT_FOUND_def bindM_def retM_def nvrtc_get_error_string_def
        nvrtc_addr_def new_process_def nvrtc_sym_addr_def catchM_def nvrtc_module_def open_lib_def NVRTC_SONAME_def
        no_nul_def no_driver_def Let_def library_result_def)
  with error_texts [of no_driver 6 new_process t s'] show ?thesis by blast
qed

end
