(* ===== verification/Prefetch.thy ===== *)
theory Prefetch
  imports Driver Vmt
begin

text \<open>
  \<open>src/prefetch.rs\<close>: the jobs of the look-ahead prefetcher and the wait for all of them. The
  capacity the vector is created with is not part of the model.
\<close>

record layer_location =
  ll_gpu_ordinal :: int
  ll_tier :: tier
  ll_name :: string

type_synonym layer_schedule = "layer_location list"

record prefetch_job =
  pj_name :: string
  pj_event :: cuda_event
  pj_dst_gpu :: int

record look_ahead_prefetcher =
  la_depth :: usize
  la_inflight :: "prefetch_job list"

definition prefetcher_new :: "usize \<Rightarrow> look_ahead_prefetcher" where
  "prefetcher_new depth = \<lparr>la_depth = depth, la_inflight = []\<rparr>"

definition drop_job :: "'w platform \<Rightarrow> prefetch_job \<Rightarrow> 'w \<Rightarrow> 'w" where
  "drop_job pf job = event_drop pf (pj_event job)"

text \<open>
  The loop of \<open>sync_all\<close> over the drained jobs. A job is dropped at the end of its round; when the
  wait for one fails, that job and then the jobs still to be drained are dropped.
\<close>

fun sync_jobs :: "'w platform \<Rightarrow> prefetch_job list \<Rightarrow> ('w, unit) op" where
  "sync_jobs pf [] w = (Ok (), w)"
| "sync_jobs pf (job # jobs) w =
     (case event_synchronize pf (pj_event job) w of
        (Ok _, w1) \<Rightarrow> sync_jobs pf jobs (drop_job pf job w1)
      | (Err e, w1) \<Rightarrow> (Err e, fold (drop_job pf) jobs (drop_job pf job w1))
      | (Panic, w1) \<Rightarrow> (Panic, fold (drop_job pf) jobs (drop_job pf job w1)))"

definition sync_all :: "'w platform \<Rightarrow> ('w \<times> look_ahead_prefetcher, unit) op" where
  "sync_all pf = (\<lambda>(w, p). case sync_jobs pf (la_inflight p) w of
     (r, w') \<Rightarrow> (r, (w', p\<lparr>la_inflight := []\<rparr>)))"

definition prefetcher_inflight_count :: "look_ahead_prefetcher \<Rightarrow> usize" where
  "prefetcher_inflight_count p = length (la_inflight p)"

section \<open>What the wait does\<close>

text \<open>
  What is documented of events: waiting for one ends none, and destroying one ends that one.
\<close>

definition counts_events :: "'w platform \<Rightarrow> ('w \<Rightarrow> u64 set) \<Rightarrow> bool" where
  "counts_events pf events \<longleftrightarrow>
     (\<forall>e w. events (snd (pf_event_sync pf e w)) = events w)
   \<and> (\<forall>e w. events (snd (pf_event_destroy pf e w)) = events w - {e})"

lemma drop_job_events:
  assumes "counts_events pf events" and "ce_inner (pj_event job) \<noteq> 0"
  shows "events (drop_job pf job w) = events w - {ce_inner (pj_event job)}"
  using assms by (simp add: counts_events_def drop_job_def event_drop_def cu_ignore_def)

lemma drop_jobs_events:
  assumes "counts_events pf events"
  shows "\<forall>job \<in> set jobs. ce_inner (pj_event job) \<noteq> 0 \<Longrightarrow>
    events (fold (drop_job pf) jobs w) = events w - (\<lambda>j. ce_inner (pj_event j)) ` set jobs"
  by (induction jobs arbitrary: w) (auto simp: drop_job_events [OF assms])

lemma sync_jobs_events:
  assumes "counts_events pf events"
  shows "\<forall>job \<in> set jobs. ce_inner (pj_event job) \<noteq> 0 \<Longrightarrow> sync_jobs pf jobs w = (r, w') \<Longrightarrow>
    events w' = events w - (\<lambda>j. ce_inner (pj_event j)) ` set jobs \<and> r \<noteq> Panic"
proof (induction jobs arbitrary: w)
  case (Cons job jobs)
  obtain rc w1 where sync: "pf_event_sync pf (ce_inner (pj_event job)) w = (rc, w1)" by force
  have w1: "events w1 = events w" using assms sync unfolding counts_events_def by (metis snd_conv)
  have w2: "events (drop_job pf job w1) = events w - {ce_inner (pj_event job)}"
    using drop_job_events [OF assms] Cons.prems(1) w1 by simp
  show ?case
  proof (cases "rc = 0")
    case True
    then have "sync_jobs pf jobs (drop_job pf job w1) = (r, w')"
      using Cons.prems(2) sync by (simp add: event_synchronize_def cu_call_def check_cu_def)
    from Cons.IH [OF _ this] Cons.prems(1) w2 show ?thesis by auto
  next
    case False
    then have "r = Err (CudaError ''cuEventSynchronize'' rc)" "w' = fold (drop_job pf) jobs (drop_job pf job w1)"
      using Cons.prems(2) sync by (auto simp: event_synchronize_def cu_call_def check_cu_def)
    with drop_jobs_events [OF assms, of jobs "drop_job pf job w1"] Cons.prems(1) w2 show ?thesis by auto
  qed
qed auto

text \<open>
  Whatever the wait returns, no job is left in flight and every event is destroyed.
\<close>

lemma sync_all_ends_every_event:
  assumes "counts_events pf events" and "\<forall>job \<in> set (la_inflight p). ce_inner (pj_event job) \<noteq> 0"
    and "sync_all pf (w, p) = (r, (w', p'))"
  shows "prefetcher_inflight_count p' = 0 \<and> r \<noteq> Panic
    \<and> events w' = events w - (\<lambda>j. ce_inner (pj_event j)) ` set (la_inflight p)"
  using sync_jobs_events [OF assms(1,2)] assms(3)
  by (auto simp: sync_all_def prefetcher_inflight_count_def split: prod.splits)

end
