(* ===== verification/Lifetime.thy ===== *)
theory Lifetime
  imports WarmTier
begin

text \<open>
  The life of a tensor in \<open>TieredPool\<close>, over all the parts it passes through: the pools that grant its
  shards, the table that files it, \<open>write_page\<close>, the promotion to a GPU and \<open>deallocate\<close>.
\<close>

section \<open>The shards of a tensor\<close>

text \<open>What the shard on GPU \<open>i\<close> of \<open>N\<close> holds of the data.\<close>

definition shard_data :: "byte list \<Rightarrow> nat \<Rightarrow> nat \<Rightarrow> byte list" where
  "shard_data data N i = take (shard_bytes (length data) N i) (drop (i * (length data div N)) data)"

lemma nth_of_concat:
  "i < length xss \<Longrightarrow> take (length (xss ! i)) (drop (sum_list (map length (take i xss))) (concat xss)) = xss ! i"
proof (induction xss arbitrary: i)
  case (Cons xs xss)
  then show ?case by (cases i) simp_all
qed simp

lemma shard_of_concat:
  assumes t: "length data < W64" and i: "i < N" and len: "length xss = N"
    and sizes: "map length xss = map (shard_bytes (length data) N) [0 ..< N]" and all: "concat xss = data"
  shows "xss ! i = shard_data data N i"
proof -
  have "map length (take i xss) = map (shard_bytes (length data) N) [0 ..< i]"
    using sizes i len by (metis take_map take_upt add_0 less_imp_le)
  also have "\<dots> = map (\<lambda>_. length data div N) [0 ..< i]"
    using i t by (intro map_cong) (simp_all add: shard_bytes_exact)
  finally have "sum_list (map length (take i xss)) = i * (length data div N)" by (simp add: sum_list_triv)
  moreover have "length (xss ! i) = shard_bytes (length data) N i"
    using sizes i len by (metis nth_map nth_upt length_map length_upt add_0 diff_zero)
  ultimately show ?thesis
    using nth_of_concat [of i xss] i len all by (simp add: shard_data_def)
qed

lemma shards_cover:
  assumes "length data < W64" and "0 < N"
  shows "concat (map (shard_data data N) [0 ..< N]) = data"
proof -
  let ?d = "length data div N"
  have "concat (map (shard_data data N) [0 ..< k]) = take (k * ?d) data" if "k < N" for k
    using that
  proof (induction k)
    case (Suc k)
    then have "shard_data data N k = take ?d (drop (k * ?d) data)"
      using assms by (simp add: shard_data_def shard_bytes_exact)
    with Suc show ?case using take_add [of "k * ?d" ?d data] by (simp add: add.commute)
  qed simp
  from this [of "N - 1"] assms(2) have "concat (map (shard_data data N) [0 ..< N - 1]) = take ((N - 1) * ?d) data"
    by simp
  moreover have "shard_bytes (length data) N (N - 1) = length data - (N - 1) * ?d"
  proof -
    have "N * ?d + length data mod N = length data" by simp
    moreover have "N * ?d = (N - 1) * ?d + ?d" using assms(2) by (cases N) simp_all
    ultimately show ?thesis using assms by (simp add: shard_bytes_exact)
  qed
  then have "shard_data data N (N - 1) = drop ((N - 1) * ?d) data" by (simp add: shard_data_def)
  moreover have "[0 ..< N] = [0 ..< N - 1] @ [N - 1]" using assms(2) upt_Suc_append [of 0 "N - 1"] by simp
  ultimately show ?thesis by simp
qed

lemma dp_fits_le: "dp_fits d n \<Longrightarrow> n \<le> dp_align n"
  using ra_align_bounds(1) [of n] by (simp add: dp_fits_def ra_fits_def dp_align_eq)

text \<open>Shards granted by pools that lie apart do not overlap.\<close>

lemma granted_disjoint:
  assumes ok: "pools_ok ds" and fit: "shards_fit ds t" and g: "granted ds es cs"
    and sizes: "map dc_size_bytes cs = map (shard_bytes t (length ds)) [0 ..< length cs]"
  shows "shards_disjoint (map (\<lambda>c. (dc_host_ptr c, dc_size_bytes c)) cs)"
  unfolding shards_disjoint_def sorted_wrt_iff_nth_less
proof (intro allI impI)
  let ?cs = "map (\<lambda>c. (dc_host_ptr c, dc_size_bytes c)) cs"
  fix i j assume "i < j" "j < length ?cs"
  then have ij: "i < length cs" "j < length cs" "i \<noteq> j" by simp_all
  have len: "length cs \<le> length ds" using g by (simp add: granted_def)
  have inside: "shard_range (?cs ! k) \<subseteq> {dp_base_ptr (ds ! k) ..< dp_base_ptr (ds ! k) + dp_capacity (ds ! k)}"
    if k: "k < length cs" for k
  proof -
    have kd: "k < length ds" using k len by simp
    then have "ds ! k \<in> set ds" by simp
    moreover have sz: "dc_size_bytes (cs ! k) = shard_bytes t (length ds) k"
      using sizes k by (metis nth_map nth_upt length_map length_upt add_0 diff_zero)
    ultimately have "dp_fits (ds ! k) (dc_size_bytes (cs ! k))" using fit by (simp add: shards_fit_def)
    then have "dc_size_bytes (cs ! k) \<le> dp_align (dc_size_bytes (cs ! k))" by (rule dp_fits_le)
    with granted_frame(2) [OF ok fit g sizes kd k] show ?thesis
      using k by (auto simp: shard_range_def)
  qed
  have "apart (ds ! i) (ds ! j)" using pools_apart [OF ok] ij len by simp
  with inside [OF ij(1)] inside [OF ij(2)]
  show "shard_range (?cs ! i) \<inter> shard_range (?cs ! j) = {}" by (fastforce simp: apart_def)
qed

section \<open>From allocation to release\<close>

lemma write_new_tensor:
  fixes p :: "'w tiered_pool"
  assumes ok: "pools_ok (tp_dram_pools p)" and some: "tp_dram_pools p \<noteq> []"
    and fit: "shards_fit (tp_dram_pools p) (umul (uproduct shape) es)"
    and run: "tiered_allocate name shape es Dram p = (Ok n, q)"
    and data: "length data = umul (uproduct shape) es" "length (tp_dram_pools p) \<le> length data"
  shows "\<exists>cs ds host. n = alloc_name name (tp_vmt p) \<and> granted (tp_dram_pools p) ds cs
    \<and> length cs = length (tp_dram_pools p)
    \<and> map dc_size_bytes cs = map (shard_bytes (length data) (length cs)) [0 ..< length cs]
    \<and> q = p\<lparr>tp_dram_pools := ds, tp_vmt := filed name (sharded_page n shape es Dram Warm cs) n (tp_vmt p)\<rparr>
    \<and> write_page pf n data q = (Ok (), q\<lparr>tp_host := host\<rparr>)
    \<and> (\<forall>i < length cs. slice host (dc_host_ptr (cs ! i)) (dc_size_bytes (cs ! i)) = shard_data data (length cs) i)"
proof -
  let ?ps = "tp_dram_pools p"
  have "(Dram :: tier) \<noteq> Ssd" by simp
  from tiered_allocate_run [OF ok some fit this run] obtain cs ds where g: "granted ?ps ds cs"
    and sizes: "map dc_size_bytes cs = map (shard_bytes (umul (uproduct shape) es) (length ?ps)) [0 ..< length cs]"
    and q: "q = p\<lparr>tp_dram_pools := ds, tp_vmt := filed name (sharded_page (alloc_name name (tp_vmt p)) shape es Dram
        (if Ok n = Ok (alloc_name name (tp_vmt p)) then tier_state Dram else Allocated) cs)
        (alloc_name name (tp_vmt p)) (tp_vmt p)\<rparr>"
    and r: "n = alloc_name name (tp_vmt p)" "length cs = length ds" by auto
  have len: "length cs = length ?ps" using g r by (simp add: granted_def)
  have q: "q = p\<lparr>tp_dram_pools := ds, tp_vmt := filed name (sharded_page n shape es Dram Warm cs) n (tp_vmt p)\<rparr>"
    using q r(1) by (simp add: tier_state_def)
  let ?pg = "sharded_page n shape es Dram Warm cs"
  have page: "vmt_lookup (tp_vmt q) n = Some ?pg" "pg_tier ?pg \<noteq> Ssd" by (simp_all add: q)
  have d: "length data = pg_size_bytes ?pg" "length data < W64" using data by simp_all
  have N: "0 < length cs" using some len by simp
  have sz: "map dc_size_bytes cs = map (shard_bytes (length data) (length cs)) [0 ..< length cs]"
    using sizes data len by simp
  then have snds: "map snd (shards_of ?pg) = map (shard_bytes (length data) (length cs)) [0 ..< length cs]"
    by (simp add: shards_of_def comp_def)
  have disj: "shards_disjoint (shards_of ?pg)"
    using granted_disjoint [OF ok fit g sizes] by (simp add: shards_of_def)
  have enough: "data = [] \<or> length cs \<le> length data" using data len by simp
  obtain host where run: "write_page pf n data q = (Ok (), q\<lparr>tp_host := host\<rparr>)"
    and all: "concat (map (\<lambda>c. slice host (fst c) (snd c)) (shards_of ?pg)) = data"
    using write_shards [OF page d N snds disj, of pf] unfolding if_P [OF enough] by blast
  let ?xss = "map (\<lambda>c. slice host (fst c) (snd c)) (shards_of ?pg)"
  have "length ?xss = length cs" "map length ?xss = map (shard_bytes (length data) (length cs)) [0 ..< length cs]"
    using snds by (simp_all add: shards_of_def comp_def)
  from shard_of_concat [OF d(2) _ this all]
  have "slice host (dc_host_ptr (cs ! i)) (dc_size_bytes (cs ! i)) = shard_data data (length cs) i"
    if "i < length cs" for i using that by (simp add: shards_of_def)
  with r g len sz q run show ?thesis by blast
qed

lemma access_new_tensor:
  assumes h: "healthy pf dev room" and g: "gpu_ready g p" and page: "vmt_lookup (tp_vmt p) n = Some pg"
    and warm: "pg_tier pg = Dram" "pg_element_size pg \<noteq> 0" "vec_get (pg_dram_chunks pg) g = Some c"
    and quiet: "tp_inflight p n = None" and fit: "dc_size_bytes c \<le> room" and ring: "ring_room 1 (tp_dma p) g"
  shows "\<exists>x q now. access pf n g p = (Ok x, q)
    \<and> slice (dev (tp_world q)) x (dc_size_bytes c) = slice (tp_host p) (dc_host_ptr c) (dc_size_bytes c)
    \<and> tp_dram_pools q = tp_dram_pools p \<and> tp_cluster q = tp_cluster p \<and> g < length (tp_vram_free q)
    \<and> tp_vmt q = vmt_modify n (promoted (gc_ordinals (tp_cluster p) ! g) x (dc_size_bytes c) now) (tp_vmt p)"
proof -
  obtain now w where w: "dev w = dev (tp_world p)" and begun: "access pf n g p
      = access_dram pf n g now (Some c) (p\<lparr>tp_world := w, tp_membrane := observe n (tp_membrane p)\<rparr>)"
    using access_start [OF h g page quiet] warm by auto
  define p1 where "p1 = p\<lparr>tp_world := w, tp_membrane := observe n (tp_membrane p)\<rparr>"
  have p1: "gpu_ready g p1" "vmt_lookup (tp_vmt p1) n = Some pg" "ring_room (Suc 0) (tp_dma p1) g"
    "tp_host p1 = tp_host p" "tp_vmt p1 = tp_vmt p" "tp_cluster p1 = tp_cluster p" "tp_dram_pools p1 = tp_dram_pools p"
    using g page ring by (simp_all add: p1_def gpu_ready_def)
  from access_dram_ok [OF h p1(1,2) warm(2) fit p1(3), of now] obtain x w' caches e where
    run: "access_dram pf n g now (Some c) p1 = (Ok x, p1\<lparr>tp_world := w', tp_vram_free := caches, tp_dma := e,
          tp_vmt := vmt_modify n (promoted (gc_ordinals (tp_cluster p1) ! g) x (dc_size_bytes c) now) (tp_vmt p1)\<rparr>)"
    and w': "dev w' = mem_write x (slice (tp_host p1) (dc_host_ptr c) (dc_size_bytes c)) (dev (tp_world p1))"
    and "gpu_ready g (p1\<lparr>tp_vram_free := caches\<rparr>)" by blast
  then have len: "g < length caches" by (simp add: gpu_ready_def)
  have "slice (dev w') x (dc_size_bytes c) = slice (tp_host p) (dc_host_ptr c) (dc_size_bytes c)"
    unfolding w' p1(4) by (simp add: slice_mem_write)
  with begun run len show ?thesis
    by (intro exI [of _ x] exI [of _ "p1\<lparr>tp_world := w', tp_vram_free := caches, tp_dma := e,
          tp_vmt := vmt_modify n (promoted (gc_ordinals (tp_cluster p1) ! g) x (dc_size_bytes c) now) (tp_vmt p1)\<rparr>"]
        exI [of _ now]) (simp add: p1(4-7), simp add: p1_def)
qed

lemma deallocate_promoted:
  assumes page: "vmt_lookup (tp_vmt p) n = Some pg" and chunk: "pg_vram_chunks pg = [c]"
    and idx: "index_of (tp_cluster p) (ck_gpu_ordinal c) = Some g" and g: "g < length (tp_vram_free p)"
  shows "\<exists>q. deallocate n p = (Ok (), q)
    \<and> tp_dram_pools q = offer_to_pools (pg_dram_chunks pg) (tp_dram_pools p)
    \<and> (\<forall>m. vmt_lookup (tp_vmt q) m = (if m = n then None else vmt_lookup (tp_vmt p) m))
    \<and> (ck_device_ptr c = 0 \<or> (ck_size_bytes c, ck_device_ptr c) \<in> set (tp_vram_free q ! g))"
proof -
  obtain q where free: "free_page_vram c p = (Ok (), q)" and q: "q = p\<lparr>tp_vram_free := tp_vram_free q\<rparr>"
    and kept: "ck_device_ptr c = 0 \<or> (ck_size_bytes c, ck_device_ptr c) \<in> set (tp_vram_free q ! g)"
  proof (rule that)
    show "free_page_vram c p = (Ok (), if ck_device_ptr c = 0 then p else p\<lparr>tp_vram_free :=
        (tp_vram_free p)[g := tp_vram_free p ! g @ [(ck_size_bytes c, ck_device_ptr c)]]\<rparr>)"
      using idx g by (simp add: free_page_vram_def free_vram_on_gpu_def vec_get_def)
  qed (use g in simp_all)
  have "deallocate n p = (Ok (), q\<lparr>tp_dram_pools := offer_to_pools (pg_dram_chunks pg) (tp_dram_pools q),
      tp_vmt := snd (vmt_remove n (tp_vmt q))\<rparr>)"
    using page chunk free by (simp add: deallocate_def bindM_def lookupM_run modM_run retM_run)
  moreover have "tp_dram_pools q = tp_dram_pools p" "tp_vmt q = tp_vmt p" by (subst q, simp)+
  ultimately show ?thesis using kept by (simp add: vmt_remove_def vmt_lookup_def)
qed

text \<open>
  Property C6. The life of a tensor in the warm tier, over every part it passes through. On a machine
  whose calls succeed, with a free slot in the DMA ring and no transfer in flight under the name,
  \<open>write_page\<close> of a tensor with a byte per pool that \<open>allocate\<close> has just filed succeeds; \<open>access\<close> on
  GPU \<open>g\<close> then returns a pointer at which device memory holds exactly the GPU's share of the data,
  and the shares of all GPUs, in order, are the data; \<open>deallocate\<close> then puts every DRAM pool back to
  what it was before the tensor existed, removes the page and no other, and keeps the device block for
  reuse.
\<close>

theorem tensor_life:
  fixes p :: "'w tiered_pool"
  assumes h: "healthy pf dev room" and ready: "gpu_ready g p" and ring: "ring_room 1 (tp_dma p) g"
    and idx: "index_of (tp_cluster p) (gc_ordinals (tp_cluster p) ! g) = Some g"
    and ok: "pools_ok (tp_dram_pools p)" and fit: "shards_fit (tp_dram_pools p) (umul (uproduct shape) es)"
    and run: "tiered_allocate name shape es Dram p = (Ok n, q)" and quiet: "tp_inflight p n = None"
    and es: "es \<noteq> 0" and N: "N = length (tp_dram_pools p)"
    and data: "length data = umul (uproduct shape) es" "N \<le> length data" "shard_bytes (length data) N g \<le> room"
  shows "concat (map (shard_data data N) [0 ..< N]) = data
    \<and> (\<exists>q1 x q2 q3. write_page pf n data q = (Ok (), q1) \<and> access pf n g q1 = (Ok x, q2)
      \<and> slice (dev (tp_world q2)) x (shard_bytes (length data) N g) = shard_data data N g
      \<and> deallocate n q2 = (Ok (), q3) \<and> tp_dram_pools q3 = tp_dram_pools p
      \<and> (\<forall>m. vmt_lookup (tp_vmt q3) m = (if m = n then None else vmt_lookup (tp_vmt p) m))
      \<and> (x = 0 \<or> (shard_bytes (length data) N g, x) \<in> set (tp_vram_free q3 ! g)))"
proof -
  have gN: "g < N" using ready N by (simp add: gpu_ready_def)
  then have some: "tp_dram_pools p \<noteq> []" using N by auto
  from write_new_tensor [OF ok some fit run data(1) data(2) [unfolded N], of pf] obtain cs ds host
    where gr: "granted (tp_dram_pools p) ds cs" and len: "length cs = N"
    and sizes: "map dc_size_bytes cs = map (shard_bytes (length data) (length cs)) [0 ..< length cs]"
    and q: "q = p\<lparr>tp_dram_pools := ds, tp_vmt := filed name (sharded_page n shape es Dram Warm cs) n (tp_vmt p)\<rparr>"
    and wr: "write_page pf n data q = (Ok (), q\<lparr>tp_host := host\<rparr>)"
    and held: "\<forall>i < length cs. slice host (dc_host_ptr (cs ! i)) (dc_size_bytes (cs ! i)) = shard_data data (length cs) i"
    unfolding N by blast
  let ?pg = "sharded_page n shape es Dram Warm cs" and ?q1 = "q\<lparr>tp_host := host\<rparr>"
  have sz: "dc_size_bytes (cs ! g) = shard_bytes (length data) N g"
    using sizes gN len by (metis nth_map nth_upt length_map length_upt add_0 diff_zero)
  have "length ds = length (tp_dram_pools p)" using gr by (simp add: granted_def)
  then have g1: "gpu_ready g ?q1" using ready by (simp add: gpu_ready_def q)
  have page: "vmt_lookup (tp_vmt ?q1) n = Some ?pg" by (simp add: q)
  have warm: "pg_tier ?pg = Dram" "pg_element_size ?pg \<noteq> 0" "vec_get (pg_dram_chunks ?pg) g = Some (cs ! g)"
    using es gN len by (simp_all add: vec_get_def) (simp add: sharded_page_def fresh_page_def page_new_def)
  have rest: "tp_inflight ?q1 n = None" "dc_size_bytes (cs ! g) \<le> room" "ring_room 1 (tp_dma ?q1) g"
    using quiet data(3) ring sz by (simp_all add: q)
  from access_new_tensor [OF h g1 page warm rest] obtain x q2 now where acc: "access pf n g ?q1 = (Ok x, q2)"
    and bytes: "slice (dev (tp_world q2)) x (dc_size_bytes (cs ! g)) = slice host (dc_host_ptr (cs ! g)) (dc_size_bytes (cs ! g))"
    and q2: "tp_dram_pools q2 = ds" "tp_cluster q2 = tp_cluster p" "g < length (tp_vram_free q2)"
      "tp_vmt q2 = vmt_modify n (promoted (gc_ordinals (tp_cluster p) ! g) x (dc_size_bytes (cs ! g)) now) (tp_vmt ?q1)"
    by (auto simp: q)
  let ?c = "\<lparr>ck_gpu_ordinal = gc_ordinals (tp_cluster p) ! g, ck_device_ptr = x,
       ck_size_bytes = dc_size_bytes (cs ! g), ck_num_elements = dc_size_bytes (cs ! g) div pg_element_size ?pg\<rparr>"
  let ?pg2 = "promoted (gc_ordinals (tp_cluster p) ! g) x (dc_size_bytes (cs ! g)) now ?pg"
  have pg2: "vmt_lookup (tp_vmt q2) n = Some ?pg2" "pg_vram_chunks ?pg2 = [?c]" "pg_dram_chunks ?pg2 = cs"
    using page by (simp_all add: q2 promoted_def page_touch_def)
  have "index_of (tp_cluster q2) (ck_gpu_ordinal ?c) = Some g" using idx q2 by simp
  from deallocate_promoted [OF pg2(1,2) this q2(3)] obtain q3 where dealloc: "deallocate n q2 = (Ok (), q3)"
    and q3: "tp_dram_pools q3 = offer_to_pools cs ds"
      "\<forall>m. vmt_lookup (tp_vmt q3) m = (if m = n then None else vmt_lookup (tp_vmt q2) m)"
      "x = 0 \<or> (shard_bytes (length data) N g, x) \<in> set (tp_vram_free q3 ! g)"
    using sz pg2(3) q2(1) by auto
  have "tp_dram_pools q3 = tp_dram_pools p"
    unfolding q3(1) using sizes len N data(1) by (intro offer_granted [OF ok fit gr]) simp
  moreover have "vmt_lookup (tp_vmt q3) m = (if m = n then None else vmt_lookup (tp_vmt p) m)" for m
    using q3(2) by (simp add: q2 q)
  moreover have "concat (map (shard_data data N) [0 ..< N]) = data"
    using gN data(1) by (intro shards_cover) simp_all
  moreover have "slice (dev (tp_world q2)) x (shard_bytes (length data) N g) = shard_data data N g"
    using bytes held [rule_format, of g] sz gN len by simp
  ultimately show ?thesis using wr acc dealloc q3(3) by blast
qed

section \<open>Witness\<close>

theorem tensor_life_witness:
  "\<exists>q q1 x q2 q3. tiered_allocate ''t'' [5] 1 Dram (pool_sample (\<lambda>_. 0)) = (Ok ''t'', q)
    \<and> write_page memory_machine ''t'' [1, 2, 3, 4, 5] q = (Ok (), q1)
    \<and> access memory_machine ''t'' 1 q1 = (Ok x, q2) \<and> slice (tp_world q2) x 3 = [3, 4, 5]
    \<and> deallocate ''t'' q2 = (Ok (), q3)
    \<and> tp_dram_pools q3 = [dp_sample, dp_sample\<lparr>dp_base_ptr := 131072\<rparr>]"
proof -
  let ?p = "pool_sample (\<lambda>_. 0) :: (u64 \<Rightarrow> byte) tiered_pool" and ?d = "[1, 2, 3, 4, 5] :: byte list"
  have grant: "dp_allocate dp_sample 2 = (Ok 65536, dp_sample\<lparr>dp_offset := 64\<rparr>)"
    "dp_allocate (dp_sample\<lparr>dp_base_ptr := 131072\<rparr>) 3 = (Ok 131072, dp_sample\<lparr>dp_base_ptr := 131072, dp_offset := 64\<rparr>)"
    by (simp_all add: dp_sample_def dp_eval)
  have shares: "umul (uproduct [5]) 1 = 5" "shard_bytes 5 2 0 = 2" "shard_bytes 5 2 1 = 3"
    by (simp_all add: shard_bytes_def uadd_def umul_def uproduct_def W64_def)
  have "fst (tiered_allocate ''t'' [5] 1 Dram ?p) = Ok ''t''"
    by (simp add: tiered_allocate_def Let_def bindM_def vmtM_allocate alloc_name_def getM_run modify_page_run
        pool_sample_def add_shard_def dramM_def retM_run numeral_2_eq_2 [symmetric] upt_rec [of 0 2]
        upt_rec [of "Suc 0" 2] shares [unfolded One_nat_def] grant)
  then obtain q where run: "tiered_allocate ''t'' [5] 1 Dram ?p = (Ok ''t'', q)" by (metis prod.collapse)
  have ready: "gpu_ready 1 ?p" by (simp add: gpu_ready_def pool_sample_def two_gpus_def two_streams_def)
  have ring: "ring_room 1 (tp_dma ?p) 1"
    using ring_new_inv by (simp add: pool_sample_def ring_room_def dma_new_def)
      (simp add: ring_new_def Let_def ring_tail_def ring_head_def completion_new_def)
  have idx: "index_of (tp_cluster ?p) (gc_ordinals (tp_cluster ?p) ! 1) = Some 1"
    by (simp add: pool_sample_def two_gpus_def index_of_def ordinal_index_def)
  have fit: "shards_fit (tp_dram_pools ?p) (umul (uproduct [5]) 1)" unfolding shares(1) by (rule pool_sample_fits) simp
  have two: "2 = length (tp_dram_pools ?p)" and quiet: "tp_inflight ?p ''t'' = None"
    by (simp_all add: pool_sample_def)
  have five: "length ?d = 5" by simp
  have data: "length ?d = umul (uproduct [5]) 1" "2 \<le> length ?d" "shard_bytes (length ?d) 2 1 \<le> 2 ^ 30"
    unfolding five shares by simp_all
  have share: "shard_bytes (length ?d) 2 1 = 3" "shard_data ?d 2 1 = [3, 4, 5]"
    unfolding shard_data_def five shares by simp_all
  have pools: "tp_dram_pools ?p = [dp_sample, dp_sample\<lparr>dp_base_ptr := 131072\<rparr>]" by (simp add: pool_sample_def)
  from tensor_life [OF memory_machine_healthy ready ring idx pool_sample_ok(1) fit run quiet _ two data]
  show ?thesis unfolding share pools using run by blast
qed

end
