(* ===== verification/RingLiveness.thy ===== *)
theory RingLiveness
  imports Dma
begin

text \<open>
  Progress of the DMA ring under the interleavings of \<open>Dma\<close>: with a consumer that keeps running every
  descriptor that is submitted is received.
\<close>

section \<open>Runs\<close>

definition spsc_run :: "(nat \<Rightarrow> spsc) \<Rightarrow> bool" where
  "spsc_run r \<longleftrightarrow> r 0 = spsc_start \<and> (\<forall>i. spsc_step (r i) (r (Suc i)))"

text \<open>The consumer never stops for good. Each of its steps changes its program counter.\<close>

definition consumer_fair :: "(nat \<Rightarrow> spsc) \<Rightarrow> bool" where
  "consumer_fair r \<longleftrightarrow> (\<forall>i. \<exists>j \<ge> i. sp_consumer (r (Suc j)) \<noteq> sp_consumer (r j))"

lemma spsc_run_reach: "spsc_run r \<Longrightarrow> spsc_step\<^sup>*\<^sup>* spsc_start (r i)"
  by (induction i) (auto simp: spsc_run_def intro: rtranclp.rtrancl_into_rtrancl)

section \<open>How far the consumer is from the next descriptor\<close>

fun consumer_rank :: "consumer_pc \<Rightarrow> nat" where
  "consumer_rank CAcked = 4"
| "consumer_rank CIdle = 3"
| "consumer_rank (CLoaded c) = 2"
| "consumer_rank (CReady c) = 1"
| "consumer_rank (CRead x) = 0"

lemma other_steps: "spsc_step s t \<Longrightarrow> sp_consumer t = sp_consumer s \<Longrightarrow> sp_got t = sp_got s"
  by (erule spsc_stepE) simp_all

lemma consumer_advances:
  assumes "spsc_step s t" and inv: "spsc_inv s" and pending: "length (sp_got s) < length (sp_sent s)"
    and moved: "sp_consumer t \<noteq> sp_consumer s"
  shows "length (sp_got t) = Suc (length (sp_got s))
    \<or> sp_got t = sp_got s \<and> consumer_rank (sp_consumer t) < consumer_rank (sp_consumer s)"
  using assms(1)
proof (cases rule: spsc_stepE)
  case (c_empty c)
  then have "length (sp_sent s) \<le> length (sp_got s)"
    using inv by (auto simp: spsc_inv_def word_le_nat_alt)
  with pending show ?thesis by simp
qed (use moved in simp_all)

lemma consumer_enabled: "\<exists>t. spsc_step s t \<and> sp_consumer t \<noteq> sp_consumer s"
proof (cases "sp_consumer s")
  case CIdle
  show ?thesis by (rule exI, rule conjI, rule c_load [OF CIdle]) (simp add: CIdle)
next
  case (CLoaded c)
  show ?thesis
  proof (cases "sub_of s \<le> c")
    case True
    show ?thesis by (rule exI, rule conjI, rule c_empty [OF CLoaded True]) (simp add: CLoaded)
  next
    case False
    show ?thesis by (rule exI, rule conjI, rule c_ready [OF CLoaded False]) (simp add: CLoaded)
  qed
next
  case (CReady c)
  show ?thesis by (rule exI, rule conjI, rule c_read [OF CReady]) (simp add: CReady)
next
  case (CRead x)
  show ?thesis by (rule exI, rule conjI, rule c_ack [OF CRead]) (simp add: CRead)
next
  case CAcked
  show ?thesis by (rule exI, rule conjI, rule c_complete [OF CAcked]) (simp add: CAcked)
qed

section \<open>Delivery\<close>

lemma consumer_waits:
  assumes run: "spsc_run r" and still: "\<forall>k. i \<le> k \<longrightarrow> k < j \<longrightarrow> sp_consumer (r (Suc k)) = sp_consumer (r k)"
    and "i \<le> j"
  shows "sp_consumer (r j) = sp_consumer (r i) \<and> sp_got (r j) = sp_got (r i)"
  using assms(3) still
proof (induction j rule: dec_induct)
  case (step k)
  have "spsc_step (r k) (r (Suc k))" using run by (simp add: spsc_run_def)
  with step other_steps show ?case by simp
qed simp

lemma run_sent_mono: "spsc_run r \<Longrightarrow> i \<le> j \<Longrightarrow> length (sp_sent (r i)) \<le> length (sp_sent (r j))"
  by (rule lift_Suc_mono_le) (auto simp: spsc_run_def intro: spsc_step_sent)

lemma spsc_step_got: "spsc_step s t \<Longrightarrow> length (sp_got s) \<le> length (sp_got t)"
  by (erule spsc_stepE) simp_all

lemma run_got_mono: "spsc_run r \<Longrightarrow> i \<le> j \<Longrightarrow> length (sp_got (r i)) \<le> length (sp_got (r j))"
  by (rule lift_Suc_mono_le) (auto simp: spsc_run_def intro: spsc_step_got)

lemma next_received:
  assumes run: "spsc_run r" and fair: "consumer_fair r" and few: "\<forall>i. length (sp_sent (r i)) < 2 ^ 32"
  shows "length (sp_got (r i)) < length (sp_sent (r i))
    \<Longrightarrow> \<exists>j \<ge> i. length (sp_got (r j)) = Suc (length (sp_got (r i)))"
proof (induction "consumer_rank (sp_consumer (r i))" arbitrary: i rule: less_induct)
  case less
  define j where "j = (LEAST j. i \<le> j \<and> sp_consumer (r (Suc j)) \<noteq> sp_consumer (r j))"
  have "\<exists>j. i \<le> j \<and> sp_consumer (r (Suc j)) \<noteq> sp_consumer (r j)"
    using fair unfolding consumer_fair_def by blast
  then have j: "i \<le> j \<and> sp_consumer (r (Suc j)) \<noteq> sp_consumer (r j)" unfolding j_def by (rule LeastI_ex)
  have "\<forall>k. i \<le> k \<longrightarrow> k < j \<longrightarrow> sp_consumer (r (Suc k)) = sp_consumer (r k)"
    unfolding j_def by (blast dest: not_less_Least)
  from consumer_waits [OF run this conjunct1 [OF j]]
  have same: "sp_consumer (r j) = sp_consumer (r i)" "sp_got (r j) = sp_got (r i)" by simp_all
  have pending: "length (sp_got (r j)) < length (sp_sent (r j))"
    using less.prems run_sent_mono [OF run, of i j] j same by simp
  have step: "spsc_step (r j) (r (Suc j))" using run by (simp add: spsc_run_def)
  have "spsc_inv (r j)" by (rule spsc_reachable_inv [OF spsc_run_reach [OF run]]) (rule few [rule_format])
  from consumer_advances [OF step this pending conjunct2 [OF j]] show ?case
  proof
    assume "length (sp_got (r (Suc j))) = Suc (length (sp_got (r j)))"
    then show ?thesis using same j by (intro exI [of _ "Suc j"]) simp
  next
    assume on: "sp_got (r (Suc j)) = sp_got (r j)
      \<and> consumer_rank (sp_consumer (r (Suc j))) < consumer_rank (sp_consumer (r j))"
    have "length (sp_got (r (Suc j))) < length (sp_sent (r (Suc j)))"
      using on pending spsc_step_sent [OF step] by simp
    moreover have "consumer_rank (sp_consumer (r (Suc j))) < consumer_rank (sp_consumer (r i))"
      using on same by simp
    ultimately obtain m where "m \<ge> Suc j" "length (sp_got (r m)) = Suc (length (sp_got (r (Suc j))))"
      using less.hyps by blast
    with j on same show ?thesis by (intro exI [of _ m]) simp
  qed
qed

text \<open>
  Property C12. Every submitted descriptor is delivered, as long as fewer than \<open>2 ^ 32\<close> are submitted. In no
  state is the consumer without a step;
  and on every infinite interleaving in which it keeps taking steps, whatever the producer does
  meanwhile, each descriptor the producer has submitted is received, as that element of the sequence.
\<close>

theorem ring_delivers:
  assumes run: "spsc_run r" and fair: "consumer_fair r" and few: "\<forall>i. length (sp_sent (r i)) < 2 ^ 32"
  shows "(\<forall>s. \<exists>t. spsc_step s t \<and> sp_consumer t \<noteq> sp_consumer s)
    \<and> (\<forall>i k. k < length (sp_sent (r i)) \<longrightarrow>
        (\<exists>j. k < length (sp_got (r j)) \<and> sp_got (r j) ! k = sp_sent (r j) ! k))"
proof (intro conjI allI impI)
  show "\<exists>t. spsc_step s t \<and> sp_consumer t \<noteq> sp_consumer s" for s by (rule consumer_enabled)
  fix i k assume k: "k < length (sp_sent (r i))"
  have inv: "spsc_inv (r j)" for j by (rule spsc_reachable_inv [OF spsc_run_reach [OF run]]) (rule few [rule_format])
  have "\<exists>j \<ge> i. n \<le> length (sp_got (r j))" if "n \<le> Suc k" for n
    using that
  proof (induction n)
    case (Suc n)
    then obtain j where j: "j \<ge> i" "n \<le> length (sp_got (r j))" by auto
    show ?case
    proof (cases "length (sp_got (r j)) = n")
      case True
      then have "length (sp_got (r j)) < length (sp_sent (r j))"
        using Suc.prems k run_sent_mono [OF run j(1)] by simp
      from next_received [OF run fair few this] obtain m where "m \<ge> j" "length (sp_got (r m)) = Suc n"
        using True by auto
      then show ?thesis using j(1) by (intro exI [of _ m]) simp
    qed (use j in auto)
  qed auto
  from this [of "Suc k"] obtain j where j: "k < length (sp_got (r j))" by (auto simp: Suc_le_eq)
  have "sp_got (r j) = take (length (sp_got (r j))) (sp_sent (r j))"
    using inv [of j] by (simp add: spsc_inv_def window_ok_def)
  then have "sp_got (r j) ! k = sp_sent (r j) ! k" using j by (metis nth_take)
  with j show "\<exists>j. k < length (sp_got (r j)) \<and> sp_got (r j) ! k = sp_sent (r j) ! k" by blast
qed

section \<open>Witness\<close>

text \<open>A run that sends one descriptor and then only consumes.\<close>

definition produce :: "dma_descriptor \<Rightarrow> spsc \<Rightarrow> spsc" where
  "produce d s = (case sp_producer s of
     PIdle \<Rightarrow> s\<lparr>sp_producer := PCheck d (sub_of s)\<rparr>
   | PCheck d p \<Rightarrow> (if rg_capacity (sp_ring s) \<le> u32_saturating_sub p (con_of s)
       then s\<lparr>sp_producer := PIdle\<rparr> else s\<lparr>sp_producer := PAdmitted d\<rparr>)
   | PAdmitted d \<Rightarrow> s\<lparr>sp_producer := PLoaded d (sub_of s)\<rparr>
   | PLoaded d p \<Rightarrow> s\<lparr>sp_ring := ring_write (p AND rg_mask (sp_ring s)) d (sp_ring s), sp_producer := PWritten d p\<rparr>
   | PWritten d p \<Rightarrow> s\<lparr>sp_ring := store_submitted (p + 1) (sp_ring s), sp_producer := PIdle,
       sp_sent := sp_sent s @ [d]\<rparr>)"

definition consume :: "spsc \<Rightarrow> spsc" where
  "consume s = (case sp_consumer s of
     CIdle \<Rightarrow> s\<lparr>sp_consumer := CLoaded (con_of s)\<rparr>
   | CLoaded c \<Rightarrow> s\<lparr>sp_consumer := (if sub_of s \<le> c then CIdle else CReady c)\<rparr>
   | CReady c \<Rightarrow> s\<lparr>sp_consumer := CRead (rg_ring (sp_ring s) ! unat (c AND rg_mask (sp_ring s)))\<rparr>
   | CRead x \<Rightarrow> s\<lparr>sp_ring := (sp_ring s)\<lparr>rg_consumer := con_of s + 1\<rparr>, sp_consumer := CAcked,
       sp_got := sp_got s @ [x]\<rparr>
   | CAcked \<Rightarrow> s\<lparr>sp_ring := mark_complete (sp_ring s), sp_consumer := CIdle\<rparr>)"

lemma produce_step: "spsc_step s (produce d s)"
  by (auto simp: produce_def split: producer_pc.split intro: spsc_step.intros)

lemma consume_step:
  "spsc_step s (consume s)" "sp_consumer (consume s) \<noteq> sp_consumer s" "sp_sent (consume s) = sp_sent s"
  by (auto simp: consume_def split: consumer_pc.split intro: spsc_step.intros)

definition one_message :: "nat \<Rightarrow> spsc" where
  "one_message n = (if n < 5 then (produce (sample_desc 3) ^^ n) spsc_start
     else (consume ^^ (n - 5)) ((produce (sample_desc 3) ^^ 5) spsc_start))"

lemma one_message_Suc:
  "one_message (Suc n) = (if n < 5 then produce (sample_desc 3) else consume) (one_message n)"
proof (cases "Suc n < 5")
  case False
  then consider "n = 4" | "Suc n - 5 = Suc (n - 5)" "\<not> n < 5" by linarith
  then show ?thesis by cases (simp_all add: one_message_def eval_nat_numeral)
qed (simp add: one_message_def)

lemma produced: "sp_sent ((produce (sample_desc 3) ^^ 5) spsc_start) = [sample_desc 3]"
proof -
  have five: "(f ^^ 5) s = f (f (f (f (f s))))" for f :: "spsc \<Rightarrow> spsc" and s by (simp add: eval_nat_numeral)
  show ?thesis unfolding five
    by (simp add: produce_def spsc_start_def ring_new_def Let_def completion_new_def
        u32_saturating_sub_def ring_write_def store_submitted_def)
qed

lemma sent_of_one_message: "5 \<le> n \<Longrightarrow> sp_sent (one_message n) = [sample_desc 3]"
proof (induction n rule: dec_induct)
  case base
  show ?case by (simp add: one_message_def produced)
next
  case (step n)
  then show ?case by (simp add: one_message_Suc consume_step(3))
qed

theorem ring_delivers_witness:
  "\<exists>j. 0 < length (sp_got (one_message j)) \<and> sp_got (one_message j) ! 0 = sample_desc 3"
proof -
  have run: "spsc_run one_message"
    by (simp add: spsc_run_def one_message_Suc produce_step consume_step(1)) (simp add: one_message_def)
  have "sp_consumer (one_message (Suc (max i 5))) \<noteq> sp_consumer (one_message (max i 5))" for i
    by (simp add: one_message_Suc consume_step(2))
  then have fair: "consumer_fair one_message"
    unfolding consumer_fair_def using max.cobounded1 by blast
  have few: "length (sp_sent (one_message i)) < 2 ^ 32" for i
    using run_sent_mono [OF run, of i "max i 5"] sent_of_one_message [of "max i 5"] by simp
  have pending: "0 < length (sp_sent (one_message 5))" using sent_of_one_message [of 5] by simp
  from ring_delivers [OF run fair] few pending obtain j where j: "0 < length (sp_got (one_message j))" by blast
  let ?s = "one_message (max j 5)"
  have "length (sp_got (one_message j)) \<le> length (sp_got ?s)" by (rule run_got_mono [OF run]) simp
  then have "0 < length (sp_got ?s)" using j by linarith
  moreover have "sp_got ?s = take (length (sp_got ?s)) (sp_sent ?s)"
    using spsc_reachable_inv [OF spsc_run_reach [OF run] few, of "max j 5"] by (simp add: spsc_inv_def window_ok_def)
  then have "sp_got ?s ! 0 = sp_sent ?s ! 0" using calculation by (metis nth_take)
  moreover have "sp_sent ?s = [sample_desc 3]" by (rule sent_of_one_message) simp
  ultimately show ?thesis by (intro exI [of _ "max j 5"]) simp
qed

end
