(* ===== verification/PoolCalls.thy ===== *)
theory PoolCalls
  imports Tiered
begin

text \<open>
  The public operations of \<open>TieredPool\<close> (\<open>src/tiered.rs\<close>) as data, and the histories of a pool: any
  sequence of calls, each with whatever outcome it has.
\<close>

datatype pool_call =
    Allocate string "usize list" usize tier
  | Deallocate string
  | WritePage string "byte list"
  | Access string usize
  | Prefetch string usize
  | Demote string
  | Sweep "string list" \<comment> \<open>with the order in which the sweep meets the pages\<close>
  | AttachSpill string usize bool
  | EnableMembrane usize

definition discard :: "('s, 'a) op \<Rightarrow> ('s, unit) op" where
  "discard m = bindM m (\<lambda>_. retM ())"

fun pool_do :: "'w platform \<Rightarrow> (real \<Rightarrow> f64) \<Rightarrow> pool_call \<Rightarrow> ('w tiered_pool, unit) op" where
  "pool_do pf fl (Allocate name shape es t) = discard (tiered_allocate name shape es t)"
| "pool_do pf fl (Deallocate name) = deallocate name"
| "pool_do pf fl (WritePage name data) = write_page pf name data"
| "pool_do pf fl (Access name g) = discard (access pf name g)"
| "pool_do pf fl (Prefetch name g) = prefetch pf name g"
| "pool_do pf fl (Demote name) = demote pf name"
| "pool_do pf fl (Sweep order) = background_sweep pf fl order"
| "pool_do pf fl (AttachSpill path capacity unlink) = attach_spill pf path capacity unlink"
| "pool_do pf fl (EnableMembrane budget) = modM (enable_membrane budget)"

fun pool_run :: "'w platform \<Rightarrow> (real \<Rightarrow> f64) \<Rightarrow> pool_call list \<Rightarrow> 'w tiered_pool \<Rightarrow> 'w tiered_pool" where
  "pool_run pf fl [] p = p"
| "pool_run pf fl (c # cs) p = pool_run pf fl cs (snd (pool_do pf fl c p))"

text \<open>An invariant of the calls is an invariant of the histories.\<close>

lemma pool_run_keeps: "(\<And>c. c \<in> set cs \<Longrightarrow> keeps I (pool_do pf fl c)) \<Longrightarrow> I p \<Longrightarrow> I (pool_run pf fl cs p)"
  by (induction cs arbitrary: p) (simp_all add: keeps_def)

lemma pool_run_append: "pool_run pf fl (cs @ ds) p = pool_run pf fl ds (pool_run pf fl cs p)"
  by (induction cs arbitrary: p) simp_all

lemma keeps_discard [keeps_intros]: "keeps I m \<Longrightarrow> keeps I (discard m)"
  unfolding discard_def by (intro keeps_intros)

end
