(* ===== verification/Ledger.thy ===== *)
theory Ledger
  imports Promotion VramCache PoolCalls
begin

text \<open>
  Who owns the device blocks of a \<open>TieredPool\<close> (\<open>src/tiered.rs\<close>): the recycle caches, the device chunks
  of the pages and the prefetches in flight, over every history of the public operations.
\<close>

section \<open>Blocks filed in a map\<close>

definition map_blocks :: "('a \<Rightarrow> 'b multiset) \<Rightarrow> (string \<Rightarrow> 'a option) \<Rightarrow> 'b multiset" where
  "map_blocks f m = (\<Sum>n \<in> dom m. f (the (m n)))"

definition entry_blocks :: "('a \<Rightarrow> 'b multiset) \<Rightarrow> 'a option \<Rightarrow> 'b multiset" where
  "entry_blocks f x = (case x of None \<Rightarrow> {#} | Some a \<Rightarrow> f a)"

lemma entry_blocks_simps [simp]:
  "entry_blocks f None = {#}" "entry_blocks f (Some a) = f a"
  by (simp_all add: entry_blocks_def)

lemma map_blocks_split:
  assumes "finite (dom m)"
  shows "map_blocks f m = map_blocks f (m(n := None)) + entry_blocks f (m n)"
proof -
  have "dom (m(n := None)) = dom m - {n}" by auto
  then have rest: "map_blocks f (m(n := None)) = (\<Sum>k \<in> dom m - {n}. f (the (m k)))"
    unfolding map_blocks_def by (intro sum.cong) auto
  show ?thesis
  proof (cases "m n")
    case None
    then have "m(n := None) = m" by auto
    with None show ?thesis by simp
  next
    case (Some a)
    then have "n \<in> dom m" by auto
    then have "map_blocks f m = f a + (\<Sum>k \<in> dom m - {n}. f (the (m k)))"
      unfolding map_blocks_def using assms Some by (subst sum.remove [of _ n]) auto
    then show ?thesis unfolding rest by (simp add: Some add.commute)
  qed
qed

lemma map_blocks_update:
  assumes "finite (dom m)"
  shows "map_blocks f (m(n \<mapsto> a)) = map_blocks f (m(n := None)) + f a"
  using map_blocks_split [of "m(n \<mapsto> a)" f n] assms by simp

section \<open>The ledger\<close>

text \<open>The cache a device chunk goes back to is the one at the index of its GPU.\<close>

definition chunk_block :: "gpu_cluster \<Rightarrow> chunk \<Rightarrow> held_block" where
  "chunk_block cl c = (the (index_of cl (ck_gpu_ordinal c)), ck_size_bytes c, ck_device_ptr c)"

definition chunks_blocks :: "gpu_cluster \<Rightarrow> page \<Rightarrow> held_block multiset" where
  "chunks_blocks cl pg = image_mset (chunk_block cl) (mset (pg_vram_chunks pg))"

definition page_blocks :: "gpu_cluster \<Rightarrow> vmt \<Rightarrow> held_block multiset" where
  "page_blocks cl v = map_blocks (chunks_blocks cl) (vt_pages v)"

definition flight_blocks :: "(string \<Rightarrow> (usize \<times> u64 \<times> usize \<times> cuda_event) option) \<Rightarrow> held_block multiset" where
  "flight_blocks fl = map_blocks (\<lambda>(g, x, n, ev). {#(g, n, x)#}) fl"

definition device_ledger :: "'w tiered_pool \<Rightarrow> held_block multiset" where
  "device_ledger p = cached (tp_vram_free p) + flight_blocks (tp_inflight p) + page_blocks (tp_cluster p) (tp_vmt p)"

text \<open>
  A collection of blocks is sound when no pointer occurs twice and each block is one the driver gave,
  with its size, in the context of its GPU.
\<close>

definition sound_blocks ::
  "('w \<Rightarrow> u64 \<Rightarrow> (u64 \<times> usize) option) \<Rightarrow> context_registry \<Rightarrow> nat \<Rightarrow> 'w \<Rightarrow> held_block multiset \<Rightarrow> bool" where
  "sound_blocks given r N w M \<longleftrightarrow> (\<forall>x. count (image_mset pointer_of M) x \<le> 1)
     \<and> (\<forall>(g, n, x) \<in># M. g < N \<and> x \<noteq> 0 \<and> given w x = Some (ctx_of r g, n))"

lemma sound_blocks_less: "sound_blocks given r N w M \<Longrightarrow> L \<subseteq># M \<Longrightarrow> sound_blocks given r N w L"
proof -
  assume M: "sound_blocks given r N w M" and sub: "L \<subseteq># M"
  have "count (image_mset pointer_of L) x \<le> count (image_mset pointer_of M) x" for x
    using image_mset_subseteq_mono [OF sub, of pointer_of] by (simp add: subseteq_mset_def)
  then have "\<forall>x. count (image_mset pointer_of L) x \<le> 1" using M order_trans unfolding sound_blocks_def by blast
  then show ?thesis using M mset_subset_eqD [OF sub] by (auto simp: sound_blocks_def)
qed

text \<open>The fixed parts: one context per cache, and an index that inverts the list of ordinals.\<close>

definition fixed_ok :: "'w tiered_pool \<Rightarrow> bool" where
  "fixed_ok p \<longleftrightarrow> length (tp_vram_free p) = length (gc_ordinals (tp_cluster p))
     \<and> (\<forall>g < length (gc_ordinals (tp_cluster p)). index_of (tp_cluster p) (gc_ordinals (tp_cluster p) ! g) = Some g)"

definition tables_finite :: "'w tiered_pool \<Rightarrow> bool" where
  "tables_finite p \<longleftrightarrow> finite (dom (vt_pages (tp_vmt p))) \<and> finite (dom (tp_inflight p))"

text \<open>
  \<open>books given v cl T p\<close>: the table is \<open>v\<close> and the cluster \<open>cl\<close>, and the caches, the prefetches and the
  blocks \<open>T\<close> held elsewhere are sound together. \<open>ledger given H p\<close>: the whole ledger is, with the
  blocks \<open>H\<close> the operation has in hand.
\<close>

definition ordinals_known :: "gpu_cluster \<Rightarrow> vmt \<Rightarrow> bool" where
  "ordinals_known cl v \<longleftrightarrow> (\<forall>n pg. vt_pages v n = Some pg \<longrightarrow> (\<forall>c \<in> set (pg_vram_chunks pg). ck_gpu_ordinal c \<in> set (gc_ordinals cl)))"

definition books ::
  "('w \<Rightarrow> u64 \<Rightarrow> (u64 \<times> usize) option) \<Rightarrow> vmt \<Rightarrow> gpu_cluster \<Rightarrow> held_block multiset \<Rightarrow> 'w tiered_pool \<Rightarrow> bool" where
  "books given v cl T p \<longleftrightarrow> tp_vmt p = v \<and> tp_cluster p = cl \<and> fixed_ok p \<and> tables_finite p
     \<and> sound_blocks given (tp_contexts p) (length (tp_vram_free p)) (tp_world p)
         (cached (tp_vram_free p) + flight_blocks (tp_inflight p) + T)"

definition ledger :: "('w \<Rightarrow> u64 \<Rightarrow> (u64 \<times> usize) option) \<Rightarrow> held_block multiset \<Rightarrow> 'w tiered_pool \<Rightarrow> bool" where
  "ledger given H p \<longleftrightarrow> ordinals_known (tp_cluster p) (tp_vmt p)
     \<and> books given (tp_vmt p) (tp_cluster p) (page_blocks (tp_cluster p) (tp_vmt p) + H) p"

lemma books_less: "books given v cl T p \<Longrightarrow> S \<subseteq># T \<Longrightarrow> books given v cl S p"
  unfolding books_def using sound_blocks_less subset_mset.add_left_mono by metis

lemma ledger_less: "ledger given H p \<Longrightarrow> K \<subseteq># H \<Longrightarrow> ledger given K p"
  unfolding ledger_def using books_less subset_mset.add_left_mono by metis

lemma ledger_drop: "ledger given H p \<Longrightarrow> ledger given {#} p"
  by (rule ledger_less) simp_all

lemma books_keep_ledger: "(\<And>v cl T. keeps (books given v cl T) m) \<Longrightarrow> keeps (ledger given H) m"
  unfolding keeps_def ledger_def books_def by metis

section \<open>What is relied on of the driver\<close>

text \<open>
  Beside \<open>device_blocks\<close>: no other call of the pool's operations hands out or takes back a device block.
\<close>

definition driver_blocks :: "'w platform \<Rightarrow> ('w \<Rightarrow> u64) \<Rightarrow> ('w \<Rightarrow> u64 \<Rightarrow> (u64 \<times> usize) option) \<Rightarrow> bool" where
  "driver_blocks pf cur given \<longleftrightarrow> device_blocks pf cur given
     \<and> (\<forall>w. (\<forall>dst bs. given (snd (pf_htod pf dst bs w)) = given w)
         \<and> (\<forall>dst bs s. given (snd (pf_htod_async pf dst bs s w)) = given w)
         \<and> (\<forall>src n s. given (snd (snd (pf_dtoh_async pf src n s w))) = given w)
         \<and> (\<forall>dst dc src sc n s. given (snd (pf_peer_async pf dst dc src sc n s w)) = given w)
         \<and> (\<forall>s. given (snd (pf_stream_sync pf s w)) = given w)
         \<and> (\<forall>fl. given (snd (snd (pf_event_create pf fl w))) = given w)
         \<and> (\<forall>e. given (snd (pf_event_destroy pf e w)) = given w)
         \<and> (\<forall>e s. given (snd (pf_event_record pf e s w)) = given w)
         \<and> (\<forall>e. given (snd (pf_event_sync pf e w)) = given w)
         \<and> given (snd (pf_clock pf w)) = given w \<and> given (snd (pf_io pf w)) = given w
         \<and> (\<forall>path. given (snd (pf_open pf path w)) = given w)
         \<and> (\<forall>path n. given (snd (pf_set_len pf path n w)) = given w)
         \<and> (\<forall>path. given (snd (pf_remove_file pf path w)) = given w))"

lemma driver_blocks_calls:
  assumes "driver_blocks pf cur given"
  shows "device_blocks pf cur given"
    "given (snd (pf_htod pf dst bs w)) = given w" "given (snd (pf_htod_async pf dst bs s w)) = given w"
    "given (snd (snd (pf_dtoh_async pf src n s w))) = given w"
    "given (snd (pf_peer_async pf dst dc src sc n s w)) = given w"
    "given (snd (pf_stream_sync pf s w)) = given w" "given (snd (snd (pf_event_create pf fl w))) = given w"
    "given (snd (pf_event_destroy pf e w)) = given w" "given (snd (pf_event_record pf e s w)) = given w"
    "given (snd (pf_event_sync pf e w)) = given w" "given (snd (pf_clock pf w)) = given w"
    "given (snd (pf_io pf w)) = given w" "given (snd (pf_open pf path w)) = given w"
    "given (snd (pf_set_len pf path m w)) = given w" "given (snd (pf_remove_file pf path w)) = given w"
  using assms by (simp_all add: driver_blocks_def)

section \<open>Operations that move no block\<close>

lemma sound_blocks_given: "given w = given u \<Longrightarrow> sound_blocks given r N w M = sound_blocks given r N u M"
  by (simp add: sound_blocks_def)

lemma books_same:
  assumes "books given v cl T p" and "tp_vmt q = tp_vmt p" "tp_cluster q = tp_cluster p" "tp_contexts q = tp_contexts p"
    and "tp_vram_free q = tp_vram_free p" "tp_inflight q = tp_inflight p" "given (tp_world q) = given (tp_world p)"
  shows "books given v cl T q"
  using assms(1) sound_blocks_given [of given "tp_world q" "tp_world p", OF assms(7)]
  unfolding books_def fixed_ok_def tables_finite_def assms(2-6) by metis

lemma books_worldM:
  assumes "\<And>w. given (snd (m w)) = given w" shows "keeps (books given v cl T) (worldM m)"
proof (rule keepsI)
  fix p assume p: "books given v cl T p"
  obtain r w where m: "m (tp_world p) = (r, w)" by force
  with assms [of "tp_world p"] have "given w = given (tp_world p)" by simp
  with m show "books given v cl T (snd (worldM m p))" by (intro books_same [OF p]) (simp_all add: worldM_def)
qed

lemma given_cu_call: "(\<And>w. given (snd (f w)) = given w) \<Longrightarrow> given (snd (cu_call name f w)) = given w"
  by (simp add: cu_call_def case_prod_beta)

lemma given_cu_get: "(\<And>w. given (snd (snd (f w))) = given w) \<Longrightarrow> given (snd (cu_get name f w)) = given w"
  by (simp add: cu_get_def case_prod_beta split: outcome.split)

lemma given_bindM:
  assumes "\<And>w. given (snd (m w)) = given w" and "\<And>x w. given (snd (f x w)) = given w"
  shows "given (snd (bindM m f w)) = given w"
proof -
  obtain r u where m: "m w = (r, u)" by force
  with assms(1) [of w] have "given u = given w" by simp
  with m assms(2) show ?thesis by (cases r) (simp_all add: bindM_def)
qed

lemma keeps_state_fun: "(\<And>p. I p \<Longrightarrow> I (f p)) \<Longrightarrow> keeps I (modM f)"
  by (simp add: keeps_def modM_run)

lemma books_neutral:
  fixes p :: "'w tiered_pool"
  shows "books given v cl T p \<Longrightarrow> books given v cl T (p\<lparr>tp_dma := e\<rparr>)"
    "books given v cl T p \<Longrightarrow> books given v cl T (p\<lparr>tp_dram_pools := ds\<rparr>)"
    "books given v cl T p \<Longrightarrow> books given v cl T (p\<lparr>tp_spill := sp\<rparr>)"
    "books given v cl T p \<Longrightarrow> books given v cl T (p\<lparr>tp_membrane := mb\<rparr>)"
    "books given v cl T p \<Longrightarrow> books given v cl T (p\<lparr>tp_host := h\<rparr>)"
    "books given v cl T p \<Longrightarrow> books given v cl T (p\<lparr>tp_membrane_budget := b\<rparr>)"
    "books given v cl T p \<Longrightarrow> given w = given (tp_world p) \<Longrightarrow> books given v cl T (p\<lparr>tp_world := w\<rparr>)"
  by (erule books_same, simp_all)+

lemma books_ignoreW: "(\<And>w. given (snd (f w)) = given w) \<Longrightarrow> keeps (books given v cl T) (ignoreW f)"
  by (rule keepsI) (simp add: ignoreW_def cu_ignore_def books_neutral)

lemma books_dmaM: "keeps (books given v cl T) (dmaM m)"
  by (rule keepsI) (auto simp: dmaM_def books_neutral split: prod.split)

lemma books_dramM: "keeps (books given v cl T) (dramM i m)"
  by (rule keepsI) (auto simp: dramM_def books_neutral split: prod.split)

lemma books_spillM: "keeps (books given v cl T) (spillM e m)"
  by (rule keepsI) (auto simp: spillM_def books_neutral split: prod.split option.split)

lemma books_reads:
  "keeps (books given v cl T) (lookupM n)" "keeps (books given v cl T) (compute_stream g)"
  "keeps (books given v cl T) (prefetch_stream g)" "keeps (books given v cl T) (raw_context g)"
  by (auto intro!: keepsI simp: lookupM_def compute_stream_def prefetch_stream_def raw_context_def registry_get_def
      ok_or_def unwrapM_def bindM_def run_simps split: option.split)

text \<open>\<open>set_context\<close> moves the current context, and no block.\<close>

lemma books_set_context:
  assumes "driver_blocks pf cur given" shows "keeps (books given v cl T) (set_context pf g)"
proof (rule keepsI)
  fix p assume p: "books given v cl T p"
  obtain r q where run: "set_context pf g p = (r, q)" by force
  from set_context_given [OF driver_blocks_calls(1) [OF assms] run]
  obtain w where "q = p\<lparr>tp_world := w\<rparr>" "given w = given (tp_world p)" by blast
  with p run show "books given v cl T (snd (set_context pf g p))" by (simp add: books_neutral)
qed

lemma books_sync:
  assumes "driver_blocks pf cur given" shows "keeps (books given v cl T) (sync_compute pf g)"
  unfolding sync_compute_def stream_synchronize_def
  by (intro keeps_bindM books_reads books_worldM given_cu_call driver_blocks_calls(6) [OF assms])

lemma books_copy_to_host:
  assumes "driver_blocks pf cur given" shows "keeps (books given v cl T) (copy_to_host pf g dst src n)"
  unfolding copy_to_host_def
proof (intro keeps_bindM books_reads keepsI)
  fix s p assume p: "books given v cl T p"
  obtain rc bs w where c: "pf_dtoh_async pf src n (cs_inner s) (tp_world p) = (rc, bs, w)" by (metis prod_cases3)
  with driver_blocks_calls(4) [OF assms, of src n "cs_inner s" "tp_world p"] have "given w = given (tp_world p)" by simp
  then have "books given v cl T (p\<lparr>tp_world := w, tp_host := mem_write dst bs (tp_host p)\<rparr>)"
    using p by (intro books_same [OF p]) simp_all
  with c show "books given v cl T (snd (case pf_dtoh_async pf src n (cs_inner s) (tp_world p) of
      (rc, bs, w) \<Rightarrow> (check_cu ''cuMemcpyDtoHAsync_v2'' rc, p\<lparr>tp_world := w, tp_host := mem_write dst bs (tp_host p)\<rparr>)))"
    by simp
qed

lemma books_stage_alloc: "keeps (books given v cl T) (stage_alloc g want)"
  by (rule stage_alloc_keeps) (rule books_dramM)

lemma books_stage_chunk:
  assumes "driver_blocks pf cur given" shows "keeps (books given v cl T) (stage_chunk pf off stage dst pos this)"
proof -
  have "keeps (books given v cl T) (\<lambda>p. case tp_spill p of
              None \<Rightarrow> (Panic, p)
            | Some s \<Rightarrow>
                (case pf_io pf (tp_world p) of
                   (io, w) \<Rightarrow>
                     (case spill_read_into io s (uadd off pos) stage this (tp_host p) of
                        (r, h) \<Rightarrow> (r, p\<lparr>tp_world := w, tp_host := h\<rparr>))))"
  proof (rule keepsI)
    fix p assume p: "books given v cl T p"
    obtain io w where io: "pf_io pf (tp_world p) = (io, w)" by force
    with driver_blocks_calls(12) [OF assms, of "tp_world p"] have "given w = given (tp_world p)" by simp
    then have "books given v cl T (p\<lparr>tp_world := w, tp_host := h\<rparr>)" for h
      using p by (intro books_same [OF p]) simp_all
    with io p show "books given v cl T (snd (case tp_spill p of
              None \<Rightarrow> (Panic, p)
            | Some s \<Rightarrow>
                (case pf_io pf (tp_world p) of
                   (io, w) \<Rightarrow>
                     (case spill_read_into io s (uadd off pos) stage this (tp_host p) of
                        (r, h) \<Rightarrow> (r, p\<lparr>tp_world := w, tp_host := h\<rparr>)))))"
      by (auto split: option.split prod.split)
  qed
  then show ?thesis
    unfolding stage_chunk_def
    by (intro keeps_bindM keeps_pure books_worldM given_cu_call driver_blocks_calls(2) [OF assms])
qed

lemma books_stage_copy:
  assumes "driver_blocks pf cur given"
  shows "keeps (books given v cl T) (stage_copy pf n g off stage len dst bytes)"
  by (rule stage_copy_keeps [OF books_set_context [OF assms] books_stage_chunk [OF assms]])

section \<open>Operations that move a block\<close>

lemma sound_blocks_new:
  assumes M: "sound_blocks given r N w M" and x: "x \<noteq> 0" "given w x = None" and g: "g < N"
    and w': "given w' = (given w)(x \<mapsto> (ctx_of r g, n))"
  shows "sound_blocks given r N w' (add_mset (g, n, x) M)"
proof -
  have other: "k < N \<and> y \<noteq> 0 \<and> given w y = Some (ctx_of r k, m)" if "(k, m, y) \<in># M" for k m y
    using M that by (auto simp: sound_blocks_def)
  then have new: "x \<notin> pointer_of ` set_mset M" using x(2) by (force simp: pointer_of_def)
  then have "count (image_mset pointer_of M) x = 0" by (simp add: count_eq_zero_iff)
  then have "count (image_mset pointer_of (add_mset (g, n, x) M)) y \<le> 1" for y
    using M by (auto simp: sound_blocks_def pointer_of_def)
  moreover have "k < N \<and> y \<noteq> 0 \<and> given w' y = Some (ctx_of r k, m)" if "(k, m, y) \<in># add_mset (g, n, x) M" for k m y
    using that other new x g by (auto simp: w' pointer_of_def)
  ultimately show ?thesis unfolding sound_blocks_def by blast
qed

lemma books_change:
  assumes "books given v cl T p" and "tp_vmt q = tp_vmt p" "tp_cluster q = tp_cluster p"
    and "tp_contexts q = tp_contexts p" "tp_inflight q = tp_inflight p" "length (tp_vram_free q) = length (tp_vram_free p)"
    and "sound_blocks given (tp_contexts p) (length (tp_vram_free p)) (tp_world q)
      (cached (tp_vram_free q) + flight_blocks (tp_inflight p) + S)"
  shows "books given v cl S q"
  using assms(1,7) unfolding books_def fixed_ok_def tables_finite_def assms(2-6) by blast

lemma books_sound: "books given v cl T p \<Longrightarrow> sound_blocks given (tp_contexts p) (length (tp_vram_free p)) (tp_world p)
      (cached (tp_vram_free p) + flight_blocks (tp_inflight p) + T)"
  by (simp add: books_def)

lemma books_alloc:
  assumes drv: "driver_blocks pf cur given" and p: "books given v cl T p"
    and run: "alloc_vram_on_gpu pf g n p = (r, q)"
  shows "case r of Ok x \<Rightarrow> books given v cl (add_mset (g, n, x) T) q | _ \<Rightarrow> books given v cl T q"
proof (cases "g < length (tp_vram_free p)")
  case False
  then have "r = Err (InvalidGpu g)" "q = p" using run by (simp_all add: alloc_vram_on_gpu_def vec_get_def)
  then show ?thesis using p by simp
next
  case g: True
  show ?thesis
  proof (cases "position (\<lambda>(sz, _). sz = n) (tp_vram_free p ! g)")
    case (Some i)
    from alloc_cached [OF g Some, of pf] run obtain x where r: "r = Ok x" and w: "tp_world q = tp_world p"
      and frame: "q = p\<lparr>tp_vram_free := tp_vram_free q\<rparr>" and len: "length (tp_vram_free q) = length (tp_vram_free p)"
      and all: "add_mset (g, n, x) (cached (tp_vram_free q)) = cached (tp_vram_free p)" by auto
    have "tp_vmt q = tp_vmt p" "tp_cluster q = tp_cluster p" "tp_contexts q = tp_contexts p" "tp_inflight q = tp_inflight p"
      by (subst frame, simp)+
    from books_change [OF p this len] books_sound [OF p] r show ?thesis
      by (simp add: w all [symmetric])
  next
    case None
    note f = alloc_fresh [OF driver_blocks_calls(1) [OF drv] g None run]
    have same: "tp_vmt q = tp_vmt p" "tp_cluster q = tp_cluster p" "tp_contexts q = tp_contexts p"
      "tp_inflight q = tp_inflight p" "tp_vram_free q = tp_vram_free p"
      by (subst conjunct1 [OF f], simp)+
    show ?thesis
    proof (cases r)
      case (Ok x)
      let ?M = "cached (tp_vram_free p) + flight_blocks (tp_inflight p) + T"
      from sound_blocks_new [OF books_sound [OF p]] f Ok g
      have "sound_blocks given (tp_contexts p) (length (tp_vram_free p)) (tp_world q) (add_mset (g, n, x) ?M)" by simp
      then show ?thesis using books_change [OF p same(1-4)] same(5) Ok by simp
    next
      case (Err e)
      then show ?thesis using f books_same [OF p same(1-3,5,4)] by simp
    next
      case Panic
      then show ?thesis using f books_same [OF p same(1-3,5,4)] by simp
    qed
  qed
qed

lemma books_free:
  assumes p: "books given v cl (add_mset (g, n, x) T) p"
  shows "\<exists>q. free_vram_on_gpu g x n p = (Ok (), q) \<and> books given v cl T q"
proof -
  have g: "g < length (tp_vram_free p)" and x: "x \<noteq> 0" using p by (simp_all add: books_def sound_blocks_def)
  let ?q = "p\<lparr>tp_vram_free := (tp_vram_free p)[g := tp_vram_free p ! g @ [(n, x)]]\<rparr>"
  have "cache_blocks g (tp_vram_free p ! g @ [(n, x)]) + {#} = cache_blocks g (tp_vram_free p ! g) + {#(g, n, x)#}"
    by (simp add: cache_blocks_def)
  from cached_update [OF g this]
  have "cached (tp_vram_free ?q) = add_mset (g, n, x) (cached (tp_vram_free p))" by simp
  then have "books given v cl T ?q"
    using books_sound [OF p] by (intro books_change [OF p]) simp_all
  moreover have "free_vram_on_gpu g x n p = (Ok (), ?q)" using g x by (simp add: free_vram_on_gpu_def vec_get_def)
  ultimately show ?thesis by blast
qed

section \<open>Programs over the ledger\<close>

text \<open>
  \<open>moves given H m K\<close>: with the blocks \<open>H\<close> in hand, \<open>m\<close> leaves the ledger sound; when it succeeds the
  caller has \<open>K x\<close> in hand, when it does not, nothing (what it had may be lost, but is not used twice).
\<close>

definition moves ::
  "('w \<Rightarrow> u64 \<Rightarrow> (u64 \<times> usize) option) \<Rightarrow> held_block multiset \<Rightarrow> ('w tiered_pool, 'a) op \<Rightarrow> ('a \<Rightarrow> held_block multiset) \<Rightarrow> bool" where
  "moves given H m K \<longleftrightarrow> (\<forall>p. ledger given H p \<longrightarrow>
     (case m p of (Ok x, q) \<Rightarrow> ledger given (K x) q | (_, q) \<Rightarrow> ledger given {#} q))"

lemma movesI:
  assumes "\<And>p r q. ledger given H p \<Longrightarrow> m p = (r, q) \<Longrightarrow>
    (case r of Ok x \<Rightarrow> ledger given (K x) q | _ \<Rightarrow> ledger given {#} q)"
  shows "moves given H m K"
  unfolding moves_def using assms by (simp add: case_prod_beta)

lemma moves_keeps: "keeps (ledger given H) m \<Longrightarrow> moves given H m (\<lambda>_. H)"
proof (rule movesI)
  fix p r q assume "keeps (ledger given H) m" "ledger given H p" "m p = (r, q)"
  then have "ledger given H q" by (rule keepsD)
  then show "case r of Ok x \<Rightarrow> ledger given H q | _ \<Rightarrow> ledger given {#} q"
    by (cases r) (auto intro: ledger_drop)
qed

lemma movesD:
  "moves given H m K \<Longrightarrow> ledger given H p \<Longrightarrow> m p = (r, q) \<Longrightarrow>
    (case r of Ok x \<Rightarrow> ledger given (K x) q | _ \<Rightarrow> ledger given {#} q)"
  unfolding moves_def by fastforce

lemma moves_bind:
  assumes m: "moves given H m K" and f: "\<And>x. moves given (K x) (f x) L"
  shows "moves given H (bindM m f) L"
proof (rule movesI)
  fix p r q assume p: "ledger given H p" and run: "bindM m f p = (r, q)"
  obtain r1 p1 where m1: "m p = (r1, p1)" by force
  note p1 = movesD [OF m p m1]
  show "case r of Ok x \<Rightarrow> ledger given (L x) q | _ \<Rightarrow> ledger given {#} q"
  proof (cases r1)
    case (Ok x)
    with p1 have "ledger given (K x) p1" by simp
    moreover have "f x p1 = (r, q)" using run m1 Ok by (simp add: bindM_def)
    ultimately show ?thesis by (rule movesD [OF f])
  qed (use p1 run m1 in \<open>auto simp: bindM_def\<close>)
qed


lemma moves_pure:
  "moves given H (errM e) K" "moves given H panicM K"
  "(\<And>v. y = Some v \<Longrightarrow> K v \<subseteq># H) \<Longrightarrow> moves given H (ok_or y e) K"
  "(\<And>v. y = Some v \<Longrightarrow> K v \<subseteq># H) \<Longrightarrow> moves given H (unwrapM y) K"
  "K x \<subseteq># H \<Longrightarrow> moves given H (retM x) K"
  by (auto intro!: movesI elim!: ledger_less simp: run_simps ok_or_def unwrapM_def split: option.splits)

lemma moves_alloc:
  assumes drv: "driver_blocks pf cur given"
  shows "moves given H (alloc_vram_on_gpu pf g n) (\<lambda>x. add_mset (g, n, x) H)"
proof (rule movesI)
  fix p r q assume p: "ledger given H p" and run: "alloc_vram_on_gpu pf g n p = (r, q)"
  note b = books_alloc [OF drv conjunct2 [OF p [unfolded ledger_def]] run]
  have "tp_vmt q = tp_vmt p \<and> tp_cluster q = tp_cluster p"
    using b by (cases r) (simp_all add: books_def)
  then have "case r of Ok x \<Rightarrow> ledger given (add_mset (g, n, x) H) q | _ \<Rightarrow> ledger given H q"
    using b p by (cases r) (simp_all add: ledger_def)
  then show "case r of Ok x \<Rightarrow> ledger given (add_mset (g, n, x) H) q | _ \<Rightarrow> ledger given {#} q"
    by (cases r) (auto intro: ledger_drop)
qed

lemma ledger_free:
  assumes p: "ledger given (add_mset (g, n, x) H) p"
  shows "\<exists>q. free_vram_on_gpu g x n p = (Ok (), q) \<and> ledger given H q"
proof -
  have "books given (tp_vmt p) (tp_cluster p) (add_mset (g, n, x) (page_blocks (tp_cluster p) (tp_vmt p) + H)) p"
    using p by (simp add: ledger_def)
  from books_free [OF this] obtain q where q: "free_vram_on_gpu g x n p = (Ok (), q)"
    "books given (tp_vmt p) (tp_cluster p) (page_blocks (tp_cluster p) (tp_vmt p) + H) q" by blast
  then have "tp_vmt q = tp_vmt p" "tp_cluster q = tp_cluster p" by (simp_all add: books_def)
  with q p show ?thesis by (simp add: ledger_def)
qed

lemma moves_free: "moves given (add_mset (g, n, x) H) (ignoreM (free_vram_on_gpu g x n)) (\<lambda>_. H)"
proof (rule movesI)
  fix p r q assume p: "ledger given (add_mset (g, n, x) H) p" and run: "ignoreM (free_vram_on_gpu g x n) p = (r, q)"
  from ledger_free [OF p] run show "case r of Ok _ \<Rightarrow> ledger given H q | _ \<Rightarrow> ledger given {#} q"
    by (auto simp: ignoreM_def bindM_def catchM_def retM_run)
qed

text \<open>Writes to the table.\<close>

lemma page_blocks_modify:
  assumes "finite (dom (vt_pages v))" and "vt_pages v n = Some pg"
  shows "page_blocks cl (vmt_modify n f v) + chunks_blocks cl pg = page_blocks cl v + chunks_blocks cl (f pg)"
  using map_blocks_split [OF assms(1), of "chunks_blocks cl" n] map_blocks_update [OF assms(1), of "chunks_blocks cl" n]
  by (simp add: page_blocks_def vmt_modify_def assms(2))

lemma ledger_table:
  assumes p: "ledger given H p" and fin: "finite (dom (vt_pages v))" and known: "ordinals_known (tp_cluster p) v"
    and sub: "page_blocks (tp_cluster p) v + K \<subseteq># page_blocks (tp_cluster p) (tp_vmt p) + H"
  shows "ledger given K (p\<lparr>tp_vmt := v\<rparr>)"
proof -
  have b: "books given (tp_vmt p) (tp_cluster p) (page_blocks (tp_cluster p) v + K) p"
    using p sub books_less unfolding ledger_def by blast
  then have "books given v (tp_cluster p) (page_blocks (tp_cluster p) v + K) (p\<lparr>tp_vmt := v\<rparr>)"
    using fin unfolding books_def fixed_ok_def tables_finite_def by auto
  then show ?thesis using known by (simp add: ledger_def)
qed

lemma ledger_finite: "ledger given H p \<Longrightarrow> finite (dom (vt_pages (tp_vmt p)))" "ledger given H p \<Longrightarrow> finite (dom (tp_inflight p))"
  by (simp_all add: ledger_def books_def tables_finite_def)

lemma dom_vmt_modify [simp]: "dom (vt_pages (vmt_modify n f v)) = dom (vt_pages v)"
  by (auto simp: vmt_modify_def)

text \<open>A write that leaves the device chunks of the page, and one that adds a chunk.\<close>

lemma ledger_modify:
  assumes "\<And>pg. pg_vram_chunks (f pg) = pg_vram_chunks pg"
  shows "keeps (ledger given H) (modify_page n f)"
proof (rule keepsI)
  fix p assume p: "ledger given H p"
  show "ledger given H (snd (modify_page n f p))"
  proof (cases "vt_pages (tp_vmt p) n")
    case None
    with p show ?thesis by (simp add: modify_page_def bindM_def unwrapM_def vmt_lookup_def run_simps)
  next
    case (Some pg)
    let ?v = "vmt_modify n f (tp_vmt p)"
    have "chunks_blocks (tp_cluster p) (f pg) = chunks_blocks (tp_cluster p) pg"
      using assms by (simp add: chunks_blocks_def)
    with page_blocks_modify [OF ledger_finite(1) [OF p] Some, of "tp_cluster p" f]
    have same: "page_blocks (tp_cluster p) ?v = page_blocks (tp_cluster p) (tp_vmt p)" by simp
    have "ordinals_known (tp_cluster p) ?v"
      using p assms by (fastforce simp: ledger_def ordinals_known_def vmt_modify_def)
    from ledger_table [OF p _ this] same ledger_finite(1) [OF p]
    have "ledger given H (p\<lparr>tp_vmt := ?v\<rparr>)" by simp
    with Some show ?thesis by (simp add: modify_page_def bindM_def unwrapM_def vmt_lookup_def run_simps)
  qed
qed

lemma moves_install:
  "moves given (add_mset (g, n, x) H) (install_chunk name g x n) (\<lambda>_. H)"
proof (rule movesI)
  fix p r q assume p: "ledger given (add_mset (g, n, x) H) p" and run: "install_chunk name g x n p = (r, q)"
  show "case r of Ok _ \<Rightarrow> ledger given H q | _ \<Rightarrow> ledger given {#} q"
  proof (cases "r = Ok ()")
    case False
    then have "r = Panic \<and> q = p" using run
      by (auto simp: install_chunk_def bindM_def unwrapM_def run_simps modify_page_run split: option.splits if_splits)
    with p show ?thesis by (auto intro: ledger_drop)
  next
    case True
    let ?cl = "tp_cluster p"
    from True run obtain pg where page: "vt_pages (tp_vmt p) name = Some pg" and g: "g < length (gc_ordinals ?cl)"
      and q: "q = p\<lparr>tp_vmt := vmt_modify name (\<lambda>pg'. pg'\<lparr>pg_vram_chunks := pg_vram_chunks pg' @
        [\<lparr>ck_gpu_ordinal = gc_ordinals ?cl ! g, ck_device_ptr = x, ck_size_bytes = n,
          ck_num_elements = n div pg_element_size pg\<rparr>], pg_tier := Vram, pg_state := Resident\<rparr>) (tp_vmt p)\<rparr>"
      by (auto simp: install_chunk_def bindM_def unwrapM_def vec_get_def vmt_lookup_def run_simps modify_page_run
          split: option.splits if_splits)
    let ?c = "\<lparr>ck_gpu_ordinal = gc_ordinals ?cl ! g, ck_device_ptr = x, ck_size_bytes = n,
          ck_num_elements = n div pg_element_size pg\<rparr>"
    let ?f = "\<lambda>pg'. pg'\<lparr>pg_vram_chunks := pg_vram_chunks pg' @ [?c], pg_tier := Vram, pg_state := Resident\<rparr>"
    have "index_of ?cl (gc_ordinals ?cl ! g) = Some g"
      using p g by (simp add: ledger_def books_def fixed_ok_def)
    then have "chunks_blocks ?cl (?f pg) = add_mset (g, n, x) (chunks_blocks ?cl pg)"
      by (simp add: chunks_blocks_def chunk_block_def)
    with page_blocks_modify [OF ledger_finite(1) [OF p] page, of ?cl ?f]
    have "page_blocks ?cl (vmt_modify name ?f (tp_vmt p)) = add_mset (g, n, x) (page_blocks ?cl (tp_vmt p))" by simp
    moreover have "ordinals_known ?cl (vmt_modify name ?f (tp_vmt p))"
      using p g by (auto simp: ledger_def ordinals_known_def vmt_modify_def split: if_splits)
    ultimately have "ledger given H q"
      unfolding q using ledger_finite(1) [OF p] by (intro ledger_table [OF p]) simp_all
    with True show ?thesis by simp
  qed
qed

section \<open>The operations\<close>

text \<open>A step that moves no block, in a program.\<close>

lemma moves_then:
  "keeps (ledger given H) m \<Longrightarrow> (\<And>x. moves given H (f x) L) \<Longrightarrow> moves given H (bindM m f) L"
  by (rule moves_bind [OF moves_keeps])

lemma moves_read: "(\<And>s. moves given H (m s) K) \<Longrightarrow> moves given H (\<lambda>s. m s s) K"
  by (simp add: moves_def)

lemma moves_less: "moves given H m K \<Longrightarrow> H \<subseteq># G \<Longrightarrow> moves given G m K"
  by (rule movesI) (blast dest: movesD ledger_less)

lemma moves_keeps_ledger: "moves given {#} m (\<lambda>_. {#}) \<Longrightarrow> keeps (ledger given {#}) m"
proof (rule keepsI)
  fix p assume m: "moves given {#} m (\<lambda>_. {#})" and p: "ledger given {#} p"
  obtain r q where run: "m p = (r, q)" by force
  from movesD [OF m p run] show "ledger given {#} (snd (m p))" by (cases r) (simp_all add: run)
qed

lemmas ledger_neutral =
  books_keep_ledger [OF books_dmaM] books_keep_ledger [OF books_dramM] books_keep_ledger [OF books_spillM]
  books_keep_ledger [OF books_reads(1)] books_keep_ledger [OF books_reads(2)] books_keep_ledger [OF books_reads(3)]
  books_keep_ledger [OF books_reads(4)] books_keep_ledger [OF books_stage_alloc]

lemma ledger_driver:
  assumes "driver_blocks pf cur given"
  shows "keeps (ledger given H) (set_context pf g)" "keeps (ledger given H) (sync_compute pf g)"
    "keeps (ledger given H) (stage_copy pf nm g off stage len dst bytes)"
    "keeps (ledger given H) (ignoreW (pf_htod_async pf dst bs s))"
    "keeps (ledger given H) (worldM (cu_call nm (pf_peer_async pf dst dc src sc n s)))"
    "keeps (ledger given H) (worldM (event_synchronize pf ev))"
    "keeps (ledger given H) (worldM (event_new_blocking pf))"
    "keeps (ledger given H) (worldM (event_record pf ev st))"
    "keeps (ledger given H) (worldM (\<lambda>w. case pf_clock pf w of (now, w') \<Rightarrow> (Ok now, w')))"
    "keeps (ledger given H) (copy_to_host pf g hdst dsrc n)"
proof -
  note calls = driver_blocks_calls [OF assms]
  show "keeps (ledger given H) (set_context pf g)"
    by (rule books_keep_ledger) (rule books_set_context [OF assms])
  show "keeps (ledger given H) (sync_compute pf g)" by (rule books_keep_ledger) (rule books_sync [OF assms])
  show "keeps (ledger given H) (stage_copy pf nm g off stage len dst bytes)"
    by (rule books_keep_ledger) (rule books_stage_copy [OF assms])
  show "keeps (ledger given H) (copy_to_host pf g hdst dsrc n)"
    by (rule books_keep_ledger) (rule books_copy_to_host [OF assms])
  show "keeps (ledger given H) (ignoreW (pf_htod_async pf dst bs s))"
    by (rule books_keep_ledger) (intro books_ignoreW calls)
  show "keeps (ledger given H) (worldM (cu_call nm (pf_peer_async pf dst dc src sc n s)))"
    by (rule books_keep_ledger) (intro books_worldM given_cu_call calls)
  show "keeps (ledger given H) (worldM (event_synchronize pf ev))"
    unfolding event_synchronize_def by (rule books_keep_ledger) (intro books_worldM given_cu_call calls)
  show "keeps (ledger given H) (worldM (event_new_blocking pf))"
    unfolding event_new_blocking_def
    by (rule books_keep_ledger) (intro books_worldM given_bindM given_cu_get calls, simp add: retM_def)
  show "keeps (ledger given H) (worldM (event_record pf ev st))"
    unfolding event_record_def by (rule books_keep_ledger) (intro books_worldM given_cu_call calls)
  show "keeps (ledger given H) (worldM (\<lambda>w. case pf_clock pf w of (now, w') \<Rightarrow> (Ok now, w')))"
    by (rule books_keep_ledger) (intro books_worldM, simp add: case_prod_beta calls)
qed

lemma ledger_world: "ledger given H p \<Longrightarrow> given w = given (tp_world p) \<Longrightarrow> ledger given H (p\<lparr>tp_world := w\<rparr>)"
  by (simp add: ledger_def books_neutral)

lemma ledger_drop_event:
  "driver_blocks pf cur given \<Longrightarrow> ledger given H p \<Longrightarrow> ledger given H (drop_event pf ev p)"
  by (simp add: drop_event_def ledger_world event_drop_def cu_ignore_def driver_blocks_calls(8))

lemma ledger_membrane: "ledger given H p \<Longrightarrow> ledger given H (p\<lparr>tp_membrane := mb\<rparr>)"
  "ledger given H p \<Longrightarrow> ledger given H (p\<lparr>tp_membrane_budget := b\<rparr>)"
  "ledger given H p \<Longrightarrow> ledger given H (p\<lparr>tp_host := h\<rparr>)"
  by (simp_all add: ledger_def books_neutral)

lemma ledger_flight:
  assumes p: "ledger given H p" and fin: "finite (dom fl)"
    and sub: "flight_blocks fl + K \<subseteq># flight_blocks (tp_inflight p) + H"
  shows "ledger given K (p\<lparr>tp_inflight := fl\<rparr>)"
proof -
  let ?P = "page_blocks (tp_cluster p) (tp_vmt p)"
  have "cached (tp_vram_free p) + flight_blocks fl + (?P + K)
      \<subseteq># cached (tp_vram_free p) + flight_blocks (tp_inflight p) + (?P + H)"
    using subset_mset.add_left_mono [OF sub, of "cached (tp_vram_free p) + ?P"] by (simp add: ac_simps)
  moreover have "sound_blocks given (tp_contexts p) (length (tp_vram_free p)) (tp_world p)
      (cached (tp_vram_free p) + flight_blocks (tp_inflight p) + (?P + H))"
    using p by (simp add: ledger_def books_def)
  ultimately have "sound_blocks given (tp_contexts p) (length (tp_vram_free p)) (tp_world p)
      (cached (tp_vram_free p) + flight_blocks fl + (?P + K))"
    using sound_blocks_less by metis
  with p fin show ?thesis unfolding ledger_def books_def fixed_ok_def tables_finite_def by auto
qed

lemma ledger_claim:
  assumes p: "ledger given H p" and fl: "tp_inflight p n = Some (g, x, m, ev)"
  shows "ledger given (add_mset (g, m, x) H) (p\<lparr>tp_inflight := (tp_inflight p)(n := None)\<rparr>)"
proof (rule ledger_flight [OF p])
  have split: "flight_blocks (tp_inflight p) = flight_blocks ((tp_inflight p)(n := None)) + {#(g, m, x)#}"
    unfolding flight_blocks_def by (subst map_blocks_split [OF ledger_finite(2) [OF p], of _ n]) (simp add: fl)
  show "flight_blocks ((tp_inflight p)(n := None)) + add_mset (g, m, x) H \<subseteq># flight_blocks (tp_inflight p) + H"
    unfolding split by simp
qed (use ledger_finite(2) [OF p] in simp)

lemma ledger_launch:
  assumes p: "ledger given (add_mset (g, m, x) H) p"
  shows "ledger given H (p\<lparr>tp_inflight := (tp_inflight p)(n \<mapsto> (g, x, m, ev))\<rparr>)"
proof -
  let ?f = "\<lambda>(g, x, n, ev :: cuda_event). {#(g :: usize, n :: usize, x :: u64)#}"
  have "flight_blocks (tp_inflight p) = map_blocks ?f ((tp_inflight p)(n := None)) + entry_blocks ?f (tp_inflight p n)"
    unfolding flight_blocks_def by (rule map_blocks_split [OF ledger_finite(2) [OF p]])
  moreover have "flight_blocks ((tp_inflight p)(n \<mapsto> (g, x, m, ev))) = map_blocks ?f ((tp_inflight p)(n := None)) + {#(g, m, x)#}"
    unfolding flight_blocks_def using map_blocks_update [OF ledger_finite(2) [OF p], of ?f n "(g, x, m, ev)"] by simp
  ultimately show ?thesis
    using ledger_finite(2) [OF p] by (intro ledger_flight [OF p]) simp_all
qed


lemma moves_finally:
  assumes m: "moves given H m K" and fin: "\<And>p H. ledger given H p \<Longrightarrow> ledger given H (fin p)"
  shows "moves given H (finallyM m fin) K"
proof (rule movesI)
  fix p r q assume p: "ledger given H p" and run: "finallyM m fin p = (r, q)"
  obtain q' where m': "m p = (r, q')" and q: "q = fin q'" using run by (auto simp: finallyM_def split: prod.splits)
  from movesD [OF m p m'] show "case r of Ok x \<Rightarrow> ledger given (K x) q | _ \<Rightarrow> ledger given {#} q"
    using fin by (cases r) (simp_all add: q)
qed

lemma ledger_touch: "keeps (ledger given H) (modify_page n (page_touch now))" "keeps (ledger given H) (touchM n now)"
  unfolding touchM_def by (rule ledger_modify, simp add: page_touch_def)+

lemma moves_claim:
  fixes pf :: "'w platform"
  assumes drv: "driver_blocks pf cur given"
  shows "moves given H (claim_prefetch pf n g now) (\<lambda>_. H)"
proof (rule movesI)
  fix p r q assume p: "ledger given H p" and run: "claim_prefetch pf n g now p = (r, q)"
  show "case r of Ok _ \<Rightarrow> ledger given H q | _ \<Rightarrow> ledger given {#} q"
  proof (cases "tp_inflight p n")
    case None
    then show ?thesis using run p by (auto simp: claim_prefetch_def)
  next
    case (Some e)
    obtain g' x m ev where e: "e = (g', x, m, ev)" by (cases e)
    let ?body = "if g' \<noteq> g then bindM (ignoreM (free_vram_on_gpu g' x m)) (\<lambda>_. retM None)
             else bindM (worldM (event_synchronize pf ev)) (\<lambda>_.
               bindM (install_chunk n g x m) (\<lambda>_.
               bindM (modify_page n (page_touch now)) (\<lambda>_. retM (Some x))))"
    have "moves given (add_mset (g', m, x) H) (bindM (ignoreM (free_vram_on_gpu g' x m))
        (\<lambda>_. retM None :: ('w tiered_pool, u64 option) op)) (\<lambda>_. H)"
      by (rule moves_bind [OF moves_free]) (simp add: moves_pure)
    moreover have "moves given (add_mset (g, m, x) H) (bindM (worldM (event_synchronize pf ev)) (\<lambda>_.
               bindM (install_chunk n g x m) (\<lambda>_.
               bindM (modify_page n (page_touch now)) (\<lambda>_. retM (Some x))))) (\<lambda>_. H)"
      by (intro moves_bind [OF moves_install] moves_then ledger_driver [OF drv] ledger_touch) (simp add: moves_pure)
    ultimately have "moves given (add_mset (g', m, x) H) ?body (\<lambda>_. H)" by simp
    then have "moves given (add_mset (g', m, x) H) (finallyM ?body (drop_event pf ev)) (\<lambda>_. H)"
      by (rule moves_finally) (rule ledger_drop_event [OF drv])
    from movesD [OF this ledger_claim [OF p Some [unfolded e]]] run show ?thesis
      by (simp add: claim_prefetch_def Some e)
  qed
qed

lemma moves_access_peer:
  assumes drv: "driver_blocks pf cur given"
  shows "moves given H (access_peer pf n g now src) (\<lambda>_. H)"
  unfolding access_peer_def Let_def
  by (rule moves_read)
    (intro moves_bind [OF moves_alloc [OF drv]] moves_bind [OF moves_install] moves_then keeps_pure ledger_neutral
      ledger_driver [OF drv] ledger_touch moves_pure, simp)

lemma moves_access_vram:
  assumes drv: "driver_blocks pf cur given"
  shows "moves given H (access_vram pf n g now here elsewhere) (\<lambda>_. H)"
proof (cases here)
  case None
  then show ?thesis unfolding access_vram_def
    by simp (intro moves_then keeps_pure moves_access_peer [OF drv])
next
  case (Some c)
  then show ?thesis unfolding access_vram_def
    by simp (intro moves_then ledger_touch moves_pure, simp)
qed

lemma moves_access_dram:
  assumes drv: "driver_blocks pf cur given"
  shows "moves given H (access_dram pf n g now shard) (\<lambda>_. H)"
  unfolding access_dram_def Let_def
  by (intro moves_bind [OF moves_alloc [OF drv]] moves_bind [OF moves_install] moves_then keeps_pure ledger_neutral
      ledger_driver [OF drv] ledger_touch moves_pure, simp)


lemma moves_give_back: "moves given (add_mset (g, n, x) H) (bindM (ignoreM (free_vram_on_gpu g x n)) (\<lambda>_. errM e)) K"
  by (rule moves_bind [OF moves_free]) (rule moves_pure)

lemma moves_access_ssd:
  assumes drv: "driver_blocks pf cur given"
  shows "moves given H (access_ssd pf n g now pg shard) (\<lambda>_. H)"
proof -
  let ?n = "pg_size_bytes pg"
  have borrow: "moves given (add_mset (g, ?n, x) H)
      (bindM (catchM (stage_alloc g ?n)) (\<lambda>res. case res of
          Inr (ptr, want) \<Rightarrow> retM (ptr, want, True)
        | Inl e \<Rightarrow> bindM (ignoreM (free_vram_on_gpu g x ?n)) (\<lambda>_. errM e)))
      (\<lambda>_. add_mset (g, ?n, x) H)" for x
    by (intro moves_then keeps_catchM ledger_neutral)
      (auto intro!: moves_pure moves_give_back split: sum.split prod.split)
  have stage: "moves given (add_mset (g, ?n, x) H)
      (case shard of
         Some c \<Rightarrow>
           (if ?n \<le> dc_size_bytes c then retM (dc_host_ptr c, ?n, False)
            else bindM (catchM (stage_alloc g ?n)) (\<lambda>res. case res of
                Inr (ptr, want) \<Rightarrow> retM (ptr, want, True)
              | Inl e \<Rightarrow> bindM (ignoreM (free_vram_on_gpu g x ?n)) (\<lambda>_. errM e)))
       | None \<Rightarrow>
           bindM (catchM (stage_alloc g ?n)) (\<lambda>res. case res of
                Inr (ptr, want) \<Rightarrow> retM (ptr, want, True)
              | Inl e \<Rightarrow> bindM (ignoreM (free_vram_on_gpu g x ?n)) (\<lambda>_. errM e)))
      (\<lambda>_. add_mset (g, ?n, x) H)" for x
    using borrow by (cases shard) (auto intro: moves_pure)
  have "keeps (ledger given K) (if b then dram_freeM g s l else retM ())" for K b s l
    unfolding dram_freeM_def by (intro keeps_if ledger_neutral keeps_pure)
  note unstage = this
  have outcome: "moves given (add_mset (g, ?n, x) H)
      (case copy of Inl e \<Rightarrow> bindM (ignoreM (free_vram_on_gpu g x ?n)) (\<lambda>_. errM e) | Inr u \<Rightarrow> retM ())
      (\<lambda>_. add_mset (g, ?n, x) H)" for x and copy :: "vugva_error + unit"
    by (cases copy) (auto intro: moves_pure moves_give_back)
  have tail: "moves given (add_mset (g, ?n, x) H)
      (bindM (catchM (stage_copy pf n g off s l x ?n)) (\<lambda>copy.
       bindM (if b then dram_freeM g s l else retM ()) (\<lambda>_.
       bindM (case copy of Inl e \<Rightarrow> bindM (ignoreM (free_vram_on_gpu g x ?n)) (\<lambda>_. errM e) | Inr u \<Rightarrow> retM ()) (\<lambda>_.
       bindM (touchM n now) (\<lambda>_.
       bindM (install_chunk n g x ?n) (\<lambda>_.
       retM x)))))) (\<lambda>_. H)" for x off s l b
    by (intro moves_bind [OF outcome] moves_bind [OF moves_install] moves_then keeps_catchM unstage
        ledger_driver [OF drv] ledger_touch moves_pure, simp)
  show ?thesis
    unfolding access_ssd_def Let_def
    by (intro moves_bind [OF moves_alloc [OF drv]] moves_bind [OF stage] moves_then keeps_pure)
      (simp only: split_paired_all prod.case, rule tail)
qed

lemma moves_if: "(b \<Longrightarrow> moves given H m K) \<Longrightarrow> (\<not> b \<Longrightarrow> moves given H n K) \<Longrightarrow> moves given H (if b then m else n) K"
  by simp

lemma access_ledger:
  assumes drv: "driver_blocks pf cur given"
  shows "moves given H (access pf n g) (\<lambda>_. H)"
proof -
  have body: "moves given H (bindM (lookupM n) (\<lambda>page.
         bindM (\<lambda>p. unwrapM (vec_get (gc_ordinals (tp_cluster p)) g) p) (\<lambda>ordinal.
         (let shard = vec_get (pg_dram_chunks page) g in
          case pg_tier page of
            Vram \<Rightarrow> access_vram pf n g now (chunk_here page ordinal) (chunk_elsewhere page ordinal)
          | Dram \<Rightarrow> access_dram pf n g now shard
          | Ssd \<Rightarrow> access_ssd pf n g now page shard)))) (\<lambda>_. H)" for now
    by (intro moves_then ledger_neutral keeps_unwrap_at)
      (auto simp: Let_def intro: moves_access_vram [OF drv] moves_access_dram [OF drv] moves_access_ssd [OF drv]
        split: tier.split)
  show ?thesis
    unfolding access_def
    by (intro moves_then [OF ledger_driver(9) [OF drv]] moves_then [OF keeps_state_fun] moves_bind [OF moves_claim [OF drv]]
        ledger_membrane) (auto intro: body moves_pure split: option.split)
qed

lemma prefetch_ledger:
  assumes drv: "driver_blocks pf cur given"
  shows "moves given H (prefetch pf n g) (\<lambda>_. H)"
proof (rule movesI)
  fix p r q assume p: "ledger given H p" and run: "prefetch pf n g p = (r, q)"
  have "moves given H (start_prefetch pf n g bytes hp) (\<lambda>_. H)" for bytes hp
    unfolding start_prefetch_def
  proof (intro moves_bind [OF moves_alloc [OF drv]] moves_then ledger_driver [OF drv], rule movesI)
    fix x ev and p r q
    let ?body = "bindM (prefetch_stream g) (\<lambda>stream.
         bindM (getM (\<lambda>p. slice (tp_host p) hp bytes)) (\<lambda>bs.
         bindM (\<lambda>p. case pf_htod_async pf x bs (cs_inner stream) (tp_world p) of
                  (rc, w) \<Rightarrow> (Ok rc, p\<lparr>tp_world := w\<rparr>)) (\<lambda>rc.
         if rc \<noteq> 0 then
           bindM (ignoreM (free_vram_on_gpu g x bytes)) (\<lambda>_.
             liftM (check_cu ''cuMemcpyHtoDAsync_v2'' rc))
         else worldM (event_record pf ev stream))))"
    assume p: "ledger given (add_mset (g, bytes, x) H) p"
      and run: "(let body = ?body in case body p of
            (Ok _, q) \<Rightarrow> (Ok (), q\<lparr>tp_inflight := (tp_inflight q)(n \<mapsto> (g, x, bytes, ev))\<rparr>)
          | (Err e, q) \<Rightarrow> (Err e, drop_event pf ev q)
          | (Panic, q) \<Rightarrow> (Panic, drop_event pf ev q)) = (r, q)"
    have failed: "moves given (add_mset (g, bytes, x) H) (bindM (ignoreM (free_vram_on_gpu g x bytes)) (\<lambda>_.
             liftM (check_cu ''cuMemcpyHtoDAsync_v2'' rc))) (\<lambda>_. add_mset (g, bytes, x) H)" if "rc \<noteq> 0" for rc
    proof (rule moves_bind [OF moves_free], rule movesI)
      fix p r q assume "ledger given H p" "liftM (check_cu ''cuMemcpyHtoDAsync_v2'' rc) p = (r, q)"
      with that show "case r of Ok x' \<Rightarrow> ledger given (add_mset (g, bytes, x) H) q | _ \<Rightarrow> ledger given {#} q"
        by (auto simp: liftM_run check_cu_def dest: ledger_drop)
    qed
    have copy: "keeps (ledger given K) (\<lambda>p. case pf_htod_async pf x bs s (tp_world p) of
                  (rc, w) \<Rightarrow> (Ok rc, p\<lparr>tp_world := w\<rparr>))" for K bs s
    proof (rule keepsI)
      fix p assume p: "ledger given K p"
      obtain rc w where c: "pf_htod_async pf x bs s (tp_world p) = (rc, w)" by force
      with driver_blocks_calls(3) [OF drv, of x bs s "tp_world p"] have "given w = given (tp_world p)" by simp
      with p c show "ledger given K (snd (case pf_htod_async pf x bs s (tp_world p) of
                  (rc, w) \<Rightarrow> (Ok rc, p\<lparr>tp_world := w\<rparr>)))" by (simp add: ledger_world)
    qed
    have "moves given (add_mset (g, bytes, x) H) ?body (\<lambda>_. add_mset (g, bytes, x) H)"
      by (intro moves_then ledger_neutral keeps_pure copy moves_if failed moves_keeps [OF ledger_driver(8) [OF drv]])
    moreover obtain r1 p1 where b: "?body p = (r1, p1)" by force
    ultimately have "case r1 of Ok _ \<Rightarrow> ledger given (add_mset (g, bytes, x) H) p1 | _ \<Rightarrow> ledger given {#} p1"
      using movesD p by blast
    with run b show "case r of Ok _ \<Rightarrow> ledger given H q | _ \<Rightarrow> ledger given {#} q"
      by (cases r1) (auto simp: Let_def intro: ledger_launch ledger_drop_event [OF drv])
  qed
  note start = this
  show "case r of Ok _ \<Rightarrow> ledger given H q | _ \<Rightarrow> ledger given {#} q"
  proof (cases "(r, q) = (Ok (), p)")
    case False
    then obtain bytes hp where "start_prefetch pf n g bytes hp p = (r, q)"
      using run by (auto simp: prefetch_def split: if_splits option.splits)
    from movesD [OF start p this] show ?thesis .
  qed (use p in simp)
qed


section \<open>Demotion and release\<close>

text \<open>
  \<open>gives_up given v cl S m T\<close>: \<open>m\<close> does not write the table; if it succeeds the blocks outside the caches
  go from \<open>S\<close> to \<open>T\<close>, and if it fails nothing has moved.
\<close>

definition gives_up ::
  "('w \<Rightarrow> u64 \<Rightarrow> (u64 \<times> usize) option) \<Rightarrow> vmt \<Rightarrow> gpu_cluster \<Rightarrow> held_block multiset \<Rightarrow> ('w tiered_pool, 'a) op \<Rightarrow> held_block multiset \<Rightarrow> bool" where
  "gives_up given v cl S m T \<longleftrightarrow> (\<forall>p r q. books given v cl S p \<longrightarrow> m p = (r, q) \<longrightarrow>
     books given v cl (case r of Ok x \<Rightarrow> T | _ \<Rightarrow> S) q)"

lemma gives_upD:
  "gives_up given v cl S m T \<Longrightarrow> books given v cl S p \<Longrightarrow> m p = (r, q) \<Longrightarrow> books given v cl (case r of Ok x \<Rightarrow> T | _ \<Rightarrow> S) q"
  unfolding gives_up_def by blast

lemma gives_up_then:
  assumes m: "keeps (books given v cl S) m" and f: "\<And>x p q. books given v cl S p \<Longrightarrow> m p = (Ok x, q) \<Longrightarrow> gives_up given v cl S (f x) T"
  shows "gives_up given v cl S (bindM m f) T"
  unfolding gives_up_def
proof (intro allI impI)
  fix p r q assume p: "books given v cl S p" and run: "bindM m f p = (r, q)"
  obtain r1 p1 where m1: "m p = (r1, p1)" by force
  with m p have p1: "books given v cl S p1" by (rule keepsD)
  show "books given v cl (case r of Ok x \<Rightarrow> T | _ \<Rightarrow> S) q"
  proof (cases r1)
    case (Ok x)
    have "f x p1 = (r, q)" using run m1 Ok by (simp add: bindM_def)
    from gives_upD [OF f [OF p m1 [unfolded Ok]] p1 this] show ?thesis .
  qed (use p1 run m1 in \<open>auto simp: bindM_def\<close>)
qed

lemma gives_up_fail: "gives_up given v cl S (errM e) T" "gives_up given v cl S panicM T"
  by (simp_all add: gives_up_def run_simps)

lemma gives_up_free: "gives_up given v cl (add_mset (g, n, x) T) (free_vram_on_gpu g x n) T"
  unfolding gives_up_def using books_free by fastforce

lemma gives_up_demote_chunk:
  fixes pf :: "'w platform"
  assumes drv: "driver_blocks pf cur given"
  shows "gives_up given v cl (add_mset (chunk_block cl c) T) (demote_chunk pf n dram c) T"
  unfolding gives_up_def
proof (intro allI impI)
  fix p r q assume p: "books given v cl (add_mset (chunk_block cl c) T) p" and run: "demote_chunk pf n dram c p = (r, q)"
  have cl: "tp_cluster p = cl" using p by (simp add: books_def)
  have "gives_up given v cl (add_mset (chunk_block cl c) T)
     (bindM (ok_or (index_of (tp_cluster p) (ck_gpu_ordinal c)) (InvalidGpu (i32_as_usize (ck_gpu_ordinal c)))) (\<lambda>gpu_idx.
     bindM (ok_or (vec_get dram gpu_idx) (UnknownAllocation n)) (\<lambda>backing.
     if dc_size_bytes backing < ck_size_bytes c then
       bindM (unwrapM (vec_get (tp_dram_pools p) gpu_idx)) (\<lambda>d.
         errM (DramOom (ck_size_bytes c) (dc_size_bytes backing) (dp_capacity d)))
     else
       bindM (dmaM (submit_vram_to_dram gpu_idx (word_of_nat (ck_device_ptr c))
                (word_of_nat (dc_host_ptr backing)) (ck_size_bytes c) 0)) (\<lambda>_.
       bindM (set_context pf gpu_idx) (\<lambda>_.
       bindM (copy_to_host pf gpu_idx (dc_host_ptr backing) (ck_device_ptr c) (ck_size_bytes c)) (\<lambda>_.
       bindM (sync_compute pf gpu_idx) (\<lambda>_.
       free_vram_on_gpu gpu_idx (ck_device_ptr c) (ck_size_bytes c))))))) ) T"
  proof (cases "index_of cl (ck_gpu_ordinal c)")
    case None
    then show ?thesis by (auto simp: cl gives_up_def ok_or_def bindM_def run_simps)
  next
    case (Some g)
    then have b: "chunk_block cl c = (g, ck_size_bytes c, ck_device_ptr c)" by (simp add: chunk_block_def)
    have last: "gives_up given v cl (add_mset (chunk_block cl c) T)
       (bindM (dmaM (submit_vram_to_dram g src dst k pr)) (\<lambda>_.
       bindM (set_context pf g) (\<lambda>_.
       bindM (copy_to_host pf g hdst (ck_device_ptr c) (ck_size_bytes c)) (\<lambda>_.
       bindM (sync_compute pf g) (\<lambda>_.
       free_vram_on_gpu g (ck_device_ptr c) (ck_size_bytes c)))))) T" for src dst k pr hdst
      unfolding b by (intro gives_up_then books_dmaM books_set_context [OF drv] books_copy_to_host [OF drv] books_sync [OF drv] gives_up_free)
    have "gives_up given v cl (add_mset (chunk_block cl c) T) (bindM (unwrapM y) (\<lambda>d. errM (e d) :: ('w tiered_pool, unit) op)) T" for y :: "dram_pool option" and e
      by (intro gives_up_then keeps_pure gives_up_fail)
    with last have "gives_up given v cl (add_mset (chunk_block cl c) T)
      (bindM (ok_or (vec_get dram g) (UnknownAllocation n)) (\<lambda>backing.
     if dc_size_bytes backing < ck_size_bytes c then
       bindM (unwrapM (vec_get (tp_dram_pools p) g)) (\<lambda>d.
         errM (DramOom (ck_size_bytes c) (dc_size_bytes backing) (dp_capacity d)))
     else
       bindM (dmaM (submit_vram_to_dram g (word_of_nat (ck_device_ptr c))
                (word_of_nat (dc_host_ptr backing)) (ck_size_bytes c) 0)) (\<lambda>_.
       bindM (set_context pf g) (\<lambda>_.
       bindM (copy_to_host pf g (dc_host_ptr backing) (ck_device_ptr c) (ck_size_bytes c)) (\<lambda>_.
       bindM (sync_compute pf g) (\<lambda>_.
       free_vram_on_gpu g (ck_device_ptr c) (ck_size_bytes c))))))) T"
      by (intro gives_up_then keeps_pure) simp
    then show ?thesis by (simp add: cl Some ok_or_def bindM_def run_simps)
  qed
  from gives_upD [OF this p] run show "books given v cl (case r of Ok x \<Rightarrow> T | _ \<Rightarrow> add_mset (chunk_block cl c) T) q"
    by (simp add: demote_chunk_def)
qed

lemma gives_up_forM:
  assumes each: "\<And>c T. c \<in> set cs \<Longrightarrow> gives_up given v cl (add_mset (b c) T) (f c) T"
  shows "books given v cl (image_mset b (mset cs) + T) p \<Longrightarrow> forM cs f p = (r, q) \<Longrightarrow>
    (case r of Ok u \<Rightarrow> books given v cl T q | _ \<Rightarrow> length cs \<le> 1 \<longrightarrow> books given v cl (image_mset b (mset cs) + T) q)"
  using each
proof (induction cs arbitrary: p)
  case (Cons c cs)
  obtain r1 p1 where m1: "f c p = (r1, p1)" by force
  have "gives_up given v cl (add_mset (b c) (image_mset b (mset cs) + T)) (f c) (image_mset b (mset cs) + T)"
    using Cons.prems(3) by simp
  from gives_upD [OF this _ m1] Cons.prems(1)
  have p1: "books given v cl (case r1 of Ok x \<Rightarrow> image_mset b (mset cs) + T | _ \<Rightarrow> add_mset (b c) (image_mset b (mset cs) + T)) p1"
    by simp
  show ?case
  proof (cases r1)
    case (Ok u)
    then have rest: "forM cs f p1 = (r, q)" using Cons.prems(2) m1 by (simp add: bindM_def)
    have here: "books given v cl (image_mset b (mset cs) + T) p1" using p1 Ok by simp
    have each: "\<And>c T. c \<in> set cs \<Longrightarrow> gives_up given v cl (add_mset (b c) T) (f c) T" using Cons.prems(3) by simp
    note ih = Cons.IH [OF here rest each]
    show ?thesis
    proof (cases cs)
      case Nil
      then have "r = Ok ()" using rest by (simp add: retM_run)
      with ih show ?thesis by simp
    next
      case (Cons d ds)
      with ih show ?thesis by (cases r) simp_all
    qed
  qed (use p1 Cons.prems(2) m1 in \<open>auto simp: bindM_def\<close>)
qed (auto simp: retM_run)


text \<open>Emptying or removing the page whose blocks have been given up.\<close>

lemma page_blocks_without:
  assumes "finite (dom (vt_pages v))" and "vt_pages v n = Some pg"
  shows "page_blocks cl (v\<lparr>vt_pages := (vt_pages v)(n := None)\<rparr>) + chunks_blocks cl pg = page_blocks cl v"
  using map_blocks_split [OF assms(1), of "chunks_blocks cl" n] by (simp add: page_blocks_def assms(2))

lemma ledger_new_table:
  assumes "books given v0 cl (page_blocks cl v) p" and "finite (dom (vt_pages v))" and "ordinals_known cl v"
  shows "ledger given {#} (p\<lparr>tp_vmt := v\<rparr>)"
  using assms unfolding ledger_def books_def fixed_ok_def tables_finite_def by auto

text \<open>
  A demotion that succeeds keeps the ledger sound; so does one that fails, when the page has at most
  one device chunk.
\<close>

lemma demote_ledger:
  assumes drv: "driver_blocks pf cur given" and p: "ledger given {#} p" and run: "demote pf n p = (r, q)"
    and whole: "r = Ok () \<or> (\<forall>pg. vmt_lookup (tp_vmt p) n = Some pg \<longrightarrow> length (pg_vram_chunks pg) \<le> 1)"
  shows "ledger given {#} q"
proof (cases "vmt_lookup (tp_vmt p) n")
  case None
  then have "q = p" using run by (simp add: demote_def lookupM_def bindM_def run_simps)
  with p show ?thesis by simp
next
  case (Some pg)
  let ?cl = "tp_cluster p" and ?v = "tp_vmt p"
  let ?f = "\<lambda>pg. pg\<lparr>pg_vram_chunks := [], pg_tier := Dram, pg_state := Warm\<rparr>"
  show ?thesis
  proof (cases "pg_tier pg \<noteq> Vram \<or> pg_pinned pg")
    case True
    then have "q = p" using run Some by (auto simp: demote_def lookupM_def bindM_def run_simps)
    with p show ?thesis by simp
  next
    case False
    obtain r1 p1 where loop: "forM (pg_vram_chunks pg) (demote_chunk pf n (pg_dram_chunks pg)) p = (r1, p1)" by force
    have page: "vt_pages ?v n = Some pg" using Some by (simp add: vmt_lookup_def)
    let ?B = "image_mset (chunk_block ?cl) (mset (pg_vram_chunks pg))"
    have "page_blocks ?cl (vmt_modify n ?f ?v) + ?B = page_blocks ?cl ?v"
      using page_blocks_modify [OF ledger_finite(1) [OF p] page, of ?cl ?f] by (simp add: chunks_blocks_def)
    then have split: "page_blocks ?cl ?v = ?B + page_blocks ?cl (vmt_modify n ?f ?v)" by (simp add: add.commute)
    have "books given ?v ?cl (?B + page_blocks ?cl (vmt_modify n ?f ?v)) p"
      using p split by (simp add: ledger_def)
    from gives_up_forM [OF gives_up_demote_chunk [OF drv] this loop]
    have p1: "case r1 of Ok u \<Rightarrow> books given ?v ?cl (page_blocks ?cl (vmt_modify n ?f ?v)) p1
      | _ \<Rightarrow> length (pg_vram_chunks pg) \<le> 1 \<longrightarrow> books given ?v ?cl (page_blocks ?cl ?v) p1"
      unfolding split .
    have known: "ordinals_known ?cl ?v" using p by (simp add: ledger_def)
    show ?thesis
    proof (cases r1)
      case (Ok u)
      then have b: "books given ?v ?cl (page_blocks ?cl (vmt_modify n ?f ?v)) p1" using p1 by simp
      then have "tp_vmt p1 = ?v" by (simp add: books_def)
      then have "q = p1\<lparr>tp_vmt := vmt_modify n ?f ?v\<rparr>"
        using run Some False loop Ok by (simp add: demote_def lookupM_def bindM_def run_simps modify_page_run)
      moreover have "ordinals_known ?cl (vmt_modify n ?f ?v)"
        using known by (auto simp: ordinals_known_def vmt_modify_def split: if_splits)
      ultimately show ?thesis using ledger_new_table [OF b] ledger_finite(1) [OF p] by simp
    next
      case (Err e)
      then have "q = p1" "r = Err e" using run Some False loop by (simp_all add: demote_def lookupM_def bindM_def run_simps)
      with p1 Err whole Some have "books given ?v ?cl (page_blocks ?cl ?v) q" by simp
      then show ?thesis using known by (auto simp: ledger_def books_def)
    next
      case Panic
      then have "q = p1" "r = Panic" using run Some False loop by (simp_all add: demote_def lookupM_def bindM_def run_simps)
      with p1 Panic whole Some have "books given ?v ?cl (page_blocks ?cl ?v) q" by simp
      then show ?thesis using known by (auto simp: ledger_def books_def)
    qed
  qed
qed

lemma free_page_never_fails:
  assumes "books given v cl (image_mset (chunk_block cl) (mset cs) + T) p"
    and "\<forall>c \<in> set cs. ck_gpu_ordinal c \<in> set (gc_ordinals cl)"
  shows "\<exists>q. forM cs free_page_vram p = (Ok (), q) \<and> books given v cl T q"
  using assms
proof (induction cs arbitrary: p)
  case (Cons c cs)
  have cl: "tp_cluster p = cl" using Cons.prems(1) by (simp add: books_def)
  obtain i where "i < length (gc_ordinals cl)" "ck_gpu_ordinal c = gc_ordinals cl ! i"
    using Cons.prems(2) by (metis in_set_conv_nth list.set_intros(1))
  then have idx: "index_of cl (ck_gpu_ordinal c) = Some i" using Cons.prems(1) by (auto simp: books_def fixed_ok_def)
  then have "chunk_block cl c = (i, ck_size_bytes c, ck_device_ptr c)" by (simp add: chunk_block_def)
  then have "books given v cl (add_mset (i, ck_size_bytes c, ck_device_ptr c) (image_mset (chunk_block cl) (mset cs) + T)) p"
    using Cons.prems(1) by simp
  from books_free [OF this] obtain p1 where "free_page_vram c p = (Ok (), p1)"
    "books given v cl (image_mset (chunk_block cl) (mset cs) + T) p1" by (auto simp: free_page_vram_def cl idx)
  with Cons.IH [of p1] Cons.prems(2) show ?case by (auto simp: bindM_def)
qed (simp add: retM_run)

lemma deallocate_ledger:
  assumes p: "ledger given {#} p" and run: "deallocate n p = (r, q)"
  shows "ledger given {#} q"
proof (cases "vmt_lookup (tp_vmt p) n")
  case None
  then have "q = p" using run by (simp add: deallocate_def lookupM_def bindM_def run_simps)
  with p show ?thesis by simp
next
  case (Some pg)
  let ?cl = "tp_cluster p" and ?v = "tp_vmt p"
  let ?v' = "?v\<lparr>vt_pages := (vt_pages ?v)(n := None)\<rparr>"
  have page: "vt_pages ?v n = Some pg" using Some by (simp add: vmt_lookup_def)
  have known: "ordinals_known ?cl ?v" using p by (simp add: ledger_def)
  have "books given ?v ?cl (image_mset (chunk_block ?cl) (mset (pg_vram_chunks pg)) + page_blocks ?cl ?v') p"
    using p page_blocks_without [OF ledger_finite(1) [OF p] page, of ?cl]
    by (simp add: ledger_def chunks_blocks_def add.commute)
  moreover have "\<forall>c \<in> set (pg_vram_chunks pg). ck_gpu_ordinal c \<in> set (gc_ordinals ?cl)"
    using known page by (auto simp: ordinals_known_def)
  ultimately obtain p1 where loop: "forM (pg_vram_chunks pg) free_page_vram p = (Ok (), p1)"
    and b: "books given ?v ?cl (page_blocks ?cl ?v') p1" using free_page_never_fails by blast
  have "tp_vmt p1 = ?v" using b by (simp add: books_def)
  then have q: "q = p1\<lparr>tp_dram_pools := offer_to_pools (pg_dram_chunks pg) (tp_dram_pools p1), tp_vmt := ?v'\<rparr>"
    using run Some loop by (simp add: deallocate_def lookupM_def bindM_def run_simps vmt_remove_def)
  have "ordinals_known ?cl ?v'" using known by (auto simp: ordinals_known_def)
  from ledger_new_table [OF books_neutral(2) [OF b] _ this] ledger_finite(1) [OF p]
  show ?thesis unfolding q by simp
qed


section \<open>Allocation, writing, the spill file\<close>

lemma vmt_allocate_ledger: "keeps (ledger given {#}) (vmtM (vmt_allocate n shape es))"
proof (rule keepsI)
  fix p assume p: "ledger given {#} p"
  let ?n = "alloc_name n (tp_vmt p)" and ?cl = "tp_cluster p"
  let ?v = "filed n (fresh_page ?n shape es) ?n (tp_vmt p)"
  have none: "chunks_blocks ?cl (fresh_page ?n shape es) = {#}"
    by (simp add: chunks_blocks_def fresh_page_def page_new_def)
  have "page_blocks ?cl ?v = map_blocks (chunks_blocks ?cl) ((vt_pages (tp_vmt p))(?n := None))"
    using map_blocks_update [OF ledger_finite(1) [OF p], of "chunks_blocks ?cl" ?n] by (simp add: page_blocks_def none)
  moreover have "page_blocks ?cl (tp_vmt p) = map_blocks (chunks_blocks ?cl) ((vt_pages (tp_vmt p))(?n := None))
      + entry_blocks (chunks_blocks ?cl) (vt_pages (tp_vmt p) ?n)"
    unfolding page_blocks_def by (rule map_blocks_split [OF ledger_finite(1) [OF p]])
  ultimately have "page_blocks ?cl ?v \<subseteq># page_blocks ?cl (tp_vmt p)" by simp
  moreover have "ordinals_known ?cl ?v"
    using p by (auto simp: ledger_def ordinals_known_def fresh_page_def page_new_def)
  ultimately have "ledger given {#} (p\<lparr>tp_vmt := ?v\<rparr>)"
    using ledger_finite(1) [OF p] by (intro ledger_table [OF p]) simp_all
  then show "ledger given {#} (snd (vmtM (vmt_allocate n shape es) p))" by (simp add: vmtM_allocate)
qed

lemma allocate_ledger: "keeps (ledger given {#}) (tiered_allocate n shape es t)"
proof -
  have shard: "keeps (ledger given {#}) (add_shard m k N i)" for m k N i
    unfolding add_shard_def Let_def by (intro keeps_bindM ledger_neutral keeps_pure ledger_modify) simp
  show ?thesis
    unfolding tiered_allocate_def Let_def
    by (intro keeps_bindM vmt_allocate_ledger keeps_if ledger_neutral keeps_pure ledger_modify keeps_forM shard) simp_all
qed

lemma write_page_ledger:
  assumes drv: "driver_blocks pf cur given" shows "keeps (ledger given H) (write_page pf n data)"
proof -
  have io: "keeps (ledger given H) (\<lambda>p. case pf_io pf (tp_world p) of (io, w) \<Rightarrow> (Ok io, p\<lparr>tp_world := w\<rparr>))"
  proof (rule keepsI)
    fix p assume "ledger given H p"
    moreover obtain io w where "pf_io pf (tp_world p) = (io, w)" by force
    moreover from this have "given w = given (tp_world p)"
      using driver_blocks_calls(12) [OF drv, of "tp_world p"] by simp
    ultimately show "ledger given H (snd (case pf_io pf (tp_world p) of (io, w) \<Rightarrow> (Ok io, p\<lparr>tp_world := w\<rparr>)))"
      by (simp add: ledger_world)
  qed
  have host: "keeps (ledger given H) (\<lambda>p. case copy_shards cs data 0 (tp_host p) of
      (written, host) \<Rightarrow> ((if written = k then Ok () else Err (Io InvalidData)), p\<lparr>tp_host := host\<rparr>))" for cs k
    by (rule keepsI) (auto intro: ledger_membrane split: prod.split)
  show ?thesis
    unfolding write_page_def by (intro keeps_bindM ledger_neutral keeps_if keeps_pure io host)
qed

lemma attach_spill_ledger:
  assumes drv: "driver_blocks pf cur given" shows "keeps (ledger given H) (attach_spill pf path cap unlink)"
proof (rule keepsI)
  fix p assume p: "ledger given H p"
  obtain e w1 where o: "pf_open pf path (tp_world p) = (e, w1)" by force
  obtain l w2 where s: "pf_set_len pf path cap w1 = (l, w2)" by force
  have w: "given w1 = given (tp_world p)" "given w2 = given (tp_world p)"
    using driver_blocks_calls(13) [OF drv, of path "tp_world p"] driver_blocks_calls(14) [OF drv, of path cap w1]
    by (simp_all add: o s)
  have "given (drop_spill pf sp w2) = given (tp_world p)" for sp
    using w(2) driver_blocks_calls(15) [OF drv] by (simp add: drop_spill_def cu_ignore_def split: option.split)
  then have "ledger given H (p\<lparr>tp_world := drop_spill pf sp w2, tp_spill := sp'\<rparr>)" for sp sp'
    using ledger_world [OF p] by (simp add: ledger_def books_neutral)
  then show "ledger given H (snd (attach_spill pf path cap unlink p))"
    using ledger_world [OF p] w by (auto simp: attach_spill_def o s split: option.split outcome.split)
qed

section \<open>Sweeps\<close>

text \<open>No page has two device chunks. Demotions keep that.\<close>

definition single_chunks :: "'w tiered_pool \<Rightarrow> bool" where
  "single_chunks p \<longleftrightarrow> (\<forall>n pg. vmt_lookup (tp_vmt p) n = Some pg \<longrightarrow> length (pg_vram_chunks pg) \<le> 1)"


interpretation table_frame: pool_frame "\<lambda>p. tp_vmt p = v" "\<lambda>_. False" for v
  by unfold_locales simp_all

lemma demote_single:
  fixes pf :: "'w platform"
  shows "keeps single_chunks (demote pf n)"
proof (rule keepsI)
  fix p :: "'w tiered_pool" assume p: "single_chunks p"
  have chunk: "keeps (\<lambda>q. tp_vmt q = tp_vmt p) (forM cs (demote_chunk pf n dram))" for cs dram
    by (intro keeps_forM table_frame.demote_chunk_keeps)
  show "single_chunks (snd (demote pf n p))"
  proof (cases "vmt_lookup (tp_vmt p) n")
    case None
    then show ?thesis using p by (simp add: demote_def lookupM_def bindM_def run_simps)
  next
    case (Some pg)
    obtain r1 p1 where loop: "forM (pg_vram_chunks pg) (demote_chunk pf n (pg_dram_chunks pg)) p = (r1, p1)" by force
    have "tp_vmt p1 = tp_vmt p" by (rule keepsD [OF chunk _ loop]) simp
    then show ?thesis
      using p Some loop
      by (cases r1) (auto simp: demote_def lookupM_def bindM_def run_simps modify_page_run single_chunks_def)
  qed
qed

text \<open>A loop of demotions.\<close>

definition demotes_soundly :: "('w \<Rightarrow> u64 \<Rightarrow> (u64 \<times> usize) option) \<Rightarrow> ('w tiered_pool, unit) op \<Rightarrow> bool" where
  "demotes_soundly given m \<longleftrightarrow> keeps single_chunks m
     \<and> (\<forall>p r q. ledger given {#} p \<longrightarrow> m p = (r, q) \<longrightarrow> r = Ok () \<or> single_chunks p \<longrightarrow> ledger given {#} q)"

lemma demotes_soundlyD:
  "demotes_soundly given m \<Longrightarrow> ledger given {#} p \<Longrightarrow> m p = (r, q) \<Longrightarrow> r = Ok () \<or> single_chunks p \<Longrightarrow> ledger given {#} q"
  unfolding demotes_soundly_def by blast

lemma demotes_soundly_single: "demotes_soundly given m \<Longrightarrow> single_chunks p \<Longrightarrow> m p = (r, q) \<Longrightarrow> single_chunks q"
  unfolding demotes_soundly_def by (rule keepsD [OF conjunct1])

lemma demotes_soundly_demote:
  assumes drv: "driver_blocks pf cur given" shows "demotes_soundly given (demote pf n)"
  unfolding demotes_soundly_def
proof (intro conjI allI impI)
  fix p r q assume p: "ledger given {#} p" "demote pf n p = (r, q)" and whole: "r = Ok () \<or> single_chunks p"
  then have "r = Ok () \<or> (\<forall>pg. vmt_lookup (tp_vmt p) n = Some pg \<longrightarrow> length (pg_vram_chunks pg) \<le> 1)"
    by (auto simp: single_chunks_def)
  with drv p show "ledger given {#} q" by (rule demote_ledger)
qed (rule demote_single)

lemma demotes_soundly_forM:
  assumes each: "\<And>n. demotes_soundly given (f n)" shows "demotes_soundly given (forM ns f)"
  unfolding demotes_soundly_def
proof (intro conjI allI impI)
  show "keeps single_chunks (forM ns f)" using each by (intro keeps_forM) (simp add: demotes_soundly_def)
  fix p r q assume "ledger given {#} p" "forM ns f p = (r, q)" "r = Ok () \<or> single_chunks p"
  then show "ledger given {#} q"
  proof (induction ns arbitrary: p)
    case (Cons n ns)
    obtain r1 p1 where m1: "f n p = (r1, p1)" by force
    note step = demotes_soundlyD [OF each Cons.prems(1) m1]
    show ?case
    proof (cases r1)
      case (Ok u)
      have rest: "forM ns f p1 = (r, q)" using Cons.prems(2) m1 Ok by (simp add: bindM_def)
      have "r = Ok () \<or> single_chunks p1"
        using Cons.prems(3) demotes_soundly_single [OF each _ m1] by (elim disjE) simp_all
      from Cons.IH [OF _ rest this] step Ok show ?thesis by simp
    next
      case (Err e)
      then have "r = Err e" "q = p1" using Cons.prems(2) m1 by (simp_all add: bindM_def)
      with step Cons.prems(3) show ?thesis by simp
    next
      case Panic
      then have "r = Panic" "q = p1" using Cons.prems(2) m1 by (simp_all add: bindM_def)
      with step Cons.prems(3) show ?thesis by simp
    qed
  qed (simp add: retM_run)
qed

lemma ledger_then:
  assumes a: "demotes_soundly given m" and b: "\<And>x. keeps (ledger given {#}) (k x)"
    and p: "ledger given {#} p" and run: "bindM m k p = (r, q)" and whole: "r = Ok () \<or> single_chunks p"
  shows "ledger given {#} q"
proof -
  obtain r1 p1 where m1: "m p = (r1, p1)" by force
  note step = demotes_soundlyD [OF a p m1]
  show ?thesis
  proof (cases r1)
    case (Ok u)
    have "k u p1 = (r, q)" using run m1 Ok by (simp add: bindM_def)
    with b step Ok show ?thesis using keepsD by (metis (full_types) old.unit.exhaust)
  next
    case (Err e)
    then have "r = Err e" "q = p1" using run m1 by (simp_all add: bindM_def)
    with step whole show ?thesis by simp
  next
    case Panic
    then have "r = Panic" "q = p1" using run m1 by (simp_all add: bindM_def)
    with step whole show ?thesis by simp
  qed
qed

lemma sweep_ledger:
  assumes drv: "driver_blocks pf cur given" and p: "ledger given {#} p"
    and run: "background_sweep pf fl order p = (r, q)" and whole: "r = Ok () \<or> single_chunks p"
  shows "ledger given {#} q"
proof -
  have evict: "demotes_soundly given (sweep_evict pf n)" for n
    unfolding demotes_soundly_def
  proof (intro conjI allI impI)
    show "keeps single_chunks (sweep_evict pf n)"
      unfolding sweep_evict_def by (intro keeps_intros demote_single)
    fix p r q assume p: "ledger given {#} p" and run: "sweep_evict pf n p = (r, q)" and w: "r = Ok () \<or> single_chunks p"
    show "ledger given {#} q"
    proof (cases "is_in_vram n False p")
      case True
      then have "demote pf n p = (r, q)" using run by (simp add: sweep_evict_def bindM_def getM_run)
      from demotes_soundlyD [OF demotes_soundly_demote [OF drv] p this w] show ?thesis .
    next
      case False
      then show ?thesis using run p by (simp add: sweep_evict_def bindM_def getM_run retM_run)
    qed
  qed
  have acc: "keeps (ledger given {#}) (access pf n g)" for n g
    by (rule moves_keeps_ledger) (rule access_ledger [OF drv])
  have keep: "keeps (ledger given {#}) (sweep_keep pf n)" for n
    unfolding sweep_keep_def by (intro keeps_intros acc)
  show ?thesis
  proof (cases "tp_membrane_budget p")
    case (Some budget)
    let ?p = "p\<lparr>tp_membrane := decay fl (tp_membrane p)\<rparr>"
    obtain kept ev where plan: "plan fl (tp_policy ?p) (sweep_candidates order ?p) budget = (kept, ev)" by force
    have "bindM (forM ev (sweep_evict pf)) (\<lambda>_. forM kept (sweep_keep pf)) ?p = (r, q)"
      using run Some plan by (simp add: background_sweep_def membrane_sweep_def Let_def)
    from ledger_then [OF demotes_soundly_forM [OF evict] keeps_forM [OF keep] ledger_membrane(1) [OF p] this] whole
    show ?thesis by (simp add: single_chunks_def)
  next
    case None
    obtain now w where c: "pf_clock pf (tp_world p) = (now, w)" by force
    let ?p = "p\<lparr>tp_world := w\<rparr>"
    have "given w = given (tp_world p)" using driver_blocks_calls(11) [OF drv, of "tp_world p"] c by simp
    then have lp: "ledger given {#} ?p" by (rule ledger_world [OF p])
    have "keeps (ledger given {#}) (forM ns (\<lambda>n. bindM (access pf n 0) (\<lambda>_. retM ())))" for ns
      by (intro keeps_intros acc)
    note promote = this
    have "bindM (forM (sweep_demotes order now ?p) (demote pf)) (\<lambda>_.
             forM (sweep_promotes order ?p) (\<lambda>n. bindM (access pf n 0) (\<lambda>_. retM ()))) ?p = (r, q)"
      using run None c by (simp add: background_sweep_def Let_def)
    from ledger_then [OF demotes_soundly_forM [OF demotes_soundly_demote [OF drv]] promote lp this] whole
    show ?thesis by (simp add: single_chunks_def)
  qed
qed


section \<open>Histories\<close>

text \<open>
  A demotion that fails half way is excluded: each demotion and each sweep either succeeds or finds
  only pages with at most one device chunk.
\<close>

fun demotes :: "pool_call \<Rightarrow> bool" where
  "demotes (Demote name) = True"
| "demotes (Sweep order) = True"
| "demotes _ = False"

fun whole_demotions :: "'w platform \<Rightarrow> (real \<Rightarrow> f64) \<Rightarrow> pool_call list \<Rightarrow> 'w tiered_pool \<Rightarrow> bool" where
  "whole_demotions pf fl [] p = True"
| "whole_demotions pf fl (c # cs) p \<longleftrightarrow>
     (demotes c \<longrightarrow> fst (pool_do pf fl c p) = Ok () \<or> single_chunks p)
     \<and> whole_demotions pf fl cs (snd (pool_do pf fl c p))"

lemma pool_do_ledger:
  assumes drv: "driver_blocks pf cur given" and p: "ledger given {#} p"
    and whole: "demotes c \<Longrightarrow> fst (pool_do pf fl c p) = Ok () \<or> single_chunks p"
  shows "ledger given {#} (snd (pool_do pf fl c p))"
proof -
  have acc: "keeps (ledger given {#}) (access pf n g)" for n g
    by (rule moves_keeps_ledger) (rule access_ledger [OF drv])
  have pre: "keeps (ledger given {#}) (prefetch pf n g)" for n g
    by (rule moves_keeps_ledger) (rule prefetch_ledger [OF drv])
  have go: "keeps (ledger given {#}) m \<Longrightarrow> ledger given {#} (snd (m p))" for m :: "('a tiered_pool, unit) op"
    using p by (simp add: keeps_def)
  obtain r q where run: "pool_do pf fl c p = (r, q)" by force
  show ?thesis
  proof (cases c)
    case (Allocate name shape es t)
    then show ?thesis by simp (rule go, intro keeps_discard allocate_ledger)
  next
    case (Deallocate name)
    then show ?thesis using run deallocate_ledger [OF p, of name r q] by simp
  next
    case (WritePage name data)
    then show ?thesis by simp (rule go, rule write_page_ledger [OF drv])
  next
    case (Access name g)
    then show ?thesis by simp (rule go, intro keeps_discard acc)
  next
    case (Prefetch name g)
    then show ?thesis by simp (rule go, rule pre)
  next
    case (Demote name)
    then show ?thesis
      using run whole demotes_soundlyD [OF demotes_soundly_demote [OF drv] p, of name r q] by simp
  next
    case (Sweep order)
    then show ?thesis using run whole sweep_ledger [OF drv p, of fl order r q] by simp
  next
    case (AttachSpill path cap unlink)
    then show ?thesis by simp (rule go, rule attach_spill_ledger [OF drv])
  next
    case (EnableMembrane b)
    then show ?thesis using ledger_membrane(2) [OF p] by (simp add: modM_run enable_membrane_def)
  qed
qed

lemma pool_run_ledger:
  assumes drv: "driver_blocks pf cur given"
  shows "ledger given {#} p \<Longrightarrow> whole_demotions pf fl cs p \<Longrightarrow> ledger given {#} (pool_run pf fl cs p)"
proof (induction cs arbitrary: p)
  case (Cons c cs)
  then have "ledger given {#} (snd (pool_do pf fl c p))" by (intro pool_do_ledger [OF drv]) simp_all
  with Cons show ?case by simp
qed simp

text \<open>A new pool has no blocks.\<close>

lemma tiered_new_parts:
  assumes "tiered_new pf fl ords bytes host w = (Ok p, w')"
  shows "\<exists>u u1 u2 u3. registry_new pf ords u = (Ok (tp_contexts p), u1)
    \<and> stream_pool_new pf (tp_contexts p) u1 = (Ok (tp_streams p), u2)
    \<and> mapM (make_dram_pool pf (tp_cluster p) (tp_contexts p) bytes) (enumerate 0 ords) u2 = (Ok (tp_dram_pools p), u3)"
    "gc_ordinals (tp_cluster p) = ords" "gc_ordinal_map (tp_cluster p) = ordinal_index ords"
    "tp_vram_free p = replicate (length ords) []" "tp_inflight p = Map.empty"
    "vt_pages (tp_vmt p) = Map.empty" "tp_spill p = None" "tp_dma p = dma_new (length ords)"
proof -
  from assms [unfolded tiered_new_def bindM_Ok_iff] obtain cl u ctx u1 where
    c: "cluster_discover pf ords w = (Ok cl, u)" and reg: "registry_new pf ords u = (Ok ctx, u1)"
    and k: "(case stream_pool_new pf ctx u1 of
          (Ok streams, w1) \<Rightarrow>
            (case mapM (make_dram_pool pf cl ctx bytes) (enumerate 0 ords) w1 of
               (Ok pools, w2) \<Rightarrow>
                 (Ok \<lparr>tp_vmt = vmt_new (length ords) (nt_node_count (gc_numa cl)),
                      tp_dma = dma_new (length ords), tp_cluster = cl, tp_streams = streams,
                      tp_contexts = ctx, tp_dram_pools = pools,
                      tp_vram_free = replicate (length ords) [], tp_spill = None,
                      tp_inflight = Map.empty, tp_membrane = membrane_new, tp_policy = policy_default fl,
                      tp_membrane_budget = None, tp_idle_threshold_ns = DEFAULT_IDLE_NS,
                      tp_hot_threshold = HOT_ACCESS_THRESHOLD, tp_host = host, tp_world = w2\<rparr>, w2)
             | (Err e, w2) \<Rightarrow> (Err e, drop_contexts pf (cr_contexts ctx) (drop_stream_pool pf streams w2))
             | (Panic, w2) \<Rightarrow> (Panic, drop_contexts pf (cr_contexts ctx) (drop_stream_pool pf streams w2)))
        | (Err e, w1) \<Rightarrow> (Err e, drop_contexts pf (cr_contexts ctx) w1)
        | (Panic, w1) \<Rightarrow> (Panic, drop_contexts pf (cr_contexts ctx) w1)) = (Ok p, w')"
    by blast
  obtain r2 u2 where s: "stream_pool_new pf ctx u1 = (r2, u2)" by force
  with k obtain streams where r2: "r2 = Ok streams" by (cases r2) simp_all
  obtain r3 u3 where m: "mapM (make_dram_pool pf cl ctx bytes) (enumerate 0 ords) u2 = (r3, u3)" by force
  with k s r2 obtain pools where r3: "r3 = Ok pools" by (cases r3) simp_all
  have p: "p = \<lparr>tp_vmt = vmt_new (length ords) (nt_node_count (gc_numa cl)),
                      tp_dma = dma_new (length ords), tp_cluster = cl, tp_streams = streams,
                      tp_contexts = ctx, tp_dram_pools = pools,
                      tp_vram_free = replicate (length ords) [], tp_spill = None,
                      tp_inflight = Map.empty, tp_membrane = membrane_new, tp_policy = policy_default fl,
                      tp_membrane_budget = None, tp_idle_threshold_ns = DEFAULT_IDLE_NS,
                      tp_hot_threshold = HOT_ACCESS_THRESHOLD, tp_host = host, tp_world = u3\<rparr>"
    using k by (auto simp: s r2 m r3)
  show "\<exists>u u1 u2 u3. registry_new pf ords u = (Ok (tp_contexts p), u1)
    \<and> stream_pool_new pf (tp_contexts p) u1 = (Ok (tp_streams p), u2)
    \<and> mapM (make_dram_pool pf (tp_cluster p) (tp_contexts p) bytes) (enumerate 0 ords) u2 = (Ok (tp_dram_pools p), u3)"
    using reg s [unfolded r2] m [unfolded r3] by (intro exI conjI) (simp_all add: p)
  show "gc_ordinals (tp_cluster p) = ords" "gc_ordinal_map (tp_cluster p) = ordinal_index ords"
    using discovered_cluster [OF c] by (simp_all add: p)
  show "tp_vram_free p = replicate (length ords) []" "tp_inflight p = Map.empty"
    "vt_pages (tp_vmt p) = Map.empty" "tp_spill p = None" "tp_dma p = dma_new (length ords)"
    by (simp_all add: p vmt_new_def)
qed

lemma tiered_new_ledger:
  assumes new: "tiered_new pf fl ords bytes host w = (Ok p, w')" and ords: "distinct ords"
  shows "ledger given {#} p"
proof -
  note parts = tiered_new_parts [OF new]
  have "fixed_ok p"
    using ords by (simp add: fixed_ok_def parts index_of_def ordinal_index_nth)
  then show ?thesis
    by (simp add: ledger_def books_def tables_finite_def ordinals_known_def parts sound_blocks_def cached_def
        cache_blocks_def flight_blocks_def page_blocks_def map_blocks_def)
qed

end
