(* ===== verification/Ownership.thy ===== *)
theory Ownership
  imports Ledger WarmTier
begin

text \<open>
  Over every history of a pool each device block has one owner: a page, the recycle cache of its GPU or
  a prefetch in flight.
\<close>

section \<open>No block is used twice\<close>

lemma count_two:
  assumes "count (image_mset f M) (f a) \<le> 1" and "{#a, b#} \<subseteq># M" shows "f a \<noteq> f b"
proof
  assume "f a = f b"
  then have "count (image_mset f {#a, b#}) (f a) = 2" by simp
  moreover have "count (image_mset f {#a, b#}) (f a) \<le> count (image_mset f M) (f a)"
    using image_mset_subseteq_mono [OF assms(2), of f] unfolding subseteq_mset_def by (rule spec)
  ultimately show False using assms(1) by linarith
qed

lemma page_blocks_one:
  assumes fin: "finite (dom (vt_pages v))" and page: "vt_pages v n = Some a"
  shows "chunks_blocks cl a \<subseteq># page_blocks cl v"
proof -
  have "page_blocks cl v = map_blocks (chunks_blocks cl) ((vt_pages v)(n := None)) + chunks_blocks cl a"
    unfolding page_blocks_def by (subst map_blocks_split [OF fin, of _ n]) (simp add: page)
  then show ?thesis by simp
qed

lemma page_blocks_two:
  assumes fin: "finite (dom (vt_pages v))" and pages: "vt_pages v m = Some a" "vt_pages v n = Some b" and "m \<noteq> n"
  shows "chunks_blocks cl a + chunks_blocks cl b \<subseteq># page_blocks cl v"
proof -
  let ?w = "v\<lparr>vt_pages := (vt_pages v)(n := None)\<rparr>"
  have "finite (dom (vt_pages ?w))" "vt_pages ?w m = Some a" using fin pages \<open>m \<noteq> n\<close> by (auto elim: finite_subset [rotated])
  then have "chunks_blocks cl a \<subseteq># page_blocks cl ?w" by (rule page_blocks_one)
  moreover have "page_blocks cl v = page_blocks cl ?w + chunks_blocks cl b"
    unfolding page_blocks_def by (subst map_blocks_split [OF fin, of _ n]) (simp add: pages)
  ultimately show ?thesis by simp
qed

lemma two_in_mset: "a \<in> set xs \<Longrightarrow> b \<in> set xs \<Longrightarrow> a \<noteq> b \<Longrightarrow> {#a, b#} \<subseteq># mset xs"
  by (metis insert_subset_eq_iff mset_subset_eq_single add_mset_add_single in_multiset_in_set insert_DiffM
      mset_subset_eq_add_mset_cancel insert_noteq_member)

lemma chunk_pair:
  assumes fin: "finite (dom (vt_pages v))" and pages: "vt_pages v m = Some a" "vt_pages v n = Some b"
    and chunks: "c \<in> set (pg_vram_chunks a)" "d \<in> set (pg_vram_chunks b)" and ne: "m \<noteq> n \<or> c \<noteq> d"
  shows "{#chunk_block cl c, chunk_block cl d#} \<subseteq># page_blocks cl v"
proof (cases "m = n")
  case True
  then have "{#c, d#} \<subseteq># mset (pg_vram_chunks a)" using ne pages chunks by (intro two_in_mset) auto
  then have "image_mset (chunk_block cl) {#c, d#} \<subseteq># chunks_blocks cl a"
    unfolding chunks_blocks_def by (rule image_mset_subseteq_mono)
  with page_blocks_one [OF fin pages(1), of cl] show ?thesis by (auto intro: subset_mset.order_trans)
next
  case False
  have "{#chunk_block cl c#} \<subseteq># chunks_blocks cl a" "{#chunk_block cl d#} \<subseteq># chunks_blocks cl b"
    using chunks by (auto simp: chunks_blocks_def)
  then have "{#chunk_block cl c#} + {#chunk_block cl d#} \<subseteq># chunks_blocks cl a + chunks_blocks cl b"
    by (rule subset_mset.add_mono)
  then have "{#chunk_block cl c#} + {#chunk_block cl d#} \<subseteq># page_blocks cl v"
    using page_blocks_two [OF fin pages False, of cl] by (rule subset_mset.order_trans)
  then show ?thesis by (simp add: add_mset_commute)
qed

lemma cached_member:
  assumes "cache \<in> set (tp_vram_free q)" "(k, x) \<in> set cache"
  shows "\<exists>g. {#(g, k, x)#} \<subseteq># cached (tp_vram_free q)"
proof -
  obtain g where g: "g < length (tp_vram_free q)" "tp_vram_free q ! g = cache"
    using assms(1) by (auto simp: in_set_conv_nth)
  with assms(2) have "(g, k, x) \<in># cached (tp_vram_free q)"
    by (auto simp: cached_def cache_blocks_def set_mset_sum image_iff)
  then show ?thesis by auto
qed

text \<open>
  Property C3. No device block is ever in two hands. In every state a pool reaches from
  \<open>TieredPool::new\<close> by any sequence of its public operations, whatever their outcomes, in which no
  demotion stops half way over several chunks: the blocks in the recycle caches, in the prefetches in
  flight and in the pages have different pointers; each of them is one the driver gave, with its size,
  in the context of the GPU it is filed under; chunks with the same pointer are the same chunk of the
  same page; and no block of a page is in a recycle cache, so no allocation can be handed memory that
  a page still uses.
\<close>

theorem pool_blocks_never_shared:
  assumes drv: "driver_blocks pf cur given"
    and new: "tiered_new pf fl ords bytes host w = (Ok p, w')" and ords: "distinct ords"
    and whole: "whole_demotions pf fl cs p" and q: "q = pool_run pf fl cs p"
  shows "(\<forall>x. count (image_mset pointer_of (device_ledger q)) x \<le> 1)
    \<and> (\<forall>(g, n, x) \<in># device_ledger q. g < length (tp_vram_free q) \<and> x \<noteq> 0
          \<and> given (tp_world q) x = Some (ctx_of (tp_contexts q) g, n))
    \<and> (\<forall>m n a b c d. vmt_lookup (tp_vmt q) m = Some a \<longrightarrow> vmt_lookup (tp_vmt q) n = Some b \<longrightarrow>
          c \<in> set (pg_vram_chunks a) \<longrightarrow> d \<in> set (pg_vram_chunks b) \<longrightarrow>
          ck_device_ptr c = ck_device_ptr d \<longrightarrow> m = n \<and> c = d)
    \<and> (\<forall>n a c cache k x. vmt_lookup (tp_vmt q) n = Some a \<longrightarrow> c \<in> set (pg_vram_chunks a) \<longrightarrow>
          cache \<in> set (tp_vram_free q) \<longrightarrow> (k, x) \<in> set cache \<longrightarrow> x \<noteq> ck_device_ptr c)"
proof -
  have led: "ledger given {#} q" unfolding q by (rule pool_run_ledger [OF drv tiered_new_ledger [OF new ords] whole])
  then have sound: "sound_blocks given (tp_contexts q) (length (tp_vram_free q)) (tp_world q) (device_ledger q)"
    and fin: "finite (dom (vt_pages (tp_vmt q)))"
    by (simp_all add: ledger_def books_def tables_finite_def device_ledger_def)
  let ?P = "page_blocks (tp_cluster q) (tp_vmt q)"
  have once: "count (image_mset pointer_of (device_ledger q)) x \<le> 1" for x using sound by (simp add: sound_blocks_def)
  have ptr: "pointer_of (chunk_block cl c) = ck_device_ptr c" for cl c by (simp add: pointer_of_def chunk_block_def)
  have "m = n \<and> c = d" if "vmt_lookup (tp_vmt q) m = Some a" "vmt_lookup (tp_vmt q) n = Some b"
    "c \<in> set (pg_vram_chunks a)" "d \<in> set (pg_vram_chunks b)" "ck_device_ptr c = ck_device_ptr d" for m n a b c d
  proof (rule ccontr)
    assume "\<not> (m = n \<and> c = d)"
    then have "{#chunk_block (tp_cluster q) c, chunk_block (tp_cluster q) d#} \<subseteq># ?P"
      using that by (intro chunk_pair [OF fin, of m a n b]) (auto simp: vmt_lookup_def)
    then have "{#chunk_block (tp_cluster q) c, chunk_block (tp_cluster q) d#} \<subseteq># device_ledger q"
      by (auto simp: device_ledger_def intro: subset_mset.order_trans)
    from count_two [OF once this] that(5) show False by (simp add: ptr)
  qed
  moreover have "x \<noteq> ck_device_ptr c" if page: "vmt_lookup (tp_vmt q) n = Some a" "c \<in> set (pg_vram_chunks a)"
    and cache: "cache \<in> set (tp_vram_free q)" "(k, x) \<in> set cache" for n a c cache k x
  proof -
    obtain g where "{#(g, k, x)#} \<subseteq># cached (tp_vram_free q)" using cached_member [OF cache] by blast
    moreover have "{#chunk_block (tp_cluster q) c#} \<subseteq># ?P"
    proof -
      have "{#chunk_block (tp_cluster q) c#} \<subseteq># chunks_blocks (tp_cluster q) a"
        using page(2) by (auto simp: chunks_blocks_def)
      then show ?thesis
        using page_blocks_one [OF fin page(1) [unfolded vmt_lookup_def]] by (rule subset_mset.order_trans)
    qed
    ultimately have "{#(g, k, x)#} + {#chunk_block (tp_cluster q) c#} \<subseteq># cached (tp_vram_free q) + ?P"
      by (rule subset_mset.add_mono)
    moreover have "cached (tp_vram_free q) + ?P \<subseteq># device_ledger q"
      unfolding device_ledger_def by (simp add: subseteq_mset_def)
    ultimately have "{#(g, k, x)#} + {#chunk_block (tp_cluster q) c#} \<subseteq># device_ledger q"
      by (rule subset_mset.order_trans)
    then have "{#(g, k, x), chunk_block (tp_cluster q) c#} \<subseteq># device_ledger q" by (simp add: add_mset_commute)
    from count_two [OF once this] show ?thesis by (simp add: ptr) (simp add: pointer_of_def)
  qed
  ultimately show ?thesis using once sound unfolding sound_blocks_def by blast
qed

lemma numbering_calls:
  "pf_init numbering_device w = (0, w)"
  "pf_ctx_retain numbering_device d w = (0, 1, w)"
  "pf_ctx_release numbering_device d w = (0, w)"
  "pf_ctx_push numbering_device c w = (0, w)" "pf_ctx_pop numbering_device w = (0, w)"
  "pf_ctx_set_current numbering_device c w = (0, c, snd w)"
  "pf_stream_priority_range numbering_device w = (0, (0, -1), w)"
  "pf_mem_get_info numbering_device w = (0, (0, 0), w)"
  "pf_stream_create numbering_device w = (0, 1, w)" "pf_stream_create_prio numbering_device p w = (0, 1, w)"
  "pf_stream_sync numbering_device s w = (0, w)"
  "pf_device_name numbering_device d w = ([], w)" "pf_total_mem numbering_device d w = (0, w)"
  "pf_capability numbering_device d w = ((0, 0), w)" "pf_attribute numbering_device kind d w = (0, w)"
  "pf_can_access_peer numbering_device a b w = (0, 1, w)"
  "pf_numactl numbering_device w = (Inl (OsError 2), w)" "pf_read_file numbering_device f w = (None, w)"
  "pf_mmap numbering_device n w = (65536, w)" "pf_mbind numbering_device q n m k w = (0, w)"
  "pf_no_pin numbering_device w = False" "pf_host_register numbering_device q n w = (0, w)"
  "pf_htod_async numbering_device q bs s w = (0, w)"
  "pf_clock numbering_device w = (0, w)"
  "pf_mem_alloc numbering_device n w = (0, of_nat (length (snd w) + 1), fst w, snd w @ [(fst w, n)])"
  by (simp_all add: numbering_device_def idle_platform_def split_def)

definition numbering_dram :: dram_pool where
  "numbering_dram = \<lparr>dp_numa_node = 0, dp_gpu_ordinal = 0, dp_base_ptr = 65536, dp_capacity = 4096,
     dp_offset = 0, dp_free_blocks = [], dp_numa_bound = True, dp_pinned = True\<rparr>"

definition numbering_streams :: "int \<Rightarrow> stream_pool" where
  "numbering_streams k = \<lparr>st_compute = [\<lparr>cs_inner = 1, cs_priority = 0\<rparr>],
     st_prefetch = [\<lparr>cs_inner = 1, cs_priority = k\<rparr>], st_len = 1\<rparr>"

definition numbering_pool ::
  "gpu_cluster \<Rightarrow> int \<Rightarrow> host_memory \<Rightarrow> (real \<Rightarrow> f64) \<Rightarrow> block_world tiered_pool" where
  "numbering_pool c k host fl = \<lparr>tp_vmt = vmt_new 1 1, tp_dma = dma_new 1, tp_cluster = c,
     tp_streams = numbering_streams k, tp_contexts = \<lparr>cr_contexts = [\<lparr>pc_device = 0, pc_ctx = 1\<rparr>]\<rparr>,
     tp_dram_pools = [numbering_dram], tp_vram_free = [[]], tp_spill = None, tp_inflight = Map.empty,
     tp_membrane = membrane_new, tp_policy = policy_default fl, tp_membrane_budget = None,
     tp_idle_threshold_ns = DEFAULT_IDLE_NS, tp_hot_threshold = HOT_ACCESS_THRESHOLD, tp_host = host,
     tp_world = (0, [])\<rparr>"

lemma numbering_new:
  "\<exists>c k. gc_ordinals c = [0] \<and> gc_ordinal_map c = ordinal_index [0]
     \<and> tiered_new numbering_device fl [0] 4096 host (0, []) = (Ok (numbering_pool c k host fl), (0, []))"
proof -
  let ?w = "(0, []) :: block_world"
  have numa: "read_numa_node numbering_device d w = (None, w)" for d w
    by (simp add: read_numa_node_def numa_paths_def numbering_calls)
  have "\<exists>i. discover_gpu numbering_device 0 ?w = (Ok i, ?w)"
    by (simp add: discover_gpu_def bindM_def askM_def numa retM_def probe_free_vram_def scoped_def
        pc_retain_def pc_enter_def guard_drop_def pc_drop_def cu_call_def cu_get_def check_cu_def cu_ignore_def
        numbering_calls)
  then obtain c where disc: "cluster_discover numbering_device [0] ?w = (Ok c, ?w)"
    and ords: "gc_ordinals c = [0]" and topo: "gc_numa c = single_node"
    and map: "gc_ordinal_map c = ordinal_index [0]" and infos: "length (gc_infos c) = 1"
    by (auto simp: cluster_discover_def bindM_def cu_call_def check_cu_def numbering_calls catchM_def from_numactl_def
        retM_def peer_discover_def peer_probe_def set_cell_def)
  let ?r = "\<lparr>cr_contexts = [\<lparr>pc_device = 0, pc_ctx = 1\<rparr>]\<rparr>"
  have reg: "registry_new numbering_device [0] ?w = (Ok ?r, ?w)"
    by (simp add: registry_new_def bindM_def pc_retain_def cu_call_def cu_get_def check_cu_def numbering_calls retM_def)
  have "\<exists>k. stream_pool_new numbering_device ?r ?w = (Ok (numbering_streams k), ?w)"
    by (simp add: numbering_streams_def bindM_def pc_retain_def cu_call_def
        cu_get_def check_cu_def numbering_calls retM_def stream_pool_new_def registry_len_def
        pool_gpu_def scoped_def on_world_def registry_enter_def registry_get_def vec_get_def ok_or_def pc_enter_def
        pool_round_def stream_new_def highest_priority_def stream_with_priority_def guard_drop_def cu_ignore_def)
  then obtain k where streams: "stream_pool_new numbering_device ?r ?w = (Ok (numbering_streams k), ?w)" by blast
  have opt: "optimal_dram_node c 0 = Ok 0"
    by (auto simp: optimal_dram_node_def topo map index_of_def infos vec_get_def single_node_def ordinal_index_def Let_def)
  have "make_dram_pool numbering_device c ?r 4096 (0, 0) ?w = (Ok numbering_dram, ?w)"
    by (simp add: make_dram_pool_def bindM_def liftM_def opt allocate_numa_dram_def Let_def numbering_calls scoped_def
        registry_enter_def registry_get_def vec_get_def ok_or_def pc_enter_def guard_drop_def cu_ignore_def cu_call_def
        check_cu_def retM_def W64_def numbering_dram_def)
  then have pools: "mapM (make_dram_pool numbering_device c ?r 4096) (enumerate 0 [0]) ?w = (Ok [numbering_dram], ?w)"
    by (simp add: bindM_def retM_def)
  have "tiered_new numbering_device fl [0] 4096 host ?w = (Ok (numbering_pool c k host fl), ?w)"
    unfolding tiered_new_def bindM_def
    by (simp add: disc reg [simplified] streams [simplified] pools [simplified] topo single_node_def numbering_pool_def)
  with ords map show ?thesis by blast
qed


text \<open>What the run below needs of its states.\<close>

definition numbering_ok :: "nat \<Rightarrow> nat \<Rightarrow> block_world tiered_pool \<Rightarrow> bool" where
  "numbering_ok a m p \<longleftrightarrow> gc_ordinals (tp_cluster p) = [0] \<and> tp_inflight p = Map.empty
     \<and> (\<exists>k. tp_streams p = numbering_streams k)
     \<and> tp_contexts p = \<lparr>cr_contexts = [\<lparr>pc_device = 0, pc_ctx = 1\<rparr>]\<rparr> \<and> tp_vram_free p = [[]]
     \<and> tp_dram_pools p = [numbering_dram\<lparr>dp_offset := a\<rparr>] \<and> ring_room m (tp_dma p) 0"

lemma numbering_start:
  "\<exists>p. tiered_new numbering_device (\<lambda>_. 0) [0] 4096 (\<lambda>_. 0) (0, []) = (Ok p, (0, []))
    \<and> numbering_ok 0 2 p \<and> tp_spill p = None \<and> tp_world p = (0, [])"
proof -
  obtain c k where c: "gc_ordinals c = [0]" and new: "tiered_new numbering_device (\<lambda>_. 0) [0] 4096 (\<lambda>_. 0) (0, [])
      = (Ok (numbering_pool c k (\<lambda>_. 0) (\<lambda>_. 0)), (0, []))"
    using numbering_new by blast
  have "ring_room 2 (dma_new 1) 0"
    using ring_new_inv by (simp add: ring_room_def dma_new_def)
      (simp add: ring_new_def Let_def ring_tail_def ring_head_def completion_new_def)
  then have "numbering_ok 0 2 (numbering_pool c k (\<lambda>_. 0) (\<lambda>_. 0))"
    using c by (auto simp: numbering_ok_def numbering_pool_def numbering_dram_def)
  with new show ?thesis by (intro exI conjI) (assumption, assumption, simp_all add: numbering_pool_def)
qed

lemma numbering_allocate:
  assumes p: "numbering_ok a m p" and a: "a = 0 \<or> a = 64" and n: "n \<noteq> []"
  shows "\<exists>c q. tiered_allocate n [2] 1 Dram p = (Ok n, q) \<and> numbering_ok (a + 64) m q \<and> dc_size_bytes c = 2
    \<and> dc_host_ptr c = 65536 + a \<and> tp_spill q = tp_spill p
    \<and> tp_vmt q = filed n (sharded_page n [2] 1 Dram Warm [c]) n (tp_vmt p) \<and> tp_world q = tp_world p"
proof -
  have grant: "dp_allocate (numbering_dram\<lparr>dp_offset := a\<rparr>) 2
      = (Ok (65536 + a), numbering_dram\<lparr>dp_offset := a + 64\<rparr>)"
    using a by (auto simp: numbering_dram_def dp_eval)
  have share: "shard_bytes (umul (uproduct [2]) (Suc 0)) (Suc 0) 0 = 2"
    by (simp add: shard_bytes_def uadd_def umul_def uproduct_def W64_def)
  let ?c = "\<lparr>dc_numa_node = 0, dc_host_ptr = 65536 + a, dc_size_bytes = 2, dc_cuda_registered = False\<rparr>"
  have "tiered_allocate n [2] 1 Dram p = (Ok n, p\<lparr>tp_dram_pools := [numbering_dram\<lparr>dp_offset := a + 64\<rparr>],
      tp_vmt := filed n (sharded_page n [2] 1 Dram Warm [?c]) n (tp_vmt p)\<rparr>)"
    using p n
    by (simp add: numbering_ok_def tiered_allocate_def Let_def bindM_def vmtM_allocate alloc_name_def getM_run modify_page_run
        add_shard_def dramM_def retM_run grant share tier_state_def)
      (simp add: sharded_page_def fresh_page_def page_new_def numbering_dram_def)
  moreover have "numbering_ok (a + 64) m (p\<lparr>tp_dram_pools := [numbering_dram\<lparr>dp_offset := a + 64\<rparr>],
      tp_vmt := filed n (sharded_page n [2] 1 Dram Warm [?c]) n (tp_vmt p)\<rparr>)"
    using p by (simp add: numbering_ok_def)
  ultimately show ?thesis by (intro exI conjI) (assumption, assumption, simp_all)
qed

lemma numbering_access:
  assumes p: "numbering_ok a (Suc m) p" and page: "vmt_lookup (tp_vmt p) n = Some pg" "pg_tier pg = Dram"
    and d: "pg_dram_chunks pg = [d]" and es: "pg_element_size pg \<noteq> 0"
  defines "x \<equiv> length (snd (tp_world p)) + 1"
  shows "\<exists>q. access numbering_device n 0 p = (Ok x, q) \<and> numbering_ok a m q
    \<and> tp_vmt q = vmt_modify n (promoted 0 x (dc_size_bytes d) 0) (tp_vmt p)
    \<and> snd (tp_world q) = snd (tp_world p) @ [(1, dc_size_bytes d)]"
proof -
  obtain k where streams: "tp_streams p = numbering_streams k" using p by (auto simp: numbering_ok_def)
  have room: "ring_room (Suc m) (tp_dma p) 0" using p by (simp add: numbering_ok_def)
  from submit_room(1) [OF this] obtain slot e where
    sub: "submit_dram_to_vram 0 (word_of_nat (dc_host_ptr d)) (word_of_nat x) (dc_size_bytes d) 2 (tp_dma p) = (Ok slot, e)"
    and e: "ring_room m e 0" by blast
  let ?q = "p\<lparr>tp_membrane := observe n (tp_membrane p), tp_dma := e,
      tp_world := (1, snd (tp_world p) @ [(1, dc_size_bytes d)])\<rparr>"
  have look: "vmt_lookup (tp_vmt ?q) n = Some pg" "0 < length (gc_ordinals (tp_cluster ?q))"
    using page p by (simp_all add: numbering_ok_def)
  note fin = touch_install [OF look(1) es look(2), of 0 x "dc_size_bytes d"]
  have "access numbering_device n 0 p = bindM (touchM n 0) (\<lambda>_. bindM (install_chunk n 0 x (dc_size_bytes d)) (\<lambda>_. retM x)) ?q"
    using p page d sub [unfolded x_def] streams unfolding x_def
    by (simp add: Let_def numbering_ok_def access_def bindM_def worldM_def numbering_calls claim_prefetch_def run_simps
       lookupM_run unwrapM_def vec_get_def access_dram_def ok_or_def alloc_vram_on_gpu_def set_context_def
       registry_bind_def registry_get_def pc_bind_def cu_get_def cu_call_def check_cu_def dmaM_def
       compute_stream_def numbering_streams_def ignoreW_def cu_ignore_def sync_compute_def stream_synchronize_def)
  moreover have "numbering_ok a m (?q\<lparr>tp_vmt := v\<rparr>)" for v using p e by (simp add: numbering_ok_def)
  moreover have "gc_ordinals (tp_cluster ?q) ! 0 = 0" using p by (simp add: numbering_ok_def)
  ultimately show ?thesis unfolding fin by (intro exI conjI) (assumption, simp_all)
qed

theorem pool_blocks_never_shared_witness:
  "\<exists>p q. tiered_new numbering_device (\<lambda>_. 0) [0] 4096 (\<lambda>_. 0) (0, []) = (Ok p, (0, []))
    \<and> q = pool_run numbering_device (\<lambda>_. 0) [Allocate ''a'' [2] 1 Dram, Allocate ''b'' [2] 1 Dram, Access ''a'' 0, Access ''b'' 0] p
    \<and> map_option (map ck_device_ptr \<circ> pg_vram_chunks) (vmt_lookup (tp_vmt q) ''a'') = Some [1]
    \<and> map_option (map ck_device_ptr \<circ> pg_vram_chunks) (vmt_lookup (tp_vmt q) ''b'') = Some [2]
    \<and> (\<forall>x. count (image_mset pointer_of (device_ledger q)) x \<le> 1)"
proof -
  obtain p where new: "tiered_new numbering_device (\<lambda>_. 0) [0] 4096 (\<lambda>_. 0) (0, []) = (Ok p, (0, []))"
    and p: "numbering_ok 0 2 p" and world: "tp_world p = (0, [])"
    using numbering_start by blast
  obtain ca p1 where a: "tiered_allocate ''a'' [2] 1 Dram p = (Ok ''a'', p1)" "numbering_ok 64 2 p1"
    "tp_vmt p1 = filed ''a'' (sharded_page ''a'' [2] 1 Dram Warm [ca]) ''a'' (tp_vmt p)" "tp_world p1 = (0, [])"
    using numbering_allocate [OF p, of "''a''"] world by auto
  obtain cb p2 where b: "tiered_allocate ''b'' [2] 1 Dram p1 = (Ok ''b'', p2)" "numbering_ok 128 2 p2"
    "tp_vmt p2 = filed ''b'' (sharded_page ''b'' [2] 1 Dram Warm [cb]) ''b'' (tp_vmt p1)" "tp_world p2 = (0, [])"
    using numbering_allocate [OF a(2), of "''b''"] a(4) by auto
  have es: "pg_element_size (sharded_page n [2] 1 Dram Warm [d]) \<noteq> 0" for n d
    by (simp add: sharded_page_def fresh_page_def page_new_def)
  have two: "numbering_ok 128 (Suc 1) p2" using b(2) by (simp add: numeral_2_eq_2)
  have "vmt_lookup (tp_vmt p2) ''a'' = Some (sharded_page ''a'' [2] 1 Dram Warm [ca])" by (simp add: b(3) a(3))
  from numbering_access [OF two this _ _ es] obtain p3 where
    d: "access numbering_device ''a'' 0 p2 = (Ok 1, p3)" "numbering_ok 128 1 p3" "length (snd (tp_world p3)) = 1"
      "tp_vmt p3 = vmt_modify ''a'' (promoted 0 1 (dc_size_bytes ca) 0) (tp_vmt p2)"
    using b(4) by auto
  have "vmt_lookup (tp_vmt p3) ''b'' = Some (sharded_page ''b'' [2] 1 Dram Warm [cb])" by (simp add: d(4) b(3))
  from numbering_access [OF d(2) [unfolded One_nat_def] this _ _ es] obtain p4 where
    e: "access numbering_device ''b'' 0 p3 = (Ok 2, p4)"
      "tp_vmt p4 = vmt_modify ''b'' (promoted 0 2 (dc_size_bytes cb) 0) (tp_vmt p3)"
    using d(3) by (auto simp: numeral_2_eq_2)
  let ?cs = "[Allocate ''a'' [2] 1 Dram, Allocate ''b'' [2] 1 Dram, Access ''a'' 0, Access ''b'' 0]"
  have run: "pool_run numbering_device (\<lambda>_. 0) ?cs p = p4"
    using a(1) b(1) d(1) e(1) by (simp add: discard_def bindM_def retM_run)
  have drv: "driver_blocks numbering_device fst given_block"
    using numbering_device_blocks
    by (simp add: driver_blocks_def numbering_calls) (simp add: numbering_device_def idle_platform_def)
  have "whole_demotions numbering_device (\<lambda>_. 0) ?cs p" by simp
  from pool_blocks_never_shared [OF drv new _ this refl] run
  have "count (image_mset pointer_of (device_ledger p4)) x \<le> 1" for x by simp
  moreover have "map_option (map ck_device_ptr \<circ> pg_vram_chunks) (vmt_lookup (tp_vmt p4) ''a'') = Some [1]"
    "map_option (map ck_device_ptr \<circ> pg_vram_chunks) (vmt_lookup (tp_vmt p4) ''b'') = Some [2]"
    by (simp_all add: e(2) d(4) b(3) a(3) promoted_def page_touch_def)
  ultimately show ?thesis using new run by blast
qed

end
