(* ===== verification/Hazards.thy ===== *)
theory Hazards
  imports WarmTier
begin

text \<open>
  Pages with chunks on more than one GPU (\<open>access\<close>, \<open>demote\<close>, \<open>prefetch\<close> of \<open>src/tiered.rs\<close>): what a
  demotion leaves that stops half way, and what a copy from another GPU does to the shards of a page.
\<close>

section \<open>Two GPUs\<close>



section \<open>A demotion that stops half way\<close>





section \<open>A page on two GPUs\<close>

text \<open>\<open>cuMemcpyPeerAsync\<close> of a machine that never fails.\<close>

definition peer_copies :: "'w platform \<Rightarrow> ('w \<Rightarrow> u64 \<Rightarrow> byte) \<Rightarrow> bool" where
  "peer_copies pf dev \<longleftrightarrow> (\<forall>dst dc src sc n s w. \<exists>w'. pf_peer_async pf dst dc src sc n s w = (0, w')
     \<and> dev w' = mem_write dst (slice (dev w) src n) (dev w))"

lemma access_peer_ok:
  assumes h: "healthy pf dev room" and peer: "peer_copies pf dev" and g: "gpu_ready g p" and i: "gpu_ready i p"
    and page: "vmt_lookup (tp_vmt p) name = Some pg" and es: "pg_element_size pg \<noteq> 0"
    and idx: "index_of (tp_cluster p) (ck_gpu_ordinal c) = Some i" and n: "ck_size_bytes c \<le> room"
  shows "\<exists>x w caches. access_peer pf name g now c p = (Ok x, p\<lparr>tp_world := w, tp_vram_free := caches,
          tp_vmt := vmt_modify name (promoted (gc_ordinals (tp_cluster p) ! g) x (ck_size_bytes c) now) (tp_vmt p)\<rparr>)
    \<and> dev w = mem_write x (slice (dev (tp_world p)) (ck_device_ptr c) (ck_size_bytes c)) (dev (tp_world p))
    \<and> length caches = length (tp_vram_free p) \<and> gpu_ready g (p\<lparr>tp_vram_free := caches\<rparr>) \<and> x + ck_size_bytes c \<le> W64"
proof -
  let ?n = "ck_size_bytes c"
  obtain x w1 caches where alloc: "alloc_vram_on_gpu pf g ?n p = (Ok x, p\<lparr>tp_world := w1, tp_vram_free := caches\<rparr>)"
    and w1: "dev w1 = dev (tp_world p)" "x + ?n \<le> W64" and g1: "gpu_ready g (p\<lparr>tp_world := w1, tp_vram_free := caches\<rparr>)"
    using alloc_vram_ok [OF h g n] by blast
  define p1 where "p1 = p\<lparr>tp_world := w1, tp_vram_free := caches\<rparr>"
  have len: "length caches = length (tp_vram_free p)" using alloc_vram_length [of pf g ?n p] alloc by simp
  have stream: "compute_stream g p1 = (Ok (st_compute (tp_streams p1) ! g), p1)"
    by (rule sync_compute_ok(2) [OF h g1 [folded p1_def]])
  have ctx: "raw_context k p1 = (Ok (pc_ctx (cr_contexts (tp_contexts p1) ! k)), p1)" if "k = g \<or> k = i" for k
    using that g i
    by (auto simp: raw_context_def registry_get_def vec_get_def gpu_ready_def bindM_def ok_or_def retM_run p1_def)
  obtain w2 where copy: "pf_peer_async pf x (pc_ctx (cr_contexts (tp_contexts p1) ! g)) (ck_device_ptr c)
        (pc_ctx (cr_contexts (tp_contexts p1) ! i)) ?n (cs_inner (st_compute (tp_streams p1) ! g)) w1 = (0, w2)"
    and w2: "dev w2 = mem_write x (slice (dev w1) (ck_device_ptr c) ?n) (dev w1)"
    using peer unfolding peer_copies_def by blast
  define p2 where "p2 = p1\<lparr>tp_world := w2\<rparr>"
  have g2: "gpu_ready g p2" using g1 by (simp add: p2_def p1_def gpu_ready_def)
  obtain w3 where sync: "sync_compute pf g p2 = (Ok (), p2\<lparr>tp_world := w3\<rparr>)" and w3: "dev w3 = dev w2"
    using sync_compute_ok(1) [OF h g2] by (auto simp: p2_def)
  define p3 where "p3 = p\<lparr>tp_world := w3, tp_vram_free := caches\<rparr>"
  have p3: "p2\<lparr>tp_world := w3\<rparr> = p3" by (simp add: p3_def p2_def p1_def)
  have "vmt_lookup (tp_vmt p3) name = Some pg" "g < length (gc_ordinals (tp_cluster p3))"
    using page g by (simp_all add: p3_def gpu_ready_def)
  note fin = touch_install [OF this(1) es this(2), of now x ?n]
  have "tp_world p1 = w1" by (simp add: p1_def)
  then have move: "worldM (cu_call ''cuMemcpyPeerAsync'' (pf_peer_async pf x (pc_ctx (cr_contexts (tp_contexts p1) ! g))
      (ck_device_ptr c) (pc_ctx (cr_contexts (tp_contexts p1) ! i)) ?n (cs_inner (st_compute (tp_streams p1) ! g)))) p1 = (Ok (), p2)"
    using copy by (simp add: worldM_def cu_call_def check_cu_def p2_def)
  have "access_peer pf name g now c p = (Ok x, p3\<lparr>tp_vmt :=
      vmt_modify name (promoted (gc_ordinals (tp_cluster p3) ! g) x ?n now) (tp_vmt p3)\<rparr>)"
    using fin idx alloc [folded p1_def] stream ctx move sync [unfolded p3]
    by (simp add: access_peer_def Let_def bindM_def ok_or_def retM_run)
  moreover have "gpu_ready g (p\<lparr>tp_vram_free := caches\<rparr>)" using g1 by (simp add: gpu_ready_def)
  ultimately show ?thesis
    using len w1 w2 w3 by (intro exI [of _ x] exI [of _ w3] exI [of _ caches]) (simp add: p3_def)
qed


text \<open>The calls of the next property after the first access: the copy to \<open>j\<close>, the demotion of both chunks.\<close>

lemma copied_access:
  assumes h: "healthy pf dev room" and peer: "peer_copies pf dev" and g: "gpu_ready i p" "gpu_ready j p"
    and ords: "ck_gpu_ordinal c \<noteq> gc_ordinals (tp_cluster p) ! j" "index_of (tp_cluster p) (ck_gpu_ordinal c) = Some i"
    and page: "vmt_lookup (tp_vmt p) name = Some pg" "pg_tier pg = Vram" "pg_vram_chunks pg = [c]" "pg_element_size pg \<noteq> 0"
      "tp_inflight p name = None"
    and n: "ck_size_bytes c \<le> room"
  shows "\<exists>y q now. access pf name j p = (Ok y, q)
    \<and> vmt_lookup (tp_vmt q) name = Some (promoted (gc_ordinals (tp_cluster p) ! j) y (ck_size_bytes c) now pg)
    \<and> slice (dev (tp_world q)) y (ck_size_bytes c) = slice (dev (tp_world p)) (ck_device_ptr c) (ck_size_bytes c)
    \<and> (\<forall>k. gpu_ready k p \<longrightarrow> gpu_ready k q) \<and> tp_dma q = tp_dma p \<and> tp_cluster q = tp_cluster p"
proof -
  let ?n = "ck_size_bytes c" and ?oj = "gc_ordinals (tp_cluster p) ! j"
  obtain now w where w: "dev w = dev (tp_world p)" and begun: "access pf name j p
      = access_vram pf name j now (chunk_here pg ?oj) (chunk_elsewhere pg ?oj)
          (p\<lparr>tp_world := w, tp_membrane := observe name (tp_membrane p)\<rparr>)"
    using access_start [OF h g(2) page(1,5)] page(2) by auto
  define p1 where "p1 = p\<lparr>tp_world := w, tp_membrane := observe name (tp_membrane p)\<rparr>"
  have p1: "gpu_ready j p1" "gpu_ready i p1" "vmt_lookup (tp_vmt p1) name = Some pg"
    "index_of (tp_cluster p1) (ck_gpu_ordinal c) = Some i" "dev (tp_world p1) = dev (tp_world p)"
    using g page ords w by (simp_all add: p1_def gpu_ready_def)
  have "chunk_here pg ?oj = None" "chunk_elsewhere pg ?oj = Some c"
    using ords(1) by (simp_all add: chunk_here_def chunk_elsewhere_def page(3))
  with begun have start: "access pf name j p = access_peer pf name j now c p1"
    by (simp add: access_vram_def bindM_def ok_or_def retM_run p1_def)
  from access_peer_ok [OF h peer p1(1,2,3) page(4) p1(4) n, of now] obtain y w1 caches where
    acc: "access_peer pf name j now c p1 = (Ok y, p1\<lparr>tp_world := w1, tp_vram_free := caches,
          tp_vmt := vmt_modify name (promoted (gc_ordinals (tp_cluster p1) ! j) y ?n now) (tp_vmt p1)\<rparr>)"
    and w1: "dev w1 = mem_write y (slice (dev (tp_world p1)) (ck_device_ptr c) ?n) (dev (tp_world p1))"
    and caches: "length caches = length (tp_vram_free p1)" "gpu_ready j (p1\<lparr>tp_vram_free := caches\<rparr>)"
    by auto
  define q where "q = p1\<lparr>tp_world := w1, tp_vram_free := caches, tp_vmt := vmt_modify name (promoted ?oj y ?n now) (tp_vmt p1)\<rparr>"
  have "access pf name j p = (Ok y, q)" using start acc by (simp add: q_def p1_def)
  moreover have "slice (dev w1) y ?n = slice (dev (tp_world p)) (ck_device_ptr c) ?n"
    unfolding w1 p1(5) by (rule slice_mem_write) (simp add: slice_def)
  moreover have "vmt_lookup (tp_vmt q) name = Some (promoted ?oj y ?n now pg)" "tp_world q = w1" "tp_dma q = tp_dma p" "tp_cluster q = tp_cluster p"
    using page by (simp_all add: q_def p1_def)
  moreover have "\<forall>k. gpu_ready k p \<longrightarrow> gpu_ready k q" using caches by (simp add: q_def p1_def gpu_ready_def)
  ultimately show ?thesis by metis
qed

lemma demote_two_chunks:
  assumes h: "healthy pf dev room" and g: "gpu_ready i p" "gpu_ready j p" and ij: "i \<noteq> j"
    and page: "vmt_lookup (tp_vmt p) name = Some pg" "pg_tier pg = Vram" "\<not> pg_pinned pg" "pg_vram_chunks pg = [c, d]"
    and idx: "index_of (tp_cluster p) (ck_gpu_ordinal c) = Some i" "index_of (tp_cluster p) (ck_gpu_ordinal d) = Some j"
    and shards: "vec_get (pg_dram_chunks pg) i = Some b" "vec_get (pg_dram_chunks pg) j = Some b'"
      "ck_size_bytes c \<le> dc_size_bytes b" "ck_size_bytes d \<le> dc_size_bytes b'"
    and small: "ck_device_ptr c + ck_size_bytes c \<le> W64" and ring: "ring_room 1 (tp_dma p) i" "ring_room 1 (tp_dma p) j"
  shows "\<exists>q. demote pf name p = (Ok (), q)
    \<and> slice (tp_host q) (dc_host_ptr b') (ck_size_bytes d) = slice (dev (tp_world p)) (ck_device_ptr d) (ck_size_bytes d)"
proof -
  let ?x = "ck_device_ptr c" and ?n = "ck_size_bytes c"
  have rooms: "ring_room (Suc 0) (tp_dma p) i" "ring_room (Suc 0) (tp_dma p) j" using ring by simp_all
  obtain w e slot where one: "demote_chunk pf name (pg_dram_chunks pg) c p = (Ok (), p\<lparr>tp_world := w, tp_dma := e,
        tp_host := mem_write (dc_host_ptr b) (slice (dev (tp_world p)) ?x ?n) (tp_host p),
        tp_vram_free := (if ?x = 0 then tp_vram_free p else (tp_vram_free p)[i := tp_vram_free p ! i @ [(?n, ?x)]])\<rparr>)"
    and w: "dev w = dev (tp_world p)" and sub: "submit_vram_to_dram i (word_of_nat ?x) (word_of_nat (dc_host_ptr b)) ?n 0 (tp_dma p)
      = (Ok slot, e)"
    using demote_chunk_ok [OF h g(1) idx(1) shards(1,3) rooms(1), of name] by (auto cong: if_cong)
  define q1 where "q1 = p\<lparr>tp_world := w, tp_dma := e,
        tp_host := mem_write (dc_host_ptr b) (slice (dev (tp_world p)) ?x ?n) (tp_host p),
        tp_vram_free := (if ?x = 0 then tp_vram_free p else (tp_vram_free p)[i := tp_vram_free p ! i @ [(?n, ?x)]])\<rparr>"
  have "de_num_gpus e = de_num_gpus (tp_dma p) \<and> length (de_rings e) = length (de_rings (tp_dma p))
      \<and> de_rings e ! j = de_rings (tp_dma p) ! j" by (rule submit_other_ring(1) [OF ij sub])
  then have room: "ring_room (Suc 0) (tp_dma q1) j" using rooms(2) by (simp add: q1_def ring_room_def)
  have old: "\<forall>cache \<in> set (tp_vram_free p). \<forall>(n, x) \<in> set cache. x + n \<le> W64" and "i < length (tp_vram_free p)"
    using g(1) by (simp_all add: gpu_ready_def)
  from push_cache_small [OF this small] old
  have "\<forall>cache \<in> set (tp_vram_free q1). \<forall>(n, x) \<in> set cache. x + n \<le> W64" by (simp add: q1_def)
  then have ready: "gpu_ready j q1" using g(2) by (simp add: q1_def gpu_ready_def)
  have q1: "index_of (tp_cluster q1) (ck_gpu_ordinal d) = Some j" "vmt_lookup (tp_vmt q1) name = Some pg" "dev (tp_world q1) = dev (tp_world p)"
    using idx(2) page(1) w by (simp_all add: q1_def)
  obtain w2 e2 caches where two: "demote_chunk pf name (pg_dram_chunks pg) d q1 = (Ok (), q1\<lparr>tp_world := w2, tp_dma := e2,
        tp_host := mem_write (dc_host_ptr b') (slice (dev (tp_world q1)) (ck_device_ptr d) (ck_size_bytes d)) (tp_host q1), tp_vram_free := caches\<rparr>)"
    using demote_chunk_ok [OF h ready q1(1) shards(2,4) room, of name] by auto
  define q2 where "q2 = q1\<lparr>tp_world := w2, tp_dma := e2,
        tp_host := mem_write (dc_host_ptr b') (slice (dev (tp_world q1)) (ck_device_ptr d) (ck_size_bytes d)) (tp_host q1), tp_vram_free := caches\<rparr>"
  have "vmt_lookup (tp_vmt q2) name = Some pg" using q1(2) by (simp add: q2_def)
  then have "demote pf name p = (Ok (), q2\<lparr>tp_vmt := vmt_modify name demoted (tp_vmt q2)\<rparr>)"
    using page one [folded q1_def] two [folded q2_def]
    by (simp add: demote_def bindM_def lookupM_run retM_run modify_page_run demoted_fold)
  moreover have "slice (tp_host q2) (dc_host_ptr b') (ck_size_bytes d) = slice (dev (tp_world p)) (ck_device_ptr d) (ck_size_bytes d)"
    using slice_mem_write [of "slice (dev (tp_world q1)) (ck_device_ptr d) (ck_size_bytes d)" "ck_size_bytes d" "dc_host_ptr b'"]
    by (simp add: q2_def q1(3))
  ultimately show ?thesis by (intro exI conjI) (assumption, simp)
qed

text \<open>
  Property C11. A page used on two GPUs. The page is warm, with a shard on each of the GPUs \<open>i\<close> and \<open>j\<close>, that of
  \<open>i\<close> no larger, on a machine whose calls succeed. After
  an \<open>access\<close> on GPU \<open>i\<close>, an \<open>access\<close> on GPU \<open>j\<close> does not read the shard of \<open>j\<close>: it copies the block of
  \<open>i\<close> and returns a pointer to the bytes of shard \<open>i\<close>. The copy is recorded as the chunk of \<open>j\<close>, and
  \<open>demote\<close>, which takes a chunk to the shard of its GPU, writes those bytes over the shard of \<open>j\<close>: every call
  succeeds and that part of the tensor is lost.
\<close>

theorem second_gpu_overwrites_shard:
  assumes h: "healthy pf dev room" and peer: "peer_copies pf dev"
    and g: "gpu_ready i p" "gpu_ready j p" and ij: "i \<noteq> j"
    and ords: "gc_ordinals (tp_cluster p) ! i \<noteq> gc_ordinals (tp_cluster p) ! j"
      "index_of (tp_cluster p) (gc_ordinals (tp_cluster p) ! i) = Some i"
      "index_of (tp_cluster p) (gc_ordinals (tp_cluster p) ! j) = Some j"
    and page: "vmt_lookup (tp_vmt p) name = Some pg" "pg_tier pg = Dram" "\<not> pg_pinned pg" "pg_vram_chunks pg = []"
      "pg_element_size pg \<noteq> 0" "tp_inflight p name = None"
    and shards: "vec_get (pg_dram_chunks pg) i = Some b" "vec_get (pg_dram_chunks pg) j = Some b'"
      "dc_size_bytes b \<le> dc_size_bytes b'" "dc_size_bytes b \<le> room"
    and ring: "ring_room 2 (tp_dma p) i" "ring_room 1 (tp_dma p) j"
  defines "n \<equiv> dc_size_bytes b"
  shows "\<exists>x q1 y q2 q3. access pf name i p = (Ok x, q1) \<and> access pf name j q1 = (Ok y, q2)
    \<and> slice (dev (tp_world q2)) y n = slice (tp_host p) (dc_host_ptr b) n
    \<and> demote pf name q2 = (Ok (), q3)
    \<and> slice (tp_host q3) (dc_host_ptr b') n = slice (tp_host p) (dc_host_ptr b) n"
proof -
  let ?oi = "gc_ordinals (tp_cluster p) ! i" and ?oj = "gc_ordinals (tp_cluster p) ! j"
  have room: "dc_size_bytes b \<le> room" using shards(4) by (simp add: n_def)
  have two: "ring_room (Suc 1) (tp_dma p) i" using ring(1) by (simp add: numeral_2_eq_2)
  from first_access [OF h g(1) page(1,2,5,6) shards(1) room this] obtain x q1 now where
    acc: "access pf name i p = (Ok x, q1)" and look: "vmt_lookup (tp_vmt q1) name = Some (promoted ?oi x n now pg)"
    and first: "slice (dev (tp_world q1)) x n = slice (tp_host p) (dc_host_ptr b) n" and x: "x + n \<le> W64"
    and rings: "ring_room 1 (tp_dma q1) i" "ring_room 1 (tp_dma q1) j" and ready: "gpu_ready i q1" "gpu_ready j q1"
    and q1: "tp_inflight q1 name = None" "tp_cluster q1 = tp_cluster p"
    unfolding n_def using ij ring(2) g by metis
  let ?pg = "promoted ?oi x n now pg"
  let ?c = "\<lparr>ck_gpu_ordinal = ?oi, ck_device_ptr = x, ck_size_bytes = n, ck_num_elements = n div pg_element_size pg\<rparr>"
  have pg: "pg_tier ?pg = Vram" "pg_vram_chunks ?pg = [?c]" "pg_element_size ?pg \<noteq> 0" "\<not> pg_pinned ?pg" "pg_dram_chunks ?pg = pg_dram_chunks pg"
    using page by (simp_all add: promoted_def page_touch_def)
  have c: "ck_gpu_ordinal ?c \<noteq> gc_ordinals (tp_cluster q1) ! j" "index_of (tp_cluster q1) (ck_gpu_ordinal ?c) = Some i" "ck_size_bytes ?c \<le> room"
    using ords shards(4) q1(2) by (simp_all add: n_def)
  from copied_access [OF h peer ready c(1,2) look pg(1,2,3) q1(1) c(3)] obtain y q2 now2 where
    acc2: "access pf name j q1 = (Ok y, q2)" and look2: "vmt_lookup (tp_vmt q2) name = Some (promoted ?oj y n now2 ?pg)"
    and got: "slice (dev (tp_world q2)) y n = slice (dev (tp_world q1)) x n"
    and ready2: "gpu_ready i q2" "gpu_ready j q2" and q2: "tp_dma q2 = tp_dma q1" "tp_cluster q2 = tp_cluster p"
    using ready q1(2) by auto
  let ?d = "\<lparr>ck_gpu_ordinal = ?oj, ck_device_ptr = y, ck_size_bytes = n, ck_num_elements = n div pg_element_size ?pg\<rparr>"
  have pg2: "pg_tier (promoted ?oj y n now2 ?pg) = Vram" "\<not> pg_pinned (promoted ?oj y n now2 ?pg)"
    "pg_vram_chunks (promoted ?oj y n now2 ?pg) = [?c, ?d]" "pg_dram_chunks (promoted ?oj y n now2 ?pg) = pg_dram_chunks pg"
    using pg by (simp_all add: promoted_def [of ?oj] page_touch_def)
  have "\<exists>q3. demote pf name q2 = (Ok (), q3)
      \<and> slice (tp_host q3) (dc_host_ptr b') (ck_size_bytes ?d) = slice (dev (tp_world q2)) (ck_device_ptr ?d) (ck_size_bytes ?d)"
    by (rule demote_two_chunks [OF h ready2 ij look2 pg2(1,2,3), where b = b]) (use ords shards q2 pg2(4) x rings in \<open>simp_all add: n_def\<close>)
  then show ?thesis using acc acc2 got first by auto
qed


section \<open>Witnesses\<close>

text \<open>A machine with a memory per context behind one address space.\<close>

definition two_gpu_machine :: "(u64 \<times> (u64 \<Rightarrow> byte)) platform" where
  "two_gpu_machine = idle_platform\<lparr>
     pf_ctx_set_current := (\<lambda>c (cur, mem). (0, (c, mem))),
     pf_mem_alloc := (\<lambda>n (cur, mem). (if n \<le> 2 ^ 30 then 0 else 2, (cur mod 16 + 1) * 2 ^ 20, (cur, mem))),
     pf_htod := (\<lambda>dst bs (cur, mem). (0, (cur, mem_write dst bs mem))),
     pf_htod_async := (\<lambda>dst bs s (cur, mem). (0, (cur, mem_write dst bs mem))),
     pf_dtoh_async := (\<lambda>src n s (cur, mem). (0, slice mem src n, (cur, mem))),
     pf_peer_async := (\<lambda>dst dc src sc n s (cur, mem). (0, (cur, mem_write dst (slice mem src n) mem)))\<rparr>"

lemma two_gpu_machine_healthy: "healthy two_gpu_machine snd (2 ^ 30)"
proof -
  have "(c mod 16 + 1) * 2 ^ 20 + n \<le> W64" if "n \<le> 2 ^ 30" for c n :: nat
  proof -
    have "c mod 16 + 1 \<le> 16" using pos_mod_bound [of 16] mod_less_divisor [of 16 c] by linarith
    then have "(c mod 16 + 1) * 2 ^ 20 \<le> 16 * 2 ^ 20" by (rule mult_le_mono1)
    with that show ?thesis by (simp add: W64_def)
  qed
  then show ?thesis
    by (auto simp: healthy_def device_memory_def never_fails_def two_gpu_machine_def idle_platform_def split: if_splits)
qed

lemma two_gpu_machine_peer: "peer_copies two_gpu_machine snd"
  by (simp add: peer_copies_def two_gpu_machine_def split_beta)

definition shard1 :: dram_chunk where
  "shard1 = \<lparr>dc_numa_node = 1, dc_host_ptr = 131072, dc_size_bytes = 4, dc_cuda_registered = False\<rparr>"

text \<open>A warm tensor of eight bytes: four ones in the shard of GPU 0 and four twos in the shard of GPU 1.\<close>

definition split_page :: page where
  "split_page = sharded_page ''t'' [8] 1 Dram Warm [shard0, shard1]"

definition split_sample :: "(u64 \<times> (u64 \<Rightarrow> byte)) tiered_pool" where
  "split_sample = (pool_sample (0, \<lambda>_. 0))\<lparr>tp_vmt := filed ''t'' split_page ''t'' (vmt_new 2 2),
     tp_host := (\<lambda>a. if a < 131072 then 1 else 2)\<rparr>"

lemma new_rings: "g < 2 \<Longrightarrow> k \<le> 2 \<Longrightarrow> ring_room k (dma_new 2) g"
  using ring_new_inv by (simp add: ring_room_def dma_new_def)
    (simp add: ring_new_def Let_def ring_tail_def ring_head_def completion_new_def)

theorem second_gpu_overwrites_shard_witness:
  "slice (tp_host split_sample) 131072 4 = [2, 2, 2, 2]
    \<and> (\<exists>x q1 y q2 q3. access two_gpu_machine ''t'' 0 split_sample = (Ok x, q1)
      \<and> access two_gpu_machine ''t'' 1 q1 = (Ok y, q2) \<and> slice (snd (tp_world q2)) y 4 = [1, 1, 1, 1]
      \<and> demote two_gpu_machine ''t'' q2 = (Ok (), q3) \<and> slice (tp_host q3) 131072 4 = [1, 1, 1, 1])"
proof -
  let ?p = split_sample
  have ready: "gpu_ready 0 ?p" "gpu_ready 1 ?p"
    by (simp_all add: gpu_ready_def split_sample_def pool_sample_def two_gpus_def two_streams_def)
  have ords: "gc_ordinals (tp_cluster ?p) ! 0 \<noteq> gc_ordinals (tp_cluster ?p) ! 1"
    "index_of (tp_cluster ?p) (gc_ordinals (tp_cluster ?p) ! 0) = Some 0"
    "index_of (tp_cluster ?p) (gc_ordinals (tp_cluster ?p) ! 1) = Some 1"
    by (simp_all add: split_sample_def pool_sample_def two_gpus_def index_of_def ordinal_index_def)
  have page: "vmt_lookup (tp_vmt ?p) ''t'' = Some split_page" "pg_tier split_page = Dram" "\<not> pg_pinned split_page"
    "pg_vram_chunks split_page = []" "pg_element_size split_page \<noteq> 0" "tp_inflight ?p ''t'' = None"
    by (simp_all add: split_sample_def split_page_def pool_sample_def) (simp_all add: sharded_page_def fresh_page_def page_new_def)
  have shards: "vec_get (pg_dram_chunks split_page) 0 = Some shard0" "vec_get (pg_dram_chunks split_page) 1 = Some shard1"
    "dc_size_bytes shard0 \<le> dc_size_bytes shard1" "dc_size_bytes shard0 \<le> 2 ^ 30"
    by (simp_all add: split_page_def vec_get_def shard0_def shard1_def)
  have ring: "ring_room 2 (tp_dma ?p) 0" "ring_room 1 (tp_dma ?p) 1"
    by (simp_all add: split_sample_def pool_sample_def new_rings)
  have "slice (tp_host ?p) (dc_host_ptr shard0) (dc_size_bytes shard0) = [1, 1, 1, 1]"
    "slice (tp_host ?p) 131072 4 = [2, 2, 2, 2]" "dc_size_bytes shard0 = 4" "dc_host_ptr shard1 = 131072"
    by (simp_all add: slice_def split_sample_def shard0_def shard1_def upt_rec)
  with second_gpu_overwrites_shard [OF two_gpu_machine_healthy two_gpu_machine_peer ready _ ords page shards ring]
  show ?thesis by simp
qed




end
