(* ===== verification/Flight.thy ===== *)
theory Flight
  imports Lifetime
begin

text \<open>
  Transfers in flight (\<open>TieredPool::prefetch\<close> and \<open>claim_prefetch\<close> of \<open>src/tiered.rs\<close>) on a healthy
  machine: what a prefetch puts in device memory and what the access that claims it finds there.
\<close>

section \<open>Starting and claiming a transfer\<close>

text \<open>Events can be made, recorded and waited for, and move no data.\<close>

definition events_work :: "'w platform \<Rightarrow> ('w \<Rightarrow> u64 \<Rightarrow> byte) \<Rightarrow> bool" where
  "events_work pf dev \<longleftrightarrow> (\<forall>w. (\<forall>fl. \<exists>e w'. pf_event_create pf fl w = (0, e, w') \<and> dev w' = dev w)
     \<and> (\<forall>e s. \<exists>w'. pf_event_record pf e s w = (0, w') \<and> dev w' = dev w)
     \<and> (\<forall>e. \<exists>w'. pf_event_sync pf e w = (0, w') \<and> dev w' = dev w)
     \<and> (\<forall>e. dev (snd (pf_event_destroy pf e w)) = dev w))"

lemma prefetch_ok:
  assumes h: "healthy pf dev room" and ev: "events_work pf dev" and g: "gpu_ready g p" "g < length (st_prefetch (tp_streams p))"
    and page: "vmt_lookup (tp_vmt p) name = Some pg" "pg_tier pg = Dram" "vec_get (pg_dram_chunks pg) 0 = Some b"
    and n: "pg_size_bytes pg \<le> room" and quiet: "tp_inflight p name = None"
  shows "\<exists>x e w caches. prefetch pf name g p = (Ok (), p\<lparr>tp_world := w, tp_vram_free := caches,
        tp_inflight := (tp_inflight p)(name \<mapsto> (g, x, pg_size_bytes pg, e))\<rparr>)
    \<and> dev w = mem_write x (slice (tp_host p) (dc_host_ptr b) (pg_size_bytes pg)) (dev (tp_world p))
    \<and> gpu_ready g (p\<lparr>tp_vram_free := caches\<rparr>)"
proof -
  let ?n = "pg_size_bytes pg" and ?bs = "slice (tp_host p) (dc_host_ptr b) (pg_size_bytes pg)"
  obtain x w1 caches where alloc: "alloc_vram_on_gpu pf g ?n p = (Ok x, p\<lparr>tp_world := w1, tp_vram_free := caches\<rparr>)"
    and w1: "dev w1 = dev (tp_world p)" and g1: "gpu_ready g (p\<lparr>tp_world := w1, tp_vram_free := caches\<rparr>)"
    using alloc_vram_ok [OF h g(1) n] by blast
  define p1 where "p1 = p\<lparr>tp_world := w1, tp_vram_free := caches\<rparr>"
  obtain w2 where ctx: "set_context pf g p1 = (Ok (), p1\<lparr>tp_world := w2\<rparr>)" and w2: "dev w2 = dev (tp_world p1)"
    using set_context_ok [OF h g1 [folded p1_def]] by blast
  obtain e w3 where mk: "pf_event_create pf CU_EVENT_BLOCKING_SYNC w2 = (0, e, w3)" and w3: "dev w3 = dev w2"
    using ev unfolding events_work_def by blast
  let ?s = "st_prefetch (tp_streams p) ! g"
  obtain w4 where copy: "pf_htod_async pf x ?bs (cs_inner ?s) w3 = (0, w4)" and w4: "dev w4 = mem_write x ?bs (dev w3)"
    using healthy_htod(2) [OF h] by blast
  obtain w5 where rec: "pf_event_record pf e (cs_inner ?s) w4 = (0, w5)" and w5: "dev w5 = dev w4"
    using ev unfolding events_work_def by blast
  have stream: "vec_get (st_prefetch (tp_streams p)) g = Some ?s" using g(2) by (simp add: vec_get_def)
  have "prefetch pf name g p = (Ok (), p\<lparr>tp_world := w5, tp_vram_free := caches,
        tp_inflight := (tp_inflight p)(name \<mapsto> (g, x, ?n, \<lparr>ce_inner = e\<rparr>))\<rparr>)"
    using page quiet alloc [folded p1_def] ctx mk copy rec stream
    by (simp add: prefetch_def start_prefetch_def bindM_def worldM_def event_new_blocking_def cu_get_def check_cu_def
        retM_run run_simps prefetch_stream_def unwrapM_def getM_run event_record_def cu_call_def p1_def)
  moreover have "dev w5 = mem_write x ?bs (dev (tp_world p))" using w1 w2 w3 w4 w5 by (simp add: p1_def)
  moreover have "gpu_ready g (p\<lparr>tp_vram_free := caches\<rparr>)" using g1 by (simp add: gpu_ready_def)
  ultimately show ?thesis by blast
qed

text \<open>What an access that claims a transfer asks of the machine: the time, the wait, the release of the event.\<close>

definition claim_calls :: "'w platform \<Rightarrow> cuda_event \<Rightarrow> 'w \<Rightarrow> 'w" where
  "claim_calls pf e w =
     event_drop pf e (snd (pf_event_sync pf (ce_inner e) (snd (pf_clock pf w))))"

lemma claim_calls_dev:
  assumes h: "healthy pf dev room" and ev: "events_work pf dev"
  shows "dev (claim_calls pf e w) = dev w"
proof -
  obtain now w1 where "pf_clock pf w = (now, w1)" "dev w1 = dev w" using healthy_silent(3) [OF h] by blast
  moreover obtain w2 where "pf_event_sync pf (ce_inner e) w1 = (0, w2)" "dev w2 = dev w1"
    using ev unfolding events_work_def by blast
  ultimately show ?thesis using ev by (simp add: claim_calls_def events_work_def event_drop_def cu_ignore_def)
qed

lemma access_claims:
  assumes h: "healthy pf dev room" and ev: "events_work pf dev" and g: "gpu_ready g p"
    and page: "vmt_lookup (tp_vmt p) name = Some pg" "pg_element_size pg \<noteq> 0"
    and flying: "tp_inflight p name = Some (g, x, n, e)"
  shows "\<exists>now. access pf name g p = (Ok x, p\<lparr>tp_world := claim_calls pf e (tp_world p),
      tp_membrane := observe name (tp_membrane p), tp_inflight := (tp_inflight p)(name := None),
      tp_vmt := vmt_modify name (promoted (gc_ordinals (tp_cluster p) ! g) x n now) (tp_vmt p)\<rparr>)"
proof -
  obtain now w1 where clock: "pf_clock pf (tp_world p) = (now, w1)" using healthy_silent(3) [OF h] by blast
  obtain w2 where sync: "pf_event_sync pf (ce_inner e) w1 = (0, w2)" using ev unfolding events_work_def by blast
  have ord: "vec_get (gc_ordinals (tp_cluster p)) g = Some (gc_ordinals (tp_cluster p) ! g)"
    using g by (simp add: gpu_ready_def vec_get_def)
  let ?q = "p\<lparr>tp_membrane := observe name (tp_membrane p), tp_inflight := (tp_inflight p)(name := None), tp_world := w2,
      tp_vmt := vmt_modify name (promoted (gc_ordinals (tp_cluster p) ! g) x n now) (tp_vmt p)\<rparr>"
  have both: "vmt_modify name (page_touch now) (vmt_modify name (\<lambda>pga. pga\<lparr>pg_vram_chunks := pg_vram_chunks pga @
        [\<lparr>ck_gpu_ordinal = gc_ordinals (tp_cluster p) ! g, ck_device_ptr = x, ck_size_bytes = n,
          ck_num_elements = n div pg_element_size pg\<rparr>], pg_tier := Vram, pg_state := Resident\<rparr>) (tp_vmt p))
      = vmt_modify name (promoted (gc_ordinals (tp_cluster p) ! g) x n now) (tp_vmt p)"
    using page by (cases pg) (simp add: vmt_modify_def vmt_lookup_def promoted_def page_touch_def)
  have "access pf name g p = (Ok x, drop_event pf e ?q)"
    using clock sync ord page flying
    by (simp add: access_def bindM_def worldM_def modM_run claim_prefetch_def finallyM_def event_synchronize_def
        cu_call_def check_cu_def install_chunk_def unwrapM_def retM_run run_simps modify_page_run both)
  moreover have "tp_world (drop_event pf e ?q) = claim_calls pf e (tp_world p)"
    using clock sync by (simp add: drop_event_def claim_calls_def)
  moreover have "drop_event pf e ?q = ?q\<lparr>tp_world := tp_world (drop_event pf e ?q)\<rparr>"
    by (simp add: drop_event_def)
  ultimately show ?thesis by (intro exI [of _ now]) simp
qed

lemma write_single_shard:
  assumes "vmt_lookup (tp_vmt p) name = Some pg" "pg_tier pg \<noteq> Ssd" "pg_dram_chunks pg = [b]"
    and "dc_size_bytes b = pg_size_bytes pg" "length data = pg_size_bytes pg" "0 < length data" "length data < W64"
  shows "write_page pf name data p = (Ok (), p\<lparr>tp_host := mem_write (dc_host_ptr b) data (tp_host p)\<rparr>)"
proof -
  have "copy_shards (shards_of pg) data 0 (tp_host p) = (length data, mem_write (dc_host_ptr b) data (tp_host p))"
    using assms by (simp add: shards_of_def uadd_exact)
  from write_page_warm [OF assms(1,2,5) this] show ?thesis by simp
qed

section \<open>The property\<close>

text \<open>
  Property C29. Look-ahead, on a machine whose calls succeed, for a warm page whose bytes are one shard
  and that has no transfer in flight. \<open>prefetch\<close> succeeds and leaves the page as it is; the \<open>access\<close> that
  follows returns the block of the transfer, at which device memory holds the bytes of the shard, and
  no transfer is left in flight. The page can be written in between, being still warm: \<open>write_page\<close>
  succeeds and puts the new data in the shard without asking anything of the driver, and the \<open>access\<close>
  after it returns the same block, having asked for the time, the wait for the transfer and the
  release of its event only. Nothing copies the new data: whether the block has it depends on when the
  driver read the shard.
\<close>

theorem prefetch_then_access:
  assumes h: "healthy pf dev room" and ev: "events_work pf dev" and g: "gpu_ready g p" "g < length (st_prefetch (tp_streams p))"
    and page: "vmt_lookup (tp_vmt p) name = Some pg" "pg_tier pg = Dram" "pg_dram_chunks pg = [b]" "pg_element_size pg \<noteq> 0"
    and n: "dc_size_bytes b = pg_size_bytes pg" "pg_size_bytes pg \<le> room" and quiet: "tp_inflight p name = None"
    and data: "length data = pg_size_bytes pg" "0 < length data" "length data < W64"
  shows "\<exists>q x e q1 q2 q3. prefetch pf name g p = (Ok (), q) \<and> tp_vmt q = tp_vmt p
    \<and> tp_inflight q name = Some (g, x, pg_size_bytes pg, e)
    \<and> access pf name g q = (Ok x, q1) \<and> tp_inflight q1 name = None
    \<and> slice (dev (tp_world q1)) x (pg_size_bytes pg) = slice (tp_host p) (dc_host_ptr b) (pg_size_bytes pg)
    \<and> write_page pf name data q = (Ok (), q2) \<and> slice (tp_host q2) (dc_host_ptr b) (pg_size_bytes pg) = data
    \<and> tp_world q2 = tp_world q
    \<and> access pf name g q2 = (Ok x, q3) \<and> tp_inflight q3 name = None
    \<and> tp_world q3 = claim_calls pf e (tp_world q)"
proof -
  let ?n = "pg_size_bytes pg"
  have first: "vec_get (pg_dram_chunks pg) 0 = Some b" by (simp add: page(3) vec_get_def)
  from prefetch_ok [OF h ev g page(1,2) first n(2) quiet] obtain x e w caches where
    pre: "prefetch pf name g p = (Ok (), p\<lparr>tp_world := w, tp_vram_free := caches,
        tp_inflight := (tp_inflight p)(name \<mapsto> (g, x, ?n, e))\<rparr>)"
    and w: "dev w = mem_write x (slice (tp_host p) (dc_host_ptr b) ?n) (dev (tp_world p))"
    and caches: "gpu_ready g (p\<lparr>tp_vram_free := caches\<rparr>)" by blast
  define q where "q = p\<lparr>tp_world := w, tp_vram_free := caches, tp_inflight := (tp_inflight p)(name \<mapsto> (g, x, ?n, e))\<rparr>"
  define q2 where "q2 = q\<lparr>tp_host := mem_write (dc_host_ptr b) data (tp_host q)\<rparr>"
  have q: "gpu_ready g q" "vmt_lookup (tp_vmt q) name = Some pg" "tp_inflight q name = Some (g, x, ?n, e)"
    "gpu_ready g q2" "vmt_lookup (tp_vmt q2) name = Some pg" "tp_inflight q2 name = Some (g, x, ?n, e)"
    using caches page(1) by (simp_all add: q2_def q_def gpu_ready_def)
  have bytes: "slice (dev (claim_calls pf e w)) x ?n = slice (tp_host p) (dc_host_ptr b) ?n"
    unfolding claim_calls_dev [OF h ev] w by (rule slice_mem_write) (simp add: slice_def)
  obtain q1 where "access pf name g q = (Ok x, q1)" "tp_inflight q1 name = None"
    "tp_world q1 = claim_calls pf e w"
    using access_claims [OF h ev q(1,2) page(4) q(3)] by (auto simp: q_def)
  moreover obtain q3 where "access pf name g q2 = (Ok x, q3)" "tp_inflight q3 name = None"
    "tp_world q3 = claim_calls pf e w"
    using access_claims [OF h ev q(4,5) page(4) q(6)] by (auto simp: q2_def q_def)
  moreover have "write_page pf name data q = (Ok (), q2)"
    unfolding q2_def by (rule write_single_shard [OF q(2) _ page(3) n(1) data]) (simp add: page(2))
  moreover have "slice (tp_host q2) (dc_host_ptr b) ?n = data" by (simp add: q2_def slice_mem_write data(1))
  moreover have "tp_world q = w" "tp_world q2 = w" "tp_vmt q = tp_vmt p" by (simp_all add: q2_def q_def)
  ultimately show ?thesis using pre [folded q_def] bytes q(3)
    by (intro exI [of _ q] exI [of _ x] exI [of _ e] exI [of _ q1] exI [of _ q2] exI [of _ q3]) simp
qed


lemma memory_machine_events: "events_work memory_machine (\<lambda>mem. mem)"
  by (simp add: events_work_def memory_machine_def idle_platform_def)

theorem prefetch_then_access_witness:
  "\<exists>q x e q1 q2 q3. prefetch memory_machine ''v'' 0 (warm_sample (dma_new 2)) = (Ok (), q)
    \<and> access memory_machine ''v'' 0 q = (Ok x, q1) \<and> slice (tp_world q1) x 4 = [0, 0, 0, 0]
    \<and> write_page memory_machine ''v'' [5, 6, 7, 8] q = (Ok (), q2)
    \<and> access memory_machine ''v'' 0 q2 = (Ok x, q3) \<and> tp_world q3 = claim_calls memory_machine e (tp_world q)"
proof -
  let ?p = "warm_sample (dma_new 2)" and ?d = "[5, 6, 7, 8] :: byte list"
  have streams: "0 < length (st_prefetch (tp_streams ?p))"
    by (simp add: warm_sample_def pool_sample_def two_streams_def)
  have page: "pg_dram_chunks warm_page = [shard0]" "pg_element_size warm_page \<noteq> 0" "pg_size_bytes warm_page = 4"
    by (simp_all add: warm_page_def umul_def uproduct_def W64_def) (simp add: sharded_page_def fresh_page_def page_new_def)
  have n: "dc_size_bytes shard0 = pg_size_bytes warm_page" "pg_size_bytes warm_page \<le> 2 ^ 30"
    by (simp_all add: page(3) shard0_def)
  have data: "length ?d = pg_size_bytes warm_page" "0 < length ?d" "length ?d < W64"
    by (simp_all add: page(3) W64_def)
  have bytes: "slice (tp_host ?p) (dc_host_ptr shard0) 4 = [0, 0, 0, 0]"
    by (simp add: slice_def warm_sample_def pool_sample_def upt_rec)
  from prefetch_then_access [OF memory_machine_healthy memory_machine_events warm_sample_facts(1) streams
      warm_sample_facts(3) sample_pages(6) page(1,2) n warm_sample_facts(5) data]
  show ?thesis unfolding page(3) bytes by blast
qed

end
