(* ===== verification/Progress.thy ===== *)
theory Progress
  imports Errors
begin

text \<open>
  Operations that neither panic nor leave a predicate of the state: the calculus in which the
  absence of panics of the pool and of the engine is proved.
\<close>

text \<open>\<open>sure I m Q\<close>: from a state of \<open>I\<close>, \<open>m\<close> does not panic, ends in \<open>I\<close>, and a result satisfies \<open>Q\<close>.\<close>

definition sure :: "('s \<Rightarrow> bool) \<Rightarrow> ('s, 'a) op \<Rightarrow> ('a \<Rightarrow> bool) \<Rightarrow> bool" where
  "sure I m Q \<longleftrightarrow> (\<forall>s r t. I s \<longrightarrow> m s = (r, t) \<longrightarrow> I t \<and> r \<noteq> Panic \<and> (\<forall>x. r = Ok x \<longrightarrow> Q x))"

abbreviation sound_op :: "('s \<Rightarrow> bool) \<Rightarrow> ('s, 'a) op \<Rightarrow> bool" where
  "sound_op I m \<equiv> sure I m (\<lambda>_. True)"

named_theorems sure_intros \<open>operations that neither panic nor leave a predicate\<close>

lemma sureI: "(\<And>s r t. I s \<Longrightarrow> m s = (r, t) \<Longrightarrow> I t \<and> r \<noteq> Panic \<and> (\<forall>x. r = Ok x \<longrightarrow> Q x)) \<Longrightarrow> sure I m Q"
  unfolding sure_def by blast

lemma sureD: "sure I m Q \<Longrightarrow> I s \<Longrightarrow> m s = (r, t) \<Longrightarrow> I t \<and> r \<noteq> Panic \<and> (\<forall>x. r = Ok x \<longrightarrow> Q x)"
  unfolding sure_def by blast

lemma sure_weaken: "sure I m Q \<Longrightarrow> (\<And>x. Q x \<Longrightarrow> R x) \<Longrightarrow> sure I m R"
  unfolding sure_def by blast

lemma sure_bindM:
  assumes m: "sure I m R" and f: "\<And>x. R x \<Longrightarrow> sure I (f x) Q"
  shows "sure I (bindM m f) Q"
proof (rule sureI)
  fix s r t assume "I s" and run: "bindM m f s = (r, t)"
  obtain r1 t1 where m1: "m s = (r1, t1)" by force
  note step = sureD [OF m \<open>I s\<close> m1]
  show "I t \<and> r \<noteq> Panic \<and> (\<forall>x. r = Ok x \<longrightarrow> Q x)"
  proof (cases r1)
    case (Ok x)
    then have "f x t1 = (r, t)" using run m1 by (simp add: bindM_def)
    with sureD [OF f] step Ok show ?thesis by blast
  qed (use step run m1 in \<open>auto simp: bindM_def\<close>)
qed

lemma sure_then [sure_intros]:
  "sound_op I m \<Longrightarrow> (\<And>x. sure I (f x) Q) \<Longrightarrow> sure I (bindM m f) Q"
  by (rule sure_bindM)

lemma sure_pure [sure_intros]:
  "sound_op I (retM x)" "sure I (errM e) Q" "sound_op I (getM f)" "sound_op I (ok_or y e)"
  by (auto intro!: sureI simp: ok_or_def run_simps split: option.splits)

lemma sure_retM: "Q x \<Longrightarrow> sure I (retM x) Q"
  by (auto intro!: sureI simp: run_simps)

lemma sure_getM: "(\<And>s. I s \<Longrightarrow> Q (f s)) \<Longrightarrow> sure I (getM f) Q"
  by (auto intro!: sureI simp: run_simps)

lemma sure_ok_or: "(\<And>x. y = Some x \<Longrightarrow> Q x) \<Longrightarrow> sure I (ok_or y e) Q"
  by (auto intro!: sureI simp: ok_or_def run_simps split: option.splits)

lemma sure_at:
  assumes "\<And>s. I s \<Longrightarrow> sure I (m s) Q" shows "sure I (\<lambda>s. m s s) Q"
proof (rule sureI)
  fix s r t assume "I s" "m s s = (r, t)"
  then show "I t \<and> r \<noteq> Panic \<and> (\<forall>x. r = Ok x \<longrightarrow> Q x)" by (intro sureD [OF assms [of s]])
qed

lemma sure_catchM [sure_intros]: "sure I m Q \<Longrightarrow> sure I (catchM m) (\<lambda>res. \<forall>x. res = Inr x \<longrightarrow> Q x)"
  by (rule sureI) (auto simp: catchM_def dest!: sureD split: prod.splits outcome.splits)

lemma sure_ignoreM [sure_intros]: "sound_op I m \<Longrightarrow> sound_op I (ignoreM m)"
  unfolding ignoreM_def by (rule sure_bindM, erule sure_catchM) (rule sure_pure)

lemma sure_forM [sure_intros]: "(\<And>x. x \<in> set xs \<Longrightarrow> sound_op I (f x)) \<Longrightarrow> sound_op I (forM xs f)"
proof (induction xs)
  case (Cons x xs)
  then show ?case unfolding forM.simps by (intro sure_then) simp_all
qed (simp add: sure_pure)

lemma sure_if [sure_intros]: "(b \<Longrightarrow> sure I m Q) \<Longrightarrow> (\<not> b \<Longrightarrow> sure I n Q) \<Longrightarrow> sure I (if b then m else n) Q"
  by simp

lemma sure_case3: "(\<And>a b c. x = (a, b, c) \<Longrightarrow> sure I (f a b c) Q) \<Longrightarrow> sure I (case x of (a, b, c) \<Rightarrow> f a b c) Q"
  by (cases x) simp

lemma sure_modM [sure_intros]: "(\<And>s. I s \<Longrightarrow> I (f s)) \<Longrightarrow> sound_op I (modM f)"
  by (auto intro!: sureI simp: run_simps)

end
