(* ===== verification/PoolTypes.thy ===== *)
theory PoolTypes
  imports Ownership Progress
begin

text \<open>
  Which states of a \<open>TieredPool\<close> (\<open>src/tiered.rs\<close>) its calls are made for, and that none of the
  panics in them (indexing, \<open>unwrap\<close>, division) can happen there: preservation and progress.
\<close>

lemma sure_finallyM [sure_intros]:
  "sure I m Q \<Longrightarrow> (\<And>s. I s \<Longrightarrow> I (fin s)) \<Longrightarrow> sure I (finallyM m fin) Q"
  by (rule sureI) (auto simp: finallyM_def dest!: sureD split: prod.splits)

lemma sure_discard [sure_intros]: "sound_op I m \<Longrightarrow> sound_op I (discard m)"
  unfolding discard_def by (intro sure_intros)

section \<open>Well-formed pools\<close>

text \<open>
  A pool over \<open>N\<close> GPUs: one ordinal, stream of each kind, context, DRAM pool, recycle cache and ring
  per GPU; pages with an element size and a size that is a \<open>usize\<close>; and every transfer in flight is for
  a page of the table. \<open>D\<close> are pages known to be in the table, and \<open>S\<close> says that a spill file is
  known to be attached.
\<close>

definition typed :: "nat \<Rightarrow> string set \<Rightarrow> bool \<Rightarrow> 'w tiered_pool \<Rightarrow> bool" where
  "typed N D S p \<longleftrightarrow> 0 < N
     \<and> length (gc_ordinals (tp_cluster p)) = N \<and> (\<forall>ord g. index_of (tp_cluster p) ord = Some g \<longrightarrow> g < N)
     \<and> length (st_compute (tp_streams p)) = N \<and> length (st_prefetch (tp_streams p)) = N
     \<and> length (cr_contexts (tp_contexts p)) = N \<and> length (tp_dram_pools p) = N \<and> length (tp_vram_free p) = N
     \<and> length (de_rings (tp_dma p)) = N \<and> de_num_gpus (tp_dma p) = N
     \<and> (\<forall>n pg. vmt_lookup (tp_vmt p) n = Some pg \<longrightarrow> pg_element_size pg \<noteq> 0 \<and> pg_size_bytes pg < W64)
     \<and> (\<forall>n. tp_inflight p n \<noteq> None \<longrightarrow> vmt_lookup (tp_vmt p) n \<noteq> None)
     \<and> (\<forall>n \<in> D. vmt_lookup (tp_vmt p) n \<noteq> None) \<and> (S \<longrightarrow> tp_spill p \<noteq> None)"

lemma typed_less: "typed N D S p \<Longrightarrow> E \<subseteq> D \<Longrightarrow> (T \<Longrightarrow> S) \<Longrightarrow> typed N E T p"
  unfolding typed_def by blast

lemma typed_updates [simp]:
  "typed N D S (p\<lparr>tp_world := w\<rparr>) = typed N D S p"
  "typed N D S (p\<lparr>tp_host := h\<rparr>) = typed N D S p"
  "typed N D S (p\<lparr>tp_membrane := mb\<rparr>) = typed N D S p"
  "typed N D S (p\<lparr>tp_membrane_budget := b\<rparr>) = typed N D S p"
  by (simp_all add: typed_def)

lemma typed_spill [simp]: "typed N D S p \<Longrightarrow> typed N D S (p\<lparr>tp_spill := Some s\<rparr>)"
  by (simp add: typed_def)

lemma typed_pools: "typed N D S p \<Longrightarrow> length ds = N \<Longrightarrow> typed N D S (p\<lparr>tp_dram_pools := ds\<rparr>)"
  "typed N D S p \<Longrightarrow> length cs = N \<Longrightarrow> typed N D S (p\<lparr>tp_vram_free := cs\<rparr>)"
  "typed N D S p \<Longrightarrow> length (de_rings e) = N \<Longrightarrow> de_num_gpus e = N \<Longrightarrow> typed N D S (p\<lparr>tp_dma := e\<rparr>)"
  by (simp_all add: typed_def)

lemma typed_lengths:
  assumes "typed N D S p"
  shows "0 < N" "length (gc_ordinals (tp_cluster p)) = N" "length (st_compute (tp_streams p)) = N"
    "length (st_prefetch (tp_streams p)) = N" "length (cr_contexts (tp_contexts p)) = N"
    "length (tp_dram_pools p) = N" "length (tp_vram_free p) = N" "length (de_rings (tp_dma p)) = N" "de_num_gpus (tp_dma p) = N"
    "index_of (tp_cluster p) ord = Some g \<Longrightarrow> g < N"
  using assms unfolding typed_def by blast+

lemma typed_know: "typed N D S p \<Longrightarrow> vmt_lookup (tp_vmt p) n \<noteq> None \<Longrightarrow> typed N (insert n D) S p"
  unfolding typed_def by blast

lemma typed_flight:
  assumes p: "typed N D S p"
  shows "tp_inflight p n \<noteq> None \<Longrightarrow> vmt_lookup (tp_vmt p) n \<noteq> None"
    and "typed N D S (p\<lparr>tp_inflight := (tp_inflight p)(n := None)\<rparr>)"
    and "n \<in> D \<Longrightarrow> typed N D S (p\<lparr>tp_inflight := (tp_inflight p)(n \<mapsto> fl)\<rparr>)"
proof -
  show "tp_inflight p n \<noteq> None \<Longrightarrow> vmt_lookup (tp_vmt p) n \<noteq> None" using p unfolding typed_def by blast
  show "typed N D S (p\<lparr>tp_inflight := (tp_inflight p)(n := None)\<rparr>)"
    using p unfolding typed_def by (simp del: not_None_eq)
  show "n \<in> D \<Longrightarrow> typed N D S (p\<lparr>tp_inflight := (tp_inflight p)(n \<mapsto> fl)\<rparr>)"
    using p unfolding typed_def by (simp del: not_None_eq)
qed

section \<open>The parts of the operations\<close>

lemma sure_worldM [sure_intros]: "(\<And>w. fst (m w) \<noteq> Panic) \<Longrightarrow> sound_op (typed N D S) (worldM m)"
proof (rule sureI)
  fix p r q assume m: "\<And>w. fst (m w) \<noteq> Panic" and p: "typed N D S p" and run: "worldM m p = (r, q)"
  obtain w where w: "m (tp_world p) = (r, w)" "q = p\<lparr>tp_world := w\<rparr>" using run by (auto simp: worldM_def split: prod.splits)
  with m [of "tp_world p"] p show "typed N D S q \<and> r \<noteq> Panic \<and> (\<forall>x. r = Ok x \<longrightarrow> True)" by simp
qed

lemma cu_no_panic:
  "fst (cu_call name f w) \<noteq> Panic" "fst (cu_get name g w) \<noteq> Panic"
  by (auto simp: cu_call_def cu_get_def check_cu_def split: prod.split)

lemma sure_ignoreW [sure_intros]: "sound_op (typed N D S) (ignoreW f)"
  by (rule sureI) (auto simp: ignoreW_def)

lemma sure_dramM [sure_intros]:
  assumes "i < N" and "\<And>d. fst (m d) \<noteq> Panic" shows "sound_op (typed N D S) (dramM i m)"
proof (rule sureI)
  fix p r q assume p: "typed N D S p" and run: "dramM i m p = (r, q)"
  obtain d where d: "m (tp_dram_pools p ! i) = (r, d)" "q = p\<lparr>tp_dram_pools := (tp_dram_pools p)[i := d]\<rparr>"
    using run assms(1) typed_lengths(6) [OF p] by (auto simp: dramM_def split: prod.splits)
  with assms(2) [of "tp_dram_pools p ! i"] p typed_lengths(6) [OF p]
  show "typed N D S q \<and> r \<noteq> Panic \<and> (\<forall>x. r = Ok x \<longrightarrow> True)" by (simp add: typed_pools(1))
qed

lemma sure_spillM [sure_intros]:
  assumes "\<And>s. fst (m s) \<noteq> Panic" shows "sound_op (typed N D S) (spillM e m)"
proof (rule sureI)
  fix p r q assume p: "typed N D S p" and run: "spillM e m p = (r, q)"
  show "typed N D S q \<and> r \<noteq> Panic \<and> (\<forall>x. r = Ok x \<longrightarrow> True)"
  proof (cases "tp_spill p")
    case (Some s)
    then obtain s' where s': "m s = (r, s')" "q = p\<lparr>tp_spill := Some s'\<rparr>"
      using run by (auto simp: spillM_def split: prod.splits)
    with assms [of s] p show ?thesis by simp
  qed (use run p in \<open>auto simp: spillM_def\<close>)
qed

lemma ring_submit_no_panic: "fst (ring_submit d r) \<noteq> Panic"
  by (simp add: ring_submit_def Let_def)

lemma ring_at_typed:
  assumes "ring_at g (ring_submit d) e = (r, e')" "g < length (de_rings e)"
  shows "r \<noteq> Panic \<and> length (de_rings e') = length (de_rings e) \<and> de_num_gpus e' = de_num_gpus e"
  using assms ring_submit_no_panic by (auto simp: ring_at_run)

lemma sure_submit [sure_intros]:
  "sound_op (typed N D S) (dmaM (submit_dram_to_vram g src dst n prio))"
  "sound_op (typed N D S) (dmaM (submit_vram_to_dram g src dst n prio))"
proof -
  have go: "sound_op (typed N D S) (dmaM m)" if m: "\<And>e r e'. length (de_rings e) = de_num_gpus e \<Longrightarrow> m e = (r, e') \<Longrightarrow>
      r \<noteq> Panic \<and> length (de_rings e') = length (de_rings e) \<and> de_num_gpus e' = de_num_gpus e" for m :: "(dma_engine, 32 word) op"
  proof (rule sureI)
    fix p r q assume p: "typed N D S p" and run: "dmaM m p = (r, q)"
    obtain e' where e: "m (tp_dma p) = (r, e')" "q = p\<lparr>tp_dma := e'\<rparr>" using run by (auto simp: dmaM_def split: prod.splits)
    from m [OF _ e(1)] typed_lengths(8,9) [OF p] typed_pools(3) [OF p, of e']
    show "typed N D S q \<and> r \<noteq> Panic \<and> (\<forall>x. r = Ok x \<longrightarrow> True)" by (simp add: e(2))
  qed
  show "sound_op (typed N D S) (dmaM (submit_dram_to_vram g src dst n prio))"
    by (rule go) (auto simp: submit_dram_to_vram_def dest: ring_at_typed split: if_splits)
  show "sound_op (typed N D S) (dmaM (submit_vram_to_dram g src dst n prio))"
    by (rule go) (auto simp: submit_vram_to_dram_def dest: ring_at_typed split: if_splits)
qed


text \<open>Finding a page: afterwards it is known to be in the table.\<close>

lemma sure_lookup:
  assumes "\<And>pg. pg_element_size pg \<noteq> 0 \<Longrightarrow> pg_size_bytes pg < W64 \<Longrightarrow> sure (typed N (insert n D) S) (f pg) Q"
  shows "sure (typed N D S) (bindM (lookupM n) f) Q"
proof (rule sureI)
  fix p r q assume p: "typed N D S p" and run: "bindM (lookupM n) f p = (r, q)"
  show "typed N D S q \<and> r \<noteq> Panic \<and> (\<forall>x. r = Ok x \<longrightarrow> Q x)"
  proof (cases "vmt_lookup (tp_vmt p) n")
    case (Some pg)
    then have "typed N (insert n D) S p" "pg_element_size pg \<noteq> 0" "pg_size_bytes pg < W64" "f pg p = (r, q)"
      using p run by (auto simp: typed_def bindM_def lookupM_run)
    with sureD [OF assms] have "typed N (insert n D) S q \<and> r \<noteq> Panic \<and> (\<forall>x. r = Ok x \<longrightarrow> Q x)" by blast
    then show ?thesis using typed_less [of N "insert n D" S q D S] by blast
  qed (use p run in \<open>auto simp: bindM_def lookupM_run\<close>)
qed

lemma sure_modify [sure_intros]:
  assumes "n \<in> D" and "\<And>pg. pg_element_size (f pg) = pg_element_size pg" "\<And>pg. pg_size_bytes (f pg) = pg_size_bytes pg"
  shows "sound_op (typed N D S) (modify_page n f)"
proof (rule sureI)
  fix p r q assume p: "typed N D S p" and run: "modify_page n f p = (r, q)"
  then obtain pg where pg: "vmt_lookup (tp_vmt p) n = Some pg" using assms(1) by (auto simp: typed_def)
  with run have q: "r = Ok ()" "q = p\<lparr>tp_vmt := vmt_modify n f (tp_vmt p)\<rparr>" by (simp_all add: modify_page_run)
  have "pg_element_size x \<noteq> 0 \<and> pg_size_bytes x < W64" if "vmt_lookup (vmt_modify n f (tp_vmt p)) m = Some x" for m x
    using that p assms(2,3) by (auto simp: typed_def split: if_splits)
  then have "typed N D S q" using p pg unfolding q typed_def by (auto split: if_splits)
  then show "typed N D S q \<and> r \<noteq> Panic \<and> (\<forall>x. r = Ok x \<longrightarrow> True)" by (simp add: q)
qed

lemma sure_unwrap_vec:
  assumes "\<And>p. typed N D S p \<Longrightarrow> g < length (f p)"
  shows "sound_op (typed N D S) (\<lambda>p. unwrapM (vec_get (f p) g) p)"
  using assms by (intro sureI) (auto simp: unwrapM_def vec_get_def run_simps)

lemma sure_streams [sure_intros]:
  assumes "g < N"
  shows "sound_op (typed N D S) (compute_stream g)" "sound_op (typed N D S) (prefetch_stream g)"
    "sound_op (typed N D S) (\<lambda>p. unwrapM (vec_get (gc_ordinals (tp_cluster p)) g) p)"
    "sound_op (typed N D S) (sync_compute pf g)"
proof -
  have c: "compute_stream g = (\<lambda>p :: 'w tiered_pool. unwrapM (vec_get (st_compute (tp_streams p)) g) p)"
    and f: "prefetch_stream g = (\<lambda>p :: 'w tiered_pool. unwrapM (vec_get (st_prefetch (tp_streams p)) g) p)"
    by (simp_all add: compute_stream_def prefetch_stream_def fun_eq_iff)
  show compute: "sound_op (typed N D S) (compute_stream g)"
    unfolding c by (rule sure_unwrap_vec) (simp add: typed_lengths(3) assms)
  show "sound_op (typed N D S) (prefetch_stream g)"
    unfolding f by (rule sure_unwrap_vec) (simp add: typed_lengths(4) assms)
  show "sound_op (typed N D S) (\<lambda>p. unwrapM (vec_get (gc_ordinals (tp_cluster p)) g) p)"
    by (rule sure_unwrap_vec) (simp add: typed_lengths(2) assms)
  show "sound_op (typed N D S) (sync_compute pf g)"
    unfolding sync_compute_def by (intro sure_intros compute) (simp add: stream_synchronize_def cu_no_panic)
qed

lemma sure_contexts [sure_intros]:
  "sound_op (typed N D S) (set_context pf g)" "sound_op (typed N D S) (raw_context g)"
proof -
  show "sound_op (typed N D S) (set_context pf g)"
  proof (rule sureI)
    fix p r q assume p: "typed N D S p" and run: "set_context pf g p = (r, q)"
    have "fst (registry_bind pf (tp_contexts p) g w) \<noteq> Panic" for w
      unfolding registry_bind_def
      by (intro bindM_no_panic) (auto simp: registry_get_def ok_or_def run_simps pc_bind_def cu_no_panic split: option.splits)
    with p run sureD [OF sure_worldM [of "registry_bind pf (tp_contexts p) g"]]
    show "typed N D S q \<and> r \<noteq> Panic \<and> (\<forall>x. r = Ok x \<longrightarrow> True)" by (simp add: set_context_def)
  qed
  show "sound_op (typed N D S) (raw_context g)"
    by (rule sureI) (auto simp: raw_context_def registry_get_def ok_or_def bindM_def run_simps split: option.splits)
qed

lemma sure_alloc_vram: "sure (typed N D S) (alloc_vram_on_gpu pf g n) (\<lambda>_. g < N)"
proof (rule sureI)
  fix p r q assume p: "typed N D S p" and run: "alloc_vram_on_gpu pf g n p = (r, q)"
  have alloc: "sound_op (typed N D S) (bindM (set_context pf g) (\<lambda>_. worldM (cu_get ''cuMemAlloc_v2'' (pf_mem_alloc pf n))))"
    by (intro sure_intros cu_no_panic)
  show "typed N D S q \<and> r \<noteq> Panic \<and> (\<forall>x. r = Ok x \<longrightarrow> g < N)"
  proof (cases "g < N")
    case True
    then have some: "vec_get (tp_vram_free p) g = Some (tp_vram_free p ! g)" using typed_lengths(7) [OF p] by (simp add: vec_get_def)
    show ?thesis
    proof (cases "position (\<lambda>(sz, _). sz = n) (tp_vram_free p ! g)")
      case None
      with some run have "bindM (set_context pf g) (\<lambda>_. worldM (cu_get ''cuMemAlloc_v2'' (pf_mem_alloc pf n))) p = (r, q)"
        by (simp add: alloc_vram_on_gpu_def)
      from sureD [OF alloc p this] True show ?thesis by blast
    next
      case (Some i)
      with some run True p typed_lengths(7) [OF p] show ?thesis by (auto simp: alloc_vram_on_gpu_def typed_pools(2))
    qed
  next
    case False
    then have "vec_get (tp_vram_free p) g = None" using typed_lengths(7) [OF p] by (simp add: vec_get_def)
    with run p show ?thesis by (auto simp: alloc_vram_on_gpu_def)
  qed
qed

lemma sure_free_vram [sure_intros]: "sound_op (typed N D S) (free_vram_on_gpu g x n)"
proof (rule sureI)
  fix p r q assume p: "typed N D S p" and run: "free_vram_on_gpu g x n p = (r, q)"
  with typed_lengths(7) [OF p] show "typed N D S q \<and> r \<noteq> Panic \<and> (\<forall>x. r = Ok x \<longrightarrow> True)"
    by (auto simp: free_vram_on_gpu_def typed_pools(2) split: if_splits option.splits)
qed

lemma sure_install [sure_intros]:
  assumes "n \<in> D" "g < N" shows "sound_op (typed N D S) (install_chunk n g x b)"
proof (rule sureI)
  fix p r q assume p: "typed N D S p" and run: "install_chunk n g x b p = (r, q)"
  obtain pg where pg: "vmt_lookup (tp_vmt p) n = Some pg" "pg_element_size pg \<noteq> 0" using p assms(1) by (auto simp: typed_def)
  let ?f = "\<lambda>x'. x'\<lparr>pg_vram_chunks := pg_vram_chunks x' @ [\<lparr>ck_gpu_ordinal = gc_ordinals (tp_cluster p) ! g, ck_device_ptr = x,
      ck_size_bytes = b, ck_num_elements = b div pg_element_size pg\<rparr>], pg_tier := Vram, pg_state := Resident\<rparr>"
  have "vec_get (gc_ordinals (tp_cluster p)) g = Some (gc_ordinals (tp_cluster p) ! g)"
    using typed_lengths(2) [OF p] assms(2) by (simp add: vec_get_def)
  then have "modify_page n ?f p = (r, q)" using run pg by (simp add: install_chunk_def bindM_def unwrapM_def run_simps)
  moreover have "sound_op (typed N D S) (modify_page n ?f)" by (rule sure_modify [OF assms(1)]) simp_all
  ultimately show "typed N D S q \<and> r \<noteq> Panic \<and> (\<forall>x. r = Ok x \<longrightarrow> True)" using p by (intro sureD)
qed

lemma sure_touch [sure_intros]: "n \<in> D \<Longrightarrow> sound_op (typed N D S) (touchM n now)"
  unfolding touchM_def by (rule sure_modify) (simp_all add: page_touch_def)

lemma typed_drop_event [simp]: "typed N D S (drop_event pf e p) = typed N D S p"
  by (simp add: drop_event_def)


section \<open>Promotion and demotion\<close>

lemma sure_access_vram [sure_intros]:
  assumes "n \<in> D" "g < N"
  shows "sound_op (typed N D S) (access_vram pf n g now here elsewhere)"
proof -
  have peer: "sound_op (typed N D S) (access_peer pf n g now c)" for c
    unfolding access_peer_def [abs_def] Let_def
    by (rule sure_at) (intro sure_intros sure_weaken [OF sure_alloc_vram] cu_no_panic assms TrueI)
  show ?thesis
    unfolding access_vram_def using assms
    by (cases here) (auto intro!: sure_intros peer)
qed

lemma sure_access_dram [sure_intros]:
  assumes "n \<in> D" "g < N"
  shows "sound_op (typed N D S) (access_dram pf n g now shard)"
  unfolding access_dram_def Let_def
  by (intro sure_intros sure_weaken [OF sure_alloc_vram] assms TrueI)


lemma sure_stage_alloc:
  assumes "g < N" shows "sure (typed N D S) (stage_alloc g want) (\<lambda>(ptr, n). 0 < n \<or> want = 0)"
proof (rule sureI)
  fix p r q assume "typed N D S p" "stage_alloc g want p = (r, q)"
  with assms show "typed N D S q \<and> r \<noteq> Panic \<and> (\<forall>x. r = Ok x \<longrightarrow> (case x of (ptr, n) \<Rightarrow> 0 < n \<or> want = 0))"
  proof (induction g want p rule: stage_alloc.induct)
    case (1 g want p)
    obtain r1 p1 where first: "dramM g (\<lambda>d. dp_allocate d want) p = (r1, p1)" by force
    have "sound_op (typed N D S) (dramM g (\<lambda>d. dp_allocate d want))"
      by (rule sure_dramM [OF "1.prems"(1) dp_allocate_never_panics])
    from sureD [OF this "1.prems"(2) first] have step: "typed N D S p1" "r1 \<noteq> Panic" by simp_all
    show ?case
    proof (cases "\<exists>e. r1 = Err e \<and> \<not> want \<le> 2 ^ 20")
      case True
      then obtain e where e: "r1 = Err e" "\<not> want \<le> 2 ^ 20" by blast
      then have "stage_alloc g (want div 2) p1 = (r, q)" using "1.prems"(3) first by (simp add: stage_alloc.simps [of g want])
      then show ?thesis using "1.IH" [OF first [symmetric] e] "1.prems"(1) e(2) step(1) by auto
    next
      case False
      with "1.prems"(3) first step show ?thesis
        by (cases r1) (auto simp: stage_alloc.simps [of g want] split: if_splits)
    qed
  qed
qed

lemma sure_stage_chunk [sure_intros]: "sound_op (typed N D True) (stage_chunk pf off stage dst pos this)"
proof -
  have "sound_op (typed N D True) (\<lambda>p. case tp_spill p of
              None \<Rightarrow> (Panic, p)
            | Some s \<Rightarrow> (case pf_io pf (tp_world p) of
                   (io, w) \<Rightarrow> (case spill_read_into io s (uadd off pos) stage this (tp_host p) of
                        (r, host) \<Rightarrow> (r, p\<lparr>tp_world := w, tp_host := host\<rparr>))))"
  proof (rule sureI)
    fix p and r :: "unit outcome" and q
    assume p: "typed N D True p" and run: "(case tp_spill p of
              None \<Rightarrow> (Panic, p)
            | Some s \<Rightarrow> (case pf_io pf (tp_world p) of
                   (io, w) \<Rightarrow> (case spill_read_into io s (uadd off pos) stage this (tp_host p) of
                        (r, host) \<Rightarrow> (r, p\<lparr>tp_world := w, tp_host := host\<rparr>)))) = (r, q)"
    obtain s where "tp_spill p = Some s" using p by (auto simp: typed_def)
    with run p show "typed N D True q \<and> r \<noteq> Panic \<and> (\<forall>x. r = Ok x \<longrightarrow> True)"
      by (auto simp: spill_read_into_def split: prod.splits option.splits)
  qed
  then show ?thesis unfolding stage_chunk_def by (intro sure_intros cu_no_panic)
qed

lemma stage_loop_sure:
  assumes "typed N D True p" "stage_loop fuel pf off stage len dst bytes pos p = Some (r, q)"
  shows "typed N D True q \<and> r \<noteq> Panic"
  using assms
proof (induction fuel arbitrary: pos p)
  case 0
  then show ?case by (auto simp: stage_loop.simps [of 0] split: if_splits)
next
  case (Suc fuel)
  obtain r1 p1 where run: "stage_chunk pf off stage dst pos (min len (bytes - pos)) p = (r1, p1)" by force
  note step = sureD [OF sure_stage_chunk Suc.prems(1) run]
  show ?case
  proof (cases "pos < bytes")
    case True
    with Suc.prems(2) run have "case r1 of
        Ok _ \<Rightarrow> stage_loop fuel pf off stage len dst bytes (uadd pos (min len (bytes - pos))) p1 = Some (r, q)
      | Err e \<Rightarrow> (r, q) = (Err e, p1) | Panic \<Rightarrow> (r, q) = (Panic, p1)"
      by (auto simp: stage_loop.simps [of "Suc fuel"] Let_def split: outcome.splits)
    with Suc.IH [of p1] step show ?thesis by (cases r1) auto
  next
    case False
    with Suc.prems(2) have "r = Ok ()" "q = p" by (simp_all add: stage_loop.simps [of "Suc fuel"])
    with Suc.prems(1) show ?thesis by simp
  qed
qed

lemma sure_stage_copy:
  assumes "0 < len \<or> bytes = 0" "bytes < W64"
  shows "sound_op (typed N D S) (stage_copy pf n g off stage len dst bytes)"
proof -
  have loop: "sound_op (typed N D True) (\<lambda>p. case stage_loop bytes pf off stage len dst bytes 0 p of
         None \<Rightarrow> (Panic, p) | Some result \<Rightarrow> result)"
  proof (rule sureI)
    fix p r q assume p: "typed N D True p" and run: "(case stage_loop bytes pf off stage len dst bytes 0 p of
         None \<Rightarrow> (Panic, p) | Some result \<Rightarrow> result) = (r, q)"
    have "\<exists>res. stage_loop bytes pf off stage len dst bytes 0 p = Some res"
    proof (cases "bytes = 0")
      case True
      then show ?thesis by (simp add: stage_loop.simps)
    next
      case False
      then have "bytes - 0 \<le> bytes * len" using assms(1) by simp
      with False assms stage_loop_enough [of len bytes 0 bytes] show ?thesis by blast
    qed
    then have "stage_loop bytes pf off stage len dst bytes 0 p = Some (r, q)" using run by auto
    with stage_loop_sure [OF p] show "typed N D True q \<and> r \<noteq> Panic \<and> (\<forall>x. r = Ok x \<longrightarrow> True)" by blast
  qed
  have rest: "sound_op (typed N D True) (bindM (set_context pf g) (\<lambda>_ p.
       case stage_loop bytes pf off stage len dst bytes 0 p of None \<Rightarrow> (Panic, p) | Some result \<Rightarrow> result))"
    by (intro sure_then sure_contexts loop)
  show ?thesis
  proof (rule sureI)
    fix p r q assume p: "typed N D S p" and run: "stage_copy pf n g off stage len dst bytes p = (r, q)"
    show "typed N D S q \<and> r \<noteq> Panic \<and> (\<forall>x. r = Ok x \<longrightarrow> True)"
    proof (cases "tp_spill p")
      case None
      with run p show ?thesis by (auto simp: stage_copy_def spillM_def bindM_def)
    next
      case (Some s)
      then have same: "p\<lparr>tp_spill := Some s\<rparr> = p" and "typed N D True p" using p by (simp_all add: typed_def)
      moreover from run have "bindM (set_context pf g) (\<lambda>_ p.
       case stage_loop bytes pf off stage len dst bytes 0 p of None \<Rightarrow> (Panic, p) | Some result \<Rightarrow> result) p = (r, q)"
        by (simp add: stage_copy_def spillM_def bindM_def Some same)
      ultimately have "typed N D True q \<and> r \<noteq> Panic" using sureD [OF rest] by blast
      then show ?thesis using typed_less [of N D True q D S] by blast
    qed
  qed
qed


lemma sure_access_ssd [sure_intros]:
  assumes n: "n \<in> D" and g: "g < N" and size: "pg_size_bytes pg < W64"
  shows "sound_op (typed N D S) (access_ssd pf n g now pg shard)"
proof -
  let ?bytes = "pg_size_bytes pg"
  have scratch: "sure (typed N D S) (bindM (catchM (stage_alloc g ?bytes)) (\<lambda>res. case res of
        Inr (ptr, want) \<Rightarrow> retM (ptr, want, True)
      | Inl e \<Rightarrow> bindM (ignoreM (free_vram_on_gpu g x ?bytes)) (\<lambda>_. errM e)))
      (\<lambda>(ptr, len, b). 0 < len \<or> ?bytes = 0)" for x
    by (rule sure_bindM [OF sure_catchM [OF sure_stage_alloc [OF g]]])
      (auto split: sum.splits intro!: sure_retM sure_then sure_pure sure_ignoreM sure_free_vram)
  have stage: "sure (typed N D S) (case shard of
               Some c \<Rightarrow>
                 (if ?bytes \<le> dc_size_bytes c then retM (dc_host_ptr c, ?bytes, False)
                  else bindM (catchM (stage_alloc g ?bytes)) (\<lambda>res. case res of
                      Inr (ptr, want) \<Rightarrow> retM (ptr, want, True)
                    | Inl e \<Rightarrow> bindM (ignoreM (free_vram_on_gpu g x ?bytes)) (\<lambda>_. errM e)))
             | None \<Rightarrow>
                 bindM (catchM (stage_alloc g ?bytes)) (\<lambda>res. case res of
                      Inr (ptr, want) \<Rightarrow> retM (ptr, want, True)
                    | Inl e \<Rightarrow> bindM (ignoreM (free_vram_on_gpu g x ?bytes)) (\<lambda>_. errM e)))
      (\<lambda>(ptr, len, b). 0 < len \<or> ?bytes = 0)" for x
    using scratch [of x] by (cases shard) (auto intro: sure_retM)
  have free: "sound_op (typed N D S) (dram_freeM g ptr len)" for ptr len
    unfolding dram_freeM_def by (rule sure_dramM [OF g]) simp
  have finish: "sound_op (typed N D S) (case res of
      Inl e \<Rightarrow> bindM (ignoreM (free_vram_on_gpu g x ?bytes)) (\<lambda>_. errM e) | Inr (u :: unit) \<Rightarrow> retM ())" for res x
    by (cases res) (auto intro!: sure_intros)
  have rest: "sound_op (typed N D S) (bindM (catchM (stage_copy pf n g off ptr len x ?bytes)) (\<lambda>copy_res.
      bindM (if borrowed then dram_freeM g ptr len else retM ()) (\<lambda>_.
      bindM (case copy_res of Inl e \<Rightarrow> bindM (ignoreM (free_vram_on_gpu g x ?bytes)) (\<lambda>_. errM e)
             | Inr _ \<Rightarrow> retM ()) (\<lambda>_.
      bindM (touchM n now) (\<lambda>_. bindM (install_chunk n g x ?bytes) (\<lambda>_. retM x))))))"
    if "0 < len \<or> ?bytes = 0" for off ptr len borrowed x
    by (rule sure_bindM [OF sure_catchM [OF sure_stage_copy [OF that size]]])
      (intro sure_intros finish free n g)
  show ?thesis
    unfolding access_ssd_def Let_def
    by (rule sure_then, rule sure_pure, rule sure_bindM [OF sure_alloc_vram], rule sure_bindM [OF stage],
        rule sure_case3, rule rest, simp)
qed


lemma sure_claim:
  assumes "g < N" shows "sound_op (typed N D S) (claim_prefetch pf n g now)"
proof (rule sureI)
  fix p r q assume p: "typed N D S p" and run: "claim_prefetch pf n g now p = (r, q)"
  show "typed N D S q \<and> r \<noteq> Panic \<and> (\<forall>x. r = Ok x \<longrightarrow> True)"
  proof (cases "tp_inflight p n")
    case None
    with p run show ?thesis by (auto simp: claim_prefetch_def)
  next
    case (Some fl)
    obtain g' x b e where fl: "fl = (g', x, b, e)" by (cases fl)
    let ?p = "p\<lparr>tp_inflight := (tp_inflight p)(n := None)\<rparr>"
    have p': "typed N (insert n D) S ?p" using Some by (intro typed_flight(2) typed_know [OF p] typed_flight(1) [OF p]) simp
    let ?m = "finallyM (if g' \<noteq> g then bindM (ignoreM (free_vram_on_gpu g' x b)) (\<lambda>_. retM None)
        else bindM (worldM (event_synchronize pf e)) (\<lambda>_. bindM (install_chunk n g x b) (\<lambda>_.
          bindM (modify_page n (page_touch now)) (\<lambda>_. retM (Some x))))) (drop_event pf e)"
    have "sound_op (typed N (insert n D) S) ?m"
      by (intro sure_intros assms insertI1) (simp_all add: event_synchronize_def cu_no_panic page_touch_def)
    from sureD [OF this p'] have "typed N (insert n D) S q \<and> r \<noteq> Panic"
      using run Some fl by (simp add: claim_prefetch_def)
    then show ?thesis using typed_less [of N "insert n D" S q D S] by blast
  qed
qed

lemma sure_access [sure_intros]:
  assumes "g < N" shows "sound_op (typed N D S) (access pf n g)"
proof -
  have clock: "sound_op (typed N D S) (worldM (\<lambda>w. case pf_clock pf w of (now, w') \<Rightarrow> (Ok now, w')))"
    by (intro sure_intros) (simp split: prod.split)
  have tier: "sound_op (typed N (insert n D) S) (case pg_tier pg of
      Vram \<Rightarrow> access_vram pf n g now (chunk_here pg ord) (chunk_elsewhere pg ord)
    | Dram \<Rightarrow> access_dram pf n g now shard | Ssd \<Rightarrow> access_ssd pf n g now pg shard)"
    if "pg_size_bytes pg < W64" for pg now ord shard
    using that assms by (cases "pg_tier pg") (auto intro!: sure_intros)
  show ?thesis
    unfolding access_def Let_def
    apply (rule sure_then [OF clock])
    apply (rule sure_then [OF sure_modM], simp)
    apply (rule sure_then [OF sure_claim [OF assms]])
    subgoal for now u claimed
      by (cases claimed) (auto intro!: sure_intros sure_lookup tier assms)
    done
qed

lemma sure_start_prefetch:
  assumes n: "n \<in> D" shows "sound_op (typed N D S) (start_prefetch pf n g bytes host_ptr)"
proof -
  let ?body = "\<lambda>dst event. bindM (prefetch_stream g) (\<lambda>stream.
         bindM (getM (\<lambda>p. slice (tp_host p) host_ptr bytes)) (\<lambda>bs.
         bindM (\<lambda>p. case pf_htod_async pf dst bs (cs_inner stream) (tp_world p) of
                  (rc, w) \<Rightarrow> (Ok rc, p\<lparr>tp_world := w\<rparr>)) (\<lambda>rc.
         if rc \<noteq> 0 then
           bindM (ignoreM (free_vram_on_gpu g dst bytes)) (\<lambda>_.
             liftM (check_cu ''cuMemcpyHtoDAsync_v2'' rc))
         else worldM (event_record pf event stream))))"
  have copy: "sound_op (typed N D S) (\<lambda>p. case pf_htod_async pf dst bs s (tp_world p) of
                  (rc, w) \<Rightarrow> (Ok rc, p\<lparr>tp_world := w\<rparr>))" for dst bs s
    by (rule sureI) (auto split: prod.splits)
  have check: "sound_op (typed N D S) (liftM (check_cu name rc))" for name rc
    by (rule sureI) (auto simp: liftM_def check_cu_def split: if_splits)
  have body: "sound_op (typed N D S) (?body dst event)" if "g < N" for dst event
    by (intro sure_intros copy check that) (simp add: event_record_def cu_no_panic)
  have fly: "sound_op (typed N D S) (\<lambda>p. case ?body dst event p of
            (Ok _, q) \<Rightarrow> (Ok (), q\<lparr>tp_inflight := (tp_inflight q)(n \<mapsto> (g, dst, bytes, event))\<rparr>)
          | (Err e, q) \<Rightarrow> (Err e, drop_event pf event q)
          | (Panic, q) \<Rightarrow> (Panic, drop_event pf event q))" if "g < N" for dst event
  proof (rule sureI)
    fix p r q assume p: "typed N D S p" and run: "(case ?body dst event p of
            (Ok _, q) \<Rightarrow> (Ok (), q\<lparr>tp_inflight := (tp_inflight q)(n \<mapsto> (g, dst, bytes, event))\<rparr>)
          | (Err e, q) \<Rightarrow> (Err e, drop_event pf event q)
          | (Panic, q) \<Rightarrow> (Panic, drop_event pf event q)) = (r, q)"
    obtain r1 p1 where b: "?body dst event p = (r1, p1)" by force
    note step = sureD [OF body [OF that] p b]
    show "typed N D S q \<and> r \<noteq> Panic \<and> (\<forall>x. r = Ok x \<longrightarrow> True)"
      using step typed_flight(3) [of N D S p1 n, OF _ n] run unfolding b by (cases r1) auto
  qed
  have event: "sound_op (typed N D S) (worldM (event_new_blocking pf))"
    by (intro sure_intros, unfold event_new_blocking_def, intro bindM_no_panic cu_no_panic) (simp add: retM_run)
  show ?thesis
    unfolding start_prefetch_def Let_def
    by (rule sure_bindM [OF sure_alloc_vram], rule sure_then, rule sure_contexts, rule sure_then, rule event, rule fly)
qed

lemma sure_prefetch [sure_intros]: "sound_op (typed N D S) (prefetch pf n g)"
proof (rule sureI)
  fix p r q assume p: "typed N D S p" and run: "prefetch pf n g p = (r, q)"
  show "typed N D S q \<and> r \<noteq> Panic \<and> (\<forall>x. r = Ok x \<longrightarrow> True)"
  proof (cases "\<exists>pg c. tp_inflight p n = None \<and> vmt_lookup (tp_vmt p) n = Some pg \<and> pg_tier pg = Dram
      \<and> vec_get (pg_dram_chunks pg) 0 = Some c")
    case True
    then obtain pg c where page: "tp_inflight p n = None" "vmt_lookup (tp_vmt p) n = Some pg" "pg_tier pg = Dram"
      "vec_get (pg_dram_chunks pg) 0 = Some c" by blast
    with run have start: "start_prefetch pf n g (pg_size_bytes pg) (dc_host_ptr c) p = (r, q)" by (simp add: prefetch_def)
    have p': "typed N (insert n D) S p" using page(2) by (intro typed_know [OF p]) simp
    have "sound_op (typed N (insert n D) S) (start_prefetch pf n g (pg_size_bytes pg) (dc_host_ptr c))"
      by (rule sure_start_prefetch) simp
    from sureD [OF this p' start] typed_less [of N "insert n D" S q D S] show ?thesis by blast
  next
    case False
    with run p show ?thesis by (auto simp: prefetch_def split: option.splits if_splits)
  qed
qed


lemma sure_demote [sure_intros]: "sound_op (typed N D S) (demote pf n)"
proof -
  have copy: "sound_op (typed N D S) (copy_to_host pf g dst src b)" if "g < N" for D g dst src b
    unfolding copy_to_host_def
    by (intro sure_then sure_streams that) (rule sureI, auto simp: check_cu_def split: prod.splits if_splits)
  have pool: "sound_op (typed N D S) (unwrapM (vec_get (tp_dram_pools p) g))" if "typed N E T p" "g < N" for D E T p g
    using that typed_lengths(6) [OF that(1)] by (intro sureI) (auto simp: vec_get_def run_simps)
  have chunk: "sound_op (typed N D S) (demote_chunk pf n dram c)" for D dram c
    unfolding demote_chunk_def [abs_def]
    by (rule sure_at, rule sure_bindM [OF sure_ok_or], erule (1) typed_lengths(10)) (intro sure_intros copy pool, assumption+)
  show ?thesis
    unfolding demote_def by (intro sure_lookup sure_intros chunk insertI1) simp_all
qed


section \<open>The other operations\<close>

lemma sure_write_page [sure_intros]: "sound_op (typed N D S) (write_page pf n data)"
proof -
  have io: "sound_op (typed N E S) (\<lambda>p. case pf_io pf (tp_world p) of (io, w) \<Rightarrow> (Ok io, p\<lparr>tp_world := w\<rparr>))" for E
    by (rule sureI) (auto split: prod.splits)
  have spill: "fst (spill_write_at io mem src b off s) \<noteq> Panic" for io mem src b off s
    by (simp add: spill_write_at_def split: prod.split option.split)
  have copy: "sound_op (typed N E S) (\<lambda>p. case copy_shards cs data 0 (tp_host p) of (written, host) \<Rightarrow>
            ((if written = length data then Ok () else Err (Io InvalidData)), p\<lparr>tp_host := host\<rparr>))" for E cs
    by (rule sureI) (auto split: prod.splits if_splits)
  show ?thesis
    unfolding write_page_def by (intro sure_lookup sure_intros io spill copy) simp
qed

lemma sure_allocate:
  assumes es: "es \<noteq> 0" shows "sound_op (typed N {} S) (tiered_allocate n shape es t)"
proof (rule sureI)
  fix p r q assume p: "typed N {} S p" and run: "tiered_allocate n shape es t p = (r, q)"
  let ?n = "alloc_name n (tp_vmt p)"
  let ?p = "p\<lparr>tp_vmt := filed n (fresh_page ?n shape es) ?n (tp_vmt p)\<rparr>"
  have p': "typed N {?n} S ?p"
    using p es by (auto simp: typed_def fresh_page_def page_new_def)
  let ?bytes = "umul (uproduct shape) es"
  have shard: "sound_op (typed N {?n} S) (add_shard ?n ?bytes k i)" if "i < N" for i k
    unfolding add_shard_def Let_def
    by (intro sure_intros that dp_allocate_never_panics) simp_all
  have rest: "sound_op (typed N {?n} S) (if t = Ssd then
        bindM (spillM (UnknownAllocation (no_spill_message ?n)) (spill_reserve ?bytes)) (\<lambda>offset.
        bindM (modify_page ?n (\<lambda>pg. pg\<lparr>pg_tier := Ssd, pg_state := Cold, pg_ssd_offset := Some offset\<rparr>)) (\<lambda>_. retM ?n))
      else
        bindM (getM (\<lambda>p. length (tp_dram_pools p))) (\<lambda>num_pools.
        bindM (modify_page ?n (\<lambda>pg. pg\<lparr>pg_tier := t\<rparr>)) (\<lambda>_.
        bindM (if num_pools = 0 then panicM else retM ()) (\<lambda>_.
        bindM (forM [0 ..< num_pools] (add_shard ?n ?bytes num_pools)) (\<lambda>_.
        bindM (modify_page ?n (\<lambda>pg. pg\<lparr>pg_state := tier_state t\<rparr>)) (\<lambda>_. retM ?n))))))"
  proof (rule sure_if)
    have "fst (spill_reserve ?bytes s) \<noteq> Panic" for s
      using ra_allocate_never_panics [of "sf_alloc s" ?bytes] by (simp add: spill_reserve_def case_prod_beta)
    then show "sound_op (typed N {?n} S) (bindM (spillM (UnknownAllocation (no_spill_message ?n)) (spill_reserve ?bytes)) (\<lambda>offset.
        bindM (modify_page ?n (\<lambda>pg. pg\<lparr>pg_tier := Ssd, pg_state := Cold, pg_ssd_offset := Some offset\<rparr>)) (\<lambda>_. retM ?n)))"
      by (intro sure_intros) simp_all
    have "sure (typed N {?n} S) (getM (\<lambda>p. length (tp_dram_pools p))) (\<lambda>k. k = N)"
      by (rule sure_getM) (rule typed_lengths(6))
    then show "sound_op (typed N {?n} S) (bindM (getM (\<lambda>p. length (tp_dram_pools p))) (\<lambda>num_pools.
        bindM (modify_page ?n (\<lambda>pg. pg\<lparr>pg_tier := t\<rparr>)) (\<lambda>_.
        bindM (if num_pools = 0 then panicM else retM ()) (\<lambda>_.
        bindM (forM [0 ..< num_pools] (add_shard ?n ?bytes num_pools)) (\<lambda>_.
        bindM (modify_page ?n (\<lambda>pg. pg\<lparr>pg_state := tier_state t\<rparr>)) (\<lambda>_. retM ?n))))))"
      by (rule sure_bindM) (use typed_lengths(1) [OF p] in \<open>auto intro!: sure_intros shard\<close>)
  qed
  have "tiered_allocate n shape es t p = (if t = Ssd then
        bindM (spillM (UnknownAllocation (no_spill_message ?n)) (spill_reserve ?bytes)) (\<lambda>offset.
        bindM (modify_page ?n (\<lambda>pg. pg\<lparr>pg_tier := Ssd, pg_state := Cold, pg_ssd_offset := Some offset\<rparr>)) (\<lambda>_. retM ?n))
      else
        bindM (getM (\<lambda>p. length (tp_dram_pools p))) (\<lambda>num_pools.
        bindM (modify_page ?n (\<lambda>pg. pg\<lparr>pg_tier := t\<rparr>)) (\<lambda>_.
        bindM (if num_pools = 0 then panicM else retM ()) (\<lambda>_.
        bindM (forM [0 ..< num_pools] (add_shard ?n ?bytes num_pools)) (\<lambda>_.
        bindM (modify_page ?n (\<lambda>pg. pg\<lparr>pg_state := tier_state t\<rparr>)) (\<lambda>_. retM ?n)))))) ?p" (is "_ = ?m ?p")
    unfolding tiered_allocate_def Let_def by (rule trans [OF bindM_run(1)]) (rule vmtM_allocate, rule refl)
  then have "?m ?p = (r, q)" using run by simp
  with rest p' have "typed N {?n} S q \<and> r \<noteq> Panic \<and> (\<forall>x. r = Ok x \<longrightarrow> True)" by (rule sureD)
  then show "typed N {} S q \<and> r \<noteq> Panic \<and> (\<forall>x. r = Ok x \<longrightarrow> True)"
    using typed_less [of N "{?n}" S q "{}" S] by blast
qed

lemma deallocate_sure:
  assumes p: "typed N {} S p" and quiet: "tp_inflight p n = None" and run: "deallocate n p = (r, q)"
  shows "typed N {} S q \<and> r \<noteq> Panic"
proof (cases "vmt_lookup (tp_vmt p) n")
  case None
  with p run show ?thesis by (auto simp: deallocate_def bindM_def lookupM_run)
next
  case (Some pg)
  obtain r1 p1 where loop: "forM (pg_vram_chunks pg) free_page_vram p = (r1, p1)" by force
  have free: "sound_op (typed N {} S) (free_page_vram c)" for c
  proof (rule sureI)
    fix p r q assume p: "typed N {} S p" and run: "free_page_vram c p = (r, q)"
    show "typed N {} S q \<and> r \<noteq> Panic \<and> (\<forall>x. r = Ok x \<longrightarrow> True)"
    proof (cases "index_of (tp_cluster p) (ck_gpu_ordinal c)")
      case (Some g)
      then have "free_vram_on_gpu g (ck_device_ptr c) (ck_size_bytes c) p = (r, q)" using run by (simp add: free_page_vram_def)
      with sureD [OF sure_free_vram p] show ?thesis by blast
    qed (use p run in \<open>auto simp: free_page_vram_def\<close>)
  qed
  have p1: "typed N {} S p1 \<and> r1 \<noteq> Panic" using sureD [OF sure_forM [OF free] p loop] by blast
  have frame: "p1 = p\<lparr>tp_vram_free := tp_vram_free p1\<rparr>" using forM_free_page_vram [of "pg_vram_chunks pg" p] loop by simp
  have quiet1: "tp_inflight p1 n = None" by (subst frame) (simp add: quiet)
  have pools: "length (offer_to_pools cs ds) = length ds" for cs ds
    unfolding offer_to_pools_def by (induction cs arbitrary: ds) simp_all
  let ?q = "p1\<lparr>tp_dram_pools := offer_to_pools (pg_dram_chunks pg) (tp_dram_pools p1), tp_vmt := snd (vmt_remove n (tp_vmt p1))\<rparr>"
  have look: "vmt_lookup (snd (vmt_remove n v)) m = (if m = n then None else vmt_lookup v m)" for m v
    by (simp add: vmt_remove_def vmt_lookup_def)
  have "typed N {} S ?q"
    using p1 quiet1 unfolding typed_def by (auto simp: pools look split: if_splits)
  then show ?thesis
    using run Some loop p1 by (cases r1) (auto simp: deallocate_def bindM_def lookupM_run modM_run)
qed

lemma sure_attach_spill: "sound_op (typed N {} S) (attach_spill pf path cap unlink)"
proof (rule sureI)
  fix p r q assume p: "typed N {} S p" and run: "attach_spill pf path cap unlink p = (r, q)"
  then show "typed N {} S q \<and> r \<noteq> Panic \<and> (\<forall>x. r = Ok x \<longrightarrow> True)"
    by (auto simp: attach_spill_def spill_create_def split: prod.splits option.splits)
qed

lemma sure_sweep: "sound_op (typed N {} S) (background_sweep pf fl order)"
proof (rule sureI)
  fix p r q assume p: "typed N {} S p" and run: "background_sweep pf fl order p = (r, q)"
  have N: "0 < N" by (rule typed_lengths(1) [OF p])
  have evict: "sound_op (typed N {} S) (sweep_evict pf n)" for n
    unfolding sweep_evict_def by (intro sure_intros)
  have keep: "sound_op (typed N {} S) (sweep_keep pf n)" for n
    unfolding sweep_keep_def by (intro sure_intros N)
  have promote: "sound_op (typed N {} S) (bindM (access pf n 0) (\<lambda>_. retM ()))" for n
    by (intro sure_intros N)
  show "typed N {} S q \<and> r \<noteq> Panic \<and> (\<forall>x. r = Ok x \<longrightarrow> True)"
  proof (cases "tp_membrane_budget p")
    case (Some budget)
    let ?p = "p\<lparr>tp_membrane := decay fl (tp_membrane p)\<rparr>"
    obtain kept ev where plan: "plan fl (tp_policy ?p) (sweep_candidates order ?p) budget = (kept, ev)" by force
    have "bindM (forM ev (sweep_evict pf)) (\<lambda>_. forM kept (sweep_keep pf)) ?p = (r, q)"
      using run Some plan by (simp add: background_sweep_def membrane_sweep_def Let_def)
    moreover have "sound_op (typed N {} S) (bindM (forM ev (sweep_evict pf)) (\<lambda>_. forM kept (sweep_keep pf)))"
      by (intro sure_intros evict keep)
    moreover have "typed N {} S ?p" using p by simp
    ultimately show ?thesis by (intro sureD)
  next
    case None
    obtain now w where c: "pf_clock pf (tp_world p) = (now, w)" by force
    let ?p = "p\<lparr>tp_world := w\<rparr>"
    have "bindM (forM (sweep_demotes order now ?p) (demote pf)) (\<lambda>_.
             forM (sweep_promotes order ?p) (\<lambda>n. bindM (access pf n 0) (\<lambda>_. retM ()))) ?p = (r, q)"
      using run None c by (simp add: background_sweep_def Let_def)
    moreover have "sound_op (typed N {} S) (bindM (forM (sweep_demotes order now ?p) (demote pf)) (\<lambda>_.
             forM (sweep_promotes order ?p) (\<lambda>n. bindM (access pf n 0) (\<lambda>_. retM ()))))"
      by (intro sure_then sure_forM sure_demote promote)
    moreover have "typed N {} S ?p" using p by simp
    ultimately show ?thesis by (intro sureD)
  qed
qed


section \<open>A new pool\<close>

lemma mapM_length: "mapM f xs s = (Ok ys, t) \<Longrightarrow> length ys = length xs"
proof (induction xs arbitrary: ys s)
  case (Cons x xs)
  then obtain y u zs where "mapM f xs u = (Ok zs, t)" "ys = y # zs"
    by (auto simp: bindM_Ok_iff retM_def)
  with Cons.IH show ?case by simp
qed (simp add: retM_def)

lemma pool_gpu_lengths:
  assumes "pool_gpu pf contexts g (w, c, s) = (Ok u, (w', c', s'))"
  shows "length c' = Suc (length c) \<and> length s' = Suc (length s)"
  using assms
  by (auto simp: pool_gpu_def scoped_def on_world_def pool_round_def split: prod.splits outcome.splits)

lemma pool_gpus_lengths:
  "forM gs (pool_gpu pf contexts) (w, c, s) = (Ok u, (w', c', s')) \<Longrightarrow>
    length c' = length c + length gs \<and> length s' = length s + length gs"
proof (induction gs arbitrary: w c s)
  case (Cons g gs)
  then obtain w1 c1 s1 where "pool_gpu pf contexts g (w, c, s) = (Ok (), (w1, c1, s1))"
    "forM gs (pool_gpu pf contexts) (w1, c1, s1) = (Ok u, (w', c', s'))"
    by (auto simp: bindM_Ok_iff)
  with Cons.IH pool_gpu_lengths show ?case by fastforce
qed (simp add: retM_def)

lemma tiered_new_typed:
  assumes new: "tiered_new pf fl ords bytes host w = (Ok p, w')" and some: "ords \<noteq> []"
  shows "typed (length ords) {} False p"
proof -
  note parts = tiered_new_parts [OF new]
  obtain u u1 u2 u3 where reg: "registry_new pf ords u = (Ok (tp_contexts p), u1)"
    and str: "stream_pool_new pf (tp_contexts p) u1 = (Ok (tp_streams p), u2)"
    and pools: "mapM (make_dram_pool pf (tp_cluster p) (tp_contexts p) bytes) (enumerate 0 ords) u2 = (Ok (tp_dram_pools p), u3)"
    using parts(1) by blast
  have ctx: "length (cr_contexts (tp_contexts p)) = length ords"
  proof -
    from reg obtain cs where "retain_all pf ords [] u = (Ok cs, u1)" "tp_contexts p = \<lparr>cr_contexts = cs\<rparr>"
      by (auto simp: registry_new_def bindM_Ok_iff retM_def)
    with retain_all_length show ?thesis by fastforce
  qed
  have "length (st_compute (tp_streams p)) = length ords" "length (st_prefetch (tp_streams p)) = length ords"
  proof -
    from str obtain c s where "forM [0 ..< length ords] (pool_gpu pf (tp_contexts p)) (u1, [], []) = (Ok (), (u2, c, s))"
      "tp_streams p = \<lparr>st_compute = c, st_prefetch = s, st_len = length ords\<rparr>"
      by (auto simp: stream_pool_new_def Let_def registry_len_def ctx split: prod.splits outcome.splits)
    with pool_gpus_lengths [of "[0 ..< length ords]" pf "tp_contexts p" u1 "[]" "[]"]
    show "length (st_compute (tp_streams p)) = length ords" "length (st_prefetch (tp_streams p)) = length ords"
      by fastforce+
  qed
  moreover have "length (tp_dram_pools p) = length ords" using mapM_length [OF pools] by simp
  moreover have "index_of (tp_cluster p) ord = Some g \<Longrightarrow> g < length ords" for ord g
    using parts(3) by (simp add: index_of_def ordinal_index_Some)
  ultimately show ?thesis
    using ctx some by (simp add: typed_def parts dma_new_def vmt_lookup_def)
qed

section \<open>Histories\<close>

text \<open>
  What a call is made with: a GPU of the pool, a size that is not 0, a page with no transfer in
  flight.
\<close>

fun call_ok :: "nat \<Rightarrow> pool_call \<Rightarrow> 'w tiered_pool \<Rightarrow> bool" where
  "call_ok N (Access name g) p \<longleftrightarrow> g < N"
| "call_ok N (Allocate name shape es t) p \<longleftrightarrow> es \<noteq> 0"
| "call_ok N (Deallocate name) p \<longleftrightarrow> tp_inflight p name = None"
| "call_ok N _ p \<longleftrightarrow> True"

fun calls_ok :: "'w platform \<Rightarrow> (real \<Rightarrow> f64) \<Rightarrow> nat \<Rightarrow> pool_call list \<Rightarrow> 'w tiered_pool \<Rightarrow> bool" where
  "calls_ok pf fl N [] p \<longleftrightarrow> True"
| "calls_ok pf fl N (c # cs) p \<longleftrightarrow> call_ok N c p \<and> calls_ok pf fl N cs (snd (pool_do pf fl c p))"

lemma pool_do_typed:
  assumes p: "typed N {} False p" and c: "call_ok N c p"
  shows "typed N {} False (snd (pool_do pf fl c p)) \<and> fst (pool_do pf fl c p) \<noteq> Panic"
proof -
  have go: "typed N {} False (snd (m p)) \<and> fst (m p) \<noteq> Panic" if "sound_op (typed N {} False) m" for m :: "('a tiered_pool, unit) op"
    using sureD [OF that p, of "fst (m p)" "snd (m p)"] by simp
  show ?thesis
  proof (cases c)
    case (Deallocate name)
    with deallocate_sure [OF p, of name "fst (deallocate name p)" "snd (deallocate name p)"] c show ?thesis by simp
  next
    case (EnableMembrane b)
    then show ?thesis using p by (simp add: enable_membrane_def modM_run)
  next
    case (Allocate name shape es t)
    then show ?thesis using c go [OF sure_discard [OF sure_allocate]] by simp
  next
    case (Access name g)
    then show ?thesis using c go [OF sure_discard [OF sure_access]] by simp
  next
    case (AttachSpill path cap unlink)
    then show ?thesis using go [OF sure_attach_spill] by simp
  next
    case (WritePage name data)
    then show ?thesis using go [OF sure_write_page] by simp
  next
    case (Prefetch name g)
    then show ?thesis using go [OF sure_prefetch] by simp
  next
    case (Demote name)
    then show ?thesis using go [OF sure_demote] by simp
  next
    case (Sweep order)
    then show ?thesis using go [OF sure_sweep] by simp
  qed
qed

text \<open>A GPU past the end of the list is indexed before anything else of the promotion.\<close>

lemma access_past_gpus:
  assumes p: "typed N D S p" and g: "N \<le> g" and page: "vmt_lookup (tp_vmt p) n = Some pg" "tp_inflight p n = None"
  shows "fst (access pf n g p) = Panic"
proof -
  have "vec_get (gc_ordinals (tp_cluster p)) g = None" using typed_lengths(2) [OF p] g by (simp add: vec_get_def)
  then show ?thesis
    using page by (simp add: access_def bindM_def worldM_def modM_run claim_prefetch_def lookupM_run unwrapM_def run_simps
        split: prod.split)
qed

text \<open>
  Property C4. No call panics. A pool made over a non-empty list of GPUs stays well formed (one stream of each
  kind, context, DRAM pool, recycle cache and ring per GPU, every page with an element size, every
  transfer for a page of the table) over every history of calls, each with whatever outcome, in which
  \<open>access\<close> names a GPU of the pool, \<open>allocate\<close> an element size that is not 0, and \<open>deallocate\<close> a page with
  no transfer in flight; and no call of it panics, although the operations index, unwrap and divide. The first condition is
  needed: where the other calls return \<open>InvalidGpu\<close>, \<open>access\<close> to a page of the table panics for a GPU
  past the end of the list.
\<close>

theorem pool_calls_never_panic:
  assumes new: "tiered_new pf fl ords bytes host w = (Ok p, w')" and some: "ords \<noteq> []"
    and cs: "calls_ok pf fl (length ords) cs p"
  shows "typed (length ords) {} False (pool_run pf fl cs p)
    \<and> (\<forall>ds c es. cs = ds @ c # es \<longrightarrow> fst (pool_do pf fl c (pool_run pf fl ds p)) \<noteq> Panic)
    \<and> (\<forall>n g pg. vmt_lookup (tp_vmt (pool_run pf fl cs p)) n = Some pg \<longrightarrow> tp_inflight (pool_run pf fl cs p) n = None \<longrightarrow>
         length ords \<le> g \<longrightarrow> fst (access pf n g (pool_run pf fl cs p)) = Panic)"
proof -
  have "typed N {} False (pool_run pf fl cs p)
      \<and> (\<forall>ds c es. cs = ds @ c # es \<longrightarrow> fst (pool_do pf fl c (pool_run pf fl ds p)) \<noteq> Panic)"
    if "typed N {} False p" "calls_ok pf fl N cs p" for N cs p
    using that
  proof (induction cs arbitrary: p)
    case (Cons c cs)
    have step: "typed N {} False (snd (pool_do pf fl c p)) \<and> fst (pool_do pf fl c p) \<noteq> Panic"
      using Cons.prems by (intro pool_do_typed) simp_all
    with Cons.IH [of "snd (pool_do pf fl c p)"] Cons.prems show ?case by (auto simp: Cons_eq_append_conv)
  qed simp
  with tiered_new_typed [OF new some] cs access_past_gpus show ?thesis by blast
qed

theorem pool_calls_never_panic_witness:
  "\<exists>p. tiered_new numbering_device (\<lambda>_. 0) [0] 4096 (\<lambda>_. 0) (0, []) = (Ok p, (0, []))
    \<and> fst (pool_do numbering_device (\<lambda>_. 0) (Access ''a'' 0)
        (pool_run numbering_device (\<lambda>_. 0) [Allocate ''a'' [2] 1 Dram, Sweep [''a''], Prefetch ''a'' 7] p)) \<noteq> Panic"
proof -
  obtain c k where new: "tiered_new numbering_device (\<lambda>_. 0) [0] 4096 (\<lambda>_. 0) (0, [])
      = (Ok (numbering_pool c k (\<lambda>_. 0) (\<lambda>_. 0)), (0, []))"
    using numbering_new by blast
  let ?p = "numbering_pool c k (\<lambda>_. 0) (\<lambda>_. 0)"
  let ?ds = "[Allocate ''a'' [2] 1 Dram, Sweep [''a''], Prefetch ''a'' 7]"
  have "calls_ok numbering_device (\<lambda>_. 0) (length [0 :: int]) (?ds @ Access ''a'' 0 # []) ?p" by simp
  from pool_calls_never_panic [OF new _ this]
  have "fst (pool_do numbering_device (\<lambda>_. 0) (Access ''a'' 0) (pool_run numbering_device (\<lambda>_. 0) ?ds ?p)) \<noteq> Panic"
    by blast
  with new show ?thesis by blast
qed

end
