(* ===== verification/Extents.thy ===== *)
theory Extents
  imports Ledger Lifetime
begin

text \<open>
  The host memory of a \<open>TieredPool\<close> (\<open>src/tiered.rs\<close>) as extents: the shards of the pages and a staging
  buffer in use, each a range of one DRAM pool that is live there, no two with a byte in common.
\<close>

section \<open>Extents\<close>

text \<open>An extent is the index of its pool, its address and the size asked for.\<close>

type_synonym extent = "nat \<times> usize \<times> usize"

definition extent_range :: "extent \<Rightarrow> nat set" where
  "extent_range e = held_range dp_align (snd e)"

definition extent_in :: "dram_pool list \<Rightarrow> extent \<Rightarrow> bool" where
  "extent_in ds = (\<lambda>(i, ptr, n). i < length ds \<and> dp_fits (ds ! i) n \<and> held_range dp_align (ptr, n) \<subseteq> dp_live (ds ! i)
     \<and> dp_base_ptr (ds ! i) \<le> ptr \<and> ptr + dp_align n \<le> dp_base_ptr (ds ! i) + dp_capacity (ds ! i))"

definition sound_extents :: "dram_pool list \<Rightarrow> extent multiset \<Rightarrow> bool" where
  "sound_extents ds M \<longleftrightarrow> apart_ranges extent_range M \<and> (\<forall>e \<in># M. extent_in ds e)"

lemma sound_extents_less: "sound_extents ds M \<Longrightarrow> L \<subseteq># M \<Longrightarrow> sound_extents ds L"
  unfolding sound_extents_def using apart_ranges_less mset_subset_eqD by meson

lemma sound_extents_apart: "sound_extents ds M \<Longrightarrow> {#a, b#} \<subseteq># M \<Longrightarrow> extent_range a \<inter> extent_range b = {}"
  unfolding sound_extents_def by (elim conjE) (rule apart_ranges_two)

text \<open>An extent lies in the addresses of its pool, so extents of different pools have no byte in common.\<close>

lemma extent_in_pool:
  "extent_in ds (i, ptr, n) \<Longrightarrow> extent_range (i, ptr, n) \<subseteq> {dp_base_ptr (ds ! i) ..< dp_base_ptr (ds ! i) + dp_capacity (ds ! i)}"
  by (auto simp: extent_in_def extent_range_def held_range_def)

lemma extents_of_two_pools:
  assumes ok: "pools_ok ds" and e: "extent_in ds (i, a, m)" and f: "extent_in ds (j, b, n)" and ij: "i \<noteq> j"
  shows "extent_range (i, a, m) \<inter> extent_range (j, b, n) = {}"
proof -
  have "i < length ds" "j < length ds" using e f by (simp_all add: extent_in_def)
  from pools_apart [OF ok this ij] extent_in_pool [OF e] extent_in_pool [OF f] show ?thesis
    by (fastforce simp: apart_def)
qed

lemma extent_in_update:
  assumes "extent_in ds (i, a, m)" and "dp_frame d = dp_frame (ds ! j)"
    and "i = j \<Longrightarrow> held_range dp_align (a, m) \<subseteq> dp_live d"
  shows "extent_in (ds[j := d]) (i, a, m)"
  using assms by (cases "i = j") (auto simp: extent_in_def dp_frame_def dp_fits_def ra_fits_def dp_core_def)

lemma pools_ok_update:
  assumes "pools_ok ds" and "i < length ds" and "dp_inv d" "dp_frame d = dp_frame (ds ! i)"
  shows "pools_ok (ds[i := d])"
proof (rule same_frame_pools_ok [OF assms(1)])
  fix j assume "j < length ds"
  with assms show "dp_inv (ds[i := d] ! j) \<and> dp_frame (ds[i := d] ! j) = dp_frame (ds ! j)"
    by (cases "j = i") (simp_all add: pools_ok_def)
qed simp

text \<open>What a pool grants is a new extent, and what is returned to it is gone.\<close>

lemma sound_grant:
  assumes ok: "pools_ok ds" and M: "sound_extents ds M" and i: "i < length ds" and fit: "dp_fits (ds ! i) n"
    and run: "dp_allocate (ds ! i) n = (Ok ptr, d)"
  shows "pools_ok (ds[i := d])" and "sound_extents (ds[i := d]) (add_mset (i, ptr, n) M)"
proof -
  have "dp_inv (ds ! i)" using ok i by (simp add: pools_ok_def)
  note law = dp_alloc_law [OF this fit run]
  show "pools_ok (ds[i := d])" using law by (intro pools_ok_update ok i) simp_all
  have frame: "dp_frame d = dp_frame (ds ! i)" using law by simp
  then have same: "dp_base_ptr d = dp_base_ptr (ds ! i)" "dp_capacity d = dp_capacity (ds ! i)"
    by (simp_all add: dp_frame_def)
  have old: "extent_in (ds[i := d]) e" if "e \<in># M" for e
  proof (cases e)
    case (fields j a m)
    with that M have "extent_in ds (j, a, m)" by (auto simp: sound_extents_def)
    then show ?thesis unfolding fields using law
      by (intro extent_in_update frame) (auto simp: extent_in_def)
  qed
  have "dp_fits d n" using fit same by (simp add: dp_fits_def ra_fits_def dp_core_def)
  then have new: "extent_in (ds[i := d]) (i, ptr, n)"
    using law i same by (simp add: extent_in_def)
  have apart: "extent_range (i, ptr, n) \<inter> extent_range e = {}" if "e \<in># M" for e
  proof (cases e)
    case (fields j a m)
    show ?thesis
    proof (cases "j = i")
      case True
      with that M fields have "held_range dp_align (a, m) \<subseteq> dp_live (ds ! i)"
        by (auto simp: sound_extents_def extent_in_def)
      with law show ?thesis by (auto simp: extent_range_def fields)
    next
      case False
      have "pools_ok (ds[i := d])" using law by (intro pools_ok_update ok i) simp_all
      from extents_of_two_pools [OF this new] old [OF that] False show ?thesis by (auto simp: fields)
    qed
  qed
  have "apart_ranges extent_range (add_mset (i, ptr, n) M)"
    using M apart by (intro apart_ranges_add) (simp_all add: sound_extents_def)
  with new old show "sound_extents (ds[i := d]) (add_mset (i, ptr, n) M)" by (simp add: sound_extents_def)
qed

lemma sound_return:
  assumes ok: "pools_ok ds" and M: "sound_extents ds (add_mset (i, ptr, n) M)"
  shows "pools_ok (ds[i := dp_free (ds ! i) ptr n])" and "sound_extents (ds[i := dp_free (ds ! i) ptr n]) M"
    and "map (\<lambda>d. dp_free d ptr n) ds = ds[i := dp_free (ds ! i) ptr n]"
proof -
  let ?d = "dp_free (ds ! i) ptr n"
  have e: "extent_in ds (i, ptr, n)" using M by (simp add: sound_extents_def)
  then have i: "i < length ds" by (simp add: extent_in_def)
  have inv: "dp_inv (ds ! i)" using ok i by (simp add: pools_ok_def)
  have law: "dp_inv ?d \<and> dp_frame ?d = dp_frame (ds ! i) \<and> dp_live ?d = dp_live (ds ! i) - extent_range (i, ptr, n)"
  proof (cases "dp_align n = 0")
    case True
    have "ptr + dp_align n < W64" using e inv by (simp add: extent_in_def dp_inv_def)
    with True inv have "?d = ds ! i" by (intro dp_free_ignored) simp_all
    with inv True show ?thesis by (simp add: extent_range_def held_range_def)
  next
    case False
    with e have sub: "held_range dp_align (ptr, n) \<subseteq> dp_live (ds ! i)" by (simp add: extent_in_def)
    from dp_release_law [OF inv _ sub] False show ?thesis by (simp add: extent_range_def)
  qed
  then show "pools_ok (ds[i := ?d])" by (intro pools_ok_update ok i) simp_all
  have "extent_in (ds[i := ?d]) f" if f: "f \<in># M" for f
  proof (cases f)
    case (fields j a m)
    have in_f: "extent_in ds (j, a, m)" using M f by (auto simp: sound_extents_def fields)
    have "{#(i, ptr, n), (j, a, m)#} \<subseteq># add_mset (i, ptr, n) M" using f by (simp add: fields)
    from sound_extents_apart [OF M this] have "extent_range (i, ptr, n) \<inter> extent_range (j, a, m) = {}" .
    then show ?thesis unfolding fields using law in_f
      by (intro extent_in_update in_f) (auto simp: extent_in_def extent_range_def)
  qed
  moreover have "sound_extents ds M" using M by (rule sound_extents_less) simp
  ultimately show "sound_extents (ds[i := ?d]) M" by (simp add: sound_extents_def)
  show "map (\<lambda>d. dp_free d ptr n) ds = ds[i := ?d]"
    using e by (intro offer_one ok i) (simp_all add: extent_in_def)
qed

section \<open>The shards of the pages\<close>

definition extents_from :: "nat \<Rightarrow> dram_chunk list \<Rightarrow> extent multiset" where
  "extents_from k cs = mset (map (\<lambda>(i, c). (i, dc_host_ptr c, dc_size_bytes c)) (enumerate k cs))"

abbreviation chunk_extents :: "dram_chunk list \<Rightarrow> extent multiset" where
  "chunk_extents \<equiv> extents_from 0"

lemma extents_from_simps [simp]:
  "extents_from k [] = {#}"
  "extents_from k (c # cs) = add_mset (k, dc_host_ptr c, dc_size_bytes c) (extents_from (Suc k) cs)"
  by (simp_all add: extents_from_def)

definition page_shards :: "vmt \<Rightarrow> string \<Rightarrow> dram_chunk list option" where
  "page_shards v n = map_option pg_dram_chunks (vmt_lookup v n)"

definition extents :: "(string \<Rightarrow> dram_chunk list option) \<Rightarrow> extent multiset" where
  "extents S = map_blocks chunk_extents S"

text \<open>The bytes of a list of shards.\<close>

definition shard_area :: "dram_chunk list \<Rightarrow> nat set" where
  "shard_area cs = (\<Union>c \<in> set cs. {dc_host_ptr c ..< dc_host_ptr c + dc_size_bytes c})"

lemma chunk_extents_nth:
  "i < length cs \<Longrightarrow> (i, dc_host_ptr (cs ! i), dc_size_bytes (cs ! i)) \<in># chunk_extents cs"
  unfolding extents_from_def set_mset_mset set_map by (rule image_eqI [of _ _ "(i, cs ! i)"]) (simp_all add: in_set_enumerate_eq)

lemma chunk_extents_snoc:
  "chunk_extents (cs @ [c]) = add_mset (length cs, dc_host_ptr c, dc_size_bytes c) (chunk_extents cs)"
  by (simp add: extents_from_def enumerate_append_eq)

lemma extents_split:
  assumes "finite (dom S)" and "S n = Some cs"
  shows "extents S = extents (S(n := None)) + chunk_extents cs"
  using map_blocks_split [OF assms(1), of chunk_extents n] assms(2) by (simp add: extents_def)

lemma extents_two:
  assumes fin: "finite (dom S)" and m: "S m = Some cs" and n: "S n = Some ds" and "m \<noteq> n"
  shows "chunk_extents cs + chunk_extents ds \<subseteq># extents S"
proof -
  have "finite (dom (S(n := None)))" using fin by simp
  then have "extents (S(n := None)) = extents (S(n := None, m := None)) + chunk_extents cs"
    using m \<open>m \<noteq> n\<close> by (intro extents_split) simp_all
  with extents_split [OF fin n] show ?thesis by (simp add: ac_simps)
qed

text \<open>A shard keeps to its extent.\<close>

lemma shard_in_extent:
  assumes "sound_extents ds M" and "chunk_extents cs \<subseteq># M" and i: "i < length cs"
  shows "{dc_host_ptr (cs ! i) ..< dc_host_ptr (cs ! i) + dc_size_bytes (cs ! i)}
    \<subseteq> extent_range (i, dc_host_ptr (cs ! i), dc_size_bytes (cs ! i))"
proof -
  have "(i, dc_host_ptr (cs ! i), dc_size_bytes (cs ! i)) \<in># M"
    using mset_subset_eqD [OF assms(2) chunk_extents_nth [OF i]] .
  with assms(1) have "dp_fits (ds ! i) (dc_size_bytes (cs ! i))" by (auto simp: sound_extents_def extent_in_def)
  then have "dc_size_bytes (cs ! i) \<le> dp_align (dc_size_bytes (cs ! i))" by (rule dp_fits_le)
  then show ?thesis by (auto simp: extent_range_def held_range_def)
qed

lemma shard_area_apart:
  assumes M: "sound_extents ds M" and sub: "add_mset e (chunk_extents cs) \<subseteq># M"
  shows "shard_area cs \<inter> extent_range e = {}"
proof -
  have cs: "chunk_extents cs \<subseteq># M" using sub by (rule subset_mset.order_trans [rotated]) simp
  have "{dc_host_ptr c ..< dc_host_ptr c + dc_size_bytes c} \<inter> extent_range e = {}" if c: "c \<in> set cs" for c
  proof -
    from c obtain i where i: "i < length cs" "c = cs ! i" by (auto simp: in_set_conv_nth)
    let ?f = "(i, dc_host_ptr c, dc_size_bytes c)"
    have "?f \<in># chunk_extents cs" using chunk_extents_nth [OF i(1)] i(2) by simp
    then have "{#e, ?f#} \<subseteq># add_mset e (chunk_extents cs)" by simp
    then have "{#e, ?f#} \<subseteq># M" using sub by (rule subset_mset.order_trans)
    from sound_extents_apart [OF M this] have "extent_range e \<inter> extent_range ?f = {}" .
    moreover have "{dc_host_ptr c ..< dc_host_ptr c + dc_size_bytes c} \<subseteq> extent_range ?f"
      using shard_in_extent [OF M cs i(1)] i(2) by simp
    ultimately show ?thesis by blast
  qed
  then show ?thesis by (auto simp: shard_area_def)
qed

section \<open>The layout of a pool\<close>

text \<open>
  \<open>S\<close> are the shards of the pages, \<open>H\<close> the staging buffers in use: together they are extents with no
  byte in common, and every page is small enough for a pool to round its size up to its alignment.
\<close>

definition sizes_fit :: "dram_pool list \<Rightarrow> vmt \<Rightarrow> bool" where
  "sizes_fit ds v \<longleftrightarrow> (\<forall>n pg. vmt_lookup v n = Some pg \<longrightarrow> (\<forall>d \<in> set ds. dp_fits d (pg_size_bytes pg)))"

definition layout :: "(string \<Rightarrow> dram_chunk list option) \<Rightarrow> extent multiset \<Rightarrow> 'w tiered_pool \<Rightarrow> bool" where
  "layout S H p \<longleftrightarrow> page_shards (tp_vmt p) = S \<and> finite (dom S) \<and> pools_ok (tp_dram_pools p)
     \<and> sound_extents (tp_dram_pools p) (extents S + H) \<and> sizes_fit (tp_dram_pools p) (tp_vmt p)"

lemma sizes_fit_frame:
  assumes "sizes_fit ds v" and "\<And>d. d \<in> set es \<Longrightarrow> \<exists>c \<in> set ds. dp_frame d = dp_frame c"
  shows "sizes_fit es v"
  using assms unfolding sizes_fit_def dp_fits_def ra_fits_def dp_frame_def dp_core_def
  by simp (metis)

lemma sizes_fit_update:
  assumes "sizes_fit ds v" and "dp_frame d = dp_frame (ds ! i)" and "i < length ds"
  shows "sizes_fit (ds[i := d]) v"
proof (rule sizes_fit_frame [OF assms(1)])
  fix c assume "c \<in> set (ds[i := d])"
  then have "c = d \<or> c \<in> set ds" using set_update_subset_insert [of ds i d] by blast
  with assms(2,3) show "\<exists>c' \<in> set ds. dp_frame c = dp_frame c'" by (metis nth_mem)
qed

lemma layout_grant:
  assumes p: "layout S H p" and i: "i < length (tp_dram_pools p)" and fit: "dp_fits (tp_dram_pools p ! i) n"
    and run: "dp_allocate (tp_dram_pools p ! i) n = (Ok ptr, d)"
  shows "layout S (add_mset (i, ptr, n) H) (p\<lparr>tp_dram_pools := (tp_dram_pools p)[i := d]\<rparr>)"
proof -
  have ok: "pools_ok (tp_dram_pools p)" and M: "sound_extents (tp_dram_pools p) (extents S + H)"
    using p by (simp_all add: layout_def)
  have "dp_inv (tp_dram_pools p ! i)" using ok i by (simp add: pools_ok_def)
  from dp_alloc_law [OF this fit run] have "dp_frame d = dp_frame (tp_dram_pools p ! i)" by simp
  then show ?thesis
    using sound_grant [OF ok M i fit run] p i by (simp add: layout_def sizes_fit_update)
qed

lemma layout_return:
  assumes p: "layout S (add_mset (i, ptr, n) H) p"
  shows "layout S H (p\<lparr>tp_dram_pools := (tp_dram_pools p)[i := dp_free (tp_dram_pools p ! i) ptr n]\<rparr>)"
proof -
  have ok: "pools_ok (tp_dram_pools p)" and M: "sound_extents (tp_dram_pools p) (add_mset (i, ptr, n) (extents S + H))"
    using p by (simp_all add: layout_def)
  from M have e: "extent_in (tp_dram_pools p) (i, ptr, n)" by (simp add: sound_extents_def)
  then have i: "i < length (tp_dram_pools p)" by (simp add: extent_in_def)
  note r = sound_return [OF ok M]
  have "dp_frame (dp_free (tp_dram_pools p ! i) ptr n) = dp_frame (tp_dram_pools p ! i)"
    by (simp add: dp_free_core)
  then show ?thesis using r p i by (simp add: layout_def sizes_fit_update)
qed

lemma layout_less: "layout S H p \<Longrightarrow> K \<subseteq># H \<Longrightarrow> layout S K p"
  unfolding layout_def by (meson sound_extents_less subset_mset.add_left_mono)

section \<open>All the shards of a page\<close>

lemma sizes_fit_frames:
  assumes "sizes_fit ds v" and "map dp_frame es = map dp_frame ds" shows "sizes_fit es v"
proof (rule sizes_fit_frame [OF assms(1)])
  fix d assume "d \<in> set es"
  then have "dp_frame d \<in> set (map dp_frame es)" by simp
  then show "\<exists>c \<in> set ds. dp_frame d = dp_frame c" unfolding assms(2) by auto
qed

text \<open>A page that is granted its shards, and one that gives them back.\<close>

lemma granted_sound:
  assumes ok: "pools_ok ds" and M: "sound_extents ds M" and g: "granted ds es cs"
    and fit: "\<forall>i < length cs. dp_fits (ds ! i) (dc_size_bytes (cs ! i))"
  shows "pools_ok es" and "sound_extents es (M + chunk_extents cs)"
proof -
  have len: "length es = length ds" "length cs \<le> length ds" using g by (simp_all add: granted_def)
  have "pools_ok (take k es @ drop k ds) \<and> sound_extents (take k es @ drop k ds) (M + chunk_extents (take k cs))"
    if "k \<le> length cs" for k
    using that
  proof (induction k)
    case (Suc k)
    let ?ds = "take k es @ drop k ds"
    have k: "k < length cs" "k < length ds" using Suc.prems len by simp_all
    have at: "?ds ! k = ds ! k" "k < length ?ds" "?ds[k := es ! k] = take (Suc k) es @ drop (Suc k) ds"
      using k len by (simp_all add: nth_append list_update_append take_Suc_conv_app_nth Cons_nth_drop_Suc [symmetric])
    have run: "dp_allocate (?ds ! k) (dc_size_bytes (cs ! k)) = (Ok (dc_host_ptr (cs ! k)), es ! k)"
      using g k at by (simp add: granted_def)
    have "chunk_extents (take (Suc k) cs) = add_mset (k, dc_host_ptr (cs ! k), dc_size_bytes (cs ! k)) (chunk_extents (take k cs))"
      using k by (simp add: take_Suc_conv_app_nth chunk_extents_snoc)
    moreover have fits: "dp_fits (?ds ! k) (dc_size_bytes (cs ! k))" using fit k at by simp
    have "pools_ok ?ds" "sound_extents ?ds (M + chunk_extents (take k cs))" using Suc.IH k(1) by simp_all
    from sound_grant [OF this at(2) fits run, unfolded at(3)] have "pools_ok (take (Suc k) es @ drop (Suc k) ds)"
      "sound_extents (take (Suc k) es @ drop (Suc k) ds)
        (add_mset (k, dc_host_ptr (cs ! k), dc_size_bytes (cs ! k)) (M + chunk_extents (take k cs)))" .
    ultimately show ?case by simp
  qed (use ok M in simp)
  from this [of "length cs"] have "pools_ok (take (length cs) es @ drop (length cs) ds)
      \<and> sound_extents (take (length cs) es @ drop (length cs) ds) (M + chunk_extents cs)" by simp
  moreover have "take (length cs) es @ drop (length cs) ds = es"
    using g len by (intro nth_equalityI) (simp_all add: granted_def nth_append)
  ultimately show "pools_ok es" and "sound_extents es (M + chunk_extents cs)" by simp_all
qed

lemma granted_frames:
  assumes ok: "pools_ok ds" and g: "granted ds es cs"
    and fit: "\<forall>i < length cs. dp_fits (ds ! i) (dc_size_bytes (cs ! i))"
  shows "map dp_frame es = map dp_frame ds"
proof (rule nth_equalityI)
  fix i assume "i < length (map dp_frame es)"
  then have i: "i < length ds" "i < length es" using g by (simp_all add: granted_def)
  have "dp_inv (ds ! i)" using ok i by (simp add: pools_ok_def)
  then show "map dp_frame es ! i = map dp_frame ds ! i"
    using i g fit dp_alloc_law [of "ds ! i" "dc_size_bytes (cs ! i)" "dc_host_ptr (cs ! i)" "es ! i"]
    by (cases "i < length cs") (simp_all add: granted_def)
qed (use g in \<open>simp add: granted_def\<close>)

lemma offered_sound:
  assumes "pools_ok ds" and "sound_extents ds (M + extents_from k cs)"
  shows "pools_ok (offer_to_pools cs ds) \<and> sound_extents (offer_to_pools cs ds) M
    \<and> map dp_frame (offer_to_pools cs ds) = map dp_frame ds"
  using assms
proof (induction cs arbitrary: k ds)
  case (Cons c cs)
  let ?ptr = "dc_host_ptr c" and ?n = "dc_size_bytes c"
  let ?ds = "ds[k := dp_free (ds ! k) ?ptr ?n]"
  have M: "sound_extents ds (add_mset (k, ?ptr, ?n) (M + extents_from (Suc k) cs))" using Cons.prems(2) by simp
  note r = sound_return [OF Cons.prems(1) M]
  have "dp_frame (dp_free d ?ptr ?n) = dp_frame d" for d by (simp add: dp_free_core)
  then have "map dp_frame (map (\<lambda>d. dp_free d ?ptr ?n) ds) = map dp_frame ds" by simp
  moreover have "offer_to_pools (c # cs) ds = offer_to_pools cs ?ds"
    unfolding r(3) [symmetric] by (simp add: offer_to_pools_def)
  ultimately show ?case using Cons.IH [OF r(1,2)] unfolding r(3) by simp
qed (simp add: offer_to_pools_def)

end
