(* ===== verification/Calm.thy ===== *)
theory Calm
  imports Extents
begin

text \<open>
  Which host bytes the operations of \<open>src/tiered.rs\<close> on one page leave alone: promotion through a staging
  buffer (\<open>access\<close>), demotion (\<open>demote\<close>) and \<open>write_page\<close> write to extents of that page or to a buffer of
  their own, and so to no shard of another page.
\<close>

section \<open>Bytes that stay\<close>

text \<open>
  \<open>calm S H m A b X\<close>: the layout is \<open>S\<close> and \<open>H\<close>, the bytes of \<open>A\<close>, all of them in shards of the page
  \<open>m\<close>, are as in \<open>b\<close>, and no page of \<open>X\<close> is in the spill tier.
\<close>

definition calm ::
  "(string \<Rightarrow> dram_chunk list option) \<Rightarrow> extent multiset \<Rightarrow> string \<Rightarrow> nat set \<Rightarrow> host_memory \<Rightarrow> string set \<Rightarrow> 'w tiered_pool \<Rightarrow> bool" where
  "calm S H m A b X p \<longleftrightarrow> layout S H p \<and> (A = {} \<or> (\<exists>cs. S m = Some cs \<and> A \<subseteq> shard_area cs))
     \<and> (\<forall>a \<in> A. tp_host p a = b a) \<and> (\<forall>n \<in> X. \<forall>pg. vmt_lookup (tp_vmt p) n = Some pg \<longrightarrow> pg_tier pg \<noteq> Ssd)"

lemma page_shards_modify:
  "(\<And>pg. pg_dram_chunks (f pg) = pg_dram_chunks pg) \<Longrightarrow> page_shards (vmt_modify n f v) = page_shards v"
  by (rule ext) (auto simp: page_shards_def map_option.compositionality o_def)

lemma sizes_fit_modify:
  "sizes_fit ds v \<Longrightarrow> (\<And>pg. pg_size_bytes (f pg) = pg_size_bytes pg) \<Longrightarrow> sizes_fit ds (vmt_modify n f v)"
  by (auto simp: sizes_fit_def split: if_splits)

lemma calm_modify:
  assumes "calm S H m A b X p"
    and f: "\<And>pg. pg_dram_chunks (f pg) = pg_dram_chunks pg \<and> pg_size_bytes (f pg) = pg_size_bytes pg
      \<and> (X = {} \<or> pg_tier (f pg) = pg_tier pg \<or> pg_tier (f pg) \<noteq> Ssd)"
  shows "calm S H m A b X (p\<lparr>tp_vmt := vmt_modify n f (tp_vmt p)\<rparr>)"
proof -
  have tier: "X = {} \<or> pg_tier (f pg) \<noteq> Ssd" if "pg_tier pg \<noteq> Ssd" for pg using f [of pg] that by auto
  have "\<forall>k \<in> X. \<forall>pg. vmt_lookup (vmt_modify n f (tp_vmt p)) k = Some pg \<longrightarrow> pg_tier pg \<noteq> Ssd"
  proof (intro ballI allI impI)
    fix k pg assume k: "k \<in> X" and "vmt_lookup (vmt_modify n f (tp_vmt p)) k = Some pg"
    then obtain old where "vmt_lookup (tp_vmt p) k = Some old" "pg = old \<or> pg = f old" by (auto split: if_splits)
    moreover from this k assms(1) have "pg_tier old \<noteq> Ssd" by (auto simp: calm_def)
    ultimately show "pg_tier pg \<noteq> Ssd" using tier [of old] k by auto
  qed
  with assms show ?thesis by (simp add: calm_def layout_def page_shards_modify sizes_fit_modify)
qed

interpretation calm: pool_shell "calm S H m A b X" "\<lambda>_. True" for S H m A b X
proof (unfold_locales, goal_cases)
  case (6 p n f)
  then show ?case by (intro calm_modify) (auto simp: promoting_def)
qed (simp_all add: calm_def layout_def)

lemma calm_less: "calm S H m A b X p \<Longrightarrow> K \<subseteq># H \<Longrightarrow> calm S K m A b X p"
  using layout_less by (auto simp: calm_def)

lemma calm_fits:
  "calm S H m A b X p \<Longrightarrow> vmt_lookup (tp_vmt p) n = Some pg \<Longrightarrow> d \<in> set (tp_dram_pools p) \<Longrightarrow> dp_fits d (pg_size_bytes pg)"
  by (auto simp: calm_def layout_def sizes_fit_def)

text \<open>A write to another extent leaves the bytes alone.\<close>

lemma calm_write:
  assumes "calm S H m A b X p" and "{dst ..< dst + length bs} \<inter> A = {}"
  shows "calm S H m A b X (p\<lparr>tp_host := mem_write dst bs (tp_host p)\<rparr>)"
proof -
  have "mem_write dst bs (tp_host p) a = tp_host p a" if "a \<in> A" for a
  proof -
    have "a \<notin> {dst ..< dst + length bs}" using assms(2) that by blast
    then show ?thesis by (intro mem_write_outside) auto
  qed
  with assms(1) show ?thesis by (simp add: calm_def layout_def)
qed

lemma calm_apart:
  assumes p: "calm S H m A b X p" and e: "A = {} \<or> add_mset e (chunk_extents (the (S m))) \<subseteq># extents S + H"
  shows "extent_range e \<inter> A = {}"
proof (cases "A = {}")
  case False
  then obtain cs where cs: "S m = Some cs" "A \<subseteq> shard_area cs" using p by (auto simp: calm_def)
  have "sound_extents (tp_dram_pools p) (extents S + H)" using p by (simp add: calm_def layout_def)
  from shard_area_apart [OF this, of e cs] e False cs(1) have "shard_area cs \<inter> extent_range e = {}" by simp
  with cs(2) show ?thesis by blast
qed simp

lemma calm_apart_buffer:
  assumes p: "calm S (add_mset e H) m A b X p" shows "extent_range e \<inter> A = {}"
proof (cases "A = {}")
  case False
  then obtain cs where cs: "S m = Some cs" using p by (auto simp: calm_def)
  have "finite (dom S)" using p by (simp add: calm_def layout_def)
  from extents_split [OF this cs] have "extents S = extents (S(m := None)) + chunk_extents cs" .
  then show ?thesis using cs by (intro calm_apart [OF p]) simp
qed simp

lemma calm_apart_shard:
  assumes p: "calm S H m A b X p" and n: "S n = Some cs" "n = m \<Longrightarrow> A = {}" and i: "i < length cs"
  shows "{dc_host_ptr (cs ! i) ..< dc_host_ptr (cs ! i) + dc_size_bytes (cs ! i)} \<inter> A = {}"
proof (cases "A = {}")
  case False
  then obtain ds where ds: "S m = Some ds" using p by (auto simp: calm_def)
  have S: "finite (dom S)" "sound_extents (tp_dram_pools p) (extents S + H)"
    using p by (simp_all add: calm_def layout_def)
  let ?e = "(i, dc_host_ptr (cs ! i), dc_size_bytes (cs ! i))"
  have two: "chunk_extents cs + chunk_extents ds \<subseteq># extents S"
    using n(2) False by (intro extents_two [OF S(1) n(1) ds]) blast
  have one: "{#?e#} \<subseteq># chunk_extents cs" using chunk_extents_nth [OF i] by simp
  from subset_mset.add_right_mono [OF one, of "chunk_extents ds"] two
  have "{#?e#} + chunk_extents ds \<subseteq># extents S" by (rule subset_mset.order_trans)
  then have "add_mset ?e (chunk_extents ds) \<subseteq># extents S" by simp
  then have "add_mset ?e (chunk_extents ds) \<subseteq># extents S + H" by (rule subset_mset.order_trans) simp
  then have "extent_range ?e \<inter> A = {}" using ds by (intro calm_apart [OF p]) simp
  moreover have "chunk_extents cs \<subseteq># extents S + H"
    using two by (metis mset_subset_eq_add_left subset_mset.order_trans)
  from shard_in_extent [OF S(2) this i]
  have "{dc_host_ptr (cs ! i) ..< dc_host_ptr (cs ! i) + dc_size_bytes (cs ! i)} \<subseteq> extent_range ?e" .
  ultimately show ?thesis by blast
qed simp

section \<open>Operations that use a staging buffer\<close>

text \<open>
  \<open>leads K I m J\<close>: from a state of \<open>K\<close>, \<open>m\<close> returns in a state of \<open>J\<close>, or fails or panics in one of \<open>I\<close>.
\<close>

definition leads :: "('s \<Rightarrow> bool) \<Rightarrow> ('s \<Rightarrow> bool) \<Rightarrow> ('s, 'a) op \<Rightarrow> ('a \<Rightarrow> 's \<Rightarrow> bool) \<Rightarrow> bool" where
  "leads K I m J \<longleftrightarrow> (\<forall>p r q. K p \<longrightarrow> m p = (r, q) \<longrightarrow> (case r of Ok x \<Rightarrow> J x q | _ \<Rightarrow> I q))"

lemma leadsI:
  assumes "\<And>p r q. K p \<Longrightarrow> m p = (r, q) \<Longrightarrow> (case r of Ok x \<Rightarrow> J x q | _ \<Rightarrow> I q)"
  shows "leads K I m J"
  using assms unfolding leads_def by blast

lemma leads_bind:
  assumes m: "leads K I m J" and f: "\<And>x. leads (J x) I (f x) L"
  shows "leads K I (bindM m f) L"
proof (rule leadsI)
  fix p r q assume p: "K p" and run: "bindM m f p = (r, q)"
  obtain r1 p1 where m1: "m p = (r1, p1)" by force
  from m p m1 have step: "case r1 of Ok x \<Rightarrow> J x p1 | _ \<Rightarrow> I p1" unfolding leads_def by blast
  show "case r of Ok x \<Rightarrow> L x q | _ \<Rightarrow> I q"
  proof (cases r1)
    case (Ok x)
    with step have "J x p1" by simp
    moreover have "f x p1 = (r, q)" using run m1 Ok by (simp add: bindM_def)
    ultimately show ?thesis using f unfolding leads_def by blast
  qed (use step run m1 in \<open>auto simp: bindM_def\<close>)
qed

lemma leads_keeps: "keeps K m \<Longrightarrow> (\<And>p. K p \<Longrightarrow> I p) \<Longrightarrow> leads K I m (\<lambda>_. K)"
  by (rule leadsI) (auto dest: keepsD split: outcome.split)

lemma leads_state:
  assumes "leads K I m (\<lambda>_. I)" and "K p" shows "I (snd (m p))"
proof -
  obtain r q where run: "m p = (r, q)" by force
  with assms have "case r of Ok x \<Rightarrow> I q | _ \<Rightarrow> I q" unfolding leads_def by blast
  then show ?thesis by (cases r) (simp_all add: run)
qed

lemma leads_strengthen: "(\<And>p. K p \<Longrightarrow> K' p) \<Longrightarrow> leads K' I m J \<Longrightarrow> leads K I m J"
  unfolding leads_def by blast

text \<open>The staging buffer.\<close>

definition all_fit :: "usize \<Rightarrow> 'w tiered_pool \<Rightarrow> bool" where
  "all_fit n p \<longleftrightarrow> (\<forall>d \<in> set (tp_dram_pools p). dp_fits d n)"

lemma all_fit_le: "all_fit n p \<Longrightarrow> k \<le> n \<Longrightarrow> all_fit k p"
  by (auto simp: all_fit_def dp_fits_def ra_fits_def)

lemma calm_grant:
  assumes p: "calm S H m A b X p" and fit: "all_fit n p" and run: "dramM g (\<lambda>d. dp_allocate d n) p = (r, q)"
  shows "case r of Ok ptr \<Rightarrow> calm S (add_mset (g, ptr, n) H) m A b X q | Err e \<Rightarrow> q = p | Panic \<Rightarrow> q = p"
proof (cases "g < length (tp_dram_pools p)")
  case True
  have d: "dp_inv (tp_dram_pools p ! g)" "dp_fits (tp_dram_pools p ! g) n"
    using p fit True by (simp_all add: calm_def layout_def pools_ok_def all_fit_def)
  obtain r' d' where alloc: "dp_allocate (tp_dram_pools p ! g) n = (r', d')" by force
  then have q: "r = r'" "q = p\<lparr>tp_dram_pools := (tp_dram_pools p)[g := d']\<rparr>" using run True by (simp_all add: dramM_def)
  show ?thesis
  proof (cases r')
    case (Ok ptr)
    have "layout S H p" using p by (simp add: calm_def)
    from layout_grant [OF this True d(2) alloc [unfolded Ok]] p show ?thesis by (simp add: q Ok calm_def)
  next
    case (Err e)
    with dp_alloc_err(1) [OF d alloc [unfolded Err]] show ?thesis by (simp add: q)
  next
    case Panic
    with alloc dp_allocate_never_panics [of "tp_dram_pools p ! g" n] show ?thesis by simp
  qed
qed (use run in \<open>auto simp: dramM_def\<close>)

lemma calm_stage_alloc:
  assumes "calm S H m A b X p" and "all_fit want p" and "stage_alloc g want p = (r, q)"
  shows "case r of Ok (ptr, n) \<Rightarrow> n \<le> want \<and> calm S (add_mset (g, ptr, n) H) m A b X q | _ \<Rightarrow> calm S H m A b X q"
  using assms
proof (induction g want p rule: stage_alloc.induct)
  case (1 g want p)
  obtain r1 p1 where run: "dramM g (\<lambda>d. dp_allocate d want) p = (r1, p1)" by force
  note grant = calm_grant [OF "1.prems"(1,2) run]
  show ?case
  proof (cases r1)
    case (Ok ptr)
    then have "r = Ok (ptr, want)" "q = p1" using "1.prems"(3) run by (simp_all add: stage_alloc.simps)
    with grant Ok show ?thesis by simp
  next
    case (Err e)
    then have p1: "p1 = p" using grant by simp
    show ?thesis
    proof (cases "want \<le> 2 ^ 20")
      case True
      then have "r = Err e" "q = p" using Err "1.prems"(3) run p1 by (simp_all add: stage_alloc.simps [of g want])
      with "1.prems"(1) show ?thesis by simp
    next
      case False
      then have "stage_alloc g (want div 2) p = (r, q)"
        using Err "1.prems"(3) run p1 by (simp add: stage_alloc.simps [of g want])
      from "1.IH" [OF run [symmetric] Err False, unfolded p1, OF "1.prems"(1) all_fit_le [OF "1.prems"(2)] this]
      show ?thesis by (auto split: outcome.splits)
    qed
  next
    case Panic
    then have "r = Panic" "q = p1" using "1.prems"(3) run by (simp_all add: stage_alloc.simps)
    with grant Panic "1.prems"(1) show ?thesis by simp
  qed
qed

lemma calm_return:
  assumes "calm S (add_mset (g, ptr, n) H) m A b X p"
  shows "calm S H m A b X (snd (dram_freeM g ptr n p))"
proof -
  have l: "layout S (add_mset (g, ptr, n) H) p" using assms by (simp add: calm_def)
  then have "g < length (tp_dram_pools p)" by (simp add: layout_def sound_extents_def extent_in_def)
  with layout_return [OF l] assms show ?thesis by (simp add: dram_freeM_def dramM_def calm_def)
qed

text \<open>The streaming loop writes into the staging buffer only.\<close>

lemma calm_stage_chunk:
  fixes pf :: "'w platform"
  assumes "{stage ..< stage + this} \<inter> A = {}"
  shows "keeps (calm S H m A b X) (stage_chunk pf off stage dst pos this)"
proof -
  have "keeps (calm S H m A b X) (\<lambda>p :: 'w tiered_pool. case tp_spill p of
              None \<Rightarrow> (Panic, p)
            | Some s \<Rightarrow>
                (case pf_io pf (tp_world p) of
                   (io, w) \<Rightarrow>
                     (case spill_read_into io s (uadd off pos) stage this (tp_host p) of
                        (r, h) \<Rightarrow> (r, p\<lparr>tp_world := w, tp_host := h\<rparr>))))" (is "keeps _ ?read")
  proof (rule keepsI)
    fix p :: "'w tiered_pool" assume p: "calm S H m A b X p"
    show "calm S H m A b X (snd (?read p))"
    proof (cases "tp_spill p")
      case (Some s)
      obtain io w where io: "pf_io pf (tp_world p) = (io, w)" by force
      obtain e bs where bs: "read_exact_at io (uadd off pos) this (sf_bytes s) = (e, bs)" by force
      then have "length bs \<le> this" by (auto simp: read_exact_at_def Let_def split: io_result.splits)
      with assms have "{stage ..< stage + length bs} \<inter> A = {}" by (rule shorter_range)
      from calm_write [OF calm.world [OF p] this] show ?thesis
        by (simp add: Some io spill_read_into_def bs split: option.split)
    qed (use p in simp)
  qed
  then show ?thesis unfolding stage_chunk_def by (intro calm.keeps_shell)
qed

lemma calm_stage_copy:
  assumes "{stage ..< stage + len} \<inter> A = {}"
  shows "keeps (calm S H m A b X) (stage_copy pf n g off stage len dst bytes)"
proof (rule stage_copy_keeps [OF calm.keeps_set_context])
  fix pos this :: nat assume "this \<le> len"
  with assms have "{stage ..< stage + this} \<inter> A = {}" by (rule shorter_range)
  then show "keeps (calm S H m A b X) (stage_chunk pf off stage dst pos this)" by (rule calm_stage_chunk)
qed

section \<open>Promotion\<close>

interpretation fitting: pool_shell "\<lambda>p. calm S H m A b X p \<and> all_fit n p" "\<lambda>_. True" for S H m A b X n
  by unfold_locales (auto simp: all_fit_def calm.world calm.dma calm.caches calm.inflight calm.membrane intro: calm.promote)

lemma bind_catchM:
  "m p = (Ok x, q) \<Longrightarrow> bindM (catchM m) f p = f (Inr x) q"
  "m p = (Err e, q) \<Longrightarrow> bindM (catchM m) f p = f (Inl e) q"
  "m p = (Panic, q) \<Longrightarrow> bindM (catchM m) f p = (Panic, q)"
  by (simp_all add: bindM_def catchM_def)

lemma keeps_fact: "keeps K m \<Longrightarrow> keeps (\<lambda>q. P \<and> K q) m"
  by (simp add: keeps_def)

lemma leads_fact: "(P \<Longrightarrow> leads K I m J) \<Longrightarrow> leads (\<lambda>q. P \<and> K q) I m J"
  unfolding leads_def by blast

lemma buffer_apart:
  assumes p: "calm S (add_mset (g, ptr, n) H) m A b X p" shows "{ptr ..< ptr + n} \<inter> A = {}"
proof -
  have "extent_in (tp_dram_pools p) (g, ptr, n)" using p by (simp add: calm_def layout_def sound_extents_def)
  then have "dp_fits (tp_dram_pools p ! g) n" by (simp add: extent_in_def)
  then have "n \<le> dp_align n" by (rule dp_fits_le)
  then have "{ptr ..< ptr + n} \<subseteq> extent_range (g, ptr, n)" by (auto simp: extent_range_def held_range_def)
  with calm_apart_buffer [OF p] show ?thesis by blast
qed

text \<open>\<open>st\<close> is the staging buffer of the promotion: its address, its length, and whether it was borrowed.\<close>

definition buffer :: "nat \<Rightarrow> usize \<times> usize \<times> bool \<Rightarrow> extent multiset" where
  "buffer g = (\<lambda>(ptr, n, borrowed). if borrowed then {#(g, ptr, n)#} else {#})"

definition staged :: "(string \<Rightarrow> dram_chunk list option) \<Rightarrow> nat \<Rightarrow> string \<Rightarrow> nat set \<Rightarrow> host_memory \<Rightarrow> string set \<Rightarrow>
    usize \<times> usize \<times> bool \<Rightarrow> 'w tiered_pool \<Rightarrow> bool" where
  "staged S g m A b X = (\<lambda>(ptr, n, borrowed) p. {ptr ..< ptr + n} \<inter> A = {}
     \<and> calm S (buffer g (ptr, n, borrowed)) m A b X p)"

lemma calm_borrow:
  fixes pf :: "'w platform"
  shows "leads (\<lambda>p :: 'w tiered_pool. calm S {#} m A b X p \<and> all_fit bytes p) (calm S {#} m A b X)
    (bindM (catchM (stage_alloc g bytes)) (\<lambda>res. case res of
        Inr (ptr, want) \<Rightarrow> retM (ptr, want, True)
      | Inl e \<Rightarrow> bindM (ignoreM (free_vram_on_gpu g dst bytes)) (\<lambda>_. errM e)))
    (staged S g m A b X)"
proof (rule leadsI)
  fix p q :: "'w tiered_pool" and r
  assume p: "calm S {#} m A b X p \<and> all_fit bytes p"
    and run: "bindM (catchM (stage_alloc g bytes)) (\<lambda>res. case res of
        Inr (ptr, want) \<Rightarrow> retM (ptr, want, True)
      | Inl e \<Rightarrow> bindM (ignoreM (free_vram_on_gpu g dst bytes)) (\<lambda>_. errM e)) p = (r, q)"
  obtain r1 p1 where alloc: "stage_alloc g bytes p = (r1, p1)" by force
  from p have step: "case r1 of Ok (ptr, n) \<Rightarrow> n \<le> bytes \<and> calm S (add_mset (g, ptr, n) {#}) m A b X p1
      | _ \<Rightarrow> calm S {#} m A b X p1"
    using calm_stage_alloc [OF _ _ alloc, of S "{#}" m A b X] by blast
  show "case r of Ok st \<Rightarrow> staged S g m A b X st q | _ \<Rightarrow> calm S {#} m A b X q"
  proof (cases r1)
    case (Ok x)
    obtain ptr n where x: "x = (ptr, n)" by force
    have "r = Ok (ptr, n, True)" "q = p1"
      using run unfolding bind_catchM(1) [of "stage_alloc g bytes", OF alloc [unfolded Ok x]] by (simp_all add: retM_run)
    with step buffer_apart [of S g ptr n "{#}" m A b X p1] show ?thesis by (simp add: Ok x staged_def buffer_def)
  next
    case (Err e)
    have "keeps (calm S {#} m A b X) (bindM (ignoreM (free_vram_on_gpu g dst bytes)) (\<lambda>_. errM e :: ('w tiered_pool, usize \<times> usize \<times> bool) op))"
      by (intro calm.keeps_shell)
    moreover have "bindM (ignoreM (free_vram_on_gpu g dst bytes)) (\<lambda>_. errM e) p1 = (r, q)"
      using run unfolding bind_catchM(2) [of "stage_alloc g bytes", OF alloc [unfolded Err]] by simp
    ultimately have q: "calm S {#} m A b X q" and fails: "r \<noteq> Ok st" for st
      using step Err by (auto dest: keepsD simp: bindM_Ok_iff errM_run)
    show ?thesis
    proof (cases r)
      case (Ok st)
      with fails [of st] show ?thesis by simp
    qed (use q in simp_all)
  next
    case Panic
    then show ?thesis using run step
      unfolding bind_catchM(3) [of "stage_alloc g bytes", OF alloc [unfolded Panic]] by auto
  qed
qed

lemma calm_staging:
  fixes pf :: "'w platform"
  assumes shard: "\<And>c. shard = Some c \<Longrightarrow> {dc_host_ptr c ..< dc_host_ptr c + dc_size_bytes c} \<inter> A = {}"
  shows "leads (\<lambda>p :: 'w tiered_pool. calm S {#} m A b X p \<and> all_fit bytes p) (calm S {#} m A b X)
    (case shard of
       Some c \<Rightarrow>
         (if bytes \<le> dc_size_bytes c then retM (dc_host_ptr c, bytes, False)
          else bindM (catchM (stage_alloc g bytes)) (\<lambda>res. case res of
              Inr (ptr, want) \<Rightarrow> retM (ptr, want, True)
            | Inl e \<Rightarrow> bindM (ignoreM (free_vram_on_gpu g dst bytes)) (\<lambda>_. errM e)))
     | None \<Rightarrow>
         bindM (catchM (stage_alloc g bytes)) (\<lambda>res. case res of
              Inr (ptr, want) \<Rightarrow> retM (ptr, want, True)
            | Inl e \<Rightarrow> bindM (ignoreM (free_vram_on_gpu g dst bytes)) (\<lambda>_. errM e)))
    (staged S g m A b X)"
proof -
  have own: "leads (\<lambda>p :: 'w tiered_pool. calm S {#} m A b X p \<and> all_fit bytes p) (calm S {#} m A b X)
      (retM (dc_host_ptr c, bytes, False)) (staged S g m A b X)"
    if c: "shard = Some c" "bytes \<le> dc_size_bytes c" for c
    using shorter_range [OF shard [OF c(1)] c(2)] by (intro leadsI) (auto simp: retM_run staged_def buffer_def)
  show ?thesis using own calm_borrow by (cases shard) auto
qed

lemma calm_access_ssd:
  fixes pf :: "'w platform" and p :: "'w tiered_pool"
  assumes p: "calm S {#} m A b X p" and page: "vmt_lookup (tp_vmt p) n = Some pg" and n: "n = m \<Longrightarrow> A = {}"
  shows "calm S {#} m A b X (snd (access_ssd pf n g now pg (vec_get (pg_dram_chunks pg) g) p))"
proof -
  let ?I = "calm S {#} m A b X :: 'w tiered_pool \<Rightarrow> bool" and ?K = "\<lambda>p :: 'w tiered_pool. calm S {#} m A b X p \<and> all_fit (pg_size_bytes pg) p"
  have S: "S n = Some (pg_dram_chunks pg)" using p page by (auto simp: calm_def layout_def page_shards_def)
  have shard: "{dc_host_ptr c ..< dc_host_ptr c + dc_size_bytes c} \<inter> A = {}"
    if "vec_get (pg_dram_chunks pg) g = Some c" for c
    using calm_apart_shard [OF p S n, of g] that by (auto simp: vec_get_Some)
  have K: "?K p" using p calm_fits [OF p page] by (simp add: all_fit_def)
  have less: "staged S g m A b X st q \<Longrightarrow> ?I q" for st and q :: "'w tiered_pool"
    by (cases st) (auto simp: staged_def intro: calm_less)
  have copy: "keeps (staged S g m A b X st) (catchM (stage_copy pf n g off (fst st) (fst (snd st)) dst bytes))"
    for st off dst bytes
  proof (cases st)
    case (fields ptr len bor)
    have "keeps (staged S g m A b X st) (stage_copy pf n g off ptr len dst bytes)"
    proof (cases "{ptr ..< ptr + len} \<inter> A = {}")
      case True
      then show ?thesis by (simp add: fields staged_def calm_stage_copy)
    qed (simp add: fields staged_def keeps_def)
    then show ?thesis by (simp add: fields keeps_catchM)
  qed
  have give: "leads (staged S g m A b X st) ?I (if snd (snd st) then dram_freeM g (fst st) (fst (snd st)) else retM ()) (\<lambda>_. ?I)" for st
  proof (rule leadsI)
    fix p q :: "'w tiered_pool" and r
    assume "staged S g m A b X st p" and "(if snd (snd st) then dram_freeM g (fst st) (fst (snd st)) else retM ()) p = (r, q)"
    then have "?I q" using calm_return [of S g "fst st" "fst (snd st)" "{#}" m A b X p]
      by (cases st) (auto simp: staged_def buffer_def retM_run split: if_splits)
    then show "case r of Ok x \<Rightarrow> ?I q | _ \<Rightarrow> ?I q" by (cases r) simp_all
  qed
  have last: "leads ?I ?I m' (\<lambda>_. ?I)" if "keeps ?I m'" for m' :: "('w tiered_pool, 'b) op"
    using that by (rule leads_keeps)
  have finish: "leads (staged S g m A b X st) ?I (case st of (stage_ptr, stage_len, borrowed) \<Rightarrow>
      bindM (catchM (stage_copy pf n g off stage_ptr stage_len dst bytes)) (\<lambda>copy_res.
      bindM (if borrowed then dram_freeM g stage_ptr stage_len else retM ()) (\<lambda>_.
      bindM (case copy_res of
               Inl e \<Rightarrow> bindM (ignoreM (free_vram_on_gpu g dst bytes)) (\<lambda>_. errM e)
             | Inr _ \<Rightarrow> retM ()) (\<lambda>_.
      bindM (touchM n now) (\<lambda>_.
      bindM (install_chunk n g dst bytes) (\<lambda>_.
      retM dst)))))) (\<lambda>_. ?I)" for st off dst bytes
  proof -
    have end_: "keeps ?I (bindM (case copy_res of
               Inl e \<Rightarrow> bindM (ignoreM (free_vram_on_gpu g dst bytes)) (\<lambda>_. errM e)
             | Inr _ \<Rightarrow> retM ()) (\<lambda>_.
      bindM (touchM n now) (\<lambda>_.
      bindM (install_chunk n g dst bytes) (\<lambda>_.
      retM dst))))" for copy_res :: "vugva_error + unit"
      unfolding touchM_def by (cases copy_res) (simp_all, (intro calm.keeps_shell TrueI)+)
    obtain ptr len bor where st: "st = (ptr, len, bor)" by (cases st)
    have copied: "leads (staged S g m A b X st) ?I (catchM (stage_copy pf n g off ptr len dst bytes)) (\<lambda>_. staged S g m A b X st)"
      using copy [of st off dst bytes] less by (intro leads_keeps) (simp_all add: st)
    have freed: "leads (staged S g m A b X st) ?I (bindM (if bor then dram_freeM g ptr len else retM ()) (\<lambda>_. f x)) (\<lambda>_. ?I)"
      if "keeps ?I (f x)" for f :: "vugva_error + unit \<Rightarrow> ('w tiered_pool, u64) op" and x
      by (intro leads_bind [OF _ last [OF that]]) (use give [of st] in \<open>simp add: st split del: if_split cong: if_cong\<close>)
    show ?thesis unfolding st prod.case by (rule leads_bind [OF copied [unfolded st] freed [unfolded st, OF end_]])
  qed
  have less_K: "?K q \<Longrightarrow> ?I q" for q :: "'w tiered_pool" by simp
  have "leads ?K ?I (access_ssd pf n g now pg (vec_get (pg_dram_chunks pg) g)) (\<lambda>_. ?I)"
    unfolding access_ssd_def Let_def
    by (intro leads_bind [OF leads_keeps [OF keeps_pure(6) less_K]] leads_bind [OF leads_keeps [OF fitting.keeps_alloc_vram less_K]]
        leads_bind [OF calm_staging [OF shard]] finish)
  from leads_state [OF this K] show ?thesis .
qed

lemma calm_access:
  assumes "n \<in> X \<or> (n = m \<longrightarrow> A = {})" shows "keeps (calm S {#} m A b X) (access pf n g)"
proof (rule calm.access_split)
  fix p :: "'a tiered_pool" and pg now
  assume p: "calm S {#} m A b X p" and page: "vmt_lookup (tp_vmt p) n = Some pg" "pg_tier pg = Ssd"
  then have "n \<notin> X" by (auto simp: calm_def)
  with assms show "calm S {#} m A b X (snd (access_ssd pf n g now pg (vec_get (pg_dram_chunks pg) g) p))"
    by (intro calm_access_ssd [OF p page(1)]) simp
qed simp

section \<open>Demotion and writing\<close>

text \<open>The driver writes no more bytes to the host than it is asked for.\<close>

definition copies_at_most :: "'w platform \<Rightarrow> bool" where
  "copies_at_most pf \<longleftrightarrow> (\<forall>src n s w. length (fst (snd (pf_dtoh_async pf src n s w))) \<le> n)"

lemma shard_area_disjoint:
  "shard_area cs \<inter> A = {} \<longleftrightarrow> (\<forall>c \<in> set cs. {dc_host_ptr c ..< dc_host_ptr c + dc_size_bytes c} \<inter> A = {})"
  unfolding shard_area_def by blast

lemma calm_shards_apart:
  assumes p: "calm S H m A b X p" and n: "S n = Some cs" "n = m \<Longrightarrow> A = {}"
  shows "shard_area cs \<inter> A = {}"
  unfolding shard_area_disjoint using calm_apart_shard [OF p n] by (metis in_set_conv_nth)

lemma calm_copy_to_host:
  fixes pf :: "'w platform"
  assumes pf: "A = {} \<or> copies_at_most pf" and apart: "{dst ..< dst + n} \<inter> A = {}"
  shows "keeps (calm S H m A b X) (copy_to_host pf g dst src n)"
  unfolding copy_to_host_def
proof (intro keeps_bindM calm.keeps_streams keepsI)
  fix stream and p :: "'w tiered_pool" assume p: "calm S H m A b X p"
  obtain rc bs w where run: "pf_dtoh_async pf src n (cs_inner stream) (tp_world p) = (rc, bs, w)" by (metis prod_cases3)
  have "{dst ..< dst + length bs} \<inter> A = {}"
  proof (cases "A = {}")
    case False
    then have "length bs \<le> n" using pf run unfolding copies_at_most_def by (metis fst_conv snd_conv)
    with apart show ?thesis by (rule shorter_range)
  qed simp
  from calm_write [OF calm.world [OF p] this]
  show "calm S H m A b X (snd (case pf_dtoh_async pf src n (cs_inner stream) (tp_world p) of
      (rc, bs, w) \<Rightarrow> (check_cu ''cuMemcpyDtoHAsync_v2'' rc, p\<lparr>tp_world := w, tp_host := mem_write dst bs (tp_host p)\<rparr>)))"
    by (simp add: run)
qed

lemma calm_demote_chunk:
  fixes pf :: "'w platform"
  assumes pf: "A = {} \<or> copies_at_most pf" and apart: "shard_area dram \<inter> A = {}"
  shows "keeps (calm S H m A b X) (demote_chunk pf n dram c)"
proof -
  have writes: "keeps (calm S H m A b X) (copy_to_host pf g (dc_host_ptr d) src (ck_size_bytes c))"
    if "vec_get dram g = Some d" "\<not> dc_size_bytes d < ck_size_bytes c" for g d src
  proof (rule calm_copy_to_host [OF pf])
    have "{dc_host_ptr d ..< dc_host_ptr d + dc_size_bytes d} \<inter> A = {}"
      using apart that(1) unfolding shard_area_disjoint by (auto simp: vec_get_Some)
    then show "{dc_host_ptr d ..< dc_host_ptr d + ck_size_bytes c} \<inter> A = {}"
      by (rule shorter_range) (use that(2) in simp)
  qed
  have body: "keeps (calm S H m A b X) (bindM (ok_or (vec_get dram g) (UnknownAllocation n)) (\<lambda>backing.
     if dc_size_bytes backing < ck_size_bytes c then
       bindM (unwrapM (vec_get (tp_dram_pools p) g)) (\<lambda>d.
         errM (DramOom (ck_size_bytes c) (dc_size_bytes backing) (dp_capacity d)))
     else
       bindM (dmaM (submit_vram_to_dram g (word_of_nat (ck_device_ptr c))
                (word_of_nat (dc_host_ptr backing)) (ck_size_bytes c) 0)) (\<lambda>_.
       bindM (set_context pf g) (\<lambda>_.
       bindM (copy_to_host pf g (dc_host_ptr backing) (ck_device_ptr c) (ck_size_bytes c)) (\<lambda>_.
       bindM (sync_compute pf g) (\<lambda>_.
       free_vram_on_gpu g (ck_device_ptr c) (ck_size_bytes c)))))))" for g and p :: "'w tiered_pool"
  proof (cases "vec_get dram g")
    case None
    then show ?thesis by (simp add: keeps_def ok_or_def bindM_def errM_run)
  next
    case (Some d)
    have ok: "bindM (ok_or (Some d) e) f = f d" for e and f :: "dram_chunk \<Rightarrow> ('w tiered_pool, unit) op"
      by (simp add: fun_eq_iff ok_or_def bindM_def retM_run)
    show ?thesis unfolding Some ok by (intro calm.keeps_shell writes [OF Some])
  qed
  show ?thesis unfolding demote_chunk_def by (rule keeps_read, rule keeps_bindM [OF keeps_pure(6) body])
qed

lemma calm_demote:
  fixes pf :: "'w platform"
  assumes pf: "A = {} \<or> copies_at_most pf" and n: "n = m \<Longrightarrow> A = {}"
  shows "keeps (calm S {#} m A b X) (demote pf n)"
proof (rule keepsI)
  fix p :: "'w tiered_pool" assume p: "calm S {#} m A b X p"
  show "calm S {#} m A b X (snd (demote pf n p))"
  proof (cases "vmt_lookup (tp_vmt p) n")
    case (Some pg)
    then have "S n = Some (pg_dram_chunks pg)" using p by (auto simp: calm_def layout_def page_shards_def)
    from calm_demote_chunk [OF pf calm_shards_apart [OF p this n]]
    have chunks: "keeps (calm S {#} m A b X) (forM (pg_vram_chunks pg) (demote_chunk pf n (pg_dram_chunks pg)))"
      by (rule keeps_forM)
    have retire: "keeps (calm S {#} m A b X) (modify_page n (\<lambda>pg. pg\<lparr>pg_vram_chunks := [], pg_tier := Dram, pg_state := Warm\<rparr>))"
      by (rule keepsI) (auto simp: modify_page_def bindM_def unwrapM_def run_simps calm_modify split: option.split)
    have "keeps (calm S {#} m A b X) (if pg_tier pg \<noteq> Vram \<or> pg_pinned pg then retM ()
     else bindM (forM (pg_vram_chunks pg) (demote_chunk pf n (pg_dram_chunks pg))) (\<lambda>_.
       modify_page n (\<lambda>pg. pg\<lparr>pg_vram_chunks := [], pg_tier := Dram, pg_state := Warm\<rparr>)))"
      by (intro keeps_intros chunks retire)
    with p show ?thesis unfolding demote_def bind_lookupM [OF Some] by (simp add: keeps_def)
  qed (use p in \<open>simp add: demote_def lookupM_run bindM_def\<close>)
qed

text \<open>\<open>write_page\<close> keeps to the shards of its page.\<close>

lemma copy_shards_outside:
  "a \<notin> (\<Union>(ptr, n) \<in> set cs. {ptr ..< ptr + n}) \<Longrightarrow> snd (copy_shards cs data pos mem) a = mem a"
proof (induction cs data pos mem rule: copy_shards.induct)
  case (2 ptr sz rest data pos mem)
  let ?stop = "min (uadd pos sz) (length data)"
  show ?case
  proof (cases "?stop \<le> pos")
    case False
    have "uadd pos sz \<le> pos + sz" by (simp add: uadd_def)
    then have "?stop - pos \<le> sz" by linarith
    then have "mem_write ptr (take (?stop - pos) (drop pos data)) mem a = mem a"
      using "2.prems" by (intro mem_write_outside) (auto simp: not_less)
    with "2.IH" [OF refl False] "2.prems" False show ?thesis by (simp add: Let_def)
  qed (simp add: Let_def)
qed simp

lemma calm_write_page:
  fixes pf :: "'w platform"
  assumes n: "n = m \<Longrightarrow> A = {}"
  shows "keeps (calm S {#} m A b X) (write_page pf n data)"
proof (rule keepsI)
  fix p :: "'w tiered_pool" assume p: "calm S {#} m A b X p"
  have spill: "calm S {#} m A b X (q\<lparr>tp_spill := sp\<rparr>)" if "calm S {#} m A b X q" for q :: "'w tiered_pool" and sp
    using that by (simp add: calm_def layout_def)
  show "calm S {#} m A b X (snd (write_page pf n data p))"
  proof (cases "vmt_lookup (tp_vmt p) n")
    case (Some pg)
    then have "S n = Some (pg_dram_chunks pg)" using p by (auto simp: calm_def layout_def page_shards_def)
    note apart = calm_shards_apart [OF p this n]
    let ?cs = "map (\<lambda>c. (dc_host_ptr c, dc_size_bytes c)) (pg_dram_chunks pg)"
    have "snd (copy_shards ?cs data 0 (tp_host p)) a = tp_host p a" if "a \<in> A" for a
      using apart that by (intro copy_shards_outside) (auto simp: shard_area_def disjoint_iff)
    then have warm: "calm S {#} m A b X (p\<lparr>tp_host := snd (copy_shards ?cs data 0 (tp_host p))\<rparr>)"
      using p by (simp add: calm_def layout_def)
    have io: "keeps (calm S {#} m A b X) (\<lambda>p. case pf_io pf (tp_world p) of (io, w) \<Rightarrow> (Ok io, p\<lparr>tp_world := w\<rparr>))"
      by (rule calm.keeps_world_case)
    have cold: "keeps (calm S {#} m A b X) (spillM e f :: ('w tiered_pool, unit) op)" for e and f :: "(spill_file, unit) op"
      by (rule keepsI) (auto simp: spillM_def spill split: option.split prod.split)
    have spilled: "keeps (calm S {#} m A b X) (bindM (ok_or (pg_ssd_offset pg)
                (UnknownAllocation (n @ '': page is on Tier::Ssd but has no spill offset''))) (\<lambda>offset.
       bindM (spillM (UnknownAllocation (n @ '': page is on Tier::Ssd but no spill file is attached'')) (\<lambda>s. (Ok (), s))) (\<lambda>_.
       bindM (\<lambda>p. case pf_io pf (tp_world p) of (io, w) \<Rightarrow> (Ok io, p\<lparr>tp_world := w\<rparr>)) (\<lambda>io.
       spillM (UnknownAllocation (n @ '': page is on Tier::Ssd but no spill file is attached''))
         (spill_write_at io (mem_write 0 data (\<lambda>_. 0)) 0 k offset)))))" for k
      by (intro calm.keeps_shell io cold)
    show ?thesis unfolding write_page_def bind_lookupM [OF Some]
      using p warm spilled [of "pg_size_bytes pg"] by (simp add: keeps_def errM_run case_prod_beta)
  qed (use p in \<open>simp add: write_page_def lookupM_run bindM_def\<close>)
qed

end
