(* ===== verification/ColdFile.thy ===== *)
theory ColdFile
  imports Ledger
begin

text \<open>
  The spill file of a \<open>TieredPool\<close> (\<open>src/tiered.rs\<close>): the ranges of its pages are reserved, lie apart from
  each other, and the bytes in them change by \<open>write_page\<close> of their page only.
\<close>

section \<open>The ranges of the pages\<close>

definition file_extent :: "u64 \<times> usize \<Rightarrow> nat set" where
  "file_extent e = held_range ra_align e"

definition cold_index :: "vmt \<Rightarrow> string \<Rightarrow> (u64 option \<times> usize) option" where
  "cold_index v n = map_option (\<lambda>pg. (pg_ssd_offset pg, pg_size_bytes pg)) (vmt_lookup v n)"

definition cold_entry :: "u64 option \<times> usize \<Rightarrow> (u64 \<times> usize) multiset" where
  "cold_entry = (\<lambda>(off, n). case off of None \<Rightarrow> {#} | Some o' \<Rightarrow> {#(o', n)#})"

definition cold_ranges :: "(string \<Rightarrow> (u64 option \<times> usize) option) \<Rightarrow> (u64 \<times> usize) multiset" where
  "cold_ranges C = map_blocks cold_entry C"

definition sound_file :: "spill_file \<Rightarrow> (u64 \<times> usize) multiset \<Rightarrow> bool" where
  "sound_file s M \<longleftrightarrow> spill_inv s \<and> apart_ranges file_extent M
     \<and> (\<forall>e \<in># M. ra_fits (sf_alloc s) (snd e) \<and> file_extent e \<subseteq> ra_live (sf_alloc s))"

definition file_ok :: "spill_file option \<Rightarrow> (string \<Rightarrow> (u64 option \<times> usize) option) \<Rightarrow> bool" where
  "file_ok sp C \<longleftrightarrow> finite (dom C) \<and> (case sp of None \<Rightarrow> cold_ranges C = {#} | Some s \<Rightarrow> sound_file s (cold_ranges C))"

lemma sound_file_less: "sound_file s M \<Longrightarrow> L \<subseteq># M \<Longrightarrow> sound_file s L"
  unfolding sound_file_def using apart_ranges_less mset_subset_eqD by meson

lemma sound_file_apart: "sound_file s M \<Longrightarrow> {#a, b#} \<subseteq># M \<Longrightarrow> file_extent a \<inter> file_extent b = {}"
  unfolding sound_file_def by (elim conjE) (rule apart_ranges_two)

lemma file_page:
  assumes "sound_file s (cold_ranges C)" and "finite (dom C)" and "C n = Some (Some off, k)"
  shows "(off, k) \<in># cold_ranges C" "k \<le> ra_align k" "{off ..< off + k} \<subseteq> file_extent (off, k)"
    "file_extent (off, k) \<subseteq> ra_live (sf_alloc s)"
proof -
  show e: "(off, k) \<in># cold_ranges C"
    using map_blocks_split [OF assms(2), of cold_entry n] assms(3) by (simp add: cold_ranges_def cold_entry_def)
  then have "ra_fits (sf_alloc s) k" using assms(1) by (auto simp: sound_file_def)
  then show le: "k \<le> ra_align k" using ra_align_bounds(1) ra_fits_align(2) by blast
  then show "{off ..< off + k} \<subseteq> file_extent (off, k)" by (auto simp: file_extent_def held_range_def)
  show "file_extent (off, k) \<subseteq> ra_live (sf_alloc s)" using e assms(1) by (auto simp: sound_file_def)
qed

lemma file_pages_apart:
  assumes s: "sound_file s (cold_ranges C)" and fin: "finite (dom C)"
    and m: "C m = Some (Some off, k)" and n: "C n = Some (Some off', k')" and "m \<noteq> n"
  shows "file_extent (off, k) \<inter> file_extent (off', k') = {}"
proof (rule sound_file_apart [OF s])
  have "cold_ranges C = cold_ranges (C(n := None)) + {#(off', k')#}"
    using map_blocks_split [OF fin, of cold_entry n] n by (simp add: cold_ranges_def cold_entry_def)
  moreover have "cold_ranges (C(n := None)) = cold_ranges (C(n := None, m := None)) + {#(off, k)#}"
    using map_blocks_split [of "C(n := None)" cold_entry m] fin m \<open>m \<noteq> n\<close> by (simp add: cold_ranges_def cold_entry_def)
  ultimately show "{#(off, k), (off', k')#} \<subseteq># cold_ranges C" by simp
qed

text \<open>A new reservation, and a page that goes.\<close>

lemma sound_file_reserve:
  assumes s: "sound_file s M" and fit: "ra_fits (sf_alloc s) n" and run: "ra_allocate (sf_alloc s) n = (Ok off, a)"
  shows "sound_file (s\<lparr>sf_alloc := a\<rparr>) (add_mset (off, n) M)"
proof -
  have inv: "spill_inv s" using s by (simp add: sound_file_def)
  then have "ra_inv (sf_alloc s)" by (simp add: spill_inv_def)
  note r = ra_allocate_Ok [OF this fit run]
  have new: "file_extent (off, n) \<inter> ra_live (sf_alloc s) = {}" "ra_live a = ra_live (sf_alloc s) \<union> file_extent (off, n)"
    using r(4,5) by (simp_all add: file_extent_def held_range_def)
  have "ra_fits a k \<longleftrightarrow> ra_fits (sf_alloc s) k" for k using r(2) by (simp add: ra_fits_def)
  moreover have "apart_ranges file_extent (add_mset (off, n) M)"
    using s new(1) by (intro apart_ranges_add) (auto simp: sound_file_def)
  ultimately show ?thesis using s fit new(2) r(1,2) inv by (auto simp: sound_file_def spill_inv_def)
qed

lemma file_ok_update:
  assumes "file_ok sp C" and "cold_entry e = {#}" shows "file_ok sp (C(n \<mapsto> e))" "file_ok sp (C(n := None))"
proof -
  have fin: "finite (dom C)" using assms(1) by (simp add: file_ok_def)
  have sub: "cold_ranges (C(n := None)) \<subseteq># cold_ranges C"
    using map_blocks_split [OF fin, of cold_entry n] by (simp add: cold_ranges_def)
  then have none: "cold_ranges C = {#} \<Longrightarrow> cold_ranges (C(n := None)) = {#}" by simp
  show gone: "file_ok sp (C(n := None))"
    using assms(1) fin none sound_file_less [OF _ sub] by (auto simp: file_ok_def split: option.splits)
  have "cold_ranges (C(n \<mapsto> e)) = cold_ranges (C(n := None))"
    using map_blocks_update [OF fin, of cold_entry n e] assms(2) by (simp add: cold_ranges_def)
  with gone fin show "file_ok sp (C(n \<mapsto> e))" by (cases sp) (simp_all add: file_ok_def)
qed

lemma sound_file_write:
  assumes s: "sound_file s (cold_ranges C)" and fin: "finite (dom C)" and n: "C n = Some (Some off, k)" and bs: "length bs \<le> k"
  shows "sound_file (s\<lparr>sf_bytes := pwrite off bs (sf_bytes s)\<rparr>) (cold_ranges C)"
    and "m \<noteq> n \<Longrightarrow> C m = Some (Some off', k') \<Longrightarrow>
      file_range (s\<lparr>sf_bytes := pwrite off bs (sf_bytes s)\<rparr>) off' k' = file_range s off' k'"
proof -
  have inv: "spill_inv s" using s by (simp add: sound_file_def)
  have inside: "off' + k' \<le> length (sf_bytes s) \<or> k' = 0" if "C m = Some (Some off', k')" for m off' k'
    using file_page [OF s fin that] live_in_file [OF inv, of off' k'] by blast
  have fits: "off + length bs \<le> length (sf_bytes s) \<or> bs = []" using inside [OF n] bs by auto
  have len: "length (pwrite off bs (sf_bytes s)) = length (sf_bytes s)"
  proof (cases "bs = []")
    case True
    then show ?thesis by (simp add: pwrite_def)
  next
    case False
    with fits pwrite_length show ?thesis by blast
  qed
  then show "sound_file (s\<lparr>sf_bytes := pwrite off bs (sf_bytes s)\<rparr>) (cold_ranges C)"
    using s by (simp add: sound_file_def spill_inv_def)
  assume mn: "m \<noteq> n" and m: "C m = Some (Some off', k')"
  have "{off' ..< off' + k'} \<inter> {off ..< off + k} = {}"
    using file_pages_apart [OF s fin m n mn] file_page(3) [OF s fin m] file_page(3) [OF s fin n] by blast
  then have "{off ..< off + k} \<inter> {off' ..< off' + k'} = {}" by blast
  from shorter_range [OF this bs] have apart: "{off' ..< off' + k'} \<inter> {off ..< off + length bs} = {}" by blast
  show "file_range (s\<lparr>sf_bytes := pwrite off bs (sf_bytes s)\<rparr>) off' k' = file_range s off' k'"
  proof (cases "bs = [] \<or> k' = 0")
    case False
    with fits inside [OF m] have "off + length bs \<le> length (sf_bytes s)" "off' + k' \<le> length (sf_bytes s)" by simp_all
    from pwrite_other [OF this(1) apart this(2)] show ?thesis by (simp add: file_range_def)
  qed (auto simp: file_range_def pwrite_def)
qed

section \<open>The calls of the pool\<close>

definition filed_ok :: "'w tiered_pool \<Rightarrow> bool" where
  "filed_ok p \<longleftrightarrow> file_ok (tp_spill p) (cold_index (tp_vmt p))"

text \<open>The page \<open>m\<close> keeps its range and the bytes in it.\<close>

definition file_kept :: "string \<Rightarrow> 'w tiered_pool \<Rightarrow> 'w tiered_pool \<Rightarrow> bool" where
  "file_kept m p q \<longleftrightarrow> cold_index (tp_vmt q) m = cold_index (tp_vmt p) m
     \<and> (\<forall>off k. cold_index (tp_vmt p) m = Some (Some off, k) \<longrightarrow>
          (\<exists>s s'. tp_spill p = Some s \<and> tp_spill q = Some s' \<and> file_range s' off k = file_range s off k))"

lemma filed_attached:
  assumes "filed_ok p" and "cold_index (tp_vmt p) m = Some (Some off, k)"
  obtains s where "tp_spill p = Some s" "sound_file s (cold_ranges (cold_index (tp_vmt p)))"
    "finite (dom (cold_index (tp_vmt p)))"
proof -
  let ?C = "cold_index (tp_vmt p)"
  have ok: "file_ok (tp_spill p) ?C" using assms(1) by (simp add: filed_ok_def)
  then have fin: "finite (dom ?C)" by (simp add: file_ok_def)
  have "cold_ranges ?C \<noteq> {#}"
    using map_blocks_split [OF fin, of cold_entry m] assms(2) by (simp add: cold_ranges_def cold_entry_def)
  with ok that fin show thesis by (cases "tp_spill p") (auto simp: file_ok_def)
qed

lemma file_same:
  assumes p: "filed_ok p" and same: "tp_spill q = tp_spill p" "cold_index (tp_vmt q) = cold_index (tp_vmt p)"
  shows "filed_ok q \<and> file_kept m p q"
proof -
  have "file_kept m p q" unfolding file_kept_def same
  proof (intro conjI allI impI)
    fix off k assume "cold_index (tp_vmt p) m = Some (Some off, k)"
    from filed_attached [OF p this] obtain s where "tp_spill p = Some s" .
    then show "\<exists>s s'. tp_spill p = Some s \<and> tp_spill p = Some s' \<and> file_range s' off k = file_range s off k" by simp
  qed simp
  with p same show ?thesis by (simp add: filed_ok_def)
qed

lemma cold_index_modify:
  "(\<And>pg. pg_ssd_offset (f pg) = pg_ssd_offset pg \<and> pg_size_bytes (f pg) = pg_size_bytes pg)
    \<Longrightarrow> cold_index (vmt_modify n f v) = cold_index v"
  by (rule ext) (auto simp: cold_index_def map_option.compositionality o_def)

text \<open>Promotion, demotion and the sweeps leave the file and the ranges alone.\<close>

interpretation file_frame: pool_frame "\<lambda>p. (tp_spill p, cold_index (tp_vmt p)) = x" "\<lambda>_. True" for x
  by unfold_locales (simp_all add: cold_index_modify promoting_def)

context pool_frame
begin

lemma sweep_keeps: assumes all: "\<And>n. may n" shows "keeps I (background_sweep pf fl order)"
proof (rule keepsI)
  fix p assume p: "I p"
  have evict: "keeps I (forM ns (sweep_evict pf))" and keep: "keeps I (forM ns (sweep_keep pf))"
    and dem: "keeps I (forM ns (demote pf))" and prom: "keeps I (forM ns (\<lambda>n. bindM (access pf n 0) (\<lambda>_. retM ())))" for ns
    unfolding sweep_evict_def sweep_keep_def by (intro keeps_intros demote_keeps access_keeps all)+
  show "I (snd (background_sweep pf fl order p))"
  proof (cases "tp_membrane_budget p")
    case (Some budget)
    let ?p = "p\<lparr>tp_membrane := decay fl (tp_membrane p)\<rparr>"
    obtain kept ev where plan: "plan fl (tp_policy p) (sweep_candidates order ?p) budget = (kept, ev)" by force
    have "keeps I (bindM (forM ev (sweep_evict pf)) (\<lambda>_. forM kept (sweep_keep pf)))" by (intro keeps_intros evict keep)
    with membrane [OF p, of "decay fl (tp_membrane p)"] show ?thesis
      by (simp add: background_sweep_def membrane_sweep_def Some Let_def plan keeps_def)
  next
    case None
    obtain now w where c: "pf_clock pf (tp_world p) = (now, w)" by force
    let ?p = "p\<lparr>tp_world := w\<rparr>"
    have "keeps I (bindM (forM (sweep_demotes order now ?p) (demote pf)) (\<lambda>_.
        forM (sweep_promotes order ?p) (\<lambda>n. bindM (access pf n 0) (\<lambda>_. retM ()))))" by (intro keeps_intros dem prom)
    with world [OF p, of w] show ?thesis by (simp add: background_sweep_def None c Let_def keeps_def)
  qed
qed

end

lemma file_frame_calls:
  assumes p: "filed_ok p" and "keeps (\<lambda>q. (tp_spill q, cold_index (tp_vmt q)) = (tp_spill p, cold_index (tp_vmt p))) f"
  shows "filed_ok (snd (f p)) \<and> file_kept m p (snd (f p))"
  using assms(2) by (intro file_same [OF p]) (simp_all add: keeps_def)

text \<open>\<open>write_page\<close> writes to the range of its page.\<close>

lemma file_write_page:
  assumes p: "filed_ok p" and m: "n \<noteq> m"
  shows "filed_ok (snd (write_page pf n data p)) \<and> file_kept m p (snd (write_page pf n data p))"
proof (cases "vmt_lookup (tp_vmt p) n")
  case None
  then show ?thesis by (intro file_same [OF p]) (simp_all add: write_page_def lookupM_run bindM_def)
next
  case (Some pg)
  let ?C = "cold_index (tp_vmt p)"
  consider (same) "length data \<noteq> pg_size_bytes pg \<or> pg_tier pg \<noteq> Ssd \<or> pg_ssd_offset pg = None"
    | (writes) off where "length data = pg_size_bytes pg" "pg_tier pg = Ssd" "pg_ssd_offset pg = Some off" by blast
  then show ?thesis
  proof cases
    case same
    then show ?thesis unfolding write_page_def bind_lookupM [OF Some]
      by (intro file_same [OF p]) (auto simp: errM_run case_prod_beta ok_or_def bindM_def)
  next
    case writes
    have n: "?C n = Some (Some off, length data)" using Some writes by (simp add: cold_index_def)
    from filed_attached [OF p n] obtain s where s: "tp_spill p = Some s" "sound_file s (cold_ranges ?C)" "finite (dom ?C)" .
    obtain io w where io: "pf_io pf (tp_world p) = (io, w)" by force
    obtain e f where wr: "write_all_at io (slice (mem_write 0 data (\<lambda>_. 0)) 0 (length data)) off (sf_bytes s) = (e, f)" by force
    then obtain bs where bs: "f = pwrite off bs (sf_bytes s)" "length bs \<le> length data"
      by (auto simp: write_all_at_def split: io_result.splits)
    note w = sound_file_write [OF s(2,3) n bs(2)]
    let ?q = "p\<lparr>tp_world := w, tp_spill := Some (s\<lparr>sf_bytes := f\<rparr>)\<rparr>"
    have q: "snd (write_page pf n data p) = ?q"
      unfolding write_page_def bind_lookupM [OF Some]
      using wr by (simp add: writes(2,3) writes(1) [symmetric] ok_or_def bindM_def retM_run io spillM_def s(1)
          spill_write_at_def split: option.split)
    have "filed_ok ?q" using w(1) s(3) by (simp add: filed_ok_def file_ok_def bs)
    moreover have "file_kept m p ?q" using w(2) [OF not_sym [OF m]] s(1) by (auto simp: file_kept_def bs)
    ultimately show ?thesis unfolding q by blast
  qed
qed

text \<open>A page that is filed anew, and one that is removed.\<close>

lemma cold_index_filed:
  "cold_index (filed name pg n v) = (cold_index v)(n \<mapsto> (pg_ssd_offset pg, pg_size_bytes pg))"
  by (auto simp: cold_index_def fun_eq_iff)

lemma file_elsewhere:
  assumes p: "filed_ok p" and m: "n \<noteq> m" and q: "filed_ok q" "cold_index (tp_vmt q) m = cold_index (tp_vmt p) m"
    and sp: "tp_spill q = tp_spill p \<or> (\<exists>s s'. tp_spill p = Some s \<and> tp_spill q = Some s' \<and> sf_bytes s' = sf_bytes s)"
  shows "file_kept m p q"
  unfolding file_kept_def
proof (intro conjI allI impI q(2))
  fix off k assume "cold_index (tp_vmt p) m = Some (Some off, k)"
  from filed_attached [OF p this] obtain s where "tp_spill p = Some s" .
  with sp show "\<exists>s s'. tp_spill p = Some s \<and> tp_spill q = Some s' \<and> file_range s' off k = file_range s off k"
    by (auto simp: file_range_def)
qed

lemma file_ok_some:
  assumes "file_ok (Some s) C" and "ra_fits (sf_alloc s) k" and "ra_allocate (sf_alloc s) k = (Ok off, a)"
  shows "file_ok (Some (s\<lparr>sf_alloc := a\<rparr>)) (C(n \<mapsto> (Some off, k)))"
proof -
  have fin: "finite (dom C)" using assms(1) by (simp add: file_ok_def)
  have "sound_file s (cold_ranges (C(n := None)))"
    using file_ok_update(2) [OF assms(1), of "(None, 0)" n] by (simp add: file_ok_def cold_entry_def)
  from sound_file_reserve [OF this assms(2,3)]
  show ?thesis using map_blocks_update [OF fin, of cold_entry n "(Some off, k)"] fin
    by (simp add: file_ok_def cold_ranges_def cold_entry_def)
qed

text \<open>Allocation of a cold page takes a range of the file or nothing, allocation of any other page leaves the file.\<close>

lemma allocate_cold:
  fixes p :: "'w tiered_pool" and name :: string
  assumes "tp_spill p = Some s" and inv: "ra_inv (sf_alloc s)" and fit: "ra_fits (sf_alloc s) (umul (uproduct shape) es)"
  defines "n \<equiv> alloc_name name (tp_vmt p)" and "k \<equiv> umul (uproduct shape) es" and "q \<equiv> snd (tiered_allocate name shape es Ssd p)"
  shows "(tp_spill q = tp_spill p \<and> cold_index (tp_vmt q) = (cold_index (tp_vmt p))(n \<mapsto> (None, k)))
    \<or> (\<exists>off a. ra_allocate (sf_alloc s) k = (Ok off, a) \<and> tp_spill q = Some (s\<lparr>sf_alloc := a\<rparr>)
        \<and> cold_index (tp_vmt q) = (cold_index (tp_vmt p))(n \<mapsto> (Some off, k)))"
proof -
  let ?q = "p\<lparr>tp_vmt := filed name (fresh_page n shape es) n (tp_vmt p)\<rparr>"
  obtain r a where run: "ra_allocate (sf_alloc s) k = (r, a)" by force
  show ?thesis
  proof (cases r)
    case (Ok off)
    let ?r = "?q\<lparr>tp_spill := Some (s\<lparr>sf_alloc := a\<rparr>), tp_vmt := filed name ((fresh_page n shape es)\<lparr>pg_tier := Ssd, pg_state := Cold, pg_ssd_offset := Some off\<rparr>) n (tp_vmt p)\<rparr>"
    have "q = ?r"
      by (simp add: q_def n_def tiered_allocate_def Let_def bindM_run(1) [OF vmtM_allocate])
        (simp add: spillM_def assms(1) spill_reserve_def run [unfolded k_def] Ok bindM_def modify_page_run retM_run)
    moreover have "cold_index (tp_vmt ?r) = (cold_index (tp_vmt p))(n \<mapsto> (Some off, k))"
      by (simp add: cold_index_filed) (simp add: fresh_page_def page_new_def k_def)
    ultimately show ?thesis using run Ok by simp
  next
    case (Err e)
    have "a = sf_alloc s" using ra_allocate_Err(1) [OF inv fit [folded k_def] run [unfolded Err]] .
    then have "q = ?q\<lparr>tp_spill := Some s\<rparr>"
      by (simp add: q_def n_def tiered_allocate_def Let_def bindM_run(1) [OF vmtM_allocate])
        (simp add: spillM_def assms(1) spill_reserve_def run [unfolded k_def] Err bindM_def)
    moreover have "cold_index (tp_vmt ?q) = (cold_index (tp_vmt p))(n \<mapsto> (None, k))"
      by (simp add: cold_index_filed) (simp add: fresh_page_def page_new_def k_def)
    ultimately show ?thesis using assms(1) by simp
  next
    case Panic
    with run ra_allocate_never_panics [of "sf_alloc s" k] show ?thesis by simp
  qed
qed

lemma allocate_not_cold:
  fixes p :: "'w tiered_pool"
  assumes "t \<noteq> Ssd \<or> tp_spill p = None"
  shows "tp_spill (snd (tiered_allocate name shape es t p)) = tp_spill p
    \<and> cold_index (tp_vmt (snd (tiered_allocate name shape es t p)))
        = (cold_index (tp_vmt p))(alloc_name name (tp_vmt p) \<mapsto> (None, umul (uproduct shape) es))"
proof -
  let ?n = "alloc_name name (tp_vmt p)" and ?k = "umul (uproduct shape) es"
  let ?q = "p\<lparr>tp_vmt := filed name (fresh_page ?n shape es) ?n (tp_vmt p)\<rparr>"
  let ?I = "\<lambda>q. (tp_spill q, cold_index (tp_vmt q)) = (tp_spill p, (cold_index (tp_vmt p))(?n \<mapsto> (None, ?k)))"
  have q: "?I ?q" by (simp add: cold_index_filed) (simp add: fresh_page_def page_new_def)
  show ?thesis
  proof (cases "t = Ssd")
    case True
    then have "snd (tiered_allocate name shape es t p) = ?q"
      using assms by (simp add: tiered_allocate_def Let_def bindM_run(1) [OF vmtM_allocate] spillM_def)
        (simp add: spillM_def bindM_def)
    with q show ?thesis by simp
  next
    case False
    have modify: "keeps ?I (modify_page k f)"
      if "\<And>pg. pg_ssd_offset (f pg) = pg_ssd_offset pg \<and> pg_size_bytes (f pg) = pg_size_bytes pg" for k f
      by (rule keepsI) (use that in \<open>auto simp: modify_page_def bindM_def unwrapM_def run_simps cold_index_modify split: option.split\<close>)
    have "keeps ?I (add_shard k t' N i)" for k t' N i
      unfolding add_shard_def Let_def by (intro keeps_intros file_frame.keeps_dramM modify) simp_all
    then have rest: "keeps ?I (bindM (getM (\<lambda>p. length (tp_dram_pools p))) (\<lambda>num_pools.
        bindM (modify_page ?n (\<lambda>pg. pg\<lparr>pg_tier := t\<rparr>)) (\<lambda>_.
        bindM (if num_pools = 0 then panicM else retM ()) (\<lambda>_.
        bindM (forM [0 ..< num_pools] (add_shard ?n ?k num_pools)) (\<lambda>_.
        bindM (modify_page ?n (\<lambda>pg. pg\<lparr>pg_state := tier_state t\<rparr>)) (\<lambda>_.
        retM ?n))))))" (is "keeps ?I ?rest") by (intro keeps_intros modify) simp_all
    have run: "tiered_allocate name shape es t p = ?rest ?q"
      using False by (simp add: tiered_allocate_def Let_def bindM_run(1) [OF vmtM_allocate])
    from rest [unfolded keeps_def, THEN spec, THEN mp, OF q]
    have "?I (snd (tiered_allocate name shape es t p))" unfolding run .
    then show ?thesis by simp
  qed
qed

lemma file_allocate:
  fixes p :: "'w tiered_pool"
  assumes p: "filed_ok p" and fit: "\<And>s. t = Ssd \<Longrightarrow> tp_spill p = Some s \<Longrightarrow> ra_fits (sf_alloc s) (umul (uproduct shape) es)"
    and m: "alloc_name name (tp_vmt p) \<noteq> m"
  shows "filed_ok (snd (tiered_allocate name shape es t p)) \<and> file_kept m p (snd (tiered_allocate name shape es t p))"
proof -
  let ?n = "alloc_name name (tp_vmt p)" and ?k = "umul (uproduct shape) es" and ?C = "cold_index (tp_vmt p)"
  let ?q = "snd (tiered_allocate name shape es t p)"
  have ok: "file_ok (tp_spill p) (?C(?n \<mapsto> (None, ?k)))"
    using p by (intro file_ok_update(1)) (simp_all add: filed_ok_def cold_entry_def)
  have there: "?thesis" if "tp_spill ?q = tp_spill p" "cold_index (tp_vmt ?q) = ?C(?n \<mapsto> (None, ?k))"
  proof -
    have "filed_ok ?q" using ok that by (simp add: filed_ok_def)
    then show ?thesis using that m by (intro conjI file_elsewhere [OF p m]) simp_all
  qed
  show ?thesis
  proof (cases "t \<noteq> Ssd \<or> tp_spill p = None")
    case True
    from allocate_not_cold [OF this] show ?thesis using there by simp
  next
    case False
    then obtain s where s: "t = Ssd" "tp_spill p = Some s" by auto
    have inv: "ra_inv (sf_alloc s)" and old: "file_ok (Some s) ?C"
      using p s by (simp_all add: filed_ok_def file_ok_def sound_file_def spill_inv_def)
    from allocate_cold [OF s(2) inv fit [OF s], of name] there [unfolded s(1)] s(1)
    consider ?thesis | off a where "ra_allocate (sf_alloc s) ?k = (Ok off, a)" "tp_spill ?q = Some (s\<lparr>sf_alloc := a\<rparr>)"
      "cold_index (tp_vmt ?q) = ?C(?n \<mapsto> (Some off, ?k))" by blast
    then show ?thesis
    proof cases
      case (2 off a)
      from file_ok_some [OF old fit [OF s] 2(1), of ?n] have "filed_ok ?q" using 2 by (simp add: filed_ok_def)
      then show ?thesis using 2 s m by (intro conjI file_elsewhere [OF p m]) simp_all
    qed
  qed
qed

text \<open>Where a page has its range, and how long it is, changes only by calls that name the page.\<close>

lemma keeps_run: "keeps I f \<Longrightarrow> I s \<Longrightarrow> I (snd (f s))"
  by (simp add: keeps_def)

definition index_at :: "string \<Rightarrow> (u64 option \<times> usize) option \<Rightarrow> 'w tiered_pool \<Rightarrow> bool" where
  "index_at m x q \<longleftrightarrow> cold_index (tp_vmt q) m = x"

lemma allocate_index:
  fixes p :: "'w tiered_pool"
  assumes m: "alloc_name name (tp_vmt p) \<noteq> m"
  shows "cold_index (tp_vmt (snd (tiered_allocate name shape es t p))) m = cold_index (tp_vmt p) m"
proof -
  let ?n = "alloc_name name (tp_vmt p)"
  let ?x = "cold_index (tp_vmt p) m"
  have modify: "keeps (index_at m ?x) (modify_page ?n f)" for f
    using m by (intro keepsI) (auto simp: index_at_def modify_page_def bindM_def unwrapM_def run_simps cold_index_def split: option.split)
  have spill: "keeps (index_at m ?x) (spillM e f)" for e and f :: "(spill_file, 'c) op"
    by (rule keepsI) (auto simp: spillM_def index_at_def split: option.split prod.split)
  have dram: "keeps (index_at m ?x) (dramM i f)" for i and f :: "(dram_pool, 'c) op"
    by (rule keepsI) (auto simp: dramM_def index_at_def split: prod.split)
  have shard: "keeps (index_at m ?x) (add_shard ?n t' N i)" for t' N i
    unfolding add_shard_def Let_def by (intro keeps_intros dram modify)
  let ?q = "p\<lparr>tp_vmt := filed name (fresh_page ?n shape es) ?n (tp_vmt p)\<rparr>"
  have q: "index_at m ?x ?q" using m by (simp add: index_at_def cold_index_filed)
  show ?thesis
  proof (cases "t = Ssd")
    case True
    have run: "tiered_allocate name shape es t p =
        bindM (spillM (UnknownAllocation (no_spill_message ?n)) (spill_reserve (umul (uproduct shape) es))) (\<lambda>offset.
        bindM (modify_page ?n (\<lambda>pg. pg\<lparr>pg_tier := Ssd, pg_state := Cold, pg_ssd_offset := Some offset\<rparr>)) (\<lambda>_.
        retM ?n)) ?q"
      using True by (simp add: tiered_allocate_def Let_def bindM_run(1) [OF vmtM_allocate])
    have "index_at m ?x (snd (tiered_allocate name shape es t p))"
      unfolding run by (rule keeps_run [where I = "index_at m ?x", OF _ q]) (intro keeps_intros spill modify)
    then show ?thesis by (simp add: index_at_def)
  next
    case False
    have run: "tiered_allocate name shape es t p = bindM (getM (\<lambda>p. length (tp_dram_pools p))) (\<lambda>num_pools.
        bindM (modify_page ?n (\<lambda>pg. pg\<lparr>pg_tier := t\<rparr>)) (\<lambda>_.
        bindM (if num_pools = 0 then panicM else retM ()) (\<lambda>_.
        bindM (forM [0 ..< num_pools] (add_shard ?n (umul (uproduct shape) es) num_pools)) (\<lambda>_.
        bindM (modify_page ?n (\<lambda>pg. pg\<lparr>pg_state := tier_state t\<rparr>)) (\<lambda>_.
        retM ?n))))) ?q"
      using False by (simp add: tiered_allocate_def Let_def bindM_run(1) [OF vmtM_allocate])
    have "index_at m ?x (snd (tiered_allocate name shape es t p))"
      unfolding run by (rule keeps_run [where I = "index_at m ?x", OF _ q]) (intro keeps_intros shard modify)
    then show ?thesis by (simp add: index_at_def)
  qed
qed

lemma write_page_vmt: "tp_vmt (snd (write_page pf n data p)) = tp_vmt p"
proof -
  have look: "snd (lookupM n s) = s" for s :: "'a tiered_pool"
    by (cases "vmt_lookup (tp_vmt s) n") (simp_all add: lookupM_run)
  have "keeps (\<lambda>q. tp_vmt q = v) (write_page pf n data)" for v
    unfolding write_page_def
    by (intro keeps_intros keepsI)
      (auto simp: spillM_def look split: option.splits prod.splits)
  then show ?thesis by (simp add: keeps_def)
qed

lemma deallocate_index:
  assumes "n \<noteq> m" shows "cold_index (tp_vmt (snd (deallocate n p))) m = cold_index (tp_vmt p) m"
proof (cases "vmt_lookup (tp_vmt p) n")
  case None
  then show ?thesis by (simp add: deallocate_def lookupM_run bindM_def)
next
  case (Some pg)
  obtain r p1 where loop: "forM (pg_vram_chunks pg) free_page_vram p = (r, p1)" by force
  have p1: "p1 = p\<lparr>tp_vram_free := tp_vram_free p1\<rparr>"
    using forM_free_page_vram [of "pg_vram_chunks pg" p] loop by simp
  have same: "tp_vmt p1 = tp_vmt p" by (subst p1) simp
  show ?thesis
    unfolding deallocate_def bind_lookupM [OF Some] using assms loop same
    by (cases r) (auto simp: bindM_def modM_run cold_index_def vmt_remove_def vmt_lookup_def)
qed

lemma file_deallocate:
  assumes p: "filed_ok p"
  shows "filed_ok (snd (deallocate n p)) \<and> (n \<noteq> m \<longrightarrow> file_kept m p (snd (deallocate n p)))"
proof (cases "vmt_lookup (tp_vmt p) n")
  case None
  then show ?thesis using file_same [OF p] by (simp add: deallocate_def lookupM_run bindM_def)
next
  case (Some pg)
  obtain r p1 where loop: "forM (pg_vram_chunks pg) free_page_vram p = (r, p1)" by force
  have p1: "p1 = p\<lparr>tp_vram_free := tp_vram_free p1\<rparr>"
    using forM_free_page_vram [of "pg_vram_chunks pg" p] loop by simp
  have same: "tp_spill p1 = tp_spill p" "tp_vmt p1 = tp_vmt p" by (subst p1, simp)+
  show ?thesis
  proof (cases "\<exists>u. r = Ok u")
    case True
    let ?q = "p1\<lparr>tp_dram_pools := offer_to_pools (pg_dram_chunks pg) (tp_dram_pools p1), tp_vmt := snd (vmt_remove n (tp_vmt p1))\<rparr>"
    have q: "snd (deallocate n p) = ?q"
      unfolding deallocate_def bind_lookupM [OF Some] using True loop by (auto simp: bindM_def modM_run)
    have C: "cold_index (tp_vmt ?q) = (cold_index (tp_vmt p))(n := None)"
      by (auto simp: cold_index_def vmt_remove_def vmt_lookup_def fun_eq_iff same)
    have "file_ok (tp_spill p) ((cold_index (tp_vmt p))(n := None))"
      using p by (intro file_ok_update(2) [of _ _ "(None, 0)"]) (simp_all add: filed_ok_def cold_entry_def)
    then have ok: "filed_ok ?q" unfolding filed_ok_def C by (simp add: same)
    have "file_kept m p ?q" if "n \<noteq> m"
    proof (rule file_elsewhere [OF p that ok])
      show "cold_index (tp_vmt ?q) m = cold_index (tp_vmt p) m" unfolding C using that by simp
    qed (simp add: same)
    with ok show ?thesis unfolding q by blast
  next
    case False
    have "snd (deallocate n p) = p1"
      unfolding deallocate_def bind_lookupM [OF Some] using False loop by (cases r) (simp_all add: bindM_def)
    with file_same [OF p, of p1 m] same show ?thesis by simp
  qed
qed

text \<open>A spill file, of a size that has an address, attached while no page has a range of another one.\<close>

lemma cold_ranges_empty:
  assumes "\<And>n off k. C n \<noteq> Some (Some off, k)" shows "cold_ranges C = {#}"
  unfolding cold_ranges_def map_blocks_def
proof (rule sum.neutral, rule ballI)
  fix n assume "n \<in> dom C"
  then obtain off k where n: "C n = Some (off, k)" by auto
  with assms [of n] have "off = None" by (cases off) auto
  with n show "cold_entry (the (C n)) = {#}" by (simp add: cold_entry_def)
qed

lemma file_attach:
  assumes p: "filed_ok p" and none: "\<And>n off k. cold_index (tp_vmt p) n \<noteq> Some (Some off, k)" and cap: "capacity < W64"
  shows "filed_ok (snd (attach_spill pf path capacity u p)) \<and> file_kept m p (snd (attach_spill pf path capacity u p))"
proof -
  let ?C = "cold_index (tp_vmt p)"
  have C: "finite (dom ?C)" "cold_ranges ?C = {#}"
    using p cold_ranges_empty [OF none] by (simp_all add: filed_ok_def file_ok_def)
  have kept: "file_kept m p q" if "tp_vmt q = tp_vmt p" for q
    using none that by (simp add: file_kept_def)
  have "file_ok (Some s) ?C" if "spill_create None e path capacity u = Ok s" for s e
  proof -
    have "e = None" using that by (cases e) (simp_all add: spill_create_def)
    with spill_create_inv [OF cap, of path u s] that C show ?thesis by (simp add: file_ok_def sound_file_def)
  qed
  with p kept show ?thesis
    by (auto simp: attach_spill_def filed_ok_def split: prod.split option.split outcome.split)
qed

end
