(* ===== verification/Isolation.thy ===== *)
theory Isolation
  imports Calm ColdFile Ownership
begin

text \<open>
  What the calls of a \<open>TieredPool\<close> (\<open>src/tiered.rs\<close>) do to the pages they do not name: over every history of
  calls the shards of the pages are apart in the host memory and their ranges are apart in the spill file, and
  a call leaves the bytes that another page has stored there.
\<close>

section \<open>Allocation and release\<close>

lemma layout_filed:
  assumes p: "layout S {#} p" and ok: "pools_ok es" and frames: "map dp_frame es = map dp_frame (tp_dram_pools p)"
    and sound: "sound_extents es (extents (S(n := None)) + chunk_extents (pg_dram_chunks pg))"
    and fit: "all_fit (pg_size_bytes pg) p"
  shows "layout (S(n \<mapsto> pg_dram_chunks pg)) {#} (p\<lparr>tp_dram_pools := es, tp_vmt := filed name pg n (tp_vmt p)\<rparr>)"
proof -
  let ?v = "filed name pg n (tp_vmt p)"
  have S: "finite (dom S)" "page_shards (tp_vmt p) = S" using p by (simp_all add: layout_def)
  have "page_shards ?v = S(n \<mapsto> pg_dram_chunks pg)" using S(2) by (auto simp: page_shards_def fun_eq_iff)
  moreover have "sizes_fit (tp_dram_pools p) ?v"
    using p fit by (auto simp: layout_def sizes_fit_def all_fit_def split: if_splits)
  then have "sizes_fit es ?v" by (rule sizes_fit_frames) (rule frames)
  moreover have "extents (S(n \<mapsto> pg_dram_chunks pg)) = extents (S(n := None)) + chunk_extents (pg_dram_chunks pg)"
    unfolding extents_def by (rule map_blocks_update [OF S(1)])
  ultimately show ?thesis using S(1) ok sound by (simp add: layout_def)
qed

lemma sound_without:
  assumes "finite (dom S)" and "sound_extents ds (extents S + H)" shows "sound_extents ds (extents (S(n := None)))"
proof (rule sound_extents_less [OF assms(2)])
  have "extents (S(n := None)) \<subseteq># extents S"
    using map_blocks_split [OF assms(1), of chunk_extents n] by (simp add: extents_def)
  then show "extents (S(n := None)) \<subseteq># extents S + H" by (rule subset_mset.order_trans) simp
qed

lemma calm_elsewhere:
  assumes p: "calm S {#} m A b X p" and l: "layout S' {#} q" and same: "m \<noteq> n \<Longrightarrow> S' m = S m"
    and n: "n = m \<Longrightarrow> A = {}" and host: "tp_host q = tp_host p"
  shows "calm S' {#} m A b {} q"
  using assms by (cases "m = n") (auto simp: calm_def)

lemma shard_bytes_le: "shard_bytes t N i \<le> t"
proof -
  have "t div N + t mod N \<le> t"
    using div_mult_mod_eq [of t N] by (cases N) (simp_all add: add_mult_distrib2 le_add1 mult.commute)
  moreover have "shard_bytes t N i \<le> t div N + (if i + 1 = N then t mod N else 0)" by (simp add: shard_bytes_def uadd_def)
  ultimately show ?thesis by (simp split: if_splits)
qed

lemma granted_chunks_fit:
  assumes "granted pools ds cs" and "shards_fit pools n" and "map dc_size_bytes cs = map (shard_bytes n (length pools)) [0 ..< length cs]"
  shows "\<forall>i < length cs. dp_fits (pools ! i) (dc_size_bytes (cs ! i))"
proof (intro allI impI)
  fix i assume i: "i < length cs"
  then have "i < length pools" using assms(1) by (simp add: granted_def)
  moreover have "map dc_size_bytes cs ! i = map (shard_bytes n (length pools)) [0 ..< length cs] ! i"
    using assms(3) by simp
  then have "dc_size_bytes (cs ! i) = shard_bytes n (length pools) i" using i by simp
  ultimately show "dp_fits (pools ! i) (dc_size_bytes (cs ! i))" using assms(2) by (simp add: shards_fit_def)
qed

text \<open>An allocation that takes no host memory: of a cold page, or by a pool without DRAM.\<close>

lemma calm_allocate_bare:
  assumes q: "calm S {#} m A b {} (p\<lparr>tp_vmt := filed name (fresh_page n shape es) n (tp_vmt p)\<rparr>)"
    and n: "n = alloc_name name (tp_vmt p)" and bare: "t = Ssd \<or> tp_dram_pools p = []"
  shows "calm S {#} m A b {} (snd (tiered_allocate name shape es t p))"
proof -
  have modify: "keeps (calm S {#} m A b {}) (modify_page n f)"
    if "\<And>pg. pg_dram_chunks (f pg) = pg_dram_chunks pg \<and> pg_size_bytes (f pg) = pg_size_bytes pg" for f
    using that by (intro keepsI) (auto simp: modify_page_def bindM_def unwrapM_def run_simps calm_modify split: option.split)
  have spill: "keeps (calm S {#} m A b {}) (spillM e f)" for e and f :: "(spill_file, 'c) op"
    by (rule keepsI) (auto simp: spillM_def calm_def layout_def split: option.split prod.split)
  let ?rest = "if t = Ssd then
      bindM (spillM (UnknownAllocation (no_spill_message n)) (spill_reserve (umul (uproduct shape) es))) (\<lambda>offset.
      bindM (modify_page n (\<lambda>pg. pg\<lparr>pg_tier := Ssd, pg_state := Cold, pg_ssd_offset := Some offset\<rparr>)) (\<lambda>_.
      retM n))
    else
      bindM (modify_page n (\<lambda>pg. pg\<lparr>pg_tier := t\<rparr>)) (\<lambda>_. panicM)"
  have "tiered_allocate name shape es t p = ?rest (p\<lparr>tp_vmt := filed name (fresh_page n shape es) n (tp_vmt p)\<rparr>)"
  proof (cases "t = Ssd")
    case False
    then have "tp_dram_pools p = []" using bare by simp
    with False show ?thesis
      by (simp add: n tiered_allocate_def Let_def bindM_run(1) [OF vmtM_allocate] run_simps bind_modify_page)
  qed (simp add: n tiered_allocate_def Let_def bindM_run(1) [OF vmtM_allocate])
  moreover have "keeps (calm S {#} m A b {}) ?rest" by (intro keeps_intros spill modify) simp_all
  ultimately show ?thesis using q by (auto simp: keeps_def)
qed

lemma calm_allocate:
  assumes p: "calm S {#} m A b {} p" and fit: "all_fit (umul (uproduct shape) es) p"
    and n: "alloc_name name (tp_vmt p) = m \<Longrightarrow> A = {}"
  shows "\<exists>S'. calm S' {#} m A b {} (snd (tiered_allocate name shape es t p))
    \<and> (alloc_name name (tp_vmt p) \<noteq> m \<longrightarrow> S' m = S m)"
proof -
  let ?n = "alloc_name name (tp_vmt p)" and ?t = "umul (uproduct shape) es"
  let ?fresh = "fresh_page ?n shape es"
  let ?q = "p\<lparr>tp_vmt := filed name ?fresh ?n (tp_vmt p)\<rparr>"
  have l: "layout S {#} p" and S: "finite (dom S)" "sound_extents (tp_dram_pools p) (extents S + {#})"
    and ok: "pools_ok (tp_dram_pools p)" using p by (simp_all add: calm_def layout_def)
  note rest = sound_without [OF S, of ?n]
  have fresh: "pg_dram_chunks ?fresh = []" "pg_size_bytes ?fresh = ?t" by (simp_all add: fresh_page_def page_new_def)
  from layout_filed [OF l ok refl, of ?n ?fresh name] rest fit
  have "layout (S(?n \<mapsto> [])) {#} (p\<lparr>tp_dram_pools := tp_dram_pools p, tp_vmt := filed name ?fresh ?n (tp_vmt p)\<rparr>)"
    by (simp add: fresh)
  then have q: "calm (S(?n \<mapsto> [])) {#} m A b {} ?q"
    by (intro calm_elsewhere [OF p, of _ _ ?n]) (simp_all add: n)
  show ?thesis
  proof (cases "t = Ssd \<or> tp_dram_pools p = []")
    case True
    from calm_allocate_bare [OF q refl True] show ?thesis by (intro exI [of _ "S(?n \<mapsto> [])"]) simp
  next
    case False
    then have some: "tp_dram_pools p \<noteq> []" "t \<noteq> Ssd" by simp_all
    have "shard_bytes ?t N i \<le> ?t" for N i by (rule shard_bytes_le)
    then have fits: "shards_fit (tp_dram_pools p) ?t"
      using fit by (auto simp: shards_fit_def all_fit_def dp_fits_def ra_fits_def intro: le_less_trans [rotated])
    obtain r q' where run: "tiered_allocate name shape es t p = (r, q')" by force
    from tiered_allocate_run [OF ok some(1) fits some(2) run] obtain cs ds st where
      g: "granted (tp_dram_pools p) ds cs"
      and sizes: "map dc_size_bytes cs = map (shard_bytes ?t (length (tp_dram_pools p))) [0 ..< length cs]"
      and q': "q' = p\<lparr>tp_dram_pools := ds, tp_vmt := filed name (sharded_page ?n shape es t st cs) ?n (tp_vmt p)\<rparr>" by blast
    note chunk_fits = granted_chunks_fit [OF g fits sizes]
    have "layout (S(?n \<mapsto> cs)) {#} q'"
      using layout_filed [OF l granted_sound(1) [OF ok rest g chunk_fits] granted_frames [OF ok g chunk_fits],
          of ?n "sharded_page ?n shape es t st cs" name] granted_sound(2) [OF ok rest g chunk_fits] fit
      by (simp add: q')
    then have "calm (S(?n \<mapsto> cs)) {#} m A b {} q'"
      by (intro calm_elsewhere [OF p, of _ _ ?n]) (simp_all add: n q')
    then show ?thesis unfolding run by (intro exI [of _ "S(?n \<mapsto> cs)"]) simp
  qed
qed

lemma calm_deallocate:
  assumes p: "calm S {#} m A b {} p" and n: "n = m \<Longrightarrow> A = {}"
  shows "\<exists>S'. calm S' {#} m A b {} (snd (deallocate n p)) \<and> (n \<noteq> m \<longrightarrow> S' m = S m)"
proof (cases "vmt_lookup (tp_vmt p) n")
  case None
  then show ?thesis using p by (intro exI [of _ S]) (simp add: deallocate_def lookupM_run bindM_def)
next
  case (Some pg)
  let ?cs = "pg_dram_chunks pg"
  obtain r p1 where loop: "forM (pg_vram_chunks pg) free_page_vram p = (r, p1)" by force
  have p1: "p1 = p\<lparr>tp_vram_free := tp_vram_free p1\<rparr>"
    using forM_free_page_vram [of "pg_vram_chunks pg" p] loop by simp
  from calm.caches [OF p] have c1: "calm S {#} m A b {} p1" by (subst p1)
  show ?thesis
  proof (cases r)
    case (Ok u)
    let ?v = "snd (vmt_remove n (tp_vmt p1))"
    have q: "snd (deallocate n p) = p1\<lparr>tp_dram_pools := offer_to_pools ?cs (tp_dram_pools p1), tp_vmt := ?v\<rparr>"
      by (simp add: deallocate_def bind_lookupM [OF Some] bindM_run(1) [where m = "forM (pg_vram_chunks pg) free_page_vram" and s = p, OF loop [unfolded Ok]] modM_run)
    have l: "layout S {#} p1" and S: "finite (dom S)" and ok: "pools_ok (tp_dram_pools p1)"
      and shards: "page_shards (tp_vmt p1) = S" using c1 by (simp_all add: calm_def layout_def)
    have "tp_vmt p1 = tp_vmt p" by (subst p1) simp
    then have "S n = Some ?cs" using Some shards by (auto simp: page_shards_def)
    then have "sound_extents (tp_dram_pools p1) (extents (S(n := None)) + chunk_extents ?cs)"
      using extents_split [OF S] l by (simp add: layout_def)
    note o = offered_sound [OF ok this]
    have removed: "vmt_lookup ?v k = (if k = n then None else vmt_lookup (tp_vmt p1) k)" for k
      by (simp add: vmt_remove_def vmt_lookup_def)
    then have "page_shards ?v = S(n := None)" using shards by (auto simp: page_shards_def fun_eq_iff)
    moreover have "sizes_fit (tp_dram_pools p1) ?v"
      using l removed by (auto simp: layout_def sizes_fit_def split: if_splits)
    then have "sizes_fit (offer_to_pools ?cs (tp_dram_pools p1)) ?v" by (rule sizes_fit_frames) (use o in simp)
    ultimately have "layout (S(n := None)) {#} (snd (deallocate n p))"
      using o S unfolding q by (simp add: layout_def)
    then have "calm (S(n := None)) {#} m A b {} (snd (deallocate n p))"
      by (intro calm_elsewhere [OF c1, of _ _ n]) (simp_all add: n q)
    then show ?thesis by (intro exI [of _ "S(n := None)"]) simp
  next
    case (Err e)
    show ?thesis using c1 by (intro exI [of _ S])
      (simp add: deallocate_def bind_lookupM [OF Some] bindM_run(2) [where m = "forM (pg_vram_chunks pg) free_page_vram" and s = p, OF loop [unfolded Err]])
  next
    case Panic
    show ?thesis using c1 by (intro exI [of _ S])
      (simp add: deallocate_def bind_lookupM [OF Some] bindM_run(3) [where m = "forM (pg_vram_chunks pg) free_page_vram" and s = p, OF loop [unfolded Panic]])
  qed
qed

section \<open>Sweeps\<close>

text \<open>
  A sweep demotes before it promotes, so a page that is in the DRAM tier when it starts is not written
  back by it.
\<close>

lemma keeps_conj: "keeps I m \<Longrightarrow> keeps J m \<Longrightarrow> keeps (\<lambda>p. I p \<and> J p) m"
  by (simp add: keeps_def)

definition calm_warm ::
  "(string \<Rightarrow> dram_chunk list option) \<Rightarrow> string \<Rightarrow> nat set \<Rightarrow> host_memory \<Rightarrow> page \<Rightarrow> 'w tiered_pool \<Rightarrow> bool" where
  "calm_warm S m A b pg p \<longleftrightarrow> calm S {#} m A b {m} p \<and> vmt_lookup (tp_vmt p) m = Some pg"

lemma calm_warm_demote:
  assumes pf: "A = {} \<or> copies_at_most pf" and warm: "pg_tier pg = Dram"
  shows "keeps (calm_warm S m A b pg) (demote pf n)"
proof (cases "n = m")
  case True
  show ?thesis
    using warm by (intro keepsI) (auto simp: calm_warm_def True demote_def bind_lookupM retM_run)
next
  case False
  then show ?thesis unfolding calm_warm_def
    by (intro keeps_conj calm_demote [OF pf] other_page.demote_keeps) simp_all
qed

lemma calm_sweep:
  fixes pf :: "'w platform" and p :: "'w tiered_pool"
  assumes pf: "A = {} \<or> copies_at_most pf" and p: "A = {} \<and> calm S {#} m A b {} p \<or> pg_tier pg = Dram \<and> calm_warm S m A b pg p"
  shows "calm S {#} m A b {} (snd (background_sweep pf fl order p))"
proof -
  define K where "K = (if A = {} then calm S {#} m A b {} else calm_warm S m A b pg :: 'w tiered_pool \<Rightarrow> bool)"
  define J where "J = (if A = {} then calm S {#} m A b {} else calm S {#} m A b {m} :: 'w tiered_pool \<Rightarrow> bool)"
  have less: "calm S {#} m A b X q \<Longrightarrow> calm S {#} m A b {} q" for X and q :: "'w tiered_pool" by (simp add: calm_def)
  have KJ: "K q \<Longrightarrow> J q" and Jc: "J q \<Longrightarrow> calm S {#} m A b {} q" for q
    by (cases "A = {}"; simp add: K_def J_def calm_warm_def less)+
  have Kp: "K p" using p less by (auto simp: K_def calm_warm_def)
  have demote: "keeps K (demote pf n)" for n
    using p calm_demote [OF pf, of n m S b "{}"] calm_warm_demote [OF pf, of pg S m b n]
    by (auto simp: K_def)
  have promote: "keeps J (access pf n g)" for n g
    using calm_access [of n "{m}" m A S b pf g] calm_access [of n "{}" m A S b pf g] by (auto simp: J_def)
  have two: "calm S {#} m A b {} (snd (bindM m1 (\<lambda>_. m2) q))"
    if "keeps K m1" "keeps J m2" "K q" for m1 m2 :: "('w tiered_pool, unit) op" and q
  proof -
    obtain r q1 where m1: "m1 q = (r, q1)" by force
    have "K q1" by (rule keepsD [OF that(1,3) m1])
    with that(2) KJ Jc show ?thesis by (cases r) (simp_all add: bindM_def m1 keeps_def)
  qed
  show ?thesis
  proof (cases "tp_membrane_budget p")
    case (Some budget)
    let ?p = "p\<lparr>tp_membrane := decay fl (tp_membrane p)\<rparr>"
    obtain kept ev where plan: "plan fl (tp_policy p) (sweep_candidates order ?p) budget = (kept, ev)" by force
    have "K ?p" using Kp by (auto simp: K_def calm_warm_def calm.membrane split: if_splits)
    moreover have "keeps K (forM ev (sweep_evict pf))" unfolding sweep_evict_def by (intro keeps_intros demote)
    moreover have "keeps J (forM kept (sweep_keep pf))" unfolding sweep_keep_def by (intro keeps_intros promote)
    ultimately show ?thesis using two by (simp add: background_sweep_def membrane_sweep_def Some Let_def plan)
  next
    case None
    obtain now w where c: "pf_clock pf (tp_world p) = (now, w)" by force
    let ?p = "p\<lparr>tp_world := w\<rparr>"
    have "K ?p" using Kp by (auto simp: K_def calm_warm_def calm.world split: if_splits)
    moreover have "keeps K (forM (sweep_demotes order now ?p) (demote pf))" by (intro keeps_intros demote)
    moreover have "keeps J (forM (sweep_promotes order ?p) (\<lambda>n. bindM (access pf n 0) (\<lambda>_. retM ())))"
      by (intro keeps_intros promote)
    ultimately show ?thesis using two by (simp add: background_sweep_def None c Let_def)
  qed
qed

section \<open>Calls\<close>

text \<open>
  A call asks for memory it could be given: the bytes of an allocation, rounded up and added to the
  capacity of a pool, stay in the 64 bits.
\<close>

fun fits_memory :: "pool_call \<Rightarrow> 'w tiered_pool \<Rightarrow> bool" where
  "fits_memory (Allocate name shape es t) p \<longleftrightarrow> all_fit (umul (uproduct shape) es) p"
| "fits_memory _ p = True"

text \<open>
  The same of the spill file; and no file is attached while a page of the pool has its bytes in the one
  before it.
\<close>

fun fits_file :: "pool_call \<Rightarrow> 'w tiered_pool \<Rightarrow> bool" where
  "fits_file (Allocate name shape es t) p \<longleftrightarrow> t = Ssd \<longrightarrow>
     (case tp_spill p of None \<Rightarrow> True | Some s \<Rightarrow> ra_fits (sf_alloc s) (umul (uproduct shape) es))"
| "fits_file (AttachSpill path capacity unlink) p \<longleftrightarrow> capacity < W64
     \<and> (\<forall>n pg. vmt_lookup (tp_vmt p) n = Some pg \<longrightarrow> pg_ssd_offset pg = None)"
| "fits_file _ p = True"

text \<open>Every call of a history, in the state it is made in.\<close>

fun calls_all ::
  "(pool_call \<Rightarrow> 'w tiered_pool \<Rightarrow> bool) \<Rightarrow> 'w platform \<Rightarrow> (real \<Rightarrow> f64) \<Rightarrow> pool_call list \<Rightarrow> 'w tiered_pool \<Rightarrow> bool" where
  "calls_all P pf fl [] p = True"
| "calls_all P pf fl (c # cs) p \<longleftrightarrow> P c p \<and> calls_all P pf fl cs (snd (pool_do pf fl c p))"

text \<open>The calls that write or free the page \<open>m\<close>.\<close>

fun replaces :: "string \<Rightarrow> 'w tiered_pool \<Rightarrow> pool_call \<Rightarrow> bool" where
  "replaces m p (Allocate name shape es t) \<longleftrightarrow> alloc_name name (tp_vmt p) = m"
| "replaces m p (Deallocate name) \<longleftrightarrow> name = m"
| "replaces m p (WritePage name data) \<longleftrightarrow> name = m"
| "replaces m p _ \<longleftrightarrow> False"

lemma calm_discard: "snd (discard f p) = snd (f p)"
  by (cases "f p"; cases "fst (f p)") (simp_all add: discard_def bindM_def retM_run)

lemma pool_do_calm:
  fixes pf :: "'w platform" and p :: "'w tiered_pool"
  assumes pf: "A = {} \<or> copies_at_most pf" and fit: "fits_memory c p"
    and p: "A = {} \<and> calm S {#} m A b {} p \<or> pg_tier pg = Dram \<and> calm_warm S m A b pg p"
    and other: "A = {} \<or> \<not> replaces m p c"
  shows "\<exists>S'. calm S' {#} m A b {} (snd (pool_do pf fl c p)) \<and> (\<not> replaces m p c \<longrightarrow> S' m = S m)"
proof -
  have less: "calm S {#} m A b X q \<Longrightarrow> calm S {#} m A b {} q" for X and q :: "'w tiered_pool" by (simp add: calm_def)
  then have p0: "calm S {#} m A b {} p" using p by (auto simp: calm_warm_def)
  have stays: ?thesis if "calm S {#} m A b {} (snd (pool_do pf fl c p))" using that by blast
  have go: "calm S {#} m A b {} (snd (f p))" if "keeps (calm S {#} m A b {}) f" for f :: "('w tiered_pool, 'b) op"
    using that p0 by (simp add: keeps_def)
  show ?thesis
  proof (cases c)
    case (Allocate name shape es t)
    from calm_allocate [OF p0, of shape es name t] fit other show ?thesis by (auto simp: Allocate calm_discard)
  next
    case (Deallocate name)
    from calm_deallocate [OF p0, of name] other show ?thesis by (auto simp: Deallocate)
  next
    case (WritePage name data)
    show ?thesis by (rule stays) (use other in \<open>auto simp: WritePage intro!: go calm_write_page\<close>)
  next
    case (Access name g)
    show ?thesis
    proof (cases "A = {}")
      case True
      then have "keeps (calm S {#} m A b {}) (access pf name g)" by (intro calm_access) simp
      from go [OF this] show ?thesis by (intro stays) (simp add: Access calm_discard)
    next
      case False
      with p have "calm S {#} m A b {m} p" by (simp add: calm_warm_def)
      moreover have "keeps (calm S {#} m A b {m}) (access pf name g)" by (rule calm_access) auto
      ultimately have "calm S {#} m A b {m} (snd (access pf name g p))" by (simp add: keeps_def)
      then show ?thesis by (intro stays) (auto simp: Access calm_discard intro: less)
    qed
  next
    case (Prefetch name g)
    show ?thesis by (rule stays) (auto simp: Prefetch intro!: go calm.prefetch_keeps)
  next
    case (Demote name)
    show ?thesis
    proof (cases "A = {}")
      case True
      then have "keeps (calm S {#} m A b {}) (demote pf name)" by (intro calm_demote [OF pf]) simp
      from go [OF this] show ?thesis by (intro stays) (simp add: Demote)
    next
      case False
      with p have w: "pg_tier pg = Dram" "calm_warm S m A b pg p" by simp_all
      with calm_warm_demote [OF pf w(1)] have "calm_warm S m A b pg (snd (demote pf name p))" by (simp add: keeps_def)
      then show ?thesis by (intro stays) (auto simp: Demote calm_warm_def intro: less)
    qed
  next
    case (Sweep order)
    from calm_sweep [OF pf p, of fl order] show ?thesis by (intro stays) (simp add: Sweep)
  next
    case (AttachSpill path capacity unlink)
    have "calm S {#} m A b {} (p\<lparr>tp_world := w, tp_spill := sp\<rparr>)" for w sp
      using p0 by (simp add: calm_def layout_def)
    moreover have "calm S {#} m A b {} (p\<lparr>tp_world := w\<rparr>)" for w using p0 by (rule calm.world)
    ultimately show ?thesis
      by (intro stays) (simp add: AttachSpill attach_spill_def split: prod.split option.split outcome.split)
  next
    case (EnableMembrane budget)
    show ?thesis by (rule stays) (use p0 in \<open>simp add: EnableMembrane modM_run enable_membrane_def calm_def layout_def\<close>)
  qed
qed

text \<open>The spill file likewise.\<close>

lemma pool_do_file_other:
  fixes pf :: "'w platform" and p :: "'w tiered_pool"
  assumes p: "filed_ok p" and fit: "fits_file c p" and other: "\<not> replaces m p c"
  shows "filed_ok (snd (pool_do pf fl c p)) \<and> file_kept m p (snd (pool_do pf fl c p))"
proof (cases c)
  case (Allocate name shape es t)
  have "ra_fits (sf_alloc s) (umul (uproduct shape) es)" if "t = Ssd" "tp_spill p = Some s" for s
    using fit that by (simp add: Allocate)
  from file_allocate [OF p this] other show ?thesis by (simp add: Allocate calm_discard)
next
  case (Deallocate name)
  from file_deallocate [OF p, of name m] other show ?thesis by (simp add: Deallocate)
next
  case (WritePage name data)
  from file_write_page [OF p, of name m] other show ?thesis by (simp add: WritePage)
next
  case (Access name g)
  from file_frame_calls [OF p file_frame.access_keeps [OF TrueI]] show ?thesis by (simp add: Access calm_discard)
next
  case (Prefetch name g)
  from file_frame_calls [OF p file_frame.prefetch_keeps] show ?thesis by (simp add: Prefetch)
next
  case (Demote name)
  from file_frame_calls [OF p file_frame.demote_keeps [OF TrueI]] show ?thesis by (simp add: Demote)
next
  case (Sweep order)
  from file_frame_calls [OF p file_frame.sweep_keeps [OF TrueI]] show ?thesis by (simp add: Sweep)
next
  case (AttachSpill path capacity unlink)
  then have "\<And>n off k. cold_index (tp_vmt p) n \<noteq> Some (Some off, k)" and "capacity < W64"
    using fit by (auto simp: cold_index_def)
  from file_attach [OF p this] show ?thesis by (simp add: AttachSpill)
next
  case (EnableMembrane budget)
  show ?thesis by (rule file_same [OF p]) (simp_all add: EnableMembrane modM_run enable_membrane_def)
qed

text \<open>Where the page has its range stays, whatever happens to the file.\<close>

lemma pool_do_index:
  assumes other: "\<not> replaces m p c"
  shows "cold_index (tp_vmt (snd (pool_do pf fl c p))) m = cold_index (tp_vmt p) m"
proof -
  have same: "cold_index (tp_vmt (snd (f p))) m = cold_index (tp_vmt p) m"
    if "keeps (\<lambda>q. (tp_spill q, cold_index (tp_vmt q)) = (tp_spill p, cold_index (tp_vmt p))) f"
    for f :: "('a tiered_pool, 'b) op"
    using that by (simp add: keeps_def)
  show ?thesis
  proof (cases c)
    case (Allocate name shape es t)
    then show ?thesis using allocate_index [of name p m shape es t] other by (simp add: calm_discard)
  next
    case (Deallocate name)
    then show ?thesis using deallocate_index [of name m p] other by simp
  next
    case (WritePage name data)
    then show ?thesis by (simp add: write_page_vmt)
  next
    case (Access name g)
    from same [OF file_frame.access_keeps [OF TrueI]] show ?thesis by (simp add: Access calm_discard)
  next
    case (Prefetch name g)
    from same [OF file_frame.prefetch_keeps] show ?thesis by (simp add: Prefetch)
  next
    case (Demote name)
    from same [OF file_frame.demote_keeps [OF TrueI]] show ?thesis by (simp add: Demote)
  next
    case (Sweep order)
    from same [OF file_frame.sweep_keeps [OF TrueI]] show ?thesis by (simp add: Sweep)
  next
    case (AttachSpill path capacity unlink)
    then show ?thesis by (simp add: attach_spill_def split: prod.split option.split outcome.split)
  next
    case (EnableMembrane budget)
    then show ?thesis by (simp add: modM_run enable_membrane_def)
  qed
qed

lemma pool_do_filed:
  assumes "filed_ok p" and "fits_file c p" shows "filed_ok (snd (pool_do pf fl c p))"
proof -
  have "\<exists>far. \<not> replaces far p c"
  proof (cases c)
    case (Allocate name shape es t)
    then show ?thesis by (intro exI [of _ "alloc_name name (tp_vmt p) @ ''x''"]) simp
  next
    case (Deallocate name)
    then show ?thesis by (intro exI [of _ "name @ ''x''"]) simp
  next
    case (WritePage name data)
    then show ?thesis by (intro exI [of _ "name @ ''x''"]) simp
  qed simp_all
  with pool_do_file_other [OF assms] show ?thesis by blast
qed

section \<open>Histories\<close>

text \<open>The mappings of the operating system lie in the 64 bits and apart from each other.\<close>

definition mappings_apart :: "dram_pool list \<Rightarrow> bool" where
  "mappings_apart ds \<longleftrightarrow> (\<forall>d \<in> set ds. dp_base_ptr d + dp_capacity d < W64)
     \<and> (\<forall>i j. i < j \<longrightarrow> j < length ds \<longrightarrow> apart (ds ! i) (ds ! j))"

lemma mapM_all:
  assumes "\<And>x s y t. f x s = (Ok y, t) \<Longrightarrow> P y" shows "mapM f xs s = (Ok ys, t) \<Longrightarrow> \<forall>y \<in> set ys. P y"
proof (induction xs arbitrary: ys s)
  case (Cons x xs)
  from Cons.prems obtain y u zs where "f x s = (Ok y, u)" "mapM f xs u = (Ok zs, t)" "ys = y # zs"
    by (auto simp: bindM_Ok_iff retM_run)
  with assms Cons.IH show ?case by fastforce
qed (simp add: retM_run)

lemma new_pool_empty:
  "make_dram_pool pf cl ctx bytes x w = (Ok d, w') \<Longrightarrow> dp_offset d = 0 \<and> dp_free_blocks d = []"
  by (cases x) (auto simp: make_dram_pool_def bindM_Ok_iff retM_run)

lemma tiered_new_layout:
  assumes new: "tiered_new pf fl ords bytes host w = (Ok p, w')" and apart: "mappings_apart (tp_dram_pools p)"
  shows "layout Map.empty {#} p"
proof -
  note parts = tiered_new_parts [OF new]
  obtain u2 u3 where "mapM (make_dram_pool pf (tp_cluster p) (tp_contexts p) bytes) (enumerate 0 ords) u2 = (Ok (tp_dram_pools p), u3)"
    using parts(1) by blast
  from mapM_all [OF new_pool_empty this] have empty: "\<forall>d \<in> set (tp_dram_pools p). dp_offset d = 0 \<and> dp_free_blocks d = []" .
  have "dp_inv d" if d: "d \<in> set (tp_dram_pools p)" for d
  proof -
    have cap: "dp_base_ptr d + dp_capacity d < W64" using apart d by (simp add: mappings_apart_def)
    have "dp_core d = ra_new (dp_capacity d)" using empty d by (simp add: dp_core_def ra_new_def)
    with cap show ?thesis by (simp add: dp_inv_def ra_inv_new)
  qed
  then have "pools_ok (tp_dram_pools p)" using apart by (simp add: pools_ok_def mappings_apart_def)
  moreover have "page_shards (tp_vmt p) = Map.empty" by (simp add: page_shards_def vmt_lookup_def parts fun_eq_iff)
  moreover have "sizes_fit (tp_dram_pools p) (tp_vmt p)" by (simp add: sizes_fit_def vmt_lookup_def parts)
  ultimately show ?thesis by (simp add: layout_def sound_extents_def extents_def map_blocks_def)
qed

definition laid_out :: "'w tiered_pool \<Rightarrow> bool" where
  "laid_out p \<longleftrightarrow> (\<exists>S. layout S {#} p)"

lemma laid_out_calm: "layout S {#} p \<Longrightarrow> calm S {#} m {} b {} p"
  by (simp add: calm_def)

lemma pool_run_laid_out:
  "laid_out p \<Longrightarrow> calls_all fits_memory pf fl cs p \<Longrightarrow> laid_out (pool_run pf fl cs p)"
proof (induction cs arbitrary: p)
  case (Cons c cs)
  then obtain S where "layout S {#} p" by (auto simp: laid_out_def)
  from pool_do_calm [of "{}" pf c p S "[]" "\<lambda>_. 0", where fl = fl] laid_out_calm [OF this] Cons.prems(2)
  obtain S' where "calm S' {#} [] {} (\<lambda>_. 0) {} (snd (pool_do pf fl c p))" by auto
  then have "laid_out (snd (pool_do pf fl c p))" by (auto simp: laid_out_def calm_def)
  with Cons show ?case by simp
qed simp

lemma pool_run_filed:
  "filed_ok p \<Longrightarrow> calls_all fits_file pf fl cs p \<Longrightarrow> filed_ok (pool_run pf fl cs p)"
  by (induction cs arbitrary: p) (simp_all add: pool_do_filed)

lemma tiered_new_filed:
  "tiered_new pf fl ords bytes host w = (Ok p, w') \<Longrightarrow> filed_ok p"
  using tiered_new_parts [of pf fl ords bytes host w p w']
  by (simp add: filed_ok_def file_ok_def cold_index_def cold_ranges_def map_blocks_def vmt_lookup_def dom_def)

section \<open>What the pool promises of its pages\<close>

lemma laid_out_pages:
  assumes p: "laid_out p" and m: "vmt_lookup (tp_vmt p) m = Some pg"
  shows "i < length (pg_dram_chunks pg) \<Longrightarrow> i < length (tp_dram_pools p)
      \<and> dp_base_ptr (tp_dram_pools p ! i) \<le> dc_host_ptr (pg_dram_chunks pg ! i)
      \<and> dc_host_ptr (pg_dram_chunks pg ! i) + dc_size_bytes (pg_dram_chunks pg ! i)
        \<le> dp_base_ptr (tp_dram_pools p ! i) + dp_capacity (tp_dram_pools p ! i)"
    and "vmt_lookup (tp_vmt p) n = Some pg' \<Longrightarrow> m \<noteq> n \<Longrightarrow> shard_area (pg_dram_chunks pg) \<inter> shard_area (pg_dram_chunks pg') = {}"
proof -
  let ?cs = "pg_dram_chunks pg" and ?ds = "tp_dram_pools p"
  obtain S where l: "layout S {#} p" using p by (auto simp: laid_out_def)
  then have fin: "finite (dom S)" and M: "sound_extents ?ds (extents S)" and S: "page_shards (tp_vmt p) = S"
    by (simp_all add: layout_def)
  have Sm: "S m = Some ?cs" using m S by (auto simp: page_shards_def)
  have sub: "chunk_extents ?cs \<subseteq># extents S" using extents_split [OF fin Sm] by simp
  show "i < length ?ds \<and> dp_base_ptr (?ds ! i) \<le> dc_host_ptr (?cs ! i)
      \<and> dc_host_ptr (?cs ! i) + dc_size_bytes (?cs ! i) \<le> dp_base_ptr (?ds ! i) + dp_capacity (?ds ! i)"
    if i: "i < length ?cs"
  proof -
    have "(i, dc_host_ptr (?cs ! i), dc_size_bytes (?cs ! i)) \<in># extents S"
      using mset_subset_eqD [OF sub chunk_extents_nth [OF i]] .
    with M have "extent_in ?ds (i, dc_host_ptr (?cs ! i), dc_size_bytes (?cs ! i))" by (auto simp: sound_extents_def)
    with dp_fits_le [of "?ds ! i" "dc_size_bytes (?cs ! i)"] show ?thesis by (auto simp: extent_in_def)
  qed
  show "shard_area ?cs \<inter> shard_area (pg_dram_chunks pg') = {}"
    if n: "vmt_lookup (tp_vmt p) n = Some pg'" "m \<noteq> n"
  proof -
    have Sn: "S n = Some (pg_dram_chunks pg')" using n(1) S by (auto simp: page_shards_def)
    have calm: "calm S {#} m (shard_area ?cs) (tp_host p) {} p" using l Sm by (auto simp: calm_def)
    have "n = m \<Longrightarrow> shard_area ?cs = {}" using n(2) by simp
    from calm_shards_apart [OF calm Sn this] show ?thesis by blast
  qed
qed

lemma pool_history:
  assumes new: "tiered_new pf fl ords bytes host w = (Ok p, w')" and maps: "mappings_apart (tp_dram_pools p)"
  shows "calls_all fits_memory pf fl cs p \<Longrightarrow> laid_out (pool_run pf fl cs p)"
    and "calls_all fits_file pf fl cs p \<Longrightarrow> filed_ok (pool_run pf fl cs p)"
proof -
  have "laid_out p" using tiered_new_layout [OF new maps] unfolding laid_out_def by blast
  then show "calls_all fits_memory pf fl cs p \<Longrightarrow> laid_out (pool_run pf fl cs p)" by (rule pool_run_laid_out)
  show "calls_all fits_file pf fl cs p \<Longrightarrow> filed_ok (pool_run pf fl cs p)"
    by (rule pool_run_filed [OF tiered_new_filed [OF new]])
qed

text \<open>Two pages on a machine with one GPU.\<close>

abbreviation two_pages :: "pool_call list" where
  "two_pages \<equiv> [Allocate ''a'' [2] 1 Dram, Allocate ''b'' [2] 1 Dram]"

lemma numbering_two_pages:
  "\<exists>p q ca cb. tiered_new numbering_device (\<lambda>_. 0) [0] 4096 (\<lambda>_. 0) (0, []) = (Ok p, (0, []))
    \<and> mappings_apart (tp_dram_pools p) \<and> calls_all fits_memory numbering_device (\<lambda>_. 0) two_pages p
    \<and> calls_all fits_file numbering_device (\<lambda>_. 0) two_pages p
    \<and> q = pool_run numbering_device (\<lambda>_. 0) two_pages p
    \<and> vmt_lookup (tp_vmt q) ''a'' = Some (sharded_page ''a'' [2] 1 Dram Warm [ca]) \<and> dc_host_ptr ca = 65536 \<and> dc_size_bytes ca = 2
    \<and> vmt_lookup (tp_vmt q) ''b'' = Some (sharded_page ''b'' [2] 1 Dram Warm [cb]) \<and> dc_host_ptr cb = 65600 \<and> dc_size_bytes cb = 2"
proof -
  obtain p where new: "tiered_new numbering_device (\<lambda>_. 0) [0] 4096 (\<lambda>_. 0) (0, []) = (Ok p, (0, []))"
    and p: "numbering_ok 0 2 p" and spill: "tp_spill p = None"
    using numbering_start by blast
  obtain ca p1 where a: "tiered_allocate ''a'' [2] 1 Dram p = (Ok ''a'', p1)" "numbering_ok 64 2 p1"
    "tp_vmt p1 = filed ''a'' (sharded_page ''a'' [2] 1 Dram Warm [ca]) ''a'' (tp_vmt p)"
    "dc_size_bytes ca = 2" "dc_host_ptr ca = 65536" "tp_spill p1 = None"
    using numbering_allocate [OF p, of "''a''"] spill by auto
  obtain cb p2 where b: "tiered_allocate ''b'' [2] 1 Dram p1 = (Ok ''b'', p2)"
    "tp_vmt p2 = filed ''b'' (sharded_page ''b'' [2] 1 Dram Warm [cb]) ''b'' (tp_vmt p1)"
    "dc_size_bytes cb = 2" "dc_host_ptr cb = 65600"
    using numbering_allocate [OF a(2), of "''b''"] by auto
  have steps: "snd (pool_do numbering_device (\<lambda>_. 0) (Allocate ''a'' [2] 1 Dram) p) = p1"
    "snd (pool_do numbering_device (\<lambda>_. 0) (Allocate ''b'' [2] 1 Dram) p1) = p2"
    using a(1) b(1) by (simp_all add: calm_discard)
  have "all_fit 2 p" "all_fit 2 p1" and size: "umul (uproduct [2]) (Suc 0) = 2"
    using p a(2) by (simp_all add: all_fit_def numbering_ok_def dp_fits_def dp_core_def ra_fits_def numbering_dram_def
        umul_def uproduct_def W64_def)
  then have fits: "calls_all fits_memory numbering_device (\<lambda>_. 0) two_pages p"
    "calls_all fits_file numbering_device (\<lambda>_. 0) two_pages p"
    using steps by simp_all
  have maps: "mappings_apart (tp_dram_pools p)"
    using p by (simp add: numbering_ok_def mappings_apart_def numbering_dram_def W64_def)
  have "pool_run numbering_device (\<lambda>_. 0) two_pages p = p2" using steps by simp
  with new maps fits a(3,4,5) b(2-4) show ?thesis
    by (intro exI [of _ p] exI [of _ p2] exI [of _ ca] exI [of _ cb]) simp
qed

text \<open>
  Property C8. After any history of calls on a new pool, with whatever outcomes, the shards of two pages have
  no byte in common, and the shard of a page on a GPU lies inside the memory mapped for that GPU. What is
  asked of the history is that no allocation is for a size that, rounded up and added to the capacity of a
  pool, does not fit in 64 bits; and of the operating system, that it maps the pools apart.
\<close>

theorem host_shards_disjoint:
  assumes "tiered_new pf fl ords bytes host w = (Ok p, w')" and "mappings_apart (tp_dram_pools p)"
    and "calls_all fits_memory pf fl cs p" and "q = pool_run pf fl cs p"
    and "vmt_lookup (tp_vmt q) m = Some pg"
  shows "(\<forall>i < length (pg_dram_chunks pg). i < length (tp_dram_pools q)
      \<and> dp_base_ptr (tp_dram_pools q ! i) \<le> dc_host_ptr (pg_dram_chunks pg ! i)
      \<and> dc_host_ptr (pg_dram_chunks pg ! i) + dc_size_bytes (pg_dram_chunks pg ! i)
        \<le> dp_base_ptr (tp_dram_pools q ! i) + dp_capacity (tp_dram_pools q ! i))
    \<and> (\<forall>n pg'. vmt_lookup (tp_vmt q) n = Some pg' \<and> m \<noteq> n \<longrightarrow>
         shard_area (pg_dram_chunks pg) \<inter> shard_area (pg_dram_chunks pg') = {})"
  using laid_out_pages [OF _ assms(5)] pool_history(1) [OF assms(1-3)] assms(4) by blast

theorem host_shards_disjoint_witness:
  "\<exists>(q :: block_world tiered_pool) ca cb. vmt_lookup (tp_vmt q) ''a'' = Some (sharded_page ''a'' [2] 1 Dram Warm [ca])
    \<and> vmt_lookup (tp_vmt q) ''b'' = Some (sharded_page ''b'' [2] 1 Dram Warm [cb])
    \<and> shard_area [ca] \<inter> shard_area [cb] = {} \<and> shard_area [ca] = {65536, 65537} \<and> shard_area [cb] = {65600, 65601}"
proof -
  obtain p q ca cb where new: "tiered_new numbering_device (\<lambda>_. 0) [0] 4096 (\<lambda>_. 0) (0, []) = (Ok p, (0, []))"
    and maps: "mappings_apart (tp_dram_pools p)" and fits: "calls_all fits_memory numbering_device (\<lambda>_. 0) two_pages p"
    and q: "q = pool_run numbering_device (\<lambda>_. 0) two_pages p"
    and a: "vmt_lookup (tp_vmt q) ''a'' = Some (sharded_page ''a'' [2] 1 Dram Warm [ca])"
    and b: "vmt_lookup (tp_vmt q) ''b'' = Some (sharded_page ''b'' [2] 1 Dram Warm [cb])"
    and at: "dc_host_ptr ca = 65536" "dc_size_bytes ca = 2" "dc_host_ptr cb = 65600" "dc_size_bytes cb = 2"
    using numbering_two_pages by blast
  from host_shards_disjoint [OF new maps fits q a, THEN conjunct2, THEN spec, THEN spec, THEN mp, OF conjI, OF b]
  have "shard_area [ca] \<inter> shard_area [cb] = {}" by (simp add: sharded_page_def)
  moreover have "{x ..< x + 2} = {x, Suc x}" for x :: nat by auto
  from this [of 65536] this [of 65600] have "shard_area [ca] = {65536, 65537}" "shard_area [cb] = {65600, 65601}"
    by (simp_all add: shard_area_def at)
  ultimately show ?thesis using a b by (intro exI [of _ q] exI [of _ ca] exI [of _ cb]) simp
qed

lemma slices_same:
  "\<forall>a \<in> shard_area cs. h a = h' a \<Longrightarrow> map (\<lambda>c. slice h (dc_host_ptr c) (dc_size_bytes c)) cs
    = map (\<lambda>c. slice h' (dc_host_ptr c) (dc_size_bytes c)) cs"
  by (auto simp: shard_area_def slice_def)

lemma other_page_kept:
  assumes p: "laid_out p" and pf: "copies_at_most pf" and fit: "fits_memory c p"
    and m: "vmt_lookup (tp_vmt p) m = Some pg" and other: "\<not> replaces m p c"
    and q: "q = snd (pool_do pf fl c p)"
  shows "\<exists>pg'. vmt_lookup (tp_vmt q) m = Some pg' \<and> pg_dram_chunks pg' = pg_dram_chunks pg
    \<and> pg_ssd_offset pg' = pg_ssd_offset pg \<and> pg_size_bytes pg' = pg_size_bytes pg"
    and "pg_tier pg = Dram \<Longrightarrow> map (\<lambda>c. slice (tp_host q) (dc_host_ptr c) (dc_size_bytes c)) (pg_dram_chunks pg)
        = map (\<lambda>c. slice (tp_host p) (dc_host_ptr c) (dc_size_bytes c)) (pg_dram_chunks pg)"
proof -
  let ?cs = "pg_dram_chunks pg"
  obtain S where l: "layout S {#} p" using p by (auto simp: laid_out_def)
  have Sm: "S m = Some ?cs" using l m by (auto simp: layout_def page_shards_def)
  from pool_do_calm [of "{}" pf c p S m "tp_host p", OF _ fit, where fl = fl] l other q
  obtain S0 where S0: "calm S0 {#} m {} (tp_host p) {} q" "S0 m = S m" by (auto simp: calm_def)
  then have "page_shards (tp_vmt q) m = Some ?cs" using Sm by (simp add: calm_def layout_def)
  then obtain pg' where pg': "vmt_lookup (tp_vmt q) m = Some pg'" "pg_dram_chunks pg' = ?cs"
    by (auto simp: page_shards_def)
  have "cold_index (tp_vmt q) m = cold_index (tp_vmt p) m" unfolding q by (rule pool_do_index [OF other])
  with pg' m show "\<exists>pg'. vmt_lookup (tp_vmt q) m = Some pg' \<and> pg_dram_chunks pg' = pg_dram_chunks pg
    \<and> pg_ssd_offset pg' = pg_ssd_offset pg \<and> pg_size_bytes pg' = pg_size_bytes pg"
    by (intro exI [of _ pg']) (simp add: cold_index_def)
  show "map (\<lambda>c. slice (tp_host q) (dc_host_ptr c) (dc_size_bytes c)) ?cs
      = map (\<lambda>c. slice (tp_host p) (dc_host_ptr c) (dc_size_bytes c)) ?cs" if tier: "pg_tier pg = Dram"
  proof (rule slices_same)
    have "calm_warm S m (shard_area ?cs) (tp_host p) pg p" using l m Sm tier by (auto simp: calm_warm_def calm_def)
    with pool_do_calm [of "shard_area ?cs" pf c p S m "tp_host p" pg fl] pf fit tier other q
    obtain S1 where "calm S1 {#} m (shard_area ?cs) (tp_host p) {} q" by auto
    then show "\<forall>a \<in> shard_area ?cs. tp_host q a = tp_host p a" by (simp add: calm_def)
  qed
qed

lemma other_range_kept:
  assumes p: "filed_ok p" and fit: "fits_file c p" and other: "\<not> replaces m p c"
    and m: "vmt_lookup (tp_vmt p) m = Some pg" "pg_ssd_offset pg = Some off" and q: "q = snd (pool_do pf fl c p)"
  shows "\<exists>s s'. tp_spill p = Some s \<and> tp_spill q = Some s'
    \<and> file_range s' off (pg_size_bytes pg) = file_range s off (pg_size_bytes pg)"
proof -
  have "file_kept m p q" using pool_do_file_other [OF p fit other] q by blast
  moreover have "cold_index (tp_vmt p) m = Some (Some off, pg_size_bytes pg)" using m by (simp add: cold_index_def)
  ultimately show ?thesis by (simp add: file_kept_def)
qed

text \<open>
  Property C5. At the end of any history of calls on a new pool, a call that does not allocate, release or
  write the page \<open>m\<close> leaves it in the table with its shards and with its range of the spill file; when the
  page is in the DRAM tier the bytes of its shards stay. That asks of the calls only that no allocation is for
  a size that, rounded up and added to the capacity of a pool, does not fit in 64 bits; and of the machine
  that the pools are mapped apart and a copy to the host delivers at most the bytes asked for. The bytes of its range
  of the spill file stay too when the same holds of the capacity of the file and no call attaches a file
  while a page has a range of the one before: \<open>attach_spill\<close> then drops a file that pages still need.
\<close>

theorem stored_pages_isolated:
  assumes "tiered_new pf fl ords bytes host w = (Ok p, w')" and "mappings_apart (tp_dram_pools p)"
    and "calls_all fits_memory pf fl cs p" and "q = pool_run pf fl cs p" and "copies_at_most pf" and "fits_memory c q"
    and "vmt_lookup (tp_vmt q) m = Some pg" and "\<not> replaces m q c" and "q' = snd (pool_do pf fl c q)"
  shows "(\<exists>pg'. vmt_lookup (tp_vmt q') m = Some pg' \<and> pg_dram_chunks pg' = pg_dram_chunks pg
        \<and> pg_ssd_offset pg' = pg_ssd_offset pg \<and> pg_size_bytes pg' = pg_size_bytes pg)
    \<and> (pg_tier pg = Dram \<longrightarrow> map (\<lambda>c. slice (tp_host q') (dc_host_ptr c) (dc_size_bytes c)) (pg_dram_chunks pg)
        = map (\<lambda>c. slice (tp_host q) (dc_host_ptr c) (dc_size_bytes c)) (pg_dram_chunks pg))
    \<and> (\<forall>off. pg_ssd_offset pg = Some off \<and> calls_all fits_file pf fl cs p \<and> fits_file c q \<longrightarrow>
        (\<exists>s s'. tp_spill q = Some s \<and> tp_spill q' = Some s'
          \<and> file_range s' off (pg_size_bytes pg) = file_range s off (pg_size_bytes pg)))"
proof -
  note h = pool_history [OF assms(1,2), where cs = cs, folded assms(4)]
  from other_page_kept [OF h(1) [OF assms(3)] assms(5-9)] other_range_kept [OF h(2) _ assms(8,7) _ assms(9)]
  show ?thesis by blast
qed

theorem stored_pages_isolated_witness:
  "\<exists>q q' ca pg. vmt_lookup (tp_vmt q) ''a'' = Some (sharded_page ''a'' [2] 1 Dram Warm [ca])
    \<and> q' = snd (pool_do numbering_device (\<lambda>_. 0) (WritePage ''b'' [3, 4]) q)
    \<and> vmt_lookup (tp_vmt q') ''a'' = Some pg \<and> pg_dram_chunks pg = [ca]
    \<and> slice (tp_host q') (dc_host_ptr ca) 2 = slice (tp_host q) (dc_host_ptr ca) 2"
proof -
  obtain p q ca where new: "tiered_new numbering_device (\<lambda>_. 0) [0] 4096 (\<lambda>_. 0) (0, []) = (Ok p, (0, []))"
    and maps: "mappings_apart (tp_dram_pools p)" and fits: "calls_all fits_memory numbering_device (\<lambda>_. 0) two_pages p"
    and q: "q = pool_run numbering_device (\<lambda>_. 0) two_pages p"
    and a: "vmt_lookup (tp_vmt q) ''a'' = Some (sharded_page ''a'' [2] 1 Dram Warm [ca])"
    and at: "dc_size_bytes ca = 2"
    using numbering_two_pages by blast
  have "copies_at_most numbering_device"
    by (simp add: copies_at_most_def numbering_device_def idle_platform_def)
  from stored_pages_isolated [OF new maps fits q this _ a _ refl, of "WritePage ''b'' [3, 4]"] at
  obtain pg where "vmt_lookup (tp_vmt (snd (pool_do numbering_device (\<lambda>_. 0) (WritePage ''b'' [3, 4]) q))) ''a'' = Some pg"
    "pg_dram_chunks pg = [ca]"
    "slice (tp_host (snd (pool_do numbering_device (\<lambda>_. 0) (WritePage ''b'' [3, 4]) q))) (dc_host_ptr ca) 2
      = slice (tp_host q) (dc_host_ptr ca) 2"
    by (auto simp: sharded_page_def)
  with a show ?thesis by blast
qed

section \<open>A second spill file\<close>

lemma attach_run:
  assumes "pf_open pf path (tp_world p) = (None, w1)" and "pf_set_len pf path capacity w1 = (None, w2)"
  shows "attach_spill pf path capacity unlink p = (Ok (), p\<lparr>tp_world := drop_spill pf (tp_spill p) w2,
    tp_spill := Some \<lparr>sf_bytes = replicate capacity 0, sf_path = path, sf_alloc = ra_new capacity,
      sf_unlink_on_drop = unlink\<rparr>\<rparr>)"
  using assms by (simp add: attach_spill_def spill_create_def)

text \<open>The first cold page of a new file is at its start.\<close>

definition cold_page :: "string \<Rightarrow> usize list \<Rightarrow> usize \<Rightarrow> u64 \<Rightarrow> page" where
  "cold_page n shape es off =
     (fresh_page n shape es)\<lparr>pg_tier := Ssd, pg_state := Cold, pg_ssd_offset := Some off\<rparr>"

lemma first_cold_page:
  assumes s: "tp_spill p = Some s" "sf_alloc s = ra_new capacity" and n: "n \<noteq> []"
    and room: "ra_align (umul (uproduct shape) es) \<le> capacity" "capacity < W64"
  shows "\<exists>a. tiered_allocate n shape es Ssd p = (Ok n, p\<lparr>tp_spill := Some (s\<lparr>sf_alloc := a\<rparr>),
    tp_vmt := filed n (cold_page n shape es 0) n (tp_vmt p)\<rparr>)"
proof -
  let ?k = "umul (uproduct shape) es"
  have "ra_align ?k < W64" using room by simp
  then have run: "ra_allocate (sf_alloc s) ?k = (Ok 0, (ra_new capacity)\<lparr>ra_offset := ra_align ?k\<rparr>)"
    using room by (simp add: s(2) ra_allocate_def ra_new_def Let_def uadd_exact)
  have name: "alloc_name n (tp_vmt p) = n" using n by (simp add: alloc_name_def)
  show ?thesis
    by (intro exI [of _ "(ra_new capacity)\<lparr>ra_offset := ra_align ?k\<rparr>"])
      (simp add: tiered_allocate_def Let_def bindM_run(1) [OF vmtM_allocate] name,
        simp add: spillM_def s(1) spill_reserve_def run bindM_def modify_page_run retM_run cold_page_def)
qed

text \<open>
  Property C25. \<open>attach_spill\<close> replaces the file under the pages that have their bytes in it. It succeeds, the
  table keeps such a page \<open>m\<close> with its offset, but what the new file has there are zeros. The allocator of
  the new file does not know the range either: the next cold page gets the start of the file, so when it is
  large enough to reach \<open>m\<close>, what is written to it is what \<open>m\<close> reads back. All calls succeed.
\<close>

theorem attach_spill_drops_pages:
  assumes page: "vmt_lookup (tp_vmt p) m = Some pg" "pg_ssd_offset pg = Some off"
    and disk: "pf_open pf path (tp_world p) = (None, w1)" "pf_set_len pf path capacity w1 = (None, w2)"
      "\<forall>w. fst (pf_io pf w) = IoDone"
    and k: "k \<noteq> []" "k \<noteq> m" and data: "length data = umul (uproduct shape) es"
    and room: "ra_align (length data) \<le> capacity" "length data \<le> capacity" "capacity < W64"
    and over: "off + pg_size_bytes pg \<le> length data"
  shows "\<exists>q s q1 q2 s2. attach_spill pf path capacity unlink p = (Ok (), q) \<and> tp_vmt q = tp_vmt p
    \<and> tp_spill q = Some s \<and> file_range s off (pg_size_bytes pg) = replicate (pg_size_bytes pg) 0
    \<and> tiered_allocate k shape es Ssd q = (Ok k, q1) \<and> write_page pf k data q1 = (Ok (), q2)
    \<and> vmt_lookup (tp_vmt q2) m = Some pg \<and> tp_spill q2 = Some s2
    \<and> file_range s2 off (pg_size_bytes pg) = take (pg_size_bytes pg) (drop off data)"
proof -
  let ?n = "pg_size_bytes pg"
  define s where "s = \<lparr>sf_bytes = replicate capacity 0, sf_path = path, sf_alloc = ra_new capacity,
      sf_unlink_on_drop = unlink\<rparr>"
  define q where "q = p\<lparr>tp_world := drop_spill pf (tp_spill p) w2, tp_spill := Some s\<rparr>"
  have q: "attach_spill pf path capacity unlink p = (Ok (), q)"
    unfolding q_def s_def by (rule attach_run [OF disk(1,2)])
  have s: "tp_spill q = Some s" "sf_alloc s = ra_new capacity" by (simp_all add: q_def s_def)
  have zeros: "file_range s off ?n = replicate ?n 0"
    using over room(2) by (simp add: file_range_def s_def min_def)
  from first_cold_page [OF s k(1) _ room(3), of shape es] room(1) data obtain a where
    alloc: "tiered_allocate k shape es Ssd q = (Ok k, q\<lparr>tp_spill := Some (s\<lparr>sf_alloc := a\<rparr>),
      tp_vmt := filed k (cold_page k shape es 0) k (tp_vmt q)\<rparr>)" by auto
  define q1 where "q1 = q\<lparr>tp_spill := Some (s\<lparr>sf_alloc := a\<rparr>), tp_vmt := filed k (cold_page k shape es 0) k (tp_vmt q)\<rparr>"
  obtain w3 where io: "pf_io pf (tp_world q1) = (IoDone, w3)" using disk(3) by (metis prod.collapse)
  have new: "vmt_lookup (tp_vmt q1) k = Some (cold_page k shape es 0)" "pg_tier (cold_page k shape es 0) = Ssd"
    "pg_ssd_offset (cold_page k shape es 0) = Some 0" "length data = pg_size_bytes (cold_page k shape es 0)"
    by (simp_all add: q1_def cold_page_def) (simp add: data fresh_page_def page_new_def)
  have "tp_spill q1 = Some (s\<lparr>sf_alloc := a\<rparr>)" by (simp add: q1_def)
  note wr = write_cold_run [OF new this io]
  let ?s2 = "s\<lparr>sf_alloc := a, sf_bytes := pwrite 0 data (sf_bytes s)\<rparr>"
  let ?q2 = "q1\<lparr>tp_world := w3, tp_spill := Some ?s2\<rparr>"
  have "file_range ?s2 off ?n = take ?n (drop off data)"
    using over by (cases "data = []") (simp_all add: file_range_def pwrite_def)
  moreover have "vmt_lookup (tp_vmt ?q2) m = Some pg" using page k by (simp add: q1_def q_def)
  ultimately show ?thesis
    using q s zeros alloc wr
    by (intro exI [of _ q] exI [of _ s] exI [of _ q1] exI [of _ ?q2] exI [of _ ?s2]) (simp add: q1_def [symmetric], simp add: q_def)
qed

theorem attach_spill_drops_pages_witness:
  "\<exists>q q1 q2 s2. attach_spill memory_machine ''/nvme/b'' 256 True cold_sample = (Ok (), q)
    \<and> tiered_allocate ''k'' [128] 1 Ssd q = (Ok ''k'', q1) \<and> write_page memory_machine ''k'' (replicate 128 7) q1 = (Ok (), q2)
    \<and> tp_spill q2 = Some s2 \<and> file_range s2 64 3 = [7, 7, 7]"
proof -
  let ?pg = "(fresh_page ''c'' [3] 1)\<lparr>pg_tier := Ssd, pg_state := Cold, pg_ssd_offset := Some 64\<rparr>"
  have page: "vmt_lookup (tp_vmt cold_sample) ''c'' = Some ?pg" "pg_ssd_offset ?pg = Some 64" and n: "pg_size_bytes ?pg = 3"
    by (simp_all add: cold_sample_def fresh_page_def page_new_def uproduct_def umul_def W64_def)
  have disk: "pf_open memory_machine ''/nvme/b'' (tp_world cold_sample) = (None, tp_world cold_sample)"
    "pf_set_len memory_machine ''/nvme/b'' 256 (tp_world cold_sample) = (None, tp_world cold_sample)"
    "\<forall>w. fst (pf_io memory_machine w) = IoDone" by (simp_all add: memory_machine_def idle_platform_def)
  have sizes: "length (replicate 128 (7 :: byte)) = umul (uproduct [128]) 1" "ra_align (length (replicate 128 (7 :: byte))) \<le> 256"
    "length (replicate 128 (7 :: byte)) \<le> 256" "(256 :: nat) < W64" "64 + pg_size_bytes ?pg \<le> length (replicate 128 (7 :: byte))"
    using n by (simp_all add: umul_def uproduct_def ra_align_mod W64_def)
  from attach_spill_drops_pages [OF page disk _ _ sizes, of "''k''" True] n
  show ?thesis by (auto simp: numeral_3_eq_3)
qed

end
