(* ===== verification/EngineCalls.thy ===== *)
theory EngineCalls
  imports Engine PoolTypes
begin

text \<open>
  The calls of a \<open>VugvaEngine\<close> (\<open>src/allocator.rs\<close>) and their histories: which states they are made
  for, that no call panics there, and what they leave in the table.
\<close>

section \<open>Well-formed engines\<close>

text \<open>
  An engine over \<open>N\<close> GPUs: one ordinal and compute stream per GPU, an index for each ordinal; pages with
  an element size, and chunks on GPUs of the cluster whose pointers satisfy \<open>P\<close>. \<open>D\<close> are pages known to be in the table.
\<close>

definition cluster_typed :: "nat \<Rightarrow> gpu_cluster \<Rightarrow> bool" where
  "cluster_typed N C \<longleftrightarrow> 0 < N \<and> length (gc_ordinals C) = N \<and> (\<forall>ord g. index_of C ord = Some g \<longrightarrow> g < N)
     \<and> (\<forall>ord \<in> set (gc_ordinals C). index_of C ord \<noteq> None)"

definition engine_typed :: "(u64 \<Rightarrow> bool) \<Rightarrow> gpu_cluster \<Rightarrow> nat \<Rightarrow> string set \<Rightarrow> 'w engine \<Rightarrow> bool" where
  "engine_typed P C N D e \<longleftrightarrow> en_cluster e = C \<and> cluster_typed N C \<and> length (st_compute (en_streams e)) = N
     \<and> (\<forall>n pg. vmt_lookup (en_vmt e) n = Some pg \<longrightarrow> pg_element_size pg \<noteq> 0
          \<and> (\<forall>c \<in> set (pg_vram_chunks pg). index_of C (ck_gpu_ordinal c) \<noteq> None \<and> P (ck_device_ptr c)))
     \<and> (\<forall>n \<in> D. vmt_lookup (en_vmt e) n \<noteq> None)"

lemma engine_typed_less: "engine_typed P C N D e \<Longrightarrow> E \<subseteq> D \<Longrightarrow> engine_typed P C N E e"
  unfolding engine_typed_def by blast

lemma engine_typed_world [simp]: "engine_typed P C N D (e\<lparr>en_world := w\<rparr>) = engine_typed P C N D e"
  by (simp add: engine_typed_def)

lemma engine_typed_page:
  assumes "engine_typed P C N D e" and "vmt_lookup (en_vmt e) n = Some pg"
  shows "pg_element_size pg \<noteq> 0" "c \<in> set (pg_vram_chunks pg) \<Longrightarrow> index_of C (ck_gpu_ordinal c) \<noteq> None \<and> P (ck_device_ptr c)"
    "engine_typed P C N (insert n D) e"
  using assms unfolding engine_typed_def by blast+

section \<open>The parts of the operations\<close>

lemma sure_driver [sure_intros]:
  "sound_op (\<lambda>_. True) (cu_call name f)" "sound_op (\<lambda>_. True) (cu_get name g)" "sound_op (\<lambda>_. True) (registry_get r i)"
  by (auto intro!: sureI simp: cu_call_def cu_get_def check_cu_def registry_get_def ok_or_def run_simps
      split: prod.splits option.splits if_splits)

lemma sure_fst: "sound_op (\<lambda>_. True) m \<Longrightarrow> fst (m w) \<noteq> Panic"
  by (cases "m w") (auto dest: sureD)

lemma device_sure:
  "fst (set_device pf a i w) \<noteq> Panic" "fst (free_vram pf a i w) \<noteq> Panic" "fst (alloc_device pf a i n w) \<noteq> Panic"
  "fst (free_device pf a i x w) \<noteq> Panic" "fst (peer_copy_async pf a s sp d dp n st w) \<noteq> Panic"
  "fst (stream_synchronize pf s' w) \<noteq> Panic"
  unfolding set_device_def ua_context_def free_vram_def alloc_device_def free_device_def peer_copy_async_def
    registry_bind_def pc_bind_def stream_synchronize_def case_prod_beta
  by (intro sure_fst sure_intros)+

lemma sure_worldE [sure_intros]:
  assumes m: "\<And>a w. fst (m a w) \<noteq> Panic" shows "sound_op (engine_typed P C N D) (worldE m)"
proof (rule sureI)
  fix e r t assume e: "engine_typed P C N D e" and "worldE m e = (r, t)"
  then obtain w where "m (en_allocator e) (en_world e) = (r, w)" "t = e\<lparr>en_world := w\<rparr>"
    by (auto simp: worldE_def split: prod.splits)
  with e m [of "en_allocator e" "en_world e"] show "engine_typed P C N D t \<and> r \<noteq> Panic \<and> (\<forall>x. r = Ok x \<longrightarrow> True)" by simp
qed

text \<open>The driver's pointers.\<close>

definition pointers :: "'w platform \<Rightarrow> (u64 \<Rightarrow> bool) \<Rightarrow> bool" where
  "pointers pf P \<longleftrightarrow> (\<forall>n w x w'. pf_mem_alloc pf n w = (0, x, w') \<longrightarrow> P x)"

lemma sure_alloc_device:
  assumes "pointers pf P" shows "sure (engine_typed P C N D) (worldE (\<lambda>a. alloc_device pf a i n)) P"
proof (rule sureI)
  fix e r t assume e: "engine_typed P C N D e" and run: "worldE (\<lambda>a. alloc_device pf a i n) e = (r, t)"
  have "r = Ok x \<Longrightarrow> P x" for x
    using run assms
    by (auto simp: worldE_def alloc_device_def bindM_Ok_iff cu_get_cases pointers_def split: prod.splits)
  moreover have "sound_op (engine_typed P C N D) (worldE (\<lambda>a. alloc_device pf a i n))" by (intro sure_worldE device_sure)
  note sureD [OF this e run]
  ultimately show "engine_typed P C N D t \<and> r \<noteq> Panic \<and> (\<forall>x. r = Ok x \<longrightarrow> P x)" by blast
qed

lemma engine_typed_modify:
  assumes "engine_typed P C N D e" and f: "\<And>pg. pg_element_size (f pg) = pg_element_size pg"
    and c: "\<And>pg c. c \<in> set (pg_vram_chunks (f pg)) \<Longrightarrow> c \<in> set (pg_vram_chunks pg)
      \<or> index_of C (ck_gpu_ordinal c) \<noteq> None \<and> P (ck_device_ptr c)"
  shows "engine_typed P C N D (e\<lparr>en_vmt := vmt_modify n f (en_vmt e)\<rparr>)"
  using assms(1) unfolding engine_typed_def
  by (auto simp: f dest!: c)

lemma sure_modifyE [sure_intros]:
  assumes "n \<in> D" and f: "\<And>pg. pg_element_size (f pg) = pg_element_size pg \<and> pg_vram_chunks (f pg) = pg_vram_chunks pg"
  shows "sound_op (engine_typed P C N D) (modifyE n f)"
proof (rule sureI)
  fix e r t assume e: "engine_typed P C N D e" and run: "modifyE n f e = (r, t)"
  then obtain pg where "vmt_lookup (en_vmt e) n = Some pg" using assms(1) by (auto simp: engine_typed_def)
  from run modifyE_run [OF this, of f] have t: "r = Ok ()" "t = e\<lparr>en_vmt := vmt_modify n f (en_vmt e)\<rparr>" by simp_all
  with engine_typed_modify [OF e, of f n] f show "engine_typed P C N D t \<and> r \<noteq> Panic \<and> (\<forall>x. r = Ok x \<longrightarrow> True)" by simp
qed

section \<open>Allocation\<close>

lemma sure_fits [sure_intros]: "sound_op (engine_typed P C N D) (fits_first_gpu pf n)"
  unfolding fits_first_gpu_def
  by (intro sure_if sure_bindM [OF sure_catchM [OF sure_worldE]] device_sure sure_pure)

lemma vmtE_allocate:
  "vmtE (vmt_allocate name shape es) e
     = (Ok (alloc_name name (en_vmt e)), e\<lparr>en_vmt := filed name (fresh_page (alloc_name name (en_vmt e)) shape es)
         (alloc_name name (en_vmt e)) (en_vmt e)\<rparr>)"
  by (simp add: vmtE_def vmt_allocate_run filed_def alloc_name_def Let_def)

lemma add_chunk_sure:
  assumes n: "n \<in> D" and i: "i < N" and es: "es \<noteq> 0" and ptr: "P ptr"
  shows "sound_op (engine_typed P C N D) (bindM (getM (\<lambda>e. gc_ordinals (en_cluster e))) (\<lambda>ords.
      bindM (unwrapM (vec_get ords i)) (\<lambda>ord. bindM (if es = 0 then panicM else retM ()) (\<lambda>_.
      modifyE n (\<lambda>pg. pg\<lparr>pg_vram_chunks := pg_vram_chunks pg @
       [\<lparr>ck_gpu_ordinal = ord, ck_device_ptr = ptr, ck_size_bytes = bytes, ck_num_elements = bytes div es\<rparr>]\<rparr>)))))"
    (is "sound_op _ ?m")
proof (rule sureI)
  fix e r t assume e: "engine_typed P C N D e" and run: "?m e = (r, t)"
  let ?ord = "gc_ordinals (en_cluster e) ! i"
  let ?f = "\<lambda>pg. pg\<lparr>pg_vram_chunks := pg_vram_chunks pg @
     [\<lparr>ck_gpu_ordinal = ?ord, ck_device_ptr = ptr, ck_size_bytes = bytes, ck_num_elements = bytes div es\<rparr>]\<rparr>"
  have len: "i < length (gc_ordinals (en_cluster e))" using e i by (simp add: engine_typed_def cluster_typed_def)
  obtain pg where pg: "vmt_lookup (en_vmt e) n = Some pg" using e n by (auto simp: engine_typed_def)
  have t: "r = Ok ()" "t = e\<lparr>en_vmt := vmt_modify n ?f (en_vmt e)\<rparr>"
    using run es len modifyE_run [OF pg, of ?f] by (simp_all add: bindM_def run_simps unwrapM_def vec_get_def)
  have "index_of C ?ord \<noteq> None" using e len by (simp add: engine_typed_def cluster_typed_def)
  then have "engine_typed P C N D (e\<lparr>en_vmt := vmt_modify n ?f (en_vmt e)\<rparr>)" using e ptr by (intro engine_typed_modify) auto
  with t show "engine_typed P C N D t \<and> r \<noteq> Panic \<and> (\<forall>x. r = Ok x \<longrightarrow> True)" by simp
qed

lemma sure_add_chunk:
  assumes "pointers pf P" "n \<in> D" "i < N" "es \<noteq> 0" shows "sound_op (engine_typed P C N D) (add_vram_chunk pf n es i bytes)"
  unfolding add_vram_chunk_def by (intro sure_bindM [OF sure_alloc_device] add_chunk_sure assms)

text \<open>A page is filed under the name; then it is known.\<close>

lemma engine_allocate_sure:
  assumes pf: "pointers pf P" and e: "engine_typed P C N {} e" and es: "es \<noteq> 0" and run: "engine_allocate pf name shape es e = (r, t)"
  shows "engine_typed P C N {} t \<and> r \<noteq> Panic"
proof -
  let ?total = "umul (uproduct shape) es"
  define rest where "rest = (\<lambda>M (single :: bool). bindM (vmtE (vmt_allocate name shape es)) (\<lambda>alloc_name.
      bindM (forM (if single then [(0, ?total)] else map (\<lambda>i. (i, gpu_shard ?total M i)) [0 ..< M])
              (\<lambda>(i, bytes). add_vram_chunk pf alloc_name es i bytes)) (\<lambda>_.
      bindM (modifyE alloc_name (\<lambda>pg. pg\<lparr>pg_state := Resident, pg_tier := Vram\<rparr>)) (\<lambda>_.
      retM alloc_name))))"
  have rest: "sound_op (engine_typed P C N {}) (rest N single)" for single
  proof (rule sureI)
    fix e r t assume e: "engine_typed P C N {} (e :: 'a engine)" and run: "rest N single e = (r, t)"
    let ?n = "alloc_name name (en_vmt e)"
    let ?e = "e\<lparr>en_vmt := filed name (fresh_page ?n shape es) ?n (en_vmt e)\<rparr>"
    have typed: "engine_typed P C N {?n} ?e"
      using e es by (auto simp: engine_typed_def fresh_page_def page_new_def)
    have "0 < N" using e by (simp add: engine_typed_def cluster_typed_def)
    then have "sound_op (engine_typed P C N {?n})
      (bindM (forM (if single then [(0, ?total)] else map (\<lambda>i. (i, gpu_shard ?total N i)) [0 ..< N])
              (\<lambda>(i, bytes). add_vram_chunk pf ?n es i bytes)) (\<lambda>_.
      bindM (modifyE ?n (\<lambda>pg. pg\<lparr>pg_state := Resident, pg_tier := Vram\<rparr>)) (\<lambda>_. retM ?n)))"
      using es pf by (intro sure_intros) (auto intro!: sure_add_chunk split: if_splits)
    moreover have "bindM (forM (if single then [(0, ?total)] else map (\<lambda>i. (i, gpu_shard ?total N i)) [0 ..< N])
              (\<lambda>(i, bytes). add_vram_chunk pf ?n es i bytes)) (\<lambda>_.
      bindM (modifyE ?n (\<lambda>pg. pg\<lparr>pg_state := Resident, pg_tier := Vram\<rparr>)) (\<lambda>_. retM ?n)) ?e = (r, t)"
      using run by (simp add: rest_def bindM_run(1) [OF vmtE_allocate])
    ultimately have "engine_typed P C N {?n} t \<and> r \<noteq> Panic"
      using sureD [where I = "engine_typed P C N {?n}", OF _ typed] by blast
    then show "engine_typed P C N {} t \<and> r \<noteq> Panic \<and> (\<forall>x. r = Ok x \<longrightarrow> True)" using engine_typed_less by blast
  qed
  have N: "length (gc_ordinals (en_cluster e)) = N" "gc_ordinals (en_cluster e) \<noteq> []" using e by (auto simp: engine_typed_def cluster_typed_def)
  have "engine_allocate pf name shape es e = bindM (getM (\<lambda>e. length (gc_ordinals (en_cluster e)))) (\<lambda>M.
      bindM (if M = 0 then panicM else retM ()) (\<lambda>_. bindM (fits_first_gpu pf ?total) (rest M))) e"
    by (simp only: engine_allocate_def Let_def rest_def)
  also have "\<dots> = bindM (if N = 0 then panicM else retM ()) (\<lambda>_. bindM (fits_first_gpu pf ?total) (rest N)) e"
    by (simp only: bindM_def getM_run N(1) outcome.case prod.case)
  also have "\<dots> = bindM (fits_first_gpu pf ?total) (rest N) e"
    using N by (cases "N = 0") (simp_all add: bindM_def retM_run)
  finally have run: "bindM (fits_first_gpu pf ?total) (rest N) e = (r, t)" using run by simp
  have "sound_op (engine_typed P C N {}) (bindM (fits_first_gpu pf ?total) (rest N))" by (intro sure_then sure_fits rest)
  from sureD [OF this e run] show ?thesis by simp
qed

section \<open>Access and release\<close>

lemma sure_stream: "g < N \<Longrightarrow> sound_op (engine_typed P C N D) (en_stream g)"
  by (rule sureI) (auto simp: en_stream_def unwrapM_def vec_get_def run_simps engine_typed_def)

lemma sure_page: "n \<in> D \<Longrightarrow> sure (engine_typed P C N D) (\<lambda>e. unwrapM (vmt_lookup (en_vmt e) n) e) (\<lambda>pg. pg_element_size pg \<noteq> 0)"
  by (rule sureI) (auto simp: engine_typed_def unwrapM_def run_simps split: option.splits)

lemma sure_index: "index_of C ord \<noteq> None \<Longrightarrow> sound_op (engine_typed P C N D) (\<lambda>e. unwrapM (index_of (en_cluster e) ord) e)"
  by (rule sureI) (auto simp: engine_typed_def unwrapM_def run_simps split: option.splits)

lemma sure_add_page_chunk:
  assumes "n \<in> D" and "index_of C (ck_gpu_ordinal c) \<noteq> None" and "P (ck_device_ptr c)"
  shows "sound_op (engine_typed P C N D) (modifyE n (\<lambda>pg. pg\<lparr>pg_vram_chunks := pg_vram_chunks pg @ [c]\<rparr>))"
proof (rule sureI)
  let ?f = "\<lambda>pg. pg\<lparr>pg_vram_chunks := pg_vram_chunks pg @ [c]\<rparr>"
  fix e r t assume e: "engine_typed P C N D e" and run: "modifyE n ?f e = (r, t)"
  then obtain pg where "vmt_lookup (en_vmt e) n = Some pg" using assms(1) by (auto simp: engine_typed_def)
  from run modifyE_run [OF this, of ?f] have t: "r = Ok ()" "t = e\<lparr>en_vmt := vmt_modify n ?f (en_vmt e)\<rparr>" by simp_all
  with engine_typed_modify [OF e, of ?f n] assms(2,3)
  show "engine_typed P C N D t \<and> r \<noteq> Panic \<and> (\<forall>x. r = Ok x \<longrightarrow> True)" by auto
qed

lemma sure_fetch:
  assumes "pointers pf P" "n \<in> D" "g < N" "index_of C (ck_gpu_ordinal src) \<noteq> None" "index_of C ord \<noteq> None"
  shows "sure (engine_typed P C N D) (engine_fetch pf n g ord src) P"
  unfolding engine_fetch_def Let_def
  by (intro sure_then [OF sure_index] sure_then [OF sure_worldE] sure_bindM [OF sure_alloc_device] sure_then [OF sure_stream]
      sure_bindM [OF sure_page] sure_then [OF sure_if] sure_then [OF sure_add_page_chunk] device_sure sure_pure sure_retM assms)
    (use assms in simp_all)

lemma engine_access_sure:
  assumes pf: "pointers pf P" and e: "engine_typed P C N {} e" and run: "engine_access pf n ord e = (r, t)"
  shows "engine_typed P C N {} t \<and> r \<noteq> Panic \<and> (\<forall>x. r = Ok x \<longrightarrow> P x)"
proof (cases "index_of C ord")
  case None
  with e run show ?thesis by (auto simp: engine_access_def ok_or_def bindM_def run_simps engine_typed_def)
next
  case (Some g)
  show ?thesis
  proof (cases "vmt_lookup (en_vmt e) n")
    case None
    with e run Some show ?thesis by (auto simp: engine_access_def ok_or_def bindM_def run_simps engine_typed_def)
  next
    case page: (Some pg)
    have C: "en_cluster e = C" "g < N" using e Some by (auto simp: engine_typed_def cluster_typed_def)
    have known: "engine_typed P C N {n} e" by (rule engine_typed_page(3) [OF e page])
    have "sure (engine_typed P C N {n}) (case resident_chunk pg ord of
       Some c \<Rightarrow> retM (ck_device_ptr c)
     | None \<Rightarrow> bindM (ok_or (vec_get (pg_vram_chunks pg) 0) (UnknownAllocation n)) (\<lambda>src.
         if ck_gpu_ordinal src = ord then retM (ck_device_ptr src) else engine_fetch pf n g ord src)) P"
      (is "sure _ ?m P")
    proof (cases "resident_chunk pg ord")
      case None
      have "index_of C (ck_gpu_ordinal src) \<noteq> None \<and> P (ck_device_ptr src)" if "vec_get (pg_vram_chunks pg) 0 = Some src" for src
        using that by (intro engine_typed_page(2) [OF e page]) (auto simp: vec_get_Some)
      with None C(2) Some show ?thesis
        by (auto intro!: sure_bindM [OF sure_ok_or, where R = "\<lambda>src. index_of C (ck_gpu_ordinal src) \<noteq> None \<and> P (ck_device_ptr src)"]
            sure_if sure_retM sure_fetch pf)
    next
      case (Some c)
      then have "c \<in> set (pg_vram_chunks pg)"
        by (auto simp: resident_chunk_def find_Some_iff split: if_splits)
      with Some engine_typed_page(2) [OF e page] show ?thesis by (auto intro: sure_retM)
    qed
    moreover have "?m e = (r, t)"
      using run C(1) Some page by (simp add: engine_access_def ok_or_def bindM_run run_simps)
    ultimately have "engine_typed P C N {n} t \<and> r \<noteq> Panic \<and> (\<forall>x. r = Ok x \<longrightarrow> P x)" using sureD [where I = "engine_typed P C N {n}", OF _ known] by blast
    then show ?thesis using engine_typed_less by blast
  qed
qed

lemma sure_free_chunks: "sound_op (engine_typed P C N D) (free_chunks pf cs first)"
proof (induction cs arbitrary: first)
  case (Cons c cs)
  have "sound_op (engine_typed P C N D) (free_chunk pf c)"
  proof (rule sureI)
    fix e r t assume e: "engine_typed P C N D e" and run: "free_chunk pf c e = (r, t)"
    show "engine_typed P C N D t \<and> r \<noteq> Panic \<and> (\<forall>x. r = Ok x \<longrightarrow> True)"
    proof (cases "index_of (en_cluster e) (ck_gpu_ordinal c)")
      case (Some g)
      have "sound_op (engine_typed P C N D) (worldE (\<lambda>a. free_device pf a g (ck_device_ptr c)))"
        by (intro sure_worldE device_sure)
      from sureD [OF this e] run Some show ?thesis by (simp add: free_chunk_def)
    qed (use run e in \<open>auto simp: free_chunk_def\<close>)
  qed
  then show ?case unfolding free_chunks.simps by (intro sure_bindM [OF sure_catchM] Cons.IH)
qed (simp add: sure_pure)

lemma engine_free_sure:
  assumes e: "engine_typed P C N {} e" and run: "engine_free pf n e = (r, t)"
  shows "engine_typed P C N {} t \<and> r \<noteq> Panic"
proof -
  let ?e = "e\<lparr>en_vmt := snd (vmt_remove n (en_vmt e))\<rparr>"
  have typed: "engine_typed P C N {} ?e"
    using e by (auto simp: engine_typed_def vmt_remove_def vmt_lookup_def split: if_splits)
  have "sound_op (engine_typed P C N {}) (bindM (free_chunks pf cs None) (\<lambda>first_err.
          case first_err of Some x \<Rightarrow> errM x | None \<Rightarrow> retM ()))" for cs
    by (intro sure_then sure_free_chunks) (simp add: sure_pure split: option.split)
  from sureD [OF this typed] run typed show ?thesis
    by (auto simp: engine_free_def split: prod.splits option.splits)
qed

section \<open>A new engine\<close>

lemma sure_scoped [sure_intros]:
  assumes "sound_op I acquire" "sure I body Q" "\<And>s. I s \<Longrightarrow> I (release s)"
  shows "sure I (scoped acquire release body) Q"
proof (rule sureI)
  fix s r t assume s: "I s" and run: "scoped acquire release body s = (r, t)"
  obtain r1 t1 where a: "acquire s = (r1, t1)" by force
  from sureD [OF assms(1) s a] have 1: "I t1" "r1 \<noteq> Panic" by simp_all
  obtain r2 t2 where b: "body t1 = (r2, t2)" by force
  from sureD [OF assms(2) 1(1) b] assms(3) run a b 1 show "I t \<and> r \<noteq> Panic \<and> (\<forall>x. r = Ok x \<longrightarrow> Q x)"
    by (cases r1) (auto simp: scoped_def)
qed

lemma sure_mapM [sure_intros]: "(\<And>x. x \<in> set xs \<Longrightarrow> sound_op I (f x)) \<Longrightarrow> sound_op I (mapM f xs)"
proof (induction xs)
  case (Cons x xs)
  then show ?case unfolding mapM.simps by (intro sure_then sure_pure) simp_all
qed (simp add: sure_pure)

lemma sure_free_probe [sure_intros]: "sound_op (\<lambda>_. True) (probe_free_vram pf d)"
proof (rule sureI)
  fix w r t assume "probe_free_vram pf d w = (r, t)"
  moreover have "sound_op (\<lambda>_. True) (scoped (pc_enter pf c) (guard_drop pf)
      (bindM (cu_get ''cuMemGetInfo_v2'' (pf_mem_get_info pf)) (\<lambda>(free, tot). retM free)))" for c
    unfolding pc_enter_def case_prod_beta by (intro sure_intros TrueI)
  then have "fst (scoped (pc_enter pf c) (guard_drop pf)
      (bindM (cu_get ''cuMemGetInfo_v2'' (pf_mem_get_info pf)) (\<lambda>(free, tot). retM free)) u) \<noteq> Panic" for c u
    by (rule sure_fst)
  ultimately show "True \<and> r \<noteq> Panic \<and> (\<forall>x. r = Ok x \<longrightarrow> True)"
    using pc_retain_no_panic [of pf d w]
    by (cases "pc_retain pf d w"; cases "fst (pc_retain pf d w)")
      (auto simp: probe_free_vram_def split: prod.splits, metis fst_conv)
qed

lemma sure_askM [sure_intros]: "sound_op (\<lambda>_. True) (askM f)"
  by (rule sureI) (auto simp: askM_def split: prod.splits)

text \<open>The matrices of the discovery are square.\<close>

lemma peer_discover_sure: "sure (\<lambda>_. True) (peer_discover pf ords)
    (\<lambda>m. square (length ords) (pm_can_access m) \<and> square (length ords) (pm_enabled m) \<and> pm_primary_ctxs m = [])"
proof (rule sureI)
  let ?n = "length ords"
  fix w r t assume run: "peer_discover pf ords w = (r, t)"
  have probe: "sound_op (\<lambda>s. square ?n (snd s)) (peer_probe pf ords x)"
    if "x \<in> set (List.product [0 ..< ?n] [0 ..< ?n])" for x
  proof (rule sureI)
    fix s r t assume s: "square ?n (snd s)" and run: "peer_probe pf ords x s = (r, t)"
    obtain i j where x: "x = (i, j)" by force
    then have "i < ?n" using that by auto
    with square_set_cell [of ?n "snd s" i j] s run cu_no_panic(2)
    show "square ?n (snd t) \<and> r \<noteq> Panic \<and> (\<forall>y. r = Ok y \<longrightarrow> True)"
      by (cases s) (auto simp: peer_probe_def x cu_get_cases split: if_splits prod.splits outcome.splits)
  qed
  have start: "square ?n (snd (w, replicate ?n (replicate ?n False)))" by (simp add: square_def)
  obtain q u can where loop: "forM (List.product [0 ..< ?n] [0 ..< ?n]) (peer_probe pf ords)
      (w, replicate ?n (replicate ?n False)) = (q, (u, can))" by (metis prod.exhaust)
  from sureD [OF sure_forM [OF probe] start loop] run loop
  show "True \<and> r \<noteq> Panic \<and> (\<forall>m. r = Ok m \<longrightarrow>
      square ?n (pm_can_access m) \<and> square ?n (pm_enabled m) \<and> pm_primary_ctxs m = [])"
    by (cases q) (auto simp: peer_discover_def Let_def square_def)
qed

lemma discover_sure: "sure (\<lambda>_. True) (cluster_discover pf ords)
    (\<lambda>c. gc_ordinals c = ords \<and> gc_ordinal_map c = ordinal_index ords \<and> pm_primary_ctxs (gc_peer_matrix c) = []
      \<and> square (length ords) (pm_can_access (gc_peer_matrix c)) \<and> square (length ords) (pm_enabled (gc_peer_matrix c)))"
proof -
  have numactl: "sound_op (\<lambda>_. True) (from_numactl pf)"
    by (rule sureI) (auto simp: from_numactl_def split: prod.splits sum.splits)
  show ?thesis
    unfolding cluster_discover_def discover_gpu_def
    by (intro sure_then [OF sure_driver(1)] sure_bindM [OF sure_catchM [OF numactl]] sure_then [OF sure_mapM]
        sure_bindM [OF peer_discover_sure] sure_then [OF sure_askM] sure_then [OF sure_free_probe] sure_pure sure_retM) simp
qed

text \<open>Enabling peer access: it changes the matrix only, and does not panic on a matrix of the discovery.\<close>

lemma enable_sure:
  assumes sq: "square (length (gc_ordinals c)) (pm_can_access (gc_peer_matrix c))"
    "square (length (gc_ordinals c)) (pm_enabled (gc_peer_matrix c))" "pm_primary_ctxs (gc_peer_matrix c) = []"
    and run: "enable_peer_access pf (w, c) = (r, (w', c'))"
  shows "r \<noteq> Panic" "gc_ordinals c' = gc_ordinals c" "gc_ordinal_map c' = gc_ordinal_map c" "gc_infos c' = gc_infos c"
proof -
  obtain q u m where e: "enable_all pf (gc_ordinals c) (w, gc_peer_matrix c) = (q, (u, m))" by (metis prod.exhaust)
  with run have "r = q" "c' = c\<lparr>gc_peer_matrix := m\<rparr>" by (simp_all add: enable_peer_access_def)
  with peer_enable_only_capable [OF sq(1,2) _ e] sq(3)
  show "r \<noteq> Panic" "gc_ordinals c' = gc_ordinals c" "gc_ordinal_map c' = gc_ordinal_map c" "gc_infos c' = gc_infos c"
    by simp_all
qed

lemma pool_round_sure: "sound_op (\<lambda>_. True) (pool_round pf)"
proof -
  have "fst (stream_new pf w) \<noteq> Panic" "fst (bindM (highest_priority pf) (stream_with_priority pf) w) \<noteq> Panic" for w
    unfolding stream_new_def highest_priority_def stream_with_priority_def case_prod_beta by (intro sure_fst sure_intros)+
  then show ?thesis
    by (intro sureI) (auto simp: pool_round_def split: prod.splits outcome.splits, (metis fst_conv)+)
qed

lemma sure_on_world: "sound_op (\<lambda>_. True) m \<Longrightarrow> sound_op (\<lambda>_. True) (on_world m)"
  using sure_fst [of m] by (intro sureI) (auto simp: on_world_def split: prod.splits, metis fst_conv)

lemma pool_gpus_sure:
  assumes run: "stream_pool_new pf \<lparr>cr_contexts = cs\<rparr> w = (r, w')"
  shows "r \<noteq> Panic \<and> (\<forall>s. r = Ok s \<longrightarrow> length (st_compute s) = length cs)"
proof -
  have "sound_op (\<lambda>_. True) (pool_gpu pf \<lparr>cr_contexts = cs\<rparr> i)" for i
    unfolding pool_gpu_def registry_enter_def pc_enter_def by (intro sure_scoped pool_round_sure sure_on_world sure_intros TrueI)
  then have no: "fst (forM [0 ..< length cs] (pool_gpu pf \<lparr>cr_contexts = cs\<rparr>) s) \<noteq> Panic" for s
    by (intro sure_fst sure_forM)
  obtain q u c p where loop: "forM [0 ..< length cs] (pool_gpu pf \<lparr>cr_contexts = cs\<rparr>) (w, [], []) = (q, (u, c, p))"
    by (metis prod_cases3)
  with no [of "(w, [], [])"] run pool_gpus_lengths [of "[0 ..< length cs]" pf "\<lparr>cr_contexts = cs\<rparr>" w "[]" "[]" _ u c p]
  show ?thesis by (cases q) (auto simp: stream_pool_new_def registry_len_def Let_def)
qed

lemma engine_parts_sure:
  "sure (\<lambda>_. True) (engine_parts pf c) (\<lambda>(a, s). length (st_compute s) = length (gc_ordinals c))"
proof (rule sureI)
  fix w r t assume run: "engine_parts pf c w = (r, t)"
  let ?n = "length (gc_ordinals c)"
  obtain q u where reg: "retain_all pf (gc_ordinals c) [] w = (q, u)" by force
  show "True \<and> r \<noteq> Panic \<and> (\<forall>x. r = Ok x \<longrightarrow> (case x of (a, s) \<Rightarrow> length (st_compute s) = ?n))"
  proof (cases q)
    case (Ok cs)
    let ?a = "\<lparr>ua_contexts = \<lparr>cr_contexts = cs\<rparr>, ua_ordinals = gc_ordinals c, ua_infos = gc_infos c\<rparr>"
    have len: "length cs = ?n" using retain_all_length reg Ok by fastforce
    obtain r2 u2 where str: "stream_pool_new pf \<lparr>cr_contexts = cs\<rparr> u = (r2, u2)" by force
    have "r2 \<noteq> Panic \<and> (\<forall>s. r2 = Ok s \<longrightarrow> length (st_compute s) = ?n)"
      using pool_gpus_sure [of pf cs u r2 u2] str len by simp
    then show ?thesis using run reg Ok str
      by (auto simp: engine_parts_def ua_new_def registry_new_def bindM_def retM_run on_failure_def split: prod.splits outcome.splits)
  next
    case Panic
    with retain_all_no_panic [of pf "gc_ordinals c" "[]" w] reg show ?thesis by simp
  qed (use run reg in \<open>auto simp: engine_parts_def ua_new_def registry_new_def bindM_def\<close>)
qed

lemma engine_new_sure:
  assumes run: "engine_new pf ords w = (r, w')"
  shows "r \<noteq> Panic" and "r = Ok e \<Longrightarrow> engine_typed P (en_cluster e) (length ords) {} e \<and> gc_ordinals (en_cluster e) = ords
    \<and> vt_pages (en_vmt e) = Map.empty"
proof -
  have "r \<noteq> Panic \<and> (\<forall>e. r = Ok e \<longrightarrow> engine_typed P (en_cluster e) (length ords) {} e \<and> gc_ordinals (en_cluster e) = ords
      \<and> vt_pages (en_vmt e) = Map.empty)"
  proof (cases "ords = []")
    case False
    obtain q0 w1 where d: "cluster_discover pf ords w = (q0, w1)" by force
    note disc = sureD [OF discover_sure TrueI d]
    show ?thesis
    proof (cases q0)
      case (Ok c0)
      with disc have c0: "gc_ordinals c0 = ords" "gc_ordinal_map c0 = ordinal_index ords"
        "pm_primary_ctxs (gc_peer_matrix c0) = []" "square (length (gc_ordinals c0)) (pm_can_access (gc_peer_matrix c0))"
        "square (length (gc_ordinals c0)) (pm_enabled (gc_peer_matrix c0))" by auto
      obtain q1 w2 c where en: "enable_peer_access pf (w1, c0) = (q1, (w2, c))" by (metis prod.exhaust)
      note enabled = enable_sure [OF c0(4,5,3) en]
      obtain q2 w3 where parts: "engine_parts pf c w2 = (q2, w3)" by force
      note built = sureD [OF engine_parts_sure TrueI parts]
      have "cluster_typed (length ords) c"
        using False enabled(2,3) c0(1,2) ordinal_index_Some
        by (auto simp: cluster_typed_def index_of_def ordinal_index_None)
      then have "engine_typed P c (length ords) {} \<lparr>en_cluster = c, en_vmt = vmt_new (length ords) (nt_node_count (gc_numa c)),
          en_allocator = a, en_streams = s, en_world = u\<rparr>" if "length (st_compute s) = length ords" for a s u
        using that by (simp add: engine_typed_def vmt_new_def vmt_lookup_def)
      then show ?thesis
        using run False d Ok en enabled(1,2) c0(1) parts built
        by (cases q1; cases q2) (auto simp: engine_new_def on_failure_def vmt_new_def split: prod.splits)
    next
      case (Err e)
      then show ?thesis using run False d by (auto simp: engine_new_def)
    next
      case Panic
      with disc show ?thesis by simp
    qed
  qed (use run in \<open>auto simp: engine_new_def\<close>)
  then show "r \<noteq> Panic" "r = Ok e \<Longrightarrow> engine_typed P (en_cluster e) (length ords) {} e \<and> gc_ordinals (en_cluster e) = ords
    \<and> vt_pages (en_vmt e) = Map.empty" by blast+
qed

section \<open>Histories\<close>

datatype engine_call =
    EngineAllocate string "usize list" usize
  | EngineAccess string int
  | EngineFree string

fun engine_do :: "'w platform \<Rightarrow> engine_call \<Rightarrow> ('w engine, unit) op" where
  "engine_do pf (EngineAllocate name shape es) = discard (engine_allocate pf name shape es)"
| "engine_do pf (EngineAccess name ord) = discard (engine_access pf name ord)"
| "engine_do pf (EngineFree name) = engine_free pf name"

fun engine_run :: "'w platform \<Rightarrow> engine_call list \<Rightarrow> 'w engine \<Rightarrow> 'w engine" where
  "engine_run pf [] e = e"
| "engine_run pf (c # cs) e = engine_run pf cs (snd (engine_do pf c e))"

fun has_elements :: "engine_call \<Rightarrow> bool" where
  "has_elements (EngineAllocate name shape es) \<longleftrightarrow> es \<noteq> 0"
| "has_elements _ \<longleftrightarrow> True"

lemma discard_run: "discard m s = (r, t) \<longleftrightarrow> (\<exists>q. m s = (q, t) \<and> r = (case q of Ok x \<Rightarrow> Ok () | Err e \<Rightarrow> Err e | Panic \<Rightarrow> Panic))"
  by (cases "m s"; cases "fst (m s)") (auto simp: discard_def bindM_def retM_run)

lemma engine_do_typed:
  assumes pf: "pointers pf P" and e: "engine_typed P C N {} e" and c: "has_elements c" and run: "engine_do pf c e = (r, t)"
  shows "engine_typed P C N {} t \<and> r \<noteq> Panic"
proof (cases c)
  case (EngineAllocate name shape es)
  with run obtain q where "engine_allocate pf name shape es e = (q, t)"
    "r = (case q of Ok x \<Rightarrow> Ok () | Err e \<Rightarrow> Err e | Panic \<Rightarrow> Panic)" by (auto simp: discard_run)
  with engine_allocate_sure [OF pf e _ this(1)] c EngineAllocate show ?thesis by (cases q) auto
next
  case (EngineAccess name ord)
  with run obtain q where "engine_access pf name ord e = (q, t)"
    "r = (case q of Ok x \<Rightarrow> Ok () | Err e \<Rightarrow> Err e | Panic \<Rightarrow> Panic)" by (auto simp: discard_run)
  with engine_access_sure [OF pf e this(1)] show ?thesis by (cases q) auto
next
  case (EngineFree name)
  with run engine_free_sure [OF e] show ?thesis by simp
qed

lemma engine_run_typed:
  assumes "pointers pf P"
  shows "engine_typed P C N {} e \<Longrightarrow> \<forall>c \<in> set cs. has_elements c \<Longrightarrow> engine_typed P C N {} (engine_run pf cs e)"
proof (induction cs arbitrary: e)
  case (Cons c cs)
  obtain r t where run: "engine_do pf c e = (r, t)" by force
  from engine_do_typed [OF assms Cons.prems(1) _ run] Cons show ?case by (simp add: run)
qed simp

text \<open>
  Property C7. The engine never panics. The construction over any list of GPUs, on any driver and
  whatever each call of it answers, returns an engine or an error; the engine has an entry for each GPU; and no
  call of any history panics, provided each allocation has an element size that is not 0, although
  they index, unwrap and divide. A page of the table has its chunks on GPUs of the engine, and if the driver
  gives pointers with a property, every chunk and every pointer \<open>access\<close> returns has it.
\<close>

theorem engine_calls_never_panic:
  assumes some: "\<forall>c \<in> set (c # cs). has_elements c" and pf: "pointers pf P"
  shows "fst (engine_new pf ords w) \<noteq> Panic
    \<and> (\<forall>e. fst (engine_new pf ords w) = Ok e \<longrightarrow>
         engine_typed P (en_cluster e) (length ords) {} (engine_run pf cs e)
       \<and> fst (engine_do pf c (engine_run pf cs e)) \<noteq> Panic
       \<and> (\<forall>name ord x. fst (engine_access pf name ord (engine_run pf cs e)) = Ok x \<longrightarrow> P x))"
proof -
  obtain r w' where new: "engine_new pf ords w = (r, w')" by force
  have "engine_typed P (en_cluster e) (length ords) {} (engine_run pf cs e)
       \<and> fst (engine_do pf c (engine_run pf cs e)) \<noteq> Panic
       \<and> (\<forall>name ord x. fst (engine_access pf name ord (engine_run pf cs e)) = Ok x \<longrightarrow> P x)" if ok: "r = Ok e" for e
  proof -
    have "engine_typed P (en_cluster e) (length ords) {} e" using engine_new_sure(2) [OF new ok] by blast
    then have typed: "engine_typed P (en_cluster e) (length ords) {} (engine_run pf cs e)" (is "engine_typed P ?C ?N {} ?e")
      using some by (intro engine_run_typed [OF pf]) simp_all
    obtain q t where do: "engine_do pf c ?e = (q, t)" by force
    have "P x" if x: "fst (engine_access pf name ord ?e) = Ok x" for name ord x
    proof -
      obtain t where "engine_access pf name ord ?e = (Ok x, t)" using x by (metis prod.collapse)
      from engine_access_sure [OF pf typed this] show ?thesis by simp
    qed
    with typed engine_do_typed [OF pf typed _ do] some do show ?thesis by simp
  qed
  with new engine_new_sure(1) [OF new] show ?thesis by auto
qed

lemma counting_pointers: "pointers counting_platform (\<lambda>x. x = 1)"
  by (simp add: pointers_def counting_platform_def idle_platform_def)

theorem engine_calls_never_panic_witness:
  "\<exists>e w. engine_new counting_platform [0] (\<lambda>_. 0) = (Ok e, w)
    \<and> fst (engine_do counting_platform (EngineFree ''a'')
        (engine_run counting_platform [EngineAllocate ''a'' [2, 3] 4, EngineAccess ''a'' 0, EngineAccess ''b'' 3] e)) \<noteq> Panic"
proof -
  obtain e w where run: "engine_new counting_platform [0] (\<lambda>_. 0) = (Ok e, w)" using counting_engine by blast
  have "\<forall>c \<in> set [EngineFree ''a'', EngineAllocate ''a'' [2, 3] 4, EngineAccess ''a'' 0, EngineAccess ''b'' 3]. has_elements c"
    by simp
  from engine_calls_never_panic [OF this counting_pointers, of "[0]" "\<lambda>_. 0"] run show ?thesis by auto
qed

end
