(* ===== verification/Programs.thy ===== *)
theory Programs
  imports Errors
begin

text \<open>What a test or an example does with the outcome of a call: its assertions and unwraps.\<close>

definition assertM :: "bool \<Rightarrow> ('s, unit) op" where
  "assertM b = (if b then retM () else panicM)"

definition checkM :: "('s \<Rightarrow> bool) \<Rightarrow> ('s, unit) op" where
  "checkM f = bindM (getM f) assertM"

definition assert_ok :: "('s, 'a) op \<Rightarrow> ('s, unit) op" where
  "assert_ok m = bindM (catchM m) (\<lambda>r. assertM (case r of Inr _ \<Rightarrow> True | Inl _ \<Rightarrow> False))"

definition assert_err :: "('s, 'a) op \<Rightarrow> ('s, unit) op" where
  "assert_err m = bindM (catchM m) (\<lambda>r. assertM (case r of Inr _ \<Rightarrow> False | Inl _ \<Rightarrow> True))"

definition expect_error :: "vugva_error \<Rightarrow> ('s, 'a) op \<Rightarrow> ('s, unit) op" where
  "expect_error e m = bindM (catchM m) (\<lambda>r. assertM (case r of Inr _ \<Rightarrow> False | Inl x \<Rightarrow> x = e))"

definition expectM :: "('s, 'a) op \<Rightarrow> ('s, 'a) op" where
  "expectM m = bindM (catchM m) (\<lambda>r. case r of Inr x \<Rightarrow> retM x | Inl _ \<Rightarrow> panicM)"

text \<open>A program is run a call at a time.\<close>

named_theorems program_run \<open>one step of a program from a given state\<close>

lemma program_steps [program_run]:
  "bindM m f s = (case m s of (r, t) \<Rightarrow> (case r of Ok x \<Rightarrow> f x t | Err e \<Rightarrow> (Err e, t) | Panic \<Rightarrow> (Panic, t)))"
  "assertM b s = (if b then (Ok (), s) else (Panic, s))"
  "checkM q s = (if q s then (Ok (), s) else (Panic, s))"
  "assert_ok m1 s = (case m1 s of (r, t) \<Rightarrow> (case r of Ok x \<Rightarrow> (Ok (), t) | _ \<Rightarrow> (Panic, t)))"
  "assert_err m2 s = (case m2 s of (r, t) \<Rightarrow> (case r of Err x \<Rightarrow> (Ok (), t) | _ \<Rightarrow> (Panic, t)))"
  "expect_error e m3 s = (case m3 s of (r, t) \<Rightarrow> (case r of Err x \<Rightarrow> if x = e then (Ok (), t) else (Panic, t) | _ \<Rightarrow> (Panic, t)))"
  "expectM m4 s = (case m4 s of (r, t) \<Rightarrow> (case r of Ok x \<Rightarrow> (Ok x, t) | _ \<Rightarrow> (Panic, t)))"
  "catchM m5 s = (case m5 s of (r, t) \<Rightarrow> (case r of Ok x \<Rightarrow> (Ok (Inr x), t) | Err e \<Rightarrow> (Ok (Inl e), t) | Panic \<Rightarrow> (Panic, t)))"
  "retM x s = (Ok x, s)" "panicM s = (Panic, s)" "getM g s = (Ok (g s), s)" "modM h s = (Ok (), h s)"
  "unwrapM y s = (case y of None \<Rightarrow> (Panic, s) | Some x \<Rightarrow> (Ok x, s))"
  by (simp_all add: assertM_def checkM_def assert_ok_def assert_err_def expect_error_def expectM_def catchM_def
      bindM_def getM_def retM_def panicM_def modM_def unwrapM_def split: prod.split outcome.split option.split)

lemma run_step: "m s = (Ok x, t) \<Longrightarrow> fst (f x t) = r \<Longrightarrow> fst (bindM m f s) = r"
  by (simp add: bindM_def)

lemma expectM_run: "m s = (Ok x, t) \<Longrightarrow> expectM m s = (Ok x, t)"
  by (simp add: expectM_def catchM_def bindM_def retM_def)

lemma forM_modM: "forM xs (\<lambda>x. modM (h x)) s = (Ok (), fold h xs s)"
  by (induction xs arbitrary: s) (simp_all add: bindM_def retM_def modM_def)

lemma forM_stays: "(\<And>x. x \<in> set xs \<Longrightarrow> f x s = (Ok (), s)) \<Longrightarrow> forM xs f s = (Ok (), s)"
  by (induction xs) (simp_all add: bindM_def retM_def)

end
