(* ===== verification/MembraneTests.thy ===== *)
theory MembraneTests
  imports Programs Membrane
begin

text \<open>
  The unit tests of \<open>src/membrane.rs\<close> over the model, with the rounding of binary64: the rates
  in them are exact, and where a literal is rounded an interval around it is enough.
\<close>

section \<open>The tests\<close>

text \<open>\<open>obs(rate, mb, resident)\<close>, with the rate already a double.\<close>

definition obs :: "f64 \<Rightarrow> usize \<Rightarrow> bool \<Rightarrow> page_obs" where
  "obs rate mb resident = \<lparr>ob_rate = rate, ob_bytes = push_bit 20 mb, ob_resident = resident, ob_pinned = False\<rparr>"

definition touch_window :: "(real \<Rightarrow> f64) \<Rightarrow> nat \<Rightarrow> string \<Rightarrow> (membrane, unit) op" where
  "touch_window fl k name = bindM (forM [0 ..< k] (\<lambda>_. modM (observe name))) (\<lambda>_. modM (decay fl))"

definition idle_decays :: "(real \<Rightarrow> f64) \<Rightarrow> (membrane, unit) op" where
  "idle_decays fl =
     bindM (touch_window fl 10 ''startup'') (\<lambda>_.
     bindM (getM (\<lambda>m. membrane_rate m ''startup'')) (\<lambda>peak.
     bindM (assertM (0 < peak)) (\<lambda>_.
     bindM (forM [0 ..< 6 :: nat] (\<lambda>_. touch_window fl 1 ''steady'')) (\<lambda>_.
     bindM (checkM (\<lambda>m. membrane_rate m ''startup'' < membrane_rate m ''steady'')) (\<lambda>_.
     checkM (\<lambda>m. membrane_rate m ''startup'' < fl (peak * fl (2 / 10))))))))"

definition follows_workload :: "(real \<Rightarrow> f64) \<Rightarrow> (membrane, unit) op" where
  "follows_workload fl =
     bindM (forM [0 ..< 8 :: nat] (\<lambda>_. touch_window fl 5 ''A'')) (\<lambda>_.
     bindM (checkM (\<lambda>m. membrane_rate m ''B'' < membrane_rate m ''A'')) (\<lambda>_.
     bindM (forM [0 ..< 8 :: nat] (\<lambda>_. touch_window fl 5 ''B'')) (\<lambda>_.
     checkM (\<lambda>m. membrane_rate m ''A'' < membrane_rate m ''B''))))"

definition keeps_hottest :: "(real \<Rightarrow> f64) \<Rightarrow> bool" where
  "keeps_hottest fl \<longleftrightarrow> plan fl (policy_default fl)
       [(''hot'', obs 10 100 False), (''warm'', obs 5 100 False), (''cold'', obs (fl (1 / 10)) 100 False)] (push_bit 20 250)
     = ([''hot'', ''warm''], [''cold''])"

definition pinned_survive :: "(real \<Rightarrow> f64) \<Rightarrow> bool" where
  "pinned_survive fl \<longleftrightarrow> ''pinned'' \<in> set (fst (plan fl (policy_default fl)
       [(''pinned'', (obs 0 500 False)\<lparr>ob_pinned := True\<rparr>), (''hot'', obs 99 100 False)] (push_bit 20 64)))"

definition no_thrash :: "(real \<Rightarrow> f64) \<Rightarrow> bool" where
  "no_thrash fl \<longleftrightarrow> plan fl (policy_default fl)
       [(''incumbent'', obs 1 100 True), (''challenger'', obs (fl (115 / 100)) 100 False)] (push_bit 20 120)
     = ([''incumbent''], [''challenger''])
   \<and> fst (plan fl (policy_default fl)
       [(''incumbent'', obs 1 100 True), (''challenger'', obs 5 100 False)] (push_bit 20 120)) = [''challenger'']"

definition ties_planned_alike :: "(real \<Rightarrow> f64) \<Rightarrow> (membrane, unit) op" where
  "ties_planned_alike fl =
     (let cands = map (\<lambda>n. (n, obs 1 10 False)) [''d'', ''a'', ''c'', ''b''] in
      bindM (getM (\<lambda>m. plan fl (policy_default fl) cands (push_bit 20 25))) (\<lambda>first.
      forM [0 ..< 8 :: nat] (\<lambda>_. checkM (\<lambda>m. plan fl (policy_default fl) cands (push_bit 20 25) = first))))"

definition forgets :: "(real \<Rightarrow> f64) \<Rightarrow> (membrane, unit) op" where
  "forgets fl =
     bindM (modM (observe ''gone'')) (\<lambda>_.
     bindM (modM (decay fl)) (\<lambda>_.
     bindM (checkM (\<lambda>m. 0 < membrane_rate m ''gone'')) (\<lambda>_.
     bindM (modM (forget ''gone'')) (\<lambda>_.
     checkM (\<lambda>m. membrane_rate m ''gone'' = 0)))))"

section \<open>Exact doubles\<close>

lemma round64_dyadic:
  assumes "x = of_int n / 2 ^ k" and "\<bar>n\<bar> < 2 ^ 53" and "k \<le> 1074"
  shows "round64 x = x"
proof (cases "n = 0")
  case False
  have x: "x = of_int n * 2 powr real_of_int (- int k)" using assms(1) by (simp add: powr_minus powr_realpow divide_inverse)
  have "real_of_int \<bar>n\<bar> < real_of_int (2 ^ 53)" using assms(2) by (simp only: of_int_less_iff)
  then have "\<bar>real_of_int n\<bar> < 2 ^ 53" by simp
  then have "\<bar>x\<bar> < 2 powr 53 / 2 ^ k" using assms(1) by (simp add: divide_strict_right_mono)
  also have "\<dots> = 2 powr (53 - real k)" by (simp add: powr_diff powr_realpow)
  finally have "log 2 \<bar>x\<bar> < 53 - real k" using False assms(1) by (subst log_less_iff) simp_all
  then have "\<lfloor>log 2 \<bar>x\<bar>\<rfloor> < 53 - int k" by linarith
  then have "ulp_exp x \<le> - int k" using assms(3) by (simp add: ulp_exp_def)
  with x show ?thesis by (rule round64_grid)
qed (use assms in \<open>simp add: round64_def\<close>)

lemma round64_scaled:
  assumes i: "x * 2 ^ k = of_int i" and x: "\<bar>x\<bar> * 2 ^ k < 2 ^ 53" and k: "k \<le> 1074" shows "round64 x = x"
proof (rule round64_dyadic [of x i k])
  show "x = of_int i / 2 ^ k" using i by (simp add: field_simps)
  have "\<bar>x\<bar> * 2 ^ k = \<bar>x * 2 ^ k\<bar>" by (simp add: abs_mult)
  also have "\<dots> = real_of_int \<bar>i\<bar>" using i by simp
  finally have "real_of_int \<bar>i\<bar> < real_of_int (2 ^ 53)" using x by simp
  then show "\<bar>i\<bar> < 2 ^ 53" by (simp only: of_int_less_iff)
qed (rule k)

lemma round64_grid40: "\<bar>x\<bar> < 8192 \<Longrightarrow> x * 2 ^ 40 = of_int \<lfloor>x * 2 ^ 40\<rfloor> \<Longrightarrow> round64 x = x"
  by (rule round64_scaled [of x 40]) simp_all

lemma round64_integer: "x = of_int \<lfloor>x\<rfloor> \<Longrightarrow> \<bar>x\<bar> < 2 ^ 53 \<Longrightarrow> round64 x = x"
  by (rule round64_scaled [of x 0]) simp_all

text \<open>Bounds of a rounded value by doubles around it.\<close>

lemma round64_within:
  assumes "a \<le> x" "x \<le> b" "round64 a = a" "round64 b = b" shows "a \<le> round64 x" "round64 x \<le> b"
  using round64_mono [OF assms(1)] round64_mono [OF assms(2)] assms(3,4) by simp_all

section \<open>Windows\<close>

lemma funpow_forM: "forM [0 ..< k] (\<lambda>_. modM h) s = (Ok (), (h ^^ k) s)"
proof -
  have "fold (\<lambda>_. h) xs = h ^^ length xs" for xs :: "nat list"
    by (induction xs) (simp_all add: funpow_swap1 fun_eq_iff)
  then show ?thesis by (simp add: forM_modM [of _ "\<lambda>_. h"])
qed

text \<open>The rates after a window with \<open>k\<close> accesses of one name, on the two names of a test.\<close>

definition window_rates :: "nat \<Rightarrow> f64 \<times> f64 \<Rightarrow> f64 \<times> f64" where
  "window_rates k = (\<lambda>(a, b). (round64 (round64 (a * (3 / 4)) + round64 (round64 (real k) * (1 / 4))), round64 (b * (3 / 4))))"

definition has_rates :: "string \<Rightarrow> string \<Rightarrow> f64 \<times> f64 \<Rightarrow> membrane \<Rightarrow> bool" where
  "has_rates a b r m \<longleftrightarrow> mb_hits m = Map.empty \<and> membrane_rate m a = fst r \<and> membrane_rate m b = snd r \<and> round64 (snd r) = snd r"

lemma window_step:
  assumes m: "has_rates a b r m" and k: "0 < k" "k < W64" and ab: "a \<noteq> b"
  shows "\<exists>t. touch_window round64 k a m = (Ok (), t) \<and> has_rates a b (window_rates k r) t"
proof -
  let ?t = "decay round64 ((observe a ^^ k) m)"
  obtain j where j: "k = Suc j" using k(1) by (cases k) simp_all
  have hits: "mb_hits ((observe a ^^ k) m) a = Some k" "mb_hits ((observe a ^^ k) m) b = None"
    using observe_hits [of m a j] observe_frame(2) [of b a k m] m k(2) ab by (simp_all add: j has_rates_def)
  have zero: "round64 0 = 0" by (rule f64.fl_zero)
  have "membrane_rate ?t a = fst (window_rates k r)"
    unfolding decay_rate using m hits(1) f64.fl_idem zero
    by (cases "mb_rates m a") (simp_all add: folded_rate_def observe_frame(1) has_rates_def membrane_rate_def
        window_rates_def case_prod_beta)
  moreover have "membrane_rate ?t b = snd (window_rates k r)"
    unfolding decay_rate using m hits(2) f64.fl_idem zero
    by (cases "mb_rates m b") (simp_all add: folded_rate_def observe_frame(1) has_rates_def membrane_rate_def
        window_rates_def case_prod_beta)
  moreover have "mb_hits ?t = Map.empty" by (simp add: decay_def Let_def)
  moreover have "round64 (snd (window_rates k r)) = snd (window_rates k r)"
    by (simp add: window_rates_def case_prod_beta f64.fl_idem)
  ultimately have "has_rates a b (window_rates k r) ?t" by (simp add: has_rates_def)
  then show ?thesis by (simp add: touch_window_def bindM_def funpow_forM modM_run)
qed

lemma windows:
  assumes k: "0 < k" "k < W64" and ab: "a \<noteq> b"
  shows "has_rates a b r m \<Longrightarrow> \<exists>t. forM xs (\<lambda>_ :: nat. touch_window round64 k a) m = (Ok (), t)
    \<and> has_rates a b ((window_rates k ^^ length xs) r) t"
proof (induction xs arbitrary: r m)
  case (Cons x xs)
  from window_step [OF Cons.prems k ab] obtain u where u: "touch_window round64 k a m = (Ok (), u)" "has_rates a b (window_rates k r) u" by blast
  from Cons.IH [OF this(2)] u(1) show ?case by (auto simp: bindM_def funpow_swap1)
qed (simp add: retM_def)

lemma rates_steps:
  "window_rates 10 (0, 0) = (5 / 2, 0)"
  "(window_rates 1 ^^ 6) (0, 5 / 2) = (1 - (3 / 4) ^ 6, 5 / 2 * (3 / 4) ^ 6)"
  "(window_rates 5 ^^ 8) (0, 0) = (5 - 5 * (3 / 4) ^ 8, 0)"
  "(window_rates 5 ^^ 8) (0, 5 - 5 * (3 / 4) ^ 8) = (5 - 5 * (3 / 4) ^ 8, (5 - 5 * (3 / 4) ^ 8) * (3 / 4) ^ 8)"
  by (simp_all add: window_rates_def round64_grid40 numeral_eq_Suc power_Suc)

section \<open>They pass\<close>

lemma new_rates: "has_rates a b (0, 0) membrane_new"
  using f64.fl_zero by (simp add: has_rates_def membrane_new_def membrane_rate_def)

lemma swap_rates: "has_rates a b (p, q) m \<Longrightarrow> round64 p = p \<Longrightarrow> has_rates b a (q, p) m"
  by (simp add: has_rates_def)

lemma idle_decays_test: "fst (idle_decays round64 membrane_new) = Ok ()"
proof -
  let ?a = "''startup''" and ?b = "''steady''"
  obtain m1 where m1: "touch_window round64 10 ?a membrane_new = (Ok (), m1)" and r1: "has_rates ?a ?b (5 / 2, 0) m1"
    using window_step [OF new_rates, of 10 ?a ?b] by (auto simp: W64_def rates_steps(1))
  have "round64 (5 / 2) = 5 / 2" by (rule round64_grid40) simp_all
  note swapped = swap_rates [OF r1 this]
  obtain m2 where m2: "forM [0 ..< 6] (\<lambda>_. touch_window round64 1 ?b) m1 = (Ok (), m2)"
    and r2: "has_rates ?b ?a (1 - (3 / 4) ^ 6, 5 / 2 * (3 / 4) ^ 6) m2"
    using windows [of 1 ?b ?a "(0, 5 / 2)" m1 "[0 ..< 6]"] swapped by (auto simp: W64_def rates_steps(2) [simplified])
  have lit: "round64 (3 / 16) = 3 / 16" "round64 (1 / 4) = 1 / 4" "round64 (15 / 32) = 15 / 32" by (rule round64_grid40; simp)+
  have "3 / 16 \<le> round64 (2 / 10)" by (rule round64_within [of _ _ "1 / 4"]) (simp_all add: lit)
  then have "15 / 32 \<le> round64 (5 / 2 * round64 (2 / 10))" using round64_mono [of "15 / 32" "5 / 2 * round64 (2 / 10)"] lit(3) by simp
  moreover have "5 / 2 * (3 / 4) ^ 6 < (15 / 32 :: real)" "5 / 2 * (3 / 4) ^ 6 < 1 - (3 / 4 :: real) ^ 6" by (simp_all add: power_divide)
  ultimately have low: "membrane_rate m2 ?a < round64 (5 / 2 * round64 (2 / 10))" "membrane_rate m2 ?a < membrane_rate m2 ?b"
    using r2 unfolding has_rates_def fst_conv snd_conv by linarith+
  have peak: "membrane_rate m1 ?a = 5 / 2" using r1 by (simp add: has_rates_def)
  show ?thesis unfolding idle_decays_def
    by (rule run_step, rule m1, rule run_step, rule program_run(11), rule run_step, simp add: program_run peak,
        rule run_step, rule m2, rule run_step, simp add: program_run low)
      (simp only: program_run peak low if_True fst_conv)
qed

lemma follows_workload_test: "fst (follows_workload round64 membrane_new) = Ok ()"
proof -
  let ?a = "''A''" and ?b = "''B''" and ?p = "5 - 5 * (3 / 4 :: real) ^ 8"
  obtain m1 where m1: "forM [0 ..< 8] (\<lambda>_. touch_window round64 5 ?a) membrane_new = (Ok (), m1)" and r1: "has_rates ?a ?b (?p, 0) m1"
    using windows [OF _ _ _ new_rates, of 5 ?a ?b "[0 ..< 8]"] by (auto simp: W64_def rates_steps(3))
  have "round64 ?p = ?p" by (rule round64_grid40) (simp_all add: power_divide)
  note swapped = swap_rates [OF r1 this]
  obtain m2 where m2: "forM [0 ..< 8] (\<lambda>_. touch_window round64 5 ?b) m1 = (Ok (), m2)"
    and r2: "has_rates ?b ?a (?p, ?p * (3 / 4) ^ 8) m2"
    using windows [of 5 ?b ?a "(0, ?p)" m1 "[0 ..< 8]"] swapped by (auto simp: W64_def rates_steps(4))
  have "membrane_rate m1 ?b < membrane_rate m1 ?a" "membrane_rate m2 ?a < membrane_rate m2 ?b"
    using r1 r2 by (simp_all add: has_rates_def power_divide)
  note order = this
  show ?thesis unfolding follows_workload_def
    by (rule run_step, rule m1, rule run_step, simp add: program_run order, rule run_step, rule m2)
      (simp add: program_run order)
qed

lemma forgets_test: "fst (forgets round64 membrane_new) = Ok ()"
proof -
  have "round64 (1 / 4) = 1 / 4" "round64 1 = 1" by (rule round64_grid40; simp)+
  note exact = this
  have "membrane_rate (decay round64 (observe ''gone'' membrane_new)) ''gone'' = 1 / 4"
    unfolding decay_rate by (simp add: folded_rate_def observe_def membrane_new_def uadd_def W64_def exact)
  then show ?thesis
    by (simp add: forgets_def program_run forget_def) (simp add: membrane_rate_def)
qed

text \<open>The literals of the plans: the size penalty of 100 MB and the high-water marks.\<close>

definition penalty100 :: f64 where
  "penalty100 = round64 (round64 (5 / 100) * round64 (round64 (real (push_bit 20 100)) / (1024 * 1024)))"

lemma penalty: "81899 / 16384 \<le> penalty100 \<and> penalty100 \<le> 82001 / 16384"
proof -
  have lit: "round64 (819 / 16384) = 819 / 16384" "round64 (205 / 4096) = 205 / 4096" "round64 100 = 100"
    "round64 (81899 / 16384) = 81899 / 16384" "round64 (82001 / 16384) = 82001 / 16384" by (rule round64_grid40; simp)+
  have "round64 (real (push_bit 20 100)) = 104857600" by (simp add: round64_integer)
  then have mib: "round64 (round64 (real (push_bit 20 100)) / (1024 * 1024)) = 100" by (simp add: lit)
  have "819 / 16384 \<le> round64 (5 / 100)" "round64 (5 / 100) \<le> 205 / 4096"
    using round64_mono [of "819 / 16384" "5 / 100"] round64_mono [of "5 / 100" "205 / 4096"] lit(1,2) by simp_all
  then show ?thesis unfolding penalty100_def mib using lit(4,5)
    by (intro conjI round64_within [of "81899 / 16384" _ "82001 / 16384"]) simp_all
qed

lemma score_obs:
  "score round64 (policy_default round64) (obs r 100 resident)
    = Fin (round64 (round64 (round64 r * (if resident then 3 / 2 else 1)) - penalty100))"
  by (simp add: score_def obs_def policy_default_def HYSTERESIS_def penalty100_def Let_def)

text \<open>A score with a benefit between doubles.\<close>

lemma score_within:
  assumes "a \<le> benefit" "benefit \<le> b" and lo: "lo + 82001 / 16384 \<le> a" "round64 lo = lo" and hi: "b \<le> hi + 81899 / 16384" "round64 hi = hi"
  shows "lo \<le> round64 (benefit - penalty100) \<and> round64 (benefit - penalty100) \<le> hi"
  by (intro conjI round64_within [of lo _ hi]) (use assms penalty in linarith)+

lemma usize_within: "real a \<le> x \<Longrightarrow> x \<le> real b \<Longrightarrow> b < 2 ^ 64 \<Longrightarrow> a \<le> f64_to_usize x \<and> f64_to_usize x \<le> b"
  by (auto simp: f64_to_usize_def le_nat_floor) linarith+

lemma mark_within:
  assumes n: "round64 (real n) = real n" and a: "round64 (real a) = real a" and b: "round64 (real b) = real b"
    and "real a \<le> real n * (6963 / 8192)" "real n * (13927 / 16384) \<le> real b" "b < 2 ^ 64"
  shows "a \<le> high_water round64 n \<and> high_water round64 n \<le> b"
proof -
  have lit: "round64 (6963 / 8192) = 6963 / 8192" "round64 (13927 / 16384) = 13927 / 16384" by (rule round64_grid40; simp)+
  have mark: "6963 / 8192 \<le> round64 (85 / 100)" "round64 (85 / 100) \<le> 13927 / 16384"
    using round64_mono [of "6963 / 8192" "85 / 100"] round64_mono [of "85 / 100" "13927 / 16384"] lit by simp_all
  have "real a \<le> real n * round64 (85 / 100)" "real n * round64 (85 / 100) \<le> real b"
    using mult_left_mono [OF mark(1), of "real n"] mult_left_mono [OF mark(2), of "real n"] assms(4,5) by linarith+
  then have "real a \<le> round64 (real n * round64 (85 / 100))" "round64 (real n * round64 (85 / 100)) \<le> real b"
    using round64_within [of "real a" _ "real b"] a b by blast+
  from usize_within [OF this assms(6)] show ?thesis by (simp add: high_water_def VRAM_HIGH_WATER_def n)
qed

lemma whole_doubles:
  "round64 10 = 10" "round64 5 = 5" "round64 1 = 1" "round64 0 = 0" "round64 (- 1) = - 1" "round64 4 = 4" "round64 6 = 6"
  "round64 (- 4) = - 4" "round64 (- 6) = - 6" "round64 (1 / 8) = 1 / 8" "round64 (3 / 2) = 3 / 2" "round64 (19 / 16) = 19 / 16"
  "round64 (- (57 / 16)) = - (57 / 16)" "round64 (- (15 / 4)) = - (15 / 4)" "round64 (- (13 / 4)) = - (13 / 4)"
  by (rule round64_grid40; simp)+

lemma obs_fields:
  "ob_bytes (obs r 100 resident) = 104857600" "\<not> ob_pinned (obs r mb resident)"
  "uadd 0 104857600 = 104857600" "uadd 104857600 104857600 = 209715200" "uadd 209715200 104857600 = 314572800"
  by (simp_all add: obs_def uadd_def W64_def)

lemma fill_keeps_pinned:
  "n \<in> set keep \<or> (\<exists>b. (n, b) \<in> set cs \<and> ob_pinned b) \<Longrightarrow> n \<in> set (fst (fill cap cs used keep evict))"
  by (induction cap cs used keep evict rule: fill.induct) auto

lemma keeps_hottest_test: "keeps_hottest round64"
proof -
  let ?pol = "policy_default round64"
  obtain s1 where s1: "score round64 ?pol (obs 10 100 False) = Fin s1" "4 \<le> s1"
    using score_within [of 10 10 10 4 6] by (simp add: score_obs whole_doubles)
  obtain s2 where s2: "score round64 ?pol (obs 5 100 False) = Fin s2" "- 1 \<le> s2" "s2 \<le> 1"
    using score_within [of 5 5 5 "- 1" 1] by (simp add: score_obs whole_doubles)
  have "0 \<le> round64 (1 / 10)" "round64 (1 / 10) \<le> 1 / 8" by (rule round64_within [of 0 _ "1 / 8"]; simp add: whole_doubles)+
  then obtain s3 where s3: "score round64 ?pol (obs (round64 (1 / 10)) 100 False) = Fin s3" "s3 \<le> - 4"
    using score_within [of 0 "round64 (1 / 10)" "1 / 8" "- 6" "- 4"] by (simp add: score_obs whole_doubles f64.fl_idem)
  have cap: "209715200 \<le> high_water round64 262144000 \<and> high_water round64 262144000 \<le> 262144000"
    by (rule mark_within) (simp_all add: round64_integer)
  have "sort_key (candidate_rank round64 ?pol)
      [(''hot'', obs 10 100 False), (''warm'', obs 5 100 False), (''cold'', obs (round64 (1 / 10)) 100 False)]
    = [(''hot'', obs 10 100 False), (''warm'', obs 5 100 False), (''cold'', obs (round64 (1 / 10)) 100 False)]"
    by (rule sort_key_id_if_sorted) (use s1 s2 s3 in \<open>simp add: candidate_rank_def less_eq_rank_def less_score_def\<close>)
  with cap show ?thesis by (simp add: keeps_hottest_def plan_def Let_def obs_fields)
qed

lemma pinned_survive_test: "pinned_survive round64"
  unfolding pinned_survive_def plan_def Let_def by (rule fill_keeps_pinned) auto

lemma no_thrash_test: "no_thrash round64"
proof -
  let ?pol = "policy_default round64"
  obtain s1 where s1: "score round64 ?pol (obs 1 100 True) = Fin s1" "- (57 / 16) \<le> s1" "s1 \<le> - (13 / 4)"
    using score_within [of "3 / 2" "3 / 2" "3 / 2" "- (57 / 16)" "- (13 / 4)"] by (simp add: score_obs whole_doubles)
  have "1 \<le> round64 (115 / 100)" "round64 (115 / 100) \<le> 19 / 16" by (rule round64_within [of 1 _ "19 / 16"]; simp add: whole_doubles)+
  then obtain s2 where s2: "score round64 ?pol (obs (round64 (115 / 100)) 100 False) = Fin s2" "s2 \<le> - (15 / 4)"
    using score_within [of 1 "round64 (115 / 100)" "19 / 16" "- 6" "- (15 / 4)"] by (simp add: score_obs whole_doubles f64.fl_idem)
  obtain s3 where s3: "score round64 ?pol (obs 5 100 False) = Fin s3" "- 1 \<le> s3"
    using score_within [of 5 5 5 "- 1" 1] by (simp add: score_obs whole_doubles)
  have cap: "104857600 \<le> high_water round64 125829120 \<and> high_water round64 125829120 \<le> 125829120"
    by (rule mark_within) (simp_all add: round64_integer)
  have "sort_key (candidate_rank round64 ?pol) [(''incumbent'', obs 1 100 True), (''challenger'', obs (round64 (115 / 100)) 100 False)]
    = [(''incumbent'', obs 1 100 True), (''challenger'', obs (round64 (115 / 100)) 100 False)]"
    by (rule sort_key_id_if_sorted) (use s1 s2 in \<open>simp add: candidate_rank_def less_eq_rank_def less_score_def\<close>)
  moreover have "sort_key (candidate_rank round64 ?pol) [(''incumbent'', obs 1 100 True), (''challenger'', obs 5 100 False)]
    = [(''challenger'', obs 5 100 False), (''incumbent'', obs 1 100 True)]"
    using s1 s3 by (simp add: candidate_rank_def less_eq_rank_def less_score_def)
  ultimately show ?thesis
    using cap by (simp add: no_thrash_def plan_def Let_def obs_fields)
qed

lemma ties_planned_alike_test: "fst (ties_planned_alike fl m) = Ok ()"
proof -
  have "forM xs (\<lambda>_. checkM (\<lambda>m. x = x)) m = (Ok (), m)" for xs :: "nat list" and x :: "string list \<times> string list"
    by (rule forM_stays) (simp add: program_run)
  then show ?thesis by (simp add: ties_planned_alike_def Let_def bindM_def getM_def)
qed

text \<open>
  The membrane passes its unit tests in binary64: a burst decays below a light steady use and below a fifth of its
  peak, the rates follow a workload that moves, the plan keeps the hottest pages within the mark and a pinned one past it,
  a resident page is displaced by a page five times as hot and not by one 15 percent hotter, pages of equal score are planned
  alike each time, and a forgotten page has no rate.
\<close>

lemma membrane_tests:
  "fst (idle_decays round64 membrane_new) = Ok () \<and> fst (follows_workload round64 membrane_new) = Ok ()
    \<and> keeps_hottest round64 \<and> pinned_survive round64 \<and> no_thrash round64 \<and> fst (ties_planned_alike round64 membrane_new) = Ok ()
    \<and> fst (forgets round64 membrane_new) = Ok ()"
  by (intro conjI idle_decays_test follows_workload_test keeps_hottest_test pinned_survive_test no_thrash_test ties_planned_alike_test forgets_test)

end
