(* ===== verification/UnitTests.thy ===== *)
theory UnitTests
  imports Programs MembraneTests DramPool Vmt Dma Spill Gpu
begin

text \<open>
  The unit tests in the sources of the modelled modules, as programs over the models: each makes the
  calls of the test of \<open>src/\<close> named beside it, in its order, and panics where the test would. They hold of
  the code by its test suite; that they hold of the models is what is proved here.
\<close>

section \<open>The range allocators\<close>

definition ra_take :: "usize \<Rightarrow> (range_allocator, usize) op" where
  "ra_take n r = ra_allocate r n"

definition ra_give :: "usize \<Rightarrow> usize \<Rightarrow> (range_allocator, unit) op" where
  "ra_give off n = modM (\<lambda>r. ra_free r off n)"

definition dp_take :: "usize \<Rightarrow> (dram_pool, usize) op" where
  "dp_take n p = dp_allocate p n"

definition dp_give :: "usize \<Rightarrow> usize \<Rightarrow> (dram_pool, unit) op" where
  "dp_give ptr n = modM (\<lambda>p. dp_free p ptr n)"

definition test_pool :: "usize \<Rightarrow> dram_pool" where
  "test_pool capacity = \<lparr>dp_numa_node = 0, dp_gpu_ordinal = 0, dp_base_ptr = 0x10000000, dp_capacity = capacity,
     dp_offset = 0, dp_free_blocks = [], dp_numa_bound = False, dp_pinned = False\<rparr>"

definition range_sequential :: "(range_allocator, unit) op" where
  "range_sequential =
     bindM (expectM (ra_take 1)) (\<lambda>a.
     bindM (expectM (ra_take 1)) (\<lambda>b.
     bindM (assertM (a = 0)) (\<lambda>_.
     bindM (assertM (b = 64)) (\<lambda>_.
     checkM (\<lambda>r. ra_used r = 128)))))"

definition range_reuse :: "(range_allocator, unit) op" where
  "range_reuse =
     bindM (expectM (ra_take 128)) (\<lambda>keep.
     bindM (expectM (ra_take 256)) (\<lambda>a.
     bindM (ra_give a 256) (\<lambda>_.
     bindM (expectM (ra_take 256)) (\<lambda>b.
     bindM (assertM (a = b)) (\<lambda>_.
     bindM (checkM (\<lambda>r. ra_used r = 384)) (\<lambda>_.
     assertM (keep \<noteq> b)))))))"

definition range_churn :: "(range_allocator, unit) op" where
  "range_churn =
     bindM (forM [0 ..< 1000 :: nat] (\<lambda>_. bindM (expectM (ra_take 1024)) (\<lambda>off. ra_give off 1024))) (\<lambda>_.
     checkM (\<lambda>r. ra_used r = 0))"

definition range_coalesce :: "(range_allocator, unit) op" where
  "range_coalesce =
     bindM (expectM (ra_take 256)) (\<lambda>a.
     bindM (expectM (ra_take 256)) (\<lambda>b.
     bindM (expectM (ra_take 256)) (\<lambda>c.
     bindM (expectM (ra_take 256)) (\<lambda>tail.
     bindM (ra_give a 256) (\<lambda>_.
     bindM (ra_give c 256) (\<lambda>_.
     bindM (checkM (\<lambda>r. ra_free_block_count r = 2)) (\<lambda>_.
     bindM (ra_give b 256) (\<lambda>_.
     bindM (checkM (\<lambda>r. ra_free_block_count r = 1)) (\<lambda>_.
     bindM (expectM (ra_take 768)) (\<lambda>big.
     assertM (big = a)))))))))))"

definition range_retract :: "(range_allocator, unit) op" where
  "range_retract =
     bindM (expectM (ra_take 1024)) (\<lambda>a.
     bindM (ra_give a 1024) (\<lambda>_.
     bindM (checkM (\<lambda>r. ra_used r = 0)) (\<lambda>_.
     checkM (\<lambda>r. ra_free_block_count r = 0))))"

definition range_bad_frees :: "(range_allocator, unit) op" where
  "range_bad_frees =
     bindM (expectM (ra_take 256)) (\<lambda>a.
     bindM (expectM (ra_take 256)) (\<lambda>b.
     bindM (getM ra_used) (\<lambda>before.
     bindM (ra_give (push_bit 20 1) 256) (\<lambda>_.
     bindM (checkM (\<lambda>r. ra_used r = before)) (\<lambda>_.
     bindM (ra_give a 256) (\<lambda>_.
     bindM (getM ra_used) (\<lambda>after_one.
     bindM (ra_give a 256) (\<lambda>_.
     bindM (checkM (\<lambda>r. ra_used r = after_one)) (\<lambda>_.
     bindM (expectM (ra_take 256)) (\<lambda>x.
     bindM (expectM (ra_take 256)) (\<lambda>y.
     assertM (x \<noteq> y))))))))))))"

definition range_best_fit :: "(range_allocator, unit) op" where
  "range_best_fit =
     bindM (expectM (ra_take 128)) (\<lambda>small.
     bindM (expectM (ra_take 64)) (\<lambda>g1.
     bindM (expectM (ra_take 1024)) (\<lambda>large.
     bindM (expectM (ra_take 64)) (\<lambda>g2.
     bindM (ra_give small 128) (\<lambda>_.
     bindM (ra_give large 1024) (\<lambda>_.
     bindM (expectM (ra_take 128)) (\<lambda>got.
     bindM (assertM (got = small)) (\<lambda>_.
     bindM (expectM (ra_take 1024)) (\<lambda>big.
     assertM (big = large))))))))))"

definition range_exhaustion :: "(range_allocator, unit) op" where
  "range_exhaustion =
     bindM (assert_ok (ra_take 256)) (\<lambda>_.
     expect_error (DramOom 64 0 256) (ra_take 64))"

definition range_fragmentation :: "(range_allocator, unit) op" where
  "range_fragmentation =
     bindM (expectM (ra_take 256)) (\<lambda>a.
     bindM (expectM (ra_take 256)) (\<lambda>b.
     bindM (expectM (ra_take 256)) (\<lambda>c.
     bindM (expectM (ra_take 256)) (\<lambda>d.
     bindM (ra_give a 256) (\<lambda>_.
     bindM (ra_give c 256) (\<lambda>_.
     bindM (catchM (ra_take 512)) (\<lambda>out.
     assertM (case out of Inl (DramOom requested available capacity) \<Rightarrow> available = 512 | _ \<Rightarrow> False))))))))"

definition dram_sequential :: "(dram_pool, unit) op" where
  "dram_sequential =
     bindM (expectM (dp_take 1)) (\<lambda>a.
     bindM (expectM (dp_take 1)) (\<lambda>b.
     bindM (assertM (a = 0x10000000)) (\<lambda>_.
     bindM (assertM (b - a = 64)) (\<lambda>_.
     checkM (\<lambda>r. dp_used r = 128)))))"

definition dram_reuse :: "(dram_pool, unit) op" where
  "dram_reuse =
     bindM (expectM (dp_take 128)) (\<lambda>keep.
     bindM (expectM (dp_take 256)) (\<lambda>a.
     bindM (dp_give a 256) (\<lambda>_.
     bindM (expectM (dp_take 256)) (\<lambda>b.
     bindM (assertM (a = b)) (\<lambda>_.
     bindM (checkM (\<lambda>r. dp_used r = 384)) (\<lambda>_.
     assertM (keep \<noteq> b)))))))"

definition dram_churn :: "(dram_pool, unit) op" where
  "dram_churn =
     bindM (forM [0 ..< 1000 :: nat] (\<lambda>_. bindM (expectM (dp_take 1024)) (\<lambda>off. dp_give off 1024))) (\<lambda>_.
     checkM (\<lambda>r. dp_used r = 0))"

definition dram_coalesce :: "(dram_pool, unit) op" where
  "dram_coalesce =
     bindM (expectM (dp_take 256)) (\<lambda>a.
     bindM (expectM (dp_take 256)) (\<lambda>b.
     bindM (expectM (dp_take 256)) (\<lambda>c.
     bindM (expectM (dp_take 256)) (\<lambda>tail.
     bindM (dp_give a 256) (\<lambda>_.
     bindM (dp_give c 256) (\<lambda>_.
     bindM (checkM (\<lambda>r. (length \<circ> dp_free_blocks) r = 2)) (\<lambda>_.
     bindM (dp_give b 256) (\<lambda>_.
     bindM (checkM (\<lambda>r. (length \<circ> dp_free_blocks) r = 1)) (\<lambda>_.
     bindM (checkM (\<lambda>r. vec_get (dp_free_blocks r) 0 = Some (0, 768))) (\<lambda>_.
     bindM (expectM (dp_take 768)) (\<lambda>big.
     assertM (big = a))))))))))))"

definition dram_retract :: "(dram_pool, unit) op" where
  "dram_retract =
     bindM (expectM (dp_take 1024)) (\<lambda>a.
     bindM (checkM (\<lambda>r. dp_offset r = 1024)) (\<lambda>_.
     bindM (dp_give a 1024) (\<lambda>_.
     bindM (checkM (\<lambda>r. dp_offset r = 0)) (\<lambda>_.
     checkM (\<lambda>r. dp_free_blocks r = [])))))"

definition dram_bad_frees :: "(dram_pool, unit) op" where
  "dram_bad_frees =
     bindM (expectM (dp_take 256)) (\<lambda>a.
     bindM (expectM (dp_take 256)) (\<lambda>b.
     bindM (getM dp_used) (\<lambda>before.
     bindM (dp_give (usub a 0x10000) 256) (\<lambda>_.
     bindM (getM (\<lambda>r. uadd (uadd (dp_base_ptr r) (dp_capacity r)) 64)) (\<lambda>past.
     bindM (dp_give past 256) (\<lambda>_.
     bindM (checkM (\<lambda>r. dp_used r = before)) (\<lambda>_.
     bindM (dp_give a 256) (\<lambda>_.
     bindM (getM dp_used) (\<lambda>after_one.
     bindM (dp_give a 256) (\<lambda>_.
     bindM (checkM (\<lambda>r. dp_used r = after_one)) (\<lambda>_.
     bindM (expectM (dp_take 256)) (\<lambda>x.
     bindM (expectM (dp_take 256)) (\<lambda>y.
     assertM (x \<noteq> y))))))))))))))"

definition dram_best_fit :: "(dram_pool, unit) op" where
  "dram_best_fit =
     bindM (expectM (dp_take 128)) (\<lambda>small.
     bindM (expectM (dp_take 64)) (\<lambda>g1.
     bindM (expectM (dp_take 1024)) (\<lambda>large.
     bindM (expectM (dp_take 64)) (\<lambda>g2.
     bindM (dp_give small 128) (\<lambda>_.
     bindM (dp_give large 1024) (\<lambda>_.
     bindM (expectM (dp_take 128)) (\<lambda>got.
     bindM (assertM (got = small)) (\<lambda>_.
     bindM (expectM (dp_take 1024)) (\<lambda>big.
     assertM (big = large))))))))))"

definition dram_exhaustion :: "(dram_pool, unit) op" where
  "dram_exhaustion =
     bindM (assert_ok (dp_take 256)) (\<lambda>_.
     expect_error (DramOom 64 0 256) (dp_take 64))"

definition dram_fragmentation :: "(dram_pool, unit) op" where
  "dram_fragmentation =
     bindM (expectM (dp_take 256)) (\<lambda>a.
     bindM (expectM (dp_take 256)) (\<lambda>b.
     bindM (expectM (dp_take 256)) (\<lambda>c.
     bindM (expectM (dp_take 256)) (\<lambda>d.
     bindM (dp_give a 256) (\<lambda>_.
     bindM (dp_give c 256) (\<lambda>_.
     bindM (catchM (dp_take 512)) (\<lambda>out.
     assertM (case out of Inl (DramOom requested available capacity) \<Rightarrow> available = 512 | _ \<Rightarrow> False))))))))"

section \<open>Pages and the table\<close>

definition found :: "string \<Rightarrow> (vmt, page) op" where
  "found name v = unwrapM (vmt_lookup v name) v"

definition page_transitions :: "(page, unit) op" where
  "page_transitions =
     bindM (checkM (\<lambda>p. pg_state p = Unmapped)) (\<lambda>_.
     bindM (expectM (page_transition Allocated)) (\<lambda>_.
     bindM (checkM (\<lambda>p. pg_state p = Allocated)) (\<lambda>_.
     bindM (expectM (page_transition Resident)) (\<lambda>_.
     bindM (checkM (\<lambda>p. pg_state p = Resident)) (\<lambda>_.
     bindM (expectM (page_transition Warm)) (\<lambda>_.
     bindM (checkM (\<lambda>p. pg_state p = Warm)) (\<lambda>_.
     bindM (expectM (page_transition Resident)) (\<lambda>_.
     checkM (\<lambda>p. pg_state p = Resident)))))))))"

definition page_bad_transition :: "(page, unit) op" where
  "page_bad_transition =
     bindM (expectM (page_transition Allocated)) (\<lambda>_.
     assert_err (page_transition Warm))"

definition page_size :: "(page, unit) op" where
  "page_size =
     checkM (\<lambda>p. pg_size_bytes p = umul (umul 128 256) 2)"

definition page_touches :: "(page, unit) op" where
  "page_touches =
     bindM (checkM (\<lambda>p. pg_access_count p = 0)) (\<lambda>_.
     bindM (checkM (\<lambda>p. pg_last_access_ns p = 0)) (\<lambda>_.
     bindM (modM (page_touch 1000)) (\<lambda>_.
     bindM (checkM (\<lambda>p. pg_access_count p = 1)) (\<lambda>_.
     bindM (checkM (\<lambda>p. pg_last_access_ns p = 1000)) (\<lambda>_.
     bindM (modM (page_touch 2000)) (\<lambda>_.
     checkM (\<lambda>p. pg_access_count p = 2)))))))"

definition page_idle :: "(page, unit) op" where
  "page_idle =
     bindM (modM (page_touch 1000)) (\<lambda>_.
     bindM (checkM (\<lambda>p. \<not> page_is_idle p 1500 1000)) (\<lambda>_.
     checkM (\<lambda>p. page_is_idle p 3000 1000)))"

definition page_pinned :: "(page, unit) op" where
  "page_pinned =
     bindM (modM (\<lambda>p. p\<lparr>pg_pinned := True\<rparr>)) (\<lambda>_.
     bindM (modM (page_touch 0)) (\<lambda>_.
     checkM (\<lambda>p. \<not> page_is_idle p 10000000 1000)))"

definition page_hot :: "(page, unit) op" where
  "page_hot =
     bindM (checkM (\<lambda>p. \<not> page_is_hot p 10)) (\<lambda>_.
     bindM (forM [0 ..< 10] (\<lambda>i. modM (page_touch i))) (\<lambda>_.
     checkM (\<lambda>p. page_is_hot p 10)))"

definition table_lookup :: "(vmt, unit) op" where
  "table_lookup =
     bindM (expectM (vmt_allocate ''layer.0.weight'' [4096, 4096] 2)) (\<lambda>name.
     bindM (checkM (\<lambda>v. vmt_len v = 1)) (\<lambda>_.
     bindM (found name) (\<lambda>page.
     bindM (assertM (pg_name page = ''layer.0.weight'')) (\<lambda>_.
     bindM (assertM (pg_state page = Allocated)) (\<lambda>_.
     bindM (assertM (pg_tier page = Vram)) (\<lambda>_.
     assertM (pg_size_bytes page = umul (umul 4096 4096) 2)))))))"

definition table_auto_name :: "(vmt, unit) op" where
  "table_auto_name =
     bindM (expectM (vmt_allocate [] [100] 4)) (\<lambda>name.
     assertM (starts_with name ''vugva_alloc_''))"

definition table_remove :: "(vmt, unit) op" where
  "table_remove =
     bindM (expectM (vmt_allocate ''test'' [100] 4)) (\<lambda>name.
     bindM (checkM (\<lambda>v. vmt_len v = 1)) (\<lambda>_.
     bindM ((\<lambda>v. case vmt_remove name v of (p, v) \<Rightarrow> unwrapM p v)) (\<lambda>removed.
     bindM (assertM (pg_name removed = ''test'')) (\<lambda>_.
     checkM vmt_is_empty))))"

definition table_names :: "(vmt, unit) op" where
  "table_names =
     bindM (expectM (vmt_allocate ''a'' [10] 1)) (\<lambda>_.
     bindM (expectM (vmt_allocate ''b'' [20] 1)) (\<lambda>_.
     bindM (expectM (vmt_allocate ''c'' [30] 1)) (\<lambda>_.
     bindM (getM (\<lambda>v. dom (vt_pages v))) (\<lambda>names.
     bindM (assertM (card names = 3)) (\<lambda>_.
     bindM (assertM (''a'' \<in> names)) (\<lambda>_.
     bindM (assertM (''b'' \<in> names)) (\<lambda>_.
     assertM (''c'' \<in> names))))))))"

section \<open>The rings\<close>

definition test_desc :: "64 word \<Rightarrow> 64 word \<Rightarrow> 32 word \<Rightarrow> 32 word \<Rightarrow> 32 word \<Rightarrow> dma_descriptor" where
  "test_desc src dst n ordinal priority = \<lparr>dd_src_addr = src, dd_dst_addr = dst, dd_size = n, dd_src_ordinal = 0,
     dd_dst_ordinal = ordinal, dd_priority = priority, dd_flags = 0\<rparr>"

definition ring_one :: "(dma_ring, unit) op" where
  "ring_one =
     bindM (checkM (\<lambda>r. pending_count r = 0)) (\<lambda>_.
     bindM (expectM (ring_submit (test_desc 0xDEAD 0xBEEF 4096 1 2))) (\<lambda>slot.
     bindM (assertM (slot = 0)) (\<lambda>_.
     bindM (checkM (\<lambda>r. pending_count r = 1)) (\<lambda>_.
     bindM ((\<lambda>r. unwrapM (ring_peek r) r)) (\<lambda>peeked.
     bindM (assertM (dd_src_addr peeked = 0xDEAD)) (\<lambda>_.
     bindM (assertM (dd_dst_addr peeked = 0xBEEF)) (\<lambda>_.
     bindM (assertM (dd_size peeked = 4096)) (\<lambda>_.
     bindM (modM ring_ack) (\<lambda>_.
     checkM (\<lambda>r. pending_count r = 0))))))))))"

definition ring_fills :: "(dma_ring, unit) op" where
  "ring_fills =
     bindM (forM [0 ..< 1024 :: nat] (\<lambda>_. bindM (expectM (ring_submit (test_desc 0 0 0 0 0))) (\<lambda>_. retM ()))) (\<lambda>_.
     bindM (checkM ring_is_full) (\<lambda>_.
     assert_err (ring_submit (test_desc 0 0 0 0 0))))"

definition ring_wraps :: "(dma_ring, unit) op" where
  "ring_wraps =
     bindM (forM [0 ..< 5 :: nat] (\<lambda>_. bindM (forM [0 ..< 1024 :: nat] (\<lambda>_. bindM (expectM (ring_submit (test_desc 42 99 128 0 1))) (\<lambda>_. retM ()))) (\<lambda>_. forM [0 ..< 1024 :: nat] (\<lambda>_. modM ring_ack)))) (\<lambda>_.
     checkM (\<lambda>r. pending_count r = 0))"

definition completion_counts :: "(dma_completion, unit) op" where
  "completion_counts =
     bindM (checkM is_done) (\<lambda>_.
     bindM (checkM (\<lambda>c. completion_pending c = 0)) (\<lambda>_.
     bindM (modM (\<lambda>c. c\<lparr>dm_submitted := dm_submitted c + 3\<rparr>)) (\<lambda>_.
     bindM (checkM (\<lambda>c. \<not> is_done c)) (\<lambda>_.
     bindM (checkM (\<lambda>c. completion_pending c = 3)) (\<lambda>_.
     bindM (modM (\<lambda>c. c\<lparr>dm_completed := dm_completed c + 2\<rparr>)) (\<lambda>_.
     bindM (checkM (\<lambda>c. \<not> is_done c)) (\<lambda>_.
     bindM (checkM (\<lambda>c. completion_pending c = 1)) (\<lambda>_.
     bindM (modM (\<lambda>c. c\<lparr>dm_completed := dm_completed c + 1\<rparr>)) (\<lambda>_.
     bindM (checkM is_done) (\<lambda>_.
     checkM (\<lambda>c. completion_pending c = 0)))))))))))"

definition engine_routes :: "(dma_engine, unit) op" where
  "engine_routes =
     bindM (checkM (\<lambda>e. dma_is_idle e 0 = Ok True)) (\<lambda>_.
     bindM (checkM (\<lambda>e. dma_is_idle e 1 = Ok True)) (\<lambda>_.
     bindM (expectM (submit_dram_to_vram 0 0x1000 (0x1000 + 0x1000) 4096 2)) (\<lambda>_.
     bindM (checkM (\<lambda>e. dma_is_idle e 0 = Ok False)) (\<lambda>_.
     checkM (\<lambda>e. dma_total_pending e = 1)))))"
section \<open>The spill file\<close>

text \<open>\<open>expect\<close> on the creation, then the test on the file; the requests to the system succeed.\<close>

definition with_spill :: "string \<Rightarrow> usize \<Rightarrow> (spill_file, unit) op \<Rightarrow> unit outcome" where
  "with_spill path capacity body = (case spill_create None None path capacity True of
      Ok s \<Rightarrow> fst (body s)
    | _ \<Rightarrow> Panic)"

text \<open>The arrays of the round trip, at 0 and at 4096.\<close>

definition test_memory :: host_memory where
  "test_memory i = (if i < 4096 then word_of_nat i XOR 0x5A
     else if i < 8192 then word_of_nat (i - 4096) XOR 0xC3 else 0)"

definition spill_round_trips :: "string \<Rightarrow> unit outcome" where
  "spill_round_trips path = with_spill path 0x100000
     (bindM (expectM (spill_write_at_new_offset IoDone test_memory 0 4096)) (\<lambda>off_a.
      bindM (expectM (spill_write_at_new_offset IoDone test_memory 4096 4096)) (\<lambda>off_b.
      bindM (assertM (off_a \<noteq> off_b)) (\<lambda>_ s.
      (fst (bindM (expectM (spill_read_into IoDone s off_b 8192 4096)) (\<lambda>_.
            bindM (checkM (\<lambda>mem. slice mem 8192 4096 = slice test_memory 4096 4096)) (\<lambda>_.
            bindM (expectM (spill_read_into IoDone s off_a 12288 4096)) (\<lambda>_.
            checkM (\<lambda>mem. slice mem 12288 4096 = slice test_memory 0 4096)))) test_memory), s)))))"

definition spill_reuses :: "host_memory \<Rightarrow> string \<Rightarrow> unit outcome" where
  "spill_reuses mem path = with_spill path 0x100000
     (bindM (expectM (spill_write_at_new_offset IoDone mem 0 8192)) (\<lambda>a.
      bindM (checkM (\<lambda>s. spill_used s = 8192)) (\<lambda>_.
      bindM (modM (spill_free a 8192)) (\<lambda>_.
      bindM (checkM (\<lambda>s. spill_used s = 0)) (\<lambda>_.
      bindM (expectM (spill_write_at_new_offset IoDone mem 0 8192)) (\<lambda>b.
      assertM (a = b)))))))"

definition spill_full :: "host_memory \<Rightarrow> string \<Rightarrow> unit outcome" where
  "spill_full mem path = with_spill path 4096
     (bindM (assert_ok (spill_write_at_new_offset IoDone mem 0 4096)) (\<lambda>_.
      assert_err (spill_write_at_new_offset IoDone mem 0 64)))"

definition spill_removed :: "string \<Rightarrow> unit outcome" where
  "spill_removed path = with_spill path 4096 (checkM (\<lambda>s. spill_drop s = Some path))"

section \<open>The topology\<close>

definition two_nodes :: "nat \<Rightarrow> numa_topology" where
  "two_nodes d = \<lparr>nt_distances = [[10, d], [d, 10]], nt_node_count = 2\<rparr>"

definition numa_single :: "(real \<Rightarrow> f64) \<Rightarrow> bool" where
  "numa_single fl \<longleftrightarrow> nt_node_count single_node = 1 \<and> numa_distance single_node 0 0 = 10
     \<and> dma_bandwidth_factor fl single_node 0 0 = fl (95 / 100)"

definition numa_factors :: "(real \<Rightarrow> f64) \<Rightarrow> bool" where
  "numa_factors fl \<longleftrightarrow> dma_bandwidth_factor fl (two_nodes 18) 0 0 = fl (95 / 100)
     \<and> dma_bandwidth_factor fl (two_nodes 18) 1 1 = fl (95 / 100)
     \<and> dma_bandwidth_factor fl (two_nodes 18) 0 1 = fl (80 / 100) \<and> dma_bandwidth_factor fl (two_nodes 18) 1 0 = fl (80 / 100)"

definition numa_far :: "(real \<Rightarrow> f64) \<Rightarrow> bool" where
  "numa_far fl \<longleftrightarrow> dma_bandwidth_factor fl (two_nodes 31) 0 1 = fl (65 / 100)"

definition numa_outside :: bool where
  "numa_outside \<longleftrightarrow> numa_distance single_node 0 99 = 30"

definition peer_self_access :: bool where
  "peer_self_access \<longleftrightarrow> (let m = \<lparr>pm_can_access = [[True, False], [False, True]], pm_enabled = [[False, False], [False, False]],
       pm_num_gpus = 2, pm_primary_ctxs = []\<rparr>
     in can_access m 0 0 \<and> can_access m 1 1 \<and> \<not> can_access m 0 1)"

definition test_cluster :: gpu_cluster where
  "test_cluster = \<lparr>gc_infos = [\<lparr>gi_device_id = 0, gi_name = ''test'', gi_total_vram = 0, gi_free_vram = 0,
       gi_compute_capability = (0, 0), gi_sm_count = 0, gi_numa_node = 0, gi_pci_bus_id = 0, gi_pci_device_id = 0,
       gi_concurrent_kernels = False\<rparr>],
     gc_ordinals = [0], gc_peer_matrix = \<lparr>pm_can_access = [[True]], pm_enabled = [[False]], pm_num_gpus = 1, pm_primary_ctxs = []\<rparr>,
     gc_numa = two_nodes 18, gc_ordinal_map = [0 \<mapsto> 0]\<rparr>"

definition cluster_nodes :: "(real \<Rightarrow> f64) \<Rightarrow> bool" where
  "cluster_nodes fl \<longleftrightarrow> optimal_dram_node test_cluster 0 = Ok 0 \<and> dma_factor fl test_cluster 0 0 = Ok (fl (95 / 100))
     \<and> dma_factor fl test_cluster 0 1 = Ok (fl (80 / 100))"


section \<open>They pass\<close>

lemma taken [program_run]:
  "ra_take n r = ra_allocate r n" "ra_give off n r = (Ok (), ra_free r off n)"
  "dp_take n p = dp_allocate p n" "dp_give ptr n p = (Ok (), dp_free p ptr n)"
  by (simp_all add: ra_take_def ra_give_def dp_take_def dp_give_def modM_def)

text \<open>The observers, on states given by their fields.\<close>

lemma ra_observers:
  "ra_used \<lparr>ra_capacity = c, ra_offset = o1, ra_free_blocks = bs\<rparr> = usub o1 (usum (map snd bs))"
  "ra_free_block_count \<lparr>ra_capacity = c, ra_offset = o1, ra_free_blocks = bs\<rparr> = length bs"
  "dp_used \<lparr>dp_numa_node = n, dp_gpu_ordinal = g, dp_base_ptr = p, dp_capacity = c, dp_offset = o1, dp_free_blocks = bs,
     dp_numa_bound = nb, dp_pinned = pn\<rparr> = usub o1 (usum (map snd bs))"
  by (simp_all add: ra_used_def ra_free_block_count_def dp_used_def)

lemmas ra_test = program_run ra_observers ra_new_def ra_align_mod ra_allocate_def ra_free_def Let_def coalesce_right_def coalesce_left_def
  retract_def partition_point_def vec_remove_def vec_insert_def uadd_def usub_def usum_def W64_def
lemmas dp_test = ra_test test_pool_def vec_get_def dp_allocate_core dp_free_core dp_put_def dp_core_def
lemmas page_test = program_run page_new_def page_transition_def page_touch_def page_is_idle_def page_is_hot_def
  umul_def uproduct_def uadd_def W64_def saturating_sub_def

lemmas table_test = program_run vmt_allocate_run vmt_new_def vmt_lookup_def vmt_remove_def vmt_len_def vmt_is_empty_def fresh_page_def
  page_new_def auto_name_def Let_def umul_def uproduct_def uadd_def W64_def starts_with_append
lemmas ring_test = program_run ring_new_def ring_submit_def ring_is_full_def pending_count_def u32_saturating_sub_def completion_new_def
  store_submitted_def ring_write_def ring_peek_def ring_ack_def mark_complete_def test_desc_def Let_def is_done_def completion_pending_def
lemmas engine_eval = ring_test dma_new_def ring_at_def submit_dram_to_vram_def dma_is_idle_def dma_total_pending_def vec_get_def upt_rec

lemma range_tests:
  "fst (range_sequential (ra_new 4096)) = Ok ()" "fst (range_reuse (ra_new 4096)) = Ok ()"
  "fst (range_coalesce (ra_new 4096)) = Ok ()" "fst (range_retract (ra_new 4096)) = Ok ()"
  "fst (range_bad_frees (ra_new 4096)) = Ok ()" "fst (range_best_fit (ra_new 8192)) = Ok ()"
  "fst (range_exhaustion (ra_new 256)) = Ok ()" "fst (range_fragmentation (ra_new 1024)) = Ok ()"
  unfolding range_sequential_def range_reuse_def range_coalesce_def range_retract_def range_bad_frees_def 
    range_best_fit_def range_exhaustion_def range_fragmentation_def
  by ((rule run_step, (simp add: ra_test)[1])+, (simp add: ra_test)[1])+

lemma dram_tests:
  "fst (dram_sequential (test_pool 4096)) = Ok ()" "fst (dram_reuse (test_pool 4096)) = Ok ()"
  "fst (dram_coalesce (test_pool 4096)) = Ok ()" "fst (dram_retract (test_pool 4096)) = Ok ()"
  "fst (dram_bad_frees (test_pool 4096)) = Ok ()" "fst (dram_best_fit (test_pool 8192)) = Ok ()"
  "fst (dram_exhaustion (test_pool 256)) = Ok ()" "fst (dram_fragmentation (test_pool 1024)) = Ok ()"
  unfolding dram_sequential_def dram_reuse_def dram_coalesce_def dram_retract_def dram_bad_frees_def 
    dram_best_fit_def dram_exhaustion_def dram_fragmentation_def
  by ((rule run_step, (simp add: dp_test)[1])+, (simp add: dp_test)[1])+

lemma page_tests:
  "fst (page_transitions (page_new ''test'' [1024] 2 1 1)) = Ok ()"
  "fst (page_bad_transition (page_new ''test'' [1024] 2 1 1)) = Ok ()"
  "fst (page_touches (page_new ''test'' [100] 2 1 1)) = Ok ()"
  "fst (page_idle (page_new ''test'' [100] 2 1 1)) = Ok ()"
  "fst (page_pinned (page_new ''test'' [100] 2 1 1)) = Ok ()"
  unfolding page_transitions_def page_bad_transition_def page_touches_def page_idle_def page_pinned_def
  by ((rule run_step, (simp add: page_test)[1])+, (simp add: page_test)[1])+

lemma page_size_test: "fst (page_size (page_new ''test'' [128, 256] 2 1 1)) = Ok ()"
  unfolding page_size_def by (simp add: page_test)

lemma touched: "pg_access_count p + length xs < W64 \<Longrightarrow> pg_access_count (fold page_touch xs p) = pg_access_count p + length xs"
  by (induction xs arbitrary: p) (simp_all add: page_touch_def uadd_def)

lemma page_hot_test: "fst (page_hot (page_new ''test'' [100] 2 1 1)) = Ok ()"
  unfolding page_hot_def
  by (rule run_step, simp add: page_test, rule run_step [OF forM_modM]) (simp add: program_run page_is_hot_def touched page_new_def W64_def)

lemma table_tests:
  "fst (table_lookup (vmt_new 2 1)) = Ok ()" "fst (table_auto_name (vmt_new 1 1)) = Ok ()"
  "fst (table_remove (vmt_new 1 1)) = Ok ()" "fst (table_names (vmt_new 1 1)) = Ok ()"
  unfolding table_lookup_def table_auto_name_def table_remove_def table_names_def found_def
  by ((rule run_step, (simp add: table_test)[1])+, (simp add: table_test)[1])+

lemma range_churn_test: "fst (range_churn (ra_new 4096)) = Ok ()"
proof -
  have "forM [0 ..< 1000 :: nat] (\<lambda>_. bindM (expectM (ra_take 1024)) (\<lambda>off. ra_give off 1024)) (ra_new 4096) = (Ok (), ra_new 4096)"
    by (rule forM_stays) (simp add: ra_test)
  then show ?thesis unfolding range_churn_def by (rule run_step) (simp add: ra_test)
qed

lemma dram_churn_test: "fst (dram_churn (test_pool 4096)) = Ok ()"
proof -
  have "forM [0 ..< 1000 :: nat] (\<lambda>_. bindM (expectM (dp_take 1024)) (\<lambda>off. dp_give off 1024)) (test_pool 4096) = (Ok (), test_pool 4096)"
    by (rule forM_stays) (simp add: dp_test)
  then show ?thesis unfolding dram_churn_def by (rule run_step) (simp add: dp_test)
qed

text \<open>Filling a ring and draining it.\<close>

lemma ring_filled:
  assumes "ring_inv r" and "ring_tail r + length xs < 2 ^ 32" and "ring_tail r + length xs \<le> ring_head r + 1024"
  shows "\<exists>t. forM xs (\<lambda>_. bindM (expectM (ring_submit d)) (\<lambda>_. retM ())) r = (Ok (), t) \<and> ring_inv t
    \<and> ring_tail t = ring_tail r + length xs \<and> ring_head t = ring_head r"
  using assms
proof (induction xs arbitrary: r)
  case (Cons x xs)
  have "0 < ring_budget r" "ring_tail r < ring_head r + 1024" using Cons.prems by (simp_all add: ring_budget_def)
  from ring_submit_room [OF Cons.prems(1) this, of d] obtain u where u: "ring_submit d r = (Ok (dm_submitted (rg_completion r) AND 1023), u)"
    "ring_inv u" "ring_tail u = ring_tail r + 1" "ring_head u = ring_head r" by (auto simp: ring_head_def)
  with Cons.IH [of u] Cons.prems show ?case by (auto simp: bindM_def retM_def expectM_run [where m = "ring_submit d", OF u(1)])
qed (simp add: retM_def)

lemma ring_drained:
  assumes "ring_inv r" and "ring_head r + length xs \<le> ring_tail r"
  shows "\<exists>t. forM xs (\<lambda>_. modM ring_ack) r = (Ok (), t) \<and> ring_inv t \<and> ring_tail t = ring_tail r \<and> ring_head t = ring_head r + length xs"
  using assms
proof (induction xs arbitrary: r)
  case (Cons x xs)
  have "ring_head r < ring_tail r" using Cons.prems by simp
  note acked = ring_ack_cons [OF Cons.prems(1) this]
  with Cons.IH [of "ring_ack r"] Cons.prems show ?case by (auto simp: bindM_def modM_def)
qed (simp add: retM_def)

lemma ring_fills_test: "fst (ring_fills ring_new) = Ok ()"
proof -
  let ?d = "test_desc 0 0 0 0 0"
  obtain t where t: "forM [0 ..< 1024 :: nat] (\<lambda>_. bindM (expectM (ring_submit ?d)) (\<lambda>_. retM ())) ring_new = (Ok (), t)"
    and full: "ring_inv t" "ring_tail t = ring_tail ring_new + 1024" "ring_head t = ring_head ring_new"
    using ring_filled [OF ring_new_inv, of "[0 ..< 1024]" ?d] by (auto simp: ring_new_def ring_tail_def ring_head_def completion_new_def)
  have "ring_is_full t" using full ring_full_iff [of t] by (simp add: ring_inv_def ring_tail_def ring_head_def ring_new_def completion_new_def)
  note full = this
  show ?thesis unfolding ring_fills_def
    by (rule run_step, rule t) (simp add: program_run ring_submit_def full)
qed

lemma ring_one_test: "fst (ring_one ring_new) = Ok ()"
  unfolding ring_one_def
  by ((rule run_step, (simp add: ring_test)[1])+, (simp add: ring_test)[1])

lemma ring_wraps_test: "fst (ring_wraps ring_new) = Ok ()"
proof -
  let ?fill = "forM [0 ..< 1024 :: nat] (\<lambda>_. bindM (expectM (ring_submit (test_desc 42 99 128 0 1))) (\<lambda>_. retM ()))"
  let ?drain = "forM [0 ..< 1024 :: nat] (\<lambda>_. modM ring_ack)"
  have round: "\<exists>t. bindM ?fill (\<lambda>_. ?drain) r = (Ok (), t) \<and> ring_inv t \<and> ring_tail t = ring_tail r + 1024 \<and> ring_head t = ring_tail t"
    if r: "ring_inv r" "ring_head r = ring_tail r" "ring_tail r + 1024 < 2 ^ 32" for r
  proof -
    obtain u where "?fill r = (Ok (), u)" "ring_inv u" "ring_tail u = ring_tail r + 1024" "ring_head u = ring_head r"
      using ring_filled [OF r(1), of "[0 ..< 1024]" "test_desc 42 99 128 0 1"] r by auto
    with ring_drained [of u "[0 ..< 1024]"] r(2) show ?thesis by (auto simp: bindM_def)
  qed
  have "\<exists>t. forM xs (\<lambda>_ :: nat. bindM ?fill (\<lambda>_. ?drain)) r = (Ok (), t) \<and> ring_head t = ring_tail t"
    if "ring_inv r" "ring_head r = ring_tail r" "ring_tail r + 1024 * length xs < 2 ^ 32" for xs r
    using that
  proof (induction xs arbitrary: r)
    case (Cons x xs)
    then obtain t where "bindM ?fill (\<lambda>_. ?drain) r = (Ok (), t)" "ring_inv t" "ring_tail t = ring_tail r + 1024" "ring_head t = ring_tail t"
      using round [of r] by auto
    moreover from this Cons.IH [of t] Cons.prems(3) obtain u where
      "forM xs (\<lambda>_ :: nat. bindM ?fill (\<lambda>_. ?drain)) t = (Ok (), u)" "ring_head u = ring_tail u" by auto
    ultimately show ?case by (simp add: bindM_def [of "bindM ?fill (\<lambda>_. ?drain)"])
  qed (simp add: retM_def)
  from this [OF ring_new_inv, of "[0 ..< 5]"]
  obtain t where t: "forM [0 ..< 5 :: nat] (\<lambda>_. bindM ?fill (\<lambda>_. ?drain)) ring_new = (Ok (), t)" and "ring_head t = ring_tail t"
    by (auto simp: ring_new_def ring_tail_def ring_head_def completion_new_def)
  then have "pending_count t = 0" using ring_pending [of t] by (simp add: unat_eq_0)
  note drained = this
  show ?thesis unfolding ring_wraps_def by (rule run_step, rule t) (simp add: program_run drained)
qed

lemma completion_test: "fst (completion_counts completion_new) = Ok ()"
  unfolding completion_counts_def
  by ((rule run_step, (simp add: ring_test)[1])+, (simp add: ring_test)[1])

lemma engine_test: "fst (engine_routes (dma_new 2)) = Ok ()"
  unfolding engine_routes_def
  by ((rule run_step, (simp add: engine_eval)[1])+, (simp add: engine_eval)[1])

lemma created:
  "(\<And>s :: spill_file. length (sf_bytes s) = c \<Longrightarrow> sf_alloc s = ra_new c \<Longrightarrow> sf_path s = path \<Longrightarrow> sf_unlink_on_drop s \<Longrightarrow> fst (body s) = r)
    \<Longrightarrow> with_spill path c body = r"
  by (simp add: with_spill_def spill_create_def)

lemmas spill_test = ra_test spill_write_at_new_offset_def write_all_at_def spill_used_def spill_free_def spill_drop_def

lemma spill_tests:
  "spill_reuses mem path = Ok ()" "spill_full mem path = Ok ()" "spill_removed path = Ok ()"
  unfolding spill_reuses_def spill_full_def spill_removed_def
  by (rule created, ((rule run_step, (simp add: spill_test)[1])+)?, (simp add: spill_test)[1])+

lemma spill_round_trip_test: "spill_round_trips path = Ok ()"
  unfolding spill_round_trips_def
proof (rule created)
  fix s :: spill_file assume len: "length (sf_bytes s) = 0x100000" and alloc: "sf_alloc s = ra_new 0x100000"
  let ?a = "slice test_memory 0 4096" and ?b = "slice test_memory 4096 4096"
  define f where "f = pwrite 4096 ?b (pwrite 0 ?a (sf_bytes s))"
  define t where "t = s\<lparr>sf_alloc := \<lparr>ra_capacity = 0x100000, ra_offset = 8192, ra_free_blocks = []\<rparr>, sf_bytes := f\<rparr>"
  have a: "spill_write_at_new_offset IoDone test_memory 0 4096 s
      = (Ok 0, s\<lparr>sf_alloc := \<lparr>ra_capacity = 0x100000, ra_offset = 4096, ra_free_blocks = []\<rparr>, sf_bytes := pwrite 0 ?a (sf_bytes s)\<rparr>)"
    using alloc by (simp add: spill_test)
  have b: "spill_write_at_new_offset IoDone test_memory 4096 4096
      (s\<lparr>sf_alloc := \<lparr>ra_capacity = 0x100000, ra_offset = 4096, ra_free_blocks = []\<rparr>, sf_bytes := pwrite 0 ?a (sf_bytes s)\<rparr>) = (Ok 4096, t)"
    by (simp add: spill_test t_def f_def)
  have one: "length (pwrite 0 ?a (sf_bytes s)) = 0x100000" using len by (simp add: pwrite_length)
  have at: "take 4096 (drop 4096 f) = ?b" using pwrite_at [of 4096 ?b "pwrite 0 ?a (sf_bytes s)"] one by (simp add: f_def)
  have "take 4096 (drop 0 f) = take 4096 (drop 0 (pwrite 0 ?a (sf_bytes s)))"
    unfolding f_def by (rule pwrite_other) (use one in simp_all)
  also have "\<dots> = ?a" using pwrite_at [of 0 ?a "sf_bytes s"] len by simp
  finally have start: "take 4096 (drop 0 f) = ?a" .
  have read: "spill_read_into IoDone t 4096 8192 4096 mem = (Ok (), mem_write 8192 ?b mem)"
    "spill_read_into IoDone t 0 12288 4096 mem = (Ok (), mem_write 12288 ?a mem)" for mem
    using at start by (simp_all add: spill_read_into_def read_exact_at_def Let_def t_def)
  have "fst (bindM (expectM (spill_read_into IoDone t 4096 8192 4096)) (\<lambda>_.
            bindM (checkM (\<lambda>mem. slice mem 8192 4096 = ?b)) (\<lambda>_.
            bindM (expectM (spill_read_into IoDone t 0 12288 4096)) (\<lambda>_.
            checkM (\<lambda>mem. slice mem 12288 4096 = ?a)))) test_memory) = Ok ()"
    by ((rule run_step, (simp add: program_run read slice_mem_write)[1])+) (simp add: program_run slice_mem_write)
  note last = this
  show "fst (bindM (expectM (spill_write_at_new_offset IoDone test_memory 0 4096)) (\<lambda>off_a.
      bindM (expectM (spill_write_at_new_offset IoDone test_memory 4096 4096)) (\<lambda>off_b.
      bindM (assertM (off_a \<noteq> off_b)) (\<lambda>_ s.
      (fst (bindM (expectM (spill_read_into IoDone s off_b 8192 4096)) (\<lambda>_.
            bindM (checkM (\<lambda>mem. slice mem 8192 4096 = slice test_memory 4096 4096)) (\<lambda>_.
            bindM (expectM (spill_read_into IoDone s off_a 12288 4096)) (\<lambda>_.
            checkM (\<lambda>mem. slice mem 12288 4096 = slice test_memory 0 4096)))) test_memory), s)))) s) = Ok ()"
    by (rule run_step, rule expectM_run, rule a, rule run_step, rule expectM_run, rule b, rule run_step, simp add: program_run)
      (simp add: last)
qed

lemma numa_tests: "numa_single fl" "numa_factors fl" "numa_far fl" "numa_outside" "peer_self_access" "cluster_nodes fl"
  by (simp_all add: numa_single_def numa_factors_def numa_far_def numa_outside_def peer_self_access_def cluster_nodes_def
      dma_bandwidth_factor_def numa_distance_def single_node_def two_nodes_def vec_get_def can_access_def cell_def Let_def
      optimal_dram_node_def dma_factor_def index_of_def test_cluster_def upt_rec)

lemma module_tests:
  "fst (range_sequential (ra_new 4096)) = Ok () \<and> fst (range_reuse (ra_new 4096)) = Ok ()
    \<and> fst (range_churn (ra_new 4096)) = Ok () \<and> fst (range_coalesce (ra_new 4096)) = Ok ()
    \<and> fst (range_retract (ra_new 4096)) = Ok () \<and> fst (range_bad_frees (ra_new 4096)) = Ok ()
    \<and> fst (range_best_fit (ra_new 8192)) = Ok () \<and> fst (range_exhaustion (ra_new 256)) = Ok ()
    \<and> fst (range_fragmentation (ra_new 1024)) = Ok ()
    \<and> fst (dram_sequential (test_pool 4096)) = Ok () \<and> fst (dram_reuse (test_pool 4096)) = Ok ()
    \<and> fst (dram_churn (test_pool 4096)) = Ok () \<and> fst (dram_coalesce (test_pool 4096)) = Ok ()
    \<and> fst (dram_retract (test_pool 4096)) = Ok () \<and> fst (dram_bad_frees (test_pool 4096)) = Ok ()
    \<and> fst (dram_best_fit (test_pool 8192)) = Ok () \<and> fst (dram_exhaustion (test_pool 256)) = Ok ()
    \<and> fst (dram_fragmentation (test_pool 1024)) = Ok ()
    \<and> fst (page_transitions (page_new ''test'' [1024] 2 1 1)) = Ok () \<and> fst (page_bad_transition (page_new ''test'' [1024] 2 1 1)) = Ok ()
    \<and> fst (page_size (page_new ''test'' [128, 256] 2 1 1)) = Ok () \<and> fst (page_touches (page_new ''test'' [100] 2 1 1)) = Ok ()
    \<and> fst (page_idle (page_new ''test'' [100] 2 1 1)) = Ok () \<and> fst (page_pinned (page_new ''test'' [100] 2 1 1)) = Ok ()
    \<and> fst (page_hot (page_new ''test'' [100] 2 1 1)) = Ok ()
    \<and> fst (table_lookup (vmt_new 2 1)) = Ok () \<and> fst (table_auto_name (vmt_new 1 1)) = Ok ()
    \<and> fst (table_remove (vmt_new 1 1)) = Ok () \<and> fst (table_names (vmt_new 1 1)) = Ok ()
    \<and> spill_round_trips path = Ok () \<and> spill_reuses mem path = Ok () \<and> spill_full mem path = Ok () \<and> spill_removed path = Ok ()
    \<and> fst (ring_one ring_new) = Ok () \<and> fst (ring_fills ring_new) = Ok () \<and> fst (ring_wraps ring_new) = Ok ()
    \<and> fst (completion_counts completion_new) = Ok () \<and> fst (engine_routes (dma_new 2)) = Ok ()
    \<and> numa_single fl \<and> numa_factors fl \<and> numa_far fl \<and> numa_outside \<and> peer_self_access \<and> cluster_nodes fl
    \<and> fst (idle_decays round64 membrane_new) = Ok () \<and> fst (follows_workload round64 membrane_new) = Ok ()
    \<and> keeps_hottest round64 \<and> pinned_survive round64 \<and> no_thrash round64 \<and> fst (ties_planned_alike round64 membrane_new) = Ok ()
    \<and> fst (forgets round64 membrane_new) = Ok ()"
  by (intro conjI range_tests range_churn_test dram_tests dram_churn_test page_tests page_size_test page_hot_test table_tests
      spill_tests spill_round_trip_test ring_one_test ring_fills_test ring_wraps_test completion_test engine_test numa_tests
      idle_decays_test follows_workload_test keeps_hottest_test pinned_survive_test no_thrash_test ties_planned_alike_test forgets_test)

end
