(* ===== verification/PaperTests.thy ===== *)
theory PaperTests
  imports UnitTests
begin

text \<open>
  \<open>tests/proofs.rs\<close>, the tests that stand for the claims of the paper, as programs over the models, with the layout
  of a descriptor; and the last step of \<open>examples/demo.rs\<close>, which checks some of the same constants. Doubles
  are those of binary64; the natural logarithm is a function of the platform.
\<close>

section \<open>The layout of a descriptor\<close>

text \<open>
  Size and alignment of a structure with \<open>repr(C, align(..))\<close>, from the sizes and alignments of its fields: each field
  at the next multiple of its alignment, the whole padded to its own.
\<close>

definition pad_to :: "nat \<Rightarrow> nat \<Rightarrow> nat" where
  "pad_to a n = (n + a - 1) div a * a"

definition c_struct :: "nat \<Rightarrow> (nat \<times> nat) list \<Rightarrow> nat \<times> nat" where
  "c_struct a members =
     (let al = fold (\<lambda>(_, k). max k) members a;
          used = fold (\<lambda>(n, k) off. pad_to k off + n) members 0
      in (pad_to al used, al))"

text \<open>Two \<open>u64\<close>, five \<open>u32\<close> and 28 bytes.\<close>

definition descriptor_fields :: "(nat \<times> nat) list" where
  "descriptor_fields = [(8, 8), (8, 8), (4, 4), (4, 4), (4, 4), (4, 4), (4, 4), (28, 1)]"

definition descriptor_layout :: "nat \<times> nat" where
  "descriptor_layout = c_struct 64 descriptor_fields"

definition DESCRIPTOR_SIZE :: nat where
  "DESCRIPTOR_SIZE = fst descriptor_layout"

definition descriptor_is_64_bytes :: bool where
  "descriptor_is_64_bytes \<longleftrightarrow> DESCRIPTOR_SIZE = 64"

definition proof_alignment :: bool where
  "proof_alignment \<longleftrightarrow> snd descriptor_layout = 64"

definition proof_metadata :: bool where
  "proof_metadata \<longleftrightarrow> 8 + DESCRIPTOR_SIZE = 72"

section \<open>Ratios and constants\<close>

definition proof_metadata_ratio :: "(real \<Rightarrow> f64) \<Rightarrow> bool" where
  "proof_metadata_ratio fl \<longleftrightarrow> fl (72 / 4096) < fl (2 / 100)
     \<and> fl (72 / fl (256 * 1024)) < fl (1 / 1000)
     \<and> fl (72 / fl (fl (256 * 1024) * 1024)) < fl (1 / 1000000)"

definition proof_cpu_bypass :: "(real \<Rightarrow> f64) \<Rightarrow> bool" where
  "proof_cpu_bypass fl \<longleftrightarrow> fl (72 / fl (real_of_int (4 * 1024 * 1024))) < fl (1 / 10000)"

definition proof_bandwidth :: "(real \<Rightarrow> f64) \<Rightarrow> bool" where
  "proof_bandwidth fl \<longleftrightarrow> fl (43 * 10) < 1008 \<and> fl (6 * 3) < 43 \<and> fl (6 * 100) < 1008"

definition proof_numa_factors :: "(real \<Rightarrow> f64) \<Rightarrow> bool" where
  "proof_numa_factors fl \<longleftrightarrow> fl (80 / 100) < fl (95 / 100) \<and> fl (65 / 100) < fl (80 / 100)
     \<and> 1 / 4 \<le> fl (fl (95 / 100) - fl (65 / 100))"

definition proof_high_water :: "(real \<Rightarrow> f64) \<Rightarrow> bool" where
  "proof_high_water fl \<longleftrightarrow> 1 / 2 < VRAM_HIGH_WATER fl \<and> VRAM_HIGH_WATER fl < 1"

definition proof_power_of_two :: bool where
  "proof_power_of_two \<longleftrightarrow> ALIGN \<noteq> 0 \<and> (word_of_nat ALIGN :: 64 word) AND (word_of_nat ALIGN - 1) = 0 \<and> ALIGN = 64"

text \<open>\<open>tier as u8\<close>, and the greater of two doubles.\<close>

fun tier_as_u8 :: "tier \<Rightarrow> nat" where
  "tier_as_u8 Vram = 0" | "tier_as_u8 Dram = 1" | "tier_as_u8 Ssd = 2"

definition proof_tier_order :: bool where
  "proof_tier_order \<longleftrightarrow> tier_as_u8 Vram < tier_as_u8 Dram \<and> tier_as_u8 Dram < tier_as_u8 Ssd"

definition proof_latency_hiding :: "(real \<Rightarrow> f64) \<Rightarrow> bool" where
  "proof_latency_hiding fl \<longleftrightarrow> max 50 (fl (85 / 10)) = 50 \<and> fl (85 / 10) \<le> 50"

definition demo_invariants :: "(real \<Rightarrow> f64) \<Rightarrow> bool" where
  "demo_invariants fl \<longleftrightarrow> DESCRIPTOR_SIZE = 64
     \<and> fl (72 / fl (fl (2 * 1024) * 1024)) < fl (1 / 1000)
     \<and> 17 < fl (1008 / 28) \<and> 3 < fl (28 / 7)
     \<and> fl (fl (fl (fl (256 * 1024) * 1024) / fl (315 / 10 * 10 ^ 9)) * 1000) < 50"

section \<open>Pages and the table\<close>

fun advance_page :: "page_state \<Rightarrow> page \<Rightarrow> page" where
  "advance_page Unmapped p = p"
| "advance_page Allocated p = p\<lparr>pg_state := Allocated\<rparr>"
| "advance_page Resident p = p\<lparr>pg_state := Resident\<rparr>"
| "advance_page Warm p = p\<lparr>pg_state := Resident, pg_state := Warm\<rparr>"
| "advance_page Cold p = p\<lparr>pg_state := Resident, pg_state := Warm, pg_state := Cold\<rparr>"

definition proof_transitions :: "(page, unit) op" where
  "proof_transitions =
     forM [(Unmapped, Allocated), (Allocated, Resident), (Resident, Warm), (Warm, Resident), (Warm, Cold), (Cold, Warm)]
       (\<lambda>(from, to). bindM (modM (\<lambda>_. page_new ''t'' [10] 4 1 1)) (\<lambda>_.
          bindM (modM (advance_page from)) (\<lambda>_. assert_ok (page_transition to))))"

definition proof_rejections :: "(page, unit) op" where
  "proof_rejections =
     forM [(Unmapped, Resident), (Unmapped, Warm), (Unmapped, Cold), (Allocated, Warm), (Allocated, Cold),
           (Resident, Allocated), (Cold, Allocated), (Cold, Unmapped)]
       (\<lambda>(from, to). bindM (modM (\<lambda>_. page_new ''t'' [10] 4 1 1)) (\<lambda>_.
          bindM (modM (advance_page from)) (\<lambda>_. assert_err (page_transition to))))"

definition proof_unique_names :: "(vmt, unit) op" where
  "proof_unique_names =
     bindM (expectM (vmt_allocate [] [100] 4)) (\<lambda>n1.
     bindM (expectM (vmt_allocate [] [100] 4)) (\<lambda>n2.
     assertM (n1 \<noteq> n2)))"

definition proof_lookup :: "(vmt, unit) op" where
  "proof_lookup =
     bindM (expectM (vmt_allocate ''test'' [256, 256] 4)) (\<lambda>name.
     bindM (found name) (\<lambda>page.
     bindM (assertM (pg_size_bytes page = umul (umul 256 256) 4)) (\<lambda>_.
     bindM (assertM (pg_element_size page = 4)) (\<lambda>_.
     assertM (pg_shape page = [256, 256])))))"

definition proof_remove :: "(vmt, unit) op" where
  "proof_remove =
     bindM (expectM (vmt_allocate ''test'' [100] 4)) (\<lambda>name.
     bindM ((\<lambda>v. case vmt_remove name v of (p, v) \<Rightarrow> unwrapM p v)) (\<lambda>page.
     bindM (assertM (pg_name page = ''test'')) (\<lambda>_.
     checkM (\<lambda>v. vmt_lookup v name = None))))"

definition proof_page_size :: bool where
  "proof_page_size \<longleftrightarrow> pg_size_bytes (page_new ''t'' [1024, 1024] 4 1 1) = 4194304
     \<and> pg_size_bytes (page_new ''t'' [8192, 8192] 2 1 1) = 134217728"

section \<open>The range allocator\<close>

definition proof_aligned :: "(range_allocator, unit) op" where
  "proof_aligned =
     forM [1, 7, 33, 63, 64, 65, 128, 1000] (\<lambda>n. bindM (expectM (ra_take n)) (\<lambda>offset. assertM (offset mod ALIGN = 0)))"

definition proof_best_fit :: "(range_allocator, unit) op" where
  "proof_best_fit =
     bindM (expectM (ra_take 128)) (\<lambda>a.
     bindM (expectM (ra_take 256)) (\<lambda>b.
     bindM (expectM (ra_take 128)) (\<lambda>c.
     bindM (ra_give a 128) (\<lambda>_.
     bindM (ra_give c 128) (\<lambda>_.
     bindM (expectM (ra_take 64)) (\<lambda>got.
     assertM (got = a)))))))"

definition proof_coalesce :: "(range_allocator, unit) op" where
  "proof_coalesce =
     bindM (expectM (ra_take 128)) (\<lambda>a.
     bindM (expectM (ra_take 128)) (\<lambda>b.
     bindM (expectM (ra_take 128)) (\<lambda>c.
     bindM (expectM (ra_take 128)) (\<lambda>d.
     bindM (ra_give a 128) (\<lambda>_.
     bindM (ra_give b 128) (\<lambda>_.
     checkM (\<lambda>r. ra_free_block_count r = 1)))))))"

definition proof_fragmentation :: "(range_allocator, unit) op" where
  "proof_fragmentation =
     bindM (expectM (ra_take 128)) (\<lambda>a.
     bindM (expectM (ra_take 64)) (\<lambda>b.
     bindM (expectM (ra_take 64)) (\<lambda>c.
     bindM (ra_give a 128) (\<lambda>_.
     bindM (ra_give c 64) (\<lambda>_.
     bindM (catchM (ra_take 192)) (\<lambda>out.
     assertM (case out of Inl (DramOom requested available capacity) \<Rightarrow> requested = 192 \<and> available = 192 | _ \<Rightarrow> False)))))))"

section \<open>The membrane\<close>

definition score_of :: "(real \<Rightarrow> f64) \<Rightarrow> f64 \<Rightarrow> usize \<Rightarrow> bool \<Rightarrow> bool \<Rightarrow> score" where
  "score_of fl rate bytes resident pinned =
     score fl (policy_default fl) \<lparr>ob_rate = rate, ob_bytes = bytes, ob_resident = resident, ob_pinned = pinned\<rparr>"

definition proof_hysteresis :: "(real \<Rightarrow> f64) \<Rightarrow> bool" where
  "proof_hysteresis fl \<longleftrightarrow>
     (case score_of fl (105 / 10) 1024 False False of Infinity \<Rightarrow> False
      | Fin chal \<Rightarrow> Fin (fl (chal / HYSTERESIS)) \<le> score_of fl 10 1024 True False)"

definition proof_pinned :: "(real \<Rightarrow> f64) \<Rightarrow> bool" where
  "proof_pinned fl \<longleftrightarrow> score_of fl 100 1024 False False < score_of fl 0 (1024 * 1024) True True"

definition proof_decay :: "(real \<Rightarrow> f64) \<Rightarrow> (f64, unit) op" where
  "proof_decay fl =
     bindM (forM [0 ..< 100 :: nat] (\<lambda>_. modM (\<lambda>rate. fl (rate * RATE_DECAY)))) (\<lambda>_.
     checkM (\<lambda>rate. rate < fl (1 / 1000)))"

definition proof_half_life :: "(real \<Rightarrow> f64) \<Rightarrow> (f64 \<Rightarrow> f64) \<Rightarrow> bool" where
  "proof_half_life fl ln64 \<longleftrightarrow> (let half_life = fl (ln64 (1 / 2) / ln64 RATE_DECAY) in 2 \<le> half_life \<and> half_life < 3)"

text \<open>The state is \<open>prev\<close>.\<close>

definition proof_monotonic :: "(real \<Rightarrow> f64) \<Rightarrow> (score, unit) op" where
  "proof_monotonic fl =
     forM [fl (1 / 10), 1, 5, 10, 50, 100] (\<lambda>rate.
       bindM (checkM (\<lambda>prev. prev < score_of fl rate 1024 False False)) (\<lambda>_.
       modM (\<lambda>_. score_of fl rate 1024 False False)))"

definition proof_penalty :: "(real \<Rightarrow> f64) \<Rightarrow> bool" where
  "proof_penalty fl \<longleftrightarrow> score_of fl 10 (1024 * 1024) False False < score_of fl 10 256 False False"

section \<open>They hold\<close>

lemma layout_tests: "descriptor_is_64_bytes" "proof_alignment" "proof_metadata"
  by (simp_all add: descriptor_is_64_bytes_def proof_alignment_def proof_metadata_def DESCRIPTOR_SIZE_def descriptor_layout_def
      c_struct_def descriptor_fields_def pad_to_def)

lemma size_tests: "proof_power_of_two" "proof_tier_order" "proof_page_size"
  by (simp_all add: proof_power_of_two_def proof_tier_order_def proof_page_size_def ALIGN_def page_new_def umul_def uproduct_def W64_def)

text \<open>A rounded value between doubles.\<close>

lemma round64_below: "x \<le> a \<Longrightarrow> round64 a = a \<Longrightarrow> a < b \<Longrightarrow> b \<le> y \<Longrightarrow> round64 b = b \<Longrightarrow> round64 x < round64 y"
  using round64_mono [of x a] round64_mono [of b y] by linarith

lemma round64_lt: "x \<le> a \<Longrightarrow> round64 a = a \<Longrightarrow> a < y \<Longrightarrow> round64 x < y"
  using round64_mono [of x a] by linarith

lemma round64_gt: "a \<le> x \<Longrightarrow> round64 a = a \<Longrightarrow> y < a \<Longrightarrow> y < round64 x"
  using round64_mono [of a x] by linarith

lemma ratio_tests: "proof_metadata_ratio round64" "proof_cpu_bypass round64" "proof_bandwidth round64"
proof -
  have n: "round64 262144 = 262144" "round64 268435456 = 268435456" "round64 4194304 = 4194304" "round64 430 = 430"
    "round64 18 = 18" "round64 600 = 600" by (rule round64_integer; simp)+
  have "round64 (72 / 4096) < round64 (2 / 100)" 
    by (rule round64_below [of _ "18 / 1024" "19 / 1024"]) (simp_all add: round64_grid40)
  moreover have "round64 (72 / 262144) < round64 (1 / 1000)" 
    by (rule round64_below [of _ "1 / 2048" "1 / 1024"]) (simp_all add: round64_grid40)
  moreover have "round64 (72 / 268435456) < round64 (1 / 1000000)" 
    by (rule round64_below [of _ "1 / 2 ^ 21" "1 / 2 ^ 20"]) (simp_all add: round64_grid40)
  ultimately show "proof_metadata_ratio round64" by (simp add: proof_metadata_ratio_def n)
  have "round64 (72 / 4194304) < round64 (1 / 10000)" 
    by (rule round64_below [of _ "1 / 2 ^ 15" "1 / 2 ^ 14"]) (simp_all add: round64_grid40)
  then show "proof_cpu_bypass round64" by (simp add: proof_cpu_bypass_def n)
  show "proof_bandwidth round64" by (simp add: proof_bandwidth_def n)
qed

lemma factor_tests: "proof_numa_factors round64" "proof_high_water round64" "proof_latency_hiding round64"
proof -
  have "round64 (80 / 100) < round64 (95 / 100)" "round64 (65 / 100) < round64 (80 / 100)"
    by (rule round64_below [of _ "7 / 8" "15 / 16"] round64_below [of _ "11 / 16" "3 / 4"]; simp add: round64_grid40)+
  moreover have "15 / 16 \<le> round64 (95 / 100)" "round64 (65 / 100) \<le> 11 / 16"
    using round64_mono [of "15 / 16" "95 / 100"] round64_mono [of "65 / 100" "11 / 16"] by (simp_all add: round64_grid40)
  then have "1 / 4 \<le> round64 (round64 (95 / 100) - round64 (65 / 100))"
    using round64_mono [of "1 / 4" "round64 (95 / 100) - round64 (65 / 100)"] by (simp add: round64_grid40)
  ultimately show "proof_numa_factors round64" by (simp add: proof_numa_factors_def)
  have "1 / 2 < round64 (85 / 100)" "round64 (85 / 100) < 1"
    by (rule round64_gt [of "3 / 4"] round64_lt [of _ "7 / 8"]; simp add: round64_grid40)+
  then show "proof_high_water round64" by (simp add: proof_high_water_def VRAM_HIGH_WATER_def)
  have "round64 (85 / 10) = 85 / 10" by (simp add: round64_grid40)
  then show "proof_latency_hiding round64" by (simp add: proof_latency_hiding_def)
qed

lemma demo_test: "demo_invariants round64"
proof -
  have n: "round64 2048 = 2048" "round64 2097152 = 2097152" "round64 36 = 36" "round64 4 = 4" "round64 262144 = 262144"
    "round64 268435456 = 268435456" "round64 31500000000 = 31500000000" by (rule round64_integer; simp)+
  have "round64 (72 / 2097152) < round64 (1 / 1000)"
    by (rule round64_below [of _ "1 / 2048" "1 / 1024"]) (simp_all add: round64_grid40)
  moreover have "round64 (268435456 / 31500000000) \<le> 1 / 64"
    using round64_mono [of "268435456 / 31500000000" "1 / 64"] by (simp add: round64_grid40)
  then have "round64 (round64 (268435456 / 31500000000) * 1000) < 50"
    by (intro round64_lt [of _ 16]) (simp_all add: round64_grid40)
  ultimately show ?thesis using layout_tests(1) by (simp add: demo_invariants_def descriptor_is_64_bytes_def n)
qed

lemma state_tests: "fst (proof_transitions p) = Ok ()" "fst (proof_rejections p) = Ok ()"
  by (simp_all add: proof_transitions_def proof_rejections_def page_test)

lemma first_names: "decimal (Suc 0) \<noteq> decimal (Suc (Suc 0))"
  by (subst (1 2) decimal.simps) (simp add: digit_def)

lemma vmt_tests: "fst (proof_lookup (vmt_new 1 1)) = Ok ()" "fst (proof_remove (vmt_new 1 1)) = Ok ()"
  "fst (proof_unique_names (vmt_new 1 1)) = Ok ()"
  unfolding proof_lookup_def proof_remove_def proof_unique_names_def found_def
  by ((rule run_step, (simp add: table_test)[1])+, (simp add: table_test first_names)[1])+

lemma allocator_tests:
  "fst (proof_aligned (ra_new (1024 * 1024))) = Ok ()" "fst (proof_best_fit (ra_new 1024)) = Ok ()"
  "fst (proof_coalesce (ra_new 1024)) = Ok ()" "fst (proof_fragmentation (ra_new 256)) = Ok ()"
  unfolding proof_best_fit_def proof_coalesce_def proof_fragmentation_def
  by (simp add: proof_aligned_def ra_test ALIGN_def)
    ((rule run_step, (simp add: ra_test)[1])+, (simp add: ra_test)[1])+

text \<open>A score between doubles, from the megabytes \<open>m\<close> of the page and its benefit \<open>c\<close>.\<close>

lemma score_between:
  assumes bytes: "round64 (real bytes) = real bytes" "round64 (real bytes / 1048576) = m"
    and m: "round64 (m / 32) = m / 32" "round64 (m / 16) = m / 16" "0 \<le> m"
    and c: "round64 (round64 r * (if resident then 3 / 2 else 1)) = c"
    and lo: "round64 lo = lo" "lo \<le> c - m / 16" and hi: "round64 hi = hi" "c - m / 32 \<le> hi"
  shows "\<exists>s. score_of round64 r bytes resident False = Fin s \<and> lo \<le> s \<and> s \<le> hi"
proof -
  let ?p = "round64 (round64 (5 / 100) * m)"
  have "1 / 32 \<le> round64 (5 / 100)" "round64 (5 / 100) \<le> 1 / 16"
    using round64_mono [of "1 / 32" "5 / 100"] round64_mono [of "5 / 100" "1 / 16"] by (simp_all add: round64_grid40)
  from mult_right_mono [OF this(1) m(3)] mult_right_mono [OF this(2) m(3)]
  have "m / 32 \<le> ?p" "?p \<le> m / 16"
    using round64_within [of "m / 32" "round64 (5 / 100) * m" "m / 16"] m by simp_all
  then have "lo \<le> round64 (c - ?p)" "round64 (c - ?p) \<le> hi"
    using round64_mono [of lo "c - ?p"] round64_mono [of "c - ?p" hi] lo hi by simp_all
  moreover have "score_of round64 r bytes resident False = Fin (round64 (c - ?p))"
    using c bytes by (cases resident) (simp_all add: score_of_def score_def policy_default_def HYSTERESIS_def Let_def)
  ultimately show ?thesis by blast
qed

lemma score_tests: "proof_hysteresis round64" "proof_pinned round64" "proof_penalty round64"
proof -
  obtain s where "score_of round64 10 1024 True False = Fin s" "14 \<le> s"
    using score_between [of 1024 "1 / 1024" 10 True 15 14 15] by (auto simp: round64_grid40)
  moreover obtain t where t: "score_of round64 (105 / 10) 1024 False False = Fin t" "10 \<le> t" "t \<le> 21 / 2"
    using score_between [of 1024 "1 / 1024" "105 / 10" False "105 / 10" 10 "21 / 2"] by (auto simp: round64_grid40)
  moreover have "round64 (t / (3 / 2)) \<le> 7"
    using round64_mono [of "t / (3 / 2)" 7] t by (simp add: round64_grid40)
  ultimately show "proof_hysteresis round64" by (simp add: proof_hysteresis_def HYSTERESIS_def)
  obtain h where "score_of round64 100 1024 False False = Fin h"
    using score_between [of 1024 "1 / 1024" 100 False 100 99 100] by (auto simp: round64_grid40)
  then show "proof_pinned round64"
    by (simp add: proof_pinned_def less_score_def) (simp add: score_of_def score_def)
  obtain a where "score_of round64 10 256 False False = Fin a" "10 - 1 / 4096 \<le> a"
    using score_between [of 256 "1 / 4096" 10 False 10 "10 - 1 / 4096" 10] by (auto simp: round64_grid40)
  moreover obtain b where "score_of round64 10 (1024 * 1024) False False = Fin b" "b \<le> 10 - 1 / 32"
    using score_between [of "1024 * 1024" 1 10 False 10 9 "10 - 1 / 32"] by (auto simp: round64_grid40 round64_integer)
  ultimately show "proof_penalty round64" by (simp add: proof_penalty_def less_score_def)
qed

lemma monotonic_test: "fst (proof_monotonic round64 (Fin 0)) = Ok ()"
proof -
  have c: "3 / 32 \<le> round64 (1 / 10)" "round64 (1 / 10) \<le> 1 / 8"
    using round64_mono [of "3 / 32" "1 / 10"] round64_mono [of "1 / 10" "1 / 8"] by (simp_all add: round64_grid40)
  obtain a where a: "score_of round64 (round64 (1 / 10)) 1024 False False = Fin a" "1 / 16 \<le> a" "a \<le> 1 / 4"
    using score_between [of 1024 "1 / 1024" "round64 (1 / 10)" False "round64 (1 / 10)" "1 / 16" "1 / 4"] c
    by (auto simp: round64_grid40 f64.fl_idem)
  have grid: "\<exists>s. score_of round64 r 1024 False False = Fin s \<and> r - 1 / 2 \<le> s \<and> s \<le> r"
    if "round64 r = r" "round64 (r - 1 / 2) = r - 1 / 2" for r
    using score_between [of 1024 "1 / 1024" r False r "r - 1 / 2" r] that by (auto simp: round64_grid40)
  obtain b where b: "score_of round64 1 1024 False False = Fin b" "1 / 2 \<le> b" "b \<le> 1"
    using grid [of 1] by (auto simp: round64_grid40)
  obtain d where d: "score_of round64 5 1024 False False = Fin d" "9 / 2 \<le> d" "d \<le> 5"
    using grid [of 5] by (auto simp: round64_grid40)
  obtain e where e: "score_of round64 10 1024 False False = Fin e" "19 / 2 \<le> e" "e \<le> 10"
    using grid [of 10] by (auto simp: round64_grid40)
  obtain g where g: "score_of round64 50 1024 False False = Fin g" "99 / 2 \<le> g" "g \<le> 50"
    using grid [of 50] by (auto simp: round64_grid40)
  obtain h where h: "score_of round64 100 1024 False False = Fin h" "199 / 2 \<le> h"
    using grid [of 100] by (auto simp: round64_grid40)
  show ?thesis using a b d e g h by (simp add: proof_monotonic_def program_run less_score_def)
qed

text \<open>Five rounds of decay leave less than a quarter of a power of two.\<close>

definition decay_step :: "f64 \<Rightarrow> f64" where
  "decay_step r = round64 (r * RATE_DECAY)"

lemma decay_pow: "r \<le> x \<Longrightarrow> (\<And>i. i \<le> j \<Longrightarrow> round64 (x * (3 / 4) ^ i) = x * (3 / 4) ^ i) \<Longrightarrow> (decay_step ^^ j) r \<le> x * (3 / 4) ^ j"
proof (induction j)
  case (Suc j)
  then have "(decay_step ^^ j) r * (3 / 4) \<le> x * (3 / 4) ^ Suc j" by simp
  from round64_mono [OF this] Suc.prems(2) [of "Suc j"]
  have "round64 ((decay_step ^^ j) r * (3 / 4)) \<le> x * (3 / 4) ^ Suc j" by (simp only: le_refl)
  then show ?case by (simp add: decay_step_def [of "(decay_step ^^ j) r"] RATE_DECAY_def)
qed simp

lemma decay_quarter:
  assumes "r \<le> 128 / 4 ^ n" and "n \<le> 20"
  shows "(decay_step ^^ 5) r \<le> 128 / 4 ^ Suc n"
proof -
  have "round64 (128 / 4 ^ n * (3 / 4) ^ i) = 128 / 4 ^ n * (3 / 4 :: real) ^ i" if "i \<le> 5" for i
  proof (rule round64_dyadic [of _ "128 * 3 ^ i" "2 * (n + i)"])
    show "128 / 4 ^ n * (3 / 4) ^ i = real_of_int (128 * 3 ^ i) / 2 ^ (2 * (n + i))"
      by (simp add: power_mult power_add power_divide)
    have "(3 :: int) ^ i \<le> 3 ^ 5" using that by (intro power_increasing) simp_all
    then show "\<bar>128 * 3 ^ i :: int\<bar> < 2 ^ 53" by simp
    show "2 * (n + i) \<le> 1074" using that assms(2) by simp
  qed
  from decay_pow [OF assms(1) this, of 5] have "(decay_step ^^ 5) r \<le> 128 / 4 ^ n * (3 / 4) ^ 5" by simp
  also have "\<dots> \<le> 128 / 4 ^ Suc n" by (simp add: power_divide field_simps)
  finally show ?thesis .
qed

lemma decay_groups: "n \<le> 20 \<Longrightarrow> (decay_step ^^ (5 * n)) 100 \<le> 128 / 4 ^ n"
proof (induction n)
  case (Suc n)
  from decay_quarter [of "(decay_step ^^ (5 * n)) 100" n] Suc
  have "(decay_step ^^ (5 + 5 * n)) 100 \<le> 128 / 4 ^ Suc n" by (simp add: funpow_add)
  then show ?case by (simp add: algebra_simps)
qed simp

lemma decay_test: "fst (proof_decay round64 100) = Ok ()"
proof -
  have "(decay_step ^^ 100) 100 \<le> 128 / 4 ^ 20" using decay_groups [of 20] by simp
  moreover have "1 / 1024 \<le> round64 (1 / 1000)" using round64_mono [of "1 / 1024" "1 / 1000"] by (simp add: round64_grid40)
  ultimately have "(decay_step ^^ 100) 100 < round64 (1 / 1000)" by simp
  moreover have "forM [0 ..< 100 :: nat] (\<lambda>_. modM (\<lambda>rate. round64 (rate * RATE_DECAY))) r = (Ok (), (decay_step ^^ 100) r)" for r
    using funpow_forM [of 100 decay_step r] by (simp add: decay_step_def [abs_def])
  ultimately show ?thesis unfolding proof_decay_def by (intro run_step) (simp_all add: program_run)
qed

lemma ln_bound_below: "0 < x \<Longrightarrow> 1 - 1 / x \<le> ln (x :: real)"
  using ln_le_minus_one [of "1 / x"] by (simp add: ln_div)

text \<open>The half-life of a rate lies between two and three windows, for every logarithm that is right to one hundredth.\<close>

lemma half_life_test:
  assumes ln64: "\<forall>x \<in> {1 / 2 .. 1}. \<bar>ln64 x - ln x\<bar> \<le> 1 / 100"
  shows "proof_half_life round64 ln64"
proof -
  let ?a = "ln64 (1 / 2)" and ?b = "ln64 (3 / 4)"
  have near: "\<bar>?a - ln (1 / 2)\<bar> \<le> 1 / 100" "\<bar>?b - ln (3 / 4)\<bar> \<le> 1 / 100" using ln64 by simp_all
  have "ln ((3 / 4) ^ 2 / (1 / 2)) = 2 * ln (3 / 4) - ln (1 / 2 :: real)" "ln ((1 / 2) / (3 / 4) ^ 3) = ln (1 / 2) - 3 * ln (3 / 4 :: real)"
    by (subst ln_div; simp only: ln_realpow; simp)+
  then have "ln (9 / 8) = 2 * ln (3 / 4) - ln (1 / 2 :: real)" "ln (32 / 27) = ln (1 / 2) - 3 * ln (3 / 4 :: real)"
    by (simp_all only: power_divide) simp_all
  moreover have "1 / 9 \<le> ln (9 / 8 :: real)" "5 / 32 \<le> ln (32 / 27 :: real)" "- 1 / 3 \<le> ln (3 / 4 :: real)" "ln (3 / 4 :: real) \<le> - 1 / 4"
    using ln_bound_below [of "9 / 8"] ln_bound_below [of "32 / 27"] ln_bound_below [of "3 / 4"] ln_le_minus_one [of "3 / 4"] by simp_all
  ultimately have "?b < 0" "?a \<le> 2 * ?b" "23 / 8 * ?b \<le> ?a" using near by linarith+
  then have "2 \<le> ?a / ?b" "?a / ?b \<le> 23 / 8" by (simp_all add: neg_le_divide_eq neg_divide_le_eq mult.commute)
  from round64_within [OF this] have "2 \<le> round64 (?a / ?b)" "round64 (?a / ?b) \<le> 23 / 8" by (simp_all add: round64_grid40)
  then show ?thesis by (simp add: proof_half_life_def RATE_DECAY_def)
qed

text \<open>
  Each test of \<open>tests/proofs.rs\<close>, run from the state it builds, reaches its end with every unwrap and assertion,
  loops of a thousand rounds included; in binary64, for every natural logarithm that is right to one hundredth.
\<close>

lemma paper_tests:
  assumes "\<forall>x \<in> {1 / 2 .. 1}. \<bar>ln64 x - ln x\<bar> \<le> 1 / 100"
  shows "descriptor_is_64_bytes \<and> proof_alignment \<and> proof_metadata \<and> proof_metadata_ratio round64 \<and> proof_cpu_bypass round64
    \<and> fst (proof_transitions p) = Ok () \<and> fst (proof_rejections p) = Ok ()
    \<and> proof_bandwidth round64 \<and> proof_numa_factors round64
    \<and> proof_hysteresis round64 \<and> proof_pinned round64 \<and> fst (proof_decay round64 100) = Ok () \<and> proof_half_life round64 ln64
    \<and> fst (proof_monotonic round64 (Fin 0)) = Ok () \<and> proof_penalty round64 \<and> proof_high_water round64
    \<and> proof_power_of_two \<and> fst (proof_aligned (ra_new (1024 * 1024))) = Ok () \<and> fst (proof_best_fit (ra_new 1024)) = Ok ()
    \<and> fst (proof_coalesce (ra_new 1024)) = Ok () \<and> fst (proof_fragmentation (ra_new 256)) = Ok ()
    \<and> fst (proof_unique_names (vmt_new 1 1)) = Ok () \<and> fst (proof_lookup (vmt_new 1 1)) = Ok () \<and> fst (proof_remove (vmt_new 1 1)) = Ok ()
    \<and> proof_page_size \<and> proof_tier_order \<and> proof_latency_hiding round64"
  by (intro conjI layout_tests size_tests ratio_tests factor_tests state_tests vmt_tests allocator_tests score_tests
      monotonic_test decay_test half_life_test assms)

end
