(* ===== verification/Examples.thy ===== *)
theory Examples
  imports EngineCalls PaperTests
begin

text \<open>
  The programs under \<open>examples/\<close> as clients of the library: what they call, look up, index and assert.
  What they print is left out, with the text of the messages.
\<close>

section \<open>Programs\<close>

text \<open>A program that builds an engine, and drops it however it ends.\<close>

definition with_engine :: "'w platform \<Rightarrow> int list \<Rightarrow> ('w engine, 'a) op \<Rightarrow> ('w, 'a) op" where
  "with_engine pf ords body w = (case engine_new pf ords w of
      (Ok e, _) \<Rightarrow> (case body e of (r, e') \<Rightarrow> (r, engine_drop pf e'))
    | (Err x, w') \<Rightarrow> (Err x, w')
    | (Panic, w') \<Rightarrow> (Panic, w'))"

definition page_of :: "string \<Rightarrow> ('w engine, page) op" where
  "page_of name e = unwrapM (vmt_lookup (en_vmt e) name) e"

section \<open>The engine's examples\<close>

definition basic_usage :: "'w platform \<Rightarrow> ('w, unit) op" where
  "basic_usage pf = with_engine pf [0]
     (bindM (engine_allocate pf ''embed.weight'' [1024, 1024] 4) (\<lambda>name.
      bindM (page_of name) (\<lambda>page.
      bindM (engine_access pf name 0) (\<lambda>ptr.
      bindM (assertM (0 < ptr)) (\<lambda>_.
      bindM (engine_free pf name) (\<lambda>_.
      bindM (getM (\<lambda>e. vmt_lookup (en_vmt e) name = None)) assertM))))))"

definition tensors :: "(string \<times> usize list \<times> usize) list" where
  "tensors = [(''layer.0.weight'', [512, 512], 4), (''layer.1.weight'', [1024, 1024], 4),
     (''layer.2.weight'', [2048, 2048], 4), (''embed.table'', [8192, 8192], 2)]"

definition tiered_memory :: "'w platform \<Rightarrow> ('w, unit) op" where
  "tiered_memory pf = with_engine pf [0]
     (bindM (mapM (\<lambda>(name, shape, elem).
         bindM (engine_allocate pf name shape elem) (\<lambda>n. bindM (page_of n) (\<lambda>page. retM n))) tensors) (\<lambda>names.
      bindM (unwrapM (vec_get names 0)) (\<lambda>n.
      bindM (engine_access pf n 0) (\<lambda>ptr.
      bindM (unwrapM (vec_get names 1)) (\<lambda>n.
      bindM (engine_access pf n 0) (\<lambda>ptr.
      bindM (forM (rev names) (engine_free pf)) (\<lambda>_.
      bindM (getM (\<lambda>e. vmt_len (en_vmt e) = 0)) assertM)))))))"

definition multi_gpu :: "'w platform \<Rightarrow> ('w, unit) op" where
  "multi_gpu pf = with_engine pf [0, 1, 2, 3]
     (bindM (engine_allocate pf ''big_tensor'' [1024, 1024, 64] 4) (\<lambda>name.
      bindM (page_of name) (\<lambda>page.
      bindM (getM (\<lambda>e. gc_ordinals (en_cluster e))) (\<lambda>ordinals.
      bindM (forM ordinals (\<lambda>ord. discard (engine_access pf name ord))) (\<lambda>_.
      engine_free pf name)))))"

text \<open>Every error is answered: by the end of \<open>main\<close>, or by a message only.\<close>

definition error_handling :: "'w platform \<Rightarrow> ('w, unit) op" where
  "error_handling pf =
     bindM (\<lambda>w. case cluster_discover pf [0] w of
         (Ok cluster, w1) \<Rightarrow> (case bindM (unwrapM (vec_get (gc_infos cluster) 0)) (\<lambda>info. retM ()) w1 of
            (r, w2) \<Rightarrow> (r, drop_cluster pf cluster w2))
       | (Err e, w1) \<Rightarrow> (Ok (), w1)
       | (Panic, w1) \<Rightarrow> (Panic, w1)) (\<lambda>_.
     ignoreM (with_engine pf [0]
       (bindM (catchM (engine_allocate pf ''test'' [256, 256] 4)) (\<lambda>r. case r of
          Inl e \<Rightarrow> retM ()
        | Inr name \<Rightarrow>
            bindM (ignoreM (engine_access pf name 0)) (\<lambda>_. ignoreM (engine_free pf name))))))"

text \<open>The reports of \<open>gpu_topology\<close>: the capable pairs, the factor and the nearest node of each GPU.\<close>

definition info_numa_node :: "gpu_cluster \<Rightarrow> int \<Rightarrow> usize" where
  "info_numa_node c ordinal = (case find (\<lambda>i. gi_device_id i = ordinal) (gc_infos c) of
      Some i \<Rightarrow> gi_numa_node i | None \<Rightarrow> 0)"

definition gpu_topology :: "'w platform \<Rightarrow> (real \<Rightarrow> f64) \<Rightarrow> ('w, (nat \<times> nat \<times> bool) list \<times> f64 list \<times> usize list) op" where
  "gpu_topology pf fl =
     bindM (cluster_discover pf [0, 1, 2, 3, 4, 5, 6, 7]) (\<lambda>cluster w.
       let n = length (gc_ordinals cluster);
           peers = map (\<lambda>(i, j). (i, j, can_access (gc_peer_matrix cluster) i j))
                     (filter (\<lambda>(i, j). i \<noteq> j) (List.product [0 ..< n] [0 ..< n]));
           factors = map (\<lambda>ord. let node = info_numa_node cluster ord in
                       dma_bandwidth_factor fl (gc_numa cluster) node node) (gc_ordinals cluster)
       in (case mapM (\<lambda>ord. liftM (optimal_dram_node cluster ord)) (gc_ordinals cluster) w of
             (Ok nodes, w1) \<Rightarrow> (Ok (peers, factors, nodes), drop_cluster pf cluster w1)
           | (Err e, w1) \<Rightarrow> (Err e, drop_cluster pf cluster w1)
           | (Panic, w1) \<Rightarrow> (Panic, drop_cluster pf cluster w1)))"

section \<open>The state machine's examples\<close>

text \<open>\<open>lookup_mut(&name).unwrap().state = st\<close>.\<close>

definition set_state :: "string \<Rightarrow> page_state \<Rightarrow> (vmt, unit) op" where
  "set_state name st v = bindM (unwrapM (vmt_lookup v name))
     (\<lambda>_. modM (vmt_modify name (\<lambda>pg. pg\<lparr>pg_state := st\<rparr>))) v"

definition states_in_table :: "(vmt, unit) op" where
  "states_in_table =
     bindM (expectM (vmt_allocate ''test.page'' [1024] 4)) (\<lambda>name.
     bindM (\<lambda>v. unwrapM (vmt_lookup v name) v) (\<lambda>page.
     bindM (assertM (pg_state page = Allocated)) (\<lambda>_.
     bindM (set_state name Resident) (\<lambda>_.
     bindM (set_state name Warm) (\<lambda>_.
     set_state name Resident)))))"

definition first_walk :: "(page, unit) op" where
  "first_walk =
     bindM (getM (\<lambda>p. pg_state p = Unmapped)) (\<lambda>b. bindM (assertM b) (\<lambda>_.
     bindM (assert_ok (page_transition Allocated)) (\<lambda>_.
     bindM (assert_ok (page_transition Resident)) (\<lambda>_.
     bindM (assert_ok (page_transition Warm)) (\<lambda>_.
     assert_ok (page_transition Resident))))))"

definition second_walk :: "(page, unit) op" where
  "second_walk =
     bindM (expectM (page_transition Warm)) (\<lambda>_.
     bindM (assert_ok (page_transition Cold)) (\<lambda>_.
     assert_ok (page_transition Resident)))"

definition rejections :: "(page \<times> page, unit) op" where
  "rejections = (\<lambda>(p3, p4). case bindM (expectM (page_transition Allocated)) (\<lambda>_.
        bindM (expectM (page_transition Resident)) (\<lambda>_.
        assert_err (page_transition Allocated))) p3 of
      (Ok _, p3) \<Rightarrow> (case assert_err (page_transition Warm) p4 of (r, p4) \<Rightarrow> (r, (p3, p4)))
    | (Err e, p3) \<Rightarrow> (Err e, (p3, p4))
    | (Panic, p3) \<Rightarrow> (Panic, (p3, p4)))"

definition page_states :: "unit outcome" where
  "page_states = (case states_in_table (vmt_new 1 1) of
      (Ok _, v) \<Rightarrow>
        (case bindM first_walk (\<lambda>_. bindM (expectM (page_transition Resident)) (\<lambda>_. second_walk))
                (page_new ''t'' [10] 4 1 1) of
           (Ok _, p) \<Rightarrow> fst (rejections (page_new ''t3'' [10] 4 1 1, page_new ''t4'' [10] 4 1 1))
         | (r, p) \<Rightarrow> r)
    | (r, v) \<Rightarrow> r)"

text \<open>Step 7 of \<open>demo\<close>.\<close>

definition demo_states :: "unit outcome" where
  "demo_states = (case forM [Allocated, Resident, Warm, Resident, Cold, Warm, Cold, Resident]
        (\<lambda>st. expectM (page_transition st)) (page_new ''test'' [4096, 4096] 2 1 1) of
      (Ok _, p) \<Rightarrow> fst (assert_err (page_transition Resident) (page_new ''bad'' [100] 2 1 1))
    | (r, p) \<Rightarrow> r)"

section \<open>The demonstration\<close>

text \<open>
  The steps of \<open>demo\<close> and the node it reports. The program expects every call to succeed: \<open>demo_run\<close> is its
  work up to the first error, which \<open>demo\<close> turns into a panic; the engine and then the cluster are dropped either way.
\<close>

definition demo_calls :: "'w platform \<Rightarrow> ('w engine, unit) op" where
  "demo_calls pf =
     bindM (engine_allocate pf ''model.embed.weight'' [1024, 1024] 4) (\<lambda>name.
     bindM (page_of name) (\<lambda>page.
     bindM (assertM (pg_state page = Resident)) (\<lambda>_.
     bindM (assertM (pg_size_bytes page = umul (umul 1024 1024) 4)) (\<lambda>_.
     bindM (engine_access pf name 0) (\<lambda>ptr.
     bindM (assertM (0 < ptr)) (\<lambda>_.
     bindM (engine_allocate pf ''model.layer.0.weight'' [8192, 8192] 4) (\<lambda>large_name.
     bindM (page_of large_name) (\<lambda>large_page.
     bindM (engine_access pf large_name 0) (\<lambda>large_ptr.
     bindM (engine_free pf name) (\<lambda>_.
     bindM (engine_free pf large_name) (\<lambda>_.
     bindM (getM (\<lambda>e. vmt_len (en_vmt e) = 0)) assertM)))))))))))"

definition demo_run :: "'w platform \<Rightarrow> ('w, usize) op" where
  "demo_run pf w = (case cluster_discover pf [0] w of
      (Ok cluster, w1) \<Rightarrow>
        (case bindM (unwrapM (vec_get (gc_infos cluster) 0)) (\<lambda>info. with_engine pf [0]
                (bindM (demo_calls pf) (\<lambda>_. bindM (liftM demo_states) (\<lambda>_. bindM (assertM (demo_invariants round64)) (\<lambda>_.
                 liftM (optimal_dram_node cluster 0)))))) w1 of
           (r, w2) \<Rightarrow> (r, drop_cluster pf cluster w2))
    | (Err e, w1) \<Rightarrow> (Err e, w1)
    | (Panic, w1) \<Rightarrow> (Panic, w1))"

definition demo :: "'w platform \<Rightarrow> ('w, usize) op" where
  "demo pf = expectM (demo_run pf)"

lemmas walk_defs = assertM_def assert_ok_def assert_err_def expectM_def catchM_def bindM_def getM_def retM_def panicM_def
  page_transition_def page_new_def modM_def unwrapM_def

text \<open>
  Property C27. \<open>examples/page_states.rs\<close> panics on every run: up to the unwrap that asks a resident page to become
  resident all its checks hold, that transition is an error of the state machine, and without it the rest
  would hold too. The walk of \<open>examples/demo.rs\<close> through the same machine succeeds.
\<close>

theorem page_states_panics:
  "page_states = Panic
    \<and> fst (states_in_table (vmt_new 1 1)) = Ok ()
    \<and> (\<exists>p. first_walk (page_new ''t'' [10] 4 1 1) = (Ok (), p) \<and> pg_state p = Resident
          \<and> page_transition Resident p = (Err (InvalidTransition Resident Resident ''t''), p)
          \<and> fst (second_walk p) = Ok ())
    \<and> fst (rejections (page_new ''t3'' [10] 4 1 1, page_new ''t4'' [10] 4 1 1)) = Ok ()
    \<and> demo_states = Ok ()"
proof -
  have t: "fst (states_in_table (vmt_new 1 1)) = Ok ()"
    by (simp add: states_in_table_def set_state_def vmt_allocate_run vmt_lookup_def vmt_modify_def fresh_page_def Let_def walk_defs)
  obtain v where v: "states_in_table (vmt_new 1 1) = (Ok (), v)" using t by (metis prod.collapse)
  let ?p = "(page_new ''t'' [10] 4 1 1)\<lparr>pg_state := Resident\<rparr>"
  have w: "first_walk (page_new ''t'' [10] 4 1 1) = (Ok (), ?p)" "second_walk ?p = (Ok (), ?p)"
    "page_transition Resident ?p = (Err (InvalidTransition Resident Resident ''t''), ?p)"
    by (simp_all add: first_walk_def second_walk_def walk_defs)
  have "page_states = Panic"
    by (simp add: page_states_def v [simplified] bindM_def w(1) [simplified]) (simp add: w(3) [simplified] expectM_def catchM_def bindM_def panicM_def)
  moreover have "fst (rejections (page_new ''t3'' [10] 4 1 1, page_new ''t4'' [10] 4 1 1)) = Ok ()"
    by (simp add: rejections_def walk_defs)
  moreover have "demo_states = Ok ()" by (simp add: demo_states_def walk_defs)
  ultimately show ?thesis using t w by (intro conjI exI [of _ ?p]) simp_all
qed

section \<open>No example of the engine panics\<close>

text \<open>\<open>safe A m B\<close>: from a state of \<open>A\<close>, \<open>m\<close> does not panic, and its result and state satisfy \<open>B\<close>.\<close>

definition safe :: "('s \<Rightarrow> bool) \<Rightarrow> ('s, 'a) op \<Rightarrow> ('a \<Rightarrow> 's \<Rightarrow> bool) \<Rightarrow> bool" where
  "safe A m B \<longleftrightarrow> (\<forall>s r t. A s \<longrightarrow> m s = (r, t) \<longrightarrow> r \<noteq> Panic \<and> (\<forall>x. r = Ok x \<longrightarrow> B x t))"

named_theorems safe_intros \<open>operations of an example\<close>

lemma safeI: "(\<And>s r t. A s \<Longrightarrow> m s = (r, t) \<Longrightarrow> r \<noteq> Panic \<and> (\<forall>x. r = Ok x \<longrightarrow> B x t)) \<Longrightarrow> safe A m B"
  unfolding safe_def by blast

lemma safeD: "safe A m B \<Longrightarrow> A s \<Longrightarrow> m s = (r, t) \<Longrightarrow> r \<noteq> Panic \<and> (\<forall>x. r = Ok x \<longrightarrow> B x t)"
  unfolding safe_def by blast

lemma safe_bindM:
  assumes m: "safe A m B" and f: "\<And>x. safe (B x) (f x) C" shows "safe A (bindM m f) C"
proof (rule safeI)
  fix s r t assume s: "A s" and run: "bindM m f s = (r, t)"
  obtain r1 t1 where m1: "m s = (r1, t1)" by force
  note step = safeD [OF m s m1]
  show "r \<noteq> Panic \<and> (\<forall>x. r = Ok x \<longrightarrow> C x t)"
  proof (cases r1)
    case (Ok x)
    then have "f x t1 = (r, t)" using run m1 by (simp add: bindM_def)
    with safeD [OF f] step Ok show ?thesis by blast
  qed (use step run m1 in \<open>auto simp: bindM_def\<close>)
qed

lemma safe_fact: "(b \<Longrightarrow> safe A m B) \<Longrightarrow> safe (\<lambda>s. b \<and> A s) m B"
  unfolding safe_def by blast

lemma safe_assert: "(\<And>s. A s \<Longrightarrow> b) \<Longrightarrow> safe A (assertM b) (\<lambda>_. A)"
  by (rule safeI) (auto simp: assertM_def run_simps)

lemma safe_get_assert: "(\<And>s. A s \<Longrightarrow> f s) \<Longrightarrow> safe A (bindM (getM f) assertM) (\<lambda>_. A)"
  by (rule safeI) (auto simp: assertM_def run_simps bind_now)

text \<open>The state of an example: the engine is well formed, and its pages are those of \<open>K\<close>.\<close>

definition holds :: "(u64 \<Rightarrow> bool) \<Rightarrow> gpu_cluster \<Rightarrow> nat \<Rightarrow> string set \<Rightarrow> 'w engine \<Rightarrow> bool" where
  "holds P C N K e \<longleftrightarrow> engine_typed P C N {} e \<and> dom (vt_pages (en_vmt e)) = K"

lemma dom_modify [simp]: "dom (vt_pages (vmt_modify n f v)) = dom (vt_pages v)"
  by (auto simp: vmt_modify_def split: if_splits)

lemma keeps_pages [keeps_intros]:
  "keeps (\<lambda>e. dom (vt_pages (en_vmt e)) = K) (worldE m)"
  "keeps (\<lambda>e. dom (vt_pages (en_vmt e)) = K) (modifyE n f)"
  "keeps (\<lambda>e. dom (vt_pages (en_vmt e)) = K) (en_stream g)"
  "keeps (\<lambda>e. dom (vt_pages (en_vmt e)) = K) (\<lambda>e. unwrapM (h e) e)"
  by (rule keepsI, simp add: worldE_def modifyE_def bindM_def unwrapM_def run_simps en_stream_def
      split: prod.split option.split)+

lemma keeps_fetch [keeps_intros]: "keeps (\<lambda>e. dom (vt_pages (en_vmt e)) = K) (engine_fetch pf n g ord src)"
  unfolding engine_fetch_def Let_def by (intro keeps_intros)

lemma keeps_engine_access: "keeps (\<lambda>e. dom (vt_pages (en_vmt e)) = K) (engine_access pf n ord)"
proof (rule keepsI)
  fix e :: "'a engine" assume e: "dom (vt_pages (en_vmt e)) = K"
  have body: "keeps (\<lambda>e. dom (vt_pages (en_vmt e)) = K) (case resident_chunk page ord of
       Some c \<Rightarrow> retM (ck_device_ptr c)
     | None \<Rightarrow> bindM (ok_or (vec_get (pg_vram_chunks page) 0) (UnknownAllocation n)) (\<lambda>src.
         if ck_gpu_ordinal src = ord then retM (ck_device_ptr src) else engine_fetch pf n g ord src))" for page g
    by (cases "resident_chunk page ord") (simp_all add: keeps_pure, intro keeps_intros)
  have "keeps (\<lambda>e. dom (vt_pages (en_vmt e)) = K)
      (bindM (ok_or (index_of (en_cluster e) ord) (InvalidGpu (i32_as_usize ord))) (\<lambda>gpu_idx.
       bindM (ok_or (vmt_lookup (en_vmt e) n) (UnknownAllocation n)) (\<lambda>page. case resident_chunk page ord of
       Some c \<Rightarrow> retM (ck_device_ptr c)
     | None \<Rightarrow> bindM (ok_or (vec_get (pg_vram_chunks page) 0) (UnknownAllocation n)) (\<lambda>src.
         if ck_gpu_ordinal src = ord then retM (ck_device_ptr src) else engine_fetch pf n gpu_idx ord src))))"
    by (intro keeps_intros body)
  with e show "dom (vt_pages (en_vmt (snd (engine_access pf n ord e)))) = K"
    by (simp add: engine_access_def keeps_def)
qed

lemma keeps_free_chunks: "keeps (\<lambda>e. dom (vt_pages (en_vmt e)) = K) (free_chunks pf cs first)"
proof (induction cs arbitrary: first)
  case (Cons c cs)
  have "keeps (\<lambda>e. dom (vt_pages (en_vmt e)) = K) (free_chunk pf c)"
    by (rule keepsI) (simp add: free_chunk_def worldE_def split: option.split prod.split)
  then show ?case unfolding free_chunks.simps by (intro keeps_intros Cons.IH)
qed (simp add: keeps_pure)

lemma engine_allocate_Ok:
  assumes "engine_allocate pf name shape es e = (Ok n, t)"
  obtains single u where "fits_first_gpu pf (umul (uproduct shape) es) e = (Ok single, u)"
    "bindM (vmtE (vmt_allocate name shape es)) (\<lambda>alloc_name.
        bindM (forM (if single then [(0, (umul (uproduct shape) es))] else map (\<lambda>i. (i, gpu_shard (umul (uproduct shape) es) (length (gc_ordinals (en_cluster e))) i)) [0 ..< (length (gc_ordinals (en_cluster e)))])
              (\<lambda>(i, bytes). add_vram_chunk pf alloc_name es i bytes)) (\<lambda>_.
        bindM (modifyE alloc_name (\<lambda>pg. pg\<lparr>pg_state := Resident, pg_tier := Vram\<rparr>)) (\<lambda>_.
        retM alloc_name))) u = (Ok n, t)"
  using assms by (auto simp: engine_allocate_def Let_def bindM_Ok_iff run_simps split: if_splits)

lemma safe_allocate:
  assumes pf: "pointers pf P" and name: "name \<noteq> []" and es: "es \<noteq> 0"
  shows "safe (holds P C N K) (engine_allocate pf name shape es) (\<lambda>n e. n = name \<and> holds P C N (insert name K) e)"
proof (rule safeI)
  fix e :: "'a engine" and r t
  assume e: "holds P C N K e" and run: "engine_allocate pf name shape es e = (r, t)"
  let ?T = "umul (uproduct shape) es" and ?M = "length (gc_ordinals (en_cluster e))"
  have "engine_typed P C N {} e" using e by (simp add: holds_def)
  note typed = engine_allocate_sure [OF pf this es run]
  have "n = name \<and> dom (vt_pages (en_vmt t)) = insert name K" if ok: "r = Ok n" for n
  proof -
    have fits: "keeps (\<lambda>e. dom (vt_pages (en_vmt e)) = K) (fits_first_gpu pf ?T)"
      unfolding fits_first_gpu_def by (intro keeps_intros)
    obtain single u where u: "fits_first_gpu pf ?T e = (Ok single, u)"
      and k: "bindM (vmtE (vmt_allocate name shape es)) (\<lambda>alloc_name.
        bindM (forM (if single then [(0, ?T)] else map (\<lambda>i. (i, gpu_shard ?T ?M i)) [0 ..< ?M])
              (\<lambda>(i, bytes). add_vram_chunk pf alloc_name es i bytes)) (\<lambda>_.
        bindM (modifyE alloc_name (\<lambda>pg. pg\<lparr>pg_state := Resident, pg_tier := Vram\<rparr>)) (\<lambda>_.
        retM alloc_name))) u = (Ok n, t)"
      by (rule engine_allocate_Ok [OF run [unfolded ok]])
    have n: "alloc_name name (en_vmt u) = name" using name by (simp add: alloc_name_def)
    let ?u = "u\<lparr>en_vmt := filed name (fresh_page name shape es) name (en_vmt u)\<rparr>"
    have "dom (vt_pages (en_vmt u)) = K" using keepsD [OF fits _ u] e by (simp add: holds_def)
    then have dom: "dom (vt_pages (en_vmt ?u)) = insert name K" by auto
    have rest: "keeps (\<lambda>e. dom (vt_pages (en_vmt e)) = insert name K)
        (bindM (forM (if single then [(0, ?T)] else map (\<lambda>i. (i, gpu_shard ?T ?M i)) [0 ..< ?M])
              (\<lambda>(i, bytes). add_vram_chunk pf name es i bytes)) (\<lambda>_.
        bindM (modifyE name (\<lambda>pg. pg\<lparr>pg_state := Resident, pg_tier := Vram\<rparr>)) (\<lambda>_. retM name)))" (is "keeps _ ?m")
      unfolding add_vram_chunk_def case_prod_beta by (intro keeps_intros)
    have m: "?m ?u = (Ok n, t)" using k by (simp add: bindM_run(1) [OF vmtE_allocate] n)
    then have "n = name" by (auto simp: bindM_Ok_iff retM_run)
    with keepsD [OF rest dom m] show ?thesis by simp
  qed
  with typed show "r \<noteq> Panic \<and> (\<forall>n. r = Ok n \<longrightarrow> n = name \<and> holds P C N (insert name K) t)" by (simp add: holds_def)
qed

text \<open>The page of a new allocation.\<close>

lemma allocated_page:
  assumes name: "name \<noteq> []" and run: "engine_allocate pf name shape es e = (Ok n, t)"
  shows "\<exists>pg. vmt_lookup (en_vmt t) name = Some pg \<and> pg_state pg = Resident \<and> pg_size_bytes pg = umul (uproduct shape) es"
proof -
  let ?T = "umul (uproduct shape) es" and ?M = "length (gc_ordinals (en_cluster e))"
  let ?J = "\<lambda>e. \<exists>pg. vmt_lookup (en_vmt e) name = Some pg \<and> pg_size_bytes pg = ?T"
  obtain single u where "fits_first_gpu pf ?T e = (Ok single, u)" and k: "bindM (vmtE (vmt_allocate name shape es)) (\<lambda>alloc_name.
        bindM (forM (if single then [(0, ?T)] else map (\<lambda>i. (i, gpu_shard ?T ?M i)) [0 ..< ?M])
              (\<lambda>(i, bytes). add_vram_chunk pf alloc_name es i bytes)) (\<lambda>_.
        bindM (modifyE alloc_name (\<lambda>pg. pg\<lparr>pg_state := Resident, pg_tier := Vram\<rparr>)) (\<lambda>_.
        retM alloc_name))) u = (Ok n, t)"
    by (rule engine_allocate_Ok [OF run])
  define xs where "xs = (if single then [(0, ?T)] else map (\<lambda>i. (i, gpu_shard ?T ?M i)) [0 ..< ?M])"
  have n: "alloc_name name (en_vmt u) = name" using name by (simp add: alloc_name_def)
  let ?u = "u\<lparr>en_vmt := filed name (fresh_page name shape es) name (en_vmt u)\<rparr>"
  have world: "keeps ?J (worldE m)" for m :: "unified_allocator \<Rightarrow> ('a, 'b) op"
    by (rule keepsI) (simp add: worldE_def split: prod.split)
  have chunk: "keeps ?J (modifyE name (\<lambda>pg. pg\<lparr>pg_vram_chunks := pg_vram_chunks pg @ cs\<rparr>))" for cs
    by (rule keepsI) (auto simp: modifyE_run)
  have at: "keeps ?J (\<lambda>e. unwrapM (h e) e)" for h :: "'a engine \<Rightarrow> 'b option"
    by (rule keepsI) (simp add: unwrapM_def run_simps split: option.split)
  have "keeps ?J (forM xs (\<lambda>(i, bytes). add_vram_chunk pf name es i bytes))" for xs
    unfolding add_vram_chunk_def case_prod_beta by (intro keeps_intros world chunk)
  note chunks = keepsD [OF this]
  have "bindM (forM xs (\<lambda>(i, bytes). add_vram_chunk pf name es i bytes)) (\<lambda>_.
      bindM (modifyE name (\<lambda>pg. pg\<lparr>pg_state := Resident, pg_tier := Vram\<rparr>)) (\<lambda>_. retM name)) ?u = (Ok n, t)"
    using k [folded xs_def] by (simp add: bindM_run(1) [OF vmtE_allocate] n)
  then obtain v where "forM xs (\<lambda>(i, bytes). add_vram_chunk pf name es i bytes) ?u = (Ok (), v)"
    and t: "modifyE name (\<lambda>pg. pg\<lparr>pg_state := Resident, pg_tier := Vram\<rparr>) v = (Ok (), t)"
    by (auto simp: bindM_Ok_iff retM_run)
  moreover have "?J ?u" by (simp add: fresh_page_def page_new_def)
  ultimately have "?J v" using chunks by blast
  then obtain pg where "vmt_lookup (en_vmt v) name = Some pg" "pg_size_bytes pg = ?T" by blast
  with t modifyE_run [OF this(1)] show ?thesis by auto
qed

lemma safe_access:
  assumes pf: "pointers pf P"
  shows "safe (holds P C N K) (engine_access pf n ord) (\<lambda>x e. P x \<and> holds P C N K e)"
proof (rule safeI)
  fix e :: "'a engine" and r t assume e: "holds P C N K e" and run: "engine_access pf n ord e = (r, t)"
  have "engine_typed P C N {} e" "dom (vt_pages (en_vmt e)) = K" using e by (simp_all add: holds_def)
  with engine_access_sure [OF pf this(1) run] keepsD [OF keeps_engine_access this(2) run] show "r \<noteq> Panic \<and> (\<forall>x. r = Ok x \<longrightarrow> P x \<and> holds P C N K t)"
    by (simp add: holds_def)
qed

lemma engine_free_holds:
  assumes e: "holds P C N K e" and run: "engine_free pf n e = (r, t)"
  shows "r \<noteq> Panic \<and> holds P C N (K - {n}) t"
proof -
  let ?e = "e\<lparr>en_vmt := snd (vmt_remove n (en_vmt e))\<rparr>"
  have dom: "dom (vt_pages (en_vmt ?e)) = K - {n}" using e by (auto simp: holds_def vmt_remove_def split: if_splits)
  have "keeps (\<lambda>e. dom (vt_pages (en_vmt e)) = K - {n}) (bindM (free_chunks pf cs None) (\<lambda>first_err.
          case first_err of Some x \<Rightarrow> errM x | None \<Rightarrow> retM ()))" for cs
    by (intro keeps_bindM keeps_free_chunks) (simp add: keeps_pure split: option.split)
  note kept = keepsD [OF this dom]
  have "dom (vt_pages (en_vmt t)) = K - {n}"
  proof (cases "fst (vmt_remove n (en_vmt e))")
    case None
    then obtain v where "vmt_remove n (en_vmt e) = (None, v)" by (metis prod.collapse)
    then show ?thesis using run dom by (simp add: engine_free_def)
  next
    case (Some pg)
    then show ?thesis using run kept [of "pg_vram_chunks pg" r t] by (auto simp: engine_free_def split: prod.splits)
  qed
  moreover have "engine_typed P C N {} e" using e by (simp add: holds_def)
  note engine_free_sure [OF this run]
  ultimately show ?thesis by (simp add: holds_def)
qed

lemma safe_free: "safe (holds P C N K) (engine_free pf n) (\<lambda>_. holds P C N (K - {n}))"
  using engine_free_holds by (intro safeI) blast

lemma safe_page: "n \<in> K \<Longrightarrow> safe (holds P C N K) (page_of n) (\<lambda>_. holds P C N K)"
  by (rule safeI) (auto simp: page_of_def holds_def unwrapM_def run_simps vmt_lookup_def split: option.splits)

lemma safe_weaken: "safe A m B \<Longrightarrow> (\<And>x s. B x s \<Longrightarrow> C x s) \<Longrightarrow> safe A m C"
  unfolding safe_def by blast

lemma safe_getM: "safe A (getM f) (\<lambda>_. A)"
  by (rule safeI) (auto simp: run_simps)

lemma safe_retM: "safe A (retM x) (\<lambda>y s. y = x \<and> A s)"
  by (rule safeI) (auto simp: run_simps)

lemma safe_index: "i < length xs \<Longrightarrow> safe A (unwrapM (vec_get xs i)) (\<lambda>x s. x = xs ! i \<and> A s)"
  by (rule safeI) (auto simp: unwrapM_def vec_get_def run_simps)

lemma safe_forM: "(\<And>x. x \<in> set xs \<Longrightarrow> safe A (f x) (\<lambda>_. A)) \<Longrightarrow> safe A (forM xs f) (\<lambda>_. A)"
proof (induction xs)
  case (Cons x xs)
  then show ?case unfolding forM.simps by (intro safe_bindM [where B = "\<lambda>_. A"]) simp_all
qed (auto intro: safe_weaken [OF safe_retM])

lemma safe_discard: "safe A m (\<lambda>x s. Q x \<and> A s) \<Longrightarrow> safe A (discard m) (\<lambda>_. A)"
  unfolding discard_def by (elim safe_bindM) (auto intro!: safe_fact safe_weaken [OF safe_retM])

text \<open>The engine of an example starts with an empty table.\<close>

lemma with_engine_safe:
  assumes body: "\<And>C. safe (holds P C (length ords) {}) body B"
  shows "fst (with_engine pf ords body w) \<noteq> Panic"
proof -
  obtain r w' where new: "engine_new pf ords w = (r, w')" by force
  show ?thesis
  proof (cases r)
    case (Ok e)
    have "holds P (en_cluster e) (length ords) {} e" using engine_new_sure(2) [OF new Ok, of P] by (simp add: holds_def)
    moreover obtain q t where run: "body e = (q, t)" by force
    ultimately show ?thesis using safeD [OF body] new Ok by (fastforce simp: with_engine_def)
  qed (use new engine_new_sure(1) [OF new] in \<open>simp_all add: with_engine_def\<close>)
qed

lemma with_engine_sure:
  assumes body: "\<And>C. sound_op (engine_typed (\<lambda>x. 0 < x) C (length ords) {}) body"
  shows "fst (with_engine pf ords body w) \<noteq> Panic"
proof (rule with_engine_safe)
  fix C show "safe (holds (\<lambda>x. 0 < x) C (length ords) {}) body (\<lambda>_ _. True)"
    using sureD [OF body] by (intro safeI) (auto simp: holds_def)
qed

lemma sure_calls:
  assumes "pointers pf P"
  shows "es \<noteq> 0 \<Longrightarrow> sound_op (engine_typed P C N {}) (engine_allocate pf name shape es)"
    "sound_op (engine_typed P C N {}) (engine_access pf name ord)"
    "sound_op (engine_typed P C N {}) (engine_free pf name)"
proof -
  show "es \<noteq> 0 \<Longrightarrow> sound_op (engine_typed P C N {}) (engine_allocate pf name shape es)"
    by (rule sureI) (simp add: engine_allocate_sure [OF assms])
  show "sound_op (engine_typed P C N {}) (engine_access pf name ord)"
    by (rule sureI) (use engine_access_sure [OF assms] in simp)
  show "sound_op (engine_typed P C N {}) (engine_free pf name)"
    by (rule sureI) (use engine_free_sure in simp)
qed

lemma safe_allocate_all:
  assumes "pointers pf P"
  shows "\<forall>(n, s, e) \<in> set ts. n \<noteq> [] \<and> e \<noteq> 0 \<Longrightarrow>
    safe (holds P C N K) (mapM (\<lambda>(name, shape, elem).
         bindM (engine_allocate pf name shape elem) (\<lambda>n. bindM (page_of n) (\<lambda>page. retM n))) ts)
      (\<lambda>ns e. ns = map fst ts \<and> holds P C N (set (map fst ts) \<union> K) e)"
proof (induction ts arbitrary: K)
  case (Cons x ts)
  obtain n s e where x: "x = (n, s, e)" by (metis prod_cases3)
  with Cons.prems have n: "n \<noteq> []" "e \<noteq> 0" "\<forall>(n, s, e) \<in> set ts. n \<noteq> [] \<and> e \<noteq> 0" by auto
  have one: "safe (holds P C N K) (bindM (engine_allocate pf n s e) (\<lambda>n. bindM (page_of n) (\<lambda>page. retM n)))
      (\<lambda>y e. y = n \<and> holds P C N (insert n K) e)"
    by (rule safe_bindM [OF safe_allocate [OF assms n(1,2)]], rule safe_fact, rule safe_bindM [OF safe_page])
      (simp_all add: safe_retM)
  show ?case unfolding mapM.simps x prod.case
    by (rule safe_bindM [OF one], rule safe_fact, rule safe_bindM [OF Cons.IH [OF n(3)]], rule safe_fact)
      (rule safe_weaken [OF safe_retM], simp)
qed (simp add: safe_retM)

lemma safe_free_all: "safe (holds P C N K) (forM ns (engine_free pf)) (\<lambda>_. holds P C N (K - set ns))"
proof (induction ns arbitrary: K)
  case (Cons n ns)
  have "K - set (n # ns) = K - {n} - set ns" by auto
  then show ?case unfolding forM.simps by (simp only:) (rule safe_bindM [OF safe_free Cons.IH])
next
  case Nil
  show ?case unfolding forM.simps by (rule safe_weaken [OF safe_retM]) simp
qed

lemma basic_usage_safe:
  assumes pf: "pointers pf (\<lambda>x. 0 < x)" shows "fst (basic_usage pf w) \<noteq> Panic"
  unfolding basic_usage_def
proof (rule with_engine_safe [where P = "\<lambda>x. 0 < x" and B = "\<lambda>_ _. True"])
  let ?n = "''embed.weight''"
  fix C
  let ?H = "holds (\<lambda>x. 0 < x) C (length [0 :: int])"
  have "safe (?H {}) (bindM (getM (\<lambda>e. vmt_lookup (en_vmt e) ?n = None)) assertM) (\<lambda>_. ?H {})"
    by (rule safe_get_assert) (simp add: holds_def vmt_lookup_def)
  note safe_weaken [OF this, of "\<lambda>_ _. True", simplified]
  then have rest: "safe (?H {?n}) (bindM (assertM (0 < x)) (\<lambda>_. bindM (engine_free pf ?n) (\<lambda>_.
      bindM (getM (\<lambda>e. vmt_lookup (en_vmt e) ?n = None)) assertM))) (\<lambda>_ _. True)" if "0 < x" for x :: u64
    using that by (intro safe_bindM [OF safe_assert] safe_bindM [OF safe_free]) simp_all
  show "safe (?H {}) (bindM (engine_allocate pf ?n [1024, 1024] 4) (\<lambda>name. bindM (page_of name) (\<lambda>page.
      bindM (engine_access pf name 0) (\<lambda>ptr. bindM (assertM (0 < ptr)) (\<lambda>_. bindM (engine_free pf name) (\<lambda>_.
      bindM (getM (\<lambda>e. vmt_lookup (en_vmt e) name = None)) assertM)))))) (\<lambda>_ _. True)"
    by (rule safe_bindM [OF safe_allocate [OF pf]], simp, simp, rule safe_fact, rule safe_bindM [OF safe_page], simp,
        rule safe_bindM [OF safe_access [OF pf]], rule safe_fact, hypsubst, erule rest)
qed

lemma multi_gpu_safe:
  assumes pf: "pointers pf (\<lambda>x. 0 < x)" shows "fst (multi_gpu pf w) \<noteq> Panic"
  unfolding multi_gpu_def
  by (rule with_engine_safe [where P = "\<lambda>x. 0 < x" and B = "\<lambda>_ _. True"], rule safe_bindM [OF safe_allocate [OF pf]], simp, simp,
      rule safe_fact, rule safe_bindM [OF safe_page], simp, rule safe_bindM [OF safe_getM],
      rule safe_bindM [OF safe_forM [OF safe_discard [OF safe_access [OF pf]]]], rule safe_weaken [OF safe_free], rule TrueI)

lemma tiered_memory_safe:
  assumes pf: "pointers pf (\<lambda>x. 0 < x)" shows "fst (tiered_memory pf w) \<noteq> Panic"
  unfolding tiered_memory_def
proof (rule with_engine_safe [where P = "\<lambda>x. 0 < x" and B = "\<lambda>_ _. True"])
  fix C
  let ?H = "holds (\<lambda>x. 0 < x) C (length [0 :: int])" and ?ns = "map fst tensors"
  have "safe (?H ({} :: string set)) (bindM (getM (\<lambda>e. vmt_len (en_vmt e) = 0)) assertM) (\<lambda>_. ?H {})"
    by (rule safe_get_assert) (simp add: holds_def vmt_len_def)
  note safe_weaken [OF this, of "\<lambda>_ _. True", simplified]
  then have last: "safe (?H (set ?ns)) (bindM (forM (rev ?ns) (engine_free pf)) (\<lambda>_.
      bindM (getM (\<lambda>e. vmt_len (en_vmt e) = 0)) assertM)) (\<lambda>_ _. True)"
    by (intro safe_bindM [OF safe_free_all]) simp
  have access: "safe (?H (set ?ns)) (bindM (unwrapM (vec_get ?ns i)) (\<lambda>n. bindM (engine_access pf n 0) (\<lambda>ptr. m)))
      (\<lambda>_ _. True)" if "i < length ?ns" and "safe (?H (set ?ns)) m (\<lambda>_ _. True)" for i and m :: "('a engine, unit) op"
    by (rule safe_bindM [OF safe_index [OF that(1)]], rule safe_fact, rule safe_bindM [OF safe_access [OF pf]], rule safe_fact)
      (rule that(2))
  show "safe (?H {}) (bindM (mapM (\<lambda>(name, shape, elem).
         bindM (engine_allocate pf name shape elem) (\<lambda>n. bindM (page_of n) (\<lambda>page. retM n))) tensors) (\<lambda>names.
      bindM (unwrapM (vec_get names 0)) (\<lambda>n. bindM (engine_access pf n 0) (\<lambda>ptr.
      bindM (unwrapM (vec_get names 1)) (\<lambda>n. bindM (engine_access pf n 0) (\<lambda>ptr.
      bindM (forM (rev names) (engine_free pf)) (\<lambda>_.
      bindM (getM (\<lambda>e. vmt_len (en_vmt e) = 0)) assertM))))))) (\<lambda>_ _. True)"
  proof (rule safe_bindM [OF safe_allocate_all [OF pf]])
    show "\<forall>(n, s, e) \<in> set tensors. n \<noteq> [] \<and> e \<noteq> 0" by (simp add: tensors_def)
    fix names show "safe (\<lambda>e. names = ?ns \<and> ?H (set ?ns \<union> {}) e) (bindM (unwrapM (vec_get names 0)) (\<lambda>n.
      bindM (engine_access pf n 0) (\<lambda>ptr. bindM (unwrapM (vec_get names 1)) (\<lambda>n. bindM (engine_access pf n 0) (\<lambda>ptr.
      bindM (forM (rev names) (engine_free pf)) (\<lambda>_.
      bindM (getM (\<lambda>e. vmt_len (en_vmt e) = 0)) assertM)))))) (\<lambda>_ _. True)"
      using access [OF _ access [OF _ last], of 0 1] by (intro safe_fact) (simp add: tensors_def)
  qed
qed

lemma handling_engine_safe:
  assumes pf: "pointers pf (\<lambda>x. 0 < x)"
  shows "fst (with_engine pf [0] (bindM (catchM (engine_allocate pf n shape 4)) (\<lambda>r. case r of
          Inl e \<Rightarrow> retM ()
        | Inr name \<Rightarrow> bindM (ignoreM (engine_access pf name 0)) (\<lambda>_. ignoreM (engine_free pf name)))) w) \<noteq> Panic"
proof (rule with_engine_sure, rule sure_bindM [OF sure_catchM [OF sure_calls(1) [OF pf]]])
  fix C and r :: "vugva_error + string"
  show "sound_op (engine_typed (\<lambda>x. 0 < x) C (length [0 :: int]) {}) (case r of
          Inl e \<Rightarrow> retM ()
        | Inr name \<Rightarrow> bindM (ignoreM (engine_access pf name 0)) (\<lambda>_. ignoreM (engine_free pf name)))"
    by (cases r) (simp_all add: sure_pure, intro sure_then sure_ignoreM sure_calls(2,3) [OF pf])
qed simp

text \<open>The discovery reads a GPU's data for every ordinal.\<close>

lemma discover_infos: "cluster_discover pf ords w = (Ok c, w') \<Longrightarrow> length (gc_infos c) = length ords"
  by (auto simp: cluster_discover_def bindM_Ok_iff retM_run dest: mapM_length)

lemma fst_ignoreM: "fst (m w) \<noteq> Panic \<Longrightarrow> fst (ignoreM m w) = Ok ()"
  by (cases "m w"; cases "fst (m w)") (simp_all add: ignoreM_def catchM_def bindM_def retM_run)

lemma error_handling_safe:
  assumes pf: "pointers pf (\<lambda>x. 0 < x)" shows "fst (error_handling pf w) = Ok ()"
proof -
  let ?first = "\<lambda>w. case cluster_discover pf [0] w of
         (Ok cluster, w1) \<Rightarrow> (case bindM (unwrapM (vec_get (gc_infos cluster) 0)) (\<lambda>info. retM ()) w1 of
            (r, w2) \<Rightarrow> (r, drop_cluster pf cluster w2))
       | (Err e, w1) \<Rightarrow> (Ok (), w1)
       | (Panic, w1) \<Rightarrow> (Panic, w1)"
  obtain r w1 where d: "cluster_discover pf [0] w = (r, w1)" by force
  have "\<exists>w2. ?first w = (Ok (), w2)"
  proof (cases r)
    case (Ok c)
    with d discover_infos [of pf "[0]" w c w1] show ?thesis
      by (auto simp: vec_get_def unwrapM_def run_simps bindM_def)
  qed (use d sureD [OF discover_sure TrueI d] in auto)
  then obtain w2 where "?first w = (Ok (), w2)" by blast
  note first = bindM_run(1) [where m = ?first, OF this]
  show ?thesis
    unfolding error_handling_def first by (rule fst_ignoreM, rule handling_engine_safe [OF pf])
qed

lemma optimal_no_panic: "length (gc_infos c) = length (gc_ordinals c) \<Longrightarrow> gc_ordinal_map c = ordinal_index (gc_ordinals c)
    \<Longrightarrow> optimal_dram_node c ord \<noteq> Panic"
  by (auto simp: optimal_dram_node_def index_of_def vec_get_def dest: ordinal_index_Some split: option.splits)

lemma gpu_topology_safe: "fst (gpu_topology pf fl w) \<noteq> Panic"
proof -
  let ?ords = "[0, 1, 2, 3, 4, 5, 6, 7]"
  obtain r w1 where d: "cluster_discover pf ?ords w = (r, w1)" by force
  note disc = sureD [OF discover_sure TrueI d]
  show ?thesis
  proof (cases r)
    case (Ok c)
    have no: "optimal_dram_node c ord \<noteq> Panic" for ord
      using disc discover_infos [OF d [unfolded Ok]] Ok by (intro optimal_no_panic) auto
    have "fst (mapM (\<lambda>ord. liftM (optimal_dram_node c ord)) xs w1) \<noteq> Panic" for xs
      by (intro sure_fst sure_mapM sureI) (use no in \<open>auto simp: liftM_def\<close>)
    note no = this [of "gc_ordinals c"]
    obtain q u where "mapM (\<lambda>ord. liftM (optimal_dram_node c ord)) (gc_ordinals c) w1 = (q, u)" by force
    with no d Ok show ?thesis by (cases q) (simp_all add: gpu_topology_def bindM_def Let_def)
  qed (use d disc in \<open>auto simp: gpu_topology_def bindM_def\<close>)
qed

lemma safe_conj: "safe A m B \<Longrightarrow> (\<And>s x t. m s = (Ok x, t) \<Longrightarrow> Q x t) \<Longrightarrow> safe A m (\<lambda>x t. Q x t \<and> B x t)"
  unfolding safe_def by blast

lemma demo_calls_safe:
  assumes pf: "pointers pf (\<lambda>x. 0 < x)" and n0: "n0 = (1 :: nat)"
  shows "safe (holds (\<lambda>x. 0 < x) C n0 {}) (demo_calls pf) (\<lambda>_ _. True)"
proof -
  let ?H = "holds (\<lambda>x. 0 < x) C n0" and ?n = "''model.embed.weight''" and ?l = "''model.layer.0.weight''"
  let ?pg = "\<lambda>e. \<exists>pg. vmt_lookup (en_vmt e) ?n = Some pg \<and> pg_state pg = Resident \<and> pg_size_bytes pg = umul (umul 1024 1024) 4"
  have "safe (?H {}) (bindM (getM (\<lambda>e. vmt_len (en_vmt e) = 0)) assertM) (\<lambda>_. ?H {})"
    by (rule safe_get_assert) (simp add: holds_def vmt_len_def)
  note safe_weaken [OF this, of "\<lambda>_ _. True", simplified]
  moreover have two: "{?n, ?l} - {?n} - {?l} = {}" "insert ?l {?n} = {?n, ?l}" by auto
  ultimately have rest: "safe (?H {?n, ?l}) (bindM (engine_free pf ?n) (\<lambda>_. bindM (engine_free pf ?l) (\<lambda>_.
     bindM (getM (\<lambda>e. vmt_len (en_vmt e) = 0)) assertM))) (\<lambda>_ _. True)"
    by (intro safe_bindM [OF safe_free] ) simp
  have new: "safe (?H {}) (engine_allocate pf ?n [1024, 1024] 4) (\<lambda>n t. ?pg t \<and> n = ?n \<and> ?H {?n} t)"
    by (rule safe_conj [OF safe_allocate [OF pf]]) (use allocated_page [of ?n pf "[1024, 1024]" 4] in \<open>force simp: uproduct_def umul_def W64_def\<close>)+
  have found: "safe (\<lambda>t. ?pg t \<and> n = ?n \<and> ?H {?n} t) (page_of n)
      (\<lambda>page t. (pg_state page = Resident \<and> pg_size_bytes page = umul (umul 1024 1024) 4) \<and> n = ?n \<and> ?H {?n} t)" for n
    by (rule safeI) (auto simp: page_of_def unwrapM_def run_simps)
  have last: "safe (?H {?n}) (bindM (engine_access pf ?n 0) (\<lambda>ptr.
     bindM (assertM (0 < ptr)) (\<lambda>_.
     bindM (engine_allocate pf ?l [8192, 8192] 4) (\<lambda>large_name.
     bindM (page_of large_name) (\<lambda>large_page.
     bindM (engine_access pf large_name 0) (\<lambda>large_ptr.
     bindM (engine_free pf ?n) (\<lambda>_.
     bindM (engine_free pf large_name) (\<lambda>_.
     bindM (getM (\<lambda>e. vmt_len (en_vmt e) = 0)) assertM)))))))) (\<lambda>_ _. True)"
    by (rule safe_bindM [OF safe_access [OF pf]], rule safe_fact, rule safe_bindM [OF safe_assert], assumption,
        rule safe_bindM [OF safe_allocate [OF pf]], simp, simp, rule safe_fact, rule safe_bindM [OF safe_page], simp,
        rule safe_bindM [OF safe_access [OF pf]], rule safe_fact, hypsubst) (simp only: two rest)
  show ?thesis unfolding demo_calls_def
    by (rule safe_bindM [OF new], rule safe_bindM [OF found], rule safe_fact, elim conjE,
        rule safe_bindM [OF safe_assert], assumption, rule safe_bindM [OF safe_assert], assumption, rule safe_fact, hypsubst, rule last)
qed

lemma demo_run_safe:
  assumes pf: "pointers pf (\<lambda>x. 0 < x)" shows "fst (demo_run pf w) \<noteq> Panic"
proof -
  obtain r w1 where d: "cluster_discover pf [0] w = (r, w1)" by force
  note disc = sureD [OF discover_sure TrueI d]
  show ?thesis
  proof (cases r)
    case (Ok c)
    note infos = discover_infos [OF d [unfolded Ok]]
    have no: "optimal_dram_node c 0 \<noteq> Panic" using disc infos Ok by (intro optimal_no_panic) auto
    have states: "demo_states = Ok ()" by (simp add: demo_states_def walk_defs)
    have last: "safe (\<lambda>_. True) (bindM (liftM demo_states) (\<lambda>_. bindM (assertM (demo_invariants round64)) (\<lambda>_. liftM (optimal_dram_node c 0)))) (\<lambda>_ (_ :: 'a engine). True)"
      using no by (intro safeI) (auto simp: liftM_def bindM_def states [simplified] assertM_def demo_test retM_def)
    have "fst (with_engine pf [0] (bindM (demo_calls pf) (\<lambda>_. bindM (liftM demo_states) (\<lambda>_. bindM (assertM (demo_invariants round64)) (\<lambda>_. liftM (optimal_dram_node c 0))))) w1) \<noteq> Panic"
      by (rule with_engine_safe, rule safe_bindM [OF demo_calls_safe [OF pf]], simp, rule last)
    then show ?thesis using d Ok infos by (auto simp: demo_run_def bindM_def unwrapM_def vec_get_def retM_run split: prod.splits)
  qed (use d disc in \<open>auto simp: demo_run_def\<close>)
qed

lemma demo_expects:
  assumes "pointers pf (\<lambda>x. 0 < x)" shows "fst (demo pf w) = Panic \<longleftrightarrow> (\<exists>e. fst (demo_run pf w) = Err e)"
  using demo_run_safe [OF assms, of w]
  by (cases "demo_run pf w"; cases "fst (demo_run pf w)") (auto simp: demo_def expectM_def catchM_def bindM_def retM_def panicM_def)

text \<open>
  Property C24. The engine's examples end without a panic, on any driver that gives no null pointer and whatever
  each of its calls answers: \<open>basic_usage\<close>, \<open>tiered_memory\<close> and \<open>multi_gpu\<close> return their first error or pass
  every lookup and assertion, the empty table at the end included; \<open>error_handling\<close> always succeeds; 
  \<open>gpu_topology\<close> finds a node for each of its GPUs; and \<open>demo\<close>, which expects every call to succeed, panics only
  because one of them returned an error.
\<close>

theorem examples_never_panic:
  assumes "pointers pf (\<lambda>x. 0 < x)"
  shows "fst (basic_usage pf w) \<noteq> Panic \<and> fst (tiered_memory pf w) \<noteq> Panic \<and> fst (multi_gpu pf w) \<noteq> Panic
    \<and> fst (error_handling pf w) = Ok () \<and> fst (gpu_topology pf fl w) \<noteq> Panic
    \<and> (fst (demo pf w) = Panic \<longleftrightarrow> (\<exists>e. fst (demo_run pf w) = Err e))"
  by (intro conjI demo_expects basic_usage_safe tiered_memory_safe multi_gpu_safe error_handling_safe gpu_topology_safe assms)

theorem examples_never_panic_witness:
  "fst (basic_usage counting_platform (\<lambda>_. 0)) \<noteq> Panic \<and> fst (error_handling counting_platform (\<lambda>_. 0)) = Ok ()"
proof -
  have "pointers counting_platform (\<lambda>x. 0 < x)"
    by (simp add: pointers_def counting_platform_def idle_platform_def)
  from examples_never_panic [OF this] show ?thesis by blast
qed

end
