(* ===== verification/Foreign.thy ===== *)
theory Foreign
  imports Kernels Loader
begin

text \<open>
  The foreign interface as data: the prototypes the macros \<open>cuda_api!\<close> and \<open>nvrtc_api!\<close> are given
  (\<open>src/ffi/cuda.rs\<close>, \<open>src/ffi/nvrtc.rs\<close>), the handle types and their null values, and the constants;
  and what the wrappers made from the tables bind to in the course of a process.
\<close>

section \<open>Types\<close>

datatype c_type =
    C_int | C_u32 | C_u8 | C_usize | C_f32 | C_char | C_void
  | Handle_CUdevice | Handle_CUcontext | Handle_CUmodule | Handle_CUfunction | Handle_CUstream
  | Handle_CUdeviceptr | Handle_CUevent | Handle_nvrtcProgram
  | Mut c_type | Const c_type

type_synonym prototype = "string \<times> c_type list"

text \<open>The handles are integers and addresses; the default of each is zero.\<close>

record cu_device = device_ordinal :: int
record cu_handle = handle_address :: u64

definition CUdevice_default :: cu_device where "CUdevice_default = \<lparr>device_ordinal = 0\<rparr>"
definition CUcontext_default :: cu_handle where "CUcontext_default = \<lparr>handle_address = 0\<rparr>"
definition CUmodule_default :: cu_handle where "CUmodule_default = \<lparr>handle_address = 0\<rparr>"
definition CUfunction_default :: cu_handle where "CUfunction_default = \<lparr>handle_address = 0\<rparr>"
definition CUstream_default :: cu_handle where "CUstream_default = \<lparr>handle_address = 0\<rparr>"
definition CUdeviceptr_default :: cu_handle where "CUdeviceptr_default = \<lparr>handle_address = 0\<rparr>"
definition CUevent_default :: cu_handle where "CUevent_default = \<lparr>handle_address = 0\<rparr>"
definition nvrtcProgram_default :: cu_handle where "nvrtcProgram_default = \<lparr>handle_address = 0\<rparr>"

definition ordinal :: "cu_device \<Rightarrow> int" where "ordinal d = device_ordinal d"
definition CUdeviceptr_NULL :: cu_handle where "CUdeviceptr_NULL = \<lparr>handle_address = 0\<rparr>"
definition deviceptr_is_null :: "cu_handle \<Rightarrow> bool" where "deviceptr_is_null p \<longleftrightarrow> handle_address p = 0"
definition CUstream_NULL :: cu_handle where "CUstream_NULL = \<lparr>handle_address = 0\<rparr>"
definition stream_is_default :: "cu_handle \<Rightarrow> bool" where "stream_is_default s \<longleftrightarrow> handle_address s = 0"
definition CUcontext_NULL :: cu_handle where "CUcontext_NULL = \<lparr>handle_address = 0\<rparr>"
definition context_is_null :: "cu_handle \<Rightarrow> bool" where "context_is_null c \<longleftrightarrow> handle_address c = 0"
definition nvrtcProgram_NULL :: cu_handle where "nvrtcProgram_NULL = \<lparr>handle_address = 0\<rparr>"
definition program_is_null :: "cu_handle \<Rightarrow> bool" where "program_is_null p \<longleftrightarrow> handle_address p = 0"

lemma null_handles:
  "deviceptr_is_null CUdeviceptr_NULL" "stream_is_default CUstream_NULL" "context_is_null CUcontext_NULL"
  "program_is_null nvrtcProgram_NULL" "program_is_null nvrtcProgram_default" "context_is_null CUcontext_default"
  by (simp_all add: deviceptr_is_null_def CUdeviceptr_NULL_def stream_is_default_def CUstream_NULL_def context_is_null_def
      CUcontext_NULL_def program_is_null_def nvrtcProgram_NULL_def nvrtcProgram_default_def CUcontext_default_def)

section \<open>Constants\<close>

definition CUDA_ERROR_INVALID_VALUE :: "int" where "CUDA_ERROR_INVALID_VALUE = 1"
definition CUDA_ERROR_OUT_OF_MEMORY :: "int" where "CUDA_ERROR_OUT_OF_MEMORY = 2"
definition CUDA_ERROR_NOT_INITIALIZED :: "int" where "CUDA_ERROR_NOT_INITIALIZED = 3"
definition CUDA_ERROR_NO_DEVICE :: "int" where "CUDA_ERROR_NO_DEVICE = 100"
definition CUDA_ERROR_PEER_ACCESS_ALREADY_ENABLED :: "int" where "CUDA_ERROR_PEER_ACCESS_ALREADY_ENABLED = 704"
definition CUDA_ERROR_PEER_ACCESS_NOT_ENABLED :: "int" where "CUDA_ERROR_PEER_ACCESS_NOT_ENABLED = 705"
definition CU_DEVICE_ATTRIBUTE_MULTIPROCESSOR_COUNT :: "int" where "CU_DEVICE_ATTRIBUTE_MULTIPROCESSOR_COUNT = 16"
definition CU_DEVICE_ATTRIBUTE_COMPUTE_CAPABILITY_MAJOR :: "int" where "CU_DEVICE_ATTRIBUTE_COMPUTE_CAPABILITY_MAJOR = 75"
definition CU_DEVICE_ATTRIBUTE_COMPUTE_CAPABILITY_MINOR :: "int" where "CU_DEVICE_ATTRIBUTE_COMPUTE_CAPABILITY_MINOR = 76"
definition CU_DEVICE_ATTRIBUTE_CONCURRENT_KERNELS :: "int" where "CU_DEVICE_ATTRIBUTE_CONCURRENT_KERNELS = 31"
definition CU_DEVICE_ATTRIBUTE_PCI_BUS_ID :: "int" where "CU_DEVICE_ATTRIBUTE_PCI_BUS_ID = 33"
definition CUDEVICE_ATTRIBUTE_PCI_DEVICE_ID :: "int" where "CUDEVICE_ATTRIBUTE_PCI_DEVICE_ID = 34"
definition CU_DEVICE_ATTRIBUTE_COMPUTE_PREEMPTION_SUPPORTED :: "int" where "CU_DEVICE_ATTRIBUTE_COMPUTE_PREEMPTION_SUPPORTED = 62"
definition CU_DEVICE_ATTRIBUTE_HOST_REGISTER_SUPPORTED :: "int" where "CU_DEVICE_ATTRIBUTE_HOST_REGISTER_SUPPORTED = 81"
definition CU_DEVICE_ATTRIBUTE_PCI_DOMAIN_ID :: "int" where "CU_DEVICE_ATTRIBUTE_PCI_DOMAIN_ID = 50"
definition CU_DEVICE_ATTRIBUTE_INTEGRATED :: "int" where "CU_DEVICE_ATTRIBUTE_INTEGRATED = 18"
definition CU_STREAM_DEFAULT :: "32 word" where "CU_STREAM_DEFAULT = 0"
definition CU_STREAM_NON_BLOCKING :: "32 word" where "CU_STREAM_NON_BLOCKING = 1"
definition CU_EVENT_DISABLE_TIMING :: "32 word" where "CU_EVENT_DISABLE_TIMING = 2"
definition CU_MEMHOSTALLOC_PORTABLE :: "32 word" where "CU_MEMHOSTALLOC_PORTABLE = 1"
definition CU_MEMHOSTALLOC_DEVICEMAP :: "32 word" where "CU_MEMHOSTALLOC_DEVICEMAP = 2"
definition CU_MEMHOSTALLOC_WRITECOMBINED :: "32 word" where "CU_MEMHOSTALLOC_WRITECOMBINED = 4"
definition CU_MEMHOSTREGISTER_PORTABLE :: "32 word" where "CU_MEMHOSTREGISTER_PORTABLE = 1"
definition CU_MEMHOSTREGISTER_DEVICEMAP :: "32 word" where "CU_MEMHOSTREGISTER_DEVICEMAP = 2"
definition CU_MEMHOSTREGISTER_IOMEMORY :: "32 word" where "CU_MEMHOSTREGISTER_IOMEMORY = 4"
definition NVRTC_ERROR_OUT_OF_MEMORY :: "int" where "NVRTC_ERROR_OUT_OF_MEMORY = 1"
definition NVRTC_ERROR_PROGRAM_CREATION_FAILURE :: "int" where "NVRTC_ERROR_PROGRAM_CREATION_FAILURE = 2"
definition NVRTC_ERROR_INVALID_INPUT :: "int" where "NVRTC_ERROR_INVALID_INPUT = 3"
definition NVRTC_ERROR_INVALID_PROGRAM :: "int" where "NVRTC_ERROR_INVALID_PROGRAM = 4"
definition NVRTC_ERROR_COMPILATION :: "int" where "NVRTC_ERROR_COMPILATION = 6"

section \<open>The prototypes\<close>

definition device_api :: "prototype list" where
  "device_api =
    [(''cuInit'', [C_u32]),
     (''cuDeviceGetCount'', [Mut C_int]),
     (''cuDeviceGet'', [Mut Handle_CUdevice, C_int]),
     (''cuDeviceGetName'', [Mut C_char, C_int, Handle_CUdevice]),
     (''cuDeviceComputeCapability'', [Mut C_int, Mut C_int, Handle_CUdevice]),
     (''cuDeviceTotalMem_v2'', [Mut C_usize, Handle_CUdevice]),
     (''cuDeviceGetAttribute'', [Mut C_int, C_int, Handle_CUdevice])]"

definition primary_ctx_api :: "prototype list" where
  "primary_ctx_api =
    [(''cuDevicePrimaryCtxRetain'', [Mut Handle_CUcontext, Handle_CUdevice]),
     (''cuDevicePrimaryCtxRelease_v2'', [Handle_CUdevice])]"

definition ctx_api :: "prototype list" where
  "ctx_api =
    [(''cuCtxCreate_v2'', [Mut Handle_CUcontext, C_u32, Handle_CUdevice]),
     (''cuCtxDestroy_v2'', [Handle_CUcontext]),
     (''cuCtxGetCurrent'', [Mut Handle_CUcontext]),
     (''cuCtxSetCurrent'', [Handle_CUcontext]),
     (''cuCtxPushCurrent_v2'', [Handle_CUcontext]),
     (''cuCtxPopCurrent_v2'', [Mut Handle_CUcontext]),
     (''cuCtxSynchronize'', []),
     (''cuCtxGetDevice'', [Mut Handle_CUdevice])]"

definition peer_api :: "prototype list" where
  "peer_api =
    [(''cuDeviceCanAccessPeer'', [Mut C_int, Handle_CUdevice, Handle_CUdevice]),
     (''cuCtxEnablePeerAccess'', [Handle_CUcontext, C_u32]),
     (''cuCtxDisablePeerAccess'', [Handle_CUcontext])]"

definition device_memory_api :: "prototype list" where
  "device_memory_api =
    [(''cuMemAlloc_v2'', [Mut Handle_CUdeviceptr, C_usize]),
     (''cuMemFree_v2'', [Handle_CUdeviceptr]),
     (''cuMemAllocManaged'', [Mut Handle_CUdeviceptr, C_usize, C_u32])]"

definition host_memory_api :: "prototype list" where
  "host_memory_api =
    [(''cuMemHostAlloc'', [Mut (Mut C_void), C_usize, C_u32]),
     (''cuMemFreeHost'', [Mut C_void]),
     (''cuMemHostRegister'', [Mut C_void, C_usize, C_u32]),
     (''cuMemHostUnregister'', [Mut C_void]),
     (''cuMemHostGetDevicePointer_v2'', [Mut Handle_CUdeviceptr, Mut C_void, C_u32])]"

definition copy_api :: "prototype list" where
  "copy_api =
    [(''cuMemcpyHtoD_v2'', [Handle_CUdeviceptr, Const C_void, C_usize]),
     (''cuMemcpyDtoH_v2'', [Mut C_void, Handle_CUdeviceptr, C_usize]),
     (''cuMemcpyDtoD_v2'', [Handle_CUdeviceptr, Handle_CUdeviceptr, C_usize])]"

definition async_copy_api :: "prototype list" where
  "async_copy_api =
    [(''cuMemcpyHtoDAsync_v2'', [Handle_CUdeviceptr, Const C_void, C_usize, Handle_CUstream]),
     (''cuMemcpyDtoHAsync_v2'', [Mut C_void, Handle_CUdeviceptr, C_usize, Handle_CUstream]),
     (''cuMemcpyDtoDAsync_v2'', [Handle_CUdeviceptr, Handle_CUdeviceptr, C_usize, Handle_CUstream]),
     (''cuMemcpyPeerAsync'', [Handle_CUdeviceptr, Handle_CUcontext, Handle_CUdeviceptr, Handle_CUcontext,
       C_usize, Handle_CUstream])]"

definition query_fill_api :: "prototype list" where
  "query_fill_api =
    [(''cuMemGetInfo_v2'', [Mut C_usize, Mut C_usize]),
     (''cuMemGetAddressRange'', [Mut Handle_CUdeviceptr, Mut C_usize, Handle_CUdeviceptr]),
     (''cuMemsetD32_v2'', [Handle_CUdeviceptr, C_u32, C_usize]),
     (''cuMemsetD8_v2'', [Handle_CUdeviceptr, C_u8, C_usize])]"

definition stream_api :: "prototype list" where
  "stream_api =
    [(''cuStreamCreate'', [Mut Handle_CUstream, C_u32]),
     (''cuStreamCreateWithPriority'', [Mut Handle_CUstream, C_u32, C_int]),
     (''cuStreamDestroy_v2'', [Handle_CUstream]),
     (''cuStreamSynchronize'', [Handle_CUstream]),
     (''cuStreamQuery'', [Handle_CUstream]),
     (''cuStreamGetPriority'', [Handle_CUstream, Mut C_int]),
     (''cuStreamWaitEvent'', [Handle_CUstream, Handle_CUevent, C_u32]),
     (''cuCtxGetStreamPriorityRange'', [Mut C_int, Mut C_int])]"

definition event_api :: "prototype list" where
  "event_api =
    [(''cuEventCreate'', [Mut Handle_CUevent, C_u32]),
     (''cuEventDestroy_v2'', [Handle_CUevent]),
     (''cuEventRecord'', [Handle_CUevent, Handle_CUstream]),
     (''cuEventSynchronize'', [Handle_CUevent]),
     (''cuEventQuery'', [Handle_CUevent]),
     (''cuEventElapsedTime'', [Mut C_f32, Handle_CUevent, Handle_CUevent])]"

definition module_api :: "prototype list" where
  "module_api =
    [(''cuModuleLoadData'', [Mut Handle_CUmodule, Const C_void]),
     (''cuModuleLoadDataEx'', [Mut Handle_CUmodule, Const C_void, C_int, Mut (Mut C_void), Mut (Mut C_void)]),
     (''cuModuleGetFunction'', [Mut Handle_CUfunction, Handle_CUmodule, Const C_char]),
     (''cuModuleGetGlobal_v2'', [Mut Handle_CUdeviceptr, Mut C_usize, Handle_CUmodule, Const C_char]),
     (''cuModuleUnload'', [Handle_CUmodule]),
     (''cuLaunchKernel'', [Handle_CUfunction, C_u32, C_u32, C_u32, C_u32, C_u32, C_u32, C_u32,
       Handle_CUstream, Mut (Mut C_void), Mut (Mut C_void)])]"

definition cuda_api_table :: "prototype list" where
  "cuda_api_table = device_api @ primary_ctx_api @ ctx_api @ peer_api @ device_memory_api @
    host_memory_api @ copy_api @ async_copy_api @ query_fill_api @ stream_api @ event_api @
    module_api"

definition nvrtc_version_api :: "prototype list" where
  "nvrtc_version_api =
    [(''nvrtcVersion'', [Mut C_int, Mut C_int])]"

definition nvrtc_compile_api :: "prototype list" where
  "nvrtc_compile_api =
    [(''nvrtcCreateProgram'', [Mut Handle_nvrtcProgram, Const C_char, Const C_char, C_int, Mut (Const
      C_char), Mut (Const C_char)]),
     (''nvrtcDestroyProgram'', [Mut Handle_nvrtcProgram]),
     (''nvrtcCompileProgram'', [Handle_nvrtcProgram, C_int, Mut (Const C_char)]),
     (''nvrtcGetPTX'', [Handle_nvrtcProgram, Mut C_char]),
     (''nvrtcGetPTXSize'', [Handle_nvrtcProgram, Mut C_usize]),
     (''nvrtcGetCUBIN'', [Handle_nvrtcProgram, Mut C_char]),
     (''nvrtcGetCUBINSize'', [Handle_nvrtcProgram, Mut C_usize])]"

definition nvrtc_log_api :: "prototype list" where
  "nvrtc_log_api =
    [(''nvrtcGetProgramLog'', [Handle_nvrtcProgram, Mut C_char]),
     (''nvrtcGetProgramLogSize'', [Handle_nvrtcProgram, Mut C_usize])]"

definition nvrtc_names_api :: "prototype list" where
  "nvrtc_names_api =
    [(''nvrtcAddNameExpression'', [Handle_nvrtcProgram, Const C_char]),
     (''nvrtcGetLoweredName'', [Handle_nvrtcProgram, Const C_char, Mut (Const C_char)])]"

definition nvrtc_api_table :: "prototype list" where
  "nvrtc_api_table = nvrtc_version_api @ nvrtc_compile_api @ nvrtc_log_api @ nvrtc_names_api"

section \<open>Names\<close>

text \<open>A name without its version.\<close>

definition stem :: "string \<Rightarrow> string" where
  "stem name = (if ends_with name ''_v2'' \<or> ends_with name ''_v3'' then take (length name - 3) name else name)"

lemma starts_with_take: "starts_with s p \<longleftrightarrow> take (length p) s = p"
  by (induction s p rule: starts_with.induct) auto

lemma ends_with_append: "length s = length u \<Longrightarrow> ends_with (n @ u) s \<longleftrightarrow> u = s"
  by (auto simp: ends_with_def starts_with_take)

lemma stem_spelling: "s \<in> set (spellings n) \<Longrightarrow> stem s = stem n"
  by (auto simp: spellings_def stem_def ends_with_append split: if_splits)

text \<open>No two entry points of the driver have a spelling in common.\<close>

lemma cuda_names: "distinct (map (stem \<circ> fst) cuda_api_table)" "list_all (no_nul \<circ> fst) cuda_api_table"
  by code_simp+

lemma nvrtc_names: "distinct (map fst nvrtc_api_table)" "list_all (no_nul \<circ> fst) nvrtc_api_table"
  by code_simp+

lemma spellings_apart:
  assumes "p \<in> set cuda_api_table" and "q \<in> set cuda_api_table"
    and "s \<in> set (spellings (fst p))" and "s \<in> set (spellings (fst q))" shows "p = q"
proof -
  have "stem (fst p) = stem (fst q)" using stem_spelling assms(3,4) by metis
  with cuda_names(1) assms(1,2) show ?thesis unfolding distinct_map inj_on_def by simp
qed

text \<open>The codes a caller compares with are told apart.\<close>

lemma statuses_distinct:
  "distinct [CUDA_SUCCESS, CUDA_ERROR_INVALID_VALUE, CUDA_ERROR_OUT_OF_MEMORY, CUDA_ERROR_NOT_INITIALIZED, CUDA_ERROR_NO_DEVICE,
     CUDA_ERROR_NOT_READY, CUDA_ERROR_NOT_FOUND, CUDA_ERROR_PEER_ACCESS_ALREADY_ENABLED, CUDA_ERROR_PEER_ACCESS_NOT_ENABLED]"
  "distinct [NVRTC_SUCCESS, NVRTC_ERROR_OUT_OF_MEMORY, NVRTC_ERROR_PROGRAM_CREATION_FAILURE, NVRTC_ERROR_INVALID_INPUT,
     NVRTC_ERROR_INVALID_PROGRAM, NVRTC_ERROR_COMPILATION, NVRTC_ERROR_NOT_FOUND]"
  "distinct [CU_DEVICE_ATTRIBUTE_MULTIPROCESSOR_COUNT, CU_DEVICE_ATTRIBUTE_COMPUTE_CAPABILITY_MAJOR,
     CU_DEVICE_ATTRIBUTE_COMPUTE_CAPABILITY_MINOR, CU_DEVICE_ATTRIBUTE_CONCURRENT_KERNELS, CU_DEVICE_ATTRIBUTE_PCI_BUS_ID,
     CUDEVICE_ATTRIBUTE_PCI_DEVICE_ID, CU_DEVICE_ATTRIBUTE_COMPUTE_PREEMPTION_SUPPORTED,
     CU_DEVICE_ATTRIBUTE_HOST_REGISTER_SUPPORTED, CU_DEVICE_ATTRIBUTE_PCI_DOMAIN_ID, CU_DEVICE_ATTRIBUTE_INTEGRATED]"
  by code_simp+

section \<open>A process and its slots\<close>

text \<open>Calls of the entry points of both tables, each with the foreign function behind it.\<close>

datatype 'w api_call =
    CudaCall prototype "usize \<Rightarrow> 'w \<Rightarrow> int \<times> 'w"
  | NvrtcCall prototype "usize \<Rightarrow> 'w \<Rightarrow> int \<times> 'w"

fun api_do :: "'w linker \<Rightarrow> 'w api_call \<Rightarrow> ('w process, int) op" where
  "api_do ld (CudaCall p call) = cuda_entry ld (fst p) call"
| "api_do ld (NvrtcCall p call) = nvrtc_entry ld (fst p) call"

fun api_run :: "'w linker \<Rightarrow> 'w api_call list \<Rightarrow> 'w process \<Rightarrow> 'w process" where
  "api_run ld [] s = s"
| "api_run ld (c # cs) s = api_run ld cs (snd (api_do ld c s))"

fun in_tables :: "'w api_call \<Rightarrow> bool" where
  "in_tables (CudaCall p call) \<longleftrightarrow> p \<in> set cuda_api_table"
| "in_tables (NvrtcCall p call) \<longleftrightarrow> p \<in> set nvrtc_api_table"

text \<open>Both libraries are open, and each slot in use has the address of its name.\<close>

definition bound :: "u64 \<Rightarrow> u64 \<Rightarrow> (string \<Rightarrow> u64) \<Rightarrow> (string \<Rightarrow> u64) \<Rightarrow> 'w process \<Rightarrow> bool" where
  "bound h k tab ktab s \<longleftrightarrow> ps_cuda s = Some (Inr h) \<and> ps_nvrtc s = Some (Inr k)
    \<and> (\<forall>n a. ps_cuda_slots s n = Some a \<longrightarrow> n \<in> fst ` set cuda_api_table \<and> a = address_of tab n)
    \<and> (\<forall>n a. ps_nvrtc_slots s n = Some a \<longrightarrow> n \<in> fst ` set nvrtc_api_table \<and> a = ktab n)"

lemma bound_world [simp]: "bound h k tab ktab (s\<lparr>ps_world := w\<rparr>) = bound h k tab ktab s"
  by (simp add: bound_def)

lemma cuda_addr_bound:
  assumes tab: "\<forall>n w. fst (dl_sym ld h n w) = tab n" and s: "bound h k tab ktab s" and p: "p \<in> set cuda_api_table"
    and run: "cuda_addr ld (fst p) s = (r, t)"
  shows "r = Ok (address_of tab (fst p)) \<and> bound h k tab ktab t"
proof (cases "ps_cuda_slots s (fst p)")
  case None
  have "no_nul (fst p)" using cuda_names(2) p by (auto simp: list_all_iff)
  then have "\<forall>n \<in> set (spellings (fst p)). no_nul n" by (auto simp: spellings_def no_nul_def)
  from resolve_first_table [OF tab this, of "ps_world s"] obtain w
    where res: "resolve_first ld h (spellings (fst p)) (ps_world s) = (address_of tab (fst p), w)"
    by (metis address_of_def prod.collapse)
  have "ps_cuda s = Some (Inr h)" using s by (simp add: bound_def)
  with run None res have "r = Ok (address_of tab (fst p))"
    "t = s\<lparr>ps_world := w, ps_cuda_slots := (ps_cuda_slots s)(fst p \<mapsto> address_of tab (fst p))\<rparr>"
    by (simp_all add: cuda_addr_def cuda_sym_addr_def cuda_module_def library_result_def catchM_def bindM_def)
  with s p show ?thesis by (simp add: bound_def)
qed (use run s in \<open>auto simp: cuda_addr_def bound_def\<close>)

lemma nvrtc_addr_bound:
  assumes tab: "\<forall>n w. fst (dl_sym ld k n w) = ktab n" and s: "bound h k tab ktab s" and p: "p \<in> set nvrtc_api_table"
    and run: "nvrtc_addr ld (fst p) s = (r, t)"
  shows "r = Ok (ktab (fst p)) \<and> bound h k tab ktab t"
proof (cases "ps_nvrtc_slots s (fst p)")
  case None
  have "no_nul (fst p)" using nvrtc_names(2) p by (auto simp: list_all_iff)
  moreover obtain a w where sym: "dl_sym ld k (fst p) (ps_world s) = (a, w)" by force
  moreover from this tab have "a = ktab (fst p)" by (metis fst_conv)
  moreover have "ps_nvrtc s = Some (Inr k)" using s by (simp add: bound_def)
  ultimately have "r = Ok (ktab (fst p))"
    "t = s\<lparr>ps_world := w, ps_nvrtc_slots := (ps_nvrtc_slots s)(fst p \<mapsto> ktab (fst p))\<rparr>"
    using run None
    by (simp_all add: nvrtc_addr_def nvrtc_sym_addr_def nvrtc_module_def library_result_def catchM_def bindM_def resolve_def split: if_splits)
  with s p show ?thesis by (simp add: bound_def)
qed (use run s in \<open>auto simp: nvrtc_addr_def bound_def\<close>)

lemma api_do_bound:
  assumes "\<forall>n w. fst (dl_sym ld h n w) = tab n" and "\<forall>n w. fst (dl_sym ld k n w) = ktab n"
    and s: "bound h k tab ktab s" and c: "in_tables c" and run: "api_do ld c s = (r, t)"
  shows "bound h k tab ktab t
    \<and> (\<forall>p call. c = CudaCall p call \<and> address_of tab (fst p) = 0 \<longrightarrow> r = Ok CUDA_ERROR_NOT_FOUND)
    \<and> (\<forall>p call. c = NvrtcCall p call \<and> ktab (fst p) = 0 \<longrightarrow> r = Ok NVRTC_ERROR_NOT_FOUND)"
proof (cases c)
  case (CudaCall p call)
  obtain q u where addr: "cuda_addr ld (fst p) s = (q, u)" by force
  with cuda_addr_bound [OF assms(1) s _ addr] c CudaCall have "q = Ok (address_of tab (fst p))" "bound h k tab ktab u" by simp_all
  with run CudaCall addr show ?thesis
    by (auto simp: cuda_entry_def bindM_def retM_def split: if_splits prod.splits)
next
  case (NvrtcCall p call)
  obtain q u where addr: "nvrtc_addr ld (fst p) s = (q, u)" by force
  with nvrtc_addr_bound [OF assms(2) s _ addr] c NvrtcCall have "q = Ok (ktab (fst p))" "bound h k tab ktab u" by simp_all
  with run NvrtcCall addr show ?thesis
    by (auto simp: nvrtc_entry_def bindM_def retM_def split: if_splits prod.splits)
qed

lemma api_run_bound:
  assumes "\<forall>n w. fst (dl_sym ld h n w) = tab n" and "\<forall>n w. fst (dl_sym ld k n w) = ktab n"
  shows "bound h k tab ktab s \<Longrightarrow> \<forall>c \<in> set cs. in_tables c \<Longrightarrow> bound h k tab ktab (api_run ld cs s)"
proof (induction cs arbitrary: s)
  case (Cons c cs)
  obtain r t where run: "api_do ld c s = (r, t)" by force
  from api_do_bound [OF assms Cons.prems(1) _ run] Cons show ?case by (simp add: run)
qed simp

lemma address_of_spelling: "address_of tab n \<noteq> 0 \<Longrightarrow> \<exists>s \<in> set (spellings n). tab s = address_of tab n"
proof (cases "find (\<lambda>n. tab n \<noteq> 0) (spellings n)")
  case (Some s)
  then have "s \<in> set (spellings n)" by (auto simp: find_Some_iff)
  moreover have "address_of tab n = tab s" using Some by (simp only: address_of_def option.case)
  ultimately show ?thesis by auto
qed (simp add: address_of_def)

text \<open>
  Property C26. What the two tables of prototypes bind to. Over any history of calls of the entry
  points, in a process whose libraries are open, the slot of an entry point holds the address of a symbol
  that is a spelling of its name and of no other entry point's, the unversioned spelling if the driver has it; a compiler's entry
  point has the address of its own name. An entry point none of whose spellings is exported answers its
  missing-symbol code in every state.
\<close>

theorem entry_points_bound_apart:
  assumes driver: "\<forall>n w. fst (dl_sym ld h n w) = tab n" and compiler: "\<forall>n w. fst (dl_sym ld k n w) = ktab n"
    and s: "ps_cuda s = Some (Inr h)" "ps_nvrtc s = Some (Inr k)" "ps_cuda_slots s = Map.empty" "ps_nvrtc_slots s = Map.empty"
    and cs: "\<forall>c \<in> set cs. in_tables c" and t: "t = api_run ld cs s"
  shows "(\<forall>n a. ps_cuda_slots t n = Some a \<and> a \<noteq> 0 \<longrightarrow>
        (\<exists>sym \<in> set (spellings n). tab sym = a \<and> (\<forall>p \<in> set cuda_api_table. sym \<in> set (spellings (fst p)) \<longrightarrow> fst p = n))
      \<and> (tab n \<noteq> 0 \<longrightarrow> a = tab n))
    \<and> (\<forall>n a. ps_nvrtc_slots t n = Some a \<longrightarrow> a = ktab n)
    \<and> (\<forall>p \<in> set cuda_api_table. \<forall>call. (\<forall>sym \<in> set (spellings (fst p)). tab sym = 0) \<longrightarrow>
        fst (cuda_entry ld (fst p) call t) = Ok CUDA_ERROR_NOT_FOUND)
    \<and> (\<forall>p \<in> set nvrtc_api_table. \<forall>call. ktab (fst p) = 0 \<longrightarrow>
        fst (nvrtc_entry ld (fst p) call t) = Ok NVRTC_ERROR_NOT_FOUND)"
proof -
  have start: "bound h k tab ktab s" using s by (simp add: bound_def)
  have b: "bound h k tab ktab t" unfolding t by (rule api_run_bound [OF driver compiler start cs])
  have none: "address_of tab n = 0" if "\<forall>sym \<in> set (spellings n). tab sym = 0" for n
    using address_of_spelling [of tab n] that by fastforce
  have own: "tab n \<noteq> 0 \<Longrightarrow> address_of tab n = tab n" for n by (simp add: address_of_def spellings_def)
  have "fst (cuda_entry ld (fst p) call t) = Ok CUDA_ERROR_NOT_FOUND"
    if "p \<in> set cuda_api_table" "\<forall>sym \<in> set (spellings (fst p)). tab sym = 0" for p call
  proof -
    obtain r u where run: "api_do ld (CudaCall p call) t = (r, u)" by force
    from api_do_bound [OF driver compiler b _ run] none that run show ?thesis by simp
  qed
  moreover have "fst (nvrtc_entry ld (fst p) call t) = Ok NVRTC_ERROR_NOT_FOUND"
    if "p \<in> set nvrtc_api_table" "ktab (fst p) = 0" for p call
  proof -
    obtain r u where run: "api_do ld (NvrtcCall p call) t = (r, u)" by force
    from api_do_bound [OF driver compiler b _ run] that run show ?thesis by simp
  qed
  moreover have "(\<exists>sym \<in> set (spellings n). tab sym = a
      \<and> (\<forall>p \<in> set cuda_api_table. sym \<in> set (spellings (fst p)) \<longrightarrow> fst p = n)) \<and> (tab n \<noteq> 0 \<longrightarrow> a = tab n)"
    if slot: "ps_cuda_slots t n = Some a" and a: "a \<noteq> 0" for n a
  proof -
    obtain q where q: "q \<in> set cuda_api_table" "n = fst q" "a = address_of tab n"
      using b slot unfolding bound_def by blast
    obtain sym where "sym \<in> set (spellings n)" "tab sym = a" using address_of_spelling a q(3) by metis
    moreover from this have "sym \<in> set (spellings (fst p)) \<Longrightarrow> fst p = n" if "p \<in> set cuda_api_table" for p
      using spellings_apart [OF q(1) that] q(2) by blast
    moreover have "tab n \<noteq> 0 \<Longrightarrow> a = tab n" using own q(3) by simp
    ultimately show ?thesis by blast
  qed
  moreover have "ps_nvrtc_slots t n = Some a \<Longrightarrow> a = ktab n" for n a using b by (simp add: bound_def)
  ultimately show ?thesis by blast
qed

definition two_libraries :: "nat linker" where
  "two_libraries = no_driver\<lparr>dl_sym := (\<lambda>h name w.
     (if h = 5 then (if name = ''cuInit'' then 77 else if name = ''cuMemGetAddressRange_v2'' then 78 else 0)
      else if name = ''nvrtcVersion'' then 79 else 0, Suc w))\<rparr>"

theorem entry_points_bound_apart_witness:
  "let t = api_run two_libraries [CudaCall (''cuInit'', [C_u32]) (\<lambda>a w. (0, w)),
       CudaCall (''cuMemFree_v2'', [Handle_CUdeviceptr]) (\<lambda>a w. (0, w)), NvrtcCall (''nvrtcVersion'', [Mut C_int, Mut C_int]) (\<lambda>a w. (0, w))]
       (new_process\<lparr>ps_cuda := Some (Inr 5), ps_nvrtc := Some (Inr 6)\<rparr>)
   in (\<forall>n a. ps_nvrtc_slots t n = Some a \<longrightarrow> a = (if n = ''nvrtcVersion'' then 79 else 0))
     \<and> fst (cuda_entry two_libraries ''cuMemFree_v2'' (\<lambda>a w. (0, w)) t) = Ok CUDA_ERROR_NOT_FOUND"
proof -
  let ?tab = "\<lambda>name. if name = ''cuInit'' then 77 else if name = ''cuMemGetAddressRange_v2'' then 78 else (0 :: u64)"
  let ?ktab = "\<lambda>name. if name = ''nvrtcVersion'' then 79 else (0 :: u64)"
  let ?cs = "[CudaCall (''cuInit'', [C_u32]) (\<lambda>a w. (0, w)), CudaCall (''cuMemFree_v2'', [Handle_CUdeviceptr]) (\<lambda>a w. (0, w)),
    NvrtcCall (''nvrtcVersion'', [Mut C_int, Mut C_int]) (\<lambda>a w. (0, w))]"
  have cs: "\<forall>c \<in> set ?cs. in_tables c" and free: "(''cuMemFree_v2'', [Handle_CUdeviceptr]) \<in> set cuda_api_table"
    by (simp_all add: cuda_api_table_def device_api_def device_memory_api_def nvrtc_api_table_def nvrtc_version_api_def)
  have sym: "\<forall>n w. fst (dl_sym two_libraries 5 n w) = ?tab n" "\<forall>n w. fst (dl_sym two_libraries 6 n w) = ?ktab n"
    by (simp_all add: two_libraries_def)
  have "\<forall>sym \<in> set (spellings ''cuMemFree_v2''). ?tab sym = 0" by (simp add: spellings_def ends_with_def)
  with entry_points_bound_apart [OF sym, of "new_process\<lparr>ps_cuda := Some (Inr 5), ps_nvrtc := Some (Inr 6)\<rparr>" ?cs, OF _ _ _ _ cs refl] free
  show ?thesis unfolding Let_def by (fastforce simp: new_process_def)
qed

end
