(* ===== verification/DriverTests.thy ===== *)
theory DriverTests
  imports Programs Driver Foreign
begin

text \<open>
  The tests that ask what the machine has: those of \<open>src/context.rs\<close>, which need a driver with a device, and those
  of \<open>src/ffi\<close>. The calls that only they make (\<open>cuDeviceGetCount\<close> and \<open>cuCtxGetCurrent\<close>) are arguments. The
  former are shown to pass on every driver whose primary context is one handle and whose current context is the top
  of a stack, the latter with every linker, as far as the foreign functions answer as documented.
\<close>

section \<open>The tests\<close>

definition gpu_available :: "'w platform \<Rightarrow> ('w \<Rightarrow> int \<times> int \<times> 'w) \<Rightarrow> ('w, bool) op" where
  "gpu_available pf device_count w =
     (case pf_init pf w of (rc, w1) \<Rightarrow>
        if rc \<noteq> 0 then (Ok False, w1)
        else (case device_count w1 of (rc, n, w2) \<Rightarrow> (Ok (rc = 0 \<and> 0 < n), w2)))"

definition when_gpu :: "'w platform \<Rightarrow> ('w \<Rightarrow> int \<times> int \<times> 'w) \<Rightarrow> ('w, unit) op \<Rightarrow> ('w, unit) op" where
  "when_gpu pf device_count body = bindM (gpu_available pf device_count) (\<lambda>b. if b then body else retM ())"

text \<open>\<open>cuCtxGetCurrent\<close> and the assertion on its status; a context held for the rest of a block.\<close>

definition current_context :: "('w \<Rightarrow> int \<times> u64 \<times> 'w) \<Rightarrow> ('w, u64) op" where
  "current_context cur w = (case cur w of (rc, c, w1) \<Rightarrow> (if rc = 0 then Ok c else Panic, w1))"

definition held :: "'w platform \<Rightarrow> primary_context list \<Rightarrow> ('w, 'a) op \<Rightarrow> ('w, 'a) op" where
  "held pf cs body w = (case body w of (r, w1) \<Rightarrow> (r, drop_contexts pf cs w1))"

definition retain_balanced :: "'w platform \<Rightarrow> ('w \<Rightarrow> int \<times> int \<times> 'w) \<Rightarrow> ('w, unit) op" where
  "retain_balanced pf device_count = when_gpu pf device_count
     (bindM (expectM (pc_retain pf 0)) (\<lambda>first. held pf [first]
       (bindM (assertM (pc_ctx first \<noteq> 0)) (\<lambda>_.
        bindM (forM [0 ..< 64 :: nat] (\<lambda>_. bindM (expectM (pc_retain pf 0)) (\<lambda>c.
          held pf [c] (assertM (pc_ctx c = pc_ctx first))))) (\<lambda>_.
        assertM (pc_device first = 0))))))"

definition guard_restores :: "'w platform \<Rightarrow> ('w \<Rightarrow> int \<times> int \<times> 'w) \<Rightarrow> ('w \<Rightarrow> int \<times> u64 \<times> 'w) \<Rightarrow> ('w, unit) op" where
  "guard_restores pf device_count cur = when_gpu pf device_count
     (bindM (expectM (pc_retain pf 0)) (\<lambda>ctx. held pf [ctx]
       (bindM (expectM (pc_bind pf ctx)) (\<lambda>_.
        bindM (current_context cur) (\<lambda>before.
        bindM (scoped (expectM (pc_enter pf ctx)) (guard_drop pf)
                 (bindM (current_context cur) (\<lambda>inside. assertM (inside = pc_ctx ctx)))) (\<lambda>_.
        bindM (current_context cur) (\<lambda>restored. assertM (restored = before))))))))"

definition registry_rejects :: "'w platform \<Rightarrow> ('w \<Rightarrow> int \<times> int \<times> 'w) \<Rightarrow> ('w, unit) op" where
  "registry_rejects pf device_count = when_gpu pf device_count
     (bindM (expectM (registry_new pf [0])) (\<lambda>reg. held pf (cr_contexts reg)
       (bindM (assertM (registry_len reg = 1)) (\<lambda>_.
        bindM (assertM (\<not> registry_is_empty reg)) (\<lambda>_.
        bindM (assert_ok (registry_get reg 0)) (\<lambda>_.
        expect_error (InvalidGpu 7) (registry_get reg 7)))))))"

section \<open>Programs that pass\<close>

text \<open>\<open>passes A m B\<close>: from a state of \<open>A\<close>, \<open>m\<close> returns a value, which with the state after it satisfies \<open>B\<close>.\<close>

definition passes :: "('s \<Rightarrow> bool) \<Rightarrow> ('s, 'a) op \<Rightarrow> ('a \<Rightarrow> 's \<Rightarrow> bool) \<Rightarrow> bool" where
  "passes A m B \<longleftrightarrow> (\<forall>s. A s \<longrightarrow> (\<exists>x t. m s = (Ok x, t) \<and> B x t))"

lemma passes_bindM: "passes A m B \<Longrightarrow> (\<And>x. passes (B x) (f x) C) \<Longrightarrow> passes A (bindM m f) C"
  unfolding passes_def bindM_def by fastforce

lemma passes_expectM: "passes A m B \<Longrightarrow> passes A (expectM m) B"
  unfolding passes_def by (metis expectM_run)

lemma passes_assertM: "(\<And>s. A s \<Longrightarrow> b) \<Longrightarrow> passes A (assertM b) (\<lambda>_. A)"
  by (auto simp: passes_def program_run)

lemma passes_retM: "(\<And>s. A s \<Longrightarrow> B x s) \<Longrightarrow> passes A (retM x) B"
  by (simp add: passes_def retM_def)

lemma passes_weaken: "passes A m B \<Longrightarrow> (\<And>s. A' s \<Longrightarrow> A s) \<Longrightarrow> (\<And>x s. B x s \<Longrightarrow> B' x s) \<Longrightarrow> passes A' m B'"
  unfolding passes_def by blast

lemma passes_forM: "(\<And>x. passes A (f x) (\<lambda>_. A)) \<Longrightarrow> passes A (forM xs f) (\<lambda>_. A)"
  by (induction xs) (auto intro: passes_retM passes_bindM)

lemma passes_if: "(b \<Longrightarrow> passes A m B) \<Longrightarrow> (\<not> b \<Longrightarrow> passes A n B) \<Longrightarrow> passes A (if b then m else n) B"
  by simp

section \<open>They pass\<close>

text \<open>
  A driver with device 0: its primary context is \<open>h\<close>, initialisation, retaining, releasing and counting
  leave the stack of current contexts of the thread, and the calls on the stack do what they say.
\<close>

definition context_stack ::
  "'w platform \<Rightarrow> ('w \<Rightarrow> int \<times> int \<times> 'w) \<Rightarrow> ('w \<Rightarrow> int \<times> u64 \<times> 'w) \<Rightarrow> ('w \<Rightarrow> u64 list) \<Rightarrow> u64 \<Rightarrow> bool" where
  "context_stack pf device_count cur stack h \<longleftrightarrow> h \<noteq> 0
     \<and> (\<forall>w. \<exists>w'. pf_init pf w = (0, w') \<and> stack w' = stack w)
     \<and> (\<forall>w. \<exists>w'. pf_ctx_retain pf 0 w = (0, h, w') \<and> stack w' = stack w)
     \<and> (\<forall>d w rc w'. pf_ctx_release pf d w = (rc, w') \<longrightarrow> stack w' = stack w)
     \<and> (\<forall>w rc n w'. device_count w = (rc, n, w') \<longrightarrow> stack w' = stack w)
     \<and> (\<forall>c w. \<exists>w'. pf_ctx_set_current pf c w = (0, w') \<and> stack w' = c # tl (stack w))
     \<and> (\<forall>c w. \<exists>w'. pf_ctx_push pf c w = (0, w') \<and> stack w' = c # stack w)
     \<and> (\<forall>w rc w'. pf_ctx_pop pf w = (rc, w') \<longrightarrow> stack w' = tl (stack w))
     \<and> (\<forall>w. stack w \<noteq> [] \<longrightarrow> (\<exists>w'. cur w = (0, hd (stack w), w') \<and> stack w' = stack w))"

text \<open>The calls of the tests on such a driver; \<open>st\<close> is the stack.\<close>

lemma stack_calls:
  assumes d: "context_stack pf device_count cur stack h"
  shows "passes (\<lambda>w. stack w = st) (pc_retain pf 0) (\<lambda>c w. stack w = st \<and> c = \<lparr>pc_device = 0, pc_ctx = h\<rparr>)"
    and "passes (\<lambda>w. stack w = st) (pc_bind pf c) (\<lambda>_ w. stack w = pc_ctx c # tl st)"
    and "passes (\<lambda>w. stack w = st) (pc_enter pf c) (\<lambda>_ w. stack w = pc_ctx c # st)"
    and "st \<noteq> [] \<Longrightarrow> passes (\<lambda>w. stack w = st) (current_context cur) (\<lambda>x w. stack w = st \<and> x = hd st)"
    and "passes (\<lambda>w. stack w = st) (gpu_available pf device_count) (\<lambda>_ w. stack w = st)"
    and "stack (guard_drop pf w) = tl (stack w)" and "stack (drop_contexts pf cs w) = stack w"
proof -
  note docs = d [unfolded context_stack_def]
  have calls: "\<exists>w'. pf_init pf w = (0, w') \<and> stack w' = stack w" "\<exists>w'. pf_ctx_retain pf 0 w = (0, h, w') \<and> stack w' = stack w"
    "\<exists>w'. pf_ctx_set_current pf x w = (0, w') \<and> stack w' = x # tl (stack w)"
    "\<exists>w'. pf_ctx_push pf x w = (0, w') \<and> stack w' = x # stack w"
    "stack w \<noteq> [] \<Longrightarrow> \<exists>w'. cur w = (0, hd (stack w), w') \<and> stack w' = stack w" for w x
    using docs by simp_all
  have ends: "stack (snd (pf_ctx_release pf dev w)) = stack w" "stack (snd (pf_ctx_pop pf w)) = tl (stack w)"
    "stack (snd (snd (device_count w))) = stack w" for w dev
    using docs by (cases "pf_ctx_release pf dev w", cases "pf_ctx_pop pf w", cases "device_count w", simp)+
  show "passes (\<lambda>w. stack w = st) (pc_retain pf 0) (\<lambda>c w. stack w = st \<and> c = \<lparr>pc_device = 0, pc_ctx = h\<rparr>)"
  proof (unfold passes_def, intro allI impI)
    fix w assume st: "stack w = st"
    obtain w1 where w1: "pf_init pf w = (0, w1)" "stack w1 = stack w" using calls(1) by blast
    obtain w2 where "pf_ctx_retain pf 0 w1 = (0, h, w2)" "stack w2 = stack w1" using calls(2) by blast
    with w1 st show "\<exists>x t. pc_retain pf 0 w = (Ok x, t) \<and> stack t = st \<and> x = \<lparr>pc_device = 0, pc_ctx = h\<rparr>"
      by (simp add: pc_retain_def bindM_def cu_run retM_def)
  qed
  show "passes (\<lambda>w. stack w = st) (pc_bind pf c) (\<lambda>_ w. stack w = pc_ctx c # tl st)"

  proof (unfold passes_def, intro allI impI)
    fix w assume st: "stack w = st"
    obtain w' where "pf_ctx_set_current pf (pc_ctx c) w = (0, w')" "stack w' = pc_ctx c # tl st" using calls(3) [where w = w] st by blast
    then show "\<exists>x t. pc_bind pf c w = (Ok x, t) \<and> stack t = pc_ctx c # tl st" by (simp add: pc_bind_def cu_run(1))
  qed
  show "passes (\<lambda>w. stack w = st) (pc_enter pf c) (\<lambda>_ w. stack w = pc_ctx c # st)"

  proof (unfold passes_def, intro allI impI)
    fix w assume st: "stack w = st"
    obtain w' where "pf_ctx_push pf (pc_ctx c) w = (0, w')" "stack w' = pc_ctx c # st" using calls(4) [where w = w] st by blast
    then show "\<exists>x t. pc_enter pf c w = (Ok x, t) \<and> stack t = pc_ctx c # st" by (simp add: pc_enter_def cu_run(1))
  qed
  show "passes (\<lambda>w. stack w = st) (current_context cur) (\<lambda>x w. stack w = st \<and> x = hd st)" if "st \<noteq> []"
    using that calls(5) by (fastforce simp: passes_def current_context_def)
  show "passes (\<lambda>w. stack w = st) (gpu_available pf device_count) (\<lambda>_ w. stack w = st)"
  proof (unfold passes_def, intro allI impI)
    fix w assume st: "stack w = st"
    obtain w1 where w1: "pf_init pf w = (0, w1)" "stack w1 = stack w" using calls(1) by blast
    show "\<exists>x t. gpu_available pf device_count w = (Ok x, t) \<and> stack t = st"
      using w1 st ends(3) [of w1] by (simp add: gpu_available_def case_prod_beta)
  qed
  show "stack (guard_drop pf w) = tl (stack w)" by (simp add: guard_drop_def cu_ignore_def ends(2))
  show "stack (drop_contexts pf cs w) = stack w"
    unfolding drop_contexts_def by (induction cs arbitrary: w) (simp_all add: pc_drop_def cu_ignore_def ends(1))
qed

lemma passes_when_gpu:
  assumes "context_stack pf device_count cur stack h" and "passes (\<lambda>w. stack w = st) body (\<lambda>_ w. stack w = st')"
  shows "passes (\<lambda>w. stack w = st) (when_gpu pf device_count body) (\<lambda>_ _. True)"
  unfolding when_gpu_def
  by (rule passes_bindM [OF stack_calls(5) [OF assms(1)]])
    (intro passes_if passes_retM TrueI passes_weaken [OF assms(2)])

lemma passes_held:
  assumes "context_stack pf device_count cur stack h" and "passes (\<lambda>w. stack w = st) body (\<lambda>_ w. stack w = st')"
  shows "passes (\<lambda>w. stack w = st) (held pf cs body) (\<lambda>_ w. stack w = st')"
  using assms(2) stack_calls(7) [OF assms(1)] by (fastforce simp: passes_def held_def)

lemma passes_scoped:
  assumes "context_stack pf device_count cur stack h" and "passes A acquire (\<lambda>_. B)" and "passes B body (\<lambda>_ w. stack w = x # st)"
  shows "passes A (scoped acquire (guard_drop pf) body) (\<lambda>_ w. stack w = st)"
  unfolding passes_def
proof (intro allI impI)
  fix s assume "A s"
  then obtain y t where t: "acquire s = (Ok y, t)" "B t" using assms(2) by (auto simp: passes_def)
  moreover obtain z u where "body t = (Ok z, u)" "stack u = x # st" using assms(3) t(2) by (auto simp: passes_def)
  ultimately show "\<exists>x t. scoped acquire (guard_drop pf) body s = (Ok x, t) \<and> stack t = st"
    by (simp add: scoped_def stack_calls(6) [OF assms(1)])
qed

lemma passes_pure: "passes A m (\<lambda>x s. A' s \<and> x = y) \<Longrightarrow> passes A' (f y) C \<Longrightarrow> passes A (bindM m f) C"
  by (rule passes_bindM, assumption) (auto simp: passes_def)

text \<open>
  The three tests pass: retaining the context of a device again gives the same handle, a guard restores the
  context that was current, and the registry answers an index past its end with an error.
\<close>

lemma context_tests:
  assumes d: "context_stack pf device_count cur stack h"
  shows "fst (retain_balanced pf device_count w) = Ok ()" "fst (guard_restores pf device_count cur w) = Ok ()" "fst (registry_rejects pf device_count w) = Ok ()"
proof -
  let ?A = "\<lambda>st w. stack w = st" and ?c = "\<lparr>pc_device = 0, pc_ctx = h\<rparr>"
  note call = stack_calls [OF d] and retained = passes_pure [OF passes_expectM [OF stack_calls(1) [OF d]]]
  have h: "h \<noteq> 0" using d by (simp add: context_stack_def)
  have ok: "fst (m w) = Ok ()" if "passes (?A (stack w)) m (\<lambda>_ _. True)" for m :: "('a, unit) op"
    using that by (fastforce simp: passes_def)
  have one: "passes (?A st) (bindM (expectM (pc_retain pf 0)) (\<lambda>c. held pf [c] (assertM (pc_ctx c = pc_ctx ?c)))) (\<lambda>_. ?A st)" for st
    by (rule retained, rule passes_held [OF d], rule passes_assertM) simp
  show "fst (retain_balanced pf device_count w) = Ok ()" unfolding retain_balanced_def
    by (rule ok, rule passes_when_gpu [OF d], rule retained, rule passes_held [OF d],
        rule passes_bindM [OF passes_assertM], use h in simp, rule passes_bindM [OF passes_forM [OF one]], rule passes_assertM) simp
  have inside: "passes (?A (h # s)) (bindM (current_context cur) (\<lambda>inside. assertM (inside = pc_ctx ?c))) (\<lambda>_. ?A (h # s))" for s
    by (rule passes_pure [OF call(4)], simp, rule passes_assertM) simp
  have bound: "passes (?A st) (expectM (pc_bind pf ?c)) (\<lambda>_. ?A (h # tl st))"
    and entered: "passes (?A st) (expectM (pc_enter pf ?c)) (\<lambda>_. ?A (h # st))" for st
    using passes_expectM [OF call(2) [of st ?c]] passes_expectM [OF call(3) [of st ?c]] by simp_all
  show "fst (guard_restores pf device_count cur w) = Ok ()" unfolding guard_restores_def
    by (rule ok, rule passes_when_gpu [OF d], rule retained, rule passes_held [OF d], rule passes_bindM [OF bound],
        rule passes_pure [OF call(4)], simp, rule passes_bindM [OF passes_scoped [OF d entered inside]],
        rule passes_pure [OF call(4)], simp, rule passes_assertM) simp
  have new: "passes (?A st) (registry_new pf [0]) (\<lambda>r s. stack s = st \<and> r = \<lparr>cr_contexts = [?c]\<rparr>)" for st
    using call(1) [of st] by (fastforce simp: passes_def registry_new_def bindM_def retM_def)
  have get: "passes (?A st) (assert_ok (registry_get \<lparr>cr_contexts = [?c]\<rparr> 0)) (\<lambda>_. ?A st)"
    "passes (?A st) (expect_error (InvalidGpu 7) (registry_get \<lparr>cr_contexts = [?c]\<rparr> 7)) (\<lambda>_. ?A st)" for st
    by (simp_all add: passes_def program_run registry_get_def vec_get_def ok_or_def retM_def errM_def)
  show "fst (registry_rejects pf device_count w) = Ok ()" unfolding registry_rejects_def
    by (rule ok, rule passes_when_gpu [OF d], rule passes_pure [OF passes_expectM [OF new]], rule passes_held [OF d],
        rule passes_bindM [OF passes_assertM], simp add: registry_len_def, rule passes_bindM [OF passes_assertM],
        simp add: registry_is_empty_def, rule passes_bindM [OF get(1)], rule get(2))
qed

text \<open>Such a driver: a stack and nothing else.\<close>

definition stack_driver :: "u64 list platform" where
  "stack_driver = idle_platform\<lparr>pf_ctx_set_current := (\<lambda>c st. (0, c # tl st)), pf_ctx_push := (\<lambda>c st. (0, c # st)),
     pf_ctx_pop := (\<lambda>st. (0, tl st))\<rparr>"

lemma stack_driver_docs: "context_stack stack_driver (\<lambda>st. (0, 1, st)) (\<lambda>st. (0, hd st, st)) (\<lambda>st. st) 1"
  by (simp add: context_stack_def stack_driver_def idle_platform_def)

section \<open>The foreign modules\<close>

definition null_handles_test :: bool where
  "null_handles_test \<longleftrightarrow> deviceptr_is_null CUdeviceptr_NULL \<and> stream_is_default CUstream_NULL \<and> context_is_null CUcontext_NULL"

definition null_program_test :: bool where
  "null_program_test \<longleftrightarrow> program_is_null nvrtcProgram_NULL \<and> program_is_null nvrtcProgram_default"

definition missing_symbol_test :: "'w linker \<Rightarrow> (usize \<Rightarrow> 'w \<Rightarrow> int \<times> 'w) \<Rightarrow> ('w process, unit) op" where
  "missing_symbol_test ld init =
     bindM (cuda_entry ld ''cuInit'' init) (\<lambda>r.
     assertM (r = CUDA_SUCCESS \<or> r = CUDA_ERROR_NOT_FOUND \<or> r = CUDA_ERROR_NO_DEVICE))"

definition error_name_test :: "'w linker \<Rightarrow> ('w process, unit) op" where
  "error_name_test ld =
     forM [CUDA_ERROR_OUT_OF_MEMORY, CUDA_ERROR_NOT_FOUND, 31337] (\<lambda>code.
       bindM (error_name ld code) (\<lambda>msg. assertM (msg \<noteq> [])))"

definition error_string_test :: "'w linker \<Rightarrow> ('w process, unit) op" where
  "error_string_test ld =
     forM [NVRTC_SUCCESS, NVRTC_ERROR_COMPILATION, NVRTC_ERROR_INVALID_PROGRAM, NVRTC_ERROR_NOT_FOUND, -12345] (\<lambda>code.
       bindM (nvrtc_error_string ld code) (\<lambda>msg. assertM (msg \<noteq> [])))"

text \<open>The two out-parameters of \<open>nvrtcVersion\<close> are read from the world it leaves.\<close>

definition version_query_test ::
  "'w linker \<Rightarrow> (usize \<Rightarrow> 'w \<Rightarrow> int \<times> 'w) \<Rightarrow> ('w \<Rightarrow> int \<times> int) \<Rightarrow> ('w process, unit) op" where
  "version_query_test ld query version =
     bindM (nvrtc_entry ld ''nvrtcVersion'' query) (\<lambda>rc.
     if rc = NVRTC_SUCCESS
     then checkM (\<lambda>s. case version (ps_world s) of (major, minor) \<Rightarrow> 7 \<le> major \<and> 0 \<le> minor)
     else assertM (rc = NVRTC_ERROR_NOT_FOUND))"

text \<open>The library cells hold a handle or the error of the open, and a lookup never fails.\<close>

definition cells :: "'w process \<Rightarrow> bool" where
  "cells s \<longleftrightarrow> cell_ok (ps_cuda s) \<and> cell_ok (ps_nvrtc s)"

lemma open_lib_cell: "cell_ok (Some (fst (open_lib ld soname names w)))"
  using open_first_handle [of ld "soname # names" w]
  by (cases "open_first ld (soname # names) w") (auto simp: open_lib_def cell_ok_def split: option.splits)

lemma cell_result: "cell_ok (Some r) \<Longrightarrow> library_result soname r \<noteq> Panic"
  by (auto simp: cell_ok_def library_result_def split: sum.splits)

lemma cuda_module_cells:
  assumes "cells s" shows "\<exists>r t. cuda_module ld s = (r, t) \<and> r \<noteq> Panic \<and> cells t"
proof (cases "ps_cuda s")
  case None
  obtain x w where o: "open_lib ld CUDA_SONAME [''libcuda.so'', ''cuda''] (ps_world s) = (x, w)" by force
  from open_lib_cell [of ld CUDA_SONAME "[''libcuda.so'', ''cuda'']" "ps_world s"] have "cell_ok (Some x)" by (simp add: o)
  with None o assms show ?thesis by (simp add: cuda_module_def cells_def cell_result)
qed (use assms in \<open>simp add: cuda_module_def cells_def cell_result\<close>)

lemma nvrtc_module_cells:
  assumes "cells s" shows "\<exists>r t. nvrtc_module ld s = (r, t) \<and> r \<noteq> Panic \<and> cells t"
proof (cases "ps_nvrtc s")
  case None
  let ?names = "[''libnvrtc.so.13'', ''libnvrtc.so.12'', ''libnvrtc.so.11'', ''libnvrtc.so.10'', ''libnvrtc.so'']"
  obtain x w where o: "open_lib ld NVRTC_SONAME ?names (ps_world s) = (x, w)" by force
  from open_lib_cell [of ld NVRTC_SONAME ?names "ps_world s"] have "cell_ok (Some x)" by (simp add: o)
  with None o assms show ?thesis by (simp add: nvrtc_module_def cells_def cell_result)
qed (use assms in \<open>simp add: nvrtc_module_def cells_def cell_result\<close>)

lemma passes_catchM:
  assumes "\<And>s. A s \<Longrightarrow> \<exists>r t. m s = (r, t) \<and> r \<noteq> Panic \<and> A t" shows "passes A (catchM m) (\<lambda>_. A)"
  unfolding passes_def
proof (intro allI impI)
  fix s assume "A s"
  then obtain r t where "m s = (r, t)" "r \<noteq> Panic" "A t" using assms by blast
  then show "\<exists>x t. catchM m s = (Ok x, t) \<and> A t" by (cases r) (simp_all add: catchM_def)
qed

lemma lookups:
  "passes cells (cuda_sym_addr ld name) (\<lambda>_. cells)" "passes cells (nvrtc_sym_addr ld name) (\<lambda>_. cells)"
proof -
  have "passes cells (catchM (cuda_module ld)) (\<lambda>_. cells)" "passes cells (catchM (nvrtc_module ld)) (\<lambda>_. cells)"
    by (rule passes_catchM, erule cuda_module_cells, rule passes_catchM, erule nvrtc_module_cells)
  note found = this
  show "passes cells (cuda_sym_addr ld name) (\<lambda>_. cells)" unfolding cuda_sym_addr_def
    by (rule passes_bindM [OF found(1)]) (auto simp: passes_def cells_def retM_def split: sum.splits prod.splits)
  show "passes cells (nvrtc_sym_addr ld name) (\<lambda>_. cells)" unfolding nvrtc_sym_addr_def
    by (rule passes_bindM [OF found(2)]) (auto simp: passes_def cells_def retM_def split: sum.splits prod.splits)
qed

lemma addresses: "passes cells (cuda_addr ld name) (\<lambda>_. cells)" "passes cells (nvrtc_addr ld name) (\<lambda>_. cells)"
  using lookups [of ld name] by (fastforce simp: passes_def cuda_addr_def nvrtc_addr_def bindM_def cells_def split: option.splits)+

text \<open>An entry point answers its missing-symbol code or what the foreign function answers.\<close>

lemma entries:
  assumes "\<And>a w. P (fst (call a w)) (snd (call a w))"
  shows "passes cells (cuda_entry ld name call) (\<lambda>r s. cells s \<and> (r = CUDA_ERROR_NOT_FOUND \<or> P r (ps_world s)))"
    and "passes cells (nvrtc_entry ld name call) (\<lambda>r s. cells s \<and> (r = NVRTC_ERROR_NOT_FOUND \<or> P r (ps_world s)))"
  unfolding cuda_entry_def nvrtc_entry_def using assms
  by (intro passes_bindM [OF addresses(1)] passes_bindM [OF addresses(2)];
      fastforce simp: passes_def cells_def retM_def case_prod_beta)+

lemma missing_symbol_passes:
  assumes "\<And>a w. fst (init a w) \<in> {CUDA_SUCCESS, CUDA_ERROR_NO_DEVICE}"
  shows "passes cells (missing_symbol_test ld init) (\<lambda>_. cells)"
  unfolding missing_symbol_test_def
  by (rule passes_bindM [OF entries(1) [where P = "\<lambda>r w. r \<in> {CUDA_SUCCESS, CUDA_ERROR_NO_DEVICE}"]], rule assms)
    (auto simp: passes_def program_run)

lemma version_query_passes:
  assumes "\<And>a w. fst (query a w) = NVRTC_SUCCESS" and "\<And>a w. 7 \<le> fst (version (snd (query a w))) \<and> 0 \<le> snd (version (snd (query a w)))"
  shows "passes cells (version_query_test ld query version) (\<lambda>_. cells)"
  unfolding version_query_test_def
  by (rule passes_bindM [OF entries(2) [where P = "\<lambda>r w. r = NVRTC_SUCCESS \<and> 7 \<le> fst (version w) \<and> 0 \<le> snd (version w)"]])
    (use assms in \<open>auto simp: passes_def program_run NVRTC_SUCCESS_def NVRTC_ERROR_NOT_FOUND_def split: prod.splits\<close>)

lemma error_string_passes: "passes cells (error_string_test ld) (\<lambda>_. cells)"
proof -
  have "passes cells (nvrtc_error_string ld code) (\<lambda>msg s. cells s \<and> msg \<noteq> [])" for code
    unfolding nvrtc_error_string_def nvrtc_get_error_string_def
    by (rule passes_if, simp add: passes_retM, rule passes_bindM [where B = "\<lambda>_. cells"], rule passes_bindM [OF addresses(2)])
      (auto simp: passes_def cells_def retM_def split: prod.splits option.splits)
  then show ?thesis unfolding error_string_test_def
    by (intro passes_forM) (rule passes_bindM, assumption, auto simp: passes_def program_run)
qed

lemma error_name_passes:
  assumes "\<And>addr code w. snd (fst (dl_text ld addr code w)) \<noteq> Some []"
  shows "passes cells (error_name_test ld) (\<lambda>_. cells)"
proof -
  have named: "dl_text ld addr code w = ((rc, Some z), w') \<Longrightarrow> utf8_lossy z \<noteq> []" for addr code w rc z w'
    using assms [of addr code w] utf8_lossy_empty by auto
  have "passes cells (driver_error_string ld symbol code) (\<lambda>msg s. cells s \<and> msg \<noteq> Some [])" for symbol code
    unfolding driver_error_string_def using named
    by (intro passes_bindM [OF lookups(1)] passes_if passes_retM) (auto simp: passes_def cells_def split: prod.splits)
  then have "passes cells (error_name ld code) (\<lambda>msg s. cells s \<and> msg \<noteq> [])" for code
    unfolding error_name_def by (rule passes_bindM) (auto simp: passes_def retM_def split: option.splits)
  then show ?thesis unfolding error_name_test_def
    by (intro passes_forM) (rule passes_bindM, assumption, auto simp: passes_def program_run)
qed

text \<open>
  The tests of the foreign modules pass in every process whose libraries are unopened, open or missing, with any linker: with \<open>cuInit\<close> answering success or no
  device, \<open>nvrtcVersion\<close> answering a version from 7 on, and a driver that never names a status with the empty string.
\<close>

lemma new_process_cells: "cells new_process"
  by (simp add: cells_def new_process_def cell_ok_def)

lemma foreign_tests:
  assumes "\<And>a w. fst (init a w) \<in> {CUDA_SUCCESS, CUDA_ERROR_NO_DEVICE}"
    and "\<And>a w. fst (query a w) = NVRTC_SUCCESS" and "\<And>a w. 7 \<le> fst (version (snd (query a w))) \<and> 0 \<le> snd (version (snd (query a w)))"
    and "\<And>addr code w. snd (fst (dl_text ld addr code w)) \<noteq> Some []" and s: "cells s"
  shows "fst (missing_symbol_test ld init s) = Ok ()" "fst (version_query_test ld query version s) = Ok ()"
    "fst (error_string_test ld s) = Ok ()" "fst (error_name_test ld s) = Ok ()"
    "null_handles_test" "null_program_test"
proof -
  have ok: "fst (m s) = Ok ()" if "passes cells m (\<lambda>_. cells)" for m
    using that s by (fastforce simp: passes_def)
  show "fst (missing_symbol_test ld init s) = Ok ()" "fst (version_query_test ld query version s) = Ok ()"
    "fst (error_string_test ld s) = Ok ()" "fst (error_name_test ld s) = Ok ()"
    by (rule ok, intro missing_symbol_passes version_query_passes error_string_passes error_name_passes assms)+
  show "null_handles_test" "null_program_test" using null_handles by (simp_all add: null_handles_test_def null_program_test_def)
qed

end
