(* ===== verification/Spec2Isabelle.thy ===== *)
theory Spec2Isabelle
  imports DramPool Vmt Dma Membrane Spill Driver Gpu Tiered TieredStore VramCache Promotion DeviceMemory
    WarmTier Engine Kernels Loader Prefetch Lifetime RingLiveness PoolCalls Ledger Ownership Hazards
    Flight PoolTypes Isolation EngineCalls Examples PaperTests DriverTests
begin

text \<open>
  VUGVA is a Rust library that presents the memory of several GPUs, the host's DRAM and a spill file
  as one pool of named pages. This development models the library as functional programs and proves
  what makes each part correct.

  \<^bold>\<open>The program.\<close> \<open>TieredPool\<close> (\<open>src/tiered.rs\<close>) is the centre: it files pages in a virtual memory
  table (\<open>src/vmt.rs\<close>), backs them with host memory from one DRAM pool per GPU or with a range of the
  spill file (\<open>src/spill.rs\<close>, over the allocator of \<open>src/range_alloc.rs\<close>), brings them into device
  memory on access and moves them back, by idle time or as the membrane (\<open>src/membrane.rs\<close>) plans.
  Each migration is announced in a ring of descriptors (\<open>src/dma.rs\<close>) and carried out through the
  contexts (\<open>src/context.rs\<close>), streams and events (\<open>src/streams.rs\<close>) of the GPUs that
  \<open>src/gpu.rs\<close> discovered. \<open>VugvaEngine\<close> (\<open>src/allocator.rs\<close>) is the first generation of the same
  idea, with device memory only. \<open>src/nvrtc_kernel.rs\<close> compiles kernels, \<open>src/ffi\<close> binds the driver
  at run time, \<open>src/prefetch.rs\<close> keeps a list of transfers to wait for.

  \<^bold>\<open>Conventions.\<close> A structure is a record with the fields of the source, a 64-bit unsigned integer a
  natural number below \<open>W64\<close> with the reduction of every operation that can leave the range written
  out (\<open>uadd\<close>, \<open>usub\<close>, \<open>umul\<close>, as the release build computes), a 32-bit counter a word. A fallible
  operation is a function from a state to an outcome and the state it leaves; the outcome is a value,
  an error or a panic, and \<open>bindM\<close> is the \<open>?\<close> operator. A panic is an unwrapped \<open>None\<close>, an index out
  of range, a division by zero; a destructor that runs as an error propagates is written out
  (\<open>scoped\<close>, \<open>finallyM\<close>, \<open>on_failure\<close>, and the drops of the accumulated vectors). A hash map is a
  map, and where the code iterates over one the order is an argument, so what is proved holds for
  each order. Strings are lists of bytes.

  \<^bold>\<open>What is outside.\<close> The CUDA driver, the compiler library, the dynamic linker, the kernel's
  memory calls, files, the clock and the environment are fields of the records \<open>platform\<close>
  (\<open>Driver\<close>), \<open>compiler\<close> (\<open>Kernels\<close>) and \<open>linker\<close> (\<open>Loader\<close>), functions over an opaque world. What a
  theorem relies on of them is a predicate of the record that states their documented behaviour
  (\<open>counts_references\<close>, \<open>streams_in_context\<close>, \<open>device_blocks\<close>, \<open>driver_blocks\<close>, \<open>device_memory\<close>,
  \<open>device_heap\<close>, \<open>healthy\<close>, \<open>events_work\<close>, \<open>peer_copies\<close>, \<open>counts_kernels\<close>, \<open>cannot_open\<close>,
  \<open>copies_at_most\<close>, \<open>mappings_apart\<close>, \<open>pointers\<close>, \<open>context_stack\<close>), and each theorem that uses one has a witness with a concrete
  machine. The results of file I/O are arguments of the spill file's operations.

  \<^bold>\<open>The theories.\<close>
  \<^item> \<open>Prelude\<close>: integers with wrap-around, vectors by index, the collections \<open>usize_simps\<close>,
    \<open>vec_simps\<close>, \<open>run_simps\<close> and \<open>keeps_intros\<close>. \<open>Errors\<close>: \<open>src/lib.rs\<close>, the sequencing of
    operations, and \<open>keeps\<close>, which carries the invariants through programs. \<open>Binary64\<close>: the rounding
    of the double-precision operations the membrane uses.
  \<^item> \<open>Region\<close>: the interface of a range allocator as a locale, with the histories of a client and the
    absence of aliasing and leaks proved once from its laws. \<open>RangeAlloc\<close> models
    \<open>src/range_alloc.rs\<close> and interprets it; \<open>DramPool\<close> models \<open>struct DramPool\<close> of \<open>src/tiered.rs\<close>,
    shows that it is the same allocator shifted by the base address, and interprets it again. The
    invariant is a sorted, coalesced free list below the high-water mark.
  \<^item> \<open>Vmt\<close>: pages, the transition relation of their states, the table. \<open>Dma\<close>: the ring as a
    sequential queue (a refinement of a list, with the locale of a bounded queue) and as the
    interleaving of the atomic accesses of one producer and one consumer (an inductive step relation
    and its invariant), and the engine that routes to the rings. \<open>RingLiveness\<close>: the infinite runs of
    those steps, and that every descriptor is delivered.
  \<^item> \<open>Membrane\<close>: rates, score and plan. \<open>Spill\<close>: the file as a list of bytes with its allocator.
  \<^item> \<open>Driver\<close>: the platform, primary contexts and their guards and registry, streams, events and the
    stream pool. \<open>Gpu\<close>: the topology parser, peer access, discovery, the choice of DRAM nodes.
  \<^item> \<open>Tiered\<close>: every operation of \<open>TieredPool\<close> over the parts above. \<open>TieredStore\<close> proves allocation,
    release and writing; \<open>VramCache\<close> the cache of device blocks; \<open>Promotion\<close> what promotion, demotion
    and the sweeps leave alone (the locale \<open>pool_frame\<close>, interpreted for another page and for the
    fixed parts of the pool); \<open>DeviceMemory\<close> and \<open>WarmTier\<close> follow the bytes of a page through the
    tiers on a driver that copies what it is told to, and \<open>Lifetime\<close> follows a tensor from \<open>allocate\<close>
    through \<open>write_page\<close> and \<open>access\<close> to \<open>deallocate\<close>. \<open>Flight\<close> is about a prefetch and the access that
    claims it, \<open>Hazards\<close> about pages on two GPUs.
  \<^item> \<open>PoolCalls\<close>: the public operations of the pool as a datatype of calls, the state a call leaves
    and the run of a sequence of calls. Three invariants are carried over these runs: \<open>Ledger\<close> keeps the
    multiset of the device blocks in the caches, the transfers and the pages, and \<open>Ownership\<close> shows
    that no block is in two hands; \<open>PoolTypes\<close> keeps the shape of the pool, and shows with it that no
    call panics, by the calculus of \<open>Progress\<close>: operations that return or fail under a precondition
    (\<open>sure\<close>). The third is the place of the bytes: \<open>Extents\<close> lays the shards of the pages and the staging buffers out
    in the DRAM pools, \<open>Calm\<close> shows which host bytes promotion, demotion and writing leave alone,
    \<open>ColdFile\<close> does the same for the ranges of the spill file, and \<open>Isolation\<close> concludes that a call
    leaves the bytes of the pages it does not name; it also shows what a second spill file does to the
    pages of the first.
  \<^item> \<open>Engine\<close>, \<open>Kernels\<close>, \<open>Loader\<close>, \<open>Prefetch\<close>: \<open>src/allocator.rs\<close>, \<open>src/nvrtc_kernel.rs\<close>,
    \<open>src/ffi\<close> (with the UTF-8 conversion its texts go through) and \<open>src/prefetch.rs\<close>. \<open>EngineCalls\<close>
    is about the histories of the engine's calls, none of which panics, and \<open>Examples\<close> about the
    programs under \<open>examples/\<close> as clients: a triple calculus (\<open>safe\<close>) follows the table through them.
  \<^item> \<open>Foreign\<close> holds the prototype tables, handle types and constants of \<open>src/ffi\<close> as data, and
    shows to which symbols the wrappers made from the tables bind over a history of calls.
  \<^item> \<open>Programs\<close>: the assertions and unwraps of tests and examples. \<open>UnitTests\<close> and
    \<open>MembraneTests\<close> are the \<open>mod tests\<close> of the modules as programs over the models, those of the membrane
    in binary64, and \<open>PaperTests\<close> the tests of \<open>tests/proofs.rs\<close>, with the layout of a descriptor. Each is
    run to its end. \<open>DriverTests\<close> holds the tests that ask the machine: they pass with a driver that keeps a
    stack of contexts, and with every linker (a calculus \<open>passes\<close> of programs that return).

  \<^bold>\<open>What is shown.\<close> No two live ranges, device blocks or chunks alias over any
  history, and what is returned restores the state: for the range allocator, the DRAM pools, the
  cache of device blocks, \<open>allocate\<close> and \<open>deallocate\<close> of the pool, and
  those of the engine, failed allocations included. Over every history of calls of the pool no device
  block is in two hands, as long as no demotion fails half way, no call panics, and no call changes
  the bytes that a page it does not replace has in host memory, or in the file as long as no spill file
  is attached over one that pages still need; no allocation is to be for a size that runs past the 64
  bits with the capacity of a pool. A page's bytes survive writing to the spill
  file, the streamed promotion from it, demotion and the promotion after it, and a new tensor's
  reach each GPU and leave the pools as they were. No call of an engine panics either, nor does an example, except
  for the one that unwraps a transition the state machine refuses. The ring is a first-in first-out queue under
  every interleaving, for fewer than \<open>2 ^ 32\<close> submissions, every descriptor is
  delivered as long as the consumer runs (with the same bound), and it is shown what happens when the counter wraps. The
  plan splits the candidates, keeps pinned pages, respects the mark, and does not depend on the
  order; no sweep moves a pinned page. References to contexts are balanced on every path of
  construction and drop; streams are created in the right context. Each function's errors are
  characterised where they matter: exhaustion, a full ring, a failed write, a missing driver, a
  failed compilation. The models pass the tests of the code. Several theorems
  state a defect of the code as it is, and say so in their text.

  \<^bold>\<open>Fuel.\<close> The only loop whose recursion is not structural or by a measure is the streaming of a cold
  page: \<open>stage_loop\<close> has fuel, \<open>access\<close> gives it as many rounds as the page has bytes, and
  \<open>stage_loop_returns\<close> shows that this is enough for every staging buffer that is not empty. With an
  empty buffer the loop of the code does not end; the buffer the code chooses is empty only for an
  empty page, which takes no round.

  \<^bold>\<open>Not modelled.\<close> \<open>Display\<close> and \<open>Debug\<close> output, the version constant, the getters of raw handles,
  the capacity hints of vectors, \<open>Send\<close> and \<open>Sync\<close> declarations, the output of the examples, the
  documents, the tests on hardware (\<open>tests/hardware.rs\<close>). Memory orderings are those of
  sequential consistency. A copy on a stream is given its source bytes as they are when it is issued
  (\<open>pf_htod_async\<close>), though the driver may read pinned memory as late as when it runs it. The code waits
  for each copy before it goes on, except for the prefetch, whose claim waits for its event: what is
  stated of the bytes of a prefetch is for a source that is not written before the claim.
\<close>

end
